(* ===== verification/Prelude.thy ===== *)
theory Prelude
  imports Main "HOL-Library.Word" "HOL-Library.Sublist" "HOL-Library.Char_ord"
    "HOL-Library.List_Lexorder"
begin

text \<open>
  What every component shares: Go's errors with wrapping, decimal and quoted rendering of values
  in messages, and generic lemmas on lists, association lists and maps.

  Conventions of the whole development. A Go string is a list of bytes (\<open>char list\<close>).
  An operation that returns \<open>(T, error)\<close> returns \<open>error + 'a\<close>, the error on the left.
  A nil slice and an empty slice are one value, the empty list; so are a nil and an empty map:
  the code tells them apart only to normalise them. A 64-bit unsigned counter whose overflow
  the code checks is a \<open>64 word\<close>; a 64-bit signed timestamp is an \<open>int\<close>, its bound
  written out where the code tests it.
\<close>

section \<open>Automation\<close>

named_theorems spec_defs \<open>definitions a component unfolds together\<close>
named_theorems acts_rules \<open>which actions an agent phase can append to its log\<close>

section \<open>Errors\<close>

text \<open>
  \<open>ErrMsg\<close> is \<open>errors.New\<close> or \<open>fmt.Errorf\<close> without \<open>%w\<close>;
  \<open>ErrWrap p e q\<close> is \<open>fmt.Errorf\<close> with \<open>%w\<close>: the text before the wrapped error, the
  error, the text after. \<open>ErrSessionConflict\<close> is the sentinel of storage/metadata.
\<close>

datatype error =
    ErrMsg string
  | ErrSessionConflict
  | ErrWrap string error string
  | ErrPanic string

text \<open>
  \<open>ErrPanic\<close> is no error value of the program: it stands for a panic on its way up, which no code
  of the repository recovers from.
\<close>

fun is_panic :: "error \<Rightarrow> bool" where
  "is_panic (ErrPanic m) = True"
| "is_panic _ = False"

definition nil_deref :: error where
  "nil_deref = ErrPanic ''runtime error: invalid memory address or nil pointer dereference''"

lemma is_panic_nil_deref [simp]: "is_panic nil_deref"
  by (simp add: nil_deref_def)

text \<open>The text \<open>Error()\<close> returns, and \<open>errors.Is(err, ErrSessionConflict)\<close>.\<close>

fun error_text :: "error \<Rightarrow> string" where
  "error_text (ErrMsg m) = m"
| "error_text ErrSessionConflict = ''metadata: session revision conflict''"
| "error_text (ErrWrap p e q) = p @ error_text e @ q"
| "error_text (ErrPanic m) = m"

fun is_conflict :: "error \<Rightarrow> bool" where
  "is_conflict (ErrMsg m) = False"
| "is_conflict ErrSessionConflict = True"
| "is_conflict (ErrWrap p e q) = is_conflict e"
| "is_conflict (ErrPanic m) = False"

abbreviation wrapf :: "string \<Rightarrow> error \<Rightarrow> error" where
  "wrapf p e \<equiv> ErrWrap (p @ '': '') e []"

abbreviation is_ok :: "'e + 'a \<Rightarrow> bool" where
  "is_ok r \<equiv> \<not> isl r"

section \<open>Decimal numbers and quoting\<close>

definition digit_char :: "nat \<Rightarrow> char" where
  "digit_char d = char_of (48 + d)"

definition is_digit :: "char \<Rightarrow> bool" where
  "is_digit c \<longleftrightarrow> 48 \<le> (of_char c :: nat) \<and> (of_char c :: nat) \<le> 57"

definition digit_val :: "char \<Rightarrow> nat" where
  "digit_val c = of_char c - 48"

fun nat_text :: "nat \<Rightarrow> string" where
  "nat_text n = (if n < 10 then [digit_char n] else nat_text (n div 10) @ [digit_char (n mod 10)])"

declare nat_text.simps [simp del]

definition int_text :: "int \<Rightarrow> string" where
  "int_text i = (if i < 0 then CHR ''-'' # nat_text (nat (- i)) else nat_text (nat i))"

definition digits_val :: "string \<Rightarrow> nat" where
  "digits_val s = foldl (\<lambda>acc c. 10 * acc + digit_val c) 0 s"

lemma of_char_digit_char: "d < 10 \<Longrightarrow> (of_char (digit_char d) :: nat) = 48 + d"
  by (simp add: digit_char_def)

lemma is_digit_digit_char [simp]: "d < 10 \<Longrightarrow> is_digit (digit_char d)"
  by (simp add: is_digit_def of_char_digit_char)

lemma digit_val_digit_char [simp]: "d < 10 \<Longrightarrow> digit_val (digit_char d) = d"
  by (simp add: digit_val_def of_char_digit_char)

lemma nat_text_nonempty [simp]: "nat_text n \<noteq> []"
  by (subst nat_text.simps) simp

lemma nat_text_digits: "list_all is_digit (nat_text n)"
proof (induction n rule: nat_text.induct)
  case (1 n)
  then show ?case by (subst nat_text.simps) simp
qed

lemma digits_val_nat_text [simp]: "digits_val (nat_text n) = n"
proof (induction n rule: nat_text.induct)
  case (1 n)
  show ?case
  proof (cases "n < 10")
    case True
    then show ?thesis by (subst nat_text.simps) (simp add: digits_val_def)
  next
    case False
    then have "digits_val (nat_text (n div 10)) = n div 10" by (rule 1)
    then show ?thesis using False by (subst nat_text.simps) (simp add: digits_val_def)
  qed
qed

text \<open>
  \<open>%q\<close> of the fmt package on ASCII text: the quote, the backslash and the control characters
  are escaped; bytes of valid UTF-8 above 127 are copied.
\<close>

definition hex_digit :: "nat \<Rightarrow> char" where
  "hex_digit d = (if d < 10 then char_of (48 + d) else char_of (87 + d))"

definition hex_of :: "string \<Rightarrow> string" where
  "hex_of b = concat (map (\<lambda>c. [hex_digit (of_char c div 16), hex_digit (of_char c mod 16)]) b)"

definition quote_char :: "char \<Rightarrow> string" where
  "quote_char c = (let n = of_char c :: nat in
     if n = 34 then [CHR 0x5C, CHR 0x22]
     else if n = 92 then [CHR 0x5C, CHR 0x5C]
     else if n = 7 then [CHR 0x5C, CHR ''a'']
     else if n = 8 then [CHR 0x5C, CHR ''b'']
     else if n = 12 then [CHR 0x5C, CHR ''f'']
     else if n = 10 then [CHR 0x5C, CHR ''n'']
     else if n = 13 then [CHR 0x5C, CHR ''r'']
     else if n = 9 then [CHR 0x5C, CHR ''t'']
     else if n = 11 then [CHR 0x5C, CHR ''v'']
     else if n < 32 \<or> n = 127 then [CHR 0x5C, CHR ''x'', hex_digit (n div 16), hex_digit (n mod 16)]
     else [c])"

definition quote :: "string \<Rightarrow> string" where
  "quote s = [CHR 0x22] @ concat (map quote_char s) @ [CHR 0x22]"

section \<open>Lists, association lists and maps\<close>

lemma list_all2_same: "list_all P xs \<longleftrightarrow> (\<forall>x\<in>set xs. P x)"
  by (simp add: list_all_iff)

lemma list_update_same_conv: "i < length xs \<Longrightarrow> xs ! i = x \<Longrightarrow> xs[i := x] = xs"
  by auto

lemma map_of_rev_distinct: "distinct (map fst xs) \<Longrightarrow> map_of (rev xs) k = map_of xs k"
  by (metis distinct_rev map_of_eq_Some_iff not_Some_eq rev_map set_rev)

lemma prefix_take_iff: "prefix xs ys \<longleftrightarrow> (\<exists>n \<le> length ys. xs = take n ys)"
  by (metis append_eq_conv_conj prefix_def nat_le_linear take_all take_is_prefix)

lemma foldl_append_snoc: "foldl (\<lambda>acc x. acc @ [f x]) acc xs = acc @ map f xs"
  by (induction xs arbitrary: acc) auto

text \<open>An insertion into a key-sorted association list: Go's assignment to a map entry.\<close>

fun map_put :: "string \<Rightarrow> 'a \<Rightarrow> (string \<times> 'a) list \<Rightarrow> (string \<times> 'a) list" where
  "map_put k v [] = [(k, v)]"
| "map_put k v ((k', v') # kvs) =
     (if k < k' then (k, v) # (k', v') # kvs
      else if k = k' then (k, v) # kvs
      else (k', v') # map_put k v kvs)"

definition sorted_keys :: "(string \<times> 'a) list \<Rightarrow> bool" where
  "sorted_keys kvs \<longleftrightarrow> sorted_wrt (<) (map fst kvs)"

lemma sorted_keys_simps [simp]:
  "sorted_keys []"
  "sorted_keys ((k, v) # kvs) \<longleftrightarrow> (\<forall>k' \<in> set (map fst kvs). k < k') \<and> sorted_keys kvs"
  by (auto simp: sorted_keys_def)

lemma map_put_twice [simp]: "map_put k w (map_put k v kvs) = map_put k w kvs"
  by (induction k v kvs rule: map_put.induct) auto

lemma set_map_put: "set (map fst (map_put k v kvs)) = insert k (set (map fst kvs))"
  by (induction k v kvs rule: map_put.induct) auto

lemma sorted_keys_map_put: "sorted_keys kvs \<Longrightarrow> sorted_keys (map_put k v kvs)"
proof (induction k v kvs rule: map_put.induct)
  case (1 k v)
  then show ?case by simp
next
  case (2 k v k' v' kvs)
  have "set (map fst (map_put k v kvs)) = insert k (set (map fst kvs))"
    by (rule set_map_put)
  with 2 show ?case by (fastforce simp: not_less_iff_gr_or_eq simp del: list.set_map)
qed

lemma map_of_map_put [simp]: "map_of (map_put k v kvs) = (map_of kvs)(k \<mapsto> v)"
  by (induction k v kvs rule: map_put.induct) (auto simp: fun_eq_iff)

lemma sorted_keys_distinct: "sorted_keys kvs \<Longrightarrow> distinct (map fst kvs)"
  unfolding sorted_keys_def by (induction kvs) auto

lemma map_put_mem: "(q, x) \<in> set (map_put k v kvs) \<Longrightarrow> (q = k \<and> x = v) \<or> (q, x) \<in> set kvs"
  by (induction k v kvs rule: map_put.induct) (auto split: if_splits)

lemma map_put_last: "\<forall>k' \<in> set (map fst kvs). k' < k \<Longrightarrow> map_put k v kvs = kvs @ [(k, v)]"
  by (induction kvs) auto

section \<open>Runes\<close>

text \<open>
  A \<open>for range\<close> over a string decodes UTF-8; a byte that starts no valid encoding is the
  replacement rune U+FFFD and takes one byte.
\<close>

definition byte_at :: "nat \<Rightarrow> string \<Rightarrow> nat" where
  "byte_at i s = (if i < length s then of_char (s ! i) else 0)"

definition is_cont :: "nat \<Rightarrow> bool" where
  "is_cont b \<longleftrightarrow> 128 \<le> b \<and> b < 192"

definition decode_rune :: "string \<Rightarrow> nat \<times> nat" where
  "decode_rune s =
     (let a = byte_at 0 s; b = byte_at 1 s; c = byte_at 2 s; d = byte_at 3 s in
      if a < 128 then (a, 1)
      else if 194 \<le> a \<and> a < 224 \<and> is_cont b then ((a - 192) * 64 + (b - 128), 2)
      else if 224 \<le> a \<and> a < 240 \<and> is_cont b \<and> is_cont c \<and> (a = 224 \<longrightarrow> 160 \<le> b) \<and> (a = 237 \<longrightarrow> b < 160)
        then ((a - 224) * 4096 + (b - 128) * 64 + (c - 128), 3)
      else if 240 \<le> a \<and> a < 245 \<and> is_cont b \<and> is_cont c \<and> is_cont d \<and> (a = 240 \<longrightarrow> 144 \<le> b) \<and> (a = 244 \<longrightarrow> b < 144)
        then ((a - 240) * 262144 + (b - 128) * 4096 + (c - 128) * 64 + (d - 128), 4)
      else (65533, 1))"

lemma decode_rune_width: "0 < snd (decode_rune s)"
  by (simp add: decode_rune_def Let_def)

text \<open>The runes of a string, each with the bytes it was read from.\<close>

function runes :: "string \<Rightarrow> (nat \<times> string) list" where
  "runes s = (if s = [] then []
     else (fst (decode_rune s), take (snd (decode_rune s)) s) # runes (drop (snd (decode_rune s)) s))"
  by pat_completeness auto
termination
  by (relation "measure length") (auto simp: decode_rune_width)

declare runes.simps [simp del]

lemma runes_Nil [simp]: "runes [] = []"
  by (subst runes.simps) simp

lemma runes_ascii [simp]: "(of_char c :: nat) < 128 \<Longrightarrow> runes (c # cs) = (of_char c, [c]) # runes cs"
  by (subst runes.simps) (simp add: decode_rune_def byte_at_def)

lemma concat_runes: "concat (map snd (runes s)) = s"
proof (induction s rule: runes.induct)
  case (1 s)
  then show ?case by (subst runes.simps) simp
qed

text \<open>
  \<open>unicode.IsLetter || unicode.IsDigit\<close>: exact below 128; above, the Unicode tables are
  the argument \<open>uni\<close>.
\<close>

definition letter_or_digit :: "(nat \<Rightarrow> bool) \<Rightarrow> nat \<Rightarrow> bool" where
  "letter_or_digit uni r \<longleftrightarrow>
     (if r < 128 then (48 \<le> r \<and> r \<le> 57) \<or> (65 \<le> r \<and> r \<le> 90) \<or> (97 \<le> r \<and> r \<le> 122) else uni r)"

end
