(* ===== verification/Json.thy ===== *)
theory Json
  imports Prelude
begin

text \<open>
  What the code uses of Go's encoding/json: values, \<open>json.Marshal\<close> as \<open>render\<close> and
  \<open>json.Unmarshal\<close> into a value tree as \<open>json_Unmarshal\<close>. A Go value of type \<open>any\<close>
  that came from JSON is such a tree; a map is its member list. \<open>JBad\<close> is a Go value
  encoding/json refuses (a channel, a function, a NaN), with the text of the refusal. A number
  is kept as its literal: no float64 rounding is modelled. A string is bytes, taken to be valid
  UTF-8. The parser takes fuel, and \<open>parse_value_enough\<close> shows that twice the length of the
  text is enough for any text that parses at all.

  The lemmas give the round trip (\<open>json_Unmarshal_render\<close>), that a rendered value holds no
  newline (\<open>newline_free_render\<close>), and that no proper prefix of a rendered object is itself
  JSON (\<open>render_obj_prefix_free\<close>): the fact that makes a torn write detectable.
\<close>

section \<open>Values\<close>

datatype json =
    JNull
  | JBool bool
  | JNum string
  | JStr string
  | JArr "json list"
  | JObj "(string \<times> json) list"
  | JBad string

section \<open>Rendering\<close>

text \<open>String escapes of json.Marshal, with its default escaping of the HTML characters.\<close>

definition json_esc :: "char \<Rightarrow> string" where
  "json_esc c = (let n = of_char c :: nat in
     if n = 34 then [CHR 0x5C, CHR 0x22]
     else if n = 92 then [CHR 0x5C, CHR 0x5C]
     else if n = 8 then [CHR 0x5C, CHR ''b'']
     else if n = 12 then [CHR 0x5C, CHR ''f'']
     else if n = 10 then [CHR 0x5C, CHR ''n'']
     else if n = 13 then [CHR 0x5C, CHR ''r'']
     else if n = 9 then [CHR 0x5C, CHR ''t'']
     else if n < 32 \<or> n = 60 \<or> n = 62 \<or> n = 38
       then [CHR 0x5C, CHR ''u'', CHR ''0'', CHR ''0'', hex_digit (n div 16), hex_digit (n mod 16)]
     else [c])"

definition render_str :: "string \<Rightarrow> string" where
  "render_str s = CHR 0x22 # concat (map json_esc s) @ [CHR 0x22]"

fun render :: "json \<Rightarrow> string"
  and render_elems :: "json list \<Rightarrow> string"
  and render_members :: "(string \<times> json) list \<Rightarrow> string" where
  "render JNull = ''null''"
| "render (JBool b) = (if b then ''true'' else ''false'')"
| "render (JNum d) = d"
| "render (JStr s) = render_str s"
| "render (JArr vs) = CHR 0x5B # render_elems vs @ [CHR 0x5D]"
| "render (JObj kvs) = CHR 0x7B # render_members kvs @ [CHR 0x7D]"
| "render (JBad e) = []"
| "render_elems [] = []"
| "render_elems [v] = render v"
| "render_elems (v # w # vs) = render v @ CHR '','' # render_elems (w # vs)"
| "render_members [] = []"
| "render_members [(k, v)] = render_str k @ CHR '':'' # render v"
| "render_members ((k, v) # kv # kvs) =
     render_str k @ CHR '':'' # render v @ CHR '','' # render_members (kv # kvs)"

text \<open>Number literals by the JSON grammar.\<close>

definition exp_ok :: "string \<Rightarrow> bool" where
  "exp_ok r \<longleftrightarrow>
     (case r of [] \<Rightarrow> True
      | c # r' \<Rightarrow> (c = CHR ''e'' \<or> c = CHR ''E'') \<and>
          (let q = (case r' of [] \<Rightarrow> [] | d # q' \<Rightarrow> if d = CHR ''+'' \<or> d = CHR ''-'' then q' else r')
           in q \<noteq> [] \<and> list_all is_digit q))"

definition frac_ok :: "string \<Rightarrow> bool" where
  "frac_ok r \<longleftrightarrow>
     (case r of [] \<Rightarrow> True
      | c # r' \<Rightarrow> if c = CHR ''.'' then takeWhile is_digit r' \<noteq> [] \<and> exp_ok (dropWhile is_digit r')
                  else exp_ok r)"

definition num_ok :: "string \<Rightarrow> bool" where
  "num_ok s \<longleftrightarrow>
     (let s1 = (case s of [] \<Rightarrow> [] | c # r \<Rightarrow> if c = CHR ''-'' then r else s);
          ip = takeWhile is_digit s1
      in ip \<noteq> [] \<and> (hd ip = CHR ''0'' \<longrightarrow> length ip = 1) \<and> frac_ok (dropWhile is_digit s1))"

text \<open>
  json.Marshal fails on the first refused value it meets, a number that is no JSON literal
  included; otherwise it renders.
\<close>

fun json_bad :: "json \<Rightarrow> string option"
  and json_bad_elems :: "json list \<Rightarrow> string option"
  and json_bad_members :: "(string \<times> json) list \<Rightarrow> string option" where
  "json_bad (JArr vs) = json_bad_elems vs"
| "json_bad (JObj kvs) = json_bad_members kvs"
| "json_bad (JBad e) = Some e"
| "json_bad (JNum d) = (if num_ok d then None else Some ''json: invalid number literal'')"
| "json_bad _ = None"
| "json_bad_elems [] = None"
| "json_bad_elems (v # vs) = (case json_bad v of Some e \<Rightarrow> Some e | None \<Rightarrow> json_bad_elems vs)"
| "json_bad_members [] = None"
| "json_bad_members ((k, v) # kvs) =
     (case json_bad v of Some e \<Rightarrow> Some e | None \<Rightarrow> json_bad_members kvs)"

definition json_Marshal :: "json \<Rightarrow> error + string" where
  "json_Marshal v = (case json_bad v of Some e \<Rightarrow> Inl (ErrMsg e) | None \<Rightarrow> Inr (render v))"

section \<open>Parsing\<close>

definition is_ws :: "char \<Rightarrow> bool" where
  "is_ws c \<longleftrightarrow> c = CHR '' '' \<or> c = CHR 0x09 \<or> c = CHR 0x0A \<or> c = CHR 0x0D"

definition skip_ws :: "string \<Rightarrow> string" where
  "skip_ws s = dropWhile is_ws s"

definition hex_val :: "char \<Rightarrow> nat option" where
  "hex_val c = (let n = of_char c :: nat in
     if 48 \<le> n \<and> n \<le> 57 then Some (n - 48)
     else if 97 \<le> n \<and> n \<le> 102 then Some (n - 87)
     else if 65 \<le> n \<and> n \<le> 70 then Some (n - 55)
     else None)"

fun hex4 :: "string \<Rightarrow> (nat \<times> string) option" where
  "hex4 (a # b # c # d # r) =
     (case (hex_val a, hex_val b, hex_val c, hex_val d) of
        (Some w, Some x, Some y, Some z) \<Rightarrow> Some (((w * 16 + x) * 16 + y) * 16 + z, r)
      | _ \<Rightarrow> None)"
| "hex4 _ = None"

definition utf8 :: "nat \<Rightarrow> string" where
  "utf8 n =
     (if n < 128 then [char_of n]
      else if n < 2048 then [char_of (192 + n div 64), char_of (128 + n mod 64)]
      else if n < 65536 then
        [char_of (224 + n div 4096), char_of (128 + n div 64 mod 64), char_of (128 + n mod 64)]
      else [char_of (240 + n div 262144), char_of (128 + n div 4096 mod 64),
            char_of (128 + n div 64 mod 64), char_of (128 + n mod 64)])"

text \<open>The low half of a surrogate pair, where one follows.\<close>

definition low_half :: "string \<Rightarrow> (nat \<times> string) option" where
  "low_half s =
     (case s of a # b # r \<Rightarrow>
        if a = CHR 0x5C \<and> b = CHR ''u'' then
          (case hex4 r of Some (v, r') \<Rightarrow> if 56320 \<le> v \<and> v < 57344 then Some (v, r') else None
           | None \<Rightarrow> None)
        else None
      | _ \<Rightarrow> None)"

text \<open>A unicode escape after its \<open>u\<close>: the bytes and the rest.\<close>

definition unicode_escape :: "string \<Rightarrow> (string \<times> string) option" where
  "unicode_escape s =
     (case hex4 s of None \<Rightarrow> None
      | Some (v, r) \<Rightarrow>
          if 55296 \<le> v \<and> v < 57344 then
            (case (if v < 56320 then low_half r else None) of
               Some (w, r') \<Rightarrow> Some (utf8 (65536 + (v - 55296) * 1024 + (w - 56320)), r')
             | None \<Rightarrow> Some (utf8 65533, r))
          else Some (utf8 v, r))"

definition simple_escape :: "char \<Rightarrow> char option" where
  "simple_escape e =
     (if e = CHR 0x22 \<or> e = CHR 0x5C \<or> e = CHR ''/'' then Some e
      else if e = CHR ''b'' then Some (CHR 0x08)
      else if e = CHR ''f'' then Some (CHR 0x0C)
      else if e = CHR ''n'' then Some (CHR 0x0A)
      else if e = CHR ''r'' then Some (CHR 0x0D)
      else if e = CHR ''t'' then Some (CHR 0x09)
      else None)"

lemma hex4_length: "hex4 s = Some (v, r) \<Longrightarrow> length r < length s"
  by (induction s rule: hex4.induct) (auto split: option.splits)

lemma low_half_length: "low_half s = Some (v, r) \<Longrightarrow> length r < length s"
  by (auto simp: low_half_def split: list.splits if_splits option.splits prod.splits
      dest!: hex4_length)

lemma unicode_escape_length: "unicode_escape s = Some (t, r) \<Longrightarrow> length r < length s"
  by (auto simp: unicode_escape_def split: option.splits if_splits prod.splits
      dest!: hex4_length low_half_length)

text \<open>The body of a string literal after its opening quote.\<close>

function parse_str :: "string \<Rightarrow> (string \<times> string) option" where
  "parse_str [] = None"
| "parse_str (c # cs) =
     (if c = CHR 0x22 then Some ([], cs)
      else if c = CHR 0x5C then
        (case cs of [] \<Rightarrow> None
         | e # es \<Rightarrow>
             if e = CHR ''u'' then
               (case unicode_escape es of None \<Rightarrow> None
                | Some (t, r) \<Rightarrow>
                    (case parse_str r of None \<Rightarrow> None | Some (t', r') \<Rightarrow> Some (t @ t', r')))
             else
               (case simple_escape e of None \<Rightarrow> None
                | Some b \<Rightarrow>
                    (case parse_str es of None \<Rightarrow> None | Some (t', r') \<Rightarrow> Some (b # t', r'))))
      else if (of_char c :: nat) < 32 then None
      else (case parse_str cs of None \<Rightarrow> None | Some (t', r') \<Rightarrow> Some (c # t', r')))"
  by pat_completeness auto
termination
  by (relation "measure length") (auto dest!: unicode_escape_length)

declare parse_str.simps(2) [simp del]

definition num_char :: "char \<Rightarrow> bool" where
  "num_char c \<longleftrightarrow> is_digit c \<or> c = CHR ''-'' \<or> c = CHR ''+'' \<or> c = CHR ''.'' \<or> c = CHR ''e'' \<or> c = CHR ''E''"

definition parse_num :: "string \<Rightarrow> (json \<times> string) option" where
  "parse_num s =
     (let d = takeWhile num_char s in if num_ok d then Some (JNum d, dropWhile num_char s) else None)"

definition literal :: "string \<Rightarrow> json \<Rightarrow> string \<Rightarrow> (json \<times> string) option" where
  "literal w v s = (if take (length w) s = w then Some (v, drop (length w) s) else None)"

fun parse_value :: "nat \<Rightarrow> string \<Rightarrow> (json \<times> string) option"
  and parse_elems :: "nat \<Rightarrow> string \<Rightarrow> (json list \<times> string) option"
  and parse_members :: "nat \<Rightarrow> string \<Rightarrow> ((string \<times> json) list \<times> string) option" where
  "parse_value 0 s = None"
| "parse_value (Suc n) s =
     (case skip_ws s of [] \<Rightarrow> None
      | c # cs \<Rightarrow>
          if c = CHR 0x22 then
            (case parse_str cs of None \<Rightarrow> None | Some (t, r) \<Rightarrow> Some (JStr t, r))
          else if c = CHR 0x5B then
            (case skip_ws cs of [] \<Rightarrow> None
             | d # ds \<Rightarrow> if d = CHR 0x5D then Some (JArr [], ds)
                 else (case parse_elems n (d # ds) of None \<Rightarrow> None
                       | Some (vs, r) \<Rightarrow> Some (JArr vs, r)))
          else if c = CHR 0x7B then
            (case skip_ws cs of [] \<Rightarrow> None
             | d # ds \<Rightarrow> if d = CHR 0x7D then Some (JObj [], ds)
                 else (case parse_members n (d # ds) of None \<Rightarrow> None
                       | Some (kvs, r) \<Rightarrow> Some (JObj kvs, r)))
          else if c = CHR ''t'' then literal ''rue'' (JBool True) cs
          else if c = CHR ''f'' then literal ''alse'' (JBool False) cs
          else if c = CHR ''n'' then literal ''ull'' JNull cs
          else parse_num (c # cs))"
| "parse_elems 0 s = None"
| "parse_elems (Suc n) s =
     (case parse_value n s of None \<Rightarrow> None
      | Some (v, r) \<Rightarrow>
          (case skip_ws r of [] \<Rightarrow> None
           | c # cs \<Rightarrow>
               if c = CHR 0x5D then Some ([v], cs)
               else if c = CHR '','' then
                 (case parse_elems n cs of None \<Rightarrow> None | Some (vs, r') \<Rightarrow> Some (v # vs, r'))
               else None))"
| "parse_members 0 s = None"
| "parse_members (Suc n) s =
     (case skip_ws s of [] \<Rightarrow> None
      | q # qs \<Rightarrow>
          if q = CHR 0x22 then
            (case parse_str qs of None \<Rightarrow> None
             | Some (k, r) \<Rightarrow>
                 (case skip_ws r of [] \<Rightarrow> None
                  | c # cs \<Rightarrow>
                      if c = CHR '':'' then
                        (case parse_value n cs of None \<Rightarrow> None
                         | Some (v, r') \<Rightarrow>
                             (case skip_ws r' of [] \<Rightarrow> None
                              | d # ds \<Rightarrow>
                                  if d = CHR 0x7D then Some ([(k, v)], ds)
                                  else if d = CHR '','' then
                                    (case parse_members n ds of None \<Rightarrow> None
                                     | Some (kvs, r'') \<Rightarrow> Some ((k, v) # kvs, r''))
                                  else None))
                      else None))
          else None)"

declare parse_value.simps(2) [simp del] parse_elems.simps(2) [simp del]
  parse_members.simps(2) [simp del]

text \<open>json.Unmarshal checks that the whole text is one JSON value.\<close>

definition json_Unmarshal :: "string \<Rightarrow> json option" where
  "json_Unmarshal s =
     (case parse_value (2 * length s + 2) s of
        Some (v, r) \<Rightarrow> if skip_ws r = [] then Some v else None
      | None \<Rightarrow> None)"


section \<open>The round trip of strings\<close>

lemma of_char_less_256: "(of_char c :: nat) < 256"
  using nat_of_char_less_256 by simp

lemma hex_val_hex_digit: "d < 16 \<Longrightarrow> hex_val (hex_digit d) = Some d"
  by (auto simp: hex_val_def hex_digit_def Let_def)

lemma hex_val_zero [simp]: "hex_val (CHR ''0'') = Some 0"
  by (simp add: hex_val_def)

lemma char_of_of_char [simp]: "char_of (of_char c :: nat) = c"
  by simp

lemma char_codes:
  "(of_char c :: nat) = 34 \<longleftrightarrow> c = CHR 0x22" "(of_char c :: nat) = 92 \<longleftrightarrow> c = CHR 0x5C"
  "(of_char c :: nat) = 8 \<longleftrightarrow> c = CHR 0x08" "(of_char c :: nat) = 12 \<longleftrightarrow> c = CHR 0x0C"
  "(of_char c :: nat) = 10 \<longleftrightarrow> c = CHR 0x0A" "(of_char c :: nat) = 13 \<longleftrightarrow> c = CHR 0x0D"
  "(of_char c :: nat) = 9 \<longleftrightarrow> c = CHR 0x09"
  using of_char_eq_iff [where ?'a = nat, of c "CHR 0x22"] of_char_eq_iff [where ?'a = nat, of c "CHR 0x5C"]
    of_char_eq_iff [where ?'a = nat, of c "CHR 0x08"] of_char_eq_iff [where ?'a = nat, of c "CHR 0x0C"]
    of_char_eq_iff [where ?'a = nat, of c "CHR 0x0A"] of_char_eq_iff [where ?'a = nat, of c "CHR 0x0D"]
    of_char_eq_iff [where ?'a = nat, of c "CHR 0x09"]
  by simp_all

lemma unicode_escape_low:
  assumes "n < 128"
  shows "unicode_escape (CHR ''0'' # CHR ''0'' # hex_digit (n div 16) # hex_digit (n mod 16) # r)
    = Some ([char_of n], r)"
proof -
  have "hex_val (hex_digit (n div 16)) = Some (n div 16)" "hex_val (hex_digit (n mod 16)) = Some (n mod 16)"
    using assms by (auto intro!: hex_val_hex_digit)
  then show ?thesis using assms by (simp add: unicode_escape_def utf8_def)
qed

lemma parse_str_simple:
  "e \<noteq> CHR ''u'' \<Longrightarrow> parse_str (CHR 0x5C # e # r) =
    (case simple_escape e of None \<Rightarrow> None
     | Some b \<Rightarrow> (case parse_str r of None \<Rightarrow> None | Some (t, r') \<Rightarrow> Some (b # t, r')))"
  by (simp add: parse_str.simps(2))

lemma parse_str_esc:
  "parse_str (json_esc c @ r) = (case parse_str r of None \<Rightarrow> None | Some (t, r') \<Rightarrow> Some (c # t, r'))"
proof -
  let ?n = "of_char c :: nat"
  consider (q) "?n = 34" | (b) "?n = 92" | (s) "?n = 8 \<or> ?n = 12 \<or> ?n = 10 \<or> ?n = 13 \<or> ?n = 9"
    | (u) "\<not> (?n = 34 \<or> ?n = 92 \<or> ?n = 8 \<or> ?n = 12 \<or> ?n = 10 \<or> ?n = 13 \<or> ?n = 9)"
      "?n < 32 \<or> ?n = 60 \<or> ?n = 62 \<or> ?n = 38"
    | (p) "?n \<noteq> 34" "?n \<noteq> 92" "\<not> ?n < 32" "\<not> (?n = 60 \<or> ?n = 62 \<or> ?n = 38)"
    by blast
  then show ?thesis
  proof cases
    case q
    then have "c = CHR 0x22" by (simp only: char_codes)
    then show ?thesis by (simp add: json_esc_def simple_escape_def parse_str_simple split: option.split)
  next
    case b
    then have "c = CHR 0x5C" by (simp only: char_codes)
    then show ?thesis by (simp add: json_esc_def simple_escape_def parse_str_simple split: option.split)
  next
    case s
    then consider "c = CHR 0x08" | "c = CHR 0x0C" | "c = CHR 0x0A" | "c = CHR 0x0D" | "c = CHR 0x09"
      by (auto simp only: char_codes)
    then show ?thesis
      by cases (simp_all add: json_esc_def simple_escape_def parse_str_simple split: option.split)
  next
    case u
    then have esc: "json_esc c = [CHR 0x5C, CHR ''u'', CHR ''0'', CHR ''0'', hex_digit (?n div 16), hex_digit (?n mod 16)]"
      by (simp add: json_esc_def Let_def)
    have "?n < 128" using u(2) by auto
    from unicode_escape_low [OF this, of r] show ?thesis
      by (simp add: esc parse_str.simps(2) split: option.split)
  next
    case p
    then have "c \<noteq> CHR 0x22" "c \<noteq> CHR 0x5C" by auto
    moreover have "json_esc c = [c]" using p by (auto simp: json_esc_def Let_def)
    ultimately show ?thesis using p by (simp add: parse_str.simps(2) split: option.split)
  qed
qed

lemma parse_str_render: "parse_str (concat (map json_esc s) @ CHR 0x22 # r) = Some (s, r)"
proof (induction s)
  case Nil
  then show ?case by (simp add: parse_str.simps(2))
next
  case (Cons c s)
  have "parse_str (json_esc c @ concat (map json_esc s) @ CHR 0x22 # r) = Some (c # s, r)"
    using Cons.IH by (simp add: parse_str_esc)
  then show ?case by simp
qed

section \<open>Enough fuel\<close>

lemma skip_ws_length: "length (skip_ws s) \<le> length s"
  unfolding skip_ws_def by (rule length_dropWhile_le)

lemma skip_ws_ConsD: "skip_ws s = c # cs \<Longrightarrow> length cs < length s"
  using skip_ws_length [of s] by simp

lemma parse_str_length: "parse_str s = Some (t, r) \<Longrightarrow> length r < length s"
proof (induction s arbitrary: t r rule: parse_str.induct)
  case 1
  then show ?case by simp
next
  case (2 c cs)
  show ?case
  proof (cases "c = CHR 0x22 \<or> c \<noteq> CHR 0x5C")
    case True
    with "2.prems" show ?thesis
      by (auto simp: parse_str.simps(2) split: if_splits option.splits dest!: "2.IH"(3))
  next
    case False
    then obtain e es where es: "cs = e # es"
      using "2.prems" by (cases cs) (auto simp: parse_str.simps(2))
    show ?thesis
    proof (cases "e = CHR ''u''")
      case True
      with False es "2.prems" obtain t1 r1 t2 where u: "unicode_escape es = Some (t1, r1)"
        and p: "parse_str r1 = Some (t2, r)"
        by (auto simp: parse_str.simps(2) split: option.splits)
      have "length r < length r1"
        using "2.IH"(1) [OF _ _ es True u _ p] False by simp
      then show ?thesis using unicode_escape_length [OF u] es by simp
    next
      case F: False
      with False es "2.prems" obtain b t2 where u: "simple_escape e = Some b"
        and p: "parse_str es = Some (t2, r)"
        by (auto simp: parse_str.simps(2) split: option.splits)
      show ?thesis
        using "2.IH"(2) [OF _ _ es F u p] False es by simp
    qed
  qed
qed

lemma parse_num_less: "parse_num s = Some (v, r) \<Longrightarrow> length r < length s"
proof -
  assume a: "parse_num s = Some (v, r)"
  then have n: "num_ok (takeWhile num_char s)" and r: "r = dropWhile num_char s"
    by (auto simp: parse_num_def Let_def split: if_splits)
  from n have "takeWhile num_char s \<noteq> []" by (auto simp: num_ok_def)
  then obtain c s' where s: "s = c # s'" "num_char c" by (cases s) (auto split: if_splits)
  have "length (dropWhile num_char s') \<le> length s'" by (rule length_dropWhile_le)
  then show ?thesis using r s by simp
qed

lemma literal_length: "literal w v s = Some (u, r) \<Longrightarrow> length r \<le> length s"
  by (auto simp: literal_def split: if_splits)


text \<open>
  How a successful parse was reached. A scalar is independent of the fuel and of what follows
  it, except that a number must be followed by something that is not part of a number.
\<close>

text \<open>A value the code can marshal: no refused value in it, and numbers are literals.\<close>

fun json_ok :: "json \<Rightarrow> bool" where
  "json_ok (JNum d) \<longleftrightarrow> num_ok d"
| "json_ok (JArr vs) \<longleftrightarrow> (\<forall>v \<in> set vs. json_ok v)"
| "json_ok (JObj kvs) \<longleftrightarrow> (\<forall>kv \<in> set kvs. json_ok (snd kv))"
| "json_ok (JBad e) \<longleftrightarrow> False"
| "json_ok _ \<longleftrightarrow> True"

lemma literal_value: "literal w v s = Some (u, r) \<Longrightarrow> u = v"
  by (simp add: literal_def split: if_splits)

definition scalar_parse :: "string \<Rightarrow> json \<Rightarrow> string \<Rightarrow> bool" where
  "scalar_parse s v r \<longleftrightarrow> json_ok v \<and> length r < length s \<and> (\<forall>m. parse_value (Suc m) s = Some (v, r)) \<and>
     (\<forall>t. r \<noteq> [] \<or> (\<forall>d. v \<noteq> JNum d) \<longrightarrow> (\<forall>m. parse_value (Suc m) (s @ t) = Some (v, r @ t)))"

lemma skip_ws_append: "skip_ws s = c # cs \<Longrightarrow> skip_ws (s @ t) = c # cs @ t"
  by (induction s) (auto simp: skip_ws_def split: if_splits)

lemma hex4_append: "hex4 s = Some (v, r) \<Longrightarrow> hex4 (s @ t) = Some (v, r @ t)"
  by (induction s rule: hex4.induct) (auto split: option.splits)

lemma low_half_Some_iff:
  "low_half s = Some (v, r) \<longleftrightarrow>
     (\<exists>q. s = CHR 0x5C # CHR ''u'' # q \<and> hex4 q = Some (v, r) \<and> 56320 \<le> v \<and> v < 57344)"
proof (cases s)
  case (Cons a s')
  then show ?thesis
    by (cases s') (simp_all add: low_half_def split: option.split, blast)
qed (simp add: low_half_def)

lemma low_half_append: "low_half s = Some (v, r) \<Longrightarrow> low_half (s @ t) = Some (v, r @ t)"
  by (auto simp only: low_half_Some_iff append_Cons hex4_append)

lemma hex4_short: "length s < 4 \<Longrightarrow> hex4 s = None"
  by (cases s rule: hex4.cases) auto

lemma parse_str_low_short:
  assumes "low_half s = None" "low_half (s @ t) \<noteq> None"
  shows "parse_str s = None"
proof (cases "length s \<le> 1")
  case True
  then consider "s = []" | c where "s = [c]" by (cases s) auto
  then show ?thesis
  proof cases
    case (2 c)
    with assms(2) have "c = CHR 0x5C" by (auto simp: low_half_def split: list.splits if_splits)
    with 2 show ?thesis by (simp add: parse_str.simps(2))
  qed simp
next
  case False
  then obtain a b r where s: "s = a # b # r" by (cases s; cases "tl s") auto
  with assms(2) have ab: "a = CHR 0x5C" "b = CHR ''u''" by (auto simp: low_half_def split: if_splits)
  from assms(2) s ab obtain v r' where h: "hex4 (r @ t) = Some (v, r')" "56320 \<le> v" "v < 57344"
    by (auto simp: low_half_def split: option.splits if_splits)
  have "hex4 r = None"
  proof (rule ccontr)
    assume "hex4 r \<noteq> None"
    then obtain w r2 where w: "hex4 r = Some (w, r2)" by auto
    with hex4_append [OF this, of t] h have "w = v" by simp
    with w h s ab assms(1) show False by (simp add: low_half_def)
  qed
  then show ?thesis by (simp add: s ab parse_str.simps(2) unicode_escape_def)
qed

lemma parse_str_append: "parse_str s = Some (u, r) \<Longrightarrow> parse_str (s @ t) = Some (u, r @ t)"
proof (induction s arbitrary: u r rule: parse_str.induct)
  case 1
  then show ?case by simp
next
  case (2 c cs)
  show ?case
  proof (cases "c = CHR 0x22 \<or> c \<noteq> CHR 0x5C")
    case True
    with "2.prems" show ?thesis
      by (auto simp: parse_str.simps(2) split: if_splits option.splits dest!: "2.IH"(3))
  next
    case False
    then obtain e es where es: "cs = e # es"
      using "2.prems" by (cases cs) (auto simp: parse_str.simps(2))
    show ?thesis
    proof (cases "e = CHR ''u''")
      case True
      with False es "2.prems" obtain t1 r1 t2 where u: "unicode_escape es = Some (t1, r1)"
        and p: "parse_str r1 = Some (t2, r)" and t: "u = t1 @ t2"
        by (auto simp: parse_str.simps(2) split: option.splits)
      have ih: "parse_str (r1 @ t) = Some (t2, r @ t)"
        using "2.IH"(1) [OF _ _ es True u _ p] False by simp
      have "unicode_escape (es @ t) = Some (t1, r1 @ t)"
      proof -
        from u obtain v r0 where h: "hex4 es = Some (v, r0)"
          by (auto simp: unicode_escape_def split: option.splits)
        show ?thesis
        proof (cases "low_half r0")
          case None
          have "low_half (r0 @ t) = None" if "55296 \<le> v" "v < 56320"
          proof (rule ccontr)
            assume "low_half (r0 @ t) \<noteq> None"
            with None have "parse_str r0 = None" by (rule parse_str_low_short)
            moreover have "r1 = r0" using that u h None by (simp add: unicode_escape_def)
            ultimately show False using p by simp
          qed
          then show ?thesis using u h None hex4_append [OF h, of t]
            by (auto simp: unicode_escape_def split: if_splits)
        next
          case (Some wr)
          obtain w r' where wr: "wr = (w, r')" by (cases wr)
          from low_half_append [OF Some [unfolded wr], of t] show ?thesis
            using u h Some wr hex4_append [OF h, of t]
            by (auto simp: unicode_escape_def split: if_splits)
        qed
      qed
      then show ?thesis using False es True ih t by (simp add: parse_str.simps(2))
    next
      case F: False
      with False es "2.prems" obtain b t2 where u: "simple_escape e = Some b"
        and p: "parse_str es = Some (t2, r)" and t: "u = b # t2"
        by (auto simp: parse_str.simps(2) split: option.splits)
      have "parse_str (es @ t) = Some (t2, r @ t)"
        using "2.IH"(2) [OF _ _ es F u p] False by simp
      then show ?thesis using False es F u t by (simp add: parse_str.simps(2))
    qed
  qed
qed

lemma literal_append:
  assumes "literal w v s = Some (u, r)"
  shows "literal w v (s @ t) = Some (u, r @ t)"
proof -
  from assms have w: "take (length w) s = w" "u = v" "r = drop (length w) s"
    by (auto simp: literal_def split: if_splits)
  from arg_cong [OF w(1), of length] have "length w \<le> length s" by simp
  then show ?thesis using w by (simp add: literal_def)
qed

lemma parse_num_append:
  assumes "parse_num s = Some (v, r)" "r \<noteq> []"
  shows "parse_num (s @ t) = Some (v, r @ t)"
proof -
  have "\<exists>x\<in>set s. \<not> num_char x"
    using assms by (auto simp: parse_num_def Let_def split: if_splits)
  then have "takeWhile num_char (s @ t) = takeWhile num_char s"
    "dropWhile num_char (s @ t) = dropWhile num_char s @ t"
    by (auto simp: takeWhile_append dropWhile_append)
  with assms(1) show ?thesis by (auto simp: parse_num_def Let_def split: if_splits)
qed

lemma parse_value_cases:
  assumes "parse_value (Suc n) s = Some (v, r)"
  obtains (scalar) "scalar_parse s v r"
    | (arr) cs d ds vs where "skip_ws s = CHR 0x5B # cs" "skip_ws cs = d # ds" "d \<noteq> CHR 0x5D"
        "parse_elems n (d # ds) = Some (vs, r)" "v = JArr vs"
    | (obj) cs d ds kvs where "skip_ws s = CHR 0x7B # cs" "skip_ws cs = d # ds" "d \<noteq> CHR 0x7D"
        "parse_members n (d # ds) = Some (kvs, r)" "v = JObj kvs"
proof -
  from assms obtain c cs where c: "skip_ws s = c # cs"
    by (cases "skip_ws s") (simp_all add: parse_value.simps(2))
  note len = skip_ws_ConsD [OF c]
  note app = skip_ws_append [OF c]
  consider "c = CHR 0x22" | "c = CHR 0x5B" | "c = CHR 0x7B"
    | "c = CHR ''t''" | "c = CHR ''f''" | "c = CHR ''n''"
    | "c \<noteq> CHR 0x22" "c \<noteq> CHR 0x5B" "c \<noteq> CHR 0x7B" "c \<noteq> CHR ''t''" "c \<noteq> CHR ''f''" "c \<noteq> CHR ''n''"
    by blast
  then show thesis
  proof cases
    case 1
    then obtain t where t: "parse_str cs = Some (t, r)" "v = JStr t"
      using assms c by (auto simp: parse_value.simps(2) split: option.splits)
    have "scalar_parse s v r"
      using len parse_str_length [OF t(1)] c 1 t app parse_str_append [OF t(1)]
      by (simp add: scalar_parse_def parse_value.simps(2))
    then show ?thesis by (rule scalar)
  next
    case 2
    then obtain d ds where d: "skip_ws cs = d # ds"
      using assms c by (cases "skip_ws cs") (simp_all add: parse_value.simps(2))
    show ?thesis
    proof (cases "d = CHR 0x5D")
      case True
      then have "scalar_parse s v r"
        using assms c 2 d len skip_ws_ConsD [OF d] app skip_ws_append [OF d]
        by (auto simp: scalar_parse_def parse_value.simps(2))
      then show ?thesis by (rule scalar)
    next
      case False
      then show ?thesis
        using assms c 2 d arr by (auto simp: parse_value.simps(2) split: option.splits)
    qed
  next
    case 3
    then obtain d ds where d: "skip_ws cs = d # ds"
      using assms c by (cases "skip_ws cs") (simp_all add: parse_value.simps(2))
    show ?thesis
    proof (cases "d = CHR 0x7D")
      case True
      then have "scalar_parse s v r"
        using assms c 3 d len skip_ws_ConsD [OF d] app skip_ws_append [OF d]
        by (auto simp: scalar_parse_def parse_value.simps(2))
      then show ?thesis by (rule scalar)
    next
      case False
      then show ?thesis
        using assms c 3 d obj by (auto simp: parse_value.simps(2) split: option.splits)
    qed
  next
    case 4
    then have l: "literal ''rue'' (JBool True) cs = Some (v, r)"
      using assms c by (simp add: parse_value.simps(2))
    have "scalar_parse s v r"
      using len literal_length [OF l] c 4 l app literal_append [OF l] literal_value [OF l]
      by (simp add: scalar_parse_def parse_value.simps(2))
    then show ?thesis by (rule scalar)
  next
    case 5
    then have l: "literal ''alse'' (JBool False) cs = Some (v, r)"
      using assms c by (simp add: parse_value.simps(2))
    have "scalar_parse s v r"
      using len literal_length [OF l] c 5 l app literal_append [OF l] literal_value [OF l]
      by (simp add: scalar_parse_def parse_value.simps(2))
    then show ?thesis by (rule scalar)
  next
    case 6
    then have l: "literal ''ull'' JNull cs = Some (v, r)"
      using assms c by (simp add: parse_value.simps(2))
    have "scalar_parse s v r"
      using len literal_length [OF l] c 6 l app literal_append [OF l] literal_value [OF l]
      by (simp add: scalar_parse_def parse_value.simps(2))
    then show ?thesis by (rule scalar)
  next
    case 7
    then have l: "parse_num (c # cs) = Some (v, r)"
      using assms c by (simp add: parse_value.simps(2))
    then obtain d where "v = JNum d" "num_ok d" by (auto simp: parse_num_def Let_def split: if_splits)
    then have "scalar_parse s v r"
      using len parse_num_less [OF l] c 7 l app parse_num_append [OF l]
      by (simp add: scalar_parse_def parse_value.simps(2))
    then show ?thesis by (rule scalar)
  qed
qed

lemma parse_elems_cases:
  assumes "parse_elems (Suc n) s = Some (vs, r)"
  obtains (last) v r1 where "parse_value n s = Some (v, r1)" "skip_ws r1 = CHR 0x5D # r" "vs = [v]"
    | (more) v r1 cs ws where "parse_value n s = Some (v, r1)" "skip_ws r1 = CHR '','' # cs"
        "parse_elems n cs = Some (ws, r)" "vs = v # ws"
proof -
  from assms obtain v r1 where v: "parse_value n s = Some (v, r1)"
    by (auto simp: parse_elems.simps(2) split: option.splits)
  with assms obtain c cs where c: "skip_ws r1 = c # cs"
    by (cases "skip_ws r1") (simp_all add: parse_elems.simps(2))
  from assms v c have "c = CHR 0x5D \<or> c = CHR '',''"
    by (auto simp: parse_elems.simps(2) split: if_splits)
  then show thesis
  proof
    assume "c = CHR 0x5D"
    then show thesis using assms v c last by (simp add: parse_elems.simps(2))
  next
    assume "c = CHR '',''"
    then show thesis using assms v c more by (auto simp: parse_elems.simps(2) split: option.splits)
  qed
qed

lemma parse_members_cases:
  assumes "parse_members (Suc n) s = Some (kvs, r)"
  obtains qs k r1 cs v r2 where "skip_ws s = CHR 0x22 # qs" "parse_str qs = Some (k, r1)"
      "skip_ws r1 = CHR '':'' # cs" "parse_value n cs = Some (v, r2)"
      "(skip_ws r2 = CHR 0x7D # r \<and> kvs = [(k, v)]) \<or>
       (\<exists>ds ws. skip_ws r2 = CHR '','' # ds \<and> parse_members n ds = Some (ws, r) \<and> kvs = (k, v) # ws)"
proof -
  from assms obtain q qs where q: "skip_ws s = q # qs" "q = CHR 0x22"
    by (cases "skip_ws s") (simp_all add: parse_members.simps(2) split: if_splits)
  with assms obtain k r1 where k: "parse_str qs = Some (k, r1)"
    by (auto simp: parse_members.simps(2) split: option.splits)
  from assms q k obtain c cs where c: "skip_ws r1 = c # cs" "c = CHR '':''"
    by (cases "skip_ws r1") (simp_all add: parse_members.simps(2) split: if_splits)
  from assms q k c obtain v r2 where v: "parse_value n cs = Some (v, r2)"
    by (auto simp: parse_members.simps(2) split: option.splits)
  from assms q k c v obtain d ds where d: "skip_ws r2 = d # ds"
    by (cases "skip_ws r2") (simp_all add: parse_members.simps(2))
  from assms q k c v d have "d = CHR 0x7D \<or> d = CHR '',''"
    by (auto simp: parse_members.simps(2) split: if_splits)
  then have "(skip_ws r2 = CHR 0x7D # r \<and> kvs = [(k, v)]) \<or>
       (\<exists>ds ws. skip_ws r2 = CHR '','' # ds \<and> parse_members n ds = Some (ws, r) \<and> kvs = (k, v) # ws)"
    using assms q k c v d by (auto simp: parse_members.simps(2) split: option.splits)
  with q k c v show thesis by (intro that) auto
qed

lemma parse_length:
  "parse_value n s = Some (v, r) \<Longrightarrow> length r < length s"
  "parse_elems n s = Some (vs, r') \<Longrightarrow> length r' < length s"
  "parse_members n s = Some (kvs, r'') \<Longrightarrow> length r'' < length s"
proof (induction n arbitrary: s v r vs r' kvs r'')
  case 0
  { case 1 then show ?case by simp }
  { case 2 then show ?case by simp }
  { case 3 then show ?case by simp }
next
  case (Suc n)
  { case 1
    then show ?case
    proof (cases rule: parse_value_cases)
      case scalar
      then show ?thesis by (simp add: scalar_parse_def)
    next
      case (arr cs d ds vs)
      then show ?thesis using Suc.IH(2) [OF arr(4)] skip_ws_ConsD [OF arr(1)] skip_ws_ConsD [OF arr(2)] by simp
    next
      case (obj cs d ds kvs)
      then show ?thesis using Suc.IH(3) [OF obj(4)] skip_ws_ConsD [OF obj(1)] skip_ws_ConsD [OF obj(2)] by simp
    qed }
  { case 2
    then show ?case
    proof (cases rule: parse_elems_cases)
      case (last v r1)
      then show ?thesis using Suc.IH(1) [OF last(1)] skip_ws_ConsD [OF last(2)] by simp
    next
      case (more v r1 cs ws)
      then show ?thesis using Suc.IH(1) [OF more(1)] skip_ws_ConsD [OF more(2)] Suc.IH(2) [OF more(3)] by simp
    qed }
  { case 3
    then obtain qs k r1 cs v r2 where a: "skip_ws s = CHR 0x22 # qs" "parse_str qs = Some (k, r1)"
      "skip_ws r1 = CHR '':'' # cs" "parse_value n cs = Some (v, r2)"
      "(skip_ws r2 = CHR 0x7D # r'' \<and> kvs = [(k, v)]) \<or>
       (\<exists>ds ws. skip_ws r2 = CHR '','' # ds \<and> parse_members n ds = Some (ws, r'') \<and> kvs = (k, v) # ws)"
      by (rule parse_members_cases)
    have "length r2 < length s"
      using skip_ws_ConsD [OF a(1)] parse_str_length [OF a(2)] skip_ws_ConsD [OF a(3)] Suc.IH(1) [OF a(4)]
      by simp
    then show ?case using a(5) Suc.IH(3) by (force dest: skip_ws_ConsD) }
qed

text \<open>Whatever the parser returns can be rendered again.\<close>

lemma parse_json_ok:
  "parse_value n s = Some (v, r) \<Longrightarrow> json_ok v"
  "parse_elems n s = Some (vs, r') \<Longrightarrow> \<forall>v \<in> set vs. json_ok v"
  "parse_members n s = Some (kvs, r'') \<Longrightarrow> \<forall>kv \<in> set kvs. json_ok (snd kv)"
proof (induction n arbitrary: s v r vs r' kvs r'')
  case 0
  { case 1 then show ?case by simp }
  { case 2 then show ?case by simp }
  { case 3 then show ?case by simp }
next
  case (Suc n)
  { case 1
    then show ?case
    proof (cases rule: parse_value_cases)
      case (arr cs d ds vs)
      then show ?thesis using Suc.IH(2) [OF arr(4)] by simp
    next
      case (obj cs d ds kvs)
      then show ?thesis using Suc.IH(3) [OF obj(4)] by simp
    qed (auto simp: scalar_parse_def) }
  { case 2
    then show ?case
    proof (cases rule: parse_elems_cases)
      case (last v r1)
      then show ?thesis using Suc.IH(1) [OF last(1)] by simp
    next
      case (more v r1 cs ws)
      then show ?thesis using Suc.IH(1) [OF more(1)] Suc.IH(2) [OF more(3)] by simp
    qed }
  { case 3
    then obtain qs k r1 cs v r2 where a: "parse_value n cs = Some (v, r2)"
      "(skip_ws r2 = CHR 0x7D # r'' \<and> kvs = [(k, v)]) \<or>
       (\<exists>ds ws. skip_ws r2 = CHR '','' # ds \<and> parse_members n ds = Some (ws, r'') \<and> kvs = (k, v) # ws)"
      by (rule parse_members_cases)
    then show ?case using Suc.IH(1) [OF a(1)] Suc.IH(3) by force }
qed

lemma json_Unmarshal_ok: "json_Unmarshal s = Some v \<Longrightarrow> json_ok v"
  by (auto simp: json_Unmarshal_def split: option.splits if_splits dest: parse_json_ok(1))

text \<open>
  Twice the text consumed is enough fuel, whatever the fuel the result was found with: so more
  fuel never changes a result and the fuel of \<open>json_Unmarshal\<close> is never the reason to fail.
\<close>

lemma parse_enough:
  "parse_value n s = Some (v, r) \<Longrightarrow> 2 * length s \<le> m + 2 * length r \<Longrightarrow> parse_value m s = Some (v, r)"
  "parse_elems n s = Some (vs, r') \<Longrightarrow> 2 * length s \<le> m + 2 * length r' \<Longrightarrow> parse_elems m s = Some (vs, r')"
  "parse_members n s = Some (kvs, r'') \<Longrightarrow> 2 * length s \<le> m + 2 * length r'' \<Longrightarrow>
     parse_members m s = Some (kvs, r'')"
proof (induction n arbitrary: m s v r vs r' kvs r'')
  case 0
  { case 1 then show ?case by simp }
  { case 2 then show ?case by simp }
  { case 3 then show ?case by simp }
next
  case (Suc n)
  { case 1
    have "length r < length s" using parse_length(1) [OF 1(1)] .
    then obtain m' where m: "m = Suc m'" using 1(2) by (cases m) auto
    from 1(1) show ?case
    proof (cases rule: parse_value_cases)
      case scalar
      then show ?thesis by (simp add: scalar_parse_def m)
    next
      case (arr cs d ds vs)
      have "2 * length (d # ds) \<le> m' + 2 * length r"
        using 1(2) m skip_ws_ConsD [OF arr(1)] skip_ws_ConsD [OF arr(2)] by simp
      from Suc.IH(2) [OF arr(4) this] show ?thesis using arr by (simp add: m parse_value.simps(2))
    next
      case (obj cs d ds kvs)
      have "2 * length (d # ds) \<le> m' + 2 * length r"
        using 1(2) m skip_ws_ConsD [OF obj(1)] skip_ws_ConsD [OF obj(2)] by simp
      from Suc.IH(3) [OF obj(4) this] show ?thesis using obj by (simp add: m parse_value.simps(2))
    qed }
  { case 2
    have "length r' < length s" using parse_length(2) [OF 2(1)] .
    then obtain m' where m: "m = Suc m'" using 2(2) by (cases m) auto
    from 2(1) show ?case
    proof (cases rule: parse_elems_cases)
      case (last v r1)
      have "2 * length s \<le> m' + 2 * length r1"
        using 2(2) m skip_ws_ConsD [OF last(2)] by simp
      from Suc.IH(1) [OF last(1) this] show ?thesis using last by (simp add: m parse_elems.simps(2))
    next
      case (more v r1 cs ws)
      have "2 * length s \<le> m' + 2 * length r1"
        using 2(2) m skip_ws_ConsD [OF more(2)] parse_length(2) [OF more(3)] by simp
      from Suc.IH(1) [OF more(1) this] have v: "parse_value m' s = Some (v, r1)" .
      have "2 * length cs \<le> m' + 2 * length r'"
        using 2(2) m skip_ws_ConsD [OF more(2)] parse_length(1) [OF more(1)] by simp
      from Suc.IH(2) [OF more(3) this] v show ?thesis using more by (simp add: m parse_elems.simps(2))
    qed }
  { case 3
    have len: "length r'' < length s" using parse_length(3) [OF 3(1)] .
    then obtain m' where m: "m = Suc m'" using 3(2) by (cases m) auto
    from 3(1) obtain qs k r1 cs v r2 where a: "skip_ws s = CHR 0x22 # qs" "parse_str qs = Some (k, r1)"
      "skip_ws r1 = CHR '':'' # cs" "parse_value n cs = Some (v, r2)"
      "(skip_ws r2 = CHR 0x7D # r'' \<and> kvs = [(k, v)]) \<or>
       (\<exists>ds ws. skip_ws r2 = CHR '','' # ds \<and> parse_members n ds = Some (ws, r'') \<and> kvs = (k, v) # ws)"
      by (rule parse_members_cases)
    have l: "length cs < length s"
      using skip_ws_ConsD [OF a(1)] parse_str_length [OF a(2)] skip_ws_ConsD [OF a(3)] by simp
    have l2: "length r'' < length r2"
      using a(5) by (auto dest!: skip_ws_ConsD dest: parse_length(3))
    have "2 * length cs \<le> m' + 2 * length r2" using l l2 3(2) m by simp
    from Suc.IH(1) [OF a(4) this] have v: "parse_value m' cs = Some (v, r2)" .
    have l3: "length r2 < length cs" using parse_length(1) [OF a(4)] .
    from a(5) show ?case
    proof
      assume "skip_ws r2 = CHR 0x7D # r'' \<and> kvs = [(k, v)]"
      then show ?case using a v by (simp add: m parse_members.simps(2))
    next
      assume "\<exists>ds ws. skip_ws r2 = CHR '','' # ds \<and> parse_members n ds = Some (ws, r'') \<and> kvs = (k, v) # ws"
      then obtain ds ws where d: "skip_ws r2 = CHR '','' # ds" "parse_members n ds = Some (ws, r'')"
        "kvs = (k, v) # ws" by blast
      have "2 * length ds \<le> m' + 2 * length r''"
        using l l3 3(2) m skip_ws_ConsD [OF d(1)] by simp
      from Suc.IH(3) [OF d(2) this] show ?case using a v d by (simp add: m parse_members.simps(2))
    qed }
qed

lemma parse_value_enough:
  "parse_value n s = Some (v, r) \<Longrightarrow> parse_value (2 * length s + 2) s = Some (v, r)"
  by (rule parse_enough(1)) auto

section \<open>What follows a value does not change how it parses\<close>

lemma parse_append:
  "parse_value n s = Some (v, r) \<Longrightarrow> r \<noteq> [] \<or> (\<forall>d. v \<noteq> JNum d) \<Longrightarrow>
     parse_value n (s @ t) = Some (v, r @ t)"
  "parse_elems n s = Some (vs, r') \<Longrightarrow> parse_elems n (s @ t) = Some (vs, r' @ t)"
  "parse_members n s = Some (kvs, r'') \<Longrightarrow> parse_members n (s @ t) = Some (kvs, r'' @ t)"
proof (induction n arbitrary: s v r vs r' kvs r'')
  case 0
  { case 1 then show ?case by simp }
  { case 2 then show ?case by simp }
  { case 3 then show ?case by simp }
next
  case (Suc n)
  { case 1
    from 1(1) show ?case
    proof (cases rule: parse_value_cases)
      case scalar
      then show ?thesis using 1(2) by (simp add: scalar_parse_def)
    next
      case (arr cs d ds vs)
      from Suc.IH(2) [OF arr(4)] show ?thesis
        using arr skip_ws_append [OF arr(1), of t] skip_ws_append [OF arr(2), of t]
        by (simp add: parse_value.simps(2))
    next
      case (obj cs d ds kvs)
      from Suc.IH(3) [OF obj(4)] show ?thesis
        using obj skip_ws_append [OF obj(1), of t] skip_ws_append [OF obj(2), of t]
        by (simp add: parse_value.simps(2))
    qed }
  { case 2
    from 2 show ?case
    proof (cases rule: parse_elems_cases)
      case (last v r1)
      then have "r1 \<noteq> []" by (auto simp: skip_ws_def)
      with Suc.IH(1) [OF last(1)] show ?thesis
        using last skip_ws_append [OF last(2), of t] by (simp add: parse_elems.simps(2))
    next
      case (more v r1 cs ws)
      then have "r1 \<noteq> []" by (auto simp: skip_ws_def)
      with Suc.IH(1) [OF more(1)] Suc.IH(2) [OF more(3)] show ?thesis
        using more skip_ws_append [OF more(2), of t] by (simp add: parse_elems.simps(2))
    qed }
  { case 3
    from 3 obtain qs k r1 cs v r2 where a: "skip_ws s = CHR 0x22 # qs" "parse_str qs = Some (k, r1)"
      "skip_ws r1 = CHR '':'' # cs" "parse_value n cs = Some (v, r2)"
      "(skip_ws r2 = CHR 0x7D # r'' \<and> kvs = [(k, v)]) \<or>
       (\<exists>ds ws. skip_ws r2 = CHR '','' # ds \<and> parse_members n ds = Some (ws, r'') \<and> kvs = (k, v) # ws)"
      by (rule parse_members_cases)
    have "r2 \<noteq> []" using a(5) by (auto simp: skip_ws_def)
    with Suc.IH(1) [OF a(4)] have v: "parse_value n (cs @ t) = Some (v, r2 @ t)" by simp
    note app = skip_ws_append [OF a(1), of t] parse_str_append [OF a(2), of t] skip_ws_append [OF a(3), of t]
    from a(5) show ?case
    proof
      assume "skip_ws r2 = CHR 0x7D # r'' \<and> kvs = [(k, v)]"
      then show ?case using app v skip_ws_append [of r2 "CHR 0x7D" r'' t]
        by (simp add: parse_members.simps(2))
    next
      assume "\<exists>ds ws. skip_ws r2 = CHR '','' # ds \<and> parse_members n ds = Some (ws, r'') \<and> kvs = (k, v) # ws"
      then obtain ds ws where d: "skip_ws r2 = CHR '','' # ds" "parse_members n ds = Some (ws, r'')"
        "kvs = (k, v) # ws" by blast
      from Suc.IH(3) [OF d(2)] show ?case
        using app v d skip_ws_append [OF d(1), of t] by (simp add: parse_members.simps(2))
    qed }
qed

section \<open>The round trip of values\<close>

lemma json_ok_not_bad:
  "json_ok v \<Longrightarrow> json_bad v = None"
  "(\<And>v. v \<in> set vs \<Longrightarrow> json_ok v) \<Longrightarrow> json_bad_elems vs = None"
  "(\<And>k v. (k, v) \<in> set kvs \<Longrightarrow> json_ok v) \<Longrightarrow> json_bad_members kvs = None"
  by (induction v and vs and kvs rule: json_bad_json_bad_elems_json_bad_members.induct) fastforce+

lemma json_not_bad_ok:
  "json_bad v = None \<Longrightarrow> json_ok v"
  "json_bad_elems vs = None \<Longrightarrow> (\<forall>v \<in> set vs. json_ok v)"
  "json_bad_members kvs = None \<Longrightarrow> (\<forall>kv \<in> set kvs. json_ok (snd kv))"
  by (induction v and vs and kvs rule: json_bad_json_bad_elems_json_bad_members.induct)
    (auto split: option.splits if_splits)

lemma json_Marshal_Inr: "json_Marshal v = Inr b \<Longrightarrow> json_ok v \<and> b = render v"
  by (auto simp: json_Marshal_def json_not_bad_ok(1) split: option.splits)

lemma json_Marshal_ok: "json_ok v \<Longrightarrow> json_Marshal v = Inr (render v)"
  by (simp add: json_Marshal_def json_ok_not_bad)

lemma num_char_digit: "is_digit c \<Longrightarrow> num_char c"
  by (simp add: num_char_def)

lemma exp_ok_num_chars: "exp_ok r \<Longrightarrow> list_all num_char r"
proof (cases r)
  case (Cons c r')
  moreover assume "exp_ok r"
  ultimately show ?thesis
    by (cases r') (auto simp: exp_ok_def Let_def num_char_def list_all_iff split: if_splits)
qed simp

lemma takeWhile_all: "list_all P (takeWhile P xs)"
  by (induction xs) auto

lemma list_all_takeWhile_dropWhile:
  "(\<And>x. P x \<Longrightarrow> Q x) \<Longrightarrow> list_all Q (dropWhile P xs) \<Longrightarrow> list_all Q xs"
  by (induction xs) (auto split: if_splits)

lemma frac_ok_num_chars: "frac_ok r \<Longrightarrow> list_all num_char r"
proof (cases r)
  case (Cons c r')
  assume f: "frac_ok r"
  show ?thesis
  proof (cases "c = CHR ''.''")
    case True
    with f Cons have "exp_ok (dropWhile is_digit r')" by (simp add: frac_ok_def)
    from exp_ok_num_chars [OF this] have "list_all num_char r'"
      using list_all_takeWhile_dropWhile [of is_digit num_char] num_char_digit by blast
    with True Cons show ?thesis by (simp add: num_char_def)
  next
    case False
    with f Cons have "exp_ok r" by (simp add: frac_ok_def)
    then show ?thesis by (rule exp_ok_num_chars)
  qed
qed simp

lemma num_ok_num_chars: "num_ok s \<Longrightarrow> list_all num_char s"
proof -
  assume n: "num_ok s"
  let ?s1 = "case s of [] \<Rightarrow> [] | c # r \<Rightarrow> if c = CHR ''-'' then r else s"
  from n have "frac_ok (dropWhile is_digit ?s1)" by (simp add: num_ok_def Let_def)
  from frac_ok_num_chars [OF this] have "list_all num_char ?s1"
    using list_all_takeWhile_dropWhile [of is_digit num_char] num_char_digit by blast
  then show ?thesis by (cases s) (auto simp: num_char_def split: if_splits)
qed

lemma num_ok_head: "num_ok s \<Longrightarrow> \<exists>c cs. s = c # cs \<and> (is_digit c \<or> c = CHR ''-'')"
  by (cases s) (auto simp: num_ok_def Let_def split: if_splits)

lemma is_digit_codes: "is_digit c \<Longrightarrow> c \<in> set ''0123456789''"
proof -
  assume d: "is_digit c"
  then have "(of_char c :: nat) \<in> {48..<58}" by (simp add: is_digit_def)
  moreover have "{48..<58 :: nat} = of_char ` set ''0123456789''" by code_simp
  ultimately have "(of_char c :: nat) \<in> of_char ` set ''0123456789''" by (simp only:)
  then show ?thesis by (metis imageE of_char_eq_iff)
qed

text \<open>The first character of a rendered value decides how it is parsed.\<close>

lemma render_head:
  assumes "json_ok v"
  shows "\<exists>c cs. render v = c # cs \<and> \<not> is_ws c \<and> c \<noteq> CHR 0x5D \<and> c \<noteq> CHR 0x7D"
proof (cases v)
  case (JNum d)
  with assms num_ok_head [of d] obtain c cs where d: "d = c # cs" "is_digit c \<or> c = CHR ''-''" by auto
  then have "\<not> is_ws c \<and> c \<noteq> CHR 0x5D \<and> c \<noteq> CHR 0x7D"
    by (auto dest!: is_digit_codes simp: is_ws_def)
  with d JNum show ?thesis by simp
qed (use assms in \<open>auto simp: render_str_def is_ws_def\<close>)

abbreviation delim :: "string \<Rightarrow> bool" where
  "delim r \<equiv> r = [] \<or> \<not> num_char (hd r)"

lemma skip_ws_Cons: "\<not> is_ws c \<Longrightarrow> skip_ws (c # cs) = c # cs"
  by (simp add: skip_ws_def)

lemma parse_num_render: "num_ok d \<Longrightarrow> delim r \<Longrightarrow> parse_num (d @ r) = Some (JNum d, r)"
proof -
  assume n: "num_ok d" and r: "delim r"
  have "takeWhile num_char (d @ r) = d" "dropWhile num_char (d @ r) = r"
    using num_ok_num_chars [OF n] r
    by (auto simp: list_all_iff takeWhile_append dropWhile_append)
      (cases r; simp)+
  with n show ?thesis by (simp add: parse_num_def)
qed

lemma parse_value_num:
  assumes "num_ok d" "delim r"
  shows "parse_value (Suc n) (d @ r) = Some (JNum d, r)"
proof -
  from num_ok_head [OF assms(1)] obtain c cs where d: "d = c # cs" "is_digit c \<or> c = CHR ''-''" by auto
  then have "c \<in> set ''-0123456789''" by (auto dest!: is_digit_codes)
  then have c: "\<not> is_ws c" "c \<noteq> CHR 0x22" "c \<noteq> CHR 0x5B" "c \<noteq> CHR 0x7B" "c \<noteq> CHR ''t''"
    "c \<noteq> CHR ''f''" "c \<noteq> CHR ''n''"
    by (auto simp: is_ws_def)
  from parse_num_render [OF assms] d c show ?thesis
    by (simp add: parse_value.simps(2) skip_ws_Cons)
qed

lemma render_elems_Cons:
  "render_elems (v # vs) = render v @ (if vs = [] then [] else CHR '','' # render_elems vs)"
  by (cases vs) auto

lemma render_members_Cons:
  "render_members ((k, v) # kvs) =
     render_str k @ CHR '':'' # render v @ (if kvs = [] then [] else CHR '','' # render_members kvs)"
  by (cases kvs) auto

lemma parse_str_render_str: "render_str s = CHR 0x22 # q \<Longrightarrow> parse_str (q @ r) = Some (s, r)"
  using parse_str_render [of s r] by (auto simp: render_str_def)

lemma parse_render_elems_aux:
  assumes ok: "\<And>v. v \<in> set vs \<Longrightarrow> json_ok v"
    and rt: "\<And>v r. v \<in> set vs \<Longrightarrow> delim r \<Longrightarrow> \<exists>n. parse_value n (render v @ r) = Some (v, r)"
    and ne: "vs \<noteq> []"
  shows "\<exists>n. parse_elems n (render_elems vs @ CHR 0x5D # r) = Some (vs, r)"
  using ok rt ne
proof (induction vs)
  case (Cons v vs)
  let ?rest = "(if vs = [] then [] else CHR '','' # render_elems vs) @ CHR 0x5D # r"
  have d: "delim ?rest" by (simp add: num_char_def is_digit_def)
  obtain n where n: "parse_value n (render v @ ?rest) = Some (v, ?rest)"
    using Cons.prems(2) [of v ?rest] d by auto
  let ?s = "render v @ ?rest"
  have v: "parse_value m ?s = Some (v, ?rest)" if "2 * length ?s \<le> m" for m
    using parse_enough(1) [OF n, of m] that by simp
  show ?case
  proof (cases "vs = []")
    case True
    have "parse_elems (Suc (2 * length ?s)) ?s = Some ([v], r)"
      using v [of "2 * length ?s"] True
      by (simp only: parse_elems.simps(2)) (simp add: skip_ws_Cons is_ws_def)
    then show ?thesis using True by (auto simp: render_elems_Cons)
  next
    case False
    obtain n2 where n2: "parse_elems n2 (render_elems vs @ CHR 0x5D # r) = Some (vs, r)"
      using Cons.IH Cons.prems False by auto
    have "parse_elems (2 * length ?s) (render_elems vs @ CHR 0x5D # r) = Some (vs, r)"
      using parse_enough(2) [OF n2, of "2 * length ?s"] False by simp
    then have "parse_elems (Suc (2 * length ?s)) ?s = Some (v # vs, r)"
      using v [of "2 * length ?s"] False
      by (simp only: parse_elems.simps(2)) (simp add: skip_ws_Cons is_ws_def)
    then show ?thesis using False by (auto simp: render_elems_Cons)
  qed
qed simp

lemma parse_render_members_aux:
  assumes rt: "\<And>k v r. (k, v) \<in> set kvs \<Longrightarrow> delim r \<Longrightarrow> \<exists>n. parse_value n (render v @ r) = Some (v, r)"
    and ne: "kvs \<noteq> []"
  shows "\<exists>n. parse_members n (render_members kvs @ CHR 0x7D # r) = Some (kvs, r)"
  using rt ne
proof (induction kvs)
  case (Cons kv kvs)
  obtain k v where kv: "kv = (k, v)" by (cases kv)
  let ?rest = "(if kvs = [] then [] else CHR '','' # render_members kvs) @ CHR 0x7D # r"
  let ?val = "render v @ ?rest"
  obtain q where q: "render_str k = CHR 0x22 # q" by (simp add: render_str_def)
  let ?s = "CHR 0x22 # q @ CHR '':'' # ?val"
  have d: "delim ?rest" by (simp add: num_char_def is_digit_def)
  obtain n where n: "parse_value n ?val = Some (v, ?rest)"
    using Cons.prems(1) [of k v ?rest] d kv by auto
  have v: "parse_value (2 * length ?s) ?val = Some (v, ?rest)"
    using parse_enough(1) [OF n, of "2 * length ?s"] by simp
  have k: "parse_str (q @ CHR '':'' # ?val) = Some (k, CHR '':'' # ?val)"
    by (rule parse_str_render_str [OF q])
  show ?case
  proof (cases "kvs = []")
    case True
    have "parse_members (Suc (2 * length ?s)) ?s = Some ([(k, v)], r)"
      using v k True by (simp only: parse_members.simps(2)) (simp add: skip_ws_Cons is_ws_def)
    then show ?thesis using True kv q by (auto simp: render_members_Cons)
  next
    case False
    obtain n2 where n2: "parse_members n2 (render_members kvs @ CHR 0x7D # r) = Some (kvs, r)"
      using Cons.IH [OF _ False] Cons.prems(1) by (meson list.set_intros(2))
    have "parse_members (2 * length ?s) (render_members kvs @ CHR 0x7D # r) = Some (kvs, r)"
      using parse_enough(3) [OF n2, of "2 * length ?s"] False by simp
    then have "parse_members (Suc (2 * length ?s)) ?s = Some ((k, v) # kvs, r)"
      using v k False by (simp only: parse_members.simps(2)) (simp add: skip_ws_Cons is_ws_def)
    then show ?thesis using False kv q by (auto simp: render_members_Cons)
  qed
qed simp

lemma parse_render_ex: "json_ok v \<Longrightarrow> delim r \<Longrightarrow> \<exists>n. parse_value n (render v @ r) = Some (v, r)"
proof (induction v arbitrary: r)
  case JNull
  have "parse_value (Suc 0) (render JNull @ r) = Some (JNull, r)"
    by (simp add: parse_value.simps(2) skip_ws_Cons is_ws_def literal_def)
  then show ?case by blast
next
  case (JBool b)
  have "parse_value (Suc 0) (render (JBool b) @ r) = Some (JBool b, r)"
    by (simp add: parse_value.simps(2) skip_ws_Cons is_ws_def literal_def)
  then show ?case by blast
next
  case (JNum d)
  then have "parse_value (Suc 0) (render (JNum d) @ r) = Some (JNum d, r)"
    using parse_value_num [of d r 0] by simp
  then show ?case by blast
next
  case (JStr s)
  have "parse_value (Suc 0) (render (JStr s) @ r) = Some (JStr s, r)"
    using parse_str_render [of s r]
    by (simp add: render_str_def parse_value.simps(2) skip_ws_Cons is_ws_def)
  then show ?case by blast
next
  case (JArr vs)
  show ?case
  proof (cases vs)
    case Nil
    have "parse_value (Suc 0) (render (JArr vs) @ r) = Some (JArr vs, r)"
      by (simp add: Nil parse_value.simps(2) skip_ws_Cons is_ws_def)
    then show ?thesis by blast
  next
    case (Cons v ws)
    obtain n where n: "parse_elems n (render_elems vs @ CHR 0x5D # r) = Some (vs, r)"
      using parse_render_elems_aux [of vs r] JArr Cons by force
    obtain c cs where c: "render v = c # cs" "\<not> is_ws c" "c \<noteq> CHR 0x5D"
      using render_head [of v] JArr.prems Cons by auto
    have "\<exists>ds. render_elems vs @ CHR 0x5D # r = c # ds"
      using c Cons by (simp add: render_elems_Cons)
    then obtain ds where ds: "render_elems vs @ CHR 0x5D # r = c # ds" by blast
    have "parse_value (Suc n) (render (JArr vs) @ r) = Some (JArr vs, r)"
      using n ds c by (simp add: parse_value.simps(2) skip_ws_Cons is_ws_def)
    then show ?thesis by blast
  qed
next
  case (JObj kvs)
  show ?case
  proof (cases kvs)
    case Nil
    have "parse_value (Suc 0) (render (JObj kvs) @ r) = Some (JObj kvs, r)"
      by (simp add: Nil parse_value.simps(2) skip_ws_Cons is_ws_def)
    then show ?thesis by blast
  next
    case (Cons kv ws)
    have rt: "\<exists>n. parse_value n (render v @ r) = Some (v, r)" if "(k, v) \<in> set kvs" "delim r" for k v r
      using JObj.IH [OF that(1), of v r] JObj.prems that by (fastforce simp: snds.simps)
    have "\<exists>n. parse_members n (render_members kvs @ CHR 0x7D # r) = Some (kvs, r)"
      by (rule parse_render_members_aux) (use rt Cons in auto)
    then obtain n where n: "parse_members n (render_members kvs @ CHR 0x7D # r) = Some (kvs, r)" ..
    have "\<exists>ds. render_members kvs @ CHR 0x7D # r = CHR 0x22 # ds"
      using Cons by (cases kv) (simp add: render_members_Cons render_str_def)
    then obtain ds where ds: "render_members kvs @ CHR 0x7D # r = CHR 0x22 # ds" by blast
    have "parse_value (Suc n) (render (JObj kvs) @ r) = Some (JObj kvs, r)"
      using n ds by (simp add: parse_value.simps(2) skip_ws_Cons is_ws_def)
    then show ?thesis by blast
  qed
next
  case (JBad e)
  then show ?case by simp
qed

lemma json_Unmarshal_render: "json_ok v \<Longrightarrow> json_Unmarshal (render v) = Some v"
proof -
  assume "json_ok v"
  then obtain n where "parse_value n (render v @ []) = Some (v, [])"
    using parse_render_ex [of v "[]"] by auto
  from parse_value_enough [OF this] show ?thesis by (simp add: json_Unmarshal_def skip_ws_def)
qed

section \<open>Lines\<close>

text \<open>Rendering escapes every control character, so a rendered value is one line.\<close>

definition printable :: "string \<Rightarrow> bool" where
  "printable s \<longleftrightarrow> list_all (\<lambda>c. 32 \<le> (of_char c :: nat)) s"

lemma printable_simps [simp]:
  "printable []"
  "printable (c # s) \<longleftrightarrow> 32 \<le> (of_char c :: nat) \<and> printable s"
  "printable (s @ t) \<longleftrightarrow> printable s \<and> printable t"
  by (auto simp: printable_def)

lemma hex_digit_printable: "d < 16 \<Longrightarrow> 32 \<le> (of_char (hex_digit d) :: nat)"
  by (simp add: hex_digit_def)

lemma json_esc_printable: "printable (json_esc c)"
  by (auto simp: json_esc_def Let_def hex_digit_printable)

lemma render_str_printable: "printable (render_str s)"
  by (induction s) (auto simp: render_str_def json_esc_printable)

lemma num_ok_printable: "num_ok d \<Longrightarrow> printable d"
  by (drule num_ok_num_chars) (auto simp: printable_def list_all_iff num_char_def is_digit_def)

lemma render_printable:
  "json_ok v \<Longrightarrow> printable (render v)"
  "(\<forall>v \<in> set vs. json_ok v) \<Longrightarrow> printable (render_elems vs)"
  "(\<forall>kv \<in> set kvs. json_ok (snd kv)) \<Longrightarrow> printable (render_members kvs)"
  by (induction v and vs and kvs rule: render_render_elems_render_members.induct)
    (auto simp: render_str_printable num_ok_printable)

lemma newline_free_render: "json_ok v \<Longrightarrow> CHR 0x0A \<notin> set (render v)"
  using render_printable(1) [of v] by (auto simp: printable_def list_all_iff)

section \<open>A torn object is not JSON\<close>

lemma parse_value_obj:
  assumes "parse_value n (CHR 0x7B # s) = Some (v, r)"
  shows "\<exists>kvs. v = JObj kvs"
proof (cases n)
  case (Suc m)
  with assms show ?thesis
    by (auto simp: parse_value.simps(2) skip_ws_Cons is_ws_def split: list.splits if_splits option.splits)
qed (use assms in simp)

lemma render_obj_prefix_free:
  assumes ok: "json_ok (JObj kvs)" and eq: "render (JObj kvs) = s @ t" and t: "t \<noteq> []"
  shows "json_Unmarshal s = None"
proof (cases s)
  case Nil
  have "parse_value (Suc (Suc 0)) [] = None" by (simp add: parse_value.simps(2) skip_ws_def)
  then show ?thesis using Nil by (simp add: json_Unmarshal_def)
next
  case (Cons c s')
  then have c: "c = CHR 0x7B" using eq by simp
  show ?thesis
  proof (cases "parse_value (2 * length s + 2) s")
    case None
    then show ?thesis by (simp add: json_Unmarshal_def)
  next
    case (Some p)
    then obtain w r where w: "parse_value (2 * length s + 2) s = Some (w, r)" by (cases p) auto
    then have "\<forall>d. w \<noteq> JNum d" using parse_value_obj Cons c by blast
    with parse_append(1) [OF w, of t] have "parse_value (2 * length s + 2) (s @ t) = Some (w, r @ t)"
      by blast
    from parse_value_enough [OF this] have a: "parse_value (2 * length (s @ t) + 2) (s @ t) = Some (w, r @ t)" .
    obtain n where "parse_value n (s @ t) = Some (JObj kvs, [])"
      using parse_render_ex [OF ok, of "[]"] eq by (auto simp del: render.simps)
    from parse_value_enough [OF this] a have "r @ t = []" by simp
    with t show ?thesis by simp
  qed
qed

text \<open>Decimal integers are JSON numbers.\<close>

lemma nat_text_head: "nat_text n = c # cs \<Longrightarrow> c = CHR ''0'' \<Longrightarrow> cs = []"
proof (induction n arbitrary: c cs rule: nat_text.induct)
  case (1 n)
  show ?case
  proof (cases "n < 10")
    case True
    then show ?thesis using 1(2) by (simp add: nat_text.simps [of n])
  next
    case False
    then obtain d ds where d: "nat_text (n div 10) = d # ds" by (cases "nat_text (n div 10)") auto
    with False 1(2) have dc: "d = c" "cs = ds @ [digit_char (n mod 10)]" by (auto simp: nat_text.simps [of n])
    have "ds = []" using 1(1) [OF False d] dc 1(3) by simp
    then have "digits_val (nat_text (n div 10)) = digit_val c" using d dc by (simp add: digits_val_def)
    then have "n div 10 = 0" using 1(3) by (simp add: digit_val_def)
    with False show ?thesis by simp
  qed
qed

lemma num_ok_nat_text: "num_ok (nat_text n)"
proof -
  obtain c cs where c: "nat_text n = c # cs" by (cases "nat_text n") auto
  have d: "list_all is_digit (nat_text n)" by (rule nat_text_digits)
  then have "is_digit c" using c by simp
  then have "c \<noteq> CHR ''-''" by (auto simp: is_digit_def)
  moreover have "takeWhile is_digit (c # cs) = c # cs" "dropWhile is_digit (c # cs) = []"
    using d c by (auto simp: list_all_iff takeWhile_eq_all_conv)
  ultimately show ?thesis using c nat_text_head [OF c] by (auto simp: num_ok_def frac_ok_def)
qed

lemma num_ok_int_text: "num_ok (int_text i)"
proof (cases "i < 0")
  case True
  let ?n = "nat_text (nat (- i))"
  have "num_ok ?n" by (rule num_ok_nat_text)
  moreover obtain c cs where "?n = c # cs" by (cases ?n) auto
  moreover have "c \<noteq> CHR ''-''" using calculation(2) nat_text_digits [of "nat (- i)"] by (auto simp: is_digit_def)
  ultimately show ?thesis using True by (simp add: int_text_def num_ok_def)
next
  case False
  then show ?thesis by (simp add: int_text_def num_ok_nat_text)
qed

text \<open>
  The integer a number literal denotes, None when it is not a plain integer: what
  \<open>strconv.ParseInt\<close> accepts when encoding/json decodes into an integer field.
\<close>

definition num_int :: "string \<Rightarrow> int option" where
  "num_int d =
     (case d of [] \<Rightarrow> None
      | c # r \<Rightarrow>
          if c = CHR ''-'' then (if r \<noteq> [] \<and> list_all is_digit r then Some (- int (digits_val r)) else None)
          else if list_all is_digit d then Some (int (digits_val d)) else None)"

lemma num_int_nat_text [simp]: "num_int (nat_text n) = Some (int n)"
proof -
  obtain c cs where c: "nat_text n = c # cs" by (cases "nat_text n") auto
  moreover have d: "list_all is_digit (nat_text n)" by (rule nat_text_digits)
  ultimately have "c \<noteq> CHR ''-''" by (auto simp: is_digit_def)
  with c d show ?thesis using digits_val_nat_text [of n] by (simp add: num_int_def)
qed

lemma num_int_int_text [simp]: "num_int (int_text i) = Some i"
proof (cases "i < 0")
  case True
  then show ?thesis using nat_text_digits [of "nat (- i)"] by (simp add: int_text_def num_int_def)
next
  case False
  then show ?thesis by (simp add: int_text_def)
qed
end
