(* ===== verification/Metadata.thy ===== *)
theory Metadata
  imports Json "HOL-Library.Monad_Syntax"
begin

text \<open>
  storage/metadata/metadata.go: the persisted structs as records, their JSON shape by the struct
  tags (\<open>enc_\<close> is json.Marshal of the struct as a value tree, \<open>dec_\<close> is json.Unmarshal
  into it), and the composite key of scoped memory. Decoding follows encoding/json: an absent
  member or null leaves the zero value, a member of the wrong type is an error, the last
  duplicate wins. Members are matched by their exact names (the store writes no others).
\<close>

section \<open>Records\<close>

record tool_call_record =
  tc_id :: string
  tc_name :: string
  tc_arguments :: string
  tc_result :: string
  tc_status :: string

record message =
  msg_id :: string
  msg_role :: string
  msg_content :: string
  msg_tool_calls :: "tool_call_record list"
  msg_created_at :: int

record interrupt =
  intr_id :: string
  intr_reason :: string
  intr_message :: string
  intr_tool_call_id :: string
  intr_response_schema :: "(string \<times> json) list"
  intr_expires_at_ms :: int
  intr_metadata :: "(string \<times> json) list"

record session =
  sess_id :: string
  sess_agent_id :: string
  sess_user_id :: string
  sess_parent_session_id :: string
  sess_messages :: "message list"
  sess_state :: "(string \<times> json) list"
  sess_open_interrupts :: "interrupt list"
  sess_revision :: "64 word"
  sess_created_at :: int
  sess_updated_at :: int

record tool_def =
  td_id :: string
  td_agent_id :: string
  td_name :: string
  td_description :: string
  td_parameters :: json
  td_handler :: string
  td_endpoint :: string
  td_headers :: "(string \<times> string) list"
  td_input_mapping :: "(string \<times> string) list"
  td_response_field :: string
  td_script_path :: string
  td_created_at :: int

record skill_entry =
  se_name :: string
  se_description :: string
  se_version :: string
  se_enabled :: bool

record skill_def =
  sd_name :: string
  sd_description :: string
  sd_version :: string
  sd_instructions :: string
  sd_tools :: "json list"
  sd_config :: "(string \<times> json) list"
  sd_resources :: "json list"
  sd_enabled :: bool

record mcp_server_def =
  ms_id :: string
  ms_agent_id :: string
  ms_name :: string
  ms_url :: string
  ms_transport :: string
  ms_headers :: "(string \<times> string) list"
  ms_enabled :: bool
  ms_created_at :: int

datatype memory_scope = ScopeGlobal | ScopeAgent | ScopeUser

fun scope_text :: "memory_scope \<Rightarrow> string" where
  "scope_text ScopeGlobal = ''global''"
| "scope_text ScopeAgent = ''agent''"
| "scope_text ScopeUser = ''user''"

definition ScopedKey :: "memory_scope \<Rightarrow> string \<Rightarrow> string \<Rightarrow> string" where
  "ScopedKey scope scopeID key = scope_text scope @ '':'' @ scopeID @ ''::'' @ key"

lemma take_to_colon: "CHR '':'' \<notin> set a \<Longrightarrow> CHR '':'' \<notin> set b \<Longrightarrow>
    a @ CHR '':'' # u = b @ CHR '':'' # v \<longleftrightarrow> a = b \<and> u = v"
proof (induction a arbitrary: b)
  case Nil
  then show ?case by (cases b) auto
next
  case (Cons c a)
  then show ?case by (cases b) auto
qed

lemma scope_text_plain: "CHR '':'' \<notin> set (scope_text sc)" "scope_text sc = scope_text sc' \<longleftrightarrow> sc = sc'"
  by (cases sc; cases sc'; simp)+

lemma ScopedKey_plain_iff:
  "CHR '':'' \<notin> set a \<Longrightarrow> CHR '':'' \<notin> set b \<Longrightarrow> ScopedKey sc a k = ScopedKey sc' b k' \<longleftrightarrow> sc = sc' \<and> a = b \<and> k = k'"
  using take_to_colon [of a b] scope_text_plain(2) [of sc sc'] take_to_colon [OF scope_text_plain(1) scope_text_plain(1)]
  by (simp add: ScopedKey_def)

section \<open>The order of listed sessions\<close>

text \<open>sortSessions of the stores: latest update first, then by id.\<close>

definition listed_before :: "session \<Rightarrow> session \<Rightarrow> bool" where
  "listed_before a b \<longleftrightarrow>
     (if sess_updated_at a \<noteq> sess_updated_at b then sess_updated_at a > sess_updated_at b
      else sess_id a < sess_id b)"

fun insert_session :: "session \<Rightarrow> session list \<Rightarrow> session list" where
  "insert_session x [] = [x]"
| "insert_session x (y # ys) = (if listed_before y x then y # insert_session x ys else x # y # ys)"

definition sortSessions :: "session list \<Rightarrow> session list" where
  "sortSessions xs = foldr insert_session xs []"

section \<open>Values in canonical form\<close>

text \<open>
  A Go map is kept as its key-sorted member list. Decoding into \<open>any\<close> or a map puts the
  members one by one, so it ends in this form; json.Marshal writes the keys in this order.
\<close>

fun canon :: "json \<Rightarrow> json"
  and canon_elems :: "json list \<Rightarrow> json list"
  and canon_members :: "(string \<times> json) list \<Rightarrow> (string \<times> json) list \<Rightarrow> (string \<times> json) list" where
  "canon (JArr vs) = JArr (canon_elems vs)"
| "canon (JObj kvs) = JObj (canon_members kvs [])"
| "canon v = v"
| "canon_elems [] = []"
| "canon_elems (v # vs) = canon v # canon_elems vs"
| "canon_members [] acc = acc"
| "canon_members ((k, v) # kvs) acc = canon_members kvs (map_put k (canon v) acc)"

fun json_canon :: "json \<Rightarrow> bool" where
  "json_canon (JArr vs) \<longleftrightarrow> (\<forall>v \<in> set vs. json_canon v)"
| "json_canon (JObj kvs) \<longleftrightarrow> sorted_keys kvs \<and> (\<forall>kv \<in> set kvs. json_canon (snd kv))"
| "json_canon _ \<longleftrightarrow> True"

lemma canon_id:
  "json_canon v \<Longrightarrow> canon v = v"
  "(\<forall>v \<in> set vs. json_canon v) \<Longrightarrow> canon_elems vs = vs"
  "sorted_keys kvs \<Longrightarrow> (\<forall>kv \<in> set kvs. json_canon (snd kv)) \<Longrightarrow>
     (\<forall>k \<in> set (map fst acc). \<forall>k' \<in> set (map fst kvs). k < k') \<Longrightarrow> canon_members kvs acc = acc @ kvs"
  by (induction v and vs and kvs acc rule: canon_canon_elems_canon_members.induct)
    (auto simp: map_put_last)

abbreviation json_map_ok :: "(string \<times> json) list \<Rightarrow> bool" where
  "json_map_ok m \<equiv> json_canon (JObj m) \<and> json_ok (JObj m)"

section \<open>Decoding fields\<close>

definition jmember :: "string \<Rightarrow> (string \<times> json) list \<Rightarrow> json option" where
  "jmember k kvs = map_of (rev kvs) k"

fun dec_string :: "json option \<Rightarrow> string option" where
  "dec_string None = Some []"
| "dec_string (Some JNull) = Some []"
| "dec_string (Some (JStr s)) = Some s"
| "dec_string _ = None"

fun dec_bool :: "json option \<Rightarrow> bool option" where
  "dec_bool None = Some False"
| "dec_bool (Some JNull) = Some False"
| "dec_bool (Some (JBool b)) = Some b"
| "dec_bool _ = None"

definition int64_ok :: "int \<Rightarrow> bool" where
  "int64_ok i \<longleftrightarrow> - (2 ^ 63) \<le> i \<and> i < 2 ^ 63"

fun dec_int64 :: "json option \<Rightarrow> int option" where
  "dec_int64 None = Some 0"
| "dec_int64 (Some JNull) = Some 0"
| "dec_int64 (Some (JNum d)) =
     (case num_int d of None \<Rightarrow> None | Some i \<Rightarrow> if int64_ok i then Some i else None)"
| "dec_int64 _ = None"

fun dec_uint64 :: "json option \<Rightarrow> 64 word option" where
  "dec_uint64 None = Some 0"
| "dec_uint64 (Some JNull) = Some 0"
| "dec_uint64 (Some (JNum d)) =
     (case num_int d of None \<Rightarrow> None
      | Some i \<Rightarrow> if 0 \<le> i \<and> i < 2 ^ 64 then Some (word_of_int i) else None)"
| "dec_uint64 _ = None"

fun dec_elems :: "(json \<Rightarrow> 'a option) \<Rightarrow> json list \<Rightarrow> 'a list option" where
  "dec_elems f [] = Some []"
| "dec_elems f (v # vs) = do { x \<leftarrow> f v; xs \<leftarrow> dec_elems f vs; Some (x # xs) }"

fun dec_list :: "(json \<Rightarrow> 'a option) \<Rightarrow> json option \<Rightarrow> 'a list option" where
  "dec_list f None = Some []"
| "dec_list f (Some JNull) = Some []"
| "dec_list f (Some (JArr vs)) = dec_elems f vs"
| "dec_list f _ = None"

fun dec_map :: "json option \<Rightarrow> (string \<times> json) list option" where
  "dec_map None = Some []"
| "dec_map (Some JNull) = Some []"
| "dec_map (Some (JObj kvs)) = Some (canon_members kvs [])"
| "dec_map _ = None"

fun dec_any :: "json option \<Rightarrow> json option" where
  "dec_any None = Some JNull"
| "dec_any (Some v) = Some (canon v)"

fun dec_str_elems :: "(string \<times> json) list \<Rightarrow> (string \<times> string) list \<Rightarrow> (string \<times> string) list option" where
  "dec_str_elems [] acc = Some acc"
| "dec_str_elems ((k, v) # kvs) acc =
     do { s \<leftarrow> dec_string (Some v); dec_str_elems kvs (map_put k s acc) }"

fun dec_str_map :: "json option \<Rightarrow> (string \<times> string) list option" where
  "dec_str_map None = Some []"
| "dec_str_map (Some JNull) = Some []"
| "dec_str_map (Some (JObj kvs)) = dec_str_elems kvs []"
| "dec_str_map _ = None"

text \<open>A struct decodes from an object, and null leaves it zero.\<close>

definition dec_struct :: "((string \<times> json) list \<Rightarrow> 'a option) \<Rightarrow> json \<Rightarrow> 'a option" where
  "dec_struct f v = (case v of JObj kvs \<Rightarrow> f kvs | JNull \<Rightarrow> f [] | _ \<Rightarrow> None)"

definition enc_int :: "int \<Rightarrow> json" where
  "enc_int i = JNum (int_text i)"

definition enc_uint64 :: "64 word \<Rightarrow> json" where
  "enc_uint64 w = JNum (nat_text (unat w))"

definition enc_str_map :: "(string \<times> string) list \<Rightarrow> json" where
  "enc_str_map m = JObj (map (\<lambda>(k, s). (k, JStr s)) m)"

lemma dec_int64_enc [simp]: "int64_ok i \<Longrightarrow> dec_int64 (Some (enc_int i)) = Some i"
  by (simp add: enc_int_def)

lemma dec_uint64_enc [simp]: "dec_uint64 (Some (enc_uint64 w)) = Some w"
proof -
  have "uint w < 2 ^ 64"
    using unsigned_less [of w, where 'a = int] by simp
  then show ?thesis by (simp add: enc_uint64_def)
qed

lemma dec_elems_enc: "(\<And>x. x \<in> set xs \<Longrightarrow> f (g x) = Some x) \<Longrightarrow> dec_elems f (map g xs) = Some xs"
  by (induction xs) auto

lemma dec_map_enc: "json_map_ok m \<Longrightarrow> dec_map (Some (JObj m)) = Some m"
  by (simp add: canon_id(3))

lemma dec_str_elems_enc:
  "sorted_keys m \<Longrightarrow> (\<forall>k \<in> set (map fst acc). \<forall>k' \<in> set (map fst m). k < k') \<Longrightarrow>
     dec_str_elems (map (\<lambda>(k, s). (k, JStr s)) m) acc = Some (acc @ m)"
  by (induction m arbitrary: acc) (auto simp: map_put_last)

lemma dec_str_map_enc: "sorted_keys m \<Longrightarrow> dec_str_map (Some (enc_str_map m)) = Some m"
  by (simp add: enc_str_map_def dec_str_elems_enc)

lemma json_ok_enc [simp]:
  "json_ok (enc_int i)" "json_ok (enc_uint64 w)" "json_ok (enc_str_map m)"
  by (auto simp: enc_int_def enc_uint64_def enc_str_map_def num_ok_int_text num_ok_nat_text)

section \<open>The JSON shape of the structs\<close>

definition enc_tool_call :: "tool_call_record \<Rightarrow> json" where
  "enc_tool_call t = JObj
     [(''id'', JStr (tc_id t)), (''name'', JStr (tc_name t)), (''arguments'', JStr (tc_arguments t)),
      (''result'', JStr (tc_result t)), (''status'', JStr (tc_status t))]"

definition dec_tool_call :: "json \<Rightarrow> tool_call_record option" where
  "dec_tool_call = dec_struct (\<lambda>kvs. do {
     i \<leftarrow> dec_string (jmember ''id'' kvs);
     n \<leftarrow> dec_string (jmember ''name'' kvs);
     a \<leftarrow> dec_string (jmember ''arguments'' kvs);
     r \<leftarrow> dec_string (jmember ''result'' kvs);
     s \<leftarrow> dec_string (jmember ''status'' kvs);
     Some \<lparr>tc_id = i, tc_name = n, tc_arguments = a, tc_result = r, tc_status = s\<rparr> })"

definition enc_message :: "message \<Rightarrow> json" where
  "enc_message m = JObj
     [(''id'', JStr (msg_id m)), (''role'', JStr (msg_role m)), (''content'', JStr (msg_content m)),
      (''toolCalls'', JArr (map enc_tool_call (msg_tool_calls m))),
      (''createdAt'', enc_int (msg_created_at m))]"

definition dec_message :: "json \<Rightarrow> message option" where
  "dec_message = dec_struct (\<lambda>kvs. do {
     i \<leftarrow> dec_string (jmember ''id'' kvs);
     r \<leftarrow> dec_string (jmember ''role'' kvs);
     c \<leftarrow> dec_string (jmember ''content'' kvs);
     ts \<leftarrow> dec_list dec_tool_call (jmember ''toolCalls'' kvs);
     t \<leftarrow> dec_int64 (jmember ''createdAt'' kvs);
     Some \<lparr>msg_id = i, msg_role = r, msg_content = c, msg_tool_calls = ts, msg_created_at = t\<rparr> })"

text \<open>\<open>omitempty\<close> leaves a zero member out.\<close>

definition omit_str :: "string \<Rightarrow> string \<Rightarrow> (string \<times> json) list" where
  "omit_str k s = (if s = [] then [] else [(k, JStr s)])"

definition omit_int :: "string \<Rightarrow> int \<Rightarrow> (string \<times> json) list" where
  "omit_int k i = (if i = 0 then [] else [(k, enc_int i)])"

definition omit_map :: "string \<Rightarrow> (string \<times> json) list \<Rightarrow> (string \<times> json) list" where
  "omit_map k m = (if m = [] then [] else [(k, JObj m)])"

definition enc_interrupt :: "interrupt \<Rightarrow> json" where
  "enc_interrupt i = JObj
     ([(''id'', JStr (intr_id i)), (''reason'', JStr (intr_reason i))]
      @ omit_str ''message'' (intr_message i)
      @ omit_str ''toolCallId'' (intr_tool_call_id i)
      @ omit_map ''responseSchema'' (intr_response_schema i)
      @ omit_int ''expiresAtMs'' (intr_expires_at_ms i)
      @ omit_map ''metadata'' (intr_metadata i))"

definition dec_interrupt :: "json \<Rightarrow> interrupt option" where
  "dec_interrupt = dec_struct (\<lambda>kvs. do {
     i \<leftarrow> dec_string (jmember ''id'' kvs);
     r \<leftarrow> dec_string (jmember ''reason'' kvs);
     m \<leftarrow> dec_string (jmember ''message'' kvs);
     t \<leftarrow> dec_string (jmember ''toolCallId'' kvs);
     s \<leftarrow> dec_map (jmember ''responseSchema'' kvs);
     e \<leftarrow> dec_int64 (jmember ''expiresAtMs'' kvs);
     d \<leftarrow> dec_map (jmember ''metadata'' kvs);
     Some \<lparr>intr_id = i, intr_reason = r, intr_message = m, intr_tool_call_id = t,
           intr_response_schema = s, intr_expires_at_ms = e, intr_metadata = d\<rparr> })"

definition enc_session :: "session \<Rightarrow> json" where
  "enc_session s = JObj
     ([(''id'', JStr (sess_id s)), (''agentId'', JStr (sess_agent_id s)),
       (''userId'', JStr (sess_user_id s))]
      @ omit_str ''parentSessionId'' (sess_parent_session_id s)
      @ [(''messages'', JArr (map enc_message (sess_messages s))), (''state'', JObj (sess_state s))]
      @ (if sess_open_interrupts s = [] then []
         else [(''openInterrupts'', JArr (map enc_interrupt (sess_open_interrupts s)))])
      @ [(''revision'', enc_uint64 (sess_revision s)), (''createdAt'', enc_int (sess_created_at s)),
         (''updatedAt'', enc_int (sess_updated_at s))])"

definition dec_session :: "json \<Rightarrow> session option" where
  "dec_session = dec_struct (\<lambda>kvs. do {
     i \<leftarrow> dec_string (jmember ''id'' kvs);
     a \<leftarrow> dec_string (jmember ''agentId'' kvs);
     u \<leftarrow> dec_string (jmember ''userId'' kvs);
     p \<leftarrow> dec_string (jmember ''parentSessionId'' kvs);
     ms \<leftarrow> dec_list dec_message (jmember ''messages'' kvs);
     st \<leftarrow> dec_map (jmember ''state'' kvs);
     is \<leftarrow> dec_list dec_interrupt (jmember ''openInterrupts'' kvs);
     r \<leftarrow> dec_uint64 (jmember ''revision'' kvs);
     c \<leftarrow> dec_int64 (jmember ''createdAt'' kvs);
     t \<leftarrow> dec_int64 (jmember ''updatedAt'' kvs);
     Some \<lparr>sess_id = i, sess_agent_id = a, sess_user_id = u, sess_parent_session_id = p,
           sess_messages = ms, sess_state = st, sess_open_interrupts = is, sess_revision = r,
           sess_created_at = c, sess_updated_at = t\<rparr> })"

definition enc_tool_def :: "tool_def \<Rightarrow> json" where
  "enc_tool_def t = JObj
     [(''id'', JStr (td_id t)), (''agentId'', JStr (td_agent_id t)), (''name'', JStr (td_name t)),
      (''description'', JStr (td_description t)), (''parameters'', td_parameters t),
      (''handler'', JStr (td_handler t)), (''endpoint'', JStr (td_endpoint t)),
      (''headers'', enc_str_map (td_headers t)), (''inputMapping'', enc_str_map (td_input_mapping t)),
      (''responseField'', JStr (td_response_field t)), (''scriptPath'', JStr (td_script_path t)),
      (''createdAt'', enc_int (td_created_at t))]"

definition dec_tool_def :: "json \<Rightarrow> tool_def option" where
  "dec_tool_def = dec_struct (\<lambda>kvs. do {
     i \<leftarrow> dec_string (jmember ''id'' kvs);
     a \<leftarrow> dec_string (jmember ''agentId'' kvs);
     n \<leftarrow> dec_string (jmember ''name'' kvs);
     d \<leftarrow> dec_string (jmember ''description'' kvs);
     p \<leftarrow> dec_any (jmember ''parameters'' kvs);
     h \<leftarrow> dec_string (jmember ''handler'' kvs);
     e \<leftarrow> dec_string (jmember ''endpoint'' kvs);
     hs \<leftarrow> dec_str_map (jmember ''headers'' kvs);
     im \<leftarrow> dec_str_map (jmember ''inputMapping'' kvs);
     rf \<leftarrow> dec_string (jmember ''responseField'' kvs);
     sp \<leftarrow> dec_string (jmember ''scriptPath'' kvs);
     c \<leftarrow> dec_int64 (jmember ''createdAt'' kvs);
     Some \<lparr>td_id = i, td_agent_id = a, td_name = n, td_description = d, td_parameters = p,
           td_handler = h, td_endpoint = e, td_headers = hs, td_input_mapping = im,
           td_response_field = rf, td_script_path = sp, td_created_at = c\<rparr> })"

definition enc_skill_def :: "skill_def \<Rightarrow> json" where
  "enc_skill_def d = JObj
     [(''name'', JStr (sd_name d)), (''description'', JStr (sd_description d)),
      (''version'', JStr (sd_version d)), (''instructions'', JStr (sd_instructions d)),
      (''tools'', JArr (sd_tools d)), (''config'', JObj (sd_config d)),
      (''resources'', JArr (sd_resources d)), (''enabled'', JBool (sd_enabled d))]"

definition dec_skill_def :: "json \<Rightarrow> skill_def option" where
  "dec_skill_def = dec_struct (\<lambda>kvs. do {
     n \<leftarrow> dec_string (jmember ''name'' kvs);
     d \<leftarrow> dec_string (jmember ''description'' kvs);
     v \<leftarrow> dec_string (jmember ''version'' kvs);
     i \<leftarrow> dec_string (jmember ''instructions'' kvs);
     ts \<leftarrow> dec_list (\<lambda>t. Some (canon t)) (jmember ''tools'' kvs);
     c \<leftarrow> dec_map (jmember ''config'' kvs);
     rs \<leftarrow> dec_list (\<lambda>t. Some (canon t)) (jmember ''resources'' kvs);
     e \<leftarrow> dec_bool (jmember ''enabled'' kvs);
     Some \<lparr>sd_name = n, sd_description = d, sd_version = v, sd_instructions = i, sd_tools = ts,
           sd_config = c, sd_resources = rs, sd_enabled = e\<rparr> })"

definition enc_mcp_server_def :: "mcp_server_def \<Rightarrow> json" where
  "enc_mcp_server_def m = JObj
     [(''id'', JStr (ms_id m)), (''agentId'', JStr (ms_agent_id m)), (''name'', JStr (ms_name m)),
      (''url'', JStr (ms_url m)), (''transport'', JStr (ms_transport m)),
      (''headers'', enc_str_map (ms_headers m)), (''enabled'', JBool (ms_enabled m)),
      (''createdAt'', enc_int (ms_created_at m))]"

definition dec_mcp_server_def :: "json \<Rightarrow> mcp_server_def option" where
  "dec_mcp_server_def = dec_struct (\<lambda>kvs. do {
     i \<leftarrow> dec_string (jmember ''id'' kvs);
     a \<leftarrow> dec_string (jmember ''agentId'' kvs);
     n \<leftarrow> dec_string (jmember ''name'' kvs);
     u \<leftarrow> dec_string (jmember ''url'' kvs);
     t \<leftarrow> dec_string (jmember ''transport'' kvs);
     h \<leftarrow> dec_str_map (jmember ''headers'' kvs);
     e \<leftarrow> dec_bool (jmember ''enabled'' kvs);
     c \<leftarrow> dec_int64 (jmember ''createdAt'' kvs);
     Some \<lparr>ms_id = i, ms_agent_id = a, ms_name = n, ms_url = u, ms_transport = t,
           ms_headers = h, ms_enabled = e, ms_created_at = c\<rparr> })"

section \<open>Round trips\<close>

text \<open>Values JSON can carry: timestamps in range, maps in canonical form and renderable.\<close>

definition message_ok :: "message \<Rightarrow> bool" where
  "message_ok m \<longleftrightarrow> int64_ok (msg_created_at m)"

definition interrupt_ok :: "interrupt \<Rightarrow> bool" where
  "interrupt_ok i \<longleftrightarrow>
     json_map_ok (intr_response_schema i) \<and> int64_ok (intr_expires_at_ms i) \<and> json_map_ok (intr_metadata i)"

definition session_ok :: "session \<Rightarrow> bool" where
  "session_ok s \<longleftrightarrow>
     (\<forall>m \<in> set (sess_messages s). message_ok m) \<and> json_map_ok (sess_state s) \<and>
     (\<forall>i \<in> set (sess_open_interrupts s). interrupt_ok i) \<and>
     int64_ok (sess_created_at s) \<and> int64_ok (sess_updated_at s)"

definition tool_def_ok :: "tool_def \<Rightarrow> bool" where
  "tool_def_ok t \<longleftrightarrow> json_canon (td_parameters t) \<and> json_ok (td_parameters t) \<and>
     sorted_keys (td_headers t) \<and> sorted_keys (td_input_mapping t) \<and> int64_ok (td_created_at t)"

definition skill_def_ok :: "skill_def \<Rightarrow> bool" where
  "skill_def_ok d \<longleftrightarrow> json_canon (JArr (sd_tools d)) \<and> json_ok (JArr (sd_tools d)) \<and>
     json_map_ok (sd_config d) \<and> json_canon (JArr (sd_resources d)) \<and> json_ok (JArr (sd_resources d))"

definition mcp_server_def_ok :: "mcp_server_def \<Rightarrow> bool" where
  "mcp_server_def_ok m \<longleftrightarrow> sorted_keys (ms_headers m) \<and> int64_ok (ms_created_at m)"

lemmas ok_defs = message_ok_def interrupt_ok_def session_ok_def tool_def_ok_def skill_def_ok_def
  mcp_server_def_ok_def

lemma jmember_simps [simp]:
  "jmember k [] = None"
  "jmember k ((k', v) # kvs) = (case jmember k kvs of Some w \<Rightarrow> Some w | None \<Rightarrow> if k = k' then Some v else None)"
  by (simp_all add: jmember_def map_add_def split: option.split)

lemma jmember_append: "jmember k (xs @ ys) = (case jmember k ys of Some w \<Rightarrow> Some w | None \<Rightarrow> jmember k xs)"
  by (simp add: jmember_def map_add_def split: option.split)

lemma jmember_omit:
  "jmember k (omit_str k' s) = (if k = k' \<and> s \<noteq> [] then Some (JStr s) else None)"
  "jmember k (omit_int k' i) = (if k = k' \<and> i \<noteq> 0 then Some (enc_int i) else None)"
  "jmember k (omit_map k' m) = (if k = k' \<and> m \<noteq> [] then Some (JObj m) else None)"
  by (auto simp: omit_str_def omit_int_def omit_map_def)

lemma dec_list_enc:
  "(\<And>x. x \<in> set xs \<Longrightarrow> f (g x) = Some x) \<Longrightarrow> dec_list f (Some (JArr (map g xs))) = Some xs"
  by (simp add: dec_elems_enc)

lemma dec_list_canon:
  "json_canon (JArr vs) \<Longrightarrow> dec_list (\<lambda>t. Some (canon t)) (Some (JArr vs)) = Some vs"
  using dec_list_enc [of vs "\<lambda>t. Some (canon t)" id] by (simp add: canon_id)

lemma dec_tool_call_enc [simp]: "dec_tool_call (enc_tool_call t) = Some t"
  by (simp add: dec_tool_call_def enc_tool_call_def dec_struct_def)

lemma dec_message_enc: "message_ok m \<Longrightarrow> dec_message (enc_message m) = Some m"
  by (simp add: dec_message_def enc_message_def dec_struct_def dec_elems_enc message_ok_def)

lemma dec_interrupt_enc: "interrupt_ok i \<Longrightarrow> dec_interrupt (enc_interrupt i) = Some i"
  by (auto simp: dec_interrupt_def enc_interrupt_def dec_struct_def interrupt_ok_def jmember_append
      jmember_omit canon_id(3))

lemma dec_session_enc:
  assumes "session_ok s"
  shows "dec_session (enc_session s) = Some s"
proof -
  have m: "dec_elems dec_message (map enc_message (sess_messages s)) = Some (sess_messages s)"
    and i: "dec_elems dec_interrupt (map enc_interrupt (sess_open_interrupts s)) = Some (sess_open_interrupts s)"
    using assms by (auto intro!: dec_elems_enc simp: session_ok_def dec_message_enc dec_interrupt_enc)
  show ?thesis
    using assms m i
    by (auto simp: dec_session_def enc_session_def dec_struct_def session_ok_def jmember_append
      jmember_omit canon_id(3))
qed

lemma dec_tool_def_enc: "tool_def_ok t \<Longrightarrow> dec_tool_def (enc_tool_def t) = Some t"
  by (simp add: dec_tool_def_def enc_tool_def_def dec_struct_def tool_def_ok_def dec_str_map_enc canon_id(1))

lemma dec_skill_def_enc: "skill_def_ok d \<Longrightarrow> dec_skill_def (enc_skill_def d) = Some d"
  using dec_list_canon [of "sd_tools d"] dec_list_canon [of "sd_resources d"]
  by (simp add: dec_skill_def_def enc_skill_def_def dec_struct_def skill_def_ok_def canon_id(3))

lemma dec_mcp_server_def_enc: "mcp_server_def_ok m \<Longrightarrow> dec_mcp_server_def (enc_mcp_server_def m) = Some m"
  by (simp add: dec_mcp_server_def_def enc_mcp_server_def_def dec_struct_def mcp_server_def_ok_def dec_str_map_enc)

lemma json_ok_omit:
  "\<forall>kv \<in> set (omit_str k s). json_ok (snd kv)"
  "\<forall>kv \<in> set (omit_int k i). json_ok (snd kv)"
  "(\<forall>kv \<in> set (omit_map k m). json_ok (snd kv)) \<longleftrightarrow> (\<forall>kv \<in> set m. json_ok (snd kv))"
  by (auto simp: omit_str_def omit_int_def omit_map_def)

lemma json_ok_enc_tool_call [simp]: "json_ok (enc_tool_call t)"
  by (simp add: enc_tool_call_def)

lemma json_ok_enc_message [simp]: "json_ok (enc_message m)"
  by (simp add: enc_message_def)

lemma json_ok_enc_interrupt: "interrupt_ok i \<Longrightarrow> json_ok (enc_interrupt i)"
  by (simp add: enc_interrupt_def interrupt_ok_def json_ok_omit ball_Un)

lemma json_ok_enc_session:
  assumes "session_ok s"
  shows "json_ok (enc_session s)"
  using assms by (simp add: enc_session_def session_ok_def json_ok_omit ball_Un json_ok_enc_interrupt)

lemma json_ok_enc_defs:
  "tool_def_ok t \<Longrightarrow> json_ok (enc_tool_def t)"
  "skill_def_ok d \<Longrightarrow> json_ok (enc_skill_def d)"
  "json_ok (enc_mcp_server_def m)"
  by (auto simp: enc_tool_def_def enc_skill_def_def enc_mcp_server_def_def tool_def_ok_def skill_def_ok_def)

end
