(* ===== verification/Metadata_Spec.thy ===== *)
theory Metadata_Spec
  imports Metadata
begin

text \<open>Properties of the values of metadata.go: their JSON form and the composite memory key.\<close>

text \<open>
  A session survives json.Marshal and json.Unmarshal, every field of it: its messages with
  their tool calls, its state, its open interrupts, its revision.
\<close>

theorem session_json_round_trip:
  assumes "session_ok s"
  shows "case json_Marshal (enc_session s) of Inl _ \<Rightarrow> False
     | Inr b \<Rightarrow> Option.bind (json_Unmarshal b) dec_session = Some s"
  using assms by (simp add: json_Marshal_ok json_ok_enc_session json_Unmarshal_render dec_session_enc)

lemma session_json_round_trip_witness:
  "let s = \<lparr>sess_id = ''s'', sess_agent_id = [], sess_user_id = [], sess_parent_session_id = ''p'', sess_messages =
         [\<lparr>msg_id = ''m'', msg_role = ''tool'', msg_content = [CHR 0x22, CHR 0x0A],
           msg_tool_calls = [\<lparr>tc_id = ''c'', tc_name = ''f'', tc_arguments = [], tc_result = [], tc_status = ''ok''\<rparr>],
           msg_created_at = -7\<rparr>],
       sess_state = [(''k'', JArr [JNull, JBool True])], sess_open_interrupts = [], sess_revision = - 1,
       sess_created_at = 0, sess_updated_at = 5\<rparr>
   in case json_Marshal (enc_session s) of Inl _ \<Rightarrow> False
     | Inr b \<Rightarrow> Option.bind (json_Unmarshal b) dec_session = Some s"
  unfolding Let_def
  by (rule session_json_round_trip) (simp add: session_ok_def message_ok_def int64_ok_def sorted_keys_def)

text \<open>
  The composite key keeps entries apart whose scope ids have no colon, and only then can be
  trusted to: two different entries of the user scope share one key.
\<close>

theorem scoped_key_separates:
  "(CHR '':'' \<notin> set a \<longrightarrow> CHR '':'' \<notin> set b \<longrightarrow>
      (ScopedKey sc a k = ScopedKey sc' b k' \<longleftrightarrow> sc = sc' \<and> a = b \<and> k = k')) \<and>
   ScopedKey ScopeUser ''a::b'' ''c'' = ScopedKey ScopeUser ''a'' ''b::c''"
  using ScopedKey_plain_iff [of a b] by (simp add: ScopedKey_def)

lemma scoped_key_separates_witness:
  "ScopedKey ScopeUser ''u'' ''a:b'' \<noteq> ScopedKey ScopeUser ''u'' ''a''"
  using scoped_key_separates [of "''u''" "''u''" ScopeUser "''a:b''" ScopeUser "''a''"] by simp

end
