(* ===== verification/Tools.thy ===== *)
theory Tools
  imports Json Complex_Main
begin

text \<open>
  tool/tool.go and tool/registry.go, with the messages of provider/provider.go that they share.
  An operation that can fail and touches the outside is an \<open>act\<close>: a function on the world \<open>'w\<close>,
  which stands for everything the process does not compute itself (clock, random source, network,
  blob store, database). A nil slice or map is the empty one.
\<close>

section \<open>Actions on the world\<close>

type_synonym ('w, 'a) act = "'w \<Rightarrow> (error + 'a) \<times> 'w"

definition act_ret :: "'a \<Rightarrow> ('w, 'a) act" where
  "act_ret x w = (Inr x, w)"

definition act_fail :: "error \<Rightarrow> ('w, 'a) act" where
  "act_fail e w = (Inl e, w)"

definition act_seq :: "('w, 'a) act \<Rightarrow> ('a \<Rightarrow> ('w, 'b) act) \<Rightarrow> ('w, 'b) act" where
  "act_seq m k w = (case m w of (Inl e, w1) \<Rightarrow> (Inl e, w1) | (Inr x, w1) \<Rightarrow> k x w1)"

definition act_wrap :: "string \<Rightarrow> ('w, 'a) act \<Rightarrow> ('w, 'a) act" where
  "act_wrap p m w =
     (case m w of (Inl e, w1) \<Rightarrow> (Inl (if is_panic e then e else wrapf p e), w1) | (Inr x, w1) \<Rightarrow> (Inr x, w1))"

text \<open>A caller that looks at the error and goes on; a panic passes it by.\<close>

definition act_handle :: "('w, 'a) act \<Rightarrow> (error \<Rightarrow> ('w, 'b) act) \<Rightarrow> ('a \<Rightarrow> ('w, 'b) act) \<Rightarrow> ('w, 'b) act" where
  "act_handle m bad good w =
     (case m w of
        (Inl e, w1) \<Rightarrow> if is_panic e then (Inl e, w1) else bad e w1
      | (Inr x, w1) \<Rightarrow> good x w1)"

definition act_lift :: "error + 'a \<Rightarrow> ('w, 'a) act" where
  "act_lift r w = (r, w)"

lemmas act_defs = act_ret_def act_fail_def act_seq_def act_wrap_def act_handle_def act_lift_def

text \<open>
  What the code calls outside of the repository: the clock in nanoseconds, the random source
  (\<open>None\<close> when it fails), \<open>ctx.Err()\<close>, the error of http.NewRequestWithContext on a URL, the answer
  to a POST with its headers in the order they are set, and exec's CombinedOutput of a command
  with its standard input.
\<close>

record http_response =
  hr_status_code :: int
  hr_status :: string
  hr_body :: "error + string"

record 'w host =
  clock :: "'w \<Rightarrow> int \<times> 'w"
  rand_bytes :: "nat \<Rightarrow> 'w \<Rightarrow> string option \<times> 'w"
  ctx_err :: "'w \<Rightarrow> error option \<times> 'w"
  bad_request :: "string \<Rightarrow> error option"
  http_post :: "string \<Rightarrow> (string \<times> string) list \<Rightarrow> string \<Rightarrow> ('w, http_response) act"
  run_command :: "string list \<Rightarrow> string \<Rightarrow> 'w \<Rightarrow> (string \<times> error option) \<times> 'w"

definition unix_milli :: "'w host \<Rightarrow> 'w \<Rightarrow> int \<times> 'w" where
  "unix_milli h w = (case clock h w of (t, w1) \<Rightarrow> (t div 1000000, w1))"

text \<open>\<open>b, _ := json.Marshal(v)\<close>: no bytes when it fails.\<close>

definition marshal_or_empty :: "json \<Rightarrow> string" where
  "marshal_or_empty v = (case json_Marshal v of Inl _ \<Rightarrow> [] | Inr b \<Rightarrow> b)"

section \<open>Provider messages\<close>

record ptool_call =
  pt_id :: string
  pt_name :: string
  pt_arguments :: string
  pt_thought :: string

record pmessage =
  pm_role :: string
  pm_content :: string
  pm_tool_calls :: "ptool_call list"

record ptool =
  ps_name :: string
  ps_description :: string
  ps_parameters :: json

record request =
  rq_model :: string
  rq_messages :: "pmessage list"
  rq_tools :: "ptool list"
  rq_system :: string
  rq_max_tokens :: int
  rq_temperature :: rat

record usage =
  us_input_tokens :: int
  us_output_tokens :: int

record response =
  rs_content :: string
  rs_tool_calls :: "ptool_call list"
  rs_usage :: usage

text \<open>The events of a provider's stream; the stream is the list of them until it closes.\<close>

datatype pevent =
    PTextDelta string
  | PToolCall ptool_call
  | PToolResult string string
  | PDone
  | PError "error option"

section \<open>Results\<close>

record tool_result =
  tr_data :: json
  tr_status :: string
  tr_error :: string
  tr_duration :: int
  tr_executed_at :: int
  tr_fix :: string

definition Ok_result :: "'w host \<Rightarrow> json \<Rightarrow> 'w \<Rightarrow> tool_result \<times> 'w" where
  "Ok_result h data w = (case unix_milli h w of (t, w1) \<Rightarrow>
     (\<lparr>tr_data = data, tr_status = ''success'', tr_error = [], tr_duration = 0, tr_executed_at = t, tr_fix = []\<rparr>, w1))"

definition Err_result :: "'w host \<Rightarrow> string \<Rightarrow> string \<Rightarrow> 'w \<Rightarrow> tool_result \<times> 'w" where
  "Err_result h msg fix_hint w = (case unix_milli h w of (t, w1) \<Rightarrow>
     (\<lparr>tr_data = JNull, tr_status = ''error'', tr_error = msg, tr_duration = 0, tr_executed_at = t, tr_fix = fix_hint\<rparr>, w1))"

text \<open>\<open>time.Since(start).Milliseconds()\<close>: the quotient is cut towards zero.\<close>

definition millis_since :: "int \<Rightarrow> int \<Rightarrow> int" where
  "millis_since start t = (if start \<le> t then (t - start) div 1000000 else - ((start - t) div 1000000))"

definition Measure :: "'w host \<Rightarrow> ('w, tool_result) act \<Rightarrow> ('w, tool_result) act" where
  "Measure h fn w =
     (case clock h w of (start, w1) \<Rightarrow>
       (case fn w1 of
          (Inl e, w2) \<Rightarrow> (Inl e, w2)
        | (Inr res, w2) \<Rightarrow>
            (case clock h w2 of (t, w3) \<Rightarrow>
               (Inr (res\<lparr>tr_duration := millis_since start t, tr_executed_at := start div 1000000\<rparr>), w3))))"

section \<open>Tools\<close>

text \<open>
  The interface Tool with the optional interface ClientSide: a tool that does not implement it
  has \<open>tool_client_side\<close> False. The input is a map, \<open>None\<close> the nil map, which JSON shows.
\<close>

type_synonym tool_input = "(string \<times> json) list option"

type_synonym 'w execute_func = "tool_input \<Rightarrow> ('w, tool_result) act"

fun input_json :: "tool_input \<Rightarrow> json" where
  "input_json None = JNull"
| "input_json (Some m) = JObj m"

record 'w tool =
  tool_name :: string
  tool_description :: string
  tool_parameters :: json
  tool_client_side :: bool
  tool_execute :: "'w execute_func"

definition NewFunctionTool :: "'w host \<Rightarrow> string \<Rightarrow> string \<Rightarrow> json \<Rightarrow> 'w execute_func \<Rightarrow> 'w tool" where
  "NewFunctionTool h name description parameters fn =
     \<lparr>tool_name = name, tool_description = description, tool_parameters = parameters,
      tool_client_side = False, tool_execute = (\<lambda>input. Measure h (fn input))\<rparr>"

section \<open>The registry\<close>

text \<open>
  The map from names to tools; the mutex makes each operation one step. All and Schema run over
  the Go map, whose order is not fixed: they come in the order of the names here.
\<close>

type_synonym 'w registry = "(string \<times> 'w tool) list"

definition NewRegistry :: "'w registry" where
  "NewRegistry = []"

definition Register :: "'w tool \<Rightarrow> 'w registry \<Rightarrow> 'w registry" where
  "Register t r = map_put (tool_name t) t r"

definition Unregister :: "string \<Rightarrow> 'w registry \<Rightarrow> 'w registry" where
  "Unregister name r = filter (\<lambda>kt. fst kt \<noteq> name) r"

definition Get_tool :: "'w registry \<Rightarrow> string \<Rightarrow> 'w tool option" where
  "Get_tool r name = map_of r name"

definition All_tools :: "'w registry \<Rightarrow> 'w tool list" where
  "All_tools r = map snd r"

definition Schema :: "'w registry \<Rightarrow> ptool list" where
  "Schema r = map (\<lambda>t. \<lparr>ps_name = tool_name t, ps_description = tool_description t, ps_parameters = tool_parameters t\<rparr>)
     (All_tools r)"

definition Len :: "'w registry \<Rightarrow> nat" where
  "Len r = length r"

text \<open>Registering a list of tools in order.\<close>

definition Register_all :: "'w tool list \<Rightarrow> 'w registry \<Rightarrow> 'w registry" where
  "Register_all ts r = fold Register ts r"

text \<open>Every tool is under its own name, and no name occurs twice.\<close>

definition registry_ok :: "'w registry \<Rightarrow> bool" where
  "registry_ok r \<longleftrightarrow> sorted_keys r \<and> (\<forall>(n, t) \<in> set r. tool_name t = n)"

lemma registry_ok_New [simp]: "registry_ok NewRegistry"
  by (simp add: registry_ok_def NewRegistry_def)

lemma registry_ok_Register: "registry_ok r \<Longrightarrow> registry_ok (Register t r)"
  by (auto simp: registry_ok_def Register_def sorted_keys_map_put dest!: map_put_mem)

lemma registry_ok_Unregister: "registry_ok r \<Longrightarrow> registry_ok (Unregister n r)"
proof -
  have "sorted_keys (filter P r)" if "sorted_keys r" for P
    using that by (induction r) auto
  then show "registry_ok r \<Longrightarrow> registry_ok (Unregister n r)"
    by (auto simp: registry_ok_def Unregister_def)
qed

lemma Get_Register [simp]: "Get_tool (Register t r) n = (if n = tool_name t then Some t else Get_tool r n)"
  by (simp add: Get_tool_def Register_def)

lemma Get_New [simp]: "Get_tool NewRegistry n = None"
  by (simp add: Get_tool_def NewRegistry_def)

lemma Get_Unregister [simp]: "Get_tool (Unregister m r) n = (if n = m then None else Get_tool r n)"
  by (induction r) (auto simp: Get_tool_def Unregister_def)

lemma registry_ok_Register_all: "registry_ok r \<Longrightarrow> registry_ok (Register_all ts r)"
  unfolding Register_all_def by (induction ts arbitrary: r) (auto intro: registry_ok_Register)

text \<open>The last registration of a name wins; a name that is not registered keeps its tool.\<close>

lemma Get_Register_all:
  "Get_tool (Register_all ts r) n =
     (case find (\<lambda>t. tool_name t = n) (rev ts) of Some t \<Rightarrow> Some t | None \<Rightarrow> Get_tool r n)"
  unfolding Register_all_def
  by (induction ts rule: rev_induct) auto

lemma Get_tool_name: "registry_ok r \<Longrightarrow> Get_tool r n = Some t \<Longrightarrow> tool_name t = n"
  by (auto simp: registry_ok_def Get_tool_def dest!: map_of_SomeD)

lemma set_All_tools: "registry_ok r \<Longrightarrow> t \<in> set (All_tools r) \<longleftrightarrow> Get_tool r (tool_name t) = Some t"
proof -
  assume r: "registry_ok r"
  have "distinct (map fst r)" using r by (auto simp: registry_ok_def intro: sorted_keys_distinct)
  then show ?thesis using r by (force simp: registry_ok_def All_tools_def Get_tool_def)
qed

end
