(* ===== verification/Skills.thy ===== *)
theory Skills
  imports Tools Metadata
begin

text \<open>
  The package skill and the interface metadata.Store it stands on: skill definitions, the
  registry over the store, and the tools that call an HTTP endpoint or run a script.
\<close>

section \<open>The store interface\<close>

text \<open>
  metadata.Store and blob.BlobStore as records of operations. UpdateSession mutates its argument:
  it returns the session the pointer then holds, and whether its message slice is a new one (the
  JSONL store overwrites the whole session, the SQLite store only the revision and the times).
  SaveTool and SaveMCPServer return the definition they filled in. A list of sessions comes with
  its error.
\<close>

record 'w meta_store =
  st_CreateSession :: "string \<Rightarrow> string \<Rightarrow> ('w, session) act"
  st_GetSession :: "string \<Rightarrow> ('w, session option) act"
  st_ListSessions :: "string \<Rightarrow> 'w \<Rightarrow> (session list \<times> error option) \<times> 'w"
  st_ListSessionsByUser :: "string \<Rightarrow> string \<Rightarrow> 'w \<Rightarrow> (session list \<times> error option) \<times> 'w"
  st_UpdateSession :: "session \<Rightarrow> ('w, session \<times> bool) act"
  st_DeleteSession :: "string \<Rightarrow> ('w, unit) act"
  st_ListTools :: "string \<Rightarrow> ('w, tool_def list) act"
  st_SaveSkill :: "skill_def \<Rightarrow> ('w, unit) act"
  st_GetSkill :: "string \<Rightarrow> ('w, skill_def option) act"
  st_ListSkills :: "('w, skill_entry list) act"
  st_DeleteSkill :: "string \<Rightarrow> ('w, unit) act"
  st_SaveMCPServer :: "mcp_server_def \<Rightarrow> ('w, mcp_server_def) act"
  st_GetMCPServer :: "string \<Rightarrow> ('w, mcp_server_def option) act"
  st_ListMCPServers :: "string \<Rightarrow> ('w, mcp_server_def list) act"
  st_DeleteMCPServer :: "string \<Rightarrow> ('w, unit) act"

record 'w blob_store =
  bs_Read :: "string \<Rightarrow> ('w, string) act"
  bs_Write :: "string \<Rightarrow> string \<Rightarrow> ('w, unit) act"
  bs_Delete :: "string \<Rightarrow> ('w, unit) act"
  bs_List :: "string \<Rightarrow> ('w, string list) act"

section \<open>Definitions\<close>

record skill_tool_def =
  kt_name :: string
  kt_description :: string
  kt_parameters :: json
  kt_handler :: string
  kt_endpoint :: string
  kt_headers :: "(string \<times> string) list"
  kt_input_mapping :: "(string \<times> string) list"
  kt_response_field :: string
  kt_script_path :: string

record resource =
  rc_name :: string
  rc_path :: string
  rc_type :: string

record definition_l2 =
  df_name :: string
  df_description :: string
  df_version :: string
  df_instructions :: string
  df_tools :: "skill_tool_def list"
  df_config :: "(string \<times> json) list"
  df_resources :: "resource list"

definition omit_str_map :: "string \<Rightarrow> (string \<times> string) list \<Rightarrow> (string \<times> json) list" where
  "omit_str_map k m = (if m = [] then [] else [(k, enc_str_map m)])"

definition enc_skill_tool :: "skill_tool_def \<Rightarrow> json" where
  "enc_skill_tool t = JObj
     ([(''name'', JStr (kt_name t)), (''description'', JStr (kt_description t)),
       (''parameters'', kt_parameters t), (''handler'', JStr (kt_handler t))]
      @ omit_str ''endpoint'' (kt_endpoint t)
      @ omit_str_map ''headers'' (kt_headers t)
      @ omit_str_map ''input_mapping'' (kt_input_mapping t)
      @ omit_str ''response_field'' (kt_response_field t)
      @ omit_str ''script_path'' (kt_script_path t))"

definition dec_skill_tool :: "json \<Rightarrow> skill_tool_def option" where
  "dec_skill_tool = dec_struct (\<lambda>kvs. do {
     n \<leftarrow> dec_string (jmember ''name'' kvs);
     d \<leftarrow> dec_string (jmember ''description'' kvs);
     p \<leftarrow> dec_any (jmember ''parameters'' kvs);
     h \<leftarrow> dec_string (jmember ''handler'' kvs);
     e \<leftarrow> dec_string (jmember ''endpoint'' kvs);
     hs \<leftarrow> dec_str_map (jmember ''headers'' kvs);
     im \<leftarrow> dec_str_map (jmember ''input_mapping'' kvs);
     rf \<leftarrow> dec_string (jmember ''response_field'' kvs);
     sp \<leftarrow> dec_string (jmember ''script_path'' kvs);
     Some \<lparr>kt_name = n, kt_description = d, kt_parameters = p, kt_handler = h, kt_endpoint = e,
           kt_headers = hs, kt_input_mapping = im, kt_response_field = rf, kt_script_path = sp\<rparr> })"

definition enc_resource :: "resource \<Rightarrow> json" where
  "enc_resource r = JObj [(''name'', JStr (rc_name r)), (''path'', JStr (rc_path r)), (''type'', JStr (rc_type r))]"

definition dec_resource :: "json \<Rightarrow> resource option" where
  "dec_resource = dec_struct (\<lambda>kvs. do {
     n \<leftarrow> dec_string (jmember ''name'' kvs);
     p \<leftarrow> dec_string (jmember ''path'' kvs);
     t \<leftarrow> dec_string (jmember ''type'' kvs);
     Some \<lparr>rc_name = n, rc_path = p, rc_type = t\<rparr> })"

text \<open>Marshal and Unmarshal again; \<open>None\<close> where either fails.\<close>

definition through_json :: "(json \<Rightarrow> 'a option) \<Rightarrow> json \<Rightarrow> 'a option" where
  "through_json dec v =
     (case json_Marshal v of Inl _ \<Rightarrow> None
      | Inr b \<Rightarrow> (case json_Unmarshal b of None \<Rightarrow> None | Some j \<Rightarrow> dec j))"

section \<open>The registry\<close>

definition Skills_List :: "'w meta_store \<Rightarrow> ('w, skill_entry list) act" where
  "Skills_List st = st_ListSkills st"

definition Skills_Register :: "'w meta_store \<Rightarrow> definition_l2 \<Rightarrow> ('w, unit) act" where
  "Skills_Register st d = st_SaveSkill st
     \<lparr>sd_name = df_name d, sd_description = df_description d, sd_version = df_version d,
      sd_instructions = df_instructions d, sd_tools = map enc_skill_tool (df_tools d),
      sd_config = df_config d, sd_resources = map enc_resource (df_resources d), sd_enabled = True\<rparr>"

definition Skills_Unregister :: "'w meta_store \<Rightarrow> string \<Rightarrow> ('w, unit) act" where
  "Skills_Unregister st name = st_DeleteSkill st name"

text \<open>Enable and Disable.\<close>

definition Skills_toggle :: "'w meta_store \<Rightarrow> bool \<Rightarrow> string \<Rightarrow> ('w, unit) act" where
  "Skills_toggle st on name =
     act_seq (st_GetSkill st name) (\<lambda>d.
     case d of
       None \<Rightarrow> act_fail (ErrMsg (''skill: '' @ quote name @ '' not found''))
     | Some x \<Rightarrow> st_SaveSkill st (x\<lparr>sd_enabled := on\<rparr>))"

definition Skills_Enable :: "'w meta_store \<Rightarrow> string \<Rightarrow> ('w, unit) act" where
  "Skills_Enable st name = Skills_toggle st True name"

definition Skills_Disable :: "'w meta_store \<Rightarrow> string \<Rightarrow> ('w, unit) act" where
  "Skills_Disable st name = Skills_toggle st False name"

text \<open>Get reads the fields of a definition the store did not find: a nil pointer.\<close>

definition Skills_Get :: "'w meta_store \<Rightarrow> string \<Rightarrow> ('w, definition_l2) act" where
  "Skills_Get st name =
     act_seq (st_GetSkill st name) (\<lambda>d.
     case d of
       None \<Rightarrow> act_fail nil_deref
     | Some sd \<Rightarrow> act_ret
         \<lparr>df_name = sd_name sd, df_description = sd_description sd, df_version = sd_version sd,
          df_instructions = sd_instructions sd, df_tools = List.map_filter (through_json dec_skill_tool) (sd_tools sd),
          df_config = sd_config sd, df_resources = List.map_filter (through_json dec_resource) (sd_resources sd)\<rparr>)"

section \<open>HTTP tools\<close>

fun map_input :: "(string \<times> string) list \<Rightarrow> (string \<times> json) list \<Rightarrow> (string \<times> json) list \<Rightarrow> (string \<times> json) list" where
  "map_input [] input mapped = mapped"
| "map_input ((src, dst) # im) input mapped =
     (case map_of input src of
        Some v \<Rightarrow> map_input im input (map_put dst v mapped)
      | None \<Rightarrow> map_input im input mapped)"

definition http_body :: "(string \<times> string) list \<Rightarrow> tool_input \<Rightarrow> json" where
  "http_body im input =
     (if im = [] then input_json input
      else JObj (map_input im (case input of None \<Rightarrow> [] | Some m \<Rightarrow> m) []))"

text \<open>The result of an answer with a status below 400.\<close>

definition extract_field :: "string \<Rightarrow> string \<Rightarrow> json" where
  "extract_field field body =
     (case json_Unmarshal body of
        None \<Rightarrow> JStr body
      | Some v \<Rightarrow>
          (let result = canon v in
           if field = [] then result
           else case result of
             JObj m \<Rightarrow> (case map_of m field of Some x \<Rightarrow> x | None \<Rightarrow> result)
           | _ \<Rightarrow> result))"

definition ok_act :: "'w host \<Rightarrow> json \<Rightarrow> ('w, tool_result) act" where
  "ok_act h v w = (case Ok_result h v w of (r, w1) \<Rightarrow> (Inr r, w1))"

definition err_act :: "'w host \<Rightarrow> string \<Rightarrow> string \<Rightarrow> ('w, tool_result) act" where
  "err_act h msg fix_hint w = (case Err_result h msg fix_hint w of (r, w1) \<Rightarrow> (Inr r, w1))"

definition answer_result :: "'w host \<Rightarrow> string \<Rightarrow> string \<Rightarrow> http_response \<Rightarrow> ('w, tool_result) act" where
  "answer_result h endpoint field resp =
     (case hr_body resp of
        Inl e \<Rightarrow> err_act h (''read response: '' @ error_text e) ''The endpoint returned an unreadable response''
      | Inr body \<Rightarrow>
          if hr_status_code resp \<ge> 400 then
            err_act h (hr_status resp @ '': '' @ body)
              (''Verify the endpoint '' @ quote endpoint @ '' is working and accepts the expected input'')
          else ok_act h (extract_field field body))"

definition HTTPTool_run :: "'w host \<Rightarrow> skill_tool_def \<Rightarrow> tool_input \<Rightarrow> ('w, tool_result) act" where
  "HTTPTool_run h d input =
     (case json_Marshal (http_body (kt_input_mapping d) input) of
        Inl e \<Rightarrow> act_fail (wrapf (''http tool '' @ quote (kt_name d) @ '': marshal body'') e)
      | Inr b \<Rightarrow>
          (case bad_request h (kt_endpoint d) of
             Some e \<Rightarrow> err_act h (''create request: '' @ error_text e) ''Check that the endpoint URL is valid''
           | None \<Rightarrow>
               act_handle (http_post h (kt_endpoint d) ((''Content-Type'', ''application/json'') # kt_headers d) b)
                 (\<lambda>e. err_act h (''request failed: '' @ error_text e) ''Check network connectivity and endpoint availability'')
                 (answer_result h (kt_endpoint d) (kt_response_field d))))"

definition NewHTTPTool :: "'w host \<Rightarrow> skill_tool_def \<Rightarrow> 'w tool" where
  "NewHTTPTool h d =
     \<lparr>tool_name = kt_name d, tool_description = kt_description d, tool_parameters = kt_parameters d,
      tool_client_side = False, tool_execute = (\<lambda>input. Measure h (HTTPTool_run h d input))\<rparr>"

section \<open>Script tools\<close>

text \<open>The resource manager over a blob store; reading through a nil store panics.\<close>

type_synonym 'w resource_manager = "'w blob_store option"

definition Load :: "'w resource_manager \<Rightarrow> string \<Rightarrow> ('w, string) act" where
  "Load rm path = (case rm of None \<Rightarrow> act_fail nil_deref | Some fs \<Rightarrow> bs_Read fs path)"

definition Store_resource :: "'w resource_manager \<Rightarrow> string \<Rightarrow> string \<Rightarrow> ('w, unit) act" where
  "Store_resource rm path data = (case rm of None \<Rightarrow> act_fail nil_deref | Some fs \<Rightarrow> bs_Write fs path data)"

text \<open>\<open>filepath.Ext\<close>: from the last dot of the last path element on.\<close>

definition file_ext :: "string \<Rightarrow> string" where
  "file_ext p =
     (let r = takeWhile (\<lambda>c. c \<noteq> CHR ''/'') (rev p) in
      if CHR ''.'' \<in> set r then CHR ''.'' # rev (takeWhile (\<lambda>c. c \<noteq> CHR ''.'') r) else [])"

text \<open>The command line and the standard input for a script.\<close>

definition script_command :: "string \<Rightarrow> string \<Rightarrow> tool_input \<Rightarrow> string list \<times> string" where
  "script_command path data input =
     (let ext = file_ext path in
      if ext = ''.js'' \<or> ext = ''.mjs'' then ([''node'', ''--input-type=module'', ''-''], data)
      else if ext = ''.py'' then ([''python3'', ''-c'', data], marshal_or_empty (input_json input))
      else ([''bash'', ''-c'', data], marshal_or_empty (input_json input)))"

definition ScriptTool_run :: "'w host \<Rightarrow> skill_tool_def \<Rightarrow> 'w resource_manager option \<Rightarrow> tool_input \<Rightarrow> ('w, tool_result) act" where
  "ScriptTool_run h d rm input =
     (case rm of
        None \<Rightarrow> err_act h ''no resource manager configured'' ''Provide a ResourceManager when creating the ScriptTool''
      | Some m \<Rightarrow>
          act_handle (Load m (kt_script_path d))
            (\<lambda>e. err_act h (''load script: '' @ error_text e)
                   (''Ensure the script exists at path '' @ quote (kt_script_path d) @ '' in the blob store''))
            (\<lambda>data w.
               case script_command (kt_script_path d) data input of (argv, stdin) \<Rightarrow>
                 (case run_command h argv stdin w of
                    ((output, Some e), w1) \<Rightarrow>
                      err_act h (''script error: '' @ error_text e @ [CHR 0x0A] @ output)
                        (''Check the script at '' @ quote (kt_script_path d) @ '' for errors'') w1
                  | ((output, None), w1) \<Rightarrow> ok_act h (JStr output) w1)))"

definition NewScriptTool :: "'w host \<Rightarrow> skill_tool_def \<Rightarrow> 'w resource_manager option \<Rightarrow> 'w tool" where
  "NewScriptTool h d rm =
     \<lparr>tool_name = kt_name d, tool_description = kt_description d, tool_parameters = kt_parameters d,
      tool_client_side = False, tool_execute = (\<lambda>input. Measure h (ScriptTool_run h d rm input))\<rparr>"

definition ToolFromDef :: "'w host \<Rightarrow> skill_tool_def \<Rightarrow> 'w resource_manager option \<Rightarrow> error + 'w tool" where
  "ToolFromDef h d rm =
     (if kt_handler d = ''http'' \<or> kt_handler d = [] then
        (if kt_endpoint d = [] then Inl (ErrMsg (''tool '' @ quote (kt_name d) @ '': http handler requires an endpoint''))
         else Inr (NewHTTPTool h d))
      else if kt_handler d = ''script'' then
        (if kt_script_path d = [] then Inl (ErrMsg (''tool '' @ quote (kt_name d) @ '': script handler requires a script_path''))
         else Inr (NewScriptTool h d rm))
      else Inl (ErrMsg (''tool '' @ quote (kt_name d) @ '': unknown handler '' @ quote (kt_handler d))))"

section \<open>Lemmas\<close>

definition skill_tool_ok :: "skill_tool_def \<Rightarrow> bool" where
  "skill_tool_ok t \<longleftrightarrow> json_canon (kt_parameters t) \<and> json_ok (kt_parameters t) \<and>
     sorted_keys (kt_headers t) \<and> sorted_keys (kt_input_mapping t)"

text \<open>An omitted member decodes to the zero value it was left out for.\<close>

lemma omitted_other:
  "k \<noteq> k' \<Longrightarrow> jmember k (omit_str k' s) = None" "k \<noteq> k' \<Longrightarrow> jmember k (omit_str_map k' m) = None"
  by (simp_all add: omit_str_def omit_str_map_def)

lemma omitted_same:
  "dec_string (jmember k (omit_str k s)) = Some s"
  "sorted_keys m \<Longrightarrow> dec_str_map (jmember k (omit_str_map k m)) = Some m"
  by (simp_all add: omit_str_def omit_str_map_def dec_str_map_enc)

lemma option_case_id: "(case x of None \<Rightarrow> None | Some y \<Rightarrow> Some y) = x"
  by (cases x) simp_all

lemma dec_skill_tool_enc: "skill_tool_ok t \<Longrightarrow> dec_skill_tool (enc_skill_tool t) = Some t"
  by (simp add: dec_skill_tool_def enc_skill_tool_def dec_struct_def skill_tool_ok_def canon_id(1)
      jmember_append omitted_other omitted_same option_case_id cong: option.case_cong)

lemma json_ok_enc_skill_tool: "skill_tool_ok t \<Longrightarrow> json_ok (enc_skill_tool t)"
  by (auto simp: enc_skill_tool_def skill_tool_ok_def omit_str_def omit_str_map_def)

lemma dec_resource_enc [simp]: "dec_resource (enc_resource r) = Some r"
  by (simp add: dec_resource_def enc_resource_def dec_struct_def)

lemma through_json_enc: "json_ok (enc x) \<Longrightarrow> dec (enc x) = Some x \<Longrightarrow> through_json dec (enc x) = Some x"
  by (simp add: through_json_def json_Marshal_ok json_Unmarshal_render)

lemma ToolFromDef_name: "ToolFromDef h d rm = Inr t \<Longrightarrow> tool_name t = kt_name d \<and> \<not> tool_client_side t"
  by (auto simp: ToolFromDef_def NewHTTPTool_def NewScriptTool_def split: if_splits)

end
