(* ===== verification/Mcp.thy ===== *)
theory Mcp
  imports Skills
begin

text \<open>
  The package mcp: JSON-RPC over HTTP POST, the client's requests, the adapter of a server's tool
  to the interface Tool, and the registry of servers over the metadata store. A transport is a
  record of operations wherever one is made; the one over server-sent events is in \<^theory_text>\<open>Mcp_Sse\<close>.
\<close>

section \<open>JSON-RPC over HTTP\<close>

text \<open>
  A transport's Send gives the result member of the answer, \<open>None\<close> where it is null or missing;
  the caller's decoding of it, the last step of Send, is \<open>decode_result\<close>.
\<close>

record 'w transport =
  tp_Send :: "string \<Rightarrow> json option \<Rightarrow> ('w, json option) act"
  tp_Notify :: "string \<Rightarrow> json option \<Rightarrow> ('w, unit) act"
  tp_Close :: "('w, unit) act"

record http_transport =
  ht_url :: string
  ht_headers :: "(string \<times> string) list"
  ht_next_id :: int

definition NewHTTPTransport :: "string \<Rightarrow> (string \<times> string) list \<Rightarrow> http_transport" where
  "NewHTTPTransport url headers = \<lparr>ht_url = url, ht_headers = headers, ht_next_id = 0\<rparr>"

definition nextRequestID :: "http_transport \<Rightarrow> int \<times> http_transport" where
  "nextRequestID t = (ht_next_id t + 1, t\<lparr>ht_next_id := ht_next_id t + 1\<rparr>)"

definition rpc_request :: "int \<Rightarrow> string \<Rightarrow> json option \<Rightarrow> json" where
  "rpc_request i method params = JObj
     ([(''jsonrpc'', JStr ''2.0''), (''id'', enc_int i), (''method'', JStr method)]
      @ (case params of None \<Rightarrow> [] | Some p \<Rightarrow> [(''params'', p)]))"

record rpc_response =
  rp_result :: "json option"
  rp_error :: "(int \<times> string) option"

definition dec_rpc_error :: "json \<Rightarrow> (int \<times> string) option" where
  "dec_rpc_error = dec_struct (\<lambda>kvs. do {
     c \<leftarrow> dec_int64 (jmember ''code'' kvs);
     m \<leftarrow> dec_string (jmember ''message'' kvs);
     Some (c, m) })"

definition dec_rpc_response :: "json \<Rightarrow> rpc_response option" where
  "dec_rpc_response = dec_struct (\<lambda>kvs. do {
     v \<leftarrow> dec_string (jmember ''jsonrpc'' kvs);
     i \<leftarrow> dec_int64 (jmember ''id'' kvs);
     r \<leftarrow> dec_any (jmember ''result'' kvs);
     e \<leftarrow> (case jmember ''error'' kvs of
            None \<Rightarrow> Some None
          | Some JNull \<Rightarrow> Some None
          | Some j \<Rightarrow> map_option Some (dec_rpc_error j));
     Some \<lparr>rp_result = (if r = JNull then None else Some r), rp_error = e\<rparr> })"

text \<open>What Send makes of the body of an answer.\<close>

definition rpc_answer :: "http_response \<Rightarrow> error + json option" where
  "rpc_answer resp =
     (case hr_body resp of
        Inl e \<Rightarrow> Inl (wrapf ''mcp: read response'' e)
      | Inr body \<Rightarrow>
          if hr_status_code resp \<noteq> 200 then
            Inl (ErrMsg (''mcp: server returned '' @ int_text (hr_status_code resp) @ '': '' @ body))
          else case json_Unmarshal body of
            None \<Rightarrow> Inl (wrapf ''mcp: unmarshal response'' (ErrMsg ''invalid JSON''))
          | Some v \<Rightarrow>
              (case dec_rpc_response v of
                 None \<Rightarrow> Inl (wrapf ''mcp: unmarshal response'' (ErrMsg ''invalid JSON''))
               | Some r \<Rightarrow>
                   (case rp_error r of
                      Some (c, m) \<Rightarrow> Inl (ErrMsg (''mcp: rpc error '' @ int_text c @ '': '' @ m))
                    | None \<Rightarrow> Inr (rp_result r))))"

definition http_Send :: "'w host \<Rightarrow> http_transport \<Rightarrow> string \<Rightarrow> json option \<Rightarrow> 'w \<Rightarrow> ((error + json option) \<times> http_transport) \<times> 'w" where
  "http_Send h t method params w =
     (case nextRequestID t of (i, t1) \<Rightarrow>
       (case json_Marshal (rpc_request i method params) of
          Inl e \<Rightarrow> ((Inl (wrapf ''mcp: marshal request'' e), t1), w)
        | Inr data \<Rightarrow>
            (case bad_request h (ht_url t) of
               Some e \<Rightarrow> ((Inl (wrapf ''mcp: create request'' e), t1), w)
             | None \<Rightarrow>
                 (case http_post h (ht_url t) ((''Content-Type'', ''application/json'') # ht_headers t) data w of
                    (Inl e, w1) \<Rightarrow> ((Inl (wrapf ''mcp: request failed'' e), t1), w1)
                  | (Inr resp, w1) \<Rightarrow> ((rpc_answer resp, t1), w1)))))"

text \<open>A notification has the id 0, which is written, and its answer is thrown away.\<close>

definition http_Notify :: "'w host \<Rightarrow> http_transport \<Rightarrow> string \<Rightarrow> json option \<Rightarrow> ('w, unit) act" where
  "http_Notify h t method params =
     act_seq (act_lift (json_Marshal (rpc_request 0 method params))) (\<lambda>data.
     case bad_request h (ht_url t) of
       Some e \<Rightarrow> act_fail e
     | None \<Rightarrow> act_seq (http_post h (ht_url t) ((''Content-Type'', ''application/json'') # ht_headers t) data) (\<lambda>_.
         act_ret ()))"

section \<open>The client\<close>

record mcp_tool_def =
  md_server :: string
  md_tool :: string
  md_description :: string
  md_parameters :: json

text \<open>A result member that is missing leaves the zero value, here the decoding of the empty object.\<close>

definition decode_result :: "(json \<Rightarrow> 'a option) \<Rightarrow> json option \<Rightarrow> error + 'a" where
  "decode_result dec r =
     (case dec (case r of None \<Rightarrow> JObj [] | Some v \<Rightarrow> v) of
        None \<Rightarrow> Inl (wrapf ''mcp: unmarshal result'' (ErrMsg ''invalid JSON''))
      | Some x \<Rightarrow> Inr x)"

definition Send :: "'w transport \<Rightarrow> string \<Rightarrow> json option \<Rightarrow> (json \<Rightarrow> 'a option) \<Rightarrow> ('w, 'a) act" where
  "Send t method params dec = act_seq (tp_Send t method params) (\<lambda>r. act_lift (decode_result dec r))"

definition init_params :: json where
  "init_params = JObj
     [(''capabilities'', JObj []),
      (''clientInfo'', JObj [(''name'', JStr ''rakit''), (''version'', JStr ''0.1.0'')]),
      (''protocolVersion'', JStr ''2025-03-26'')]"

definition Initialize :: "'w transport \<Rightarrow> ('w, (string \<times> json) list) act" where
  "Initialize t =
     act_seq (Send t ''initialize'' (Some init_params) (\<lambda>v. dec_map (Some v))) (\<lambda>result.
     act_handle (tp_Notify t ''notifications/initialized'' None) (\<lambda>_. act_ret result) (\<lambda>_. act_ret result))"

definition dec_listed_tool :: "json \<Rightarrow> mcp_tool_def option" where
  "dec_listed_tool = dec_struct (\<lambda>kvs. do {
     n \<leftarrow> dec_string (jmember ''name'' kvs);
     d \<leftarrow> dec_string (jmember ''description'' kvs);
     p \<leftarrow> dec_any (jmember ''inputSchema'' kvs);
     Some \<lparr>md_server = [], md_tool = n, md_description = d, md_parameters = p\<rparr> })"

definition Client_ListTools :: "'w transport \<Rightarrow> ('w, mcp_tool_def list) act" where
  "Client_ListTools t =
     act_wrap ''mcp: list tools''
       (Send t ''tools/list'' (Some (JObj [])) (dec_struct (\<lambda>kvs. dec_list dec_listed_tool (jmember ''tools'' kvs))))"

definition dec_content :: "json \<Rightarrow> (string \<times> string) option" where
  "dec_content = dec_struct (\<lambda>kvs. do {
     t \<leftarrow> dec_string (jmember ''type'' kvs);
     x \<leftarrow> dec_string (jmember ''text'' kvs);
     Some (t, x) })"

text \<open>A missing or null content is a nil slice.\<close>

definition dec_call_result :: "json \<Rightarrow> ((string \<times> string) list option \<times> bool) option" where
  "dec_call_result = dec_struct (\<lambda>kvs. do {
     c \<leftarrow> (case jmember ''content'' kvs of
            None \<Rightarrow> Some None
          | Some JNull \<Rightarrow> Some None
          | Some j \<Rightarrow> map_option Some (dec_list dec_content (Some j)));
     e \<leftarrow> dec_bool (jmember ''isError'' kvs);
     Some (c, e) })"

text \<open>One text block is its text; otherwise the blocks, null when the slice is nil.\<close>

definition content_json :: "string \<times> string \<Rightarrow> json" where
  "content_json c = JObj [(''type'', JStr (fst c)), (''text'', JStr (snd c))]"

definition content_value :: "(string \<times> string) list option \<Rightarrow> json" where
  "content_value content =
     (case content of
        None \<Rightarrow> JNull
      | Some [(t, x)] \<Rightarrow> if t = ''text'' then JStr x else JArr [content_json (t, x)]
      | Some cs \<Rightarrow> JArr (map content_json cs))"

definition CallTool :: "'w transport \<Rightarrow> string \<Rightarrow> tool_input \<Rightarrow> ('w, json) act" where
  "CallTool t name args =
     act_seq (act_wrap (''mcp: call tool '' @ quote name)
       (Send t ''tools/call'' (Some (JObj [(''arguments'', input_json args), (''name'', JStr name)])) dec_call_result))
       (\<lambda>(content, failed).
          if failed then act_fail (ErrMsg (''mcp: tool '' @ quote name @ '' returned error: '' @
            concat (map snd (case content of None \<Rightarrow> [] | Some cs \<Rightarrow> cs))))
          else act_ret (content_value content))"

definition Discover :: "'w transport \<Rightarrow> string \<Rightarrow> ('w, mcp_tool_def list) act" where
  "Discover t server =
     act_seq (act_wrap (''mcp: initialize '' @ quote server) (Initialize t)) (\<lambda>_.
     act_seq (act_wrap (''mcp: discover '' @ quote server) (Client_ListTools t)) (\<lambda>ts.
     act_ret (map (\<lambda>m. m\<lparr>md_server := server\<rparr>) ts)))"

section \<open>Tools of a server\<close>

definition mcp_tool_name :: "string \<Rightarrow> string \<Rightarrow> string" where
  "mcp_tool_name server name = ''mcp/'' @ server @ ''/'' @ name"

definition MCPTool_run :: "'w host \<Rightarrow> 'w transport \<Rightarrow> string \<Rightarrow> tool_input \<Rightarrow> ('w, tool_result) act" where
  "MCPTool_run h t name input =
     act_handle (CallTool t name input)
       (\<lambda>e. err_act h (''MCP tool call failed: '' @ error_text e) ''Check that the MCP server is running and the tool exists'')
       (\<lambda>v. ok_act h v)"

definition NewMCPTool :: "'w host \<Rightarrow> 'w transport \<Rightarrow> mcp_tool_def \<Rightarrow> 'w tool" where
  "NewMCPTool h t m =
     \<lparr>tool_name = mcp_tool_name (md_server m) (md_tool m), tool_description = md_description m,
      tool_parameters = md_parameters m, tool_client_side = False,
      tool_execute = (\<lambda>input. Measure h (MCPTool_run h t (md_tool m) input))\<rparr>"

section \<open>The registry of servers\<close>

definition hex_id :: "'w host \<Rightarrow> 'w \<Rightarrow> string \<times> 'w" where
  "hex_id h w =
     (case rand_bytes h 16 w of
        (Some b, w1) \<Rightarrow> (hex_of b, w1)
      | (None, w1) \<Rightarrow> (replicate 32 (CHR ''0''), w1))"

definition MCP_Register :: "'w host \<Rightarrow> 'w meta_store \<Rightarrow> mcp_server_def \<Rightarrow> ('w, mcp_server_def) act" where
  "MCP_Register h st d w =
     (case (if ms_id d = [] then hex_id h w else (ms_id d, w)) of (i, w1) \<Rightarrow>
       (case (if ms_created_at d = 0 then unix_milli h w1 else (ms_created_at d, w1)) of (c, w2) \<Rightarrow>
          st_SaveMCPServer st (d\<lparr>ms_id := i, ms_created_at := c\<rparr>) w2))"

definition MCP_Unregister :: "'w meta_store \<Rightarrow> string \<Rightarrow> ('w, unit) act" where
  "MCP_Unregister st name = st_DeleteMCPServer st name"

text \<open>Enable and Disable write through the pointer GetMCPServer gave, nil for an unknown name.\<close>

definition MCP_toggle :: "'w meta_store \<Rightarrow> bool \<Rightarrow> string \<Rightarrow> ('w, mcp_server_def) act" where
  "MCP_toggle st on name =
     act_seq (st_GetMCPServer st name) (\<lambda>s.
     case s of None \<Rightarrow> act_fail nil_deref | Some d \<Rightarrow> st_SaveMCPServer st (d\<lparr>ms_enabled := on\<rparr>))"

definition MCP_Enable :: "'w meta_store \<Rightarrow> string \<Rightarrow> ('w, mcp_server_def) act" where
  "MCP_Enable st name = MCP_toggle st True name"

definition MCP_Disable :: "'w meta_store \<Rightarrow> string \<Rightarrow> ('w, mcp_server_def) act" where
  "MCP_Disable st name = MCP_toggle st False name"

definition MCP_List :: "'w meta_store \<Rightarrow> string \<Rightarrow> ('w, mcp_server_def list) act" where
  "MCP_List st agentID = st_ListMCPServers st agentID"

definition MCP_Get :: "'w meta_store \<Rightarrow> string \<Rightarrow> ('w, mcp_server_def option) act" where
  "MCP_Get st name = st_GetMCPServer st name"

text \<open>\<open>mk\<close> is NewClientForTransport: the transport for a URL, its headers and its kind.\<close>

type_synonym 'w new_transport = "string \<Rightarrow> (string \<times> string) list \<Rightarrow> string \<Rightarrow> 'w transport"

fun discover_servers :: "'w host \<Rightarrow> 'w new_transport \<Rightarrow> mcp_server_def list \<Rightarrow> ('w, 'w tool list) act" where
  "discover_servers h mk [] = act_ret []"
| "discover_servers h mk (s # ss) =
     (if \<not> ms_enabled s then discover_servers h mk ss
      else
        (let t = mk (ms_url s) (ms_headers s) (ms_transport s) in
         act_handle (Discover t (ms_name s))
           (\<lambda>_. discover_servers h mk ss)
           (\<lambda>ds. act_seq (discover_servers h mk ss) (\<lambda>rest. act_ret (map (NewMCPTool h t) ds @ rest)))))"

definition DiscoverTools :: "'w host \<Rightarrow> 'w new_transport \<Rightarrow> 'w meta_store \<Rightarrow> string \<Rightarrow> ('w, 'w tool list) act" where
  "DiscoverTools h mk st agentID = act_seq (st_ListMCPServers st agentID) (discover_servers h mk)"

definition DiscoverServer :: "'w new_transport \<Rightarrow> mcp_server_def \<Rightarrow> ('w, mcp_tool_def list) act" where
  "DiscoverServer mk d = Discover (mk (ms_url d) (ms_headers d) (ms_transport d)) (ms_name d)"

end
