(* ===== verification/Agent_Core.thy ===== *)
theory Agent_Core
  imports Mcp
begin

text \<open>
  agent/event.go, agent.go, hook.go and persistence.go: the events of a run, the agent and what a
  run's goroutine does. A run is a function on the world and the list of its actions so far: the
  events it sent on its channel, and, in the same order, the calls whose effects reach beyond the
  process: requests to the provider, tools started, sessions the store committed. The channel is drained
  by its reader; a send never blocks for ever.
\<close>

section \<open>Events\<close>

datatype run_outcome = OutcomeUnset | OutcomeSuccess | OutcomeInterrupt | OutcomeError

text \<open>An interrupt in memory; the expiry in nanoseconds, \<open>None\<close> the zero time.\<close>

record ainterrupt =
  ai_id :: string
  ai_reason :: string
  ai_message :: string
  ai_tool_call_id :: string
  ai_response_schema :: "(string \<times> json) list"
  ai_expires_at :: "int option"
  ai_metadata :: "(string \<times> json) list"

datatype event =
    RunStarted string string string
  | RunFinished string string run_outcome "ainterrupt list" "json option"
  | RunErrorEv string string
  | TextStart string string
  | TextDelta string string
  | TextEnd string
  | ToolCallStart string string
  | ToolCallArgs string string
  | ToolCallEnd string string
  | ToolResultEv string string
  | StateSnapshot "(string \<times> json) list"
  | StateDelta "json list"
  | ReasoningStart string
  | ReasoningMessageStart string string
  | ReasoningMessageContent string string
  | ReasoningMessageEnd string
  | ReasoningEnd string
  | ErrorEv "error option"
  | DoneEv

fun event_type :: "event \<Rightarrow> string" where
  "event_type (RunStarted _ _ _) = ''run-started''"
| "event_type (RunFinished _ _ _ _ _) = ''run-finished''"
| "event_type (RunErrorEv _ _) = ''run-error''"
| "event_type (TextStart _ _) = ''text-start''"
| "event_type (TextDelta _ _) = ''text-delta''"
| "event_type (TextEnd _) = ''text-end''"
| "event_type (ToolCallStart _ _) = ''tool-call-start''"
| "event_type (ToolCallArgs _ _) = ''tool-call-args''"
| "event_type (ToolCallEnd _ _) = ''tool-call-end''"
| "event_type (ToolResultEv _ _) = ''tool-result''"
| "event_type (StateSnapshot _) = ''state-snapshot''"
| "event_type (StateDelta _) = ''state-delta''"
| "event_type (ReasoningStart _) = ''reasoning-start''"
| "event_type (ReasoningMessageStart _ _) = ''reasoning-message-start''"
| "event_type (ReasoningMessageContent _ _) = ''reasoning-message-delta''"
| "event_type (ReasoningMessageEnd _) = ''reasoning-message-end''"
| "event_type (ReasoningEnd _) = ''reasoning-end''"
| "event_type (ErrorEv _) = ''error''"
| "event_type DoneEv = ''done''"

section \<open>The agent\<close>

record 'w provider =
  pv_Model :: string
  pv_Stream :: "request \<Rightarrow> ('w, pevent list) act"
  pv_Generate :: "request \<Rightarrow> ('w, response) act"

type_synonym 'w hook = "event \<Rightarrow> 'w \<Rightarrow> error option \<times> 'w"

record compaction_config =
  cc_max_messages :: int
  cc_keep_recent :: int
  cc_summary_role :: string

text \<open>Of the encoder the loop uses only whether there is one.\<close>

record 'w agent =
  ag_ID :: string
  ag_Provider :: "'w provider option"
  ag_Protocol :: "string option"
  ag_Tools :: "'w registry"
  ag_Skills :: "'w meta_store option"
  ag_MCP :: "'w meta_store option"
  ag_Store :: "'w meta_store option"
  ag_FS :: "'w blob_store option"
  ag_hooks :: "'w hook list"
  ag_compaction :: compaction_config
  ag_maxIterations :: int
  ag_approvalPolicy :: "(string \<Rightarrow> string \<Rightarrow> bool) option"
  ag_parentSessionID :: string

definition DefaultCompactionConfig :: compaction_config where
  "DefaultCompactionConfig = \<lparr>cc_max_messages = 20, cc_keep_recent = 6, cc_summary_role = ''system''\<rparr>"

text \<open>16 random bytes in hex; a failing source leaves the zero bytes it was given.\<close>

definition generateID :: "'w host \<Rightarrow> 'w \<Rightarrow> string \<times> 'w" where
  "generateID h w =
     (case rand_bytes h 16 w of
        (Some b, w1) \<Rightarrow> (hex_of b, w1)
      | (None, w1) \<Rightarrow> (hex_of (replicate 16 (CHR 0x00)), w1))"

definition persistSession :: "'w agent \<Rightarrow> session \<Rightarrow> ('w, session \<times> bool) act" where
  "persistSession a sess =
     (case ag_Store a of
        None \<Rightarrow> act_fail (ErrMsg ''agent: no store configured'')
      | Some st \<Rightarrow> st_UpdateSession st sess)"

section \<open>Runs\<close>

text \<open>
  \<open>Asked\<close> is a request to stream, \<open>Generated\<close> one for a whole response (the summary of compaction);
  \<open>Ran name id args\<close> is the start of a tool for the call \<open>id\<close> with the arguments \<open>args\<close>.
\<close>

datatype action =
    Emit event
  | Asked request
  | Generated request
  | Ran string string string
  | Saved session
  | Crashed string

record 'w run =
  r_world :: 'w
  r_log :: "action list"

text \<open>
  A piece of the goroutine: \<open>None\<close> when it has returned (or panicked), otherwise the value it
  computed.
\<close>

type_synonym ('w, 'a) proc = "'w run \<Rightarrow> 'a option \<times> 'w run"

definition pret :: "'a \<Rightarrow> ('w, 'a) proc" where
  "pret x r = (Some x, r)"

definition finish :: "('w, 'a) proc" where
  "finish r = (None, r)"

definition pseq :: "('w, 'a) proc \<Rightarrow> ('a \<Rightarrow> ('w, 'b) proc) \<Rightarrow> ('w, 'b) proc" where
  "pseq m k r = (case m r of (None, r1) \<Rightarrow> (None, r1) | (Some x, r1) \<Rightarrow> k x r1)"

definition log_acts :: "action list \<Rightarrow> ('w, unit) proc" where
  "log_acts acts r = (Some (), r\<lparr>r_log := r_log r @ acts\<rparr>)"

definition emit :: "event \<Rightarrow> ('w, unit) proc" where
  "emit ev = log_acts [Emit ev]"

definition crash :: "error \<Rightarrow> ('w, 'a) proc" where
  "crash e = pseq (log_acts [Crashed (error_text e)]) (\<lambda>_. finish)"

definition draw :: "('w \<Rightarrow> 'a \<times> 'w) \<Rightarrow> ('w, 'a) proc" where
  "draw f r = (case f (r_world r) of (x, w1) \<Rightarrow> (Some x, r\<lparr>r_world := w1\<rparr>))"

text \<open>A call outside; a panic ends the process.\<close>

definition attempt :: "('w, 'a) act \<Rightarrow> ('w, error + 'a) proc" where
  "attempt m = pseq (draw m) (\<lambda>res.
     case res of Inl e \<Rightarrow> if is_panic e then crash e else pret (Inl e) | Inr x \<Rightarrow> pret (Inr x))"

definition fail_run :: "error \<Rightarrow> ('w, 'a) proc" where
  "fail_run e = pseq (emit (ErrorEv (Some e))) (\<lambda>_. finish)"

text \<open>A save that ends the run with an error event when the store refuses.\<close>

definition save_or_stop :: "'w agent \<Rightarrow> string \<Rightarrow> session \<Rightarrow> ('w, session \<times> bool) proc" where
  "save_or_stop a what sess =
     pseq (attempt (persistSession a sess)) (\<lambda>res.
     case res of
       Inl e \<Rightarrow> fail_run (wrapf what e)
     | Inr x \<Rightarrow> pseq (log_acts [Saved (fst x)]) (\<lambda>_. pret x))"

text \<open>Every hook sees the event; its error is sent, and the next hook is called all the same.\<close>

fun run_hooks :: "'w hook list \<Rightarrow> event \<Rightarrow> ('w, unit) proc" where
  "run_hooks [] ev = pret ()"
| "run_hooks (hk # hs) ev =
     pseq (draw (hk ev)) (\<lambda>res.
     case res of
       None \<Rightarrow> run_hooks hs ev
     | Some e \<Rightarrow> pseq (emit (ErrorEv (Some e))) (\<lambda>_. run_hooks hs ev))"

definition emit_hooked :: "'w agent \<Rightarrow> event \<Rightarrow> ('w, unit) proc" where
  "emit_hooked a ev = pseq (run_hooks (ag_hooks a) ev) (\<lambda>_. emit ev)"

section \<open>Rules\<close>

lemmas proc_defs = pret_def finish_def pseq_def log_acts_def emit_def crash_def draw_def attempt_def fail_run_def

lemma pseq_cases:
  assumes "pseq m k r = (x, t)"
  obtains (stop) "m r = (None, t)" "x = None" | (go) y s where "m r = (Some y, s)" "k y s = (x, t)"
  using assms by (auto simp: pseq_def split: prod.splits option.splits)

lemma pseq_assoc: "pseq (pseq m k) l = pseq m (\<lambda>x. pseq (k x) l)"
  by (rule ext) (simp add: pseq_def split: prod.split option.split)

lemma pseq_pret [simp]: "pseq (pret x) k = k x" "pseq m pret = m"
  by (auto simp: pseq_def pret_def fun_eq_iff split: prod.split option.split)

text \<open>
  \<open>adds P m\<close>: the actions of \<open>m\<close> are appended to the log, and \<open>P\<close> holds of the value it ends
  with and the actions it appended.
\<close>

definition adds :: "('a option \<Rightarrow> action list \<Rightarrow> bool) \<Rightarrow> ('w, 'a) proc \<Rightarrow> bool" where
  "adds P m \<longleftrightarrow> (\<forall>r x t. m r = (x, t) \<longrightarrow> (\<exists>l. r_log t = r_log r @ l \<and> P x l))"

lemma addsI: "(\<And>r x t. m r = (x, t) \<Longrightarrow> \<exists>l. r_log t = r_log r @ l \<and> P x l) \<Longrightarrow> adds P m"
  by (simp add: adds_def)

lemma addsD: "adds P m \<Longrightarrow> m r = (x, t) \<Longrightarrow> \<exists>l. r_log t = r_log r @ l \<and> P x l"
  by (simp add: adds_def)

lemma adds_mono: "adds P m \<Longrightarrow> (\<And>x l. P x l \<Longrightarrow> Q x l) \<Longrightarrow> adds Q m"
  unfolding adds_def by meson

text \<open>The pieces a run is made of, each with what it appends.\<close>

lemma adds_basic:
  "P (Some x) [] \<Longrightarrow> adds P (pret x)"
  "Q None [] \<Longrightarrow> adds Q finish"
  "S (Some ()) acts \<Longrightarrow> adds S (log_acts acts)"
  "S (Some ()) [Emit ev] \<Longrightarrow> adds S (emit ev)"
  "(\<And>w. P (Some (fst (f w))) []) \<Longrightarrow> adds P (draw f)"
  "Q None [Crashed (error_text e)] \<Longrightarrow> adds Q (crash e)"
  "Q None [Emit (ErrorEv (Some e))] \<Longrightarrow> adds Q (fail_run e)"
proof -
  show "(\<And>w. P (Some (fst (f w))) []) \<Longrightarrow> adds P (draw f)"
    by (auto simp: adds_def draw_def split: prod.splits) (metis fst_conv)
qed (simp_all add: adds_def proc_defs)

lemma adds_attempt:
  "(\<And>m. P None [Crashed m]) \<Longrightarrow> (\<And>x. P (Some x) []) \<Longrightarrow> adds P (attempt m)"
  by (auto simp: adds_def proc_defs split: prod.splits sum.splits if_splits)

lemma adds_save:
  assumes "\<And>m. P None [Crashed m]" "\<And>e. P None [Emit (ErrorEv (Some e))]"
    and "\<And>x w w'. persistSession a sess w = (Inr x, w') \<Longrightarrow> P (Some x) [Saved (fst x)]"
  shows "adds P (save_or_stop a what sess)"
  unfolding save_or_stop_def adds_def
  using assms by (auto simp: proc_defs split: prod.splits sum.splits if_splits)

lemma adds_pseq:
  assumes "adds P m" "\<And>l. P None l \<Longrightarrow> R None l" "\<And>x. adds (Q x) (k x)"
    and "\<And>x l y l'. P (Some x) l \<Longrightarrow> Q x y l' \<Longrightarrow> R y (l @ l')"
  shows "adds R (pseq m k)"
proof (rule addsI)
  fix r y t
  assume "pseq m k r = (y, t)"
  then show "\<exists>l. r_log t = r_log r @ l \<and> R y l"
  proof (cases rule: pseq_cases)
    case stop
    then show ?thesis using addsD [OF assms(1) stop(1)] assms(2) by auto
  next
    case (go x s)
    then obtain l where l: "r_log s = r_log r @ l" "P (Some x) l" using addsD [OF assms(1) go(1)] by auto
    obtain l' where l': "r_log t = r_log s @ l'" "Q x y l'" using addsD [OF assms(3) go(2)] by auto
    show ?thesis by (rule exI [of _ "l @ l'"]) (simp add: l(1) l'(1) assms(4) [OF l(2) l'(2)])
  qed
qed

section \<open>Properties of logs that compose\<close>

text \<open>
  \<open>yields V D E m\<close>: every value \<open>m\<close> computes is in \<open>V\<close> and its actions are in \<open>D\<close>; where \<open>m\<close>
  ends the run its actions are in \<open>E\<close>. The rules follow the way a run is put together.
\<close>

definition composes :: "(action list \<Rightarrow> bool) \<Rightarrow> (action list \<Rightarrow> bool) \<Rightarrow> bool" where
  "composes D E \<longleftrightarrow> D [] \<and> (\<forall>l l'. D l \<longrightarrow> D l' \<longrightarrow> D (l @ l')) \<and> (\<forall>l l'. D l \<longrightarrow> E l' \<longrightarrow> E (l @ l'))"

definition yields :: "('a \<Rightarrow> bool) \<Rightarrow> (action list \<Rightarrow> bool) \<Rightarrow> (action list \<Rightarrow> bool) \<Rightarrow> ('w, 'a) proc \<Rightarrow> bool" where
  "yields V D E m \<longleftrightarrow> adds (\<lambda>x l. case x of None \<Rightarrow> E l | Some y \<Rightarrow> D l \<and> V y) m"

lemma composes_each [simp]: "composes (list_all A) (list_all A)"
  by (simp add: composes_def)

lemma yieldsD:
  assumes "yields V D E m" "m r = (x, t)"
  shows "\<exists>l. r_log t = r_log r @ l \<and> (case x of None \<Rightarrow> E l | Some y \<Rightarrow> D l \<and> V y)"
  using addsD [OF assms(1) [unfolded yields_def] assms(2)] .

lemma yields_weaken: "yields V D E m \<Longrightarrow> (\<And>x. V x \<Longrightarrow> V' x) \<Longrightarrow> yields V' D E m"
  unfolding yields_def by (erule adds_mono) (auto split: option.splits)

lemma yields_pseq:
  assumes "composes D E" "yields V D E m" "\<And>x. V x \<Longrightarrow> yields V' D E (k x)"
  shows "yields V' D E (pseq m k)"
  unfolding yields_def
proof (rule addsI)
  fix r y t
  assume "pseq m k r = (y, t)"
  then show "\<exists>l. r_log t = r_log r @ l \<and> (case y of None \<Rightarrow> E l | Some z \<Rightarrow> D l \<and> V' z)"
  proof (cases rule: pseq_cases)
    case stop
    then show ?thesis using yieldsD [OF assms(2) stop(1)] by auto
  next
    case (go x s)
    then obtain l where l: "r_log s = r_log r @ l" "D l" "V x" using yieldsD [OF assms(2) go(1)] by auto
    obtain l' where l': "r_log t = r_log s @ l'" "case y of None \<Rightarrow> E l' | Some z \<Rightarrow> D l' \<and> V' z"
      using yieldsD [OF assms(3) go(2)] l(3) by auto
    show ?thesis
      by (rule exI [of _ "l @ l'"]) (use l l' assms(1) in \<open>auto simp: composes_def split: option.splits\<close>)
  qed
qed

text \<open>The same for the end of a run, whose actions only have to be in \<open>E\<close>.\<close>

lemma ends_pseq:
  assumes "composes D E" "yields V D E m" "\<And>x. V x \<Longrightarrow> adds (\<lambda>_. E) (k x)"
  shows "adds (\<lambda>_. E) (pseq m k)"
proof (rule addsI)
  fix r y t
  assume "pseq m k r = (y, t)"
  then show "\<exists>l. r_log t = r_log r @ l \<and> E l"
  proof (cases rule: pseq_cases)
    case stop
    then show ?thesis using yieldsD [OF assms(2) stop(1)] by auto
  next
    case (go x s)
    then obtain l where l: "r_log s = r_log r @ l" "D l" "V x" using yieldsD [OF assms(2) go(1)] by auto
    obtain l' where l': "r_log t = r_log s @ l'" "E l'"
      using addsD [OF assms(3) go(2)] l(3) by auto
    show ?thesis
      by (rule exI [of _ "l @ l'"]) (use l l' assms(1) in \<open>auto simp: composes_def\<close>)
  qed
qed

lemma yields_basic:
  "V x \<Longrightarrow> composes D E \<Longrightarrow> yields V D E (pret x)"
  "D acts \<Longrightarrow> U () \<Longrightarrow> yields U D E (log_acts acts)"
  "D [Emit ev] \<Longrightarrow> U () \<Longrightarrow> yields U D E (emit ev)"
  "(\<And>w. V (fst (f w))) \<Longrightarrow> composes D E \<Longrightarrow> yields V D E (draw f)"
  "E [Crashed (error_text e)] \<Longrightarrow> yields V D E (crash e)"
  "E [Emit (ErrorEv (Some e))] \<Longrightarrow> yields V D E (fail_run e)"
  "E [Emit ev] \<Longrightarrow> yields V D E (pseq (emit ev) (\<lambda>_. finish))"
proof -
  show "E [Emit ev] \<Longrightarrow> yields V D E (pseq (emit ev) (\<lambda>_. finish))"
    by (simp add: yields_def adds_def proc_defs)
qed (auto simp: yields_def composes_def intro!: adds_basic)

lemma yields_attempt:
  assumes "composes D E" "\<And>m. E [Crashed m]" "\<And>w e w'. m w = (Inl e, w') \<Longrightarrow> V (Inl e)"
    "\<And>w x w'. m w = (Inr x, w') \<Longrightarrow> V (Inr x)"
  shows "yields V D E (attempt m)"
  using assms unfolding yields_def adds_def
  by (auto simp: proc_defs composes_def split: prod.splits sum.splits if_splits)

lemma yields_save:
  assumes "\<And>m. E [Crashed m]" "\<And>e. E [Emit (ErrorEv (Some e))]"
    and "\<And>x w w'. persistSession a sess w = (Inr x, w') \<Longrightarrow> D [Saved (fst x)] \<and> V x"
  shows "yields V D E (save_or_stop a what sess)"
  unfolding yields_def by (rule adds_save) (use assms in auto)

text \<open>A save with the event it stands before.\<close>

lemma yields_save_emit:
  assumes "composes D E" "\<And>m. E [Crashed m]" "\<And>e. E [Emit (ErrorEv (Some e))]"
    and "\<And>x w w'. persistSession a sess w = (Inr x, w') \<Longrightarrow> D [Saved (fst x), Emit ev] \<and> (V x \<longrightarrow> yields V' D E (k x))"
    and "\<And>x w w'. persistSession a sess w = (Inr x, w') \<Longrightarrow> V x"
  shows "yields V' D E (pseq (save_or_stop a what sess) (\<lambda>x. pseq (emit ev) (\<lambda>_. k x)))"
proof -
  have e: "pseq (save_or_stop a what sess) (\<lambda>x. pseq (emit ev) (\<lambda>_. k x)) =
      pseq (pseq (save_or_stop a what sess) (\<lambda>x. pseq (emit ev) (\<lambda>_. pret x))) k"
    by (simp add: pseq_assoc)
  let ?V = "\<lambda>x. \<exists>w w'. persistSession a sess w = (Inr x, w')"
  have "yields ?V D E (pseq (save_or_stop a what sess) (\<lambda>x. pseq (emit ev) (\<lambda>_. pret x)))"
    unfolding yields_def
  proof (rule adds_pseq [where P = "\<lambda>x l. case x of None \<Rightarrow> E l | Some y \<Rightarrow> l = [Saved (fst y)] \<and> ?V y"
        and Q = "\<lambda>x y l. y = Some x \<and> l = [Emit ev]"])
    show "adds (\<lambda>x l. case x of None \<Rightarrow> E l | Some y \<Rightarrow> l = [Saved (fst y)] \<and> ?V y) (save_or_stop a what sess)"
      by (rule adds_save) (use assms in auto)
    show "adds (\<lambda>y l. y = Some x \<and> l = [Emit ev]) (pseq (emit ev) (\<lambda>_. pret x))" for x :: "session \<times> bool"
      by (simp add: adds_def proc_defs)
  qed (use assms(4) in auto)
  then show ?thesis
    unfolding e by (rule yields_pseq [OF assms(1)]) (use assms(4,5) in blast)
qed

text \<open>An error that one of the hooks returns, for some event.\<close>

definition error_of :: "'w hook list \<Rightarrow> error \<Rightarrow> bool" where
  "error_of hs e \<longleftrightarrow> (\<exists>hk \<in> set hs. \<exists>ev w. fst (hk ev w) = Some e)"

abbreviation hook_error :: "'w agent \<Rightarrow> error \<Rightarrow> bool" where
  "hook_error a \<equiv> error_of (ag_hooks a)"

lemma yields_run_hooks:
  assumes "composes D E" "\<And>e. error_of hs e \<Longrightarrow> D [Emit (ErrorEv (Some e))]"
  shows "yields (\<lambda>_. True) D E (run_hooks hs ev)"
  using assms(2)
proof (induction hs)
  case Nil
  then show ?case by (simp add: yields_basic assms(1))
next
  case (Cons hk hs)
  have rest: "yields (\<lambda>_. True) D E (run_hooks hs ev)"
    by (rule Cons.IH) (rule Cons.prems, auto simp: error_of_def)
  show ?case
    unfolding run_hooks.simps
  proof (rule yields_pseq [OF assms(1), where V = "\<lambda>res. \<forall>e. res = Some e \<longrightarrow> error_of (hk # hs) e"])
    show "yields (\<lambda>res. \<forall>e. res = Some e \<longrightarrow> error_of (hk # hs) e) D E (draw (hk ev))"
      by (rule yields_basic(4)) (auto simp: error_of_def assms(1))
    fix res
    assume "\<forall>e. res = Some e \<longrightarrow> error_of (hk # hs) e"
    then show "yields (\<lambda>_. True) D E (case res of None \<Rightarrow> run_hooks hs ev
        | Some e \<Rightarrow> pseq (emit (ErrorEv (Some e))) (\<lambda>_. run_hooks hs ev))"
      by (cases res) (auto simp: rest yields_basic Cons.prems intro: yields_pseq [OF assms(1), where V = "\<lambda>_. True"])
  qed
qed

lemma yields_emit_hooked:
  assumes "composes D E" "\<And>e. hook_error a e \<Longrightarrow> D [Emit (ErrorEv (Some e))]" "D [Emit ev]"
  shows "yields (\<lambda>_. True) D E (emit_hooked a ev)"
  unfolding emit_hooked_def
  by (rule yields_pseq [OF assms(1) yields_run_hooks [OF assms(1,2)]]) (simp_all add: yields_basic assms)

end
