(* ===== verification/Hil.thy ===== *)
theory Hil
  imports Agent_Core
begin

text \<open>
  agent/hil.go and the first half of agent/resume.go: which tool calls have to wait for a human or
  for the client, the interrupts raised for them and their persisted form.
\<close>

section \<open>Policies\<close>

type_synonym approval_policy = "string \<Rightarrow> string \<Rightarrow> bool"

definition RequireNone :: approval_policy where
  "RequireNone name args = False"

definition RequireAll :: approval_policy where
  "RequireAll name args = True"

definition RequireFor :: "string list \<Rightarrow> approval_policy" where
  "RequireFor names name args = (name \<in> set names)"

definition kindApproval :: string where
  "kindApproval = ''approval_required''"

definition kindClientSide :: string where
  "kindClientSide = ''client_side''"

text \<open>The kind stored in the metadata; empty when it is missing or no string.\<close>

definition interruptKind :: "ainterrupt \<Rightarrow> string" where
  "interruptKind i = (case map_of (ai_metadata i) ''rakit.kind'' of Some (JStr s) \<Rightarrow> s | _ \<Rightarrow> [])"

section \<open>Classification\<close>

definition interruptID :: "'w host \<Rightarrow> 'w \<Rightarrow> string \<times> 'w" where
  "interruptID h w =
     (case rand_bytes h 12 w of
        (Some b, w1) \<Rightarrow> (''intr-'' @ hex_of b, w1)
      | (None, w1) \<Rightarrow> (case clock h w1 of (t, w2) \<Rightarrow> (''intr-'' @ int_text t, w2)))"

text \<open>Why a call must not run inline; \<open>None\<close> when it may.\<close>

definition gate :: "'w agent \<Rightarrow> 'w registry \<Rightarrow> ptool_call \<Rightarrow> string option" where
  "gate a reg tc =
     (if (case Get_tool reg (pt_name tc) of Some t \<Rightarrow> tool_client_side t | None \<Rightarrow> False) then Some kindClientSide
      else if (case ag_approvalPolicy a of Some p \<Rightarrow> p (pt_name tc) (pt_arguments tc) | None \<Rightarrow> False)
        then Some kindApproval
      else None)"

definition interrupt_message :: "string \<Rightarrow> string \<Rightarrow> string" where
  "interrupt_message kind name =
     (if kind = kindClientSide then ''Tool '' @ quote name @ '' runs on the client; provide its result to continue.''
      else ''Tool '' @ quote name @ '' requires approval before it can run.'')"

definition new_interrupt :: "string \<Rightarrow> string \<Rightarrow> ptool_call \<Rightarrow> ainterrupt" where
  "new_interrupt i kind tc =
     \<lparr>ai_id = i, ai_reason = ''tool_call'', ai_message = interrupt_message kind (pt_name tc),
      ai_tool_call_id = pt_id tc, ai_response_schema = [], ai_expires_at = None,
      ai_metadata = [(''rakit.kind'', JStr kind)]\<rparr>"

fun classifyPending :: "'w host \<Rightarrow> 'w agent \<Rightarrow> 'w registry \<Rightarrow> ptool_call list \<Rightarrow> 'w \<Rightarrow> ainterrupt list \<times> 'w" where
  "classifyPending h a reg [] w = ([], w)"
| "classifyPending h a reg (tc # tcs) w =
     (case gate a reg tc of
        None \<Rightarrow> classifyPending h a reg tcs w
      | Some kind \<Rightarrow>
          (case interruptID h w of (i, w1) \<Rightarrow>
            (case classifyPending h a reg tcs w1 of (ins, w2) \<Rightarrow> (new_interrupt i kind tc # ins, w2))))"

fun pendingStatusFor :: "string \<Rightarrow> ainterrupt list \<Rightarrow> string" where
  "pendingStatusFor tcid [] = ''pending''"
| "pendingStatusFor tcid (i # ins) =
     (if ai_tool_call_id i \<noteq> tcid then pendingStatusFor tcid ins
      else if interruptKind i = kindClientSide then ''pending_client''
      else if interruptKind i = kindApproval then ''pending_approval''
      else pendingStatusFor tcid ins)"

definition interruptsToMetadata :: "ainterrupt list \<Rightarrow> interrupt list" where
  "interruptsToMetadata ins = map (\<lambda>i.
     \<lparr>intr_id = ai_id i, intr_reason = ai_reason i, intr_message = ai_message i,
      intr_tool_call_id = ai_tool_call_id i, intr_response_schema = ai_response_schema i,
      intr_expires_at_ms = (case ai_expires_at i of None \<Rightarrow> 0 | Some t \<Rightarrow> t div 1000000),
      intr_metadata = ai_metadata i\<rparr>) ins"

definition metadataToInterrupts :: "interrupt list \<Rightarrow> ainterrupt list" where
  "metadataToInterrupts ins = map (\<lambda>i.
     \<lparr>ai_id = intr_id i, ai_reason = intr_reason i, ai_message = intr_message i,
      ai_tool_call_id = intr_tool_call_id i, ai_response_schema = intr_response_schema i,
      ai_expires_at = (if intr_expires_at_ms i > 0 then Some (intr_expires_at_ms i * 1000000) else None),
      ai_metadata = intr_metadata i\<rparr>) ins"

section \<open>Lemmas\<close>

lemma classifyPending_calls:
  "classifyPending h a reg tcs w = (ins, w') \<Longrightarrow>
     map (\<lambda>i. (ai_tool_call_id i, interruptKind i)) ins =
       List.map_filter (\<lambda>tc. map_option (\<lambda>k. (pt_id tc, k)) (gate a reg tc)) tcs"
  by (induction tcs arbitrary: w ins w')
    (auto simp: List.map_filter_simps new_interrupt_def interruptKind_def split: option.splits prod.splits)

lemma classifyPending_none:
  "classifyPending h a reg tcs w = ([], w') \<longleftrightarrow> w' = w \<and> (\<forall>tc \<in> set tcs. gate a reg tc = None)"
  by (induction tcs arbitrary: w) (auto split: option.splits prod.splits)

lemma gate_kind: "gate a reg tc = Some k \<Longrightarrow> k = kindClientSide \<or> k = kindApproval"
  by (auto simp: gate_def split: if_splits)

lemma kinds_differ [simp]: "kindClientSide \<noteq> kindApproval" "kindApproval \<noteq> kindClientSide"
  by (simp_all add: kindClientSide_def kindApproval_def)

text \<open>The status of a call whose id is its own.\<close>

lemma pendingStatusFor_gate:
  assumes "classifyPending h a reg tcs w = (ins, w')" "distinct (map pt_id tcs)" "tc \<in> set tcs"
  shows "pendingStatusFor (pt_id tc) ins =
     (if gate a reg tc = Some kindClientSide then ''pending_client''
      else if gate a reg tc = Some kindApproval then ''pending_approval'' else ''pending'')"
proof -
  have other: "pendingStatusFor i ins2 = ''pending''" if "i \<notin> ai_tool_call_id ` set ins2" for i ins2
    using that by (induction ins2) auto
  have ids: "ai_tool_call_id ` set ins2 \<subseteq> pt_id ` set tcs'"
    if "classifyPending h a reg tcs' v = (ins2, v')" for tcs' v v' ins2
    using that by (induction tcs' arbitrary: v ins2 v') (force simp: new_interrupt_def split: option.splits prod.splits)+
  from assms show ?thesis
  proof (induction tcs arbitrary: w ins w')
    case (Cons c tcs)
    show ?case
    proof (cases "gate a reg c")
      case None
      then have r: "classifyPending h a reg tcs w = (ins, w')" using Cons.prems(1) by simp
      show ?thesis
      proof (cases "tc = c")
        case True
        then have "pt_id tc \<notin> ai_tool_call_id ` set ins" using ids [OF r] Cons.prems(2) by auto
        then show ?thesis using other None True by simp
      next
        case False
        then show ?thesis using Cons.IH [OF r] Cons.prems by simp
      qed
    next
      case (Some k)
      then obtain i w1 ins2 where r: "classifyPending h a reg tcs w1 = (ins2, w')" "ins = new_interrupt i k c # ins2"
        using Cons.prems(1) by (auto split: prod.splits)
      show ?thesis
      proof (cases "tc = c")
        case True
        then show ?thesis
          using Some r(2) gate_kind [OF Some] by (auto simp: new_interrupt_def interruptKind_def)
      next
        case False
        then have "tc \<in> set tcs" using Cons.prems(3) by simp
        moreover from this have "pt_id tc \<noteq> pt_id c" using Cons.prems(2) by (metis distinct.simps(2) image_eqI list.set_map list.simps(9))
        ultimately show ?thesis using Cons.IH [OF r(1)] Cons.prems(2) r(2) by (simp add: new_interrupt_def)
      qed
    qed
  qed simp
qed

lemma interrupts_round_trip:
  "\<forall>i \<in> set ins. intr_expires_at_ms i \<ge> 0 \<Longrightarrow> interruptsToMetadata (metadataToInterrupts ins) = ins"
  by (induction ins) (auto simp: interruptsToMetadata_def metadataToInterrupts_def)

end
