(* ===== verification/Compaction.thy ===== *)
theory Compaction
  imports Hil
begin

text \<open>
  agent/compaction.go: the older part of a history replaced by a summary the provider writes, and
  the two conversions between stored messages and the provider's.
\<close>

definition shouldCompact :: "message list \<Rightarrow> compaction_config \<Rightarrow> bool" where
  "shouldCompact msgs cfg \<longleftrightarrow>
     \<not> int (length msgs) \<le> cc_keep_recent cfg \<and> int (length msgs) > cc_max_messages cfg"

definition newline :: string where
  "newline = [CHR 0x0A]"

definition summarizationPrompt :: string where
  "summarizationPrompt =
     ''Summarize the following conversation history into a concise summary that preserves:'' @ newline
     @ ''- Key facts, decisions, and preferences the user has stated'' @ newline
     @ ''- Important context needed for the conversation to continue naturally'' @ newline
     @ ''- Any pending tasks or open questions'' @ newline @ newline
     @ ''Write the summary as a neutral observer. Be specific rather than vague.''"

definition transcript_message :: "message \<Rightarrow> string" where
  "transcript_message m =
     ''['' @ msg_role m @ '']: '' @ msg_content m @ newline
     @ concat (map (\<lambda>tc. ''  [tool-call] '' @ tc_name tc @ ''('' @ tc_arguments tc @ '') -> '' @ tc_result tc @ newline)
         (msg_tool_calls m))"

definition summary_request :: "string \<Rightarrow> message list \<Rightarrow> request" where
  "summary_request model old =
     \<lparr>rq_model = model,
      rq_messages =
        [\<lparr>pm_role = ''system'', pm_content = summarizationPrompt, pm_tool_calls = []\<rparr>,
         \<lparr>pm_role = ''user'', pm_content = ''Summarize this conversation:'' @ newline @ newline
            @ concat (map transcript_message old), pm_tool_calls = []\<rparr>],
      rq_tools = [], rq_system = [], rq_max_tokens = 1024, rq_temperature = 3 / 10\<rparr>"

text \<open>A negative KeepRecent makes a split index past the end: slicing there panics.\<close>

definition slice_panic :: error where
  "slice_panic = ErrPanic ''runtime error: slice bounds out of range''"

definition compaction_request :: "'w provider \<Rightarrow> message list \<Rightarrow> compaction_config \<Rightarrow> request" where
  "compaction_request p msgs cfg =
     summary_request (pv_Model p) (take (length msgs - nat (cc_keep_recent cfg)) msgs)"

definition compact :: "'w host \<Rightarrow> 'w provider \<Rightarrow> message list \<Rightarrow> compaction_config \<Rightarrow> ('w, message list) act" where
  "compact h p msgs cfg =
     (if int (length msgs) \<le> cc_keep_recent cfg then act_ret msgs
      else if cc_keep_recent cfg < 0 then act_fail slice_panic
      else
        (let splitIdx = length msgs - nat (cc_keep_recent cfg) in
         act_seq (act_wrap ''compaction: summarization failed''
                    (pv_Generate p (compaction_request p msgs cfg))) (\<lambda>resp w.
         case generateID h w of (i, w1) \<Rightarrow>
           (case unix_milli h w1 of (now, w2) \<Rightarrow>
              (Inr (\<lparr>msg_id = i, msg_role = cc_summary_role cfg, msg_content = rs_content resp,
                     msg_tool_calls = [], msg_created_at = now\<rparr> # drop splitIdx msgs), w2)))))"

definition metadataToProviderMessages :: "message list \<Rightarrow> pmessage list" where
  "metadataToProviderMessages msgs = map (\<lambda>m.
     \<lparr>pm_role = msg_role m, pm_content = msg_content m,
      pm_tool_calls = map (\<lambda>tc. \<lparr>pt_id = tc_id tc, pt_name = tc_name tc, pt_arguments = tc_arguments tc, pt_thought = []\<rparr>)
        (msg_tool_calls m)\<rparr>) msgs"

definition providerToolCallsToRecords :: "ptool_call list \<Rightarrow> tool_call_record list" where
  "providerToolCallsToRecords tcs = map (\<lambda>tc.
     \<lparr>tc_id = pt_id tc, tc_name = pt_name tc, tc_arguments = pt_arguments tc, tc_result = [], tc_status = ''pending''\<rparr>) tcs"

section \<open>What compaction leaves\<close>

text \<open>One message in front of the last KeepRecent, which are the messages they were.\<close>

lemma summary_post:
  assumes "compact h p msgs cfg w = (Inr ms, w')" "\<not> int (length msgs) \<le> cc_keep_recent cfg"
  shows "int (length ms) = cc_keep_recent cfg + 1" "tl ms = drop (length msgs - nat (cc_keep_recent cfg)) msgs"
    "msg_role (hd ms) = cc_summary_role cfg"
  using assms by (auto simp: compact_def act_seq_def act_fail_def Let_def split: prod.splits sum.splits if_splits)

lemma shouldCompact_again:
  assumes "compact h p msgs cfg w = (Inr ms, w')" "shouldCompact msgs cfg" "cc_keep_recent cfg < cc_max_messages cfg"
  shows "\<not> shouldCompact ms cfg"
  using summary_post(1) [OF assms(1)] assms(2,3) by (auto simp: shouldCompact_def)

end
