(* ===== verification/Runner.thy ===== *)
theory Runner
  imports Compaction
begin

text \<open>
  agent/runner.go: the merged tool registry and the loop between provider and tools. One
  iteration of the loop is split where the code has its comments: request and stream, the
  final answer, the batch of tool calls, their interrupts, their execution.
\<close>

section \<open>The merged registry\<close>

text \<open>The tools of one skill; a definition that cannot be read or built is left out.\<close>

definition register_def :: "'w host \<Rightarrow> 'w resource_manager \<Rightarrow> skill_tool_def \<Rightarrow> 'w registry \<Rightarrow> 'w registry" where
  "register_def h rm td reg =
     (case ToolFromDef h td (Some rm) of Inl _ \<Rightarrow> reg | Inr t \<Rightarrow> Register t reg)"

fun register_skill_tools :: "'w host \<Rightarrow> 'w resource_manager \<Rightarrow> skill_tool_def list \<Rightarrow> 'w registry \<Rightarrow> 'w registry" where
  "register_skill_tools h rm [] reg = reg"
| "register_skill_tools h rm (td # tds) reg =
     (case through_json dec_skill_tool (enc_skill_tool td) of
        None \<Rightarrow> register_skill_tools h rm tds reg
      | Some x \<Rightarrow> register_skill_tools h rm tds (register_def h rm x reg))"

definition instruction_text :: "definition_l2 \<Rightarrow> string list" where
  "instruction_text d =
     (if df_instructions d = [] then [] else [''['' @ df_name d @ '']'' @ newline @ df_instructions d])"

fun load_skills :: "'w host \<Rightarrow> 'w meta_store \<Rightarrow> 'w resource_manager \<Rightarrow> skill_entry list \<Rightarrow>
    'w registry \<Rightarrow> string list \<Rightarrow> ('w, 'w registry \<times> string list) act" where
  "load_skills h st rm [] reg ins = act_ret (reg, ins)"
| "load_skills h st rm (e # es) reg ins =
     (if \<not> se_enabled e then load_skills h st rm es reg ins
      else act_handle (Skills_Get st (se_name e))
        (\<lambda>_. load_skills h st rm es reg ins)
        (\<lambda>d. load_skills h st rm es (register_skill_tools h rm (df_tools d) reg) (ins @ instruction_text d)))"

definition skill_tool_of :: "tool_def \<Rightarrow> skill_tool_def" where
  "skill_tool_of td =
     \<lparr>kt_name = td_name td, kt_description = td_description td, kt_parameters = td_parameters td,
      kt_handler = td_handler td, kt_endpoint = td_endpoint td, kt_headers = td_headers td,
      kt_input_mapping = td_input_mapping td, kt_response_field = td_response_field td,
      kt_script_path = td_script_path td\<rparr>"

definition register_persisted :: "'w host \<Rightarrow> 'w resource_manager \<Rightarrow> tool_def list \<Rightarrow> 'w registry \<Rightarrow> 'w registry" where
  "register_persisted h rm tds reg = fold (\<lambda>td. register_def h rm (skill_tool_of td)) tds reg"

fun join_texts :: "string \<Rightarrow> string list \<Rightarrow> string" where
  "join_texts sep [] = []"
| "join_texts sep [s] = s"
| "join_texts sep (s # t # r) = s @ sep @ join_texts sep (t # r)"

definition skill_part :: "'w host \<Rightarrow> 'w agent \<Rightarrow> ('w, 'w registry \<times> string list) act" where
  "skill_part h a =
     (case (ag_Skills a, ag_Store a) of
        (Some sk, Some st) \<Rightarrow>
          act_seq (act_wrap ''list skills'' (Skills_List sk)) (\<lambda>es.
          load_skills h sk (ag_FS a) es NewRegistry [])
      | _ \<Rightarrow> act_ret (NewRegistry, []))"

definition persisted_part :: "'w host \<Rightarrow> 'w agent \<Rightarrow> 'w registry \<Rightarrow> ('w, 'w registry) act" where
  "persisted_part h a reg =
     (case ag_Store a of
        None \<Rightarrow> act_ret reg
      | Some st \<Rightarrow>
          act_seq (act_wrap ''list tools'' (st_ListTools st (ag_ID a))) (\<lambda>tds.
          act_ret (register_persisted h (ag_FS a) tds reg)))"

definition mcp_part :: "'w host \<Rightarrow> 'w new_transport \<Rightarrow> 'w agent \<Rightarrow> 'w registry \<Rightarrow> ('w, 'w registry) act" where
  "mcp_part h mk a reg =
     (case ag_MCP a of
        None \<Rightarrow> act_ret reg
      | Some st \<Rightarrow>
          act_handle (DiscoverTools h mk st (ag_ID a)) (\<lambda>_. act_ret reg) (\<lambda>ts. act_ret (Register_all ts reg)))"

definition buildMergedRegistry :: "'w host \<Rightarrow> 'w new_transport \<Rightarrow> 'w agent \<Rightarrow> ('w, 'w registry \<times> string) act" where
  "buildMergedRegistry h mk a =
     act_seq (skill_part h a) (\<lambda>(reg1, instructions).
     act_seq (persisted_part h a reg1) (\<lambda>reg2.
     act_seq (mcp_part h mk a reg2) (\<lambda>reg3.
     act_ret (Register_all (All_tools (ag_Tools a)) reg3, join_texts (newline @ newline) instructions))))"

text \<open>What the loop works with when the registry cannot be built: the static tools.\<close>

definition registry_or_static :: "'w host \<Rightarrow> 'w new_transport \<Rightarrow> 'w agent \<Rightarrow> ('w, 'w registry \<times> string) proc" where
  "registry_or_static h mk a =
     pseq (attempt (buildMergedRegistry h mk a)) (\<lambda>res.
     case res of Inl _ \<Rightarrow> pret (ag_Tools a, []) | Inr x \<Rightarrow> pret x)"

section \<open>The stream of one answer\<close>

fun convertEvent :: "pevent \<Rightarrow> event option" where
  "convertEvent (PTextDelta d) = Some (TextDelta [] d)"
| "convertEvent (PToolCall tc) = Some (ToolCallStart (pt_id tc) (pt_name tc))"
| "convertEvent (PToolResult i r) = Some (ToolResultEv i r)"
| "convertEvent PDone = None"
| "convertEvent (PError e) = Some (ErrorEv e)"

text \<open>What the loop has gathered of an answer; the message id once the text has started.\<close>

record answer =
  an_content :: string
  an_calls :: "ptool_call list"
  an_text_id :: "string option"
  an_error :: "error option"

definition no_answer :: answer where
  "no_answer = \<lparr>an_content = [], an_calls = [], an_text_id = None, an_error = None\<rparr>"

definition stream_error :: "error option \<Rightarrow> error" where
  "stream_error e = (case e of None \<Rightarrow> ErrMsg ''provider stream failed'' | Some x \<Rightarrow> x)"

definition start_text :: "'w host \<Rightarrow> 'w agent \<Rightarrow> answer \<Rightarrow> ('w, answer) proc" where
  "start_text h a an =
     (case an_text_id an of
        Some _ \<Rightarrow> pret an
      | None \<Rightarrow>
          pseq (draw (generateID h)) (\<lambda>i.
          pseq (emit_hooked a (TextStart i ''assistant'')) (\<lambda>_.
          pret (an\<lparr>an_text_id := Some i\<rparr>))))"

fun gather :: "'w host \<Rightarrow> 'w agent \<Rightarrow> pevent \<Rightarrow> answer \<Rightarrow> ('w, answer) proc" where
  "gather h a (PTextDelta d) an =
     pseq (start_text h a an) (\<lambda>an1. pret (an1\<lparr>an_content := an_content an1 @ d\<rparr>))"
| "gather h a (PToolCall tc) an = pret (an\<lparr>an_calls := an_calls an @ [tc]\<rparr>)"
| "gather h a _ an = pret an"

fun stream_loop :: "'w host \<Rightarrow> 'w agent \<Rightarrow> pevent list \<Rightarrow> answer \<Rightarrow> ('w, answer) proc" where
  "stream_loop h a [] an = pret an"
| "stream_loop h a (PError e # es) an = stream_loop h a es (an\<lparr>an_error := Some (stream_error e)\<rparr>)"
| "stream_loop h a (ev # es) an =
     pseq (gather h a ev an) (\<lambda>an1.
     pseq (case convertEvent ev of None \<Rightarrow> pret () | Some x \<Rightarrow> emit_hooked a x) (\<lambda>_.
     stream_loop h a es an1))"

definition stop_on_ctx :: "'w host \<Rightarrow> ('w, unit) proc" where
  "stop_on_ctx h = pseq (draw (ctx_err h)) (\<lambda>e. case e of None \<Rightarrow> pret () | Some x \<Rightarrow> fail_run x)"

text \<open>The stream of an answer, to the end of its text.\<close>

definition receive :: "'w host \<Rightarrow> 'w agent \<Rightarrow> 'w provider \<Rightarrow> request \<Rightarrow> ('w, answer) proc" where
  "receive h a p req =
     pseq (attempt (pv_Stream p req)) (\<lambda>res.
     case res of
       Inl e \<Rightarrow> fail_run e
     | Inr stream \<Rightarrow>
         pseq (stream_loop h a stream no_answer) (\<lambda>an.
         case an_error an of
           Some e \<Rightarrow> fail_run e
         | None \<Rightarrow>
             pseq (stop_on_ctx h) (\<lambda>_.
             pseq (case an_text_id an of None \<Rightarrow> pret () | Some i \<Rightarrow> emit_hooked a (TextEnd i)) (\<lambda>_.
             pret an))))"

definition ask :: "'w host \<Rightarrow> 'w agent \<Rightarrow> 'w provider \<Rightarrow> request \<Rightarrow> ('w, answer) proc" where
  "ask h a p req = pseq (log_acts [Asked req]) (\<lambda>_. receive h a p req)"

section \<open>The messages of a session\<close>

definition new_message :: "'w host \<Rightarrow> string \<Rightarrow> string \<Rightarrow> tool_call_record list \<Rightarrow> ('w, message) proc" where
  "new_message h role content calls =
     pseq (draw (generateID h)) (\<lambda>i.
     pseq (draw (unix_milli h)) (\<lambda>now.
     pret \<lparr>msg_id = i, msg_role = role, msg_content = content, msg_tool_calls = calls, msg_created_at = now\<rparr>))"

definition add_message :: "message \<Rightarrow> session \<Rightarrow> session" where
  "add_message m sess = sess\<lparr>sess_messages := sess_messages sess @ [m]\<rparr>"

definition map_message :: "nat \<Rightarrow> (message \<Rightarrow> message) \<Rightarrow> session \<Rightarrow> session" where
  "map_message i f sess = sess\<lparr>sess_messages := (sess_messages sess)[i := f (sess_messages sess ! i)]\<rparr>"

definition index_panic :: error where
  "index_panic = ErrPanic ''runtime error: index out of range''"

definition set_result :: "nat \<Rightarrow> string \<Rightarrow> string \<Rightarrow> message \<Rightarrow> message" where
  "set_result i result status m =
     (if i < length (msg_tool_calls m)
      then m\<lparr>msg_tool_calls := (msg_tool_calls m)[i := (msg_tool_calls m ! i)\<lparr>tc_result := result, tc_status := status\<rparr>]\<rparr>
      else m)"

text \<open>The final answer: saved as one more message when it has text.\<close>

definition save_answer :: "'w host \<Rightarrow> 'w agent \<Rightarrow> answer \<Rightarrow> session \<Rightarrow> ('w, unit) proc" where
  "save_answer h a an sess =
     (if an_content an = [] then pret ()
      else
        pseq (new_message h ''assistant'' (an_content an) []) (\<lambda>m.
        pseq (save_or_stop a ''agent: persist assistant message'' (add_message m sess)) (\<lambda>_.
        pret ())))"

section \<open>A batch of tool calls\<close>

fun emit_args :: "ptool_call list \<Rightarrow> ('w, unit) proc" where
  "emit_args [] = pret ()"
| "emit_args (tc # tcs) =
     pseq (emit (ToolCallArgs (pt_id tc) (pt_arguments tc))) (\<lambda>_.
     pseq (emit (ToolCallEnd (pt_id tc) (pt_arguments tc))) (\<lambda>_.
     emit_args tcs))"

text \<open>The records of a batch with their pending statuses; the loop stops at the shorter list.\<close>

fun mark_pending :: "ptool_call list \<Rightarrow> ainterrupt list \<Rightarrow> tool_call_record list \<Rightarrow> tool_call_record list" where
  "mark_pending (tc # tcs) ins (r # rs) = r\<lparr>tc_status := pendingStatusFor (pt_id tc) ins\<rparr> # mark_pending tcs ins rs"
| "mark_pending _ ins rs = rs"

definition raise_interrupts :: "'w agent \<Rightarrow> string \<Rightarrow> string \<Rightarrow> nat \<Rightarrow> ptool_call list \<Rightarrow> ainterrupt list \<Rightarrow> session \<Rightarrow> ('w, 'a) proc" where
  "raise_interrupts a thread run idx calls ins sess =
     (if \<not> idx < length (sess_messages sess) then crash index_panic
      else
        pseq (save_or_stop a ''agent: persist interrupt''
          ((map_message idx (\<lambda>m. m\<lparr>msg_tool_calls := mark_pending calls ins (msg_tool_calls m)\<rparr>) sess)
             \<lparr>sess_open_interrupts := interruptsToMetadata ins\<rparr>)) (\<lambda>_.
        pseq (emit (RunFinished thread run OutcomeInterrupt ins None)) (\<lambda>_.
        finish)))"

definition error_json :: "string \<Rightarrow> string" where
  "error_json msg = marshal_or_empty (JObj [(''error'', JStr msg)])"

definition tool_message :: "string \<Rightarrow> string \<Rightarrow> string \<Rightarrow> pmessage" where
  "tool_message i name result =
     \<lparr>pm_role = ''tool'', pm_content = result,
      pm_tool_calls = [\<lparr>pt_id = i, pt_name = name, pt_arguments = [], pt_thought = []\<rparr>]\<rparr>"

text \<open>\<open>json.Unmarshal(args, &input)\<close> into a map; the text of the error is not modelled.\<close>

definition parse_input :: "string \<Rightarrow> error + tool_input" where
  "parse_input args =
     (case json_Unmarshal args of
        Some JNull \<Rightarrow> Inr None
      | Some (JObj kvs) \<Rightarrow> Inr (Some (canon_members kvs []))
      | _ \<Rightarrow> Inl (ErrMsg ''invalid JSON''))"

text \<open>A tool started: its result or error as the text and the status that are stored.\<close>

definition start_tool :: "'w tool \<Rightarrow> string \<Rightarrow> string \<Rightarrow> string \<Rightarrow> tool_input \<Rightarrow> ('w, string \<times> string) proc" where
  "start_tool t name callid args input =
     pseq (log_acts [Ran name callid args]) (\<lambda>_.
     pseq (attempt (tool_execute t input)) (\<lambda>res.
     case res of
       Inl e \<Rightarrow> pret (error_json (error_text e), ''failed'')
     | Inr r \<Rightarrow> pret (marshal_or_empty (tr_data r), ''completed'')))"

text \<open>The outcome of one call: the result, its status and what a failing save is reported as.\<close>

definition call_outcome :: "'w registry \<Rightarrow> ptool_call \<Rightarrow> ('w, string \<times> string \<times> string) proc" where
  "call_outcome reg tc =
     (case Get_tool reg (pt_name tc) of
        None \<Rightarrow> pret (error_json (''tool '' @ quote (pt_name tc) @ '' not found''), ''failed'', ''agent: persist tool result'')
      | Some t \<Rightarrow>
          (case parse_input (pt_arguments tc) of
             Inl e \<Rightarrow> pret (error_json (''invalid arguments: '' @ error_text e), ''failed'',
                         ''agent: persist invalid-argument tool result'')
           | Inr input \<Rightarrow> pseq (start_tool t (pt_name tc) (pt_id tc) (pt_arguments tc) input) (\<lambda>(result, status).
               pret (result, status, ''agent: persist tool result''))))"

fun execute_calls :: "'w agent \<Rightarrow> 'w registry \<Rightarrow> nat \<Rightarrow> nat \<Rightarrow> ptool_call list \<Rightarrow> session \<Rightarrow> pmessage list \<Rightarrow>
    ('w, session \<times> pmessage list) proc" where
  "execute_calls a reg idx i [] sess msgs = pret (sess, msgs)"
| "execute_calls a reg idx i (tc # tcs) sess msgs =
     pseq (call_outcome reg tc) (\<lambda>(result, status, what).
     if \<not> idx < length (sess_messages sess) then crash index_panic
     else
       pseq (save_or_stop a what (map_message idx (set_result i result status) sess)) (\<lambda>(sess1, _).
       pseq (emit (ToolResultEv (pt_id tc) result)) (\<lambda>_.
       execute_calls a reg idx (Suc i) tcs sess1 (msgs @ [tool_message (pt_id tc) (pt_name tc) result]))))"

text \<open>The batch: recorded, announced, and either interrupted or executed.\<close>

definition tool_batch :: "'w host \<Rightarrow> 'w agent \<Rightarrow> 'w registry \<Rightarrow> string \<Rightarrow> string \<Rightarrow> answer \<Rightarrow> session \<Rightarrow> pmessage list \<Rightarrow>
    ('w, session \<times> pmessage list) proc" where
  "tool_batch h a reg thread run an sess msgs =
     (let calls = an_calls an; idx = length (sess_messages sess) in
      pseq (new_message h ''assistant'' (an_content an) (providerToolCallsToRecords calls)) (\<lambda>m.
      pseq (save_or_stop a ''agent: persist assistant tool batch'' (add_message m sess)) (\<lambda>(sess1, _).
      pseq (emit_args calls) (\<lambda>_.
      pseq (draw (classifyPending h a reg calls)) (\<lambda>ins.
      if ins \<noteq> [] then raise_interrupts a thread run idx calls ins sess1
      else execute_calls a reg idx 0 calls sess1
        (msgs @ [\<lparr>pm_role = ''assistant'', pm_content = an_content an, pm_tool_calls = calls\<rparr>]))))))"

section \<open>The loop\<close>

text \<open>One iteration: \<open>None\<close> when the answer was the last, otherwise what the next one starts from.\<close>

definition iteration :: "'w host \<Rightarrow> 'w new_transport \<Rightarrow> 'w agent \<Rightarrow> 'w provider \<Rightarrow> string \<Rightarrow> string \<Rightarrow> session \<Rightarrow> pmessage list \<Rightarrow>
    ('w, (session \<times> pmessage list) option) proc" where
  "iteration h mk a p thread run sess msgs =
     pseq (stop_on_ctx h) (\<lambda>_.
     pseq (registry_or_static h mk a) (\<lambda>(reg, system).
     pseq (ask h a p \<lparr>rq_model = pv_Model p, rq_messages = msgs, rq_tools = Schema reg, rq_system = system,
             rq_max_tokens = 0, rq_temperature = 0\<rparr>) (\<lambda>an.
     if an_calls an = [] then pseq (save_answer h a an sess) (\<lambda>_. pret None)
     else pseq (tool_batch h a reg thread run an sess msgs) (\<lambda>x. pret (Some x)))))"

fun continueAgenticLoop :: "'w host \<Rightarrow> 'w new_transport \<Rightarrow> 'w agent \<Rightarrow> 'w provider \<Rightarrow> nat \<Rightarrow> string \<Rightarrow> string \<Rightarrow>
    session \<Rightarrow> pmessage list \<Rightarrow> ('w, unit) proc" where
  "continueAgenticLoop h mk a p 0 thread run sess msgs = emit (RunFinished thread run OutcomeSuccess [] None)"
| "continueAgenticLoop h mk a p (Suc n) thread run sess msgs =
     pseq (iteration h mk a p thread run sess msgs) (\<lambda>res.
     case res of
       None \<Rightarrow> emit (RunFinished thread run OutcomeSuccess [] None)
     | Some (sess1, msgs1) \<Rightarrow> continueAgenticLoop h mk a p n thread run sess1 msgs1)"

definition max_iterations :: "'w agent \<Rightarrow> nat" where
  "max_iterations a = nat (ag_maxIterations a)"

section \<open>Entry points\<close>

text \<open>
  An entry point returns an error before it starts the goroutine, or the goroutine's whole run:
  \<open>Inl\<close> the error, \<open>Inr\<close> once the channel is closed.
\<close>

definition refuse :: "string \<Rightarrow> ('w, error + 'a) proc" where
  "refuse m = pret (Inl (ErrMsg m))"

text \<open>The run without a session: tool calls are announced, not executed.\<close>

fun relay_event :: "'w agent \<Rightarrow> pevent \<Rightarrow> ('w, unit) proc" where
  "relay_event a (PToolCall tc) =
     pseq (emit_hooked a (ToolCallStart (pt_id tc) (pt_name tc))) (\<lambda>_.
     pseq (if pt_arguments tc = [] then pret () else emit_hooked a (ToolCallArgs (pt_id tc) (pt_arguments tc))) (\<lambda>_.
     emit_hooked a (ToolCallEnd (pt_id tc) (pt_arguments tc))))"
| "relay_event a ev = (case convertEvent ev of None \<Rightarrow> pret () | Some x \<Rightarrow> emit_hooked a x)"

definition relay_start :: "'w host \<Rightarrow> pevent \<Rightarrow> string option \<Rightarrow> ('w, string option) proc" where
  "relay_start h ev text_id =
     (if (case ev of PTextDelta _ \<Rightarrow> True | _ \<Rightarrow> False) \<and> text_id = None then
        pseq (draw (generateID h)) (\<lambda>i.
        pseq (emit (TextStart i ''assistant'')) (\<lambda>_.
        pret (Some i)))
      else pret text_id)"

fun relay :: "'w host \<Rightarrow> 'w agent \<Rightarrow> pevent list \<Rightarrow> string option \<Rightarrow> ('w, string option) proc" where
  "relay h a [] text_id = pret text_id"
| "relay h a (ev # es) text_id =
     pseq (relay_start h ev text_id) (\<lambda>text_id1.
     pseq (relay_event a ev) (\<lambda>_.
     relay h a es text_id1))"

definition single_request :: "'w provider \<Rightarrow> string \<Rightarrow> 'w registry \<Rightarrow> string \<Rightarrow> request" where
  "single_request p input reg system =
     \<lparr>rq_model = pv_Model p, rq_messages = [\<lparr>pm_role = ''user'', pm_content = input, pm_tool_calls = []\<rparr>],
      rq_tools = Schema reg, rq_system = system, rq_max_tokens = 0, rq_temperature = 0\<rparr>"

definition RunWithProtocol :: "'w host \<Rightarrow> 'w new_transport \<Rightarrow> 'w agent \<Rightarrow> string \<Rightarrow> string option \<Rightarrow> ('w, error + unit) proc" where
  "RunWithProtocol h mk a input enc =
     (case ag_Provider a of
        None \<Rightarrow> refuse ''agent: no provider configured''
      | Some p \<Rightarrow>
          if enc = None then refuse ''agent: no protocol configured''
          else
            pseq (registry_or_static h mk a) (\<lambda>(reg, system).
            pseq (draw (generateID h)) (\<lambda>thread.
            pseq (draw (generateID h)) (\<lambda>run.
            pseq (emit (RunStarted thread run [])) (\<lambda>_.
            pseq (log_acts [Asked (single_request p input reg system)]) (\<lambda>_.
            pseq (attempt (pv_Stream p (single_request p input reg system))) (\<lambda>res.
            case res of
              Inl e \<Rightarrow> fail_run e
            | Inr stream \<Rightarrow>
                pseq (relay h a stream None) (\<lambda>text_id.
                pseq (case text_id of None \<Rightarrow> pret () | Some i \<Rightarrow> emit (TextEnd i)) (\<lambda>_.
                pseq (emit (RunFinished thread run OutcomeUnset [] None)) (\<lambda>_.
                pret (Inr ())))))))))))"

definition Run :: "'w host \<Rightarrow> 'w new_transport \<Rightarrow> 'w agent \<Rightarrow> string \<Rightarrow> ('w, error + unit) proc" where
  "Run h mk a input = RunWithProtocol h mk a input (ag_Protocol a)"

text \<open>A save before the goroutine starts: its error is returned.\<close>

definition save_or_refuse :: "'w agent \<Rightarrow> string \<Rightarrow> session \<Rightarrow> ('w, error + session) proc" where
  "save_or_refuse a what sess =
     pseq (attempt (persistSession a sess)) (\<lambda>res.
     case res of
       Inl e \<Rightarrow> pret (Inl (wrapf what e))
     | Inr (x, _) \<Rightarrow> pseq (log_acts [Saved x]) (\<lambda>_. pret (Inr x)))"

text \<open>
  Compaction, where the history is long enough: the provider is asked for a summary (unless the
  slicing before panics), and a failing summary leaves the history.
\<close>

definition compact_session :: "'w host \<Rightarrow> 'w agent \<Rightarrow> 'w provider \<Rightarrow> session \<Rightarrow> ('w, error + session) proc" where
  "compact_session h a p sess =
     (if \<not> shouldCompact (sess_messages sess) (ag_compaction a) then pret (Inr sess)
      else
        pseq (log_acts (if cc_keep_recent (ag_compaction a) < 0 then []
                        else [Generated (compaction_request p (sess_messages sess) (ag_compaction a))])) (\<lambda>_.
        pseq (attempt (compact h p (sess_messages sess) (ag_compaction a))) (\<lambda>res.
        case res of
          Inl _ \<Rightarrow> pret (Inr sess)
        | Inr ms \<Rightarrow> save_or_refuse a ''agent: persist compaction'' (sess\<lparr>sess_messages := ms\<rparr>))))"

text \<open>The session an entry point works on, or the error it returns.\<close>

definition load_session :: "'w agent \<Rightarrow> string \<Rightarrow> string option \<Rightarrow> ('w, error + 'w provider \<times> session) proc" where
  "load_session a sid enc =
     (case ag_Provider a of
        None \<Rightarrow> refuse ''agent: no provider configured''
      | Some p \<Rightarrow>
          if enc = None then refuse ''agent: no protocol configured''
          else case ag_Store a of
            None \<Rightarrow> refuse ''agent: no store configured''
          | Some st \<Rightarrow>
              pseq (attempt (st_GetSession st sid)) (\<lambda>res.
              case res of
                Inl e \<Rightarrow> pret (Inl (wrapf (''agent: load session '' @ quote sid) e))
              | Inr None \<Rightarrow> refuse (''agent: session '' @ quote sid @ '' not found'')
              | Inr (Some sess) \<Rightarrow> pret (Inr (p, sess))))"

definition pseq_ok :: "('w, error + 'a) proc \<Rightarrow> ('a \<Rightarrow> ('w, error + 'b) proc) \<Rightarrow> ('w, error + 'b) proc" where
  "pseq_ok m k = pseq m (\<lambda>res. case res of Inl e \<Rightarrow> pret (Inl e) | Inr x \<Rightarrow> k x)"

definition session_run :: "'w host \<Rightarrow> 'w new_transport \<Rightarrow> 'w agent \<Rightarrow> 'w provider \<Rightarrow> session \<Rightarrow> ('w, unit) proc" where
  "session_run h mk a p sess =
     pseq (draw (generateID h)) (\<lambda>run.
     pseq (emit (RunStarted (sess_id sess) run [])) (\<lambda>_.
     continueAgenticLoop h mk a p (max_iterations a) (sess_id sess) run sess
       (metadataToProviderMessages (sess_messages sess))))"

definition RunWithSession :: "'w host \<Rightarrow> 'w new_transport \<Rightarrow> 'w agent \<Rightarrow> string \<Rightarrow> string \<Rightarrow> string option \<Rightarrow> ('w, error + unit) proc" where
  "RunWithSession h mk a sid input enc =
     pseq_ok (load_session a sid enc) (\<lambda>(p, sess).
     pseq (new_message h ''user'' input []) (\<lambda>m.
     pseq_ok (save_or_refuse a ''agent: persist user message'' (add_message m sess)) (\<lambda>sess1.
     pseq_ok (compact_session h a p sess1) (\<lambda>sess2.
     pseq (session_run h mk a p sess2) (\<lambda>_. pret (Inr ()))))))"

end
