(* ===== verification/Resume.thy ===== *)
theory Resume
  imports Runner
begin

text \<open>
  agent/resume.go from Resume on: the answers to a session's open interrupts are checked, every
  call of the paused batch gets its result, and the loop goes on. The code keeps a pointer to the
  paused message; a store that overwrites the whole session gives it new messages, and the pointer
  is left with the old ones. \<open>live\<close> says whether the pointer still points into the session.
\<close>

record resume_input =
  ri_interrupt_id :: string
  ri_status :: string
  ri_payload :: json

section \<open>Checking the answers\<close>

definition open_map :: "interrupt list \<Rightarrow> (string \<times> interrupt) list" where
  "open_map ins = fold (\<lambda>i m. map_put (intr_id i) i m) ins []"

fun check_inputs :: "(string \<times> interrupt) list \<Rightarrow> resume_input list \<Rightarrow> string list \<Rightarrow> error + string list" where
  "check_inputs opn [] seen = Inr seen"
| "check_inputs opn (inp # inps) seen =
     (if ri_interrupt_id inp = [] then Inl (ErrMsg ''agent: resume input missing interruptId'')
      else if map_of opn (ri_interrupt_id inp) = None then
        Inl (ErrMsg (''agent: unknown interruptId '' @ quote (ri_interrupt_id inp)))
      else if ri_interrupt_id inp \<in> set seen then
        Inl (ErrMsg (''agent: duplicate resume input for interruptId '' @ quote (ri_interrupt_id inp)))
      else check_inputs opn inps (ri_interrupt_id inp # seen))"

text \<open>The code reports any open id that was not addressed; here the first in their order.\<close>

definition validate_inputs :: "interrupt list \<Rightarrow> resume_input list \<Rightarrow> error option" where
  "validate_inputs ins inps =
     (case check_inputs (open_map ins) inps [] of
        Inl e \<Rightarrow> Some e
      | Inr seen \<Rightarrow>
          (case find (\<lambda>i. i \<notin> set seen) (map fst (open_map ins)) of
             Some i \<Rightarrow> Some (ErrMsg (''agent: resume must address interruptId '' @ quote i))
           | None \<Rightarrow> None))"

definition inputByToolCallID :: "interrupt list \<Rightarrow> resume_input list \<Rightarrow> (string \<times> resume_input) list" where
  "inputByToolCallID ins inps =
     fold (\<lambda>inp m.
       case map_of (open_map ins) (ri_interrupt_id inp) of
         None \<Rightarrow> m
       | Some i \<Rightarrow> if intr_tool_call_id i = [] then m else map_put (intr_tool_call_id i) inp m) inps []"

section \<open>The paused batch\<close>

definition isTerminalToolCall :: "tool_call_record \<Rightarrow> bool" where
  "isTerminalToolCall tc \<longleftrightarrow> tc_status tc = ''completed'' \<or> tc_status tc = ''failed''"

definition interruptForToolCall :: "interrupt list \<Rightarrow> string \<Rightarrow> interrupt option" where
  "interruptForToolCall ins tcid = find (\<lambda>i. intr_tool_call_id i = tcid) ins"

definition paused_message :: "interrupt list \<Rightarrow> message \<Rightarrow> bool" where
  "paused_message ins m \<longleftrightarrow> msg_role m = ''assistant'' \<and>
     (\<exists>tc \<in> set (msg_tool_calls m). prefix ''pending'' (tc_status tc) \<or> interruptForToolCall ins (tc_id tc) \<noteq> None)"

text \<open>The last paused message; \<open>n\<close> counts the messages still to be looked at.\<close>

fun find_paused :: "interrupt list \<Rightarrow> message list \<Rightarrow> nat \<Rightarrow> nat option" where
  "find_paused ins ms 0 = None"
| "find_paused ins ms (Suc n) = (if paused_message ins (ms ! n) then Some n else find_paused ins ms n)"

definition removeInterruptForToolCall :: "interrupt list \<Rightarrow> string \<Rightarrow> interrupt list option" where
  "removeInterruptForToolCall ins tcid =
     (if tcid = [] \<or> interruptForToolCall ins tcid = None then None
      else Some (takeWhile (\<lambda>i. intr_tool_call_id i \<noteq> tcid) ins @ tl (dropWhile (\<lambda>i. intr_tool_call_id i \<noteq> tcid) ins)))"

definition remove_or_keep :: "interrupt list \<Rightarrow> string \<Rightarrow> interrupt list" where
  "remove_or_keep ins tcid = (case removeInterruptForToolCall ins tcid of None \<Rightarrow> ins | Some r \<Rightarrow> r)"

section \<open>The result of one call\<close>

fun asApprovalPayload :: "json \<Rightarrow> bool option" where
  "asApprovalPayload (JBool b) = Some b"
| "asApprovalPayload (JObj m) = (case map_of m ''approved'' of Some (JBool b) \<Rightarrow> Some b | _ \<Rightarrow> None)"
| "asApprovalPayload _ = None"

definition marshal_payload :: "json \<Rightarrow> string" where
  "marshal_payload v = (case json_Marshal v of Inl _ \<Rightarrow> ''{\"error\": \"invalid payload\"}'' | Inr b \<Rightarrow> b)"

definition clientSidePayloadJSON :: "json \<Rightarrow> string" where
  "clientSidePayloadJSON payload =
     (case (case payload of JObj m \<Rightarrow> map_of m ''output'' | _ \<Rightarrow> None) of
        None \<Rightarrow> marshal_payload payload
      | Some out \<Rightarrow> (case json_Marshal out of Inr b \<Rightarrow> b | Inl _ \<Rightarrow> marshal_payload payload))"

definition executeTool :: "'w registry \<Rightarrow> tool_call_record \<Rightarrow> ('w, string \<times> string) proc" where
  "executeTool reg rec =
     (case Get_tool reg (tc_name rec) of
        None \<Rightarrow> pret (error_json (''tool '' @ quote (tc_name rec) @ '' not found''), ''failed'')
      | Some t \<Rightarrow>
          (case parse_input (tc_arguments rec) of
             Inl e \<Rightarrow> pret (error_json (''invalid arguments: '' @ error_text e), ''failed'')
           | Inr input \<Rightarrow> start_tool t (tc_name rec) (tc_id rec) (tc_arguments rec) input))"

definition resolveToolCall :: "'w registry \<Rightarrow> (string \<times> resume_input) list \<Rightarrow> tool_call_record \<Rightarrow> ('w, string \<times> string) proc" where
  "resolveToolCall reg inputs rec =
     (case map_of inputs (tc_id rec) of
        None \<Rightarrow> executeTool reg rec
      | Some inp \<Rightarrow>
          if ri_status inp = ''cancelled'' then pret (error_json ''cancelled'', ''failed'')
          else if tc_status rec = ''pending_approval'' then
            (case asApprovalPayload (ri_payload inp) of
               Some True \<Rightarrow> executeTool reg rec
             | _ \<Rightarrow> pret (error_json ''user rejected'', ''failed''))
          else if tc_status rec = ''pending_client'' then pret (clientSidePayloadJSON (ri_payload inp), ''completed'')
          else case json_Marshal (ri_payload inp) of
            Inl e \<Rightarrow> pret (error_json (error_text e), ''failed'')
          | Inr b \<Rightarrow> pret (b, ''completed''))"

section \<open>The batch resumed\<close>

record paused =
  pz_session :: session
  pz_calls :: "tool_call_record list"
  pz_live :: bool

text \<open>A result written through the pointer reaches the session only while it points there.\<close>

definition write_result :: "nat \<Rightarrow> nat \<Rightarrow> string \<Rightarrow> string \<Rightarrow> paused \<Rightarrow> paused" where
  "write_result idx i result status z =
     (let calls = (pz_calls z)[i := (pz_calls z ! i)\<lparr>tc_result := result, tc_status := status\<rparr>] in
      z\<lparr>pz_calls := calls,
        pz_session := (if pz_live z then map_message idx (\<lambda>m. m\<lparr>msg_tool_calls := calls\<rparr>) (pz_session z)
                       else pz_session z)\<rparr>)"

definition drop_interrupt :: "string \<Rightarrow> paused \<Rightarrow> paused" where
  "drop_interrupt tcid z =
     z\<lparr>pz_session := (pz_session z)\<lparr>sess_open_interrupts := remove_or_keep (sess_open_interrupts (pz_session z)) tcid\<rparr>\<rparr>"

definition save_paused :: "'w agent \<Rightarrow> string \<Rightarrow> paused \<Rightarrow> ('w, paused) proc" where
  "save_paused a what z =
     pseq (save_or_stop a what (pz_session z)) (\<lambda>(sess, fresh).
     pret (z\<lparr>pz_session := sess, pz_live := pz_live z \<and> \<not> fresh\<rparr>))"

definition resume_call :: "'w agent \<Rightarrow> 'w registry \<Rightarrow> (string \<times> resume_input) list \<Rightarrow> nat \<Rightarrow> nat \<Rightarrow> tool_call_record \<Rightarrow> paused \<Rightarrow>
    ('w, paused \<times> string) proc" where
  "resume_call a reg inputs idx i tc z =
     (if isTerminalToolCall tc then
        (if removeInterruptForToolCall (sess_open_interrupts (pz_session z)) (tc_id tc) = None then pret (z, tc_result tc)
         else pseq (save_paused a ''agent: persist resumed interrupt cleanup'' (drop_interrupt (tc_id tc) z)) (\<lambda>z1.
           pret (z1, tc_result tc)))
      else
        pseq (resolveToolCall reg inputs tc) (\<lambda>(result, status).
        pseq (save_paused a ''agent: persist resumed tool result'' (drop_interrupt (tc_id tc) (write_result idx i result status z))) (\<lambda>z1.
        pseq (emit (ToolResultEv (tc_id tc) result)) (\<lambda>_.
        pret (z1, result)))))"

fun resume_calls :: "'w agent \<Rightarrow> 'w registry \<Rightarrow> (string \<times> resume_input) list \<Rightarrow> nat \<Rightarrow> nat \<Rightarrow> tool_call_record list \<Rightarrow>
    paused \<Rightarrow> pmessage list \<Rightarrow> ('w, paused \<times> pmessage list) proc" where
  "resume_calls a reg inputs idx i [] z msgs = pret (z, msgs)"
| "resume_calls a reg inputs idx i (tc # tcs) z msgs =
     pseq (resume_call a reg inputs idx i tc z) (\<lambda>(z1, result).
     resume_calls a reg inputs idx (Suc i) tcs z1 (msgs @ [tool_message (tc_id tc) (tc_name tc) result]))"

definition clear_interrupts :: "'w agent \<Rightarrow> session \<Rightarrow> ('w, session) proc" where
  "clear_interrupts a sess =
     (if sess_open_interrupts sess = [] then pret sess
      else pseq (save_or_stop a ''agent: persist cleared interrupts'' (sess\<lparr>sess_open_interrupts := []\<rparr>)) (\<lambda>(sess1, _).
        pret sess1))"

definition resumed_run :: "'w host \<Rightarrow> 'w new_transport \<Rightarrow> 'w agent \<Rightarrow> 'w provider \<Rightarrow> session \<Rightarrow> nat \<Rightarrow> (string \<times> resume_input) list \<Rightarrow>
    ('w, unit) proc" where
  "resumed_run h mk a p sess idx inputs =
     pseq (draw (generateID h)) (\<lambda>run.
     pseq (emit (RunStarted (sess_id sess) run [])) (\<lambda>_.
     pseq (registry_or_static h mk a) (\<lambda>(reg, _).
     pseq (resume_calls a reg inputs idx 0 (msg_tool_calls (sess_messages sess ! idx))
             \<lparr>pz_session = sess, pz_calls = msg_tool_calls (sess_messages sess ! idx), pz_live = True\<rparr>
             (metadataToProviderMessages (take (Suc idx) (sess_messages sess)))) (\<lambda>(z, msgs).
     pseq (clear_interrupts a (pz_session z)) (\<lambda>sess1.
     continueAgenticLoop h mk a p (max_iterations a) (sess_id sess) run sess1 msgs)))))"

definition Resume :: "'w host \<Rightarrow> 'w new_transport \<Rightarrow> 'w agent \<Rightarrow> string \<Rightarrow> resume_input list \<Rightarrow> string option \<Rightarrow> ('w, error + unit) proc" where
  "Resume h mk a sid inputs enc =
     pseq_ok (load_session a sid enc) (\<lambda>(p, sess).
     if sess_open_interrupts sess = [] then refuse (''agent: session '' @ quote sid @ '' has no open interrupts'')
     else case validate_inputs (sess_open_interrupts sess) inputs of
       Some e \<Rightarrow> pret (Inl e)
     | None \<Rightarrow>
         (case find_paused (sess_open_interrupts sess) (sess_messages sess) (length (sess_messages sess)) of
            None \<Rightarrow> refuse (''agent: session '' @ quote sid @ '' has open interrupts but no paused tool-call batch'')
          | Some idx \<Rightarrow>
              pseq (resumed_run h mk a p sess idx (inputByToolCallID (sess_open_interrupts sess) inputs)) (\<lambda>_.
              pret (Inr ()))))"

end
