(* ===== verification/Agent_Api.thy ===== *)
theory Agent_Api
  imports Resume
begin

text \<open>
  The rest of agent/agent.go and the subagents of agent/runner.go: making an agent, its options,
  sessions, and a child agent that shares its parent's store and provider.
\<close>

section \<open>Options\<close>

type_synonym 'w option_func = "'w agent \<Rightarrow> 'w agent"

definition WithProvider :: "'w provider \<Rightarrow> 'w option_func" where
  "WithProvider p a = a\<lparr>ag_Provider := Some p\<rparr>"

definition WithProtocol :: "string \<Rightarrow> 'w option_func" where
  "WithProtocol p a = a\<lparr>ag_Protocol := Some p\<rparr>"

definition WithStore :: "'w meta_store \<Rightarrow> 'w option_func" where
  "WithStore s a = a\<lparr>ag_Store := Some s, ag_Skills := Some s, ag_MCP := Some s\<rparr>"

definition WithFS :: "'w blob_store \<Rightarrow> 'w option_func" where
  "WithFS fs a = a\<lparr>ag_FS := Some fs\<rparr>"

definition WithTools :: "'w tool list \<Rightarrow> 'w option_func" where
  "WithTools ts a = a\<lparr>ag_Tools := Register_all ts (ag_Tools a)\<rparr>"

definition WithFunction :: "'w host \<Rightarrow> string \<Rightarrow> string \<Rightarrow> json \<Rightarrow> 'w execute_func \<Rightarrow> 'w option_func" where
  "WithFunction h name description parameters fn a =
     a\<lparr>ag_Tools := Register (NewFunctionTool h name description parameters fn) (ag_Tools a)\<rparr>"

definition WithHooks :: "'w hook list \<Rightarrow> 'w option_func" where
  "WithHooks hs a = a\<lparr>ag_hooks := ag_hooks a @ hs\<rparr>"

definition WithCompaction :: "compaction_config \<Rightarrow> 'w option_func" where
  "WithCompaction cfg a = a\<lparr>ag_compaction := cfg\<rparr>"

definition WithMaxIterations :: "int \<Rightarrow> 'w option_func" where
  "WithMaxIterations n a = a\<lparr>ag_maxIterations := n\<rparr>"

definition WithApprovalPolicy :: "approval_policy \<Rightarrow> 'w option_func" where
  "WithApprovalPolicy p a = a\<lparr>ag_approvalPolicy := Some p\<rparr>"

definition bare_agent :: "string \<Rightarrow> 'w agent" where
  "bare_agent i =
     \<lparr>ag_ID = i, ag_Provider = None, ag_Protocol = None, ag_Tools = NewRegistry, ag_Skills = None, ag_MCP = None,
      ag_Store = None, ag_FS = None, ag_hooks = [], ag_compaction = DefaultCompactionConfig, ag_maxIterations = 10,
      ag_approvalPolicy = None, ag_parentSessionID = []\<rparr>"

definition New :: "'w host \<Rightarrow> 'w option_func list \<Rightarrow> 'w \<Rightarrow> 'w agent \<times> 'w" where
  "New h opts w = (case generateID h w of (i, w1) \<Rightarrow> (fold (\<lambda>f a. f a) opts (bare_agent i), w1))"

section \<open>Sessions of an agent\<close>

definition no_store :: error where
  "no_store = ErrMsg ''agent: no store configured''"

definition Agent_GetSession :: "'w agent \<Rightarrow> string \<Rightarrow> ('w, session option) act" where
  "Agent_GetSession a sid = (case ag_Store a of None \<Rightarrow> act_fail no_store | Some st \<Rightarrow> st_GetSession st sid)"

definition Agent_ListSessions :: "'w agent \<Rightarrow> 'w \<Rightarrow> (session list \<times> error option) \<times> 'w" where
  "Agent_ListSessions a w =
     (case ag_Store a of None \<Rightarrow> (([], Some no_store), w) | Some st \<Rightarrow> st_ListSessions st (ag_ID a) w)"

definition Agent_ListSessionsForUser :: "'w agent \<Rightarrow> string \<Rightarrow> 'w \<Rightarrow> (session list \<times> error option) \<times> 'w" where
  "Agent_ListSessionsForUser a user w =
     (case ag_Store a of None \<Rightarrow> (([], Some no_store), w) | Some st \<Rightarrow> st_ListSessionsByUser st (ag_ID a) user w)"

definition Agent_DeleteSession :: "'w agent \<Rightarrow> string \<Rightarrow> ('w, unit) act" where
  "Agent_DeleteSession a sid = (case ag_Store a of None \<Rightarrow> act_fail no_store | Some st \<Rightarrow> st_DeleteSession st sid)"

definition CreateSessionForUser :: "'w agent \<Rightarrow> string \<Rightarrow> ('w, session) act" where
  "CreateSessionForUser a user =
     (case ag_Store a of
        None \<Rightarrow> act_fail no_store
      | Some st \<Rightarrow>
          act_seq (st_CreateSession st (ag_ID a) user) (\<lambda>sess.
          if ag_parentSessionID a = [] then act_ret sess
          else act_seq (persistSession a (sess\<lparr>sess_parent_session_id := ag_parentSessionID a\<rparr>)) (\<lambda>(sess1, _).
            act_ret sess1)))"

definition Agent_CreateSession :: "'w agent \<Rightarrow> ('w, session) act" where
  "Agent_CreateSession a = CreateSessionForUser a []"

section \<open>Subagents\<close>

record 'w subagent_config =
  sc_System :: string
  sc_Tools :: "'w tool list"
  sc_MaxIterations :: int
  sc_InheritTools :: bool

definition Spawn :: "'w host \<Rightarrow> 'w agent \<Rightarrow> string \<Rightarrow> 'w subagent_config \<Rightarrow> 'w \<Rightarrow> 'w agent \<times> 'w" where
  "Spawn h a parent cfg w =
     (case generateID h w of (i, w1) \<Rightarrow>
       (let inherited = (if sc_InheritTools cfg \<or> sc_Tools cfg = [] then Register_all (All_tools (ag_Tools a)) NewRegistry
                         else NewRegistry) in
        (\<lparr>ag_ID = i, ag_Provider = ag_Provider a, ag_Protocol = ag_Protocol a,
          ag_Tools = Register_all (sc_Tools cfg) inherited, ag_Skills = ag_Skills a, ag_MCP = ag_MCP a,
          ag_Store = ag_Store a, ag_FS = ag_FS a, ag_hooks = ag_hooks a, ag_compaction = ag_compaction a,
          ag_maxIterations = (if sc_MaxIterations cfg > 0 then sc_MaxIterations cfg else ag_maxIterations a),
          ag_approvalPolicy = None, ag_parentSessionID = parent\<rparr>, w1)))"

text \<open>The text of a run: its deltas in the order they were sent.\<close>

fun collect_text :: "action list \<Rightarrow> string" where
  "collect_text [] = []"
| "collect_text (Emit (TextDelta _ d) # as) = d @ collect_text as"
| "collect_text (_ # as) = collect_text as"

text \<open>A child's run has its own log; the child's world is the parent's, and its panic everyone's.\<close>

definition crashed :: "action list \<Rightarrow> bool" where
  "crashed l \<longleftrightarrow> list_ex (\<lambda>x. case x of Crashed m \<Rightarrow> True | _ \<Rightarrow> False) l"

definition RunSubagent :: "'w host \<Rightarrow> 'w new_transport \<Rightarrow> 'w agent \<Rightarrow> string \<Rightarrow> string \<Rightarrow> string \<Rightarrow> string option \<Rightarrow> ('w, string) act" where
  "RunSubagent h mk a parent task system enc w =
     (case Spawn h a parent \<lparr>sc_System = system, sc_Tools = [], sc_MaxIterations = 0, sc_InheritTools = True\<rparr> w of
        (child, w1) \<Rightarrow>
          act_seq (act_wrap ''subagent: create session'' (Agent_CreateSession child)) (\<lambda>sess w2.
          case RunWithSession h mk child (sess_id sess) task enc \<lparr>r_world = w2, r_log = []\<rparr> of
            (Some (Inl e), r) \<Rightarrow> (Inl (wrapf ''subagent: run'' e), r_world r)
          | (_, r) \<Rightarrow>
              if crashed (r_log r) then (Inl (ErrPanic ''subagent''), r_world r)
              else (Inr (collect_text (r_log r)), r_world r)) w1)"

definition spawn_parameters :: json where
  "spawn_parameters = JObj
     [(''properties'', JObj
        [(''instructions'', JObj [(''description'', JStr ''System instructions for the subagent (optional)''), (''type'', JStr ''string'')]),
         (''task'', JObj [(''description'', JStr ''The task or question for the subagent to handle''), (''type'', JStr ''string'')])]),
      (''required'', JArr [JStr ''task'']), (''type'', JStr ''object'')]"

definition string_member :: "string \<Rightarrow> tool_input \<Rightarrow> string" where
  "string_member k input =
     (case map_of (case input of None \<Rightarrow> [] | Some m \<Rightarrow> m) k of Some (JStr s) \<Rightarrow> s | _ \<Rightarrow> [])"

text \<open>No code of the repository puts a session id into the context: the parent is always empty.\<close>

definition SpawnAgentTool :: "'w host \<Rightarrow> 'w new_transport \<Rightarrow> 'w agent \<Rightarrow> string option \<Rightarrow> 'w tool" where
  "SpawnAgentTool h mk a enc = NewFunctionTool h ''spawn_agent''
     ''Spawn a subagent to handle a subtask autonomously. The subagent inherits all tools and skills. Use this for complex subtasks that benefit from independent reasoning.''
     spawn_parameters
     (\<lambda>input. act_handle (RunSubagent h mk a [] (string_member ''task'' input) (string_member ''instructions'' input) enc)
        (\<lambda>e. err_act h (error_text e) ''Check that the agent has a provider configured'')
        (\<lambda>text. ok_act h (JStr text)))"

end
