(* ===== verification/Run_Log.thy ===== *)
theory Run_Log
  imports Agent_Api
begin

text \<open>
  The interfaces between a run and what is said of its log: a log property \<open>D\<close> that composes, and
  \<open>E\<close> for a run that has ended. \<open>log_basics\<close> lists the steps every property has to allow,
  \<open>event_log\<close> adds the events of an answer one by one, \<open>run_log\<close> takes the answer as a whole and
  adds the steps of a batch of tool calls, \<open>loop_log\<close> the request itself. The lemmas of the
  locales then give the property for every piece of the loop.
\<close>

section \<open>What the store gives back\<close>

text \<open>UpdateSession leaves the messages it was handed, and interrupts that JSON can carry.\<close>

definition content_kept :: "'w agent \<Rightarrow> bool" where
  "content_kept a \<longleftrightarrow> (\<forall>sess x fresh w w'. persistSession a sess w = (Inr (x, fresh), w') \<longrightarrow>
     sess_messages x = sess_messages sess \<and>
     (list_all interrupt_ok (sess_open_interrupts sess) \<longrightarrow> sess_open_interrupts x = sess_open_interrupts sess))"

lemma content_kept_messages:
  "content_kept a \<Longrightarrow> persistSession a sess w = (Inr x, w') \<Longrightarrow> sess_messages (fst x) = sess_messages sess"
  unfolding content_kept_def by (cases x) fastforce

lemma content_kept_interrupts:
  "content_kept a \<Longrightarrow> persistSession a sess w = (Inr x, w') \<Longrightarrow>
   list_all interrupt_ok (sess_open_interrupts sess) \<Longrightarrow> sess_open_interrupts (fst x) = sess_open_interrupts sess"
  unfolding content_kept_def by (cases x) fastforce

lemma new_interrupts_ok:
  "classifyPending h a reg tcs w = (ins, w') \<Longrightarrow> list_all interrupt_ok (interruptsToMetadata ins)"
  by (induction tcs arbitrary: w ins w')
    (auto simp: interruptsToMetadata_def new_interrupt_def interrupt_ok_def int64_ok_def split: option.splits prod.splits)

text \<open>The provider's stream brings tool results of its own.\<close>

definition brings_results :: "'w agent \<Rightarrow> bool" where
  "brings_results a \<longleftrightarrow> (\<exists>p req w es w' i r. ag_Provider a = Some p \<and> pv_Stream p req w = (Inr es, w') \<and>
     PToolResult i r \<in> set es)"

section \<open>Words of a log\<close>

definition policy_gates :: "'w agent \<Rightarrow> string \<Rightarrow> string \<Rightarrow> bool" where
  "policy_gates a n args = (case ag_approvalPolicy a of None \<Rightarrow> False | Some p \<Rightarrow> p n args)"

text \<open>The session has the result of a tool call in one of its messages.\<close>

definition recorded :: "session \<Rightarrow> string \<Rightarrow> string \<Rightarrow> bool" where
  "recorded s i r \<longleftrightarrow> (\<exists>m \<in> set (sess_messages s). \<exists>tc \<in> set (msg_tool_calls m).
     tc_id tc = i \<and> tc_result tc = r \<and> isTerminalToolCall tc)"

text \<open>The message at \<open>idx\<close> holds the records of the calls.\<close>

definition batch_at :: "nat \<Rightarrow> string list \<Rightarrow> session \<Rightarrow> bool" where
  "batch_at idx ids sess \<longleftrightarrow> idx < length (sess_messages sess) \<and>
     map tc_id (msg_tool_calls (sess_messages sess ! idx)) = ids"

lemma map_update_same: "f x = f (xs ! i) \<Longrightarrow> map f (xs[i := x]) = map f xs"
  by (metis list_update_beyond list_update_id linorder_not_le map_update)

lemma batch_at_set_result:
  "batch_at idx ids sess \<Longrightarrow> batch_at idx ids (map_message idx (set_result i result status) sess)"
  by (auto simp: batch_at_def map_message_def set_result_def map_update_same)

lemma set_result_recorded:
  assumes "batch_at idx ids sess" "i < length ids" "status = ''failed'' \<or> status = ''completed''"
  shows "recorded (map_message idx (set_result i result status) sess) (ids ! i) result"
proof -
  let ?m = "sess_messages sess ! idx"
  let ?tc = "(msg_tool_calls ?m ! i)\<lparr>tc_result := result, tc_status := status\<rparr>"
  have len: "idx < length (sess_messages sess)" "i < length (msg_tool_calls ?m)" "tc_id (msg_tool_calls ?m ! i) = ids ! i"
    using assms(1,2) by (auto simp: batch_at_def)
  have "set_result i result status ?m \<in> set (sess_messages (map_message idx (set_result i result status) sess))"
    using len(1) by (simp add: map_message_def set_update_memI)
  moreover have "?tc \<in> set (msg_tool_calls (set_result i result status ?m))"
    using len(2) by (simp add: set_result_def set_update_memI)
  moreover have "isTerminalToolCall ?tc" using assms(3) by (auto simp: isTerminalToolCall_def)
  ultimately show ?thesis unfolding recorded_def by (intro bexI [of _ "set_result i result status ?m"] bexI [of _ ?tc]) (simp_all add: len(3))
qed

text \<open>Events every log property has to allow; a delta of a text carries no message id.\<close>

fun plain_event :: "event \<Rightarrow> bool" where
  "plain_event (ToolCallStart _ _) = True"
| "plain_event (ToolCallArgs _ _) = True"
| "plain_event (ToolCallEnd _ _) = True"
| "plain_event _ = False"

fun text_event :: "event \<Rightarrow> bool" where
  "text_event (TextStart _ _) = True"
| "text_event (TextDelta i _) = (i = [])"
| "text_event (TextEnd _) = True"
| "text_event _ = False"

section \<open>The basic steps\<close>

locale log_basics =
  fixes a :: "'w agent" and D :: "action list \<Rightarrow> bool" and E :: "action list \<Rightarrow> bool"
  assumes closed: "composes D E"
    and plain: "plain_event ev \<Longrightarrow> D [Emit ev]"
    and hook_failed: "hook_error a x \<Longrightarrow> D [Emit (ErrorEv (Some x))]"
    and saved: "D [Saved s]"
    and crashes: "E [Crashed m]"
    and fails: "E [Emit (ErrorEv e)]"
begin

lemmas basic = yields_basic closed plain hook_failed saved crashes fails

lemma piece: "yields V D E m \<Longrightarrow> (\<And>x. V x \<Longrightarrow> yields V' D E (k x)) \<Longrightarrow> yields V' D E (pseq m k)"
  by (rule yields_pseq [OF closed])

lemma hooked: "plain_event ev \<or> D [Emit ev] \<Longrightarrow> yields (\<lambda>_. True) D E (emit_hooked a ev)"
  by (rule yields_emit_hooked) (auto simp: basic)

lemma tried: "yields (\<lambda>_. True) D E (attempt m)"
  by (rule yields_attempt) (simp_all add: basic)

lemma stop_on_ctx: "yields (\<lambda>_. True) D E (stop_on_ctx h)"
  unfolding stop_on_ctx_def
  by (rule piece [where V = "\<lambda>_. True"]) (auto simp: basic split: option.split)

lemma registry: "yields (\<lambda>_. True) D E (registry_or_static h mk b)"
  unfolding registry_or_static_def
  by (rule piece [OF tried]) (auto simp: basic split: sum.split)

lemma new_message: "yields (\<lambda>m. msg_tool_calls m = calls) D E (new_message h role content calls)"
  unfolding new_message_def
  by (intro piece [where V = "\<lambda>_. True"]) (simp_all add: basic)

lemma save: "yields (\<lambda>x. \<exists>w w'. persistSession b sess w = (Inr x, w')) D E (save_or_stop b what sess)"
  by (rule yields_save) (auto simp: basic)

lemma save_any: "yields (\<lambda>_. True) D E (save_or_stop b what sess)"
  by (rule yields_weaken [OF save]) simp

lemma save_answer: "yields (\<lambda>_. True) D E (save_answer h b an sess)"
  unfolding save_answer_def
  by (auto simp: basic intro!: piece [OF new_message] piece [OF save_any])

lemma args: "yields (\<lambda>_. True) D E (emit_args tcs)"
  by (induction tcs) (auto simp: basic intro!: piece [where V = "\<lambda>_. True"])

end

section \<open>An answer, event by event\<close>

locale event_log = log_basics +
  assumes texts: "text_event ev \<Longrightarrow> D [Emit ev]"
    and streamed: "brings_results a \<Longrightarrow> D [Emit (ToolResultEv i r)]"
begin

lemma start_text: "yields (\<lambda>_. True) D E (start_text h a an)"
  unfolding start_text_def
  by (auto simp: basic texts split: option.split intro!: piece [where V = "\<lambda>_. True"] hooked)

lemma gather: "yields (\<lambda>_. True) D E (gather h a ev an)"
  by (cases ev) (auto simp: basic intro!: piece [OF start_text])

lemma converted:
  assumes "\<And>i r. ev = PToolResult i r \<Longrightarrow> brings_results a" "\<And>e. ev \<noteq> PError e"
  shows "yields (\<lambda>_. True) D E (case convertEvent ev of None \<Rightarrow> pret () | Some x \<Rightarrow> emit_hooked a x)"
  using assms by (cases ev) (auto simp: basic texts streamed intro!: hooked)

lemma stream:
  "(\<And>i r. PToolResult i r \<in> set es \<Longrightarrow> brings_results a) \<Longrightarrow> yields (\<lambda>_. True) D E (stream_loop h a es an)"
proof (induction es arbitrary: an)
  case (Cons ev es)
  have rest: "yields (\<lambda>_. True) D E (stream_loop h a es an')" for an'
    by (rule Cons.IH) (use Cons.prems in auto)
  have "yields (\<lambda>_. True) D E (pseq (gather h a ev an) (\<lambda>an1.
     pseq (case convertEvent ev of None \<Rightarrow> pret () | Some x \<Rightarrow> emit_hooked a x) (\<lambda>_. stream_loop h a es an1)))"
    if "\<And>e. ev \<noteq> PError e"
    by (rule piece [OF gather], rule piece [OF converted]) (use Cons.prems rest that in auto)
  then show ?case by (cases ev) (auto simp: rest simp del: gather.simps convertEvent.simps)
qed (simp add: basic)

lemma received:
  assumes "ag_Provider a = Some p"
  shows "yields (\<lambda>_. True) D E (receive h a p req)"
  unfolding receive_def
proof (rule piece [where V = "\<lambda>x :: error + pevent list. case x of Inl e \<Rightarrow> True | Inr es \<Rightarrow> \<exists>w w'. pv_Stream p req w = (Inr es, w')"])
  show "yields (\<lambda>x. case x of Inl e \<Rightarrow> True | Inr es \<Rightarrow> \<exists>w w'. pv_Stream p req w = (Inr es, w')) D E (attempt (pv_Stream p req))"
    by (rule yields_attempt) (auto simp: basic)
next
  fix res :: "error + pevent list"
  assume V: "case res of Inl e \<Rightarrow> True | Inr es \<Rightarrow> \<exists>w w'. pv_Stream p req w = (Inr es, w')"
  show "yields (\<lambda>_. True) D E (case res of Inl e \<Rightarrow> fail_run e
     | Inr stream \<Rightarrow> pseq (stream_loop h a stream no_answer) (\<lambda>an.
         case an_error an of Some e \<Rightarrow> fail_run e
         | None \<Rightarrow> pseq (stop_on_ctx h) (\<lambda>_.
             pseq (case an_text_id an of None \<Rightarrow> pret () | Some i \<Rightarrow> emit_hooked a (TextEnd i)) (\<lambda>_. pret an))))"
  proof (cases res)
    case (Inr es)
    have s: "yields (\<lambda>_. True) D E (stream_loop h a es no_answer)"
      by (rule stream) (use V Inr assms in \<open>force simp: brings_results_def\<close>)
    show ?thesis
      unfolding Inr sum.case
      by (rule piece [OF s])
        (auto simp: basic texts split: option.split intro!: piece [OF stop_on_ctx] piece [where V = "\<lambda>_. True"] hooked)
  qed (simp add: basic)
qed

end

end
