(* ===== verification/Run_Loop.thy ===== *)
theory Run_Loop
  imports Run_Log
begin

text \<open>
  A batch of tool calls, an iteration and the loop, for every log property that allows their
  steps; then the entry points, whose logs are made of saves before the run and of the run.
\<close>

section \<open>A batch of tool calls\<close>

locale run_log = log_basics +
  assumes started: "\<not> policy_gates a n args \<Longrightarrow> D [Ran n i args]"
    and result: "(content_kept a \<Longrightarrow> recorded s i r) \<Longrightarrow> D [Saved s, Emit (ToolResultEv i r)]"
    and interrupted: "(content_kept a \<Longrightarrow> sess_open_interrupts s = interruptsToMetadata ins) \<Longrightarrow> ins \<noteq> [] \<Longrightarrow>
      E [Saved s, Emit (RunFinished t run OutcomeInterrupt ins None)]"
begin

lemma ran: "\<not> policy_gates a n args \<Longrightarrow> yields (\<lambda>x. snd x = ''failed'' \<or> snd x = ''completed'') D E (start_tool t n i args input)"
  unfolding start_tool_def
  by (rule piece [where V = "\<lambda>_. True"], simp add: basic started, rule piece [OF tried])
    (auto simp: basic split: sum.split)

lemma outcome:
  assumes "gate a reg tc = None"
  shows "yields (\<lambda>x. fst (snd x) = ''failed'' \<or> fst (snd x) = ''completed'') D E (call_outcome reg tc)"
proof -
  have g: "\<not> policy_gates a (pt_name tc) (pt_arguments tc)"
    using assms by (auto simp: gate_def policy_gates_def split: if_splits option.splits)
  show ?thesis
    unfolding call_outcome_def
    by (auto simp: basic split: option.split sum.split intro!: piece [OF ran [OF g]])
qed

text \<open>One save with the event that follows it, as one step.\<close>

lemma save_then:
  assumes "\<And>x w w'. persistSession a sess w = (Inr x, w') \<Longrightarrow> D [Saved (fst x), Emit ev] \<and> V x"
  shows "yields V D E (pseq (save_or_stop a what sess) (\<lambda>x. pseq (emit ev) (\<lambda>_. pret x)))"
  unfolding yields_def adds_def save_or_stop_def
  using assms crashes fails
  by (auto simp: proc_defs split: prod.splits sum.splits if_splits)

lemma call_result:
  assumes b: "content_kept a \<Longrightarrow> batch_at idx ids sess" and i: "i < length ids" "status = ''failed'' \<or> status = ''completed''"
  shows "yields (\<lambda>x. content_kept a \<longrightarrow> batch_at idx ids (fst x)) D E
     (pseq (save_or_stop a what (map_message idx (set_result i result status) sess)) (\<lambda>x.
      pseq (emit (ToolResultEv (ids ! i) result)) (\<lambda>_. pret x)))"
proof (rule save_then, intro conjI impI)
  fix x w w'
  assume p: "persistSession a (map_message idx (set_result i result status) sess) w = (Inr x, w')"
  let ?s = "map_message idx (set_result i result status) sess"
  have m: "content_kept a \<Longrightarrow> sess_messages (fst x) = sess_messages ?s"
    using content_kept_messages [OF _ p] .
  have "content_kept a \<Longrightarrow> recorded ?s (ids ! i) result" by (rule set_result_recorded [OF b i])
  then show "D [Saved (fst x), Emit (ToolResultEv (ids ! i) result)]"
    by (intro result) (simp add: recorded_def m)
  show "content_kept a \<Longrightarrow> batch_at idx ids (fst x)"
    using batch_at_set_result [OF b, of i result status] m by (simp add: batch_at_def)
qed

lemma pseq_with:
  "pseq m (\<lambda>x. pseq e (\<lambda>_. k x)) = pseq (pseq m (\<lambda>x. pseq e (\<lambda>_. pret x))) k"
  by (simp add: pseq_assoc)

lemma calls:
  "(content_kept a \<Longrightarrow> batch_at idx ids sess) \<Longrightarrow> map pt_id tcs = drop i ids \<Longrightarrow>
   \<forall>tc \<in> set tcs. gate a reg tc = None \<Longrightarrow> yields (\<lambda>_. True) D E (execute_calls a reg idx i tcs sess msgs)"
proof (induction tcs arbitrary: i sess msgs)
  case (Cons tc tcs)
  have i: "i < length ids" using Cons.prems(2) by (cases "i < length ids") simp_all
  then have id: "i < length ids" "ids ! i = pt_id tc" "map pt_id tcs = drop (Suc i) ids"
    using Cons.prems(2) unfolding Cons_nth_drop_Suc [OF i, symmetric] by auto
  have one: "yields (\<lambda>_. True) D E
     (pseq (save_or_stop a what (map_message idx (set_result i result status) sess)) (\<lambda>(sess1, _).
      pseq (emit (ToolResultEv (pt_id tc) result)) (\<lambda>_.
      execute_calls a reg idx (Suc i) tcs sess1 (msgs @ [tool_message (pt_id tc) (pt_name tc) result]))))"
    if "status = ''failed'' \<or> status = ''completed''" for result status what
  proof -
    let ?k = "\<lambda>x. execute_calls a reg idx (Suc i) tcs (fst x) (msgs @ [tool_message (pt_id tc) (pt_name tc) result])"
    have "yields (\<lambda>_. True) D E (pseq (save_or_stop a what (map_message idx (set_result i result status) sess)) (\<lambda>x.
      pseq (emit (ToolResultEv (ids ! i) result)) (\<lambda>_. ?k x)))"
      by (subst pseq_with, rule piece [OF call_result [OF Cons.prems(1) id(1) that]], simp, rule Cons.IH)
        (use Cons.prems(3) id(3) in auto)
    then show ?thesis by (simp add: id(2) case_prod_unfold)
  qed
  show ?case
    unfolding execute_calls.simps
    by (rule piece [OF outcome]) (use Cons.prems(3) in \<open>auto simp: basic one\<close>)
qed (simp add: basic)

lemma interrupts:
  assumes "classifyPending h a reg calls w = (ins, w')" "ins \<noteq> []"
  shows "yields (\<lambda>_. True) D E (raise_interrupts a thread run idx calls ins sess)"
proof -
  let ?s = "(map_message idx (\<lambda>m. m\<lparr>msg_tool_calls := mark_pending calls ins (msg_tool_calls m)\<rparr>) sess)
     \<lparr>sess_open_interrupts := interruptsToMetadata ins\<rparr>"
  have "E [Saved (fst x), Emit (RunFinished thread run OutcomeInterrupt ins None)]"
    if "persistSession a ?s w1 = (Inr x, w2)" for x w1 w2
  proof (rule interrupted)
    show "sess_open_interrupts (fst x) = interruptsToMetadata ins" if k: "content_kept a"
      using content_kept_interrupts [OF k \<open>persistSession a ?s w1 = (Inr x, w2)\<close>] new_interrupts_ok [OF assms(1)] by simp
  qed (rule assms(2))
  then show ?thesis
    unfolding raise_interrupts_def save_or_stop_def yields_def adds_def
    using crashes fails
    by (auto simp: proc_defs split: prod.splits sum.splits if_splits)
qed

lemma added:
  assumes "msg_tool_calls m = providerToolCallsToRecords calls" "persistSession a (add_message m sess) w = (Inr x, w')" "content_kept a"
  shows "batch_at (length (sess_messages sess)) (map pt_id calls) (fst x)"
  using content_kept_messages [OF assms(3,2)] assms(1)
  by (simp add: batch_at_def add_message_def providerToolCallsToRecords_def comp_def)

lemma batch: "yields (\<lambda>_. True) D E (tool_batch h a reg thread run an sess msgs)"
proof -
  let ?calls = "an_calls an" and ?idx = "length (sess_messages sess)"
  have last: "yields (\<lambda>_. True) D E (pseq (draw (classifyPending h a reg ?calls)) (\<lambda>ins.
      if ins \<noteq> [] then raise_interrupts a thread run ?idx ?calls ins sess1
      else execute_calls a reg ?idx 0 ?calls sess1
        (msgs @ [\<lparr>pm_role = ''assistant'', pm_content = an_content an, pm_tool_calls = ?calls\<rparr>])))"
    if b: "content_kept a \<Longrightarrow> batch_at ?idx (map pt_id ?calls) sess1" for sess1
  proof (rule piece [where V = "\<lambda>ins. \<exists>w w'. classifyPending h a reg ?calls w = (ins, w')"])
    show "yields (\<lambda>ins. \<exists>w w'. classifyPending h a reg ?calls w = (ins, w')) D E (draw (classifyPending h a reg ?calls))"
      by (intro basic(4) closed) (metis prod.collapse)
    fix ins
    assume "\<exists>w w'. classifyPending h a reg ?calls w = (ins, w')"
    then obtain w w' where c: "classifyPending h a reg ?calls w = (ins, w')" by blast
    show "yields (\<lambda>_. True) D E (if ins \<noteq> [] then raise_interrupts a thread run ?idx ?calls ins sess1
      else execute_calls a reg ?idx 0 ?calls sess1
        (msgs @ [\<lparr>pm_role = ''assistant'', pm_content = an_content an, pm_tool_calls = ?calls\<rparr>]))"
    proof (cases "ins = []")
      case True
      then have "\<forall>tc \<in> set ?calls. gate a reg tc = None" using c by (simp add: classifyPending_none)
      then show ?thesis using True calls [OF b, of ?calls 0] by simp
    next
      case False
      then show ?thesis using interrupts [OF c False] by simp
    qed
  qed
  show ?thesis
    unfolding tool_batch_def Let_def case_prod_unfold
    by (rule piece [OF new_message], rule piece [OF save], rule piece [OF args], rule last) (use added in force)
qed

end

section \<open>The loop\<close>

locale loop_log = run_log +
  assumes asked: "D [Asked req]"
    and answered: "ag_Provider a = Some p \<Longrightarrow> yields (\<lambda>_. True) D E (receive h a p req)"
    and finished: "E [Emit (RunFinished t run OutcomeSuccess [] None)]"
begin

lemma one_iteration:
  assumes "ag_Provider a = Some p"
  shows "yields (\<lambda>_. True) D E (iteration h mk a p thread run sess msgs)"
proof -
  have q: "yields (\<lambda>_. True) D E (ask h a p req)" for req
    unfolding ask_def by (rule piece [where V = "\<lambda>_. True"]) (simp_all add: basic asked answered assms)
  show ?thesis
    unfolding iteration_def
    by (rule piece [OF stop_on_ctx], rule piece [OF registry])
      (auto simp: basic intro!: piece [OF q] piece [OF save_answer] piece [OF batch])
qed

lemma loop:
  assumes "ag_Provider a = Some p"
  shows "adds (\<lambda>_. E) (continueAgenticLoop h mk a p n thread run sess msgs)"
proof (induction n arbitrary: sess msgs)
  case (Suc n)
  show ?case
    unfolding continueAgenticLoop.simps
    by (rule ends_pseq [OF closed one_iteration [OF assms]])
      (auto simp: Suc finished intro!: adds_basic split: option.split)
qed (auto simp: finished intro!: adds_basic)

end

section \<open>Entry points\<close>

text \<open>
  Before a run starts there are only saves and the request for a summary: a refused call has done
  nothing else; otherwise the start of the run follows and a log in \<open>E\<close>, unless a panic came before
  the start.
\<close>

fun before_start :: "action \<Rightarrow> bool" where
  "before_start (Saved _) = True"
| "before_start (Generated _) = True"
| "before_start _ = False"

definition ran_log :: "(action list \<Rightarrow> bool) \<Rightarrow> action list \<Rightarrow> bool" where
  "ran_log E l \<longleftrightarrow> (\<exists>pre t run l'. list_all before_start pre \<and> l = pre @ Emit (RunStarted t run []) # l' \<and> E l')"

definition crash_end :: "action list \<Rightarrow> bool" where
  "crash_end l \<longleftrightarrow> (\<exists>pre m. list_all before_start pre \<and> l = pre @ [Crashed m])"

definition run_shape :: "(action list \<Rightarrow> bool) \<Rightarrow> (error + unit) option \<Rightarrow> action list \<Rightarrow> bool" where
  "run_shape E x l \<longleftrightarrow>
     (case x of
        Some (Inl _) \<Rightarrow> list_all before_start l
      | Some (Inr _) \<Rightarrow> ran_log E l
      | None \<Rightarrow> ran_log E l \<or> crash_end l)"

lemma ran_log_prepend:
  assumes "list_all before_start l" "ran_log E l'"
  shows "ran_log E (l @ l')"
proof -
  obtain pre t run l2 where "list_all before_start pre" "l' = pre @ Emit (RunStarted t run []) # l2" "E l2"
    using assms(2) by (auto simp: ran_log_def)
  then have "list_all before_start (l @ pre) \<and> l @ l' = (l @ pre) @ Emit (RunStarted t run []) # l2 \<and> E l2"
    using assms(1) by simp
  then show ?thesis unfolding ran_log_def by blast
qed

lemma crash_end_prepend: "list_all before_start l \<Longrightarrow> crash_end l' \<Longrightarrow> crash_end (l @ l')"
  unfolding crash_end_def by (metis append.assoc list_all_append)

lemma run_shape_prepend: "list_all before_start l \<Longrightarrow> run_shape E y l' \<Longrightarrow> run_shape E y (l @ l')"
  by (auto simp: run_shape_def ran_log_prepend crash_end_prepend split: option.splits sum.splits)

lemma saves_compose: "composes (list_all before_start) crash_end"
  by (simp add: composes_def crash_end_prepend)

lemma crash_end_one: "crash_end [Crashed m]"
  unfolding crash_end_def by (rule exI [of _ "[]"]) simp

abbreviation opens :: "('a \<Rightarrow> bool) \<Rightarrow> ('w, 'a) proc \<Rightarrow> bool" where
  "opens V \<equiv> yields V (list_all before_start) crash_end"

lemma opens_attempt: "opens (\<lambda>_. True) (attempt m)"
  by (rule yields_attempt) (simp_all add: saves_compose crash_end_one)

lemma opens_message: "opens (\<lambda>_. True) (new_message h role content calls)"
  unfolding new_message_def
  by (intro yields_pseq [OF saves_compose, where V = "\<lambda>_. True"]) (simp_all add: yields_basic saves_compose)

lemma opens_save: "opens (\<lambda>_. True) (save_or_refuse a what sess)"
  unfolding save_or_refuse_def
  by (rule yields_pseq [OF saves_compose opens_attempt])
    (auto simp: yields_basic saves_compose split: sum.split intro!: yields_pseq [OF saves_compose, where V = "\<lambda>_. True"])

lemma opens_compact: "opens (\<lambda>_. True) (compact_session h a p sess)"
  unfolding compact_session_def
  by (auto simp: yields_basic saves_compose opens_save split: sum.split
      intro!: yields_pseq [OF saves_compose opens_attempt] yields_pseq [OF saves_compose, where V = "\<lambda>_. True"])

lemma opens_load: "opens (\<lambda>x. case x of Inl _ \<Rightarrow> True | Inr (p, _) \<Rightarrow> ag_Provider a = Some p) (load_session a sid enc)"
  unfolding load_session_def refuse_def
  by (auto simp: yields_basic saves_compose split: sum.split option.split intro!: yields_pseq [OF saves_compose opens_attempt])

lemma opens_then:
  assumes "opens V m" "\<And>x. V x \<Longrightarrow> adds (run_shape E) (k x)"
  shows "adds (run_shape E) (pseq m k)"
proof (rule addsI)
  fix r y t
  assume "pseq m k r = (y, t)"
  then show "\<exists>l. r_log t = r_log r @ l \<and> run_shape E y l"
  proof (cases rule: pseq_cases)
    case stop
    then show ?thesis using yieldsD [OF assms(1) stop(1)] by (auto simp: run_shape_def)
  next
    case (go x s)
    then obtain l where l: "r_log s = r_log r @ l" "list_all before_start l" "V x" using yieldsD [OF assms(1) go(1)] by auto
    obtain l' where l': "r_log t = r_log s @ l'" "run_shape E y l'"
      using addsD [OF assms(2) [OF l(3)] go(2)] by auto
    show ?thesis by (intro exI [of _ "l @ l'"]) (simp add: l(1) l'(1) run_shape_prepend [OF l(2) l'(2)])
  qed
qed

text \<open>A run that has started.\<close>

definition started_log :: "(action list \<Rightarrow> bool) \<Rightarrow> 'a option \<Rightarrow> action list \<Rightarrow> bool" where
  "started_log E x l \<longleftrightarrow> (\<exists>t run l'. l = Emit (RunStarted t run []) # l' \<and> E l')"

lemma started_ran: "started_log E x l \<Longrightarrow> ran_log E l"
  unfolding started_log_def ran_log_def by (metis append_Nil list.pred_inject(1))

lemma started_shape: "adds (started_log E) m \<Longrightarrow> adds (run_shape E) (pseq m (\<lambda>_. pret (Inr ())))"
  by (rule adds_pseq [where Q = "\<lambda>_ y l. y = Some (Inr ()) \<and> l = []" and P = "started_log E"])
    (auto simp: run_shape_def dest: started_ran intro!: adds_basic)

lemma started_begin:
  assumes "\<And>run. adds (\<lambda>_. E) (k run)"
  shows "adds (started_log E) (pseq (draw (generateID h)) (\<lambda>run. pseq (emit (RunStarted t run [])) (\<lambda>_. k run)))"
  using assms unfolding adds_def started_log_def
  by (force simp: proc_defs split: prod.splits)

lemma refused_shape: "adds (run_shape E) (pret (Inl e))" "adds (run_shape E) (refuse m)"
  by (auto simp: refuse_def run_shape_def intro!: adds_basic)

lemma opens_then_ok:
  assumes "opens (\<lambda>x. case x of Inl _ \<Rightarrow> True | Inr y \<Rightarrow> V y) m" "\<And>y. V y \<Longrightarrow> adds (run_shape E) (k y)"
  shows "adds (run_shape E) (pseq_ok m k)"
  unfolding pseq_ok_def
  by (rule opens_then [OF assms(1)]) (auto simp: assms(2) refused_shape split: sum.split)

lemma opens_any: "opens (\<lambda>_. True) m \<Longrightarrow> opens (\<lambda>x. case x of Inl _ \<Rightarrow> True | Inr _ \<Rightarrow> True) m"
  by (erule yields_weaken) (simp split: sum.split)

lemma RunWithSession_shape:
  assumes "\<And>p thread run sess msgs. ag_Provider a = Some p \<Longrightarrow>
    adds (\<lambda>_. E) (continueAgenticLoop h mk a p (max_iterations a) thread run sess msgs)"
  shows "adds (run_shape E) (RunWithSession h mk a sid input enc)"
  unfolding RunWithSession_def case_prod_unfold
proof (rule opens_then_ok [OF opens_load [unfolded case_prod_unfold]])
  fix y :: "'a provider \<times> session"
  assume p: "ag_Provider a = Some (fst y)"
  have "adds (run_shape E) (pseq (session_run h mk a (fst y) sess) (\<lambda>_. pret (Inr ())))" for sess
    unfolding session_run_def by (rule started_shape, rule started_begin, rule assms [OF p])
  then show "adds (run_shape E) (pseq (new_message h ''user'' input []) (\<lambda>m.
     pseq_ok (save_or_refuse a ''agent: persist user message'' (add_message m (snd y))) (\<lambda>sess1.
     pseq_ok (compact_session h a (fst y) sess1) (\<lambda>sess2.
     pseq (session_run h mk a (fst y) sess2) (\<lambda>_. pret (Inr ()))))))"
    by (intro opens_then [OF opens_message] opens_then_ok [OF opens_any [OF opens_save]]
        opens_then_ok [OF opens_any [OF opens_compact]])
qed

lemma Resume_shape:
  assumes "\<And>p sess idx inputs. ag_Provider a = Some p \<Longrightarrow> adds (started_log E) (resumed_run h mk a p sess idx inputs)"
  shows "adds (run_shape E) (Resume h mk a sid inputs enc)"
  unfolding Resume_def case_prod_unfold
proof (rule opens_then_ok [OF opens_load [unfolded case_prod_unfold]])
  fix y :: "'a provider \<times> session"
  assume p: "ag_Provider a = Some (fst y)"
  show "adds (run_shape E) (if sess_open_interrupts (snd y) = [] then refuse (''agent: session '' @ quote sid @ '' has no open interrupts'')
     else case validate_inputs (sess_open_interrupts (snd y)) inputs of
       Some e \<Rightarrow> pret (Inl e)
     | None \<Rightarrow>
         (case find_paused (sess_open_interrupts (snd y)) (sess_messages (snd y)) (length (sess_messages (snd y))) of
            None \<Rightarrow> refuse (''agent: session '' @ quote sid @ '' has open interrupts but no paused tool-call batch'')
          | Some idx \<Rightarrow>
              pseq (resumed_run h mk a (fst y) (snd y) idx (inputByToolCallID (sess_open_interrupts (snd y)) inputs)) (\<lambda>_.
              pret (Inr ()))))"
    by (auto simp: refused_shape split: option.split intro!: started_shape assms [OF p])
qed

section \<open>The batch resumed\<close>

locale resume_log = run_log +
  assumes reran: "D [Ran n i args]"
    and reresult: "D [Emit (ToolResultEv i r)]"
begin

lemma resolved: "yields (\<lambda>_. True) D E (resolveToolCall reg inputs tc)"
proof -
  have "yields (\<lambda>_. True) D E (executeTool reg tc)"
    unfolding executeTool_def start_tool_def
    by (auto simp: basic reran split: option.split sum.split intro!: piece [where V = "\<lambda>_. True"] tried)
  then show ?thesis
    unfolding resolveToolCall_def by (auto simp: basic split: option.split bool.split sum.split)
qed

lemma saved_paused: "yields (\<lambda>_. True) D E (save_paused a what z)"
  unfolding save_paused_def by (rule piece [OF save_any]) (auto simp: basic)

lemma one_call: "yields (\<lambda>_. True) D E (resume_call a reg inputs idx i tc z)"
  unfolding resume_call_def
  by (auto simp: basic reresult intro!: piece [OF saved_paused] piece [OF resolved] piece [where V = "\<lambda>_. True"])

lemma all_calls: "yields (\<lambda>_. True) D E (resume_calls a reg inputs idx i tcs z msgs)"
  by (induction tcs arbitrary: i z msgs) (auto simp: basic intro!: piece [OF one_call])

lemma cleared: "yields (\<lambda>_. True) D E (clear_interrupts a sess)"
  unfolding clear_interrupts_def by (auto simp: basic intro!: piece [OF save_any])

end

locale resume_loop = loop_log + resume_log
begin

lemma resumed:
  assumes "ag_Provider a = Some p"
  shows "adds (started_log E) (resumed_run h mk a p sess idx inputs)"
  unfolding resumed_run_def
  by (rule started_begin)
    (auto intro!: ends_pseq [OF closed registry] ends_pseq [OF closed all_calls] ends_pseq [OF closed cleared] loop assms)

end

end
