(* ===== verification/Run_Props.thy ===== *)
theory Run_Props
  imports Run_Loop
begin

text \<open>
  The log properties of a run, each an interpretation of the loop's locales: how a run ends, which
  tools it starts, what is saved before it is reported, how often the provider is asked and how
  the text events nest.
\<close>

section \<open>How a run ends\<close>

text \<open>
  What may come before the end of a run: an error event only with an error of one of the hooks
  (\<open>H\<close>), whose errors are reported and do not end the run.
\<close>

fun inner :: "(error \<Rightarrow> bool) \<Rightarrow> action \<Rightarrow> bool" where
  "inner H (Emit (RunStarted _ _ _)) = False"
| "inner H (Emit (RunFinished _ _ _ _ _)) = False"
| "inner H (Emit (ErrorEv e)) = (case e of None \<Rightarrow> False | Some x \<Rightarrow> H x)"
| "inner H (Crashed _) = False"
| "inner H _ = True"

fun terminal :: "action \<Rightarrow> bool" where
  "terminal (Emit (RunFinished _ _ _ _ _)) = True"
| "terminal (Emit (ErrorEv _)) = True"
| "terminal (Crashed _) = True"
| "terminal _ = False"

definition one_end :: "(error \<Rightarrow> bool) \<Rightarrow> action list \<Rightarrow> bool" where
  "one_end H l \<longleftrightarrow> (\<exists>l' x. l = l' @ [x] \<and> list_all (inner H) l' \<and> terminal x)"

lemma one_end_last: "list_all (inner H) l \<Longrightarrow> terminal x \<Longrightarrow> one_end H (l @ [x])"
  unfolding one_end_def by blast

lemma one_end_compose: "composes (list_all (inner H)) (one_end H)"
  unfolding composes_def one_end_def by simp (metis append.assoc list_all_append)

lemma inner_events [simp]:
  "plain_event ev \<Longrightarrow> inner H (Emit ev)" "text_event ev \<Longrightarrow> inner H (Emit ev)"
  by (cases ev; simp)+

interpretation life_events: event_log a "list_all (inner (hook_error a))" "one_end (hook_error a)" for a
  by unfold_locales
    (auto simp: one_end_compose intro: one_end_last [where l = "[]", simplified] one_end_last [where l = "[_]", simplified])

interpretation life: resume_loop a "list_all (inner (hook_error a))" "one_end (hook_error a)" for a
  by unfold_locales
    (auto intro: one_end_last [where l = "[]", simplified] one_end_last [where l = "[_]", simplified] life_events.received)

section \<open>Which tools a run starts\<close>

fun obeys :: "'w agent \<Rightarrow> action \<Rightarrow> bool" where
  "obeys a (Ran n i args) = (\<not> policy_gates a n args)"
| "obeys a _ = True"

interpretation policy_events: event_log a "list_all (obeys a)" "list_all (obeys a)" for a
  by unfold_locales auto

interpretation policy: loop_log a "list_all (obeys a)" "list_all (obeys a)" for a
  by unfold_locales (auto intro: policy_events.received)

section \<open>What is saved before it is reported\<close>

text \<open>Every tool result comes right after a save of the session that has it.\<close>

fun saved_first :: "session option \<Rightarrow> action list \<Rightarrow> bool" where
  "saved_first before [] = True"
| "saved_first before (Saved s # l) = saved_first (Some s) l"
| "saved_first before (Emit (ToolResultEv i r) # l) =
     ((case before of None \<Rightarrow> False | Some s \<Rightarrow> recorded s i r) \<and> saved_first None l)"
| "saved_first before (x # l) = saved_first None l"

abbreviation results_saved :: "action list \<Rightarrow> bool" where
  "results_saved \<equiv> saved_first None"

lemma saved_first_more: "saved_first None l \<Longrightarrow> saved_first before l"
  by (cases "(before, l)" rule: saved_first.cases) auto

lemma results_saved_append: "saved_first before l \<Longrightarrow> saved_first None l' \<Longrightarrow> saved_first before (l @ l')"
  by (induction before l rule: saved_first.induct) (auto simp: saved_first_more)

definition durable :: "'w agent \<Rightarrow> action list \<Rightarrow> bool" where
  "durable a l \<longleftrightarrow> (content_kept a \<and> \<not> brings_results a \<longrightarrow> results_saved l)"

lemma durable_compose: "composes (durable a) (durable a)"
  by (simp add: composes_def durable_def results_saved_append)

lemma results_saved_event [simp]:
  "plain_event ev \<Longrightarrow> results_saved [Emit ev]" "text_event ev \<Longrightarrow> results_saved [Emit ev]"
  by (cases ev; simp)+

interpretation durable_events: event_log a "durable a" "durable a" for a
  by unfold_locales (simp_all add: durable_compose durable_def)

interpretation durable: loop_log a "durable a" "durable a" for a
  by unfold_locales (auto simp: durable_def intro: durable_events.received)

text \<open>A run that ends with interrupts has saved them with the session.\<close>

definition interrupts_saved :: "'w agent \<Rightarrow> action list \<Rightarrow> bool" where
  "interrupts_saved a l \<longleftrightarrow> (\<forall>l' t run ins v. l = l' @ [Emit (RunFinished t run OutcomeInterrupt ins v)] \<longrightarrow>
     ins \<noteq> [] \<and> (content_kept a \<longrightarrow> (\<exists>pre s. l' = pre @ [Saved s] \<and> sess_open_interrupts s = interruptsToMetadata ins)))"

lemma interrupts_saved_compose: "composes (list_all (inner H)) (interrupts_saved a)"
  unfolding composes_def
proof (intro conjI allI impI)
  fix l l'
  assume l: "list_all (inner H) l" "interrupts_saved a l'"
  show "interrupts_saved a (l @ l')"
  proof (cases l' rule: rev_cases)
    case Nil
    have "l \<noteq> m @ [Emit (RunFinished t run OutcomeInterrupt ins v)]" for m t run ins v using l(1) by auto
    then show ?thesis by (simp add: Nil interrupts_saved_def)
  next
    case (snoc m x)
    then show ?thesis using l(2) by (auto simp: interrupts_saved_def)
  qed
qed auto

interpretation pause_events: event_log a "list_all (inner (hook_error a))" "interrupts_saved a" for a
  by unfold_locales (auto simp: interrupts_saved_compose interrupts_saved_def)

interpretation pause: resume_loop a "list_all (inner (hook_error a))" "interrupts_saved a" for a
  by unfold_locales (auto simp: interrupts_saved_def intro: pause_events.received)

section \<open>How often the provider is asked\<close>

fun is_asked :: "action \<Rightarrow> bool" where
  "is_asked (Asked _) = True"
| "is_asked _ = False"

abbreviation quiet :: "action list \<Rightarrow> bool" where
  "quiet \<equiv> list_all (\<lambda>x. \<not> is_asked x)"

interpretation quiet_events: event_log a quiet quiet for a
  by unfold_locales auto

interpretation quiet_run: resume_log a quiet quiet for a
  by unfold_locales auto

definition asks :: "nat \<Rightarrow> ('w, 'a) proc \<Rightarrow> bool" where
  "asks n m \<longleftrightarrow> adds (\<lambda>_ l. length (filter is_asked l) \<le> n) m"

lemma asks_quiet: "yields V quiet quiet m \<Longrightarrow> asks n m"
  unfolding asks_def yields_def
  by (erule adds_mono) (auto simp: list_all_iff filter_empty_conv [THEN iffD2] split: option.splits)

lemma asks_pseq: "asks m p \<Longrightarrow> (\<And>x. asks n (k x)) \<Longrightarrow> asks (m + n) (pseq p k)"
  unfolding asks_def by (rule adds_pseq [where P = "\<lambda>_ l. length (filter is_asked l) \<le> m" and Q = "\<lambda>_ _ l. length (filter is_asked l) \<le> n"]) auto

lemma asks_iteration:
  assumes "ag_Provider a = Some p"
  shows "asks 1 (iteration h mk a p thread run sess msgs)"
proof -
  have "asks (1 + 0) (ask h a p req)" for req
    unfolding ask_def
    by (rule asks_pseq) (simp_all add: asks_quiet [OF quiet_events.received] assms, simp add: asks_def adds_basic)
  then have one: "asks 1 (ask h a p req)" for req by simp
  have none: "asks 0 (pret x)" for x by (simp add: asks_def adds_basic)
  have "asks (0 + (0 + (1 + 0))) (iteration h mk a p thread run sess msgs)"
    unfolding iteration_def case_prod_unfold
    by (intro asks_pseq asks_quiet [OF quiet_events.stop_on_ctx] asks_quiet [OF quiet_events.registry] one)
      (auto intro!: asks_pseq [of 0 _ 0, simplified] asks_quiet [OF quiet_events.save_answer] asks_quiet [OF quiet_run.batch] none)
  then show ?thesis by simp
qed

lemma asks_loop: "ag_Provider a = Some p \<Longrightarrow> asks n (continueAgenticLoop h mk a p n thread run sess msgs)"
proof (induction n arbitrary: sess msgs)
  case (Suc n)
  have "asks (1 + n) (continueAgenticLoop h mk a p (Suc n) thread run sess msgs)"
    unfolding continueAgenticLoop.simps
    by (intro asks_pseq asks_iteration [OF Suc.prems]) (auto simp: asks_def Suc.prems intro!: adds_basic Suc.IH [unfolded asks_def] split: option.split)
  then show ?case by simp
qed (simp add: asks_def adds_basic)

end
