(* ===== verification/Run_Text.thy ===== *)
theory Run_Text
  imports Run_Loop
begin

text \<open>
  How the text events of a run nest: an automaton over the log whose state is the id of the open
  text, and the interpretation of the loop's locales on it.
\<close>

section \<open>The automaton\<close>

fun text_step :: "string option \<Rightarrow> action \<Rightarrow> string option option" where
  "text_step None (Emit (TextStart i _)) = Some (Some i)"
| "text_step (Some _) (Emit (TextStart _ _)) = None"
| "text_step None (Emit (TextDelta _ _)) = None"
| "text_step None (Emit (TextEnd _)) = None"
| "text_step (Some i) (Emit (TextEnd j)) = (if i = j then Some None else None)"
| "text_step (Some i) (Emit (RunFinished _ _ _ _ _)) = None"
| "text_step st _ = Some st"

fun text_run :: "string option \<Rightarrow> action list \<Rightarrow> string option option" where
  "text_run st [] = Some st"
| "text_run st (x # l) = (case text_step st x of None \<Rightarrow> None | Some st' \<Rightarrow> text_run st' l)"

lemma text_run_append: "text_run st (l @ l') = (case text_run st l of None \<Rightarrow> None | Some st' \<Rightarrow> text_run st' l')"
  by (induction l arbitrary: st) (auto split: option.split)

text \<open>Text nests well: every delta and every end inside an open text, no text left open at the end of a run.\<close>

definition text_ok :: "string option \<Rightarrow> action list \<Rightarrow> bool" where
  "text_ok st l \<longleftrightarrow> text_run st l \<noteq> None"

definition text_at :: "string option \<Rightarrow> action list \<Rightarrow> bool" where
  "text_at st l \<longleftrightarrow> text_run st l = Some st"

lemma text_compose: "composes (text_at st) (text_ok st)"
  by (auto simp: composes_def text_at_def text_ok_def text_run_append)

lemma text_step_plain [simp]:
  "plain_event ev \<Longrightarrow> text_step st (Emit ev) = Some st" "text_step st (Saved s) = Some st"
  "text_step st (Crashed m) = Some st" "text_step st (Asked q) = Some st" "text_step st (Generated q) = Some st" "text_step st (Ran n i r) = Some st"
  "text_step st (Emit (ToolResultEv i r)) = Some st" "text_step st (Emit (ErrorEv e)) = Some st"
  "text_step st (Emit (RunStarted t u [])) = Some st"
  by (cases st; cases ev; simp)+

interpretation texts_open: log_basics a "text_at st" "text_ok st" for a st
  by unfold_locales (auto simp: text_compose, auto simp: text_at_def text_ok_def)

section \<open>Pieces that move the automaton\<close>

definition moves :: "string option \<Rightarrow> ('a \<Rightarrow> bool) \<Rightarrow> ('a \<Rightarrow> string option) \<Rightarrow> ('w, 'a) proc \<Rightarrow> bool" where
  "moves st V f m \<longleftrightarrow> adds (\<lambda>x l. case x of None \<Rightarrow> text_ok st l | Some y \<Rightarrow> text_run st l = Some (f y) \<and> V y) m"

lemma moves_pseq:
  assumes "moves st V f m" "\<And>x. V x \<Longrightarrow> moves (f x) V' g (k x)"
  shows "moves st V' g (pseq m k)"
  unfolding moves_def
proof (rule addsI)
  fix r y t
  assume "pseq m k r = (y, t)"
  then show "\<exists>l. r_log t = r_log r @ l \<and> (case y of None \<Rightarrow> text_ok st l | Some z \<Rightarrow> text_run st l = Some (g z) \<and> V' z)"
  proof (cases rule: pseq_cases)
    case stop
    then show ?thesis using addsD [OF assms(1) [unfolded moves_def] stop(1)] by auto
  next
    case (go x s)
    then obtain l where l: "r_log s = r_log r @ l" "text_run st l = Some (f x)" "V x"
      using addsD [OF assms(1) [unfolded moves_def] go(1)] by auto
    obtain l' where l': "r_log t = r_log s @ l'"
      "case y of None \<Rightarrow> text_ok (f x) l' | Some z \<Rightarrow> text_run (f x) l' = Some (g z) \<and> V' z"
      using addsD [OF assms(2) [OF l(3), unfolded moves_def] go(2)] by auto
    show ?thesis
      by (rule exI [of _ "l @ l'"]) (use l l' in \<open>auto simp: text_ok_def text_run_append split: option.splits\<close>)
  qed
qed

lemma moves_yields: "moves st V (\<lambda>_. st) m \<longleftrightarrow> yields V (text_at st) (text_ok st) m"
  by (simp add: moves_def yields_def text_at_def cong: option.case_cong)

lemma moves_pret: "V x \<Longrightarrow> f x = st \<Longrightarrow> moves st V f (pret x)"
  by (auto simp: moves_def intro!: adds_basic)

lemma moves_emit: "text_step st (Emit ev) = Some (f ()) \<Longrightarrow> moves st (\<lambda>_. True) f (emit ev)"
  by (auto simp: moves_def intro!: adds_basic)

lemma moves_stay: "yields V (text_at st) (text_ok st) m \<Longrightarrow> (\<And>x. V x \<Longrightarrow> moves st V' g (k x)) \<Longrightarrow> moves st V' g (pseq m k)"
  by (rule moves_pseq [where f = "\<lambda>_. st" and V = V]) (simp_all add: moves_yields)

lemma moves_hooked: "text_step st (Emit ev) = Some (f ()) \<Longrightarrow> moves st (\<lambda>_. True) f (emit_hooked a ev)"
  unfolding emit_hooked_def
  by (rule moves_stay [OF yields_run_hooks [OF text_compose]])
    (auto simp: text_at_def moves_emit)

lemma moves_draw: "moves st (\<lambda>_. True) (\<lambda>_. st) (draw g)"
  by (simp add: moves_yields yields_basic text_compose)

lemma moves_fail: "moves st V f (fail_run e)"
  by (auto simp: moves_def text_ok_def intro!: adds_basic)

section \<open>The stream\<close>

lemma moves_start: "moves (an_text_id an) (\<lambda>x. an_text_id x \<noteq> None) an_text_id (start_text h a an)"
proof (cases "an_text_id an")
  case None
  have s: "moves None (\<lambda>_. True) (\<lambda>_. Some i) (emit_hooked a (TextStart i ''assistant''))" for i
    by (rule moves_hooked) simp
  show ?thesis
    unfolding start_text_def None option.case
    by (rule moves_pseq [OF moves_draw], rule moves_pseq [OF s]) (auto intro: moves_pret)
qed (auto simp: start_text_def intro: moves_pret)

text \<open>A delta comes with its text open.\<close>

definition delta_open :: "pevent \<Rightarrow> answer \<Rightarrow> bool" where
  "delta_open ev an \<longleftrightarrow> (case ev of PTextDelta _ \<Rightarrow> an_text_id an \<noteq> None | _ \<Rightarrow> True)"

lemma moves_gather: "moves (an_text_id an) (delta_open ev) an_text_id (gather h a ev an)"
  by (cases ev) (auto simp: delta_open_def intro!: moves_pseq [OF moves_start] moves_pret)

lemma moves_converted:
  assumes "delta_open ev an"
  shows "moves (an_text_id an) (\<lambda>_. True) (\<lambda>_. an_text_id an)
    (case convertEvent ev of None \<Rightarrow> pret () | Some x \<Rightarrow> emit_hooked a x)"
  using assms by (cases ev) (auto simp: delta_open_def intro!: moves_hooked moves_pret)

lemma moves_stream: "moves (an_text_id an) (\<lambda>_. True) an_text_id (stream_loop h a es an)"
proof (induction es arbitrary: an)
  case (Cons ev es)
  have "moves (an_text_id an) (\<lambda>_. True) an_text_id (pseq (gather h a ev an) (\<lambda>an1.
     pseq (case convertEvent ev of None \<Rightarrow> pret () | Some x \<Rightarrow> emit_hooked a x) (\<lambda>_. stream_loop h a es an1)))"
    by (rule moves_pseq [OF moves_gather], rule moves_pseq [OF moves_converted], assumption, rule Cons)
  moreover have "moves (an_text_id an) (\<lambda>_. True) an_text_id (stream_loop h a es (an\<lparr>an_error := e\<rparr>))" for e
    using Cons [of "an\<lparr>an_error := e\<rparr>"] by simp
  ultimately show ?case by (cases ev) (simp_all del: gather.simps convertEvent.simps)
qed (auto intro: moves_pret)

lemma split_failed:
  "moves st V f (k ()) \<Longrightarrow> moves st V f (case e of Some x \<Rightarrow> fail_run x | None \<Rightarrow> k ())"
  by (simp add: moves_fail split: option.split)

lemma text_received: "yields (\<lambda>_. True) (text_at None) (text_ok None) (receive h a p req)"
proof -
  have last: "moves (an_text_id an) (\<lambda>_. True) (\<lambda>_. None)
     (pseq (case an_text_id an of None \<Rightarrow> pret () | Some i \<Rightarrow> emit_hooked a (TextEnd i)) (\<lambda>_. pret an))" for an
    by (cases "an_text_id an")
      (auto intro!: moves_pret moves_hooked moves_pseq [where f = "\<lambda>_. None" and V = "\<lambda>_. True"])
  have s: "moves None (\<lambda>_. True) an_text_id (stream_loop h a es no_answer)" for es
    using moves_stream [of no_answer h a es] by (simp add: no_answer_def)
  have "moves None (\<lambda>_. True) (\<lambda>_. None) (receive h a p req)"
    unfolding receive_def
    by (rule moves_stay [OF texts_open.tried])
      (auto split: sum.split option.split_asm simp: moves_fail
        intro!: moves_pseq [OF s] split_failed moves_stay [OF texts_open.stop_on_ctx] last)
  then show ?thesis by (simp add: moves_yields)
qed

interpretation text_loop: resume_loop a "text_at None" "text_ok None" for a
  by unfold_locales (auto simp: text_received, auto simp: text_at_def text_ok_def)

section \<open>The run without a session\<close>

lemma moves_relay: "moves st (\<lambda>_. True) (\<lambda>x. x) (relay h a es st)"
proof (induction es arbitrary: st)
  case (Cons ev es)
  have s: "moves st (\<lambda>x. (\<exists>d. ev = PTextDelta d) \<longrightarrow> x \<noteq> None) (\<lambda>x. x) (relay_start h ev st)"
    unfolding relay_start_def
    by (auto split: pevent.splits intro!: moves_pret moves_pseq [OF moves_draw] moves_pseq [OF moves_emit])
  have e: "moves x (\<lambda>_. True) (\<lambda>_. x) (relay_event a ev)" if "(\<exists>d. ev = PTextDelta d) \<longrightarrow> x \<noteq> None" for x
    using that
    by (cases ev) (auto intro!: moves_hooked moves_pret moves_pseq [where f = "\<lambda>_. x" and V = "\<lambda>_. True"])
  show ?case unfolding relay.simps by (rule moves_pseq [OF s], rule moves_pseq [OF e], assumption, rule Cons)
qed (auto intro: moves_pret)

end
