(* ===== verification/Agent_Spec.thy ===== *)
theory Agent_Spec
  imports Run_Props Run_Text
begin

text \<open>
  What the runs of an agent promise, for every provider, store, hook, policy and tool: how a run
  ends, which tools it starts, what is stored before it is reported, how often the provider is
  asked and how the text of an answer is framed. Witnesses run a small agent whose world is the
  one session it stores.
\<close>

definition log_of :: "('w, 'a) proc \<Rightarrow> 'w \<Rightarrow> action list" where
  "log_of m w = r_log (snd (m \<lparr>r_world = w, r_log = []\<rparr>))"

definition value_of :: "('w, 'a) proc \<Rightarrow> 'w \<Rightarrow> 'a option" where
  "value_of m w = fst (m \<lparr>r_world = w, r_log = []\<rparr>)"

lemma adds_log_of: "adds P m \<Longrightarrow> P (value_of m w) (log_of m w)"
  unfolding adds_def log_of_def value_of_def by (metis append_Nil prod.collapse run.select_convs(2))

lemma yields_log_of: "yields V D D m \<Longrightarrow> D (log_of m w)"
  unfolding yields_def by (drule adds_log_of [where w = w]) (simp split: option.splits)

text \<open>A property that saves, requests for a summary and the start of a run keep holds of the whole log.\<close>

lemma run_shape_all:
  assumes "run_shape (list_all P) x l" "\<And>s. P (Saved s)" "\<And>q. P (Generated q)" "\<And>t u. P (Emit (RunStarted t u []))" "\<And>m. P (Crashed m)"
  shows "list_all P l"
proof -
  have s: "list_all P pre" if "list_all before_start pre" for pre
    using that assms(2,3) by (auto simp: list_all_iff elim!: before_start.elims)
  show ?thesis
    using assms(1,4,5) s by (auto simp: run_shape_def ran_log_def crash_end_def split: option.splits sum.splits)
qed

section \<open>A small agent\<close>

definition demo_host :: "session host" where
  "demo_host = \<lparr>clock = (\<lambda>w. (5000000, w)), rand_bytes = (\<lambda>n w. (Some (replicate n (CHR 0x00)), w)),
     ctx_err = (\<lambda>w. (None, w)), bad_request = (\<lambda>_. None),
     http_post = (\<lambda>_ _ _. act_fail (ErrMsg ''no network'')), run_command = (\<lambda>_ _ w. (([], None), w))\<rparr>"

definition demo_fail :: "(session, 'a) act" where
  "demo_fail = act_fail (ErrMsg ''not found'')"

text \<open>\<open>fresh\<close>: whether UpdateSession gives the session new messages.\<close>

definition demo_store :: "bool \<Rightarrow> session meta_store" where
  "demo_store fresh =
     \<lparr>st_CreateSession = (\<lambda>_ _. demo_fail), st_GetSession = (\<lambda>_ w. (Inr (Some w), w)),
      st_ListSessions = (\<lambda>_ w. (([w], None), w)), st_ListSessionsByUser = (\<lambda>_ _ w. (([w], None), w)),
      st_UpdateSession = (\<lambda>s w. (let s1 = s\<lparr>sess_revision := sess_revision s + 1\<rparr> in (Inr (s1, fresh), s1))),
      st_DeleteSession = (\<lambda>_. demo_fail), st_ListTools = (\<lambda>_. act_ret []), st_SaveSkill = (\<lambda>_. demo_fail),
      st_GetSkill = (\<lambda>_. demo_fail), st_ListSkills = act_ret [], st_DeleteSkill = (\<lambda>_. demo_fail),
      st_SaveMCPServer = (\<lambda>_. demo_fail), st_GetMCPServer = (\<lambda>_. demo_fail), st_ListMCPServers = (\<lambda>_. act_ret []),
      st_DeleteMCPServer = (\<lambda>_. demo_fail)\<rparr>"

definition demo_call :: ptool_call where
  "demo_call = \<lparr>pt_id = ''c1'', pt_name = ''del'', pt_arguments = ''{}'', pt_thought = []\<rparr>"

definition demo_provider :: "session provider" where
  "demo_provider = \<lparr>pv_Model = ''m'', pv_Stream = (\<lambda>_. act_ret [PToolCall demo_call, PDone]),
     pv_Generate = (\<lambda>_. demo_fail)\<rparr>"

definition demo_agent :: "session agent" where
  "demo_agent = (bare_agent ''a'')\<lparr>ag_Provider := Some demo_provider, ag_Store := Some (demo_store False),
     ag_maxIterations := 1, ag_approvalPolicy := Some RequireAll\<rparr>"

definition demo_session :: session where
  "demo_session = 
     \<lparr>sess_id = ''s'', sess_agent_id = ''a'', sess_user_id = [], sess_parent_session_id = [], sess_messages = [],
      sess_state = [], sess_open_interrupts = [], sess_revision = 0, sess_created_at = 0, sess_updated_at = 0\<rparr>"

definition demo_mk :: "session new_transport" where
  "demo_mk _ _ _ = \<lparr>tp_Send = (\<lambda>_ _. demo_fail), tp_Notify = (\<lambda>_ _. demo_fail), tp_Close = demo_fail\<rparr>"

lemma demo_content_kept: "content_kept demo_agent"
  by (auto simp: content_kept_def persistSession_def demo_agent_def demo_store_def bare_agent_def Let_def)

lemma demo_brings_nothing: "\<not> brings_results demo_agent"
  by (auto simp: brings_results_def demo_agent_def bare_agent_def demo_provider_def act_ret_def)

lemma demo_policy: "policy_gates demo_agent n args"
  by (simp add: policy_gates_def demo_agent_def bare_agent_def RequireAll_def)

lemmas demo_run_defs = log_of_def RunWithSession_def load_session_def refuse_def pseq_ok_def new_message_def
  save_or_refuse_def compact_session_def shouldCompact_def session_run_def max_iterations_def iteration_def
  stop_on_ctx_def registry_or_static_def buildMergedRegistry_def skill_part_def persisted_part_def mcp_part_def
  ask_def receive_def tool_batch_def raise_interrupts_def save_or_stop_def emit_hooked_def persistSession_def
  proc_defs act_seq_def act_ret_def act_wrap_def act_handle_def act_lift_def

lemmas demo_defs = demo_agent_def demo_host_def demo_store_def demo_provider_def demo_session_def bare_agent_def
  demo_call_def DefaultCompactionConfig_def RequireAll_def

lemma demo_log:
  "\<exists>l run ins. log_of (RunWithSession demo_host demo_mk demo_agent ''s'' ''hi'' (Some ''agui'')) demo_session =
     l @ [Emit (RunFinished ''s'' run OutcomeInterrupt ins None)]"
  by (simp add: demo_run_defs demo_defs generateID_def unix_milli_def NewRegistry_def Register_all_def All_tools_def
    add_message_def map_message_def no_answer_def gate_def Get_tool_def interruptID_def Let_def)

section \<open>The end of a run\<close>

text \<open>
  C1: Whatever the provider, the store, the hooks and the tools do, a run on a session, or a resumed
  one, either is refused (or panics) having done nothing but saves and the request for compaction's
  summary, or goes on from these with RunStarted and ends with RunFinished, an error event or a
  panic, and nothing after it. In between there is no second RunStarted, no RunFinished, and no
  error event but with an error that one of the agent's hooks returned: where no hook fails the
  terminal step is the only one, whatever went wrong.
\<close>

theorem run_ends_once:
  "run_shape (one_end (hook_error a)) (value_of (RunWithSession h mk a sid input enc) w)
     (log_of (RunWithSession h mk a sid input enc) w) \<and>
   run_shape (one_end (hook_error a)) (value_of (Resume h mk a sid inputs enc) w)
     (log_of (Resume h mk a sid inputs enc) w)"
proof
  show "run_shape (one_end (hook_error a)) (value_of (RunWithSession h mk a sid input enc) w)
     (log_of (RunWithSession h mk a sid input enc) w)"
    by (rule adds_log_of, rule RunWithSession_shape, rule life.loop)
  show "run_shape (one_end (hook_error a)) (value_of (Resume h mk a sid inputs enc) w)
     (log_of (Resume h mk a sid inputs enc) w)"
    by (rule adds_log_of, rule Resume_shape, rule life.resumed)
qed

section \<open>Which tools are started\<close>

text \<open>
  C2: A run on a session never starts a tool for a call whose name and arguments the agent's
  approval policy gates.
\<close>

theorem gated_never_runs:
  assumes "policy_gates a n args"
  shows "Ran n i args \<notin> set (log_of (RunWithSession h mk a sid input enc) w)"
proof -
  have "run_shape (list_all (obeys a)) (value_of (RunWithSession h mk a sid input enc) w)
      (log_of (RunWithSession h mk a sid input enc) w)"
    by (rule adds_log_of, rule RunWithSession_shape, rule policy.loop)
  then have "list_all (obeys a) (log_of (RunWithSession h mk a sid input enc) w)"
    by (rule run_shape_all) simp_all
  then show ?thesis using assms by (auto simp: list_all_iff)
qed

theorem gated_never_runs_witness:
  "Ran ''del'' ''c1'' ''{}'' \<notin> set (log_of (RunWithSession demo_host demo_mk demo_agent ''s'' ''hi'' (Some ''agui'')) demo_session)"
  by (rule gated_never_runs [OF demo_policy])

abbreviation no_run :: "action list \<Rightarrow> bool" where
  "no_run \<equiv> list_all (\<lambda>x. case x of Ran _ _ _ \<Rightarrow> False | _ \<Rightarrow> True)"

interpretation idle: log_basics a no_run no_run for a
  by unfold_locales auto

text \<open>
  When any call of a batch must wait for an approval or runs on the client, no tool of the
  whole batch is started.
\<close>

theorem gated_batch_runs_nothing:
  assumes "tc \<in> set (an_calls an)" "gate a reg tc \<noteq> None"
  shows "Ran n i args \<notin> set (log_of (tool_batch h a reg thread run an sess msgs) w)"
proof -
  let ?calls = "an_calls an"
  have ins: "fst (classifyPending h a reg ?calls w1) \<noteq> []" for w1
    using assms classifyPending_none [of h a reg ?calls w1 "snd (classifyPending h a reg ?calls w1)"]
    by (metis prod.collapse)
  have r: "yields (\<lambda>_. True) no_run no_run (raise_interrupts a thread run idx ?calls ins sess1)" for idx ins sess1
    unfolding raise_interrupts_def
    by (auto intro!: idle.piece [OF idle.save_any] simp: idle.basic)
  have "yields (\<lambda>_. True) no_run no_run (tool_batch h a reg thread run an sess msgs)"
    unfolding tool_batch_def Let_def case_prod_unfold
    by (rule idle.piece [OF idle.new_message], rule idle.piece [OF idle.save_any], rule idle.piece [OF idle.args],
        rule idle.piece [where V = "\<lambda>ins. ins \<noteq> []"]) (simp_all add: idle.basic ins r)
  then have "no_run (log_of (tool_batch h a reg thread run an sess msgs) w)" by (rule yields_log_of)
  then show ?thesis by (auto simp: list_all_iff)
qed

definition demo_answer :: answer where
  "demo_answer = no_answer\<lparr>an_calls := [demo_call]\<rparr>"

theorem gated_batch_runs_nothing_witness:
  "Ran ''del'' ''c1'' ''{}'' \<notin> set (log_of (tool_batch demo_host demo_agent [] ''t'' ''r'' demo_answer demo_session []) demo_session)"
proof (rule gated_batch_runs_nothing)
  show "demo_call \<in> set (an_calls demo_answer)" by (simp add: demo_answer_def no_answer_def)
  show "gate demo_agent [] demo_call \<noteq> None"
    by (simp add: gate_def demo_agent_def bare_agent_def RequireAll_def Get_tool_def)
qed

section \<open>What is stored before it is reported\<close>

lemma saved_first_start:
  "list_all before_start pre \<Longrightarrow> saved_first before (pre @ Emit (RunStarted t u []) # l) = saved_first None l"
proof (induction pre arbitrary: before)
  case (Cons x pre)
  then show ?case by (cases x) auto
qed simp


lemma results_saved_run:
  assumes "content_kept a" "\<not> brings_results a"
  shows "results_saved (log_of (RunWithSession h mk a sid input enc) w)"
proof -
  have saves: "saved_first before pre" "saved_first before (pre @ [Crashed m])" if "list_all before_start pre" for before pre m
    using that
  proof (induction pre arbitrary: before)
    case (Cons x pre)
    { case 1 then show ?case using Cons by (cases x) auto
    next
      case 2 then show ?case using Cons by (cases x) auto }
  qed auto
  have "run_shape (durable a) (value_of (RunWithSession h mk a sid input enc) w) (log_of (RunWithSession h mk a sid input enc) w)"
    by (rule adds_log_of, rule RunWithSession_shape, rule durable.loop)
  then show ?thesis
    using assms by (auto simp: run_shape_def ran_log_def crash_end_def durable_def saved_first_start saves
      split: option.splits sum.splits)
qed

text \<open>
  C3: With a store that leaves the session it returns the messages it was given, and a provider
  whose stream brings no tool results of its own (neither provider of the repository does), every
  tool result a run reports was stored immediately before: the action before the event is a save,
  of a session in which a message holds the tool call with that very result and a final status.
\<close>

theorem results_stored_first:
  assumes "content_kept a" "\<not> brings_results a"
  shows "results_saved (log_of (RunWithSession h mk a sid input enc) w)"
  by (rule results_saved_run [OF assms])

text \<open>An agent whose tool runs.\<close>

definition demo_tool :: "session tool" where
  "demo_tool = NewFunctionTool demo_host ''del'' [] JNull
     (\<lambda>_. act_ret \<lparr>tr_data = JNull, tr_status = [], tr_error = [], tr_duration = 0, tr_executed_at = 0, tr_fix = []\<rparr>)"

definition demo_worker :: "session agent" where
  "demo_worker = demo_agent\<lparr>ag_approvalPolicy := None, ag_Tools := Register demo_tool NewRegistry\<rparr>"

lemma demo_worker_facts: "content_kept demo_worker" "\<not> brings_results demo_worker"
  by (auto simp: content_kept_def persistSession_def brings_results_def demo_worker_def demo_agent_def demo_store_def
    bare_agent_def demo_provider_def act_ret_def Let_def)

lemma demo_input: "parse_input ''{}'' = Inr (Some [])"
  by code_simp

lemma demo_worker_reports:
  "\<exists>r. Ran ''del'' ''c1'' ''{}'' \<in> set (log_of (RunWithSession demo_host demo_mk demo_worker ''s'' ''hi'' (Some ''agui'')) demo_session) \<and>
     Emit (ToolResultEv ''c1'' r) \<in> set (log_of (RunWithSession demo_host demo_mk demo_worker ''s'' ''hi'' (Some ''agui'')) demo_session)"
proof -
  have e: "tool_execute demo_tool input w = (Inr \<lparr>tr_data = JNull, tr_status = [], tr_error = [], tr_duration = 0,
      tr_executed_at = 5, tr_fix = []\<rparr>, w)" for input w
    by (simp add: demo_tool_def NewFunctionTool_def Measure_def act_ret_def demo_host_def unix_milli_def millis_since_def)
  have t: "tool_name demo_tool = ''del''" "\<not> tool_client_side demo_tool"
    by (simp_all add: demo_tool_def NewFunctionTool_def)
  show ?thesis
    by (simp add: demo_run_defs demo_defs demo_worker_def t generateID_def unix_milli_def NewRegistry_def Register_all_def All_tools_def
    add_message_def map_message_def no_answer_def gate_def Get_tool_def call_outcome_def start_tool_def demo_input e
      register_persisted_def Register_def map_put.simps providerToolCallsToRecords_def set_result_def Let_def)
qed

theorem results_stored_first_witness:
  "\<exists>r. Ran ''del'' ''c1'' ''{}'' \<in> set (log_of (RunWithSession demo_host demo_mk demo_worker ''s'' ''hi'' (Some ''agui'')) demo_session) \<and>
     Emit (ToolResultEv ''c1'' r) \<in> set (log_of (RunWithSession demo_host demo_mk demo_worker ''s'' ''hi'' (Some ''agui'')) demo_session) \<and>
     results_saved (log_of (RunWithSession demo_host demo_mk demo_worker ''s'' ''hi'' (Some ''agui'')) demo_session)"
  using demo_worker_reports results_stored_first [OF demo_worker_facts, of demo_host demo_mk "''s''" "''hi''" "Some ''agui''" demo_session]
  by fastforce

text \<open>
  C13: A run that ends by asking for a human or the client has stored its interrupts: the step
  before RunFinished is a save whose session lists exactly the interrupts that are sent, at least
  one.
\<close>

theorem interrupts_stored_first:
  assumes "content_kept a"
    and "log_of (RunWithSession h mk a sid input enc) w = l @ [Emit (RunFinished t run OutcomeInterrupt ins v)]"
  shows "ins \<noteq> [] \<and> (\<exists>pre s. l = pre @ [Saved s] \<and> sess_open_interrupts s = interruptsToMetadata ins)"
proof -
  let ?x = "Emit (RunFinished t run OutcomeInterrupt ins v)"
  have s: "run_shape (interrupts_saved a) (value_of (RunWithSession h mk a sid input enc) w) (l @ [?x])"
    unfolding assms(2) [symmetric] by (rule adds_log_of, rule RunWithSession_shape, rule pause.loop)
  have "\<not> list_all before_start (l @ [?x])" "\<not> crash_end (l @ [?x])" by (auto simp: crash_end_def)
  then have "ran_log (interrupts_saved a) (l @ [?x])"
    using s by (auto simp: run_shape_def split: option.splits sum.splits)
  then obtain pre t' u l' where l': "l @ [?x] = pre @ Emit (RunStarted t' u []) # l'" "interrupts_saved a l'"
    by (auto simp: ran_log_def)
  then obtain m where m: "l' = m @ [?x]" "l = pre @ Emit (RunStarted t' u []) # m"
    by (cases l' rule: rev_cases) auto
  have i: "ins \<noteq> [] \<and> (\<exists>p s. m = p @ [Saved s] \<and> sess_open_interrupts s = interruptsToMetadata ins)"
    using l'(2) m(1) assms(1) unfolding interrupts_saved_def by blast
  then obtain p s where "m = p @ [Saved s]" "sess_open_interrupts s = interruptsToMetadata ins" by blast
  then have "l = (pre @ Emit (RunStarted t' u []) # p) @ [Saved s] \<and> sess_open_interrupts s = interruptsToMetadata ins"
    using m(2) by simp
  then show ?thesis using i by blast
qed

theorem interrupts_stored_first_witness:
  "\<exists>pre s run ins. ins \<noteq> [] \<and> sess_open_interrupts s = interruptsToMetadata ins \<and>
     log_of (RunWithSession demo_host demo_mk demo_agent ''s'' ''hi'' (Some ''agui'')) demo_session =
       pre @ [Saved s, Emit (RunFinished ''s'' run OutcomeInterrupt ins None)]"
proof -
  obtain l run ins where l: "log_of (RunWithSession demo_host demo_mk demo_agent ''s'' ''hi'' (Some ''agui'')) demo_session =
     l @ [Emit (RunFinished ''s'' run OutcomeInterrupt ins None)]"
    using demo_log by blast
  then show ?thesis using interrupts_stored_first [OF demo_content_kept l] by fastforce
qed

section \<open>How often the provider is asked\<close>

text \<open>
  C16: A run, or a resumed run, streams from the provider at most maxIterations times.
\<close>

theorem asked_at_most:
  "length (filter is_asked (log_of (RunWithSession h mk a sid input enc) w)) \<le> max_iterations a \<and>
   length (filter is_asked (log_of (Resume h mk a sid inputs enc) w)) \<le> max_iterations a"
proof -
  let ?E = "\<lambda>l. length (filter is_asked l) \<le> max_iterations a"
  have shape: "?E l" if "run_shape ?E x l" for x l
  proof -
    have "filter is_asked pre = []" if "list_all before_start pre" for pre
      using that by (induction pre) (auto elim!: before_start.elims)
    then show ?thesis using that by (auto simp: run_shape_def ran_log_def crash_end_def split: option.splits sum.splits)
  qed
  have loop: "ag_Provider a = Some p \<Longrightarrow> adds (\<lambda>_. ?E) (continueAgenticLoop h mk a p (max_iterations a) t u sess msgs)"
    for p t u sess msgs using asks_loop by (auto simp: asks_def)
  have "asks (0 + (0 + (0 + max_iterations a))) (pseq (registry_or_static h mk a) (\<lambda>(reg, _).
     pseq (resume_calls a reg ins idx 0 tcs z msgs) (\<lambda>(z, msgs).
     pseq (clear_interrupts a (pz_session z)) (\<lambda>sess1.
     continueAgenticLoop h mk a p (max_iterations a) t u sess1 msgs))))"
    if "ag_Provider a = Some p" for p ins idx tcs z msgs t u
    unfolding case_prod_unfold
    by (intro asks_pseq asks_quiet [OF quiet_events.registry] asks_quiet [OF quiet_run.all_calls]
        asks_quiet [OF quiet_run.cleared] asks_loop that)
  then have resumed: "adds (started_log ?E) (resumed_run h mk a p sess idx ins)" if "ag_Provider a = Some p" for p sess idx ins
    unfolding resumed_run_def by (intro started_begin) (use that in \<open>simp add: asks_def\<close>)
  show ?thesis
  proof (intro conjI)
    show "?E (log_of (RunWithSession h mk a sid input enc) w)"
      by (rule shape, rule adds_log_of, rule RunWithSession_shape, rule loop)
    show "?E (log_of (Resume h mk a sid inputs enc) w)"
      by (rule shape, rule adds_log_of, rule Resume_shape, rule resumed)
  qed
qed

section \<open>The text of an answer\<close>

lemma text_saves: "list_all before_start pre \<Longrightarrow> text_run st (pre @ l) = text_run st l"
proof (induction pre)
  case (Cons x pre)
  then show ?case by (cases x) auto
qed simp

lemma text_shape: "run_shape (text_ok None) x l \<Longrightarrow> text_run None l \<noteq> None"
  using text_saves [where l = "[]"]
  by (auto simp: run_shape_def ran_log_def crash_end_def text_ok_def text_saves split: option.splits sum.splits)

text \<open>
  C17: In the events of every run text nests well: a delta only comes between the start and the end
  of a text, an end closes the text that was started, with its id, texts do not overlap, and
  RunFinished never comes while one is open.
\<close>

theorem text_framed:
  "text_run None (log_of (RunWithSession h mk a sid input enc) w) \<noteq> None \<and>
   text_run None (log_of (Resume h mk a sid inputs enc) w) \<noteq> None \<and>
   text_run None (log_of (RunWithProtocol h mk a input enc) w) \<noteq> None"
proof (intro conjI)
  show "text_run None (log_of (RunWithSession h mk a sid input enc) w) \<noteq> None"
    by (rule text_shape, rule adds_log_of, rule RunWithSession_shape, rule text_loop.loop)
  show "text_run None (log_of (Resume h mk a sid inputs enc) w) \<noteq> None"
    by (rule text_shape, rule adds_log_of, rule Resume_shape, rule text_loop.resumed)
  have e: "moves x (\<lambda>_. True) (\<lambda>_. None) (pseq (case x of None \<Rightarrow> pret () | Some i \<Rightarrow> emit (TextEnd i)) (\<lambda>_.
     pseq (emit (RunFinished t u OutcomeUnset [] None)) (\<lambda>_. pret (Inr ()))))" for x t u
    by (cases x) (auto intro!: moves_pret moves_emit moves_pseq [where f = "\<lambda>_. None" and V = "\<lambda>_. True"])
  have "moves None (\<lambda>_. True) (\<lambda>_. None) (RunWithProtocol h mk a input enc)"
    unfolding RunWithProtocol_def refuse_def
    by (auto split: option.split sum.split simp: moves_fail texts_open.basic text_at_def
      intro!: moves_pret moves_stay [OF texts_open.registry] moves_pseq [OF moves_draw] moves_stay [OF yields_basic(3)]
        moves_stay [OF yields_basic(2)] moves_stay [OF texts_open.tried] moves_pseq [OF moves_relay] e)
  then show "text_run None (log_of (RunWithProtocol h mk a input enc) w) \<noteq> None"
    unfolding moves_def text_ok_def by (drule_tac adds_log_of) (auto split: option.splits)
qed

section \<open>The run without a session\<close>

text \<open>Steps of the process alone: events and a panic.\<close>

definition only_events :: "action list \<Rightarrow> bool" where
  "only_events = list_all (\<lambda>x. case x of Emit _ \<Rightarrow> True | Crashed _ \<Rightarrow> True | _ \<Rightarrow> False)"

abbreviation speaks :: "('w, 'a) proc \<Rightarrow> bool" where
  "speaks \<equiv> yields (\<lambda>_. True) only_events only_events"

lemma speaks_compose: "composes only_events only_events"
  by (simp add: only_events_def)

lemma speaks_basic: "speaks (pret x)" "speaks (draw f)" "speaks (emit ev)" "speaks (fail_run e)"
  by (simp_all add: yields_basic speaks_compose only_events_def)

lemma speaks_pseq: "speaks m \<Longrightarrow> (\<And>x. speaks (k x)) \<Longrightarrow> speaks (pseq m k)"
  by (rule yields_pseq [OF speaks_compose])

lemma speaks_attempt: "speaks (attempt m)"
  by (rule yields_attempt) (simp_all add: only_events_def)

lemma speaks_hooked: "speaks (emit_hooked a ev)"
  by (rule yields_emit_hooked) (simp_all add: speaks_compose only_events_def)

lemma speaks_registry: "speaks (registry_or_static h mk a)"
  unfolding registry_or_static_def
  by (auto split: sum.split intro!: speaks_pseq speaks_attempt speaks_basic)

lemma speaks_relay: "speaks (relay h a es st)"
proof (induction es arbitrary: st)
  case (Cons ev es)
  have "speaks (relay_start h ev st)"
    unfolding relay_start_def by (auto intro!: speaks_pseq speaks_basic)
  moreover have "speaks (relay_event a ev)"
    by (cases ev) (auto intro!: speaks_pseq speaks_basic speaks_hooked)
  ultimately show ?case unfolding relay.simps by (intro speaks_pseq Cons)
qed (simp add: speaks_basic)

text \<open>At most one request, and otherwise events.\<close>

definition asks_once :: "action list \<Rightarrow> bool" where
  "asks_once l \<longleftrightarrow> (\<exists>pre post. only_events pre \<and> only_events post \<and> (l = pre \<or> (\<exists>q. l = pre @ Asked q # post)))"

lemma asks_once_none: "adds (\<lambda>_. asks_once) (pret x)"
  by (rule adds_basic) (auto simp: asks_once_def only_events_def intro: exI [of _ "[]"])

lemma asks_once_before:
  assumes "speaks m" "\<And>x. adds (\<lambda>_. asks_once) (k x)"
  shows "adds (\<lambda>_. asks_once) (pseq m k)"
proof (rule adds_pseq)
  show "adds (\<lambda>_. only_events) m"
    using assms(1) unfolding yields_def by (rule adds_mono) (auto split: option.splits)
  show "only_events l \<Longrightarrow> asks_once l" for l unfolding asks_once_def by blast
  show "adds (\<lambda>_. asks_once) (k x)" for x by (rule assms(2))
  fix l l'
  assume l: "only_events l" "asks_once l'"
  have app: "only_events pre \<Longrightarrow> only_events (l @ pre)" for pre using l(1) by (simp add: only_events_def)
  obtain pre post where p: "only_events pre" "only_events post" "l' = pre \<or> (\<exists>q. l' = pre @ Asked q # post)"
    using l(2) by (auto simp: asks_once_def)
  show "asks_once (l @ l')"
    unfolding asks_once_def by (rule exI [of _ "l @ pre"], rule exI [of _ post]) (use p app in auto)
qed

lemma asks_once_ask:
  assumes "speaks m"
  shows "adds (\<lambda>_. asks_once) (pseq (log_acts [Asked q]) (\<lambda>_. m))"
  by (rule adds_pseq [where P = "\<lambda>x l. x = Some () \<and> l = [Asked q]" and Q = "\<lambda>_ _. only_events"])
    (use assms in \<open>auto simp: asks_once_def yields_def only_events_def intro!: adds_basic elim!: adds_mono split: option.splits
      intro: exI [of _ "[]"]\<close>)

text \<open>
  The run without a session starts no tool, saves nothing and asks the provider at most once:
  its other steps are events.
\<close>

theorem single_run_only_asks:
  "asks_once (log_of (RunWithProtocol h mk a input enc) w)"
proof -
  have "adds (\<lambda>_. asks_once) (RunWithProtocol h mk a input enc)"
    unfolding RunWithProtocol_def refuse_def case_prod_unfold
    by (auto split: option.split simp: asks_once_none
      intro!: asks_once_before speaks_registry speaks_basic asks_once_ask speaks_pseq speaks_attempt speaks_relay adds_basic
      split: sum.split)
  then show ?thesis by (rule adds_log_of)
qed

end
