(* ===== verification/Library_Spec.thy ===== *)
theory Library_Spec
  imports Agent_Spec
begin

text \<open>
  What the parts around the loop promise: which tool a name means, what compaction keeps, what a
  tool's error becomes, what a spawned agent inherits, the names of MCP tools, skills through the
  store, and the statuses of a paused batch.
\<close>

section \<open>The merged registry\<close>

definition last_named :: "string \<Rightarrow> 'w tool list \<Rightarrow> 'w tool option" where
  "last_named n ts = find (\<lambda>t. tool_name t = n) (rev ts)"

definition or_else :: "'a option \<Rightarrow> 'a option \<Rightarrow> 'a option" where
  "or_else x y = (case x of Some v \<Rightarrow> Some v | None \<Rightarrow> y)"

text \<open>The tools that can be built from the persisted definitions.\<close>

definition built_tools :: "'w host \<Rightarrow> 'w resource_manager \<Rightarrow> tool_def list \<Rightarrow> 'w tool list" where
  "built_tools h rm tds = List.map_filter (\<lambda>td.
     case ToolFromDef h (skill_tool_of td) (Some rm) of Inl _ \<Rightarrow> None | Inr t \<Rightarrow> Some t) tds"

lemma Get_Register_all_named: "Get_tool (Register_all ts r) n = or_else (last_named n ts) (Get_tool r n)"
  by (simp add: Get_Register_all or_else_def last_named_def)

lemma register_persisted_built: "register_persisted h rm tds reg = Register_all (built_tools h rm tds) reg"
  unfolding register_persisted_def Register_all_def built_tools_def register_def_def
  by (induction tds arbitrary: reg) (auto simp: List.map_filter_simps split: sum.splits)

lemma find_found: "find P xs = Some x \<Longrightarrow> P x \<and> x \<in> set xs"
  by (induction xs) (auto split: if_splits)

lemma last_named_registry:
  assumes "registry_ok r"
  shows "last_named n (All_tools r) = Get_tool r n"
proof (cases "last_named n (All_tools r)")
  case None
  have "Get_tool r n = None"
  proof (rule ccontr)
    assume "Get_tool r n \<noteq> None"
    then obtain t where t: "Get_tool r n = Some t" by blast
    then have "t \<in> set (All_tools r)" "tool_name t = n"
      using set_All_tools [OF assms] Get_tool_name [OF assms t] by auto
    then show False using None by (auto simp: last_named_def find_None_iff)
  qed
  then show ?thesis using None by simp
next
  case (Some t)
  then have "tool_name t = n" "t \<in> set (All_tools r)"
    unfolding last_named_def by (auto dest: find_found)
  then show ?thesis using Some set_All_tools [OF assms] by simp
qed

lemma register_skill_tools_ok: "registry_ok reg \<Longrightarrow> registry_ok (register_skill_tools h rm tds reg)"
  by (induction h rm tds reg rule: register_skill_tools.induct)
    (auto simp: register_def_def registry_ok_Register split: option.splits sum.splits)

lemma load_skills_ok:
  "load_skills h st rm es reg ins w = (Inr (reg', ins'), w') \<Longrightarrow> registry_ok reg \<Longrightarrow> registry_ok reg'"
  by (induction es arbitrary: reg ins w)
    (auto simp: act_defs register_skill_tools_ok split: if_splits prod.splits sum.splits)

lemma skill_part_ok: "skill_part h a w = (Inr (reg, ins), w') \<Longrightarrow> registry_ok reg"
  by (auto simp: skill_part_def act_defs split: option.splits prod.splits sum.splits intro: load_skills_ok)

text \<open>
  C25: The tool a name means in a run is the agent's own, otherwise the last one discovered from its
  MCP servers, otherwise the last persisted definition that can be built, otherwise the one of its
  enabled skills; every tool of the registry stands under its own name, and no name occurs twice.
\<close>

theorem merged_registry_precedence:
  assumes "registry_ok (ag_Tools a)" "ag_Store a = Some st" "ag_MCP a = Some mc"
    and "skill_part h a w = (Inr (reg1, ins), w1)" "st_ListTools st (ag_ID a) w1 = (Inr tds, w2)"
    and "DiscoverTools h mk mc (ag_ID a) w2 = (Inr ts, w3)"
  shows "\<exists>reg. buildMergedRegistry h mk a w = (Inr (reg, join_texts (newline @ newline) ins), w3) \<and> registry_ok reg \<and>
    (\<forall>n. Get_tool reg n = or_else (Get_tool (ag_Tools a) n) (or_else (last_named n ts)
       (or_else (last_named n (built_tools h (ag_FS a) tds)) (Get_tool reg1 n))))"
proof -
  let ?reg = "Register_all (All_tools (ag_Tools a)) (Register_all ts (Register_all (built_tools h (ag_FS a) tds) reg1))"
  have "buildMergedRegistry h mk a w = (Inr (?reg, join_texts (newline @ newline) ins), w3)"
    using assms(2-6) by (simp add: buildMergedRegistry_def persisted_part_def mcp_part_def act_defs register_persisted_built)
  moreover have "registry_ok ?reg" by (intro registry_ok_Register_all skill_part_ok [OF assms(4)])
  ultimately show ?thesis by (simp add: Get_Register_all_named last_named_registry [OF assms(1)])
qed

theorem merged_registry_precedence_witness:
  "\<exists>reg. buildMergedRegistry demo_host demo_mk (demo_agent\<lparr>ag_MCP := Some (demo_store False)\<rparr>) demo_session =
      (Inr (reg, join_texts (newline @ newline) []), demo_session) \<and> registry_ok reg \<and>
    (\<forall>n. Get_tool reg n = or_else (Get_tool [] n) (or_else (last_named n ([] :: session tool list)) (or_else (last_named n (built_tools demo_host None [])) (Get_tool [] n))))"
proof -
  let ?a = "demo_agent\<lparr>ag_MCP := Some (demo_store False)\<rparr>"
  have s: "ag_Tools ?a = []" "ag_FS ?a = None" by (simp_all add: demo_agent_def bare_agent_def NewRegistry_def)
  show ?thesis
    unfolding s [symmetric]
    by (rule merged_registry_precedence [where ?w1.0 = demo_session and ?w2.0 = demo_session and st = "demo_store False" and mc = "demo_store False"])
      (simp_all add: demo_agent_def bare_agent_def demo_store_def skill_part_def act_defs registry_ok_New [unfolded NewRegistry_def]
        NewRegistry_def DiscoverTools_def)
qed

section \<open>Compaction\<close>

text \<open>
  Compaction never loses the end of a history: of the session it leaves, the last messages are
  the last KeepRecent messages it was given, and the whole history where it is not compacted; when
  it shortens the history, exactly one message, with the summary role, stands in front of them.
\<close>

theorem compaction_keeps_recent:
  assumes "content_kept a" "0 \<le> cc_keep_recent (ag_compaction a)"
    and "value_of (compact_session h a p sess) w = Some (Inr s)"
  shows "sess_messages s = sess_messages sess \<or>
    (\<exists>m. msg_role m = cc_summary_role (ag_compaction a) \<and>
       sess_messages s = m # drop (length (sess_messages sess) - nat (cc_keep_recent (ag_compaction a))) (sess_messages sess) \<and>
       int (length (sess_messages s)) = cc_keep_recent (ag_compaction a) + 1)"
proof (cases "shouldCompact (sess_messages sess) (ag_compaction a)")
  case False
  then show ?thesis using assms(3) by (simp add: compact_session_def value_of_def pret_def)
next
  case True
  then have big: "\<not> int (length (sess_messages sess)) \<le> cc_keep_recent (ag_compaction a)" by (simp add: shouldCompact_def)
  show ?thesis
  proof (cases "compact h p (sess_messages sess) (ag_compaction a) w")
    case (Pair res w1)
    show ?thesis
    proof (cases res)
      case (Inl e)
      then show ?thesis using assms(3) True Pair
        by (auto simp: compact_session_def value_of_def proc_defs split: if_splits)
    next
      case (Inr ms)
      have post: "int (length ms) = cc_keep_recent (ag_compaction a) + 1" "msg_role (hd ms) = cc_summary_role (ag_compaction a)"
        "tl ms = drop (length (sess_messages sess) - nat (cc_keep_recent (ag_compaction a))) (sess_messages sess)"
        using summary_post [OF Pair [unfolded Inr] big] by auto
      obtain x fresh w2 where u: "persistSession a (sess\<lparr>sess_messages := ms\<rparr>) w1 = (Inr (x, fresh), w2)" "s = x"
        using assms(3) True Pair Inr
        by (auto simp: compact_session_def value_of_def save_or_refuse_def proc_defs split: if_splits prod.splits sum.splits)
      have "sess_messages s = ms" using content_kept_messages [OF assms(1) u(1)] u(2) by simp
      moreover have "ms \<noteq> []" using post(1) assms(2) by auto
      ultimately show ?thesis using post by (metis list.collapse)
    qed
  qed
qed

definition demo_summarizer :: "session provider" where
  "demo_summarizer = demo_provider\<lparr>pv_Generate := (\<lambda>_. act_ret
     \<lparr>rs_content = ''summary'', rs_tool_calls = [], rs_usage = \<lparr>us_input_tokens = 0, us_output_tokens = 0\<rparr>\<rparr>)\<rparr>"

definition demo_small :: "session agent" where
  "demo_small = demo_agent\<lparr>ag_compaction := \<lparr>cc_max_messages = 1, cc_keep_recent = 1, cc_summary_role = ''system''\<rparr>\<rparr>"

definition demo_message :: "string \<Rightarrow> message" where
  "demo_message i = \<lparr>msg_id = i, msg_role = ''user'', msg_content = [], msg_tool_calls = [], msg_created_at = 0\<rparr>"

definition demo_history :: session where
  "demo_history = demo_session\<lparr>sess_messages := [demo_message ''m1'', demo_message ''m2'']\<rparr>"

lemma demo_small_facts: "content_kept demo_small" "0 \<le> cc_keep_recent (ag_compaction demo_small)"
  by (auto simp: content_kept_def persistSession_def demo_small_def demo_agent_def demo_store_def bare_agent_def Let_def)

lemma demo_compacts:
  "\<exists>s. value_of (compact_session demo_host demo_small demo_summarizer demo_history) demo_history = Some (Inr s) \<and>
     sess_messages s \<noteq> sess_messages demo_history"
  by (simp add: value_of_def compact_session_def shouldCompact_def compact_def act_defs save_or_refuse_def persistSession_def
    proc_defs demo_small_def demo_agent_def demo_store_def bare_agent_def demo_history_def demo_session_def demo_summarizer_def
    demo_provider_def generateID_def unix_milli_def demo_host_def Let_def demo_message_def)

theorem compaction_keeps_recent_witness:
  "\<exists>s m. value_of (compact_session demo_host demo_small demo_summarizer demo_history) demo_history = Some (Inr s) \<and>
     sess_messages s = [m, demo_message ''m2''] \<and> msg_role m = ''system''"
proof -
  obtain s where s: "value_of (compact_session demo_host demo_small demo_summarizer demo_history) demo_history = Some (Inr s)"
    "sess_messages s \<noteq> sess_messages demo_history"
    using demo_compacts by blast
  then show ?thesis
    using compaction_keeps_recent [OF demo_small_facts s(1)] by (auto simp: demo_small_def demo_history_def)
qed

section \<open>What a tool's error becomes\<close>

lemma start_tool_value:
  "tool_execute t input w = (Inr r, w1) \<Longrightarrow>
     value_of (start_tool t n i args input) w = Some (marshal_or_empty (tr_data r), ''completed'')"
  by (simp add: value_of_def start_tool_def proc_defs)

lemma null_text: "marshal_or_empty JNull = ''null''"
  by (simp add: marshal_or_empty_def json_Marshal_def)

text \<open>
  The failure of an HTTP tool is not what the model is told: when the endpoint answers with an
  error status the tool returns a result with the status error and the message, and the runner
  stores and sends ''null'', completed.
\<close>

theorem http_failure_hidden:
  assumes "json_Marshal (http_body (kt_input_mapping d) input) = Inr b" "bad_request h (kt_endpoint d) = None"
    and "clock h w = (t, w0)"
    and "http_post h (kt_endpoint d) ((''Content-Type'', ''application/json'') # kt_headers d) b w0 = (Inr resp, w1)"
    and "400 \<le> hr_status_code resp" "hr_body resp = Inr body"
  shows "(\<exists>r w2. tool_execute (NewHTTPTool h d) input w = (Inr r, w2) \<and> tr_status r = ''error'' \<and>
      tr_error r = hr_status resp @ '': '' @ body) \<and>
    value_of (start_tool (NewHTTPTool h d) n i args input) w = Some (''null'', ''completed'')"
proof -
  obtain r w2 where r: "tool_execute (NewHTTPTool h d) input w = (Inr r, w2)"
    "tr_status r = ''error'' \<and> tr_error r = hr_status resp @ '': '' @ body \<and> tr_data r = JNull"
    using assms
    by (cases "unix_milli h w1"; cases "clock h (snd (unix_milli h w1))")
      (auto simp: NewHTTPTool_def Measure_def HTTPTool_run_def act_defs answer_result_def err_act_def Err_result_def split: prod.splits)
  then show ?thesis using start_tool_value [OF r(1)] by (auto simp: null_text)
qed

definition demo_endpoint :: skill_tool_def where
  "demo_endpoint = \<lparr>kt_name = ''t'', kt_description = [], kt_parameters = JNull, kt_handler = ''http'', kt_endpoint = ''u'',
     kt_headers = [], kt_input_mapping = [], kt_response_field = [], kt_script_path = []\<rparr>"

definition demo_failing_host :: "session host" where
  "demo_failing_host = demo_host\<lparr>http_post := (\<lambda>_ _ _. act_ret
     \<lparr>hr_status_code = 500, hr_status = ''500 Internal Server Error'', hr_body = Inr ''boom''\<rparr>)\<rparr>"

theorem http_failure_hidden_witness:
  "\<exists>r w2. tool_execute (NewHTTPTool demo_failing_host demo_endpoint) None demo_session = (Inr r, w2) \<and>
     tr_error r = ''500 Internal Server Error: boom'' \<and>
     value_of (start_tool (NewHTTPTool demo_failing_host demo_endpoint) ''t'' ''c'' ''null'' None) demo_session = Some (''null'', ''completed'')"
proof -
  obtain b where b: "json_Marshal (http_body (kt_input_mapping demo_endpoint) None) = Inr b"
    by (simp add: http_body_def demo_endpoint_def json_Marshal_def)
  have "bad_request demo_failing_host (kt_endpoint demo_endpoint) = None"
    "clock demo_failing_host demo_session = (5000000, demo_session)"
    "http_post demo_failing_host (kt_endpoint demo_endpoint) ((''Content-Type'', ''application/json'') # kt_headers demo_endpoint) b demo_session
      = (Inr \<lparr>hr_status_code = 500, hr_status = ''500 Internal Server Error'', hr_body = Inr ''boom''\<rparr>, demo_session)"
    by (simp_all add: demo_failing_host_def demo_host_def act_ret_def)
  from http_failure_hidden [OF b this] show ?thesis by fastforce
qed

section \<open>Spawned agents\<close>

text \<open>
  A spawned agent has every tool of its parent (when it inherits) and the tools it is given,
  which win, but not the parent's approval policy: no call of the child is gated.
\<close>

theorem spawned_agent_is_not_gated:
  assumes "registry_ok (ag_Tools a)" "sc_InheritTools cfg \<or> sc_Tools cfg = []"
  shows "Get_tool (ag_Tools (fst (Spawn h a parent cfg w))) n = or_else (last_named n (sc_Tools cfg)) (Get_tool (ag_Tools a) n) \<and>
    \<not> policy_gates (fst (Spawn h a parent cfg w)) n args"
proof -
  have "Get_tool (Register_all (All_tools (ag_Tools a)) NewRegistry) n = Get_tool (ag_Tools a) n"
    by (simp add: Get_Register_all_named last_named_registry [OF assms(1)] or_else_def split: option.split)
  then show ?thesis
    using assms(2) by (auto simp: Spawn_def Let_def Get_Register_all_named policy_gates_def split: prod.split)
qed

definition demo_spawn :: "session subagent_config" where
  "demo_spawn = \<lparr>sc_System = [], sc_Tools = [], sc_MaxIterations = 0, sc_InheritTools = True\<rparr>"

theorem spawned_agent_is_not_gated_witness:
  "policy_gates demo_agent ''del'' ''{}'' \<and> \<not> policy_gates (fst (Spawn demo_host demo_agent [] demo_spawn demo_session)) ''del'' ''{}''"
proof -
  have "registry_ok (ag_Tools demo_agent)" by (simp add: demo_agent_def bare_agent_def)
  then show ?thesis using spawned_agent_is_not_gated [of demo_agent demo_spawn] demo_policy by (simp add: demo_spawn_def)
qed

section \<open>The names of MCP tools\<close>

lemma split_at_slash: "c \<notin> set s \<Longrightarrow> c \<notin> set s' \<Longrightarrow> s @ c # t = s' @ c # t' \<longleftrightarrow> s = s' \<and> t = t'"
proof (induction s arbitrary: s')
  case Nil
  then show ?case by (cases s') auto
next
  case (Cons x s)
  then show ?case by (cases s') auto
qed

text \<open>
  The names of MCP tools keep servers apart exactly while server names have no slash: two tools
  then share a name only if they are the same tool of the same server; with a slash, tools of
  different servers can share a name, and one replaces the other in the registry.
\<close>

theorem mcp_names_separate:
  "(\<forall>s s' t t'. CHR ''/'' \<in> set s \<or> CHR ''/'' \<in> set s' \<or> (mcp_tool_name s t = mcp_tool_name s' t' \<longleftrightarrow> s = s' \<and> t = t')) \<and>
   mcp_tool_name ''a'' ''b/c'' = mcp_tool_name ''a/b'' ''c''"
proof -
  have "s = s' \<and> t = t' \<longleftrightarrow> mcp_tool_name s t = mcp_tool_name s' t'" if "CHR ''/'' \<notin> set s" "CHR ''/'' \<notin> set s'" for s s' t t'
    using split_at_slash [OF that, of t t'] by (auto simp: mcp_tool_name_def)
  then show ?thesis by (simp add: mcp_tool_name_def) blast
qed

section \<open>Skills through the store\<close>

lemma json_ok_resource: "json_ok (enc_resource r)"
  by (simp add: enc_resource_def)

text \<open>
  A skill survives the store: registered through a store that gives back what it was given, it
  is loaded with the same tools, resources and instructions.
\<close>

theorem skill_round_trip:
  assumes "list_all skill_tool_ok (df_tools d)"
    and "\<And>x w. st_SaveSkill st x w = (Inr (), f x w)" "\<And>x w. st_GetSkill st (sd_name x) (f x w) = (Inr (Some x), g x w)"
  shows "\<exists>w1. fst (Skills_Register st d w) = Inr () \<and> snd (Skills_Register st d w) = w1 \<and>
    fst (Skills_Get st (df_name d) w1) = Inr d"
proof -
  have one: "skill_tool_ok t \<Longrightarrow> through_json dec_skill_tool (enc_skill_tool t) = Some t" for t
    by (simp add: through_json_enc json_ok_enc_skill_tool dec_skill_tool_enc)
  have "list_all skill_tool_ok ts \<Longrightarrow> List.map_filter (through_json dec_skill_tool) (map enc_skill_tool ts) = ts" for ts
    by (induction ts) (simp_all add: List.map_filter_simps one)
  then have t: "List.map_filter (through_json dec_skill_tool) (map enc_skill_tool (df_tools d)) = df_tools d"
    using assms(1) by blast
  have r: "List.map_filter (through_json dec_resource) (map enc_resource rs) = rs" for rs
    by (induction rs) (simp_all add: List.map_filter_simps through_json_enc json_ok_resource)
  let ?x = "\<lparr>sd_name = df_name d, sd_description = df_description d, sd_version = df_version d,
      sd_instructions = df_instructions d, sd_tools = map enc_skill_tool (df_tools d),
      sd_config = df_config d, sd_resources = map enc_resource (df_resources d), sd_enabled = True\<rparr>"
  have "st_GetSkill st (df_name d) (f ?x w) = (Inr (Some ?x), g ?x w)" using assms(3) [of ?x w] by simp
  then show ?thesis
    using assms(2) t r by (simp add: Skills_Register_def Skills_Get_def act_defs)
qed

definition demo_skill_store :: "skill_def meta_store" where
  "demo_skill_store =
     \<lparr>st_CreateSession = (\<lambda>_ _. act_fail nil_deref), st_GetSession = (\<lambda>_. act_ret None),
      st_ListSessions = (\<lambda>_ w. (([], None), w)), st_ListSessionsByUser = (\<lambda>_ _ w. (([], None), w)),
      st_UpdateSession = (\<lambda>_. act_fail nil_deref), st_DeleteSession = (\<lambda>_. act_ret ()), st_ListTools = (\<lambda>_. act_ret []),
      st_SaveSkill = (\<lambda>x w. (Inr (), x)), st_GetSkill = (\<lambda>_ w. (Inr (Some w), w)), st_ListSkills = act_ret [],
      st_DeleteSkill = (\<lambda>_. act_ret ()), st_SaveMCPServer = act_ret, st_GetMCPServer = (\<lambda>_. act_ret None),
      st_ListMCPServers = (\<lambda>_. act_ret []), st_DeleteMCPServer = (\<lambda>_. act_ret ())\<rparr>"

definition demo_skill :: definition_l2 where
  "demo_skill = \<lparr>df_name = ''s'', df_description = [], df_version = [], df_instructions = ''do'', df_tools = [demo_endpoint],
     df_config = [], df_resources = [\<lparr>rc_name = ''r'', rc_path = ''p'', rc_type = ''t''\<rparr>]\<rparr>"

theorem skill_round_trip_witness:
  "\<forall>x. \<exists>w1. snd (Skills_Register demo_skill_store demo_skill x) = w1 \<and> fst (Skills_Get demo_skill_store ''s'' w1) = Inr demo_skill"
proof -
  have "list_all skill_tool_ok (df_tools demo_skill)"
    by (simp add: demo_skill_def demo_endpoint_def skill_tool_ok_def)
  note round = skill_round_trip [OF this, of demo_skill_store "\<lambda>x w. x" "\<lambda>x w. x"]
  show ?thesis
  proof
    fix x
    show "\<exists>w1. snd (Skills_Register demo_skill_store demo_skill x) = w1 \<and> fst (Skills_Get demo_skill_store ''s'' w1) = Inr demo_skill"
      using round [of x] by (simp add: demo_skill_store_def) (simp add: demo_skill_def)
  qed
qed

section \<open>The statuses of a paused batch\<close>

text \<open>
  In a paused batch whose calls have ids of their own, each call is stored with the status its
  own gate asks for: pending_client for a tool of the client, pending_approval for one the policy
  gates, pending otherwise.
\<close>

theorem paused_statuses:
  assumes "classifyPending h a reg calls w = (ins, w')" "distinct (map pt_id calls)"
  shows "map tc_status (mark_pending calls ins (providerToolCallsToRecords calls)) =
    map (\<lambda>tc. if gate a reg tc = Some kindClientSide then ''pending_client''
       else if gate a reg tc = Some kindApproval then ''pending_approval'' else ''pending'') calls"
proof -
  have "map tc_status (mark_pending cs ins (providerToolCallsToRecords cs)) = map (\<lambda>tc. pendingStatusFor (pt_id tc) ins) cs" for cs
    by (induction cs) (simp_all add: providerToolCallsToRecords_def)
  then show ?thesis using pendingStatusFor_gate [OF assms] by simp
qed

theorem paused_statuses_witness:
  "\<exists>ins w'. classifyPending demo_host demo_agent [] [demo_call] demo_session = (ins, w') \<and>
     map tc_status (mark_pending [demo_call] ins (providerToolCallsToRecords [demo_call])) = [''pending_approval'']"
proof -
  obtain ins w' where c: "classifyPending demo_host demo_agent [] [demo_call] demo_session = (ins, w')" by fastforce
  have "gate demo_agent [] demo_call = Some kindApproval"
    by (simp add: gate_def demo_agent_def bare_agent_def RequireAll_def Get_tool_def)
  then show ?thesis using c paused_statuses [OF c] by (intro exI [of _ ins] exI [of _ w']) simp
qed

end
