(* ===== verification/Resume_Spec.thy ===== *)
theory Resume_Spec
  imports Agent_Spec
begin

text \<open>
  What Resume promises of the answers it takes: which sets of answers are accepted, which calls an
  answer lets run, and what the session has of the batch afterwards.
\<close>

section \<open>Accepted answers\<close>

lemma open_map_keys: "set (map fst (open_map ins)) = set (map intr_id ins)"
proof -
  have "set (map fst (fold (\<lambda>i m. map_put (intr_id i) i m) ins m)) = set (map fst m) \<union> set (map intr_id ins)" for m
    by (induction ins arbitrary: m) (simp_all only: fold_simps set_map_put list.map list.set o_apply, auto simp: set_map_put)
  from this [of "[]"] show ?thesis by (simp add: open_map_def)
qed

lemma open_map_none: "map_of (open_map ins) i = None \<longleftrightarrow> i \<notin> set (map intr_id ins)"
  unfolding map_of_eq_None_iff open_map_keys [symmetric] by simp

lemma open_map_some: "distinct (map intr_id ins) \<Longrightarrow> i \<in> set ins \<Longrightarrow> map_of (open_map ins) (intr_id i) = Some i"
  unfolding open_map_def by (induction ins rule: rev_induct) (auto simp: rev_image_eqI)

lemma open_map_id: "map_of (open_map ins) k = Some i \<Longrightarrow> intr_id i = k \<and> i \<in> set ins"
  unfolding open_map_def by (induction ins rule: rev_induct) (auto split: if_splits)

lemma check_inputs_ok:
  "check_inputs opn inps seen = Inr s \<longleftrightarrow>
     s = rev (map ri_interrupt_id inps) @ seen \<and> [] \<notin> set (map ri_interrupt_id inps) \<and>
     distinct (map ri_interrupt_id inps) \<and> set (map ri_interrupt_id inps) \<inter> set seen = {} \<and>
     (\<forall>i \<in> set (map ri_interrupt_id inps). map_of opn i \<noteq> None)"
  by (induction opn inps seen rule: check_inputs.induct) auto

lemma find_missing: "find (\<lambda>i. i \<notin> S) ids = None \<longleftrightarrow> set ids \<subseteq> S"
  by (auto simp: find_None_iff)

lemma validate_inputs_iff:
  "validate_inputs ins inps = None \<longleftrightarrow>
     distinct (map ri_interrupt_id inps) \<and> [] \<notin> set (map ri_interrupt_id inps) \<and>
     set (map ri_interrupt_id inps) = set (map intr_id ins)"
proof (cases "check_inputs (open_map ins) inps []")
  case (Inl e)
  then have "\<not> (distinct (map ri_interrupt_id inps) \<and> [] \<notin> set (map ri_interrupt_id inps) \<and>
     (\<forall>i \<in> set (map ri_interrupt_id inps). map_of (open_map ins) i \<noteq> None))"
    using check_inputs_ok [of "open_map ins" inps "[]"] by auto
  then show ?thesis using Inl by (auto simp: validate_inputs_def open_map_none)
next
  case (Inr s)
  then have s: "s = rev (map ri_interrupt_id inps)" "[] \<notin> set (map ri_interrupt_id inps)"
     "distinct (map ri_interrupt_id inps)" "\<forall>i \<in> set (map ri_interrupt_id inps). map_of (open_map ins) i \<noteq> None"
    using check_inputs_ok by auto
  have "validate_inputs ins inps = None \<longleftrightarrow> set (map intr_id ins) \<subseteq> set (map ri_interrupt_id inps)"
    using Inr find_missing [of "set s" "map fst (open_map ins)"]
    by (auto simp: validate_inputs_def open_map_keys [simplified] s(1) split: option.split)
  moreover have "set (map ri_interrupt_id inps) \<subseteq> set (map intr_id ins)" using s(4) by (auto simp: open_map_none)
  ultimately show ?thesis using s(2,3) by auto
qed

text \<open>The answers name every open interrupt once.\<close>

definition answers_all :: "interrupt list \<Rightarrow> resume_input list \<Rightarrow> bool" where
  "answers_all ins inps \<longleftrightarrow> distinct (map ri_interrupt_id inps) \<and> [] \<notin> set (map ri_interrupt_id inps) \<and>
     set (map ri_interrupt_id inps) = set (map intr_id ins)"

lemma find_paused_none: "find_paused ins ms n = None \<longleftrightarrow> (\<forall>i < n. \<not> paused_message ins (ms ! i))"
  by (induction n) (auto simp: less_Suc_eq)

lemma find_paused_message:
  "find_paused ins ms (length ms) = None \<longleftrightarrow> \<not> (\<exists>m \<in> set ms. paused_message ins m)"
  unfolding find_paused_none by (auto simp: all_set_conv_all_nth Bex_def in_set_conv_nth)

lemma load_found:
  assumes "ag_Provider a = Some p" "ag_Store a = Some st" "st_GetSession st sid w = (Inr (Some sess), w1)"
  shows "load_session a sid (Some enc) \<lparr>r_world = w, r_log = l\<rparr> = (Some (Inr (p, sess)), \<lparr>r_world = w1, r_log = l\<rparr>)"
  using assms by (simp add: load_session_def proc_defs)

lemma never_refused: "value_of (pseq m (\<lambda>_. pret (Inr ()))) w \<noteq> Some (Inl e)"
  by (simp add: value_of_def pseq_def pret_def split: prod.split option.split)

lemma refuse_same: "refuse m r = (Some (Inl (ErrMsg m)), r)"
  by (simp add: refuse_def pret_def)

lemma after_load:
  assumes "ag_Provider a = Some p" "ag_Store a = Some st" "st_GetSession st sid w = (Inr (Some sess), w1)"
  shows "Resume h mk a sid inps (Some enc) \<lparr>r_world = w, r_log = []\<rparr> =
    (if sess_open_interrupts sess = [] then refuse (''agent: session '' @ quote sid @ '' has no open interrupts'')
     else case validate_inputs (sess_open_interrupts sess) inps of
       Some e \<Rightarrow> pret (Inl e)
     | None \<Rightarrow>
         (case find_paused (sess_open_interrupts sess) (sess_messages sess) (length (sess_messages sess)) of
            None \<Rightarrow> refuse (''agent: session '' @ quote sid @ '' has open interrupts but no paused tool-call batch'')
          | Some idx \<Rightarrow>
              pseq (resumed_run h mk a p sess idx (inputByToolCallID (sess_open_interrupts sess) inps)) (\<lambda>_.
              pret (Inr ())))) \<lparr>r_world = w1, r_log = []\<rparr>"
  unfolding Resume_def pseq_ok_def by (subst pseq_def) (simp add: load_found [OF assms])

text \<open>
  C14: When the store has the session, Resume refuses exactly if the session has no open interrupt,
  if the answers do not name every open interrupt once (their ids not empty, none twice, and just the
  ids of the open interrupts), or if no message of the session is a paused batch; a refused call has
  done nothing. Nothing else of an answer is looked at: neither its status and payload, nor the
  expiry and the response schema of the interrupt it answers.
\<close>

theorem resume_inputs_accepted:
  assumes "ag_Provider a = Some p" "ag_Store a = Some st" "st_GetSession st sid w = (Inr (Some sess), w1)"
  shows "((\<exists>e. value_of (Resume h mk a sid inps (Some enc)) w = Some (Inl e)) \<longleftrightarrow>
       \<not> (sess_open_interrupts sess \<noteq> [] \<and> answers_all (sess_open_interrupts sess) inps \<and>
          (\<exists>m \<in> set (sess_messages sess). paused_message (sess_open_interrupts sess) m))) \<and>
    (log_of (Resume h mk a sid inps (Some enc)) w = [] \<or> (\<forall>e. value_of (Resume h mk a sid inps (Some enc)) w \<noteq> Some (Inl e)))"
proof -
  let ?ins = "sess_open_interrupts sess" and ?r = "\<lparr>r_world = w1, r_log = []\<rparr>"
  note same = value_of_def log_of_def after_load [OF assms]
  have v: "validate_inputs ?ins inps = None \<longleftrightarrow> answers_all ?ins inps"
    by (simp add: validate_inputs_iff answers_all_def)
  have f: "find_paused ?ins (sess_messages sess) (length (sess_messages sess)) = None \<longleftrightarrow>
      \<not> (\<exists>m \<in> set (sess_messages sess). paused_message ?ins m)" by (rule find_paused_message)
  show ?thesis
  proof (cases "?ins = [] \<or> validate_inputs ?ins inps \<noteq> None \<or> find_paused ?ins (sess_messages sess) (length (sess_messages sess)) = None")
    case True
    then have "\<exists>e. Resume h mk a sid inps (Some enc) \<lparr>r_world = w, r_log = []\<rparr> = (Some (Inl e), ?r)"
      unfolding after_load [OF assms] by (auto simp: refuse_same pret_def split: option.splits)
    then show ?thesis using True v f by (auto simp: value_of_def log_of_def)
  next
    case False
    then obtain idx where "find_paused ?ins (sess_messages sess) (length (sess_messages sess)) = Some idx" by auto
    then have "value_of (Resume h mk a sid inps (Some enc)) w =
        value_of (pseq (resumed_run h mk a p sess idx (inputByToolCallID ?ins inps)) (\<lambda>_. pret (Inr ()))) w1"
      using False unfolding value_of_def after_load [OF assms] by simp
    then show ?thesis using False v f by (simp add: never_refused)
  qed
qed

definition demo_interrupt :: "string \<Rightarrow> string \<Rightarrow> interrupt" where
  "demo_interrupt i c = \<lparr>intr_id = i, intr_reason = ''tool_call'', intr_message = [], intr_tool_call_id = c,
     intr_response_schema = [], intr_expires_at_ms = 0, intr_metadata = []\<rparr>"

lemma demo_interrupt_call: "intr_tool_call_id (demo_interrupt i c) = c"
  by (simp add: demo_interrupt_def)

definition demo_input :: "string \<Rightarrow> bool \<Rightarrow> resume_input" where
  "demo_input i b = \<lparr>ri_interrupt_id = i, ri_status = ''resolved'', ri_payload = JBool b\<rparr>"

definition demo_record :: "string \<Rightarrow> string \<Rightarrow> tool_call_record" where
  "demo_record c args = \<lparr>tc_id = c, tc_name = ''del'', tc_arguments = args, tc_result = [], tc_status = ''pending_approval''\<rparr>"

definition demo_paused :: "tool_call_record list \<Rightarrow> paused" where
  "demo_paused tcs = \<lparr>pz_session = demo_session\<lparr>sess_messages :=
       [\<lparr>msg_id = ''m'', msg_role = ''assistant'', msg_content = [], msg_tool_calls = tcs, msg_created_at = 0\<rparr>]\<rparr>,
     pz_calls = tcs, pz_live = True\<rparr>"

text \<open>An answer that came after its interrupt expired, and that is not what its schema asks for.\<close>

definition demo_expired :: interrupt where
  "demo_expired = (demo_interrupt ''i1'' ''c1'')\<lparr>intr_expires_at_ms := 1,
     intr_response_schema := [(''required'', JArr [JStr ''approved''])]\<rparr>"

definition demo_waiting :: session where
  "demo_waiting = (pz_session (demo_paused [demo_record ''c1'' ''{}'']))\<lparr>sess_open_interrupts := [demo_expired]\<rparr>"

theorem resume_inputs_accepted_witness:
  "(\<forall>e. value_of (Resume demo_host demo_mk demo_agent ''s'' [demo_input ''i1'' True] (Some ''agui'')) demo_waiting \<noteq> Some (Inl e)) \<and>
   (\<exists>e. value_of (Resume demo_host demo_mk demo_agent ''s'' [] (Some ''agui'')) demo_waiting = Some (Inl e))"
proof -
  have a: "ag_Provider demo_agent = Some demo_provider" "ag_Store demo_agent = Some (demo_store False)"
    "st_GetSession (demo_store False) ''s'' demo_waiting = (Inr (Some demo_waiting), demo_waiting)"
    by (simp_all add: demo_agent_def bare_agent_def demo_store_def)
  have w: "sess_open_interrupts demo_waiting = [demo_expired]"
    "\<exists>m \<in> set (sess_messages demo_waiting). paused_message [demo_expired] m"
    by (simp_all add: demo_waiting_def demo_paused_def paused_message_def demo_record_def)
  have "answers_all [demo_expired] [demo_input ''i1'' True]" "\<not> answers_all [demo_expired] []"
    by (simp_all add: answers_all_def demo_expired_def demo_interrupt_def demo_input_def)
  then show ?thesis
    using resume_inputs_accepted [OF a, of demo_host demo_mk "[demo_input ''i1'' True]" "''agui''"]
      resume_inputs_accepted [OF a, of demo_host demo_mk "[]" "''agui''"] w by simp
qed

section \<open>Which calls an answer lets run\<close>

text \<open>An answer that does not let a call run: the call was cancelled, rejected or not understood.\<close>

definition approves :: "resume_input \<Rightarrow> bool" where
  "approves inp \<longleftrightarrow> ri_status inp \<noteq> ''cancelled'' \<and> asApprovalPayload (ri_payload inp) = Some True"

definition may_run :: "(string \<times> resume_input) list \<Rightarrow> tool_call_record \<Rightarrow> bool" where
  "may_run inputs tc \<longleftrightarrow> \<not> isTerminalToolCall tc \<and>
     (case map_of inputs (tc_id tc) of
        None \<Rightarrow> True
      | Some inp \<Rightarrow> tc_status tc = ''pending_approval'' \<and> approves inp)"

fun runs_only :: "(tool_call_record \<Rightarrow> bool) \<Rightarrow> tool_call_record list \<Rightarrow> action \<Rightarrow> bool" where
  "runs_only P tcs (Ran n i args) = (\<exists>tc \<in> set tcs. n = tc_name tc \<and> i = tc_id tc \<and> args = tc_arguments tc \<and> P tc)"
| "runs_only P tcs _ = True"

interpretation only: log_basics a "list_all (runs_only P tcs)" "list_all (runs_only P tcs)" for a P tcs
  by unfold_locales auto

lemma executeTool_only:
  assumes "tc \<in> set tcs" "P tc"
  shows "yields (\<lambda>_. True) (list_all (runs_only P tcs)) (list_all (runs_only P tcs)) (executeTool reg tc)"
proof -
  have "yields (\<lambda>_. True) (list_all (runs_only P tcs)) (list_all (runs_only P tcs))
     (log_acts [Ran (tc_name tc) (tc_id tc) (tc_arguments tc)])"
    by (rule yields_basic(2)) (use assms in auto)
  then show ?thesis
    unfolding executeTool_def start_tool_def
    by (auto simp: only.basic(1,4) only.closed split: option.split sum.split
      intro!: only.piece [where V = "\<lambda>_. True"] only.tried)
qed

lemma resolve_only:
  assumes "tc \<in> set tcs" "\<not> isTerminalToolCall tc"
  shows "yields (\<lambda>_. True) (list_all (runs_only (may_run inputs) tcs)) (list_all (runs_only (may_run inputs) tcs))
    (resolveToolCall reg inputs tc)"
  using assms unfolding resolveToolCall_def
  by (auto simp: only.basic may_run_def approves_def split: option.split bool.split sum.split intro!: executeTool_only)

lemma save_paused_only: "yields (\<lambda>_. True) (list_all (runs_only P tcs)) (list_all (runs_only P tcs)) (save_paused a what z)"
  unfolding save_paused_def by (rule only.piece [OF only.save_any]) (auto simp: only.basic)

lemma resume_call_only:
  "tc \<in> set tcs \<Longrightarrow> yields (\<lambda>_. True) (list_all (runs_only (may_run inputs) tcs)) (list_all (runs_only (may_run inputs) tcs))
    (resume_call a reg inputs idx i tc z)"
  unfolding resume_call_def
  by (auto simp: only.basic intro!: only.piece [OF save_paused_only] only.piece [where V = "\<lambda>_. True"] resolve_only)

lemma resume_calls_only:
  "set tcs' \<subseteq> set tcs \<Longrightarrow> yields (\<lambda>_. True) (list_all (runs_only (may_run inputs) tcs)) (list_all (runs_only (may_run inputs) tcs))
    (resume_calls a reg inputs idx i tcs' z msgs)"
  by (induction tcs' arbitrary: i z msgs) (auto simp: only.basic intro!: only.piece [OF resume_call_only])

lemma runs_of_batch:
  assumes "Ran n i args \<in> set (log_of (resume_calls a reg inputs idx k tcs z msgs) w)"
  shows "\<exists>tc \<in> set tcs. n = tc_name tc \<and> i = tc_id tc \<and> args = tc_arguments tc \<and> may_run inputs tc"
  using yields_log_of [OF resume_calls_only [OF subset_refl], of inputs tcs a reg idx k z msgs w] assms
  by (auto simp: list_all_iff)

text \<open>
  C18: While a paused batch is resumed, a tool is only started for a call of the batch without a final
  result, with the name and arguments that were stored, and only if no answer is recorded under the
  call's id, or the call waits for an approval and the recorded answer approves. No answer is
  recorded for a call that was never gated, but none either for a gated one whose id is empty, and
  calls that share an id share the answer: for these the theorem does not exclude that a rejected
  call runs.
\<close>

theorem resumed_runs_are_approved:
  assumes "Ran n i args \<in> set (log_of (resume_calls a reg inputs idx k tcs z msgs) w)"
  shows "\<exists>tc \<in> set tcs. n = tc_name tc \<and> i = tc_id tc \<and> args = tc_arguments tc \<and> \<not> isTerminalToolCall tc \<and>
    (map_of inputs (tc_id tc) = None \<or>
     (\<exists>inp. map_of inputs (tc_id tc) = Some inp \<and> tc_status tc = ''pending_approval'' \<and> approves inp))"
  using runs_of_batch [OF assms] unfolding may_run_def by (fastforce split: option.splits)

section \<open>The answer of a call\<close>

text \<open>The answers as the code folds them: by the tool call of their interrupt.\<close>

lemma answer_found:
  "map_of (inputByToolCallID ins inps) c = Some x \<Longrightarrow>
     x \<in> set inps \<and> (\<exists>i. map_of (open_map ins) (ri_interrupt_id x) = Some i \<and> intr_tool_call_id i = c)"
  unfolding inputByToolCallID_def
  by (induction inps rule: rev_induct) (auto split: option.splits if_splits)

lemma answer_exists:
  "inp \<in> set inps \<Longrightarrow> map_of (open_map ins) (ri_interrupt_id inp) = Some i \<Longrightarrow> intr_tool_call_id i \<noteq> [] \<Longrightarrow>
     map_of (inputByToolCallID ins inps) (intr_tool_call_id i) \<noteq> None"
  unfolding inputByToolCallID_def
  by (induction inps rule: rev_induct) (auto split: option.splits if_splits)

lemma answers_by_id:
  assumes "distinct (map intr_tool_call_id ins)" "distinct (map intr_id ins)" "i \<in> set ins" "intr_tool_call_id i \<noteq> []"
    and "distinct (map ri_interrupt_id inps)" "inp \<in> set inps" "ri_interrupt_id inp = intr_id i"
  shows "map_of (inputByToolCallID ins inps) (intr_tool_call_id i) = Some inp"
proof -
  have o: "map_of (open_map ins) (ri_interrupt_id inp) = Some i" using open_map_some assms(2,3,7) by simp
  obtain x where x: "map_of (inputByToolCallID ins inps) (intr_tool_call_id i) = Some x"
    using answer_exists [OF assms(6) o assms(4)] by blast
  obtain j where j: "x \<in> set inps" "map_of (open_map ins) (ri_interrupt_id x) = Some j" "intr_tool_call_id j = intr_tool_call_id i"
    using answer_found [OF x] by blast
  have "j = i" using open_map_id [OF j(2)] j(3) assms(1,3) by (meson distinct_map inj_onD)
  then have "ri_interrupt_id x = ri_interrupt_id inp" using open_map_id [OF j(2)] assms(7) by simp
  then have "x = inp" using assms(5,6) j(1) by (meson distinct_map inj_onD)
  then show ?thesis using x by simp
qed

text \<open>
  C12: When the tool calls of the open interrupts have ids of their own, a call whose answer was
  cancelled, rejected or not understood is not started while its batch is resumed.
\<close>

theorem rejected_call_never_runs:
  assumes "distinct (map intr_tool_call_id ins)" "distinct (map intr_id ins)" "i \<in> set ins" "intr_tool_call_id i \<noteq> []"
    and "validate_inputs ins inps = None" "inp \<in> set inps" "ri_interrupt_id inp = intr_id i" "\<not> approves inp"
  shows "Ran n (intr_tool_call_id i) args \<notin>
    set (log_of (resume_calls a reg (inputByToolCallID ins inps) idx k tcs z msgs) w)"
proof
  assume r: "Ran n (intr_tool_call_id i) args \<in> set (log_of (resume_calls a reg (inputByToolCallID ins inps) idx k tcs z msgs) w)"
  obtain tc where tc: "intr_tool_call_id i = tc_id tc" "may_run (inputByToolCallID ins inps) tc"
    using runs_of_batch [OF r] by blast
  have d: "distinct (map ri_interrupt_id inps)" using assms(5) validate_inputs_iff by blast
  show False
    using tc answers_by_id [OF assms(1-4) d assms(6,7)] assms(8) by (auto simp: may_run_def)
qed

theorem rejected_call_never_runs_witness:
  "Ran ''del'' ''c1'' ''{}'' \<notin> set (log_of (resume_calls demo_agent [] (inputByToolCallID
       [demo_interrupt ''i1'' ''c1'', demo_interrupt ''i2'' ''c2''] [demo_input ''i1'' False, demo_input ''i2'' True])
     0 0 [demo_record ''c1'' ''{}'', demo_record ''c2'' ''{}''] (demo_paused [demo_record ''c1'' ''{}'', demo_record ''c2'' ''{}'']) [])
     demo_session)"
proof -
  let ?ins = "[demo_interrupt ''i1'' ''c1'', demo_interrupt ''i2'' ''c2'']" and ?i = "demo_interrupt ''i1'' ''c1''"
  let ?inps = "[demo_input ''i1'' False, demo_input ''i2'' True]"
  let ?tcs = "[demo_record ''c1'' ''{}'', demo_record ''c2'' ''{}'']"
  have "Ran ''del'' (intr_tool_call_id ?i) ''{}'' \<notin> set (log_of (resume_calls demo_agent []
       (inputByToolCallID ?ins ?inps) 0 0 ?tcs (demo_paused ?tcs) []) demo_session)"
    by (rule rejected_call_never_runs [where inp = "demo_input ''i1'' False"])
      (simp_all add: validate_inputs_iff demo_interrupt_def demo_input_def approves_def)
  then show ?thesis unfolding demo_interrupt_call .
qed

text \<open>
  Calls that share an id share an answer: when two open interrupts carry the same tool call id
  (a provider that uses the function's name for the id gives every call of one function the same
  id), a call the user rejected is executed because the other one was approved.
\<close>

lemma shared_id_executes:
  assumes "intr_tool_call_id i1 = intr_tool_call_id i2" "intr_id i1 \<noteq> intr_id i2" "intr_tool_call_id i1 \<noteq> []"
    and "ri_interrupt_id x1 = intr_id i1" "\<not> approves x1" "ri_interrupt_id x2 = intr_id i2" "approves x2"
    and "tc_id tc = intr_tool_call_id i1" "tc_status tc = ''pending_approval''"
  shows "resolveToolCall reg (inputByToolCallID [i1, i2] [x1, x2]) tc = executeTool reg tc"
  using assms by (auto simp: resolveToolCall_def inputByToolCallID_def open_map_def approves_def)

section \<open>What the session has of the batch\<close>

text \<open>Whether UpdateSession leaves the session its message slice, or puts another one there.\<close>

definition updates_in_place :: "'w agent \<Rightarrow> bool" where
  "updates_in_place a \<longleftrightarrow> (\<forall>sess x fresh w w'. persistSession a sess w = (Inr (x, fresh), w') \<longrightarrow> \<not> fresh)"

definition replaces_messages :: "'w agent \<Rightarrow> bool" where
  "replaces_messages a \<longleftrightarrow> (\<forall>sess x fresh w w'. persistSession a sess w = (Inr (x, fresh), w') \<longrightarrow> fresh)"

definition batch_of :: "nat \<Rightarrow> paused \<Rightarrow> tool_call_record list" where
  "batch_of idx z = msg_tool_calls (sess_messages (pz_session z) ! idx)"

lemma save_paused_keeps:
  assumes "content_kept a" "save_paused a what z r = (Some z1, r1)"
  shows "pz_calls z1 = pz_calls z" "sess_messages (pz_session z1) = sess_messages (pz_session z)"
    "updates_in_place a \<Longrightarrow> pz_live z1 = pz_live z" "replaces_messages a \<Longrightarrow> \<not> pz_live z1"
    "\<not> pz_live z \<Longrightarrow> \<not> pz_live z1"
  using assms unfolding save_paused_def save_or_stop_def
  by (auto simp: proc_defs updates_in_place_def replaces_messages_def content_kept_def
      split: prod.splits sum.splits option.splits if_splits; blast)+

lemma executeTool_status: "executeTool reg tc r = (Some (result, status), r1) \<Longrightarrow> status = ''failed'' \<or> status = ''completed''"
  unfolding executeTool_def start_tool_def
  by (auto simp: proc_defs split: option.splits sum.splits prod.splits if_splits)

lemma resolve_status: "resolveToolCall reg inputs tc r = (Some (result, status), r1) \<Longrightarrow> status = ''failed'' \<or> status = ''completed''"
  unfolding resolveToolCall_def
  by (auto simp: pret_def split: option.splits sum.splits if_splits bool.splits dest: executeTool_status)

lemma dropped [simp]:
  "pz_calls (drop_interrupt t z) = pz_calls z" "pz_live (drop_interrupt t z) = pz_live z"
  "sess_messages (pz_session (drop_interrupt t z)) = sess_messages (pz_session z)"
  by (simp_all add: drop_interrupt_def)

lemma written:
  assumes "idx < length (sess_messages (pz_session z))"
  shows "pz_live (write_result idx i result status z) = pz_live z"
    "length (sess_messages (pz_session (write_result idx i result status z))) = length (sess_messages (pz_session z))"
    "batch_of idx (write_result idx i result status z) =
       (if pz_live z then pz_calls (write_result idx i result status z) else batch_of idx z)"
  using assms by (simp_all add: write_result_def Let_def batch_of_def map_message_def)

text \<open>One call: its record gets a final status; the session has it while the pointer is live.\<close>

definition call_done :: "nat \<Rightarrow> nat \<Rightarrow> tool_call_record \<Rightarrow> string \<Rightarrow> paused \<Rightarrow> paused \<Rightarrow> bool" where
  "call_done idx i tc result z z1 \<longleftrightarrow>
     (\<exists>tc1. isTerminalToolCall tc1 \<and> tc_id tc1 = tc_id tc \<and> tc_result tc1 = result \<and> pz_calls z1 = (pz_calls z)[i := tc1]) \<and>
     (pz_live z \<and> batch_of idx z = pz_calls z \<longrightarrow> batch_of idx z1 = pz_calls z1) \<and>
     (\<not> pz_live z \<longrightarrow> batch_of idx z1 = batch_of idx z \<and> \<not> pz_live z1) \<and>
     length (sess_messages (pz_session z1)) = length (sess_messages (pz_session z))"

lemma resume_call_done:
  assumes kept: "content_kept a" and call: "i < length (pz_calls z)" "pz_calls z ! i = tc"
    and idx: "idx < length (sess_messages (pz_session z))"
    and run: "resume_call a reg inputs idx i tc z r = (Some (z1, result), r1)"
  shows "call_done idx i tc result z z1 \<and> (updates_in_place a \<longrightarrow> pz_live z1 = pz_live z) \<and>
    (replaces_messages a \<and> \<not> isTerminalToolCall tc \<longrightarrow> \<not> pz_live z1)"
proof (cases "isTerminalToolCall tc")
  case True
  have same: "call_done idx i tc result z z1"
    if "pz_calls z1 = pz_calls z" "sess_messages (pz_session z1) = sess_messages (pz_session z)"
      "\<not> pz_live z \<Longrightarrow> \<not> pz_live z1" "result = tc_result tc"
    using that True call by (auto simp: call_done_def batch_of_def intro!: exI [of _ tc])
  show ?thesis
  proof (cases "removeInterruptForToolCall (sess_open_interrupts (pz_session z)) (tc_id tc) = None")
    case none: True
    then show ?thesis using run True same by (simp add: resume_call_def pret_def)
  next
    case False
    then obtain r2 where s: "save_paused a ''agent: persist resumed interrupt cleanup'' (drop_interrupt (tc_id tc) z) r = (Some z1, r2)"
      "result = tc_result tc"
      using run True by (auto simp: resume_call_def pret_def elim!: pseq_cases)
    show ?thesis using save_paused_keeps [OF kept s(1)] s(2) same True by simp
  qed
next
  case False
  obtain status r2 r3 where res: "resolveToolCall reg inputs tc r = (Some (result, status), r2)"
    "save_paused a ''agent: persist resumed tool result'' (drop_interrupt (tc_id tc) (write_result idx i result status z)) r2 = (Some z1, r3)"
    using run False by (auto simp: resume_call_def pret_def emit_def log_acts_def elim!: pseq_cases)
  let ?tc1 = "tc\<lparr>tc_result := result, tc_status := status\<rparr>"
  have t: "isTerminalToolCall ?tc1" using resolve_status [OF res(1)] by (auto simp: isTerminalToolCall_def)
  have c: "pz_calls (write_result idx i result status z) = (pz_calls z)[i := ?tc1]"
    using call(2) by (simp add: write_result_def Let_def)
  have b: "batch_of idx z1 = batch_of idx (write_result idx i result status z)"
    using save_paused_keeps(2) [OF kept res(2)] by (simp add: batch_of_def)
  have "call_done idx i tc result z z1"
    unfolding call_done_def
    using save_paused_keeps(1,2,5) [OF kept res(2)] written [OF idx, of i result status] t c b
    by (auto intro!: exI [of _ ?tc1])
  then show ?thesis
    using save_paused_keeps(3,4) [OF kept res(2)] written(1) [OF idx] False by auto
qed

lemma resume_calls_recorded:
  assumes kept: "content_kept a" "updates_in_place a"
  shows "pz_live z \<Longrightarrow> batch_of idx z = pz_calls z \<Longrightarrow> idx < length (sess_messages (pz_session z)) \<Longrightarrow>
    drop i (pz_calls z) = tcs \<Longrightarrow> list_all isTerminalToolCall (take i (pz_calls z)) \<Longrightarrow>
    resume_calls a reg inputs idx i tcs z msgs r = (Some (z', msgs'), r') \<Longrightarrow>
    batch_of idx z' = pz_calls z' \<and> list_all isTerminalToolCall (pz_calls z') \<and> take i (pz_calls z') = take i (pz_calls z) \<and>
    map tc_id (pz_calls z') = map tc_id (pz_calls z) \<and>
    map pm_content msgs' = map pm_content msgs @ map tc_result (drop i (pz_calls z'))"
proof (induction tcs arbitrary: i z msgs r)
  case Nil
  then show ?case by (auto simp: pret_def)
next
  case (Cons tc tcs)
  have i: "i < length (pz_calls z)" using Cons.prems(4) by (cases "i < length (pz_calls z)") simp_all
  then have tc: "pz_calls z ! i = tc" "drop (Suc i) (pz_calls z) = tcs"
    using Cons.prems(4) unfolding Cons_nth_drop_Suc [OF i, symmetric] by simp_all
  obtain z1 result r1 where one: "resume_call a reg inputs idx i tc z r = (Some (z1, result), r1)"
    and rest: "resume_calls a reg inputs idx (Suc i) tcs z1 (msgs @ [tool_message (tc_id tc) (tc_name tc) result]) r1 = (Some (z', msgs'), r')"
    using Cons.prems(6) by (auto elim!: pseq_cases)
  have d: "call_done idx i tc result z z1" "pz_live z1"
    using resume_call_done [OF kept(1) i tc(1) Cons.prems(3) one] kept(2) Cons.prems(1) by auto
  then obtain tc1 where t: "isTerminalToolCall tc1" "tc_id tc1 = tc_id tc" "tc_result tc1 = result" "pz_calls z1 = (pz_calls z)[i := tc1]"
    by (auto simp: call_done_def)
  have upto: "take (Suc i) (pz_calls z1) = take i (pz_calls z) @ [tc1]"
    using i by (simp add: t(4) take_Suc_conv_app_nth)
  have ih: "batch_of idx z' = pz_calls z' \<and> list_all isTerminalToolCall (pz_calls z') \<and> take (Suc i) (pz_calls z') = take (Suc i) (pz_calls z1) \<and>
    map tc_id (pz_calls z') = map tc_id (pz_calls z1) \<and>
    map pm_content msgs' = map pm_content (msgs @ [tool_message (tc_id tc) (tc_name tc) result]) @ map tc_result (drop (Suc i) (pz_calls z'))"
  proof (rule Cons.IH [OF d(2)])
    show "batch_of idx z1 = pz_calls z1" "idx < length (sess_messages (pz_session z1))"
      using d(1) Cons.prems(1,2,3) by (auto simp: call_done_def)
    show "drop (Suc i) (pz_calls z1) = tcs" by (simp add: t(4) tc(2))
    show "list_all isTerminalToolCall (take (Suc i) (pz_calls z1))" using Cons.prems(5) t(1) by (simp add: upto)
  qed (rule rest)
  have len: "i < length (pz_calls z')" using ih i t(4) by (metis length_list_update length_map)
  have "take i (pz_calls z') = take i (take (Suc i) (pz_calls z'))" by simp
  then have "take i (pz_calls z') = take i (pz_calls z)" using ih i by (simp add: upto)
  moreover have "pz_calls z' ! i = tc1"
  proof -
    have "pz_calls z' ! i = take (Suc i) (pz_calls z') ! i" by simp
    also have "\<dots> = tc1" using ih i by (simp add: upto nth_append)
    finally show ?thesis .
  qed
  moreover have "map tc_id (pz_calls z1) = map tc_id (pz_calls z)" using t(2,4) tc(1) by (simp add: map_update_same)
  ultimately show ?case
    using ih t(3) Cons_nth_drop_Suc [OF len, symmetric] by (simp add: tool_message_def)
qed

text \<open>
  C15: With a store that keeps what it is given and updates the session in place, a resumed batch
  is recorded completely: when the last call is done every call of the paused message has a final
  status, the calls are the same as before, and the results the provider is sent are the ones that
  are stored.
\<close>

theorem resumed_batch_recorded:
  assumes "content_kept a" "updates_in_place a" "pz_live z" "batch_of idx z = pz_calls z" "idx < length (sess_messages (pz_session z))"
    and "value_of (resume_calls a reg inputs idx 0 (pz_calls z) z msgs) w = Some (z', msgs')"
  shows "list_all isTerminalToolCall (batch_of idx z') \<and> map tc_id (batch_of idx z') = map tc_id (batch_of idx z) \<and>
    map pm_content msgs' = map pm_content msgs @ map tc_result (batch_of idx z')"
proof -
  obtain r' where "resume_calls a reg inputs idx 0 (pz_calls z) z msgs \<lparr>r_world = w, r_log = []\<rparr> = (Some (z', msgs'), r')"
    using assms(6) unfolding value_of_def by (metis prod.collapse)
  from resume_calls_recorded [OF assms(1-5) _ _ this] show ?thesis using assms(4) by simp
qed

lemma resume_calls_stale:
  assumes "content_kept a"
  shows "\<not> pz_live z \<Longrightarrow> idx < length (sess_messages (pz_session z)) \<Longrightarrow> drop i (pz_calls z) = tcs \<Longrightarrow>
    resume_calls a reg inputs idx i tcs z msgs r = (Some (z', msgs'), r') \<Longrightarrow> batch_of idx z' = batch_of idx z"
proof (induction tcs arbitrary: i z msgs r)
  case Nil
  then show ?case by (simp add: pret_def)
next
  case (Cons tc tcs)
  have i: "i < length (pz_calls z)" using Cons.prems(3) by (cases "i < length (pz_calls z)") simp_all
  then have tc: "pz_calls z ! i = tc" "drop (Suc i) (pz_calls z) = tcs"
    using Cons.prems(3) unfolding Cons_nth_drop_Suc [OF i, symmetric] by simp_all
  obtain z1 result r1 where one: "resume_call a reg inputs idx i tc z r = (Some (z1, result), r1)"
    and rest: "resume_calls a reg inputs idx (Suc i) tcs z1 (msgs @ [tool_message (tc_id tc) (tc_name tc) result]) r1 = (Some (z', msgs'), r')"
    using Cons.prems(4) by (auto elim!: pseq_cases)
  have d: "call_done idx i tc result z z1" using resume_call_done [OF assms i tc(1) Cons.prems(2) one] by blast
  then have "batch_of idx z' = batch_of idx z1"
    using Cons.prems(1,2) tc(2) by (intro Cons.IH [OF _ _ _ rest]) (auto simp: call_done_def)
  then show ?case using d Cons.prems(1) by (simp add: call_done_def)
qed

text \<open>
  With a store that replaces the session's messages (the JSONL store overwrites the session it
  is handed), only the first result of a resumed batch is stored: the runner goes on writing
  through a pointer to the old messages, and when the batch is done every call after the first is
  still stored as it was before, pending and without a result.
\<close>

theorem resumed_results_lost:
  assumes "content_kept a" "replaces_messages a" "pz_live z" "batch_of idx z = pz_calls z" "idx < length (sess_messages (pz_session z))"
    and "pz_calls z = tc # tcs" "\<not> isTerminalToolCall tc"
    and "value_of (resume_calls a reg inputs idx 0 (pz_calls z) z msgs) w = Some (z', msgs')"
  shows "tl (batch_of idx z') = tcs"
proof -
  obtain r' where run: "resume_calls a reg inputs idx 0 (tc # tcs) z msgs \<lparr>r_world = w, r_log = []\<rparr> = (Some (z', msgs'), r')"
    using assms(6,8) unfolding value_of_def by (metis prod.collapse)
  then obtain z1 result r1 where one: "resume_call a reg inputs idx 0 tc z \<lparr>r_world = w, r_log = []\<rparr> = (Some (z1, result), r1)"
    and rest: "resume_calls a reg inputs idx (Suc 0) tcs z1 (msgs @ [tool_message (tc_id tc) (tc_name tc) result]) r1 = (Some (z', msgs'), r')"
    by (auto elim!: pseq_cases)
  have d: "call_done idx 0 tc result z z1" "\<not> pz_live z1"
    using resume_call_done [OF assms(1) _ _ assms(5) one] assms(2,6,7) by auto
  then have b: "batch_of idx z1 = pz_calls z1" "tl (pz_calls z1) = tcs" "idx < length (sess_messages (pz_session z1))"
    using assms(3,4,5,6) by (auto simp: call_done_def)
  have "batch_of idx z' = batch_of idx z1"
    by (rule resume_calls_stale [OF assms(1) d(2) b(3) _ rest]) (use b(2) in \<open>simp add: drop_Suc\<close>)
  then show ?thesis using b by simp
qed

section \<open>Witnesses\<close>

definition demo_stale_agent :: "session agent" where
  "demo_stale_agent = demo_agent\<lparr>ag_Store := Some (demo_store True)\<rparr>"

lemma demo_stores:
  "updates_in_place demo_agent" "replaces_messages demo_stale_agent" "content_kept demo_stale_agent"
  by (auto simp: updates_in_place_def replaces_messages_def content_kept_def persistSession_def demo_stale_agent_def
    demo_agent_def demo_store_def bare_agent_def Let_def)

abbreviation demo_batch :: "tool_call_record list" where
  "demo_batch \<equiv> [demo_record ''c1'' ''{}'', demo_record ''c2'' ''{}'']"

abbreviation demo_rejections :: "(string \<times> resume_input) list" where
  "demo_rejections \<equiv> [(''c1'', demo_input ''i1'' False), (''c2'', demo_input ''i2'' False)]"

lemmas demo_resume_defs = value_of_def log_of_def resume_call_def resolveToolCall_def save_paused_def save_or_stop_def persistSession_def
  proc_defs demo_record_def demo_paused_def isTerminalToolCall_def demo_input_def

lemma demo_batch_done:
  "\<exists>z msgs. value_of (resume_calls demo_agent [] demo_rejections 0 0 demo_batch (demo_paused demo_batch) []) demo_session = Some (z, msgs)"
  "\<exists>z msgs. value_of (resume_calls demo_stale_agent [] demo_rejections 0 0 demo_batch (demo_paused demo_batch) []) demo_session = Some (z, msgs)"
  by (simp_all add: demo_resume_defs demo_stale_agent_def demo_agent_def demo_store_def bare_agent_def Let_def)

lemma demo_paused_facts:
  "pz_live (demo_paused tcs)" "batch_of 0 (demo_paused tcs) = pz_calls (demo_paused tcs)"
  "0 < length (sess_messages (pz_session (demo_paused tcs)))" "pz_calls (demo_paused tcs) = tcs"
  by (simp_all add: demo_paused_def batch_of_def)

theorem resumed_batch_recorded_witness:
  "\<exists>z msgs. value_of (resume_calls demo_agent [] demo_rejections 0 0 demo_batch (demo_paused demo_batch) []) demo_session = Some (z, msgs) \<and>
     list_all isTerminalToolCall (batch_of 0 z) \<and> length (batch_of 0 z) = 2"
proof -
  obtain z msgs where r: "value_of (resume_calls demo_agent [] demo_rejections 0 0 demo_batch (demo_paused demo_batch) []) demo_session = Some (z, msgs)"
    using demo_batch_done(1) by blast
  have "list_all isTerminalToolCall (batch_of 0 z) \<and> map tc_id (batch_of 0 z) = map tc_id (batch_of 0 (demo_paused demo_batch))"
    using resumed_batch_recorded [OF demo_content_kept demo_stores(1) demo_paused_facts(1-3), unfolded demo_paused_facts(4), OF r]
    by simp
  moreover from this have "length (batch_of 0 z) = length (batch_of 0 (demo_paused demo_batch))" by (metis length_map)
  ultimately show ?thesis using r by (auto simp: demo_paused_facts)
qed

theorem resumed_results_lost_witness:
  "\<exists>z msgs. value_of (resume_calls demo_stale_agent [] demo_rejections 0 0 demo_batch (demo_paused demo_batch) []) demo_session = Some (z, msgs) \<and>
     tl (batch_of 0 z) = [demo_record ''c2'' ''{}'']"
proof -
  obtain z msgs where r: "value_of (resume_calls demo_stale_agent [] demo_rejections 0 0 demo_batch (demo_paused demo_batch) []) demo_session = Some (z, msgs)"
    using demo_batch_done(2) by blast
  have "\<not> isTerminalToolCall (demo_record ''c1'' ''{}'')" by (simp add: demo_record_def isTerminalToolCall_def)
  then show ?thesis
    using resumed_results_lost [OF demo_stores(3,2) demo_paused_facts(1-4), unfolded demo_paused_facts(4)] r by blast
qed

definition demo_tool :: "session tool" where
  "demo_tool = \<lparr>tool_name = ''del'', tool_description = [], tool_parameters = JNull, tool_client_side = False,
     tool_execute = (\<lambda>_. act_ret \<lparr>tr_data = JNull, tr_status = [], tr_error = [], tr_duration = 0, tr_executed_at = 0, tr_fix = []\<rparr>)\<rparr>"

lemma demo_input_text: "parse_input ''{}'' = Inr (Some [])"
  by code_simp

lemma demo_approved_runs:
  "Ran ''del'' ''c1'' ''{}'' \<in> set (log_of (resume_calls demo_agent [(''del'', demo_tool)] [(''c1'', demo_input ''i1'' True)] 0 0
     [demo_record ''c1'' ''{}''] (demo_paused [demo_record ''c1'' ''{}'']) []) demo_session)"
  by (simp add: demo_resume_defs executeTool_def start_tool_def Get_tool_def demo_input_text demo_tool_def act_ret_def
    demo_agent_def demo_store_def bare_agent_def Let_def)

theorem resumed_runs_are_approved_witness:
  "\<exists>tc \<in> set [demo_record ''c1'' ''{}'']. ''del'' = tc_name tc \<and> ''c1'' = tc_id tc \<and> ''{}'' = tc_arguments tc \<and> \<not> isTerminalToolCall tc \<and>
    (map_of [(''c1'', demo_input ''i1'' True)] (tc_id tc) = None \<or>
     (\<exists>inp. map_of [(''c1'', demo_input ''i1'' True)] (tc_id tc) = Some inp \<and> tc_status tc = ''pending_approval'' \<and> approves inp))"
  by (rule resumed_runs_are_approved [OF demo_approved_runs])

end
