(* ===== verification/Jsonl_Fs.thy ===== *)
theory Jsonl_Fs
  imports Json
begin

text \<open>
  The machine under storage/metadata/jsonl: files, the random source and the clock. Every
  system call takes the next element of a fault script (an exhausted script means success), so
  a theorem over all scripts covers every way the calls can fail, and every point a process
  can stop at: a process that stops inside a call leaves the files some failing call leaves.

  An operation that returns \<open>(T, error)\<close> is an \<open>io\<close>: it passes the machine on and
  returns a sum. \<open>seq\<close> is \<open>x, err := m; if err != nil { return err }; k(x)\<close>.
\<close>

section \<open>The machine\<close>

text \<open>
  \<open>FShort n m\<close> fails a write after \<open>n\<close> bytes, \<open>FCut n m\<close> fails a read after \<open>n\<close>
  bytes, \<open>FBusy\<close> is a lock held by another process. Any other call fails on the first three
  faults with the text \<open>m\<close>.
\<close>

datatype fault = FOk | FFail string | FShort nat string | FCut nat string | FBusy

record os =
  files :: "(string \<times> string) list"
  symlinks :: "string list"
  faults :: "fault list"
  rnd :: "nat \<Rightarrow> string option"
  rnd_pos :: nat
  clk :: "nat \<Rightarrow> int"
  clk_pos :: nat

type_synonym 'a io = "os \<Rightarrow> (error + 'a) \<times> os"

definition ret :: "'a \<Rightarrow> 'a io" where
  "ret x s = (Inr x, s)"

definition raise :: "error \<Rightarrow> 'a io" where
  "raise e s = (Inl e, s)"

definition seq :: "'a io \<Rightarrow> ('a \<Rightarrow> 'b io) \<Rightarrow> 'b io" where
  "seq m k s = (case m s of (Inl e, s') \<Rightarrow> (Inl e, s') | (Inr x, s') \<Rightarrow> k x s')"

text \<open>\<open>fmt.Errorf(p + ": %w", err)\<close>, an error dropped with \<open>_ =\<close>, a pure result.\<close>

definition wrapping :: "string \<Rightarrow> 'a io \<Rightarrow> 'a io" where
  "wrapping p m s = (case m s of (Inl e, s') \<Rightarrow> (Inl (wrapf p e), s') | (Inr x, s') \<Rightarrow> (Inr x, s'))"

definition ignoring :: "'a io \<Rightarrow> unit io" where
  "ignoring m s = (Inr (), snd (m s))"

definition lift_result :: "error + 'a \<Rightarrow> 'a io" where
  "lift_result r s = (r, s)"

section \<open>System calls\<close>

definition next_fault :: "os \<Rightarrow> fault \<times> os" where
  "next_fault s = (case faults s of [] \<Rightarrow> (FOk, s) | f # fs \<Rightarrow> (f, s\<lparr>faults := fs\<rparr>))"

fun fault_text :: "fault \<Rightarrow> string option" where
  "fault_text (FFail m) = Some m"
| "fault_text (FShort n m) = Some m"
| "fault_text (FCut n m) = Some m"
| "fault_text FOk = None"
| "fault_text FBusy = None"

definition sys :: "unit io" where
  "sys s = (case next_fault s of (f, s') \<Rightarrow>
     (case fault_text f of Some m \<Rightarrow> (Inl (ErrMsg m), s') | None \<Rightarrow> (Inr (), s')))"

abbreviation file_at :: "os \<Rightarrow> string \<Rightarrow> string option" where
  "file_at s \<equiv> map_of (files s)"

definition set_file :: "string \<Rightarrow> string \<Rightarrow> os \<Rightarrow> os" where
  "set_file p b s = s\<lparr>files := map_put p b (files s)\<rparr>"

definition del_file :: "string \<Rightarrow> os \<Rightarrow> os" where
  "del_file p s = s\<lparr>files := filter (\<lambda>kv. fst kv \<noteq> p) (files s)\<rparr>"

definition add_bytes :: "string \<Rightarrow> string \<Rightarrow> os \<Rightarrow> os" where
  "add_bytes p b s = set_file p ((case file_at s p of Some c \<Rightarrow> c | None \<Rightarrow> []) @ b) s"

text \<open>\<open>os.OpenFile(p, O_CREATE|..., 0600)\<close>; \<open>f.Write\<close> on a file opened for append.\<close>

definition open_create :: "string \<Rightarrow> unit io" where
  "open_create p = seq sys (\<lambda>_ s. (Inr (), case file_at s p of Some _ \<Rightarrow> s | None \<Rightarrow> set_file p [] s))"

definition write_bytes :: "string \<Rightarrow> string \<Rightarrow> unit io" where
  "write_bytes p b s = (case next_fault s of (f, s') \<Rightarrow>
     (case f of
        FShort n m \<Rightarrow> (Inl (ErrMsg m), add_bytes p (take n b) s')
      | FFail m \<Rightarrow> (Inl (ErrMsg m), s')
      | FCut n m \<Rightarrow> (Inl (ErrMsg m), s')
      | _ \<Rightarrow> (Inr (), add_bytes p b s')))"

text \<open>The bytes a reader gets to the end of the file, and the error that stopped it early.\<close>

definition read_bytes :: "string \<Rightarrow> os \<Rightarrow> (string \<times> string option) \<times> os" where
  "read_bytes p s = (let b = (case file_at s p of Some c \<Rightarrow> c | None \<Rightarrow> []) in
     case next_fault s of (f, s') \<Rightarrow>
     (case f of
        FCut n m \<Rightarrow> ((take n b, Some m), s')
      | FFail m \<Rightarrow> (([], Some m), s')
      | FShort n m \<Rightarrow> (([], Some m), s')
      | _ \<Rightarrow> ((b, None), s')))"

text \<open>\<open>os.Stat\<close>: whether the file exists; a fault is an error other than ErrNotExist.\<close>

definition stat_file :: "string \<Rightarrow> bool io" where
  "stat_file p = seq sys (\<lambda>_ s. (Inr (file_at s p \<noteq> None), s))"

definition remove_file :: "string \<Rightarrow> unit io" where
  "remove_file p = seq sys (\<lambda>_ s. (Inr (), del_file p s))"

definition rename_file :: "string \<Rightarrow> string \<Rightarrow> unit io" where
  "rename_file p q = seq sys (\<lambda>_ s.
     (case file_at s p of
        None \<Rightarrow> (Inl (ErrMsg ''no such file or directory''), s)
      | Some b \<Rightarrow> (Inr (), set_file q b (del_file p s))))"

text \<open>\<open>time.Now()\<close> in nanoseconds; \<open>UnixMilli\<close> divides.\<close>

definition now_nano :: "os \<Rightarrow> int \<times> os" where
  "now_nano s = (clk s (clk_pos s), s\<lparr>clk_pos := Suc (clk_pos s)\<rparr>)"

definition now_milli :: "os \<Rightarrow> int \<times> os" where
  "now_milli s = (case now_nano s of (t, s') \<Rightarrow> (t div 1000000, s'))"

text \<open>newID of store.go: 16 random bytes in hex, or the clock when the random source fails.\<close>

definition newID :: "string \<Rightarrow> os \<Rightarrow> string \<times> os" where
  "newID pre s = (let s' = s\<lparr>rnd_pos := Suc (rnd_pos s)\<rparr> in
     case rnd s (rnd_pos s) of
       Some b \<Rightarrow> (pre @ hex_of b, s')
     | None \<Rightarrow> (case now_nano s' of (t, s'') \<Rightarrow> (pre @ int_text t, s'')))"

section \<open>Paths\<close>

text \<open>\<open>filepath.Join\<close> of a clean directory and a plain name, and its parts.\<close>

definition join_path :: "string \<Rightarrow> string \<Rightarrow> string" where
  "join_path d n = d @ ''/'' @ n"

definition dir_entries :: "string \<Rightarrow> os \<Rightarrow> string list" where
  "dir_entries d s =
     [drop (length d + 1) (fst f). f \<leftarrow> files s,
        prefix (d @ ''/'') (fst f), CHR ''/'' \<notin> set (drop (length d + 1) (fst f))]"

lemma join_path_inj [simp]: "join_path d n = join_path d n' \<longleftrightarrow> n = n'"
  by (simp add: join_path_def)

lemma join_path_plain:
  assumes "join_path d n = join_path d' n'" "CHR ''/'' \<notin> set n" "CHR ''/'' \<notin> set n'"
  shows "d = d' \<and> n = n'"
proof -
  have *: "takeWhile (\<lambda>c. c \<noteq> CHR ''/'') (rev (join_path e m)) = rev m" if "CHR ''/'' \<notin> set m" for e m
    using that by (induction m arbitrary: e rule: rev_induct) (auto simp: join_path_def takeWhile_append)
  have "rev n = rev n'"
    using * [of n d] * [of n' d'] assms by simp
  then show ?thesis using assms(1) by (simp add: join_path_def)
qed

section \<open>Rules\<close>

lemmas io_defs [spec_defs] = ret_def raise_def lift_result_def ignoring_def

lemma seq_ok: "m s = (Inr x, s') \<Longrightarrow> seq m k s = k x s'"
  and seq_err: "m s = (Inl e, s') \<Longrightarrow> seq m k s = (Inl e, s')"
  by (simp_all add: seq_def)

lemma seq_cases:
  assumes "seq m k s = (r, t)"
  obtains (err) e where "m s = (Inl e, t)" "r = Inl e"
  | (ok) x s' where "m s = (Inr x, s')" "k x s' = (r, t)"
  using assms by (auto simp: seq_def split: prod.splits sum.splits)

lemma wrapping_cases:
  assumes "wrapping p m s = (r, t)"
  obtains (err) e where "m s = (Inl e, t)" "r = Inl (wrapf p e)"
  | (ok) x where "m s = (Inr x, t)" "r = Inr x"
  using assms by (auto simp: wrapping_def split: prod.splits sum.splits)

lemma wrapping_ok: "m s = (Inr x, s') \<Longrightarrow> wrapping p m s = (Inr x, s')"
  and wrapping_err: "m s = (Inl e, s') \<Longrightarrow> wrapping p m s = (Inl (wrapf p e), s')"
  by (simp_all add: wrapping_def)

lemma file_at_set [simp]: "file_at (set_file p b s) = (file_at s)(p \<mapsto> b)"
  by (simp add: set_file_def)

lemma file_at_del [simp]: "file_at (del_file p s) = (file_at s)(p := None)"
proof
  fix q
  have "map_of (filter (\<lambda>kv. fst kv \<noteq> p) xs) q = (if q = p then None else map_of xs q)" for xs :: "(string \<times> string) list"
    by (induction xs) auto
  then show "file_at (del_file p s) q = ((file_at s)(p := None)) q"
    by (simp add: del_file_def)
qed

text \<open>The parts of the machine an operation on files leaves alone.\<close>

lemma set_file_simps [simp]:
  "faults (set_file p b s) = faults s" "rnd (set_file p b s) = rnd s" "rnd_pos (set_file p b s) = rnd_pos s"
  "clk (set_file p b s) = clk s" "clk_pos (set_file p b s) = clk_pos s" "symlinks (set_file p b s) = symlinks s"
  by (simp_all add: set_file_def)

lemma del_file_simps [simp]:
  "faults (del_file p s) = faults s" "rnd (del_file p s) = rnd s" "rnd_pos (del_file p s) = rnd_pos s"
  "clk (del_file p s) = clk s" "clk_pos (del_file p s) = clk_pos s" "symlinks (del_file p s) = symlinks s"
  by (simp_all add: del_file_def)

end
