(* ===== verification/Jsonl_Log.thy ===== *)
theory Jsonl_Log
  imports Jsonl_Fs Metadata
begin

text \<open>
  storage/metadata/jsonl/store.go and lock.go: the store's paths, the record format of every
  file, and the operations on one log: append a record, read the records, repair a final line
  without its newline, replace the whole log. \<open>scan\<close> is the reading loop on the bytes; the
  lemmas say what it gives after an append that completed, or stopped after any number of
  bytes. \<open>keeps\<close> is the frame every operation is shown to have.
\<close>

section \<open>Store and envelopes\<close>

text \<open>\<open>unicode_table\<close> stands for unicode.IsLetter and unicode.IsDigit above ASCII.\<close>

record store =
  rootDir :: string
  workspace :: string
  projectDir :: string
  storeDir :: string
  locksDir :: string
  transcriptDir :: string
  unicode_table :: "nat \<Rightarrow> bool"

record envelope =
  env_version :: int
  env_event_id :: string
  env_txn :: string
  env_type :: string
  env_session :: string
  env_key :: string
  env_timestamp :: int
  env_payload :: "json option"

definition schemaVersion :: int where
  "schemaVersion = 1"

definition mutableCompactionBytes :: nat where
  "mutableCompactionBytes = 16 * 2 ^ 20"

definition enc_envelope :: "envelope \<Rightarrow> json" where
  "enc_envelope e = JObj
     ([(''version'', enc_int (env_version e)), (''eventId'', JStr (env_event_id e))]
      @ omit_str ''transactionId'' (env_txn e)
      @ [(''type'', JStr (env_type e))]
      @ omit_str ''sessionId'' (env_session e)
      @ omit_str ''key'' (env_key e)
      @ [(''timestamp'', enc_int (env_timestamp e))]
      @ (case env_payload e of None \<Rightarrow> [] | Some v \<Rightarrow> [(''payload'', v)]))"

definition dec_envelope :: "json \<Rightarrow> envelope option" where
  "dec_envelope = dec_struct (\<lambda>kvs. do {
     v \<leftarrow> dec_int64 (jmember ''version'' kvs);
     i \<leftarrow> dec_string (jmember ''eventId'' kvs);
     x \<leftarrow> dec_string (jmember ''transactionId'' kvs);
     t \<leftarrow> dec_string (jmember ''type'' kvs);
     s \<leftarrow> dec_string (jmember ''sessionId'' kvs);
     k \<leftarrow> dec_string (jmember ''key'' kvs);
     ts \<leftarrow> dec_int64 (jmember ''timestamp'' kvs);
     Some \<lparr>env_version = v, env_event_id = i, env_txn = x, env_type = t, env_session = s,
           env_key = k, env_timestamp = ts, env_payload = jmember ''payload'' kvs\<rparr> })"

text \<open>\<open>json.Unmarshal(raw, &x)\<close>; the text of a decoding error is not modelled.\<close>

definition unmarshal :: "(json \<Rightarrow> 'a option) \<Rightarrow> string \<Rightarrow> error + 'a" where
  "unmarshal dec raw =
     (case json_Unmarshal raw of None \<Rightarrow> Inl (ErrMsg ''invalid JSON'')
      | Some v \<Rightarrow> (case dec v of None \<Rightarrow> Inl (ErrMsg ''invalid JSON'') | Some x \<Rightarrow> Inr x))"

definition decode_payload :: "(json \<Rightarrow> 'a option) \<Rightarrow> json option \<Rightarrow> error + 'a" where
  "decode_payload dec p =
     (case p of None \<Rightarrow> Inl (ErrMsg ''invalid JSON'')
      | Some v \<Rightarrow> (case dec v of None \<Rightarrow> Inl (ErrMsg ''invalid JSON'') | Some x \<Rightarrow> Inr x))"

definition newEnvelope :: "string \<Rightarrow> string \<Rightarrow> string \<Rightarrow> json \<Rightarrow> envelope io" where
  "newEnvelope typ sessionID key payload s =
     (case json_Marshal payload of
        Inl e \<Rightarrow> (Inl e, s)
      | Inr _ \<Rightarrow>
          (case newID ''evt-'' s of (i, s1) \<Rightarrow>
             (case now_milli s1 of (t, s2) \<Rightarrow>
                (Inr \<lparr>env_version = schemaVersion, env_event_id = i, env_txn = [], env_type = typ,
                      env_session = sessionID, env_key = key, env_timestamp = t,
                      env_payload = Some payload\<rparr>, s2))))"

section \<open>One log\<close>

text \<open>\<open>f.Write\<close>, then \<open>f.Sync\<close> if it succeeded, then \<open>f.Close\<close> in any case.\<close>

definition write_sync_close :: "string \<Rightarrow> string \<Rightarrow> unit io" where
  "write_sync_close path b s =
     (case write_bytes path b s of (w, s1) \<Rightarrow>
        (case (case w of Inl e \<Rightarrow> (Inl e, s1) | Inr _ \<Rightarrow> sys s1) of (w', s2) \<Rightarrow>
           (case sys s2 of (c, s3) \<Rightarrow> ((case w' of Inl e \<Rightarrow> Inl e | Inr _ \<Rightarrow> c), s3))))"

text \<open>Opening the directory, Sync, then Close in any case (on a system other than Windows).\<close>

definition syncDir :: "unit io" where
  "syncDir = seq sys (\<lambda>_ s.
     (case sys s of (w, s1) \<Rightarrow>
        (case sys s1 of (c, s2) \<Rightarrow> ((case w of Inl e \<Rightarrow> Inl e | Inr _ \<Rightarrow> c), s2))))"

definition chmod_or_close :: "unit io" where
  "chmod_or_close s = (case sys s of (Inr _, s1) \<Rightarrow> (Inr (), s1) | (Inl e, s1) \<Rightarrow> (Inl e, snd (sys s1)))"

definition appendEnvelope :: "string \<Rightarrow> envelope \<Rightarrow> unit io" where
  "appendEnvelope path e =
     seq (wrapping ''marshal envelope'' (lift_result (json_Marshal (enc_envelope e)))) (\<lambda>line.
     seq (open_create path) (\<lambda>_.
     seq chmod_or_close (\<lambda>_.
     seq (write_sync_close path (line @ [CHR 0x0A])) (\<lambda>_.
     syncDir))))"

definition is_space :: "char \<Rightarrow> bool" where
  "is_space c \<longleftrightarrow> (let n = of_char c :: nat in n = 32 \<or> (9 \<le> n \<and> n \<le> 13))"

definition trim_cr :: "string \<Rightarrow> string" where
  "trim_cr l = (if l \<noteq> [] \<and> last l = CHR 0x0D then butlast l else l)"

definition decode_line :: "string \<Rightarrow> string \<Rightarrow> bool \<Rightarrow> error + envelope" where
  "decode_line path line complete =
     (let raw = trim_cr line in
      if list_all is_space raw then Inl (ErrMsg (''jsonl: malformed empty record in '' @ path))
      else case unmarshal dec_envelope raw of
        Inl err \<Rightarrow> Inl (wrapf (''jsonl: malformed '' @ (if complete then ''complete'' else ''unterminated final'')
                               @ '' record in '' @ path) err)
      | Inr e \<Rightarrow>
          if env_version e \<noteq> schemaVersion then
            Inl (ErrMsg (''jsonl: unsupported envelope version '' @ int_text (env_version e) @ '' in '' @ path))
          else if env_event_id e = [] \<or> env_type e = [] then
            Inl (ErrMsg (''jsonl: incomplete envelope in '' @ path))
          else Inr e)"

text \<open>
  The loop of readEnvelopes over the bytes read and the error that ended the reading, if any.
  The flag asks for the final newline to be repaired: the code takes a final line without
  newline for that of a complete record whatever ended the reading.
\<close>

function scan :: "string \<Rightarrow> string \<Rightarrow> string option \<Rightarrow> error + envelope list \<times> bool" where
  "scan path data rerr =
     (let line = takeWhile (\<lambda>c. c \<noteq> CHR 0x0A) data in
      case dropWhile (\<lambda>c. c \<noteq> CHR 0x0A) data of
        c # r \<Rightarrow>
          (case decode_line path line True of
             Inl e \<Rightarrow> Inl e
           | Inr e \<Rightarrow> (case scan path r rerr of Inl x \<Rightarrow> Inl x | Inr (es, b) \<Rightarrow> Inr (e # es, b)))
      | [] \<Rightarrow>
          if line = [] then
            (case rerr of None \<Rightarrow> Inr ([], False) | Some m \<Rightarrow> Inl (wrapf (''jsonl: read '' @ path) (ErrMsg m)))
          else
            (case decode_line path line False of Inl e \<Rightarrow> Inl e | Inr e \<Rightarrow> Inr ([e], True)))"
  by pat_completeness auto
termination
proof (relation "measure (\<lambda>(p, d, e). length d)", goal_cases)
  case (2 path data rerr line c r)
  have "length (c # r) \<le> length data"
    using 2(2) by (metis length_dropWhile_le)
  then show ?case by simp
qed simp

declare scan.simps [simp del]

definition repairFinalNewline :: "string \<Rightarrow> unit io" where
  "repairFinalNewline path = seq sys (\<lambda>_. write_sync_close path [CHR 0x0A])"

definition readEnvelopes :: "string \<Rightarrow> envelope list io" where
  "readEnvelopes path = seq sys (\<lambda>_ s.
     (case file_at s path of
        None \<Rightarrow> (Inr [], s)
      | Some _ \<Rightarrow>
          (case read_bytes path s of ((data, rerr), s1) \<Rightarrow>
             (case scan path data rerr of
                Inl e \<Rightarrow> (Inl e, s1)
              | Inr (es, repair) \<Rightarrow>
                  if repair then
                    seq (wrapping (''jsonl: repair final record in '' @ path) (repairFinalNewline path))
                      (\<lambda>_. ret es) s1
                  else (Inr es, s1)))))"

text \<open>The bytes of a list of records; marshalling stops at the first record it fails on.\<close>

fun marshal_all :: "envelope list \<Rightarrow> error + string" where
  "marshal_all [] = Inr []"
| "marshal_all (e # es) =
     (case json_Marshal (enc_envelope e) of Inl x \<Rightarrow> Inl x
      | Inr l \<Rightarrow> (case marshal_all es of Inl x \<Rightarrow> Inl x | Inr ls \<Rightarrow> Inr (l @ [CHR 0x0A] @ ls)))"

text \<open>
  os.CreateTemp draws names until one is free, 10000 times; the drawn text is the random
  source's.
\<close>

fun create_temp :: "nat \<Rightarrow> string \<Rightarrow> string io" where
  "create_temp 0 dir s = (Inl (ErrMsg ''file exists''), s)"
| "create_temp (Suc n) dir s =
     (case newID ''.jsonl-rewrite-'' s of (nm, s1) \<Rightarrow>
        (case sys s1 of
           (Inl e, s2) \<Rightarrow> (Inl e, s2)
         | (Inr _, s2) \<Rightarrow>
             (case file_at s2 (join_path dir nm) of
                Some _ \<Rightarrow> create_temp n dir s2
              | None \<Rightarrow> (Inr (join_path dir nm), set_file (join_path dir nm) [] s2))))"

definition ensurePrivateDir :: "unit io" where
  "ensurePrivateDir = seq sys (\<lambda>_. sys)"

text \<open>\<open>defer os.Remove(tmpPath)\<close>: the body, then the removal with its error dropped.\<close>

definition deferring_remove :: "string \<Rightarrow> 'a io \<Rightarrow> 'a io" where
  "deferring_remove p m s = (case m s of (r, s1) \<Rightarrow> (r, snd (remove_file p s1)))"

text \<open>An error closes the temporary file before it is returned, the Close error dropped.\<close>

definition or_close :: "'a io \<Rightarrow> 'a io" where
  "or_close m s = (case m s of (Inr x, s1) \<Rightarrow> (Inr x, s1) | (Inl e, s1) \<Rightarrow> (Inl e, snd (sys s1)))"

text \<open>From the temporary file's Chmod to the rename over the target.\<close>

definition rewrite_body :: "string \<Rightarrow> string \<Rightarrow> envelope list \<Rightarrow> unit io" where
  "rewrite_body tmp path records =
     seq (or_close sys) (\<lambda>_.
     seq (or_close (lift_result (marshal_all records))) (\<lambda>b.
     seq (or_close (write_bytes tmp b)) (\<lambda>_.
     seq (or_close sys) (\<lambda>_.
     seq sys (\<lambda>_.
     seq (rename_file tmp path) (\<lambda>_.
     syncDir))))))"

definition rewriteEnvelopes :: "string \<Rightarrow> string \<Rightarrow> envelope list \<Rightarrow> unit io" where
  "rewriteEnvelopes dir name records =
     seq ensurePrivateDir (\<lambda>_.
     seq (create_temp 10000 dir) (\<lambda>tmp.
     deferring_remove tmp (rewrite_body tmp (join_path dir name) records)))"

section \<open>Session paths and the lock\<close>

definition invalid_id :: "string \<Rightarrow> error" where
  "invalid_id sid = ErrMsg (''jsonl: invalid session id '' @ quote sid)"

definition validateSessionID :: "(nat \<Rightarrow> bool) \<Rightarrow> string \<Rightarrow> error option" where
  "validateSessionID uni sid =
     (if sid = [] \<or> sid = ''.'' \<or> sid = ''..'' \<or> length sid > 256 then Some (invalid_id sid)
      else if CHR ''/'' \<in> set sid \<or> CHR 0x5C \<in> set sid then Some (invalid_id sid)
      else if list_all (\<lambda>r. letter_or_digit uni r \<or> r = 46 \<or> r = 95 \<or> r = 45) (map fst (runes sid))
        then None
      else Some (invalid_id sid))"

text \<open>
  sessionPath: \<open>filepath.Rel\<close> of the joined path is the file's name again; a failing Lstat is
  taken for a path that is no symlink.
\<close>

definition sessionPath :: "store \<Rightarrow> string \<Rightarrow> string io" where
  "sessionPath st sid s =
     (case validateSessionID (unicode_table st) sid of
        Some e \<Rightarrow> (Inl e, s)
      | None \<Rightarrow>
          (let rel = sid @ ''.jsonl''; path = join_path (transcriptDir st) rel in
           if rel = ''..'' \<or> prefix ''../'' rel
             then (Inl (ErrMsg (''jsonl: unsafe session path '' @ quote sid)), s)
           else case sys s of (r, s1) \<Rightarrow>
             if is_ok r \<and> path \<in> set (symlinks s1)
               then (Inl (ErrMsg (''jsonl: session path '' @ quote sid @ '' is a symlink'')), s1)
             else (Inr path, s1)))"

text \<open>
  The wait for the file lock: a lock held elsewhere waits for the timer or for the context to
  end. A script that is exhausted leaves the lock free.
\<close>

function wait_lock :: "unit io" where
  "wait_lock s =
     (case faults s of
        [] \<Rightarrow> (Inr (), s)
      | FBusy # fs \<Rightarrow>
          (case sys (s\<lparr>faults := fs\<rparr>) of
             (Inl e, s1) \<Rightarrow> (Inl e, s1)
           | (Inr _, s1) \<Rightarrow> wait_lock s1)
      | f # fs \<Rightarrow>
          (case fault_text f of
             Some m \<Rightarrow> (Inl (wrapf ''jsonl: acquire lock'' (ErrMsg m)), s\<lparr>faults := fs\<rparr>)
           | None \<Rightarrow> (Inr (), s\<lparr>faults := fs\<rparr>)))"
  by pat_completeness auto
termination
  by (relation "measure (\<lambda>s. length (faults s))")
    (auto simp: sys_def next_fault_def split: list.splits option.splits)

declare wait_lock.simps [simp del]

text \<open>
  withLock: the context, the process-wide lock, the lock file, the file lock; the deferred
  unlocks and Close do not touch the result.
\<close>

definition withLock :: "store \<Rightarrow> 'a io \<Rightarrow> 'a io" where
  "withLock st fn =
     seq sys (\<lambda>_.
     seq sys (\<lambda>_.
     seq (wrapping ''jsonl: open lock'' (open_create (join_path (locksDir st) ''store.lock''))) (\<lambda>_.
     seq (wrapping ''jsonl: protect lock'' chmod_or_close) (\<lambda>_.
     seq wait_lock (\<lambda>_ s.
     (case fn s of (r, s1) \<Rightarrow> (r, snd (sys (snd (sys s1))))))))))"

end
