(* ===== verification/Jsonl_Scan.thy ===== *)
theory Jsonl_Scan
  imports Jsonl_Log
begin

text \<open>
  What readEnvelopes finds in a log: the records appended so far, an append that was torn, and
  the frame of every log operation. \<open>recs\<close> is the reading of a whole file; \<open>view\<close> its records.
\<close>

section \<open>Records survive the trip through a line\<close>

definition env_ok :: "envelope \<Rightarrow> bool" where
  "env_ok e \<longleftrightarrow> env_version e = schemaVersion \<and> env_event_id e \<noteq> [] \<and> env_type e \<noteq> [] \<and>
     int64_ok (env_timestamp e) \<and> (case env_payload e of None \<Rightarrow> True | Some v \<Rightarrow> json_ok v)"

definition line_of :: "envelope \<Rightarrow> string" where
  "line_of e = render (enc_envelope e)"

lemma schemaVersion_ok [simp]: "int64_ok schemaVersion"
  by (simp add: int64_ok_def schemaVersion_def)

lemma dec_envelope_enc: "env_ok e \<Longrightarrow> dec_envelope (enc_envelope e) = Some e"
  by (cases "env_payload e")
    (auto simp: dec_envelope_def enc_envelope_def dec_struct_def env_ok_def jmember_append jmember_omit)

lemma json_ok_enc_envelope: "env_ok e \<Longrightarrow> json_ok (enc_envelope e)"
  by (cases "env_payload e") (auto simp: enc_envelope_def env_ok_def json_ok_omit ball_Un)

lemma marshal_envelope: "env_ok e \<Longrightarrow> json_Marshal (enc_envelope e) = Inr (line_of e)"
  by (simp add: json_Marshal_ok json_ok_enc_envelope line_of_def)

lemma line_of_head: "\<exists>s. line_of e = CHR 0x7B # s \<and> s \<noteq> []"
  by (simp add: line_of_def enc_envelope_def)

lemma line_of_chars: "env_ok e \<Longrightarrow> c \<in> set (line_of e) \<Longrightarrow> 32 \<le> (of_char c :: nat)"
  using render_printable(1) [OF json_ok_enc_envelope] by (auto simp: line_of_def printable_def list_all_iff)

lemma line_of_no_newline: "env_ok e \<Longrightarrow> CHR 0x0A \<notin> set (line_of e)"
  using line_of_chars [of e "CHR 0x0A"] by auto

text \<open>A piece of a line that starts where the line starts.\<close>

lemma piece_simps:
  assumes "env_ok e" "line_of e = s @ t" "s \<noteq> []"
  shows "trim_cr s = s" "\<not> list_all is_space s" "CHR 0x0A \<notin> set s"
proof -
  have p: "c \<in> set s \<Longrightarrow> 32 \<le> (of_char c :: nat)" for c
    using line_of_chars [OF assms(1), of c] assms(2) by simp
  have "last s \<noteq> CHR 0x0D" using p [of "last s"] assms(3) by auto
  then show "trim_cr s = s" by (simp add: trim_cr_def)
  obtain u where "s = CHR 0x7B # u"
    using line_of_head [of e] assms(2,3) by (cases s) auto
  then show "\<not> list_all is_space s" by (simp add: is_space_def)
  show "CHR 0x0A \<notin> set s" using p [of "CHR 0x0A"] by auto
qed

lemma decode_line_of: "env_ok e \<Longrightarrow> decode_line p (line_of e) b = Inr e"
  using piece_simps [of e "line_of e" "[]"] line_of_head [of e] json_Unmarshal_render [OF json_ok_enc_envelope [of e]]
  by (auto simp: decode_line_def unmarshal_def line_of_def dec_envelope_enc env_ok_def)

lemma decode_line_torn:
  assumes "env_ok e" "line_of e = s @ t" "s \<noteq> []" "t \<noteq> []"
  shows "\<exists>m. decode_line p s b = Inl m"
proof -
  have "json_Unmarshal s = None"
    using render_obj_prefix_free json_ok_enc_envelope [OF assms(1)] assms(2,4)
    by (metis enc_envelope_def line_of_def)
  then show ?thesis
    using piece_simps [OF assms(1-3)] by (simp add: decode_line_def unmarshal_def)
qed

section \<open>Scanning\<close>

text \<open>Take a line off the front; the data has one, or it is the unterminated rest.\<close>

lemma line_split:
  assumes "CHR 0x0A \<notin> set l"
  shows "takeWhile (\<lambda>c. c \<noteq> CHR 0x0A) l = l" "dropWhile (\<lambda>c. c \<noteq> CHR 0x0A) l = []"
    "takeWhile (\<lambda>c. c \<noteq> CHR 0x0A) (l @ CHR 0x0A # r) = l"
    "dropWhile (\<lambda>c. c \<noteq> CHR 0x0A) (l @ CHR 0x0A # r) = CHR 0x0A # r"
  using assms by (induction l) auto

lemma scan_line:
  "CHR 0x0A \<notin> set l \<Longrightarrow> scan p (l @ CHR 0x0A # r) x =
     (case decode_line p l True of
        Inl e \<Rightarrow> Inl e
      | Inr e \<Rightarrow> (case scan p r x of Inl y \<Rightarrow> Inl y | Inr (es, b) \<Rightarrow> Inr (e # es, b)))"
  by (subst scan.simps) (simp add: line_split)

lemma scan_rest:
  "CHR 0x0A \<notin> set l \<Longrightarrow> l \<noteq> [] \<Longrightarrow> scan p l x =
     (case decode_line p l False of Inl e \<Rightarrow> Inl e | Inr e \<Rightarrow> Inr ([e], True))"
  by (subst scan.simps) (simp add: line_split)

lemma scan_Nil [simp]: "scan p [] None = Inr ([], False)"
  by (simp add: scan.simps)

lemma data_cases:
  obtains (empty) "d = []"
  | (rest) "d \<noteq> []" "CHR 0x0A \<notin> set d"
  | (line) l r where "d = l @ CHR 0x0A # r" "CHR 0x0A \<notin> set l"
  by (metis split_list_first)

lemma decode_line_flag: "decode_line p l b = Inr e \<Longrightarrow> decode_line p l b' = Inr e"
  by (auto simp: decode_line_def Let_def split: if_splits sum.splits)

definition terminated :: "string \<Rightarrow> bool \<Rightarrow> string" where
  "terminated d b = (if b then d @ [CHR 0x0A] else d)"

lemma scan_append:
  "scan p d None = Inr (es, b) \<Longrightarrow> scan p (terminated d b @ r) x =
     (case scan p r x of Inl y \<Rightarrow> Inl y | Inr (es', b') \<Rightarrow> Inr (es @ es', b'))"
proof (induction d arbitrary: es b rule: length_induct)
  case (1 d)
  show ?case
  proof (cases d rule: data_cases)
    case empty
    then show ?thesis using 1(2) by (auto simp: terminated_def split: sum.split prod.split)
  next
    case rest
    then obtain e where e: "decode_line p d False = Inr e" "es = [e]" "b"
      using 1(2) by (auto simp: scan_rest split: sum.splits)
    then show ?thesis
      using rest(2) decode_line_flag [OF e(1), of True]
      by (auto simp: terminated_def scan_line split: sum.split prod.split)
  next
    case (line l q)
    then obtain e es' where e: "decode_line p l True = Inr e" "scan p q None = Inr (es', b)" "es = e # es'"
      using 1(2) by (auto simp: scan_line split: sum.splits prod.splits)
    have "length q < length d" using line by simp
    with 1(1) e(2) have IH: "scan p (terminated q b @ r) x =
        (case scan p r x of Inl y \<Rightarrow> Inl y | Inr (fs, b') \<Rightarrow> Inr (es' @ fs, b'))"
      by blast
    have "terminated d b @ r = l @ CHR 0x0A # (terminated q b @ r)"
      using line by (simp add: terminated_def)
    then show ?thesis
      using line e IH by (auto simp: scan_line split: sum.split prod.split)
  qed
qed

lemma scan_one: "env_ok e \<Longrightarrow> scan p (line_of e @ [CHR 0x0A]) None = Inr ([e], False)"
  using scan_line [OF line_of_no_newline, of e p "[]" None] by (simp add: decode_line_of)

text \<open>A write of one record stopped after \<open>n\<close> bytes.\<close>

lemma scan_torn:
  assumes "env_ok e"
  shows "scan p (take n (line_of e @ [CHR 0x0A])) None \<in> {Inr ([], False), Inr ([e], True), Inr ([e], False)}
    \<or> (\<exists>m. scan p (take n (line_of e @ [CHR 0x0A])) None = Inl m)"
proof -
  consider "n = 0" | "0 < n" "n < length (line_of e)" | "n = length (line_of e)" | "length (line_of e) < n"
    by linarith
  then show ?thesis
  proof cases
    case 2
    let ?s = "take n (line_of e)"
    have s: "line_of e = ?s @ drop n (line_of e)" "?s \<noteq> []" "drop n (line_of e) \<noteq> []"
      using 2 by auto
    then obtain m where "decode_line p ?s False = Inl m"
      using decode_line_torn [OF assms] by blast
    then show ?thesis
      using 2 s scan_rest [OF piece_simps(3) [OF assms s(1,2)] s(2), of p None] by simp
  next
    case 3
    then show ?thesis
      using scan_rest [OF line_of_no_newline [OF assms], of p None] line_of_head [of e]
      by (auto simp: decode_line_of assms)
  next
    case 4
    then show ?thesis using scan_one [OF assms] by simp
  qed auto
qed

text \<open>Every record read back can be written again.\<close>

lemma dec_int64_range: "dec_int64 j = Some i \<Longrightarrow> int64_ok i"
proof (cases j rule: dec_int64.cases)
  case (3 d)
  then show "dec_int64 j = Some i \<Longrightarrow> int64_ok i" by (auto split: option.splits if_splits)
qed (auto simp: int64_ok_def)

lemma jmember_in: "jmember k kvs = Some v \<Longrightarrow> (k, v) \<in> set kvs"
  by (auto simp: jmember_def dest: map_of_SomeD)

lemma dec_envelope_ok:
  assumes "dec_envelope v = Some e" "json_ok v"
  shows "int64_ok (env_timestamp e)" "env_payload e = Some w \<Longrightarrow> json_ok w"
proof -
  have "int64_ok (env_timestamp e) \<and> (\<forall>w. env_payload e = Some w \<longrightarrow> json_ok w)"
  proof (cases v)
    case (JObj kvs)
    then have "int64_ok (env_timestamp e)" "env_payload e = jmember ''payload'' kvs"
      using assms(1) by (auto simp: dec_envelope_def dec_struct_def bind_eq_Some_conv dest: dec_int64_range)
    then show ?thesis using assms(2) JObj by (auto dest!: jmember_in)
  qed (use assms in \<open>auto simp: dec_envelope_def dec_struct_def int64_ok_def\<close>)
  then show "int64_ok (env_timestamp e)" "env_payload e = Some w \<Longrightarrow> json_ok w" by auto
qed

lemma decode_line_env_ok: "decode_line p l b = Inr e \<Longrightarrow> env_ok e"
  by (auto simp: decode_line_def unmarshal_def Let_def env_ok_def split: if_splits sum.splits option.splits
      dest: json_Unmarshal_ok dec_envelope_ok)

lemma scan_env_ok: "scan p d x = Inr (es, b) \<Longrightarrow> \<forall>e \<in> set es. env_ok e"
proof (induction d arbitrary: es b rule: length_induct)
  case (1 d)
  show ?case
  proof (cases d rule: data_cases)
    case empty
    then show ?thesis using 1(2) by (auto simp: scan.simps split: option.splits)
  next
    case rest
    then show ?thesis using 1(2) by (auto simp: scan_rest dest: decode_line_env_ok split: sum.splits)
  next
    case (line l q)
    then obtain e es' where e: "decode_line p l True = Inr e" "scan p q x = Inr (es', b)" "es = e # es'"
      using 1(2) by (auto simp: scan_line split: sum.splits prod.splits)
    have "length q < length d" using line by simp
    then have "\<forall>e \<in> set es'. env_ok e" using 1(1) e(2) by blast
    then show ?thesis using e(3) decode_line_env_ok [OF e(1)] by simp
  qed
qed

section \<open>Views and frames\<close>

definition recs :: "os \<Rightarrow> string \<Rightarrow> error + envelope list \<times> bool" where
  "recs s p = (case file_at s p of None \<Rightarrow> Inr ([], False) | Some d \<Rightarrow> scan p d None)"

definition view :: "os \<Rightarrow> string \<Rightarrow> error + envelope list" where
  "view s p = map_sum id fst (recs s p)"

definition ready :: "os \<Rightarrow> string \<Rightarrow> envelope list \<Rightarrow> bool" where
  "ready s p es \<longleftrightarrow> recs s p = Inr (es, False)"

fun is_cut :: "fault \<Rightarrow> bool" where
  "is_cut (FCut n m) = True"
| "is_cut _ = False"

definition no_cut :: "os \<Rightarrow> bool" where
  "no_cut s \<longleftrightarrow> (\<forall>f \<in> set (faults s). \<not> is_cut f)"

text \<open>An operation that leaves every log of \<open>D\<close> with the records it had.\<close>

definition keeps :: "(string \<Rightarrow> bool) \<Rightarrow> os \<Rightarrow> os \<Rightarrow> bool" where
  "keeps D s s' \<longleftrightarrow> suffix (faults s') (faults s) \<and> rnd s' = rnd s \<and> clk s' = clk s \<and>
     symlinks s' = symlinks s \<and> rnd_pos s \<le> rnd_pos s' \<and> (no_cut s \<longrightarrow> (\<forall>p. D p \<longrightarrow> view s' p = view s p))"

definition frames :: "(string \<Rightarrow> bool) \<Rightarrow> 'a io \<Rightarrow> bool" where
  "frames D m \<longleftrightarrow> (\<forall>s. keeps D s (snd (m s)))"

named_theorems frame_rules

lemma no_cut_suffix: "suffix (faults s') (faults s) \<Longrightarrow> no_cut s \<Longrightarrow> no_cut s'"
  by (auto simp: no_cut_def suffix_def)

lemma keeps_refl [simp]: "keeps D s s"
  by (simp add: keeps_def)

lemma keeps_trans: "keeps D s t \<Longrightarrow> keeps D t u \<Longrightarrow> keeps D s u"
  using no_cut_suffix [of t s] suffix_order.trans [of "faults u" "faults t" "faults s"]
  unfolding keeps_def by auto

lemma keeps_no_cut: "keeps D s t \<Longrightarrow> no_cut s \<Longrightarrow> no_cut t"
  by (auto simp: keeps_def intro: no_cut_suffix)

lemma keeps_view: "keeps D s t \<Longrightarrow> no_cut s \<Longrightarrow> D p \<Longrightarrow> view t p = view s p"
  by (simp add: keeps_def)

lemma frames_keeps: "frames D m \<Longrightarrow> m s = (r, t) \<Longrightarrow> keeps D s t"
  by (metis frames_def snd_conv)

lemma keeps_same_files: "files t = files s \<Longrightarrow> suffix (faults t) (faults s) \<Longrightarrow> rnd t = rnd s \<Longrightarrow>
    clk t = clk s \<Longrightarrow> symlinks t = symlinks s \<Longrightarrow> rnd_pos s \<le> rnd_pos t \<Longrightarrow> keeps D s t"
  by (simp add: keeps_def view_def recs_def)

lemma suffix_tl [simp]: "suffix fs (f # fs)"
  by (simp add: suffix_ConsI)

lemma next_fault_frame:
  "next_fault s = (f, t) \<Longrightarrow> files t = files s \<and> suffix (faults t) (faults s) \<and> rnd t = rnd s \<and>
     clk t = clk s \<and> symlinks t = symlinks s \<and> rnd_pos t = rnd_pos s \<and> clk_pos t = clk_pos s"
  by (auto simp: next_fault_def split: list.splits)

lemma sys_frame:
  "sys s = (r, t) \<Longrightarrow> files t = files s \<and> suffix (faults t) (faults s) \<and> rnd t = rnd s \<and>
     clk t = clk s \<and> symlinks t = symlinks s \<and> rnd_pos t = rnd_pos s \<and> clk_pos t = clk_pos s"
  by (auto simp: sys_def dest: next_fault_frame split: prod.splits option.splits)

lemma framesI: "(\<And>s r t. m s = (r, t) \<Longrightarrow> keeps D s t) \<Longrightarrow> frames D m"
  by (metis frames_def prod.collapse)

lemma frames_sys [frame_rules]: "frames D sys"
  by (rule framesI) (auto intro!: keeps_same_files dest: sys_frame)

lemma sys_snd [simp]:
  "files (snd (sys s)) = files s" "rnd_pos (snd (sys s)) = rnd_pos s" "rnd (snd (sys s)) = rnd s"
  "clk (snd (sys s)) = clk s"
  by (cases "sys s", simp add: sys_frame)+

lemma frames_basic [frame_rules]:
  "frames D (ret x)" "frames D (raise e)" "frames D (lift_result r)"
  by (simp_all add: frames_def ret_def raise_def lift_result_def)

lemma frames_seq [frame_rules]: "frames D m \<Longrightarrow> (\<And>x. frames D (k x)) \<Longrightarrow> frames D (seq m k)"
  by (rule framesI, erule seq_cases) (blast intro: keeps_trans frames_keeps)+

lemma frames_wrapping [frame_rules]: "frames D m \<Longrightarrow> frames D (wrapping p m)"
  by (auto simp: frames_def wrapping_def split: prod.split sum.split) (metis snd_conv)+

lemma frames_ignoring [frame_rules]: "frames D m \<Longrightarrow> frames D (ignoring m)"
  by (simp add: frames_def ignoring_def)

lemma frames_or_close [frame_rules]: "frames D m \<Longrightarrow> frames D (or_close m)"
  using frames_sys [of D] unfolding frames_def or_close_def
  by (auto split: prod.split sum.split) (metis keeps_trans snd_conv)+

lemma keeps_new_file: "file_at s p = None \<Longrightarrow> keeps D s (set_file p [] s)"
  by (auto simp: keeps_def view_def recs_def)

lemma keeps_set_file: "\<not> D p \<Longrightarrow> keeps D s (set_file p b s)"
  by (auto simp: keeps_def view_def recs_def)

lemma keeps_del_file: "\<not> D p \<Longrightarrow> keeps D s (del_file p s)"
  by (auto simp: keeps_def view_def recs_def)

lemma frames_after_sys: "(\<And>s. keeps D s (snd (k s))) \<Longrightarrow> frames D (seq sys (\<lambda>_. k))"
  by (rule frames_seq [OF frames_sys]) (simp add: frames_def)

lemma frames_open_create [frame_rules]: "frames D (open_create p)"
  unfolding open_create_def by (rule frames_after_sys) (auto simp: keeps_new_file split: option.split)

lemma frames_stat [frame_rules]: "frames D (stat_file p)"
  unfolding stat_file_def by (rule frames_after_sys) simp

lemma frames_write [frame_rules]: "\<not> D p \<Longrightarrow> frames D (write_bytes p b)"
  unfolding frames_def
proof
  fix s
  assume "\<not> D p"
  obtain f t where f: "next_fault s = (f, t)" by force
  have "keeps D s t" using next_fault_frame [OF f] by (auto intro: keeps_same_files)
  then show "keeps D s (snd (write_bytes p b s))"
    using f \<open>\<not> D p\<close> by (auto simp: write_bytes_def add_bytes_def intro: keeps_set_file keeps_trans split: fault.split)
qed

lemma frames_remove [frame_rules]: "\<not> D p \<Longrightarrow> frames D (remove_file p)"
  unfolding remove_file_def by (rule frames_after_sys) (simp add: keeps_del_file)

lemma frames_rename [frame_rules]: "\<not> D p \<Longrightarrow> \<not> D q \<Longrightarrow> frames D (rename_file p q)"
  unfolding rename_file_def
  by (rule frames_after_sys) (auto split: option.split intro: keeps_trans keeps_del_file keeps_set_file)

lemma frames_write_sync_close [frame_rules]: "\<not> D p \<Longrightarrow> frames D (write_sync_close p b)"
  using frames_write [of D p b] frames_sys [of D] unfolding frames_def write_sync_close_def
  by (auto split: prod.split sum.split) (metis keeps_trans snd_conv)+

lemma frames_syncDir [frame_rules]: "frames D syncDir"
  unfolding syncDir_def
  by (rule frames_after_sys, use frames_sys [of D] in \<open>auto simp: frames_def split: prod.split\<close>)
    (metis keeps_trans snd_conv)+

lemma frames_chmod [frame_rules]: "frames D chmod_or_close"
  using frames_sys [of D] unfolding frames_def chmod_or_close_def
  by (auto split: prod.split sum.split) (metis keeps_trans snd_conv)+

lemma newID_frame:
  "newID pre s = (i, t) \<Longrightarrow> files t = files s \<and> faults t = faults s \<and> rnd t = rnd s \<and> clk t = clk s \<and>
     symlinks t = symlinks s \<and> rnd_pos t = Suc (rnd_pos s) \<and> prefix pre i"
  by (auto simp: newID_def now_nano_def Let_def split: option.splits)

lemma keeps_newID: "newID pre s = (i, t) \<Longrightarrow> keeps D s t"
  by (drule newID_frame) (auto intro: keeps_same_files)

lemma newEnvelope_cases:
  assumes "newEnvelope typ sid key v s = (r, t)"
  obtains (bad) e where "json_Marshal v = Inl e" "r = Inl e" "t = s"
  | (ok) i t1 c where "is_ok (json_Marshal v)" "newID ''evt-'' s = (i, t1)" "now_milli t1 = (c, t)"
      "r = Inr \<lparr>env_version = schemaVersion, env_event_id = i, env_txn = [], env_type = typ,
             env_session = sid, env_key = key, env_timestamp = c, env_payload = Some v\<rparr>"
  using assms by (auto simp: newEnvelope_def split: sum.splits prod.splits)

lemma frames_newEnvelope [frame_rules]: "frames D (newEnvelope typ sid key v)"
  unfolding frames_def
proof
  fix s
  obtain r t where rt: "newEnvelope typ sid key v s = (r, t)" by force
  then show "keeps D s (snd (newEnvelope typ sid key v s))"
  proof (cases rule: newEnvelope_cases)
    case (ok i t1 c)
    have "keeps D t1 t" using ok(3) by (auto simp: now_milli_def now_nano_def intro!: keeps_same_files)
    then show ?thesis using keeps_newID [OF ok(2), of D] rt by (auto intro: keeps_trans)
  qed (use rt in simp)
qed

lemma frames_append [frame_rules]: "\<not> D p \<Longrightarrow> frames D (appendEnvelope p e)"
  unfolding appendEnvelope_def by (intro frame_rules)

section \<open>Reading\<close>

lemma write_bytes_files:
  "write_bytes p b s = (r, t) \<Longrightarrow> \<exists>n. file_at t = file_at s \<or>
     file_at t = (file_at s)(p \<mapsto> (case file_at s p of Some c \<Rightarrow> c | None \<Rightarrow> []) @ take n b)"
  by (auto simp: write_bytes_def add_bytes_def split: prod.splits fault.splits dest!: next_fault_frame
      intro: exI [of _ "length b"])

lemma write_bytes_ok:
  "write_bytes p b s = (Inr u, t) \<Longrightarrow>
     file_at t = (file_at s)(p \<mapsto> (case file_at s p of Some c \<Rightarrow> c | None \<Rightarrow> []) @ b)"
  by (auto simp: write_bytes_def add_bytes_def split: prod.splits fault.splits dest!: next_fault_frame)

lemma write_sync_close_files:
  assumes "write_sync_close p b s = (r, t)"
  shows "\<exists>n. file_at t = file_at s \<or>
     file_at t = (file_at s)(p \<mapsto> (case file_at s p of Some c \<Rightarrow> c | None \<Rightarrow> []) @ take n b)"
    and "r = Inr () \<Longrightarrow> file_at t = (file_at s)(p \<mapsto> (case file_at s p of Some c \<Rightarrow> c | None \<Rightarrow> []) @ b)"
proof -
  obtain w s1 where w: "write_bytes p b s = (w, s1)" by force
  have f: "files t = files s1" and ok: "r = Inr () \<Longrightarrow> w = Inr ()"
    using assms by (auto simp: write_sync_close_def w split: sum.splits prod.splits dest!: sys_frame)
  show "\<exists>n. file_at t = file_at s \<or>
     file_at t = (file_at s)(p \<mapsto> (case file_at s p of Some c \<Rightarrow> c | None \<Rightarrow> []) @ take n b)"
    using write_bytes_files [OF w] f by simp
  show "r = Inr () \<Longrightarrow> file_at t = (file_at s)(p \<mapsto> (case file_at s p of Some c \<Rightarrow> c | None \<Rightarrow> []) @ b)"
    using w f ok write_bytes_ok [of p b s "()" s1] by simp
qed

lemma view_at: "file_at t p = file_at s p \<Longrightarrow> view t p = view s p"
  by (simp add: view_def recs_def)

lemma recs_at: "file_at t p = file_at s p \<Longrightarrow> recs t p = recs s p"
  by (simp add: recs_def)

text \<open>A newline put behind an unterminated final record does not change the records.\<close>

lemma recs_repaired:
  "file_at s p = Some d \<Longrightarrow> scan p d None = Inr (es, True) \<Longrightarrow>
     file_at t = (file_at s)(p \<mapsto> d @ [CHR 0x0A]) \<Longrightarrow> recs t p = Inr (es, False)"
  using scan_append [of p d es True "[]" None] by (simp add: recs_def terminated_def)

lemma repair_keeps:
  assumes "repairFinalNewline p s = (r, t)" "file_at s p = Some d" "scan p d None = Inr (es, True)"
  shows "view t p = Inr es" "r = Inr () \<Longrightarrow> ready t p es" "q \<noteq> p \<Longrightarrow> view t q = view s q"
proof -
  have same: "view s p = Inr es" using assms(2,3) by (simp add: view_def recs_def)
  have "(file_at t = file_at s \<or> file_at t = (file_at s)(p \<mapsto> d @ [CHR 0x0A])) \<and>
      (r = Inr () \<longrightarrow> file_at t = (file_at s)(p \<mapsto> d @ [CHR 0x0A]))"
    using assms(1) unfolding repairFinalNewline_def
  proof (cases rule: seq_cases)
    case (err e)
    then show ?thesis using sys_frame [OF err(1)] by simp
  next
    case (ok x s1)
    have f: "files s1 = files s" using sys_frame [OF ok(1)] by simp
    obtain n where n: "file_at t = file_at s1 \<or>
        file_at t = (file_at s1)(p \<mapsto> (case file_at s1 p of Some c \<Rightarrow> c | None \<Rightarrow> []) @ take n [CHR 0x0A])"
      using write_sync_close_files(1) [OF ok(2)] by blast
    note all = write_sync_close_files(2) [OF ok(2)]
    have "d @ take n [CHR 0x0A] = d \<or> d @ take n [CHR 0x0A] = d @ [CHR 0x0A]" by (cases n) auto
    then show ?thesis using n all f assms(2) by auto
  qed
  then show "view t p = Inr es" "r = Inr () \<Longrightarrow> ready t p es" "q \<noteq> p \<Longrightarrow> view t q = view s q"
    using recs_repaired [OF assms(2,3), of t] same by (auto simp: view_def recs_def ready_def)
qed

lemma read_bytes_whole:
  assumes "read_bytes p s = ((d, x), t)" "no_cut s" "file_at s p = Some b"
  shows "(d = b \<and> x = None) \<or> (d = [] \<and> (\<exists>m. x = Some m))"
proof -
  obtain f s1 where f: "next_fault s = (f, s1)" by force
  then have "\<not> is_cut f"
    using assms(2) by (auto simp: next_fault_def no_cut_def split: list.splits)
  then show ?thesis
    using assms(1,3) f by (cases f) (auto simp: read_bytes_def)
qed

lemma read_bytes_frame: "read_bytes p s = (r, t) \<Longrightarrow> keeps D s t \<and> files t = files s"
  by (auto simp: read_bytes_def Let_def split: prod.splits fault.splits
      dest!: next_fault_frame intro!: keeps_same_files)

lemma scan_Nil_err: "scan p [] (Some m) = Inl (wrapf (''jsonl: read '' @ p) (ErrMsg m))"
  by (simp add: scan.simps)

text \<open>The five ways a read can go on a machine that cuts no read short.\<close>

lemma readEnvelopes_cases:
  assumes "readEnvelopes p s = (r, t)" "no_cut s"
  obtains (io) e where "r = Inl e" "keeps D s t" "files t = files s"
  | (absent) "file_at s p = None" "r = Inr []" "keeps D s t" "files t = files s"
  | (bad) e where "view s p = Inl e" "r = Inl e" "keeps D s t" "files t = files s"
  | (whole) es where "ready s p es" "r = Inr es" "keeps D s t" "files t = files s"
  | (repair) es s1 d w where "file_at s p = Some d" "scan p d None = Inr (es, True)" "keeps D s s1" "files s1 = files s"
      "repairFinalNewline p s1 = (w, t)"
      "r = (case w of Inl e \<Rightarrow> Inl (wrapf (''jsonl: repair final record in '' @ p) e) | Inr _ \<Rightarrow> Inr es)"
  using assms(1) unfolding readEnvelopes_def
proof (cases rule: seq_cases)
  case (err e)
  then show ?thesis using io [of e] frames_keeps [OF frames_sys, of s _ t] sys_frame [OF err(1)] by simp
next
  case (ok x s1)
  have k1: "keeps D s s1" "files s1 = files s"
    using frames_keeps [OF frames_sys ok(1)] sys_frame [OF ok(1)] by auto
  then have nc: "no_cut s1" using assms(2) by (blast intro: keeps_no_cut)
  show ?thesis
  proof (cases "file_at s1 p")
    case None
    then show ?thesis using absent k1 ok(2) by simp
  next
    case (Some b)
    obtain d x s2 where rb: "read_bytes p s1 = ((d, x), s2)" by (metis prod.collapse)
    have k2: "keeps D s s2" "files s2 = files s"
      using read_bytes_frame [OF rb] k1 by (auto intro: keeps_trans)
    have sc: "(case scan p d x of
          Inl e \<Rightarrow> (Inl e, s2)
        | Inr (es, repair) \<Rightarrow>
            if repair then seq (wrapping (''jsonl: repair final record in '' @ p) (repairFinalNewline p)) (\<lambda>_. ret es) s2
            else (Inr es, s2)) = (r, t)"
      using ok(2) Some rb by simp
    from read_bytes_whole [OF rb nc Some] show ?thesis
    proof
      assume "d = [] \<and> (\<exists>m. x = Some m)"
      then show ?thesis using sc io k2 by (auto simp: scan_Nil_err)
    next
      assume dx: "d = b \<and> x = None"
      have b: "recs s p = scan p b None" using Some k1 by (simp add: recs_def)
      show ?thesis
      proof (cases "scan p b None")
        case (Inl e)
        have "r = Inl e" "t = s2" using sc dx Inl by simp_all
        moreover have "view s p = Inl e" using b Inl by (simp add: view_def)
        ultimately show ?thesis using bad k2 by blast
      next
        case (Inr z)
        obtain es f where z: "z = (es, f)" by force
        show ?thesis
        proof (cases f)
          case False
          then show ?thesis using sc dx Inr z whole [of es] k2 b by (simp add: ready_def)
        next
          case True
          obtain w t' where w: "repairFinalNewline p s2 = (w, t')" by force
          have "t' = t" "r = (case w of Inl e \<Rightarrow> Inl (wrapf (''jsonl: repair final record in '' @ p) e) | Inr _ \<Rightarrow> Inr es)"
            using sc dx Inr z True w by (auto simp: seq_def wrapping_def ret_def split: sum.splits)
          then show ?thesis
            using repair [of b es s2 w] Some k1 k2 Inr z True w by simp
        qed
      qed
    qed
  qed
qed

lemma frames_repair [frame_rules]: "\<not> D p \<Longrightarrow> frames D (repairFinalNewline p)"
  unfolding repairFinalNewline_def by (intro frame_rules)

lemma frames_read_others: "\<not> D p \<Longrightarrow> frames D (readEnvelopes p)"
  unfolding readEnvelopes_def
proof (rule frames_after_sys)
  fix s
  assume D: "\<not> D p"
  obtain d x s1 where rb: "read_bytes p s = ((d, x), s1)" by (metis prod.collapse)
  have k: "keeps D s s1" using read_bytes_frame [OF rb] by blast
  let ?m = "\<lambda>es. seq (wrapping (''jsonl: repair final record in '' @ p) (repairFinalNewline p)) (\<lambda>_. ret es)"
  have "frames D (?m es)" for es by (intro frame_rules D)
  then have "keeps D s1 (snd (?m es s1))" for es
    unfolding frames_def by (rule spec)
  then have m: "keeps D s (snd (?m es s1))" for es
    by (rule keeps_trans [OF k])
  show "keeps D s (snd (case file_at s p of None \<Rightarrow> (Inr [], s)
      | Some _ \<Rightarrow> (case read_bytes p s of ((data, rerr), s1) \<Rightarrow>
          (case scan p data rerr of Inl e \<Rightarrow> (Inl e, s1)
           | Inr (es, repair) \<Rightarrow> if repair then ?m es s1 else (Inr es, s1)))))"
  proof (cases "file_at s p")
    case (Some b)
    show ?thesis
    proof (cases "scan p d x")
      case (Inl e)
      then show ?thesis using k unfolding Some rb by simp
    next
      case (Inr z)
      then show ?thesis using k m [of "fst z"] unfolding Some rb
        by (cases z) simp
    qed
  qed simp
qed

lemma readEnvelopes_view:
  assumes "readEnvelopes p s = (r, t)" "no_cut s"
  shows "view t p = view s p" "r = Inr es \<Longrightarrow> view s p = Inr es \<and> ready t p es"
proof -
  have "view t p = view s p \<and> (\<forall>es. r = Inr es \<longrightarrow> view s p = Inr es \<and> ready t p es)"
  proof (rule readEnvelopes_cases [OF assms, of "\<lambda>_. True"], goal_cases io absent bad whole repair)
    case absent
    then show ?thesis by (simp add: view_def recs_def ready_def)
  next
    case (whole es)
    then show ?thesis by (simp add: view_def recs_def ready_def)
  next
    case (repair es s1 d w)
    have "view s p = Inr es" using repair(1,2) by (simp add: view_def recs_def)
    then show ?thesis
      using repair_keeps [OF repair(5), of d es] repair by (auto split: sum.splits)
  qed (auto simp: view_def recs_def)
  then show "view t p = view s p" "r = Inr es \<Longrightarrow> view s p = Inr es \<and> ready t p es" by auto
qed

lemma frames_read [frame_rules]: "frames D (readEnvelopes p)"
proof (rule framesI)
  fix s r t
  assume r: "readEnvelopes p s = (r, t)"
  have "keeps (\<lambda>q. q \<noteq> p) s t"
    using frames_read_others [of "\<lambda>q. q \<noteq> p" p] r by (auto intro: frames_keeps)
  moreover have "no_cut s \<Longrightarrow> view t p = view s p"
    using readEnvelopes_view(1) [OF r] .
  ultimately show "keeps D s t"
    unfolding keeps_def by metis
qed

section \<open>Appending\<close>

lemma chmod_or_close_files: "chmod_or_close s = (r, t) \<Longrightarrow> files t = files s"
  by (auto simp: chmod_or_close_def split: prod.splits sum.splits dest!: sys_frame)

lemma syncDir_files: "syncDir s = (r, t) \<Longrightarrow> files t = files s"
  by (auto simp: syncDir_def seq_def split: prod.splits sum.splits dest!: sys_frame)

lemma open_create_recs: "open_create p s = (r, t) \<Longrightarrow> recs t q = recs s q"
  by (auto simp: open_create_def seq_def recs_def split: prod.splits sum.splits option.splits if_splits dest!: sys_frame)

lemma recs_added:
  assumes "ready s p es"
    and "file_at t = (file_at s)(p \<mapsto> (case file_at s p of Some c \<Rightarrow> c | None \<Rightarrow> []) @ b)"
  shows "recs t p = (case scan p b None of Inl y \<Rightarrow> Inl y | Inr (es', f) \<Rightarrow> Inr (es @ es', f))"
proof (cases "file_at s p")
  case None
  then have "es = []" using assms(1) by (simp add: ready_def recs_def)
  then show ?thesis using assms(2) None by (auto simp: recs_def split: sum.split prod.split)
next
  case (Some d)
  then show ?thesis
    using assms scan_append [of p d es False b None] by (simp add: ready_def recs_def terminated_def)
qed

definition appended :: "os \<Rightarrow> string \<Rightarrow> envelope list \<Rightarrow> envelope \<Rightarrow> bool" where
  "appended t p es e \<longleftrightarrow> ready t p es \<or> ready t p (es @ [e]) \<or> recs t p = Inr (es @ [e], True) \<or>
     (\<exists>m. recs t p = Inl m)"

lemma appendEnvelope_post:
  assumes "appendEnvelope p e s = (r, t)" "ready s p es" "env_ok e"
  shows "appended t p es e" "r = Inr () \<Longrightarrow> ready t p (es @ [e])"
proof -
  let ?b = "line_of e @ [CHR 0x0A]"
  have "appended t p es e \<and> (r = Inr () \<longrightarrow> ready t p (es @ [e]))"
    using assms(1) unfolding appendEnvelope_def
  proof (cases rule: seq_cases)
    case (err x)
    then show ?thesis using assms(3) by (simp add: lift_result_def wrapping_def marshal_envelope)
  next
    case (ok line s0)
    then have line: "line = line_of e" "s0 = s"
      using assms(3) by (auto simp: lift_result_def wrapping_def marshal_envelope)
    from ok(2) show ?thesis
    proof (cases rule: seq_cases)
      case (err x)
      then show ?thesis using assms(2) open_create_recs [OF err(1)] line by (simp add: appended_def ready_def)
    next
      case (ok u s1)
      then have r1: "ready s1 p es" using open_create_recs assms(2) line by (simp add: ready_def)
      from ok(2) show ?thesis
      proof (cases rule: seq_cases)
        case (err x)
        then show ?thesis using r1 chmod_or_close_files [OF err(1)] by (simp add: appended_def ready_def recs_def)
      next
        case (ok u s2)
        then have r2: "ready s2 p es" using chmod_or_close_files r1 by (simp add: ready_def recs_def)
        have torn: "appended s3 p es e" if w: "write_sync_close p ?b s2 = (w, s3)" for w s3
        proof -
          obtain n where n: "file_at s3 = file_at s2 \<or>
              file_at s3 = (file_at s2)(p \<mapsto> (case file_at s2 p of Some c \<Rightarrow> c | None \<Rightarrow> []) @ take n ?b)"
            using write_sync_close_files(1) [OF w] by blast
          then show ?thesis
          proof
            assume "file_at s3 = file_at s2"
            then show ?thesis using r2 by (simp add: appended_def ready_def recs_def)
          next
            assume "file_at s3 = (file_at s2)(p \<mapsto> (case file_at s2 p of Some c \<Rightarrow> c | None \<Rightarrow> []) @ take n ?b)"
            then have a: "recs s3 p =
                (case scan p (take n ?b) None of Inl y \<Rightarrow> Inl y | Inr (es', f) \<Rightarrow> Inr (es @ es', f))"
              by (rule recs_added [OF r2])
            show ?thesis
              using scan_torn [OF assms(3), of p n] unfolding appended_def ready_def a
              by (auto simp del: take_append)
          qed
        qed
        from ok(2) show ?thesis
        proof (cases rule: seq_cases)
          case (err x)
          then show ?thesis using torn line by simp
        next
          case (ok u s3)
          then have "recs s3 p = Inr (es @ [e], False)"
            using recs_added [OF r2 write_sync_close_files(2) [OF ok(1)]] line scan_one [OF assms(3), of p] by simp
          then have "ready t p (es @ [e])"
            using syncDir_files [OF ok(2)] by (simp add: ready_def recs_def)
          then show ?thesis by (simp add: appended_def)
        qed
      qed
    qed
  qed
  then show "appended t p es e" "r = Inr () \<Longrightarrow> ready t p (es @ [e])" by auto
qed

lemma ready_env_ok: "ready s p es \<Longrightarrow> \<forall>e \<in> set es. env_ok e"
  by (auto simp: ready_def recs_def split: option.splits dest: scan_env_ok)

lemma appended_view:
  "appended t p es e \<Longrightarrow> view t p = Inr es \<or> view t p = Inr (es @ [e]) \<or> (\<exists>m. view t p = Inl m)"
  by (auto simp: appended_def ready_def view_def)

lemma ready_view: "ready t p es \<Longrightarrow> view t p = Inr es"
  by (simp add: ready_def view_def)

section \<open>Locks and paths\<close>

lemma frames_wait_lock [frame_rules]: "frames D wait_lock"
  unfolding frames_def
proof
  fix s
  show "keeps D s (snd (wait_lock s))"
  proof (induction s rule: wait_lock.induct)
    case (1 s)
    show ?case
    proof (cases "faults s")
      case Nil
      then show ?thesis by (subst wait_lock.simps) simp
    next
      case (Cons f fs)
      have k: "keeps D s (s\<lparr>faults := fs\<rparr>)"
        by (rule keeps_same_files) (simp_all add: Cons)
      show ?thesis
      proof (cases "f = FBusy")
        case True
        obtain r s1 where r: "sys (s\<lparr>faults := fs\<rparr>) = (r, s1)" by force
        have k1: "keeps D s s1"
          by (rule keeps_trans [OF k frames_keeps [OF frames_sys r]])
        show ?thesis
        proof (cases r)
          case (Inr u)
          have "keeps D s1 (snd (wait_lock s1))"
            using 1 Cons True r Inr by simp
          then have "keeps D s (snd (wait_lock s1))" by (rule keeps_trans [OF k1])
          then show ?thesis using Cons True r Inr by (subst wait_lock.simps) simp
        next
          case (Inl e)
          then show ?thesis using Cons True r k1 by (subst wait_lock.simps) simp
        qed
      next
        case False
        then show ?thesis using Cons k by (subst wait_lock.simps) (auto split: fault.split option.split)
      qed
    qed
  qed
qed

lemma frames_two_sys: "keeps D s (snd (sys (snd (sys s))))"
  by (rule keeps_trans) (use frames_sys in \<open>auto simp: frames_def\<close>)

lemma open_create_pos: "open_create p s = (r, t) \<Longrightarrow> rnd_pos t = rnd_pos s"
  by (auto simp: open_create_def seq_def split: prod.splits sum.splits option.splits dest!: sys_frame)

lemma chmod_pos: "chmod_or_close s = (r, t) \<Longrightarrow> rnd_pos t = rnd_pos s"
  by (auto simp: chmod_or_close_def split: prod.splits sum.splits dest!: sys_frame)

lemma wait_lock_pos: "rnd_pos (snd (wait_lock s)) = rnd_pos s \<and> files (snd (wait_lock s)) = files s"
proof (induction s rule: wait_lock.induct)
  case (1 s)
  show ?case
  proof (cases "faults s")
    case Nil
    then show ?thesis by (simp add: wait_lock.simps [of s])
  next
    case (Cons f fs)
    obtain r s1 where r: "sys (s\<lparr>faults := fs\<rparr>) = (r, s1)" by force
    have "rnd_pos s1 = rnd_pos s" "files s1 = files s" using sys_frame [OF r] by simp_all
    then show ?thesis
      using 1 Cons r unfolding wait_lock.simps [of s] by (auto split: fault.split option.split sum.split)
  qed
qed

lemma withLock_cases:
  assumes "withLock st fn s = (r, t)"
  obtains (refused) e where "r = Inl e" "keeps D s t"
  | (held) s1 s2 where "keeps D s s1" "rnd_pos s1 = rnd_pos s" "fn s1 = (r, s2)" "keeps D s2 t"
      "files t = files s2" "\<And>q. recs s1 q = recs s q"
  using assms unfolding withLock_def
proof (cases rule: seq_cases)
  case (err e)
  then show ?thesis using refused frames_keeps [OF frames_sys] by blast
next
  case (ok u1 a1)
  note k1 = frames_keeps [OF frames_sys ok(1), of D] and p1 = sys_frame [OF ok(1)]
  from ok(2) show ?thesis
  proof (cases rule: seq_cases)
    case (err e)
    then show ?thesis using refused k1 frames_keeps [OF frames_sys] by (blast intro: keeps_trans)
  next
    case (ok u2 a2)
    note k2 = keeps_trans [OF k1 frames_keeps [OF frames_sys ok(1)]] and p2 = sys_frame [OF ok(1)]
    from ok(2) show ?thesis
    proof (cases rule: seq_cases)
      case (err e)
      then show ?thesis
        using refused keeps_trans [OF k2 frames_keeps [OF frames_wrapping [OF frames_open_create] err(1)]] by blast
    next
      case (ok u3 a3)
      note k3 = keeps_trans [OF k2 frames_keeps [OF frames_wrapping [OF frames_open_create] ok(1)]]
      have p3: "rnd_pos a3 = rnd_pos a2"
        using ok(1) by (rule wrapping_cases) (auto dest: open_create_pos)
      have q3: "recs a3 q = recs a2 q" for q
        using ok(1) by (rule wrapping_cases) (auto dest: open_create_recs)
      from ok(2) show ?thesis
      proof (cases rule: seq_cases)
        case (err e)
        then show ?thesis
          using refused keeps_trans [OF k3 frames_keeps [OF frames_wrapping [OF frames_chmod] err(1)]] by blast
      next
        case (ok u4 a4)
        note k4 = keeps_trans [OF k3 frames_keeps [OF frames_wrapping [OF frames_chmod] ok(1)]]
        have p4: "rnd_pos a4 = rnd_pos a3"
          using ok(1) by (rule wrapping_cases) (auto dest: chmod_pos)
        have q4: "files a4 = files a3"
          using ok(1) by (rule wrapping_cases) (auto dest: chmod_or_close_files)
        from ok(2) show ?thesis
        proof (cases rule: seq_cases)
          case (err e)
          then show ?thesis
            using refused keeps_trans [OF k4 frames_keeps [OF frames_wait_lock err(1)]] by blast
        next
          case (ok u5 a5)
          note k5 = keeps_trans [OF k4 frames_keeps [OF frames_wait_lock ok(1)]]
          have p5: "rnd_pos a5 = rnd_pos a4" "files a5 = files a4"
            using wait_lock_pos [of a4] ok(1) by simp_all
          have "recs a5 q = recs s q" for q
            using q3 [of q] p1 p2 q4 p5(2) by (simp add: recs_def)
          obtain r' s2 where f: "fn a5 = (r', s2)" by force
          then have "r' = r" "t = snd (sys (snd (sys s2)))" using ok(2) by auto
          then show ?thesis
            using held [OF k5] p1 p2 p3 p4 p5 f frames_two_sys [of D s2] \<open>\<And>q. recs a5 q = recs s q\<close> by simp
        qed
      qed
    qed
  qed
qed

lemma frames_withLock [frame_rules]: "frames D fn \<Longrightarrow> frames D (withLock st fn)"
  by (rule framesI, erule withLock_cases [where D = D]) (blast intro: keeps_trans frames_keeps)+

end
