(* ===== verification/Jsonl_Rewrite.thy ===== *)
theory Jsonl_Rewrite
  imports Jsonl_Scan
begin

text \<open>
  Replacing a whole log (rewriteEnvelopes), and the log operations on a machine with no faults
  left. A replacement shows readers the old records or the new ones, whatever call fails.
\<close>

section \<open>Replacing a log\<close>

definition temp_path :: "string \<Rightarrow> string \<Rightarrow> bool" where
  "temp_path dir p \<longleftrightarrow> prefix (join_path dir ''.jsonl-rewrite-'') p"

lemma create_temp_post:
  "create_temp n dir s = (r, t) \<Longrightarrow>
     (\<forall>D. keeps D s t) \<and>
     (\<forall>q. r = Inr q \<longrightarrow> temp_path dir q \<and> file_at s q = None \<and> file_at t = (file_at s)(q \<mapsto> []))"
proof (induction n dir s rule: create_temp.induct)
  case (2 n dir s)
  obtain nm s1 where nm: "newID ''.jsonl-rewrite-'' s = (nm, s1)" by force
  obtain c s2 where c: "sys s1 = (c, s2)" by force
  have k: "keeps D s s2" for D
    by (rule keeps_trans [OF keeps_newID [OF nm] frames_keeps [OF frames_sys c]])
  have f: "files s2 = files s" using newID_frame [OF nm] sys_frame [OF c] by simp
  have tp: "temp_path dir (join_path dir nm)"
    using newID_frame [OF nm] by (auto simp: temp_path_def join_path_def)
  show ?case
  proof (cases c)
    case (Inl e)
    then show ?thesis using 2(2) nm c k by auto
  next
    case (Inr u)
    show ?thesis
    proof (cases "file_at s2 (join_path dir nm)")
      case None
      then have e: "r = Inr (join_path dir nm)" "t = set_file (join_path dir nm) [] s2"
        using 2(2) nm c Inr by auto
      have "keeps D s t" for D
        using keeps_trans [OF k keeps_new_file [OF None]] e by simp
      then show ?thesis using e f tp None by simp
    next
      case (Some b)
      then have ct: "create_temp n dir s2 = (r, t)" using 2(2) nm c Inr by simp
      have IH: "(\<forall>D. keeps D s2 t) \<and>
          (\<forall>q. r = Inr q \<longrightarrow> temp_path dir q \<and> file_at s2 q = None \<and> file_at t = (file_at s2)(q \<mapsto> []))"
        by (rule 2(1) [OF nm [symmetric] c [symmetric] Inr Some ct])
      then show ?thesis using keeps_trans [OF k] f by auto
    qed
  qed
qed auto

lemma frames_private_dir: "frames D ensurePrivateDir"
  unfolding ensurePrivateDir_def by (intro frame_rules)

lemma frames_deferring_remove: "frames D m \<Longrightarrow> \<not> D q \<Longrightarrow> frames D (deferring_remove q m)"
proof (rule framesI)
  fix s r t
  assume m: "frames D m" and q: "\<not> D q" and d: "deferring_remove q m s = (r, t)"
  obtain r1 s1 where r1: "m s = (r1, s1)" by force
  obtain r2 s2 where r2: "remove_file q s1 = (r2, s2)" by force
  have "t = s2" using d r1 r2 by (simp add: deferring_remove_def)
  then show "keeps D s t"
    using keeps_trans [OF frames_keeps [OF m r1] frames_keeps [OF frames_remove [where D = D, OF q] r2]] by simp
qed

lemma rewrite_body_frames:
  "\<not> D tmp \<Longrightarrow> \<not> D p \<Longrightarrow> frames D (deferring_remove tmp (rewrite_body tmp p records))"
  unfolding rewrite_body_def by (rule frames_deferring_remove) (intro frame_rules)+

lemma frames_rewrite:
  assumes "\<not> D (join_path dir name)" "\<And>q. temp_path dir q \<Longrightarrow> \<not> D q"
  shows "frames D (rewriteEnvelopes dir name records)"
proof (rule framesI)
  fix s r t
  assume "rewriteEnvelopes dir name records s = (r, t)"
  then show "keeps D s t"
    unfolding rewriteEnvelopes_def
  proof (cases rule: seq_cases)
    case (err e)
    then show ?thesis using frames_keeps [OF frames_private_dir err(1)] by simp
  next
    case (ok u s1)
    have k: "keeps D s s1" by (rule frames_keeps [OF frames_private_dir ok(1)])
    from ok(2) show ?thesis
    proof (cases rule: seq_cases)
      case (err e)
      then show ?thesis using create_temp_post [OF err(1)] k by (blast intro: keeps_trans)
    next
      case (ok tmp s2)
      then have k2: "keeps D s1 s2" and "temp_path dir tmp" using create_temp_post [OF ok(1)] by auto
      then have "\<not> D tmp" by (simp add: assms(2))
      note body = rewrite_body_frames [where D = D, OF this assms(1)]
      show ?thesis by (rule keeps_trans [OF keeps_trans [OF k k2] frames_keeps [OF body ok(2)]])
    qed
  qed
qed

lemma marshal_all_ok: "\<forall>e \<in> set es. env_ok e \<Longrightarrow> marshal_all es = Inr (concat (map (\<lambda>e. line_of e @ [CHR 0x0A]) es))"
  by (induction es) (simp_all add: marshal_envelope)

lemma scan_all:
  "\<forall>e \<in> set es. env_ok e \<Longrightarrow> scan p (concat (map (\<lambda>e. line_of e @ [CHR 0x0A]) es)) None = Inr (es, False)"
proof (induction es)
  case (Cons e es)
  then show ?case
    using scan_line [OF line_of_no_newline, of e p "concat (map (\<lambda>e. line_of e @ [CHR 0x0A]) es)" None]
    by (simp add: decode_line_of)
qed simp

lemma rename_file_at:
  "rename_file q p s = (r, t) \<Longrightarrow> file_at t = file_at s \<or>
     (\<exists>b. file_at s q = Some b \<and> file_at t = (file_at s)(q := None, p \<mapsto> b))"
  "rename_file q p s = (Inr u, t) \<Longrightarrow>
     (\<exists>b. file_at s q = Some b \<and> file_at t = (file_at s)(q := None, p \<mapsto> b))"
  by (auto simp: rename_file_def seq_def split: prod.splits sum.splits option.splits dest!: sys_frame)

lemma or_close_cases:
  assumes "or_close m s = (r, t)"
  obtains (err) e s1 where "m s = (Inl e, s1)" "r = Inl e" "files t = files s1"
  | (ok) x where "m s = (Inr x, t)" "r = Inr x"
  using assms by (auto simp: or_close_def split: prod.splits sum.splits)

text \<open>
  The body after the temporary file is made: readers of the target see the old file until the
  rename, and from then on the new records.
\<close>

lemma rewrite_body_post:
  assumes run: "rewrite_body tmp p es s = (r, t)"
    and tmp: "file_at s tmp = Some []" "tmp \<noteq> p" and es: "\<forall>e \<in> set es. env_ok e"
  shows "file_at t p = file_at s p \<or> ready t p es" "r = Inr () \<Longrightarrow> ready t p es"
proof -
  let ?b = "concat (map (\<lambda>e. line_of e @ [CHR 0x0A]) es)"
  let ?P = "\<lambda>r t. (file_at t p = file_at s p \<or> ready t p es) \<and> (r = Inr () \<longrightarrow> ready t p es)"
  from run have "?P r t"
    unfolding rewrite_body_def
  proof (cases rule: seq_cases)
    case (err e)
    then show ?thesis by (auto elim!: or_close_cases dest!: sys_frame)
  next
    case (ok u s1)
    have f1: "files s1 = files s" using ok(1) by (auto elim!: or_close_cases dest!: sys_frame)
    from ok(2) show ?thesis
    proof (cases rule: seq_cases)
      case (err e)
      then show ?thesis by (auto elim!: or_close_cases simp: lift_result_def marshal_all_ok [OF es])
    next
      case (ok b s2)
      then have b: "b = ?b" "s2 = s1"
        by (auto elim!: or_close_cases simp: lift_result_def marshal_all_ok [OF es])
      from ok(2) show ?thesis
      proof (cases rule: seq_cases)
        case (err e)
        then have "file_at t p = file_at s1 p"
          using tmp(2) b(2) by (auto elim!: or_close_cases dest!: write_bytes_files)
        then show ?thesis using f1 err by simp
      next
        case (ok u s3)
        then have w: "file_at s3 = (file_at s)(tmp \<mapsto> ?b)"
          using tmp b f1 by (auto elim!: or_close_cases dest!: write_bytes_ok)
        then have fp: "file_at s3 p = file_at s p" using tmp(2) by simp
        from ok(2) show ?thesis
        proof (cases rule: seq_cases)
          case (err e)
          then show ?thesis using fp by (auto elim!: or_close_cases dest!: sys_frame)
        next
          case (ok u s4)
          then have f4: "files s4 = files s3" by (auto elim!: or_close_cases dest!: sys_frame)
          from ok(2) show ?thesis
          proof (cases rule: seq_cases)
            case (err e)
            then show ?thesis using fp f4 by (auto dest!: sys_frame)
          next
            case (ok u s5)
            then have f5: "files s5 = files s3" using f4 by (auto dest!: sys_frame)
            from ok(2) show ?thesis
            proof (cases rule: seq_cases)
              case (err e)
              then show ?thesis
                using rename_file_at(1) [OF err(1)] f5 w fp scan_all [OF es, of p]
                by (auto simp: ready_def recs_def)
            next
              case (ok u s6)
              then have "file_at s6 p = Some ?b"
                using rename_file_at(2) [of tmp p s5 u s6] f5 w by auto
              then have "ready t p es"
                using syncDir_files [OF ok(2)] scan_all [OF es, of p] by (simp add: ready_def recs_def)
              then show ?thesis by simp
            qed
          qed
        qed
      qed
    qed
  qed
  then show "file_at t p = file_at s p \<or> ready t p es" "r = Inr () \<Longrightarrow> ready t p es" by auto
qed

lemma rewrite_post:
  assumes "rewriteEnvelopes dir name es s = (r, t)" "no_cut s" "\<forall>e \<in> set es. env_ok e"
    and p: "p = join_path dir name" "\<not> temp_path dir p"
  shows "view t p = view s p \<or> view t p = Inr es" "r = Inr () \<Longrightarrow> ready t p es"
proof -
  have "(view t p = view s p \<or> view t p = Inr es) \<and> (r = Inr () \<longrightarrow> ready t p es)"
    using assms(1) unfolding rewriteEnvelopes_def
  proof (cases rule: seq_cases)
    case (err e)
    then show ?thesis
      using frames_keeps [OF frames_private_dir [of "\<lambda>_. True"] err(1)] assms(2) by (auto dest: keeps_view)
  next
    case (ok u s1)
    have k1: "keeps (\<lambda>_. True) s s1" by (rule frames_keeps [OF frames_private_dir ok(1)])
    from ok(2) show ?thesis
    proof (cases rule: seq_cases)
      case (err e)
      then have "keeps (\<lambda>_. True) s t" using create_temp_post [OF err(1)] k1 by (blast intro: keeps_trans)
      then show ?thesis using err assms(2) by (auto dest: keeps_view)
    next
      case (ok tmp s2)
      have ct: "keeps (\<lambda>_. True) s1 s2" "temp_path dir tmp" "file_at s2 tmp = Some []"
        using create_temp_post [OF ok(1)] by auto
      then have v: "view s2 p = view s p" using k1 assms(2) by (metis keeps_trans keeps_view)
      have ne: "tmp \<noteq> p" using ct(2) p(2) by auto
      obtain r1 s3 where b: "rewrite_body tmp p es s2 = (r1, s3)" by force
      obtain r2 s4 where rm: "remove_file tmp s3 = (r2, s4)" by force
      have e: "r = r1" "t = s4" using ok(2) b rm by (simp_all add: deferring_remove_def p(1))
      have "file_at s4 p = file_at s3 p"
        using rm ne by (auto simp: remove_file_def seq_def split: prod.splits sum.splits dest!: sys_frame)
      then have "recs s4 p = recs s3 p" by (rule recs_at)
      then show ?thesis
        using rewrite_body_post [OF b ct(3) ne assms(3)] e v
        by (auto simp: view_def ready_def recs_def)
    qed
  qed
  then show "view t p = view s p \<or> view t p = Inr es" "r = Inr () \<Longrightarrow> ready t p es" by auto
qed

section \<open>No faults left\<close>

lemma quiet_sys [simp]: "faults s = [] \<Longrightarrow> sys s = (Inr (), s)"
  by (simp add: sys_def next_fault_def)

lemma quiet_seq_sys: "faults s = [] \<Longrightarrow> seq sys k s = k () s"
  by (simp add: seq_def)

lemma quiet_keeps: "keeps D s t \<Longrightarrow> faults s = [] \<Longrightarrow> faults t = []"
  by (auto simp: keeps_def)

lemma quiet_no_cut [simp]: "faults s = [] \<Longrightarrow> no_cut s"
  by (simp add: no_cut_def)

lemma readEnvelopes_quiet: "faults s = [] \<Longrightarrow> fst (readEnvelopes p s) = view s p"
proof (cases "file_at s p")
  case (Some d)
  assume q: "faults s = []"
  have f: "faults (set_file p (d @ [CHR 0x0A]) s) = []" using q by simp
  show ?thesis
    using q Some f
    by (cases "scan p d None")
      (auto simp: readEnvelopes_def quiet_seq_sys view_def recs_def read_bytes_def next_fault_def
        seq_def wrapping_def repairFinalNewline_def write_sync_close_def write_bytes_def add_bytes_def ret_def)
qed (simp add: readEnvelopes_def quiet_seq_sys view_def recs_def)

lemma withLock_quiet:
  assumes "faults s = []"
  obtains s1 where "keeps D s s1" "faults s1 = []" "fst (withLock st fn s) = fst (fn s1)"
proof -
  let ?p = "join_path (locksDir st) ''store.lock''"
  let ?s1 = "case file_at s ?p of Some _ \<Rightarrow> s | None \<Rightarrow> set_file ?p [] s"
  have q: "faults ?s1 = []" using assms by (simp split: option.split)
  have o: "open_create ?p s = (Inr (), ?s1)" using assms by (simp add: open_create_def quiet_seq_sys)
  have c: "chmod_or_close ?s1 = (Inr (), ?s1)" using q by (simp add: chmod_or_close_def)
  have l: "wait_lock ?s1 = (Inr (), ?s1)" using q by (subst wait_lock.simps) simp
  have "fst (withLock st fn s) = fst (fn ?s1)"
    using assms o c l by (simp add: withLock_def quiet_seq_sys seq_def wrapping_def split: prod.split)
  moreover have "keeps D s ?s1" by (simp add: keeps_new_file split: option.split)
  ultimately show ?thesis using q that by blast
qed

end
