(* ===== verification/Jsonl_Sessions.thy ===== *)
theory Jsonl_Sessions
  imports Jsonl_Rewrite
begin

text \<open>
  storage/metadata/jsonl/sessions.go: sessions as transcripts. \<open>replaySession\<close> folds the
  records of a transcript; the public operations run under the store's lock. A session that is
  nil in the code is \<open>None\<close>. UpdateSession returns the session it leaves in its argument.
\<close>

section \<open>Session records\<close>

text \<open>The sessionMeta of store.go: the session without its messages.\<close>

definition meta_json :: "session \<Rightarrow> json" where
  "meta_json s = JObj
     ([(''id'', JStr (sess_id s)), (''agentId'', JStr (sess_agent_id s)),
       (''userId'', JStr (sess_user_id s))]
      @ omit_str ''parentSessionId'' (sess_parent_session_id s)
      @ [(''state'', JObj (sess_state s)),
         (''openInterrupts'', JArr (map enc_interrupt (sess_open_interrupts s))),
         (''revision'', enc_uint64 (sess_revision s)), (''createdAt'', enc_int (sess_created_at s)),
         (''updatedAt'', enc_int (sess_updated_at s))])"

text \<open>
  Decoding a sessionMeta and applying it to a session: every field but the messages is set.
\<close>

definition apply_meta :: "json \<Rightarrow> session \<Rightarrow> session option" where
  "apply_meta v old = dec_struct (\<lambda>kvs. do {
     i \<leftarrow> dec_string (jmember ''id'' kvs);
     a \<leftarrow> dec_string (jmember ''agentId'' kvs);
     u \<leftarrow> dec_string (jmember ''userId'' kvs);
     p \<leftarrow> dec_string (jmember ''parentSessionId'' kvs);
     st \<leftarrow> dec_map (jmember ''state'' kvs);
     is \<leftarrow> dec_list dec_interrupt (jmember ''openInterrupts'' kvs);
     r \<leftarrow> dec_uint64 (jmember ''revision'' kvs);
     c \<leftarrow> dec_int64 (jmember ''createdAt'' kvs);
     t \<leftarrow> dec_int64 (jmember ''updatedAt'' kvs);
     Some (old\<lparr>sess_id := i, sess_agent_id := a, sess_user_id := u, sess_parent_session_id := p,
           sess_state := st, sess_open_interrupts := is, sess_revision := r,
           sess_created_at := c, sess_updated_at := t\<rparr>) }) v"

definition zero_session :: session where
  "zero_session = \<lparr>sess_id = [], sess_agent_id = [], sess_user_id = [], sess_parent_session_id = [],
     sess_messages = [], sess_state = [], sess_open_interrupts = [], sess_revision = 0,
     sess_created_at = 0, sess_updated_at = 0\<rparr>"

text \<open>summaryFromSession and summarySession: what a list shows of a session.\<close>

definition summary_json :: "session \<Rightarrow> json" where
  "summary_json s = JObj
     ([(''id'', JStr (sess_id s)), (''agentId'', JStr (sess_agent_id s)),
       (''userId'', JStr (sess_user_id s))]
      @ omit_str ''parentSessionId'' (sess_parent_session_id s)
      @ [(''revision'', enc_uint64 (sess_revision s)), (''createdAt'', enc_int (sess_created_at s)),
         (''updatedAt'', enc_int (sess_updated_at s))])"

definition summarySession :: "session \<Rightarrow> session" where
  "summarySession s = s\<lparr>sess_messages := [], sess_state := [], sess_open_interrupts := []\<rparr>"

definition messages_json :: "message list \<Rightarrow> json" where
  "messages_json ms = JObj [(''messages'', JArr (map enc_message ms))]"

definition dec_messages :: "json \<Rightarrow> message list option" where
  "dec_messages = dec_struct (\<lambda>kvs. dec_list dec_message (jmember ''messages'' kvs))"

section \<open>Replay\<close>

text \<open>applySessionMessageEvent: overwrite the first message with the id, or append.\<close>

fun upsert_message :: "message \<Rightarrow> message list \<Rightarrow> message list" where
  "upsert_message m [] = [m]"
| "upsert_message m (x # xs) = (if msg_id x = msg_id m then m # xs else x # upsert_message m xs)"

definition applySessionMessageEvent :: "session \<Rightarrow> envelope \<Rightarrow> error + session" where
  "applySessionMessageEvent sess e =
     (if env_type e = ''message.upsert'' then
        (case decode_payload dec_message (env_payload e) of
           Inl x \<Rightarrow> Inl (wrapf ''decode message.upsert'' x)
         | Inr m \<Rightarrow> Inr (sess\<lparr>sess_messages := upsert_message m (sess_messages sess)\<rparr>))
      else if env_type e = ''messages.replaced'' then
        (case decode_payload dec_messages (env_payload e) of
           Inl x \<Rightarrow> Inl (wrapf ''decode messages.replaced'' x)
         | Inr ms \<Rightarrow> Inr (sess\<lparr>sess_messages := ms\<rparr>))
      else Inl (ErrMsg (''invalid session message event type '' @ quote (env_type e))))"

fun applyEvents :: "session \<Rightarrow> envelope list \<Rightarrow> error + session" where
  "applyEvents sess [] = Inr sess"
| "applyEvents sess (e # es) =
     (case applySessionMessageEvent sess e of Inl x \<Rightarrow> Inl x | Inr sess' \<Rightarrow> applyEvents sess' es)"

record replay =
  rp_sess :: session
  rp_created :: bool
  rp_deleted :: bool
  rp_pending :: "string \<Rightarrow> envelope list"
  rp_committed :: "string list"

definition replay_init :: replay where
  "replay_init = \<lparr>rp_sess = zero_session, rp_created = False, rp_deleted = False,
     rp_pending = (\<lambda>_. []), rp_committed = []\<rparr>"

definition decode_meta :: "string \<Rightarrow> string \<Rightarrow> envelope \<Rightarrow> session \<Rightarrow> error + session" where
  "decode_meta typ sid e sess =
     (case decode_payload (\<lambda>v. apply_meta v sess) (env_payload e) of
        Inl x \<Rightarrow> Inl (wrapf (''decode '' @ typ) x)
      | Inr sess' \<Rightarrow>
          if sess_id sess' = [] \<or> sess_id sess' \<noteq> sid then
            Inl (ErrMsg (typ @ '' id '' @ quote (sess_id sess') @ '' does not match filename '' @ quote sid))
          else Inr sess')"

text \<open>The cases message.upsert and messages.replaced, which the code has twice.\<close>

definition replay_message :: "replay \<Rightarrow> envelope \<Rightarrow> error + replay" where
  "replay_message rp e =
     (if \<not> rp_created rp \<or> rp_deleted rp then Inl (ErrMsg (''invalid '' @ env_type e @ '' position''))
      else if env_txn e \<noteq> [] then
        (if env_txn e \<in> set (rp_committed rp) then
           Inl (ErrMsg (''message event follows committed transaction '' @ quote (env_txn e)))
         else Inr (rp\<lparr>rp_pending := (rp_pending rp)(env_txn e := rp_pending rp (env_txn e) @ [e])\<rparr>))
      else (case applySessionMessageEvent (rp_sess rp) e of
              Inl x \<Rightarrow> Inl x | Inr sess \<Rightarrow> Inr (rp\<lparr>rp_sess := sess\<rparr>)))"

definition replay_updated :: "string \<Rightarrow> replay \<Rightarrow> envelope \<Rightarrow> error + replay" where
  "replay_updated sid rp e =
     (if \<not> rp_created rp \<or> rp_deleted rp then Inl (ErrMsg ''invalid session.updated position'')
      else case decode_meta ''session.updated'' sid e (rp_sess rp) of
        Inl x \<Rightarrow> Inl x
      | Inr meta \<Rightarrow>
          if env_txn e = [] then Inr (rp\<lparr>rp_sess := meta\<rparr>)
          else if env_txn e \<in> set (rp_committed rp) then
            Inl (ErrMsg (''duplicate committed transaction '' @ quote (env_txn e)))
          else (case applyEvents (rp_sess rp) (rp_pending rp (env_txn e)) of
                  Inl x \<Rightarrow> Inl x
                | Inr sess \<Rightarrow> Inr (rp\<lparr>rp_sess := meta\<lparr>sess_messages := sess_messages sess\<rparr>,
                     rp_pending := (rp_pending rp)(env_txn e := []),
                     rp_committed := env_txn e # rp_committed rp\<rparr>)))"

definition replay_created :: "string \<Rightarrow> replay \<Rightarrow> envelope \<Rightarrow> error + replay" where
  "replay_created sid rp e =
     (if rp_created rp \<or> rp_deleted rp then Inl (ErrMsg ''invalid session.created position'')
      else case decode_meta ''session.created'' sid e (rp_sess rp) of
        Inl x \<Rightarrow> Inl x
      | Inr sess \<Rightarrow> Inr (rp\<lparr>rp_sess := sess, rp_created := True\<rparr>))"

definition replay_step :: "string \<Rightarrow> replay \<Rightarrow> envelope \<Rightarrow> error + replay" where
  "replay_step sid rp e =
     (if env_session e \<noteq> [] \<and> env_session e \<noteq> sid then
        Inl (ErrMsg (''record '' @ env_event_id e @ '' belongs to session '' @ quote (env_session e)))
      else if env_type e = ''session.created'' then replay_created sid rp e
      else if env_type e = ''session.updated'' then replay_updated sid rp e
      else if env_type e = ''message.upsert'' \<or> env_type e = ''messages.replaced'' then replay_message rp e
      else if env_type e = ''session.deleted'' then
        (if \<not> rp_created rp \<or> rp_deleted rp then Inl (ErrMsg ''invalid session.deleted position'')
         else Inr (rp\<lparr>rp_deleted := True\<rparr>))
      else Inl (ErrMsg (''unknown session event type '' @ quote (env_type e))))"

fun replay_all :: "string \<Rightarrow> replay \<Rightarrow> envelope list \<Rightarrow> error + replay" where
  "replay_all sid rp [] = Inr rp"
| "replay_all sid rp (e # es) =
     (case replay_step sid rp e of Inl x \<Rightarrow> Inl x | Inr rp' \<Rightarrow> replay_all sid rp' es)"

text \<open>The session and whether it is deleted.\<close>

definition replaySession :: "string \<Rightarrow> envelope list \<Rightarrow> error + session \<times> bool" where
  "replaySession sid es =
     (case replay_all sid replay_init es of
        Inl x \<Rightarrow> Inl x
      | Inr rp \<Rightarrow>
          if \<not> rp_created rp then Inl (ErrMsg ''session transcript has no session.created record'')
          else if sess_id (rp_sess rp) \<noteq> [] \<and> sess_id (rp_sess rp) \<noteq> sid then
            Inl (ErrMsg (''session metadata id '' @ quote (sess_id (rp_sess rp)) @ '' does not match filename '' @ quote sid))
          else Inr ((rp_sess rp)\<lparr>sess_id := sid\<rparr>, rp_deleted rp))"

section \<open>Reading sessions\<close>

definition getSessionLocked :: "store \<Rightarrow> string \<Rightarrow> session option io" where
  "getSessionLocked st sid =
     seq (sessionPath st sid) (\<lambda>path.
     seq (wrapping (''jsonl: read session '' @ quote sid) (readEnvelopes path)) (\<lambda>records.
     if records = [] then ret None
     else seq (wrapping (''jsonl: replay session '' @ quote sid) (lift_result (replaySession sid records)))
       (\<lambda>(sess, deleted). ret (if deleted then None else Some sess))))"

fun scan_names :: "store \<Rightarrow> string list \<Rightarrow> session list io" where
  "scan_names st [] = ret []"
| "scan_names st (n # ns) =
     (if \<not> suffix ''.jsonl'' n then scan_names st ns
      else let sid = take (length n - 6) n in
        case validateSessionID (unicode_table st) sid of
          Some e \<Rightarrow> raise e
        | None \<Rightarrow>
            seq (getSessionLocked st sid) (\<lambda>sess.
            seq (scan_names st ns) (\<lambda>rest.
            ret (case sess of Some x \<Rightarrow> x # rest | None \<Rightarrow> rest))))"

text \<open>os.ReadDir gives the entries by name; directories are no files here.\<close>

definition scanSessionsLocked :: "store \<Rightarrow> session list io" where
  "scanSessionsLocked st = seq sys (\<lambda>_ s. scan_names st (dir_entries (transcriptDir st) s) s)"

section \<open>The index\<close>

fun index_records :: "session list \<Rightarrow> envelope list io" where
  "index_records [] = ret []"
| "index_records (x # xs) =
     seq (newEnvelope ''session.index.upsert'' (sess_id x) (sess_id x) (summary_json x)) (\<lambda>e.
     seq (index_records xs) (\<lambda>es. ret (e # es)))"

definition rebuildIndexLocked :: "store \<Rightarrow> session list \<Rightarrow> unit io" where
  "rebuildIndexLocked st sessions =
     seq (index_records sessions) (\<lambda>records. rewriteEnvelopes (storeDir st) ''session-index.jsonl'' records)"

text \<open>The live keys of an index; an unknown record type is an error.\<close>

fun index_live :: "envelope list \<Rightarrow> string list \<Rightarrow> error + string list" where
  "index_live [] live = Inr live"
| "index_live (e # es) live =
     (if env_type e = ''session.index.upsert'' then index_live es (List.insert (env_key e) live)
      else if env_type e = ''session.index.delete'' then index_live es (removeAll (env_key e) live)
      else Inl (ErrMsg (''jsonl: unknown session index event type '' @ quote (env_type e))))"

text \<open>Stat on a file just appended to, for its size.\<close>

definition file_size :: "string \<Rightarrow> nat io" where
  "file_size p = seq sys (\<lambda>_ s.
     (case file_at s p of None \<Rightarrow> (Inl (ErrMsg ''no such file or directory''), s) | Some b \<Rightarrow> (Inr (length b), s)))"

text \<open>\<open>Inr sess\<close> records an upsert of the session, \<open>Inl sid\<close> the deletion of one.\<close>

definition appendIndexLocked :: "store \<Rightarrow> string + session \<Rightarrow> unit io" where
  "appendIndexLocked st what =
     (let path = join_path (storeDir st) ''session-index.jsonl'' in
      if what = Inl [] then raise (ErrMsg ''jsonl: deleted session index record requires an id'')
      else
        seq (case what of
               Inl sid \<Rightarrow> newEnvelope ''session.index.delete'' sid sid (JObj [(''id'', JStr sid)])
             | Inr sess \<Rightarrow> newEnvelope ''session.index.upsert'' (sess_id sess) (sess_id sess) (summary_json sess)) (\<lambda>e.
        seq (appendEnvelope path e) (\<lambda>_.
        seq (file_size path) (\<lambda>size.
        if size \<le> mutableCompactionBytes then ret ()
        else
          seq (readEnvelopes path) (\<lambda>records.
          seq (lift_result (index_live records [])) (\<lambda>live.
          if (length records - length live) * 2 < length records then ret ()
          else
            seq (scanSessionsLocked st) (\<lambda>all. rebuildIndexLocked st all)))))))"

section \<open>Changing sessions\<close>

fun create_attempts :: "store \<Rightarrow> nat \<Rightarrow> string \<Rightarrow> string \<Rightarrow> session io" where
  "create_attempts st 0 agentID userID = raise (ErrMsg ''jsonl: unable to allocate a unique session id'')"
| "create_attempts st (Suc n) agentID userID = (\<lambda>s.
     case newID ''ses-'' s of (sid, s1) \<Rightarrow>
       seq (sessionPath st sid) (\<lambda>path.
       seq (stat_file path) (\<lambda>exists.
       if exists then create_attempts st n agentID userID
       else (\<lambda>s2.
         case now_milli s2 of (now, s3) \<Rightarrow>
           (let sess = zero_session\<lparr>sess_id := sid, sess_agent_id := agentID, sess_user_id := userID,
                  sess_revision := 1, sess_created_at := now, sess_updated_at := now\<rparr> in
            seq (wrapping ''jsonl: create session'' (newEnvelope ''session.created'' sid [] (meta_json sess))) (\<lambda>e.
            seq (wrapping ''jsonl: create session'' (appendEnvelope path e)) (\<lambda>_.
            seq (ignoring (appendIndexLocked st (Inr sess))) (\<lambda>_.
            ret sess))) s3)))) s1)"

definition CreateSession :: "store \<Rightarrow> string \<Rightarrow> string \<Rightarrow> session io" where
  "CreateSession st agentID userID = withLock st (create_attempts st 10 agentID userID)"

definition GetSession :: "store \<Rightarrow> string \<Rightarrow> session option io" where
  "GetSession st sid = withLock st (getSessionLocked st sid)"

text \<open>A copy through JSON; the original where that fails.\<close>

definition cloneSession :: "session \<Rightarrow> session" where
  "cloneSession sess =
     (case json_Marshal (enc_session sess) of
        Inl _ \<Rightarrow> sess
      | Inr raw \<Rightarrow> (case unmarshal dec_session raw of Inl _ \<Rightarrow> sess | Inr c \<Rightarrow> c))"

text \<open>The upserts from position \<open>i\<close> of the two message lists on.\<close>

fun upsert_events :: "string \<Rightarrow> string \<Rightarrow> message list \<Rightarrow> message list \<Rightarrow> envelope list io" where
  "upsert_events txn sid cur [] = ret []"
| "upsert_events txn sid cur (m # ms) =
     (if cur \<noteq> [] \<and> hd cur = m then upsert_events txn sid (tl cur) ms
      else
        seq (wrapping (''jsonl: marshal message '' @ quote (msg_id m))
               (newEnvelope ''message.upsert'' sid (msg_id m) (enc_message m))) (\<lambda>e.
        seq (upsert_events txn sid (tl cur) ms) (\<lambda>es.
        ret (e\<lparr>env_txn := txn\<rparr> # es))))"

definition incremental :: "message list \<Rightarrow> message list \<Rightarrow> bool" where
  "incremental cur nxt \<longleftrightarrow>
     length cur \<le> length nxt \<and> map msg_id cur = map msg_id (take (length cur) nxt)"

definition sessionMessageChanges :: "string \<Rightarrow> string \<Rightarrow> message list \<Rightarrow> message list \<Rightarrow> envelope list io" where
  "sessionMessageChanges txn sid cur nxt =
     (if incremental cur nxt then upsert_events txn sid cur nxt
      else
        seq (wrapping ''jsonl: marshal message replacement''
               (newEnvelope ''messages.replaced'' sid [] (messages_json nxt))) (\<lambda>e.
        ret [e\<lparr>env_txn := txn\<rparr>]))"

fun append_events :: "string \<Rightarrow> envelope list \<Rightarrow> unit io" where
  "append_events path [] = ret ()"
| "append_events path (e # es) =
     seq (wrapping ''jsonl: append session transaction'' (appendEnvelope path e)) (\<lambda>_. append_events path es)"

definition max_int64 :: int where
  "max_int64 = 2 ^ 63 - 1"

text \<open>
  The new snapshot of a session: identity and creation kept, the revision and the update time
  advanced, or the error of an overflow.
\<close>

definition next_session :: "session \<Rightarrow> session \<Rightarrow> int \<Rightarrow> error + session" where
  "next_session sess current now =
     (let nxt = (cloneSession sess)\<lparr>sess_id := sess_id current, sess_created_at := sess_created_at current,
                  sess_revision := sess_revision current + 1\<rparr> in
      if now \<le> sess_updated_at current then
        (if sess_updated_at current = max_int64
           then Inl (ErrMsg (''jsonl: session '' @ quote (sess_id sess) @ '' updatedAt overflow''))
         else Inr (nxt\<lparr>sess_updated_at := sess_updated_at current + 1\<rparr>))
      else Inr (nxt\<lparr>sess_updated_at := now\<rparr>))"

definition commit_session :: "store \<Rightarrow> string \<Rightarrow> session \<Rightarrow> session \<Rightarrow> session io" where
  "commit_session st sid current nxt =
     seq (sessionPath st sid) (\<lambda>path s.
     case newID ''txn-'' s of (txn, s1) \<Rightarrow>
       seq (sessionMessageChanges txn sid (sess_messages current) (sess_messages nxt)) (\<lambda>events.
       seq (wrapping ''jsonl: marshal session update'' (newEnvelope ''session.updated'' sid [] (meta_json nxt))) (\<lambda>e.
       seq (append_events path events) (\<lambda>_.
       seq (wrapping ''jsonl: update session'' (appendEnvelope path (e\<lparr>env_txn := txn\<rparr>))) (\<lambda>_.
       seq (ignoring (appendIndexLocked st (Inr nxt))) (\<lambda>_.
       ret nxt))))) s1)"

definition conflict_error :: "string \<Rightarrow> 64 word \<Rightarrow> 64 word \<Rightarrow> error" where
  "conflict_error sid have_rev supplied =
     ErrWrap [] ErrSessionConflict ('': '' @ quote sid @ '' is at revision '' @ nat_text (unat have_rev)
       @ '', supplied '' @ nat_text (unat supplied))"

definition update_locked :: "store \<Rightarrow> session \<Rightarrow> session io" where
  "update_locked st sess =
     seq (getSessionLocked st (sess_id sess)) (\<lambda>cur.
     case cur of
       None \<Rightarrow> raise (ErrMsg (''jsonl: update session '' @ quote (sess_id sess) @ '': not found''))
     | Some current \<Rightarrow>
         if sess_revision sess \<noteq> sess_revision current
           then raise (conflict_error (sess_id sess) (sess_revision current) (sess_revision sess))
         else if sess_revision current = - 1
           then raise (ErrMsg (''jsonl: session '' @ quote (sess_id sess) @ '' revision overflow''))
         else (\<lambda>s. case now_milli s of (now, s1) \<Rightarrow>
           seq (lift_result (next_session sess current now)) (commit_session st (sess_id sess) current) s1))"

definition UpdateSession :: "store \<Rightarrow> session \<Rightarrow> session io" where
  "UpdateSession st sess =
     (case validateSessionID (unicode_table st) (sess_id sess) of
        Some e \<Rightarrow> raise e
      | None \<Rightarrow> withLock st (update_locked st sess))"

definition append_tombstone :: "string \<Rightarrow> string \<Rightarrow> session option \<Rightarrow> unit io" where
  "append_tombstone sid path cur =
     (case cur of
        None \<Rightarrow> ret ()
      | Some _ \<Rightarrow>
          seq (newEnvelope ''session.deleted'' sid [] (JObj [(''id'', JStr sid)])) (\<lambda>e.
          wrapping (''jsonl: delete session '' @ quote sid) (appendEnvelope path e)))"

text \<open>Once the transcript is known to exist: the tombstone, the index, the rename and the removal.\<close>

definition delete_locked :: "store \<Rightarrow> string \<Rightarrow> string \<Rightarrow> unit io" where
  "delete_locked st sid path =
     seq (getSessionLocked st sid) (\<lambda>cur.
     seq (append_tombstone sid path cur) (\<lambda>_.
     seq (ignoring (appendIndexLocked st (Inl sid))) (\<lambda>_.
     seq (ignoring (remove_file (path @ ''.deleted''))) (\<lambda>_.
     seq (wrapping (''jsonl: stage deleted session '' @ quote sid) (rename_file path (path @ ''.deleted''))) (\<lambda>_.
     seq (wrapping (''jsonl: sync deleted session '' @ quote sid) syncDir) (\<lambda>_.
     seq (wrapping (''jsonl: remove deleted session '' @ quote sid) (remove_file (path @ ''.deleted''))) (\<lambda>_.
     syncDir)))))))"

definition DeleteSession :: "store \<Rightarrow> string \<Rightarrow> unit io" where
  "DeleteSession st sid =
     (case validateSessionID (unicode_table st) sid of
        Some e \<Rightarrow> raise e
      | None \<Rightarrow> withLock st (
          seq (sessionPath st sid) (\<lambda>path.
          seq (stat_file path) (\<lambda>exists.
          if \<not> exists then ret () else delete_locked st sid path))))"

section \<open>Lists\<close>

text \<open>The list is returned even when rebuilding the index fails, with that error.\<close>

definition listSessions :: "store \<Rightarrow> (session \<Rightarrow> bool) \<Rightarrow> os \<Rightarrow> (session list \<times> error option) \<times> os" where
  "listSessions st matches s =
     (case withLock st (\<lambda>s1.
        case scanSessionsLocked st s1 of
          (Inl e, s2) \<Rightarrow> (Inr ([], Some e), s2)
        | (Inr all, s2) \<Rightarrow>
            (let found = sortSessions (map summarySession (filter matches all)) in
             case rebuildIndexLocked st all s2 of
               (Inl e, s3) \<Rightarrow> (Inr (found, Some e), s3)
             | (Inr _, s3) \<Rightarrow> (Inr (found, None), s3))) s of
        (Inl e, s4) \<Rightarrow> (([], Some e), s4)
      | (Inr r, s4) \<Rightarrow> (r, s4))"

definition ListSessions :: "store \<Rightarrow> string \<Rightarrow> os \<Rightarrow> (session list \<times> error option) \<times> os" where
  "ListSessions st agentID = listSessions st (\<lambda>x. sess_agent_id x = agentID)"

definition ListSessionsByUser :: "store \<Rightarrow> string \<Rightarrow> string \<Rightarrow> os \<Rightarrow> (session list \<times> error option) \<times> os" where
  "ListSessionsByUser st agentID userID = listSessions st (\<lambda>x. sess_agent_id x = agentID \<and> sess_user_id x = userID)"

end
