(* ===== verification/Jsonl_Replay.thy ===== *)
theory Jsonl_Replay
  imports Jsonl_Sessions
begin

text \<open>
  Facts on replay alone: the message events of an open transaction do not show, its commit
  shows all of them, and the events UpdateSession writes lead to the messages it was given.
\<close>

section \<open>Folding\<close>

lemma replay_all_append:
  "replay_all sid rp (xs @ ys) =
     (case replay_all sid rp xs of Inl e \<Rightarrow> Inl e | Inr rp' \<Rightarrow> replay_all sid rp' ys)"
  by (induction xs arbitrary: rp) (auto split: sum.split)

text \<open>What replaySession makes of the state its fold ends in.\<close>

definition replay_result :: "string \<Rightarrow> replay \<Rightarrow> error + session \<times> bool" where
  "replay_result sid rp =
     (if \<not> rp_created rp then Inl (ErrMsg ''session transcript has no session.created record'')
      else if sess_id (rp_sess rp) \<noteq> [] \<and> sess_id (rp_sess rp) \<noteq> sid then
        Inl (ErrMsg (''session metadata id '' @ quote (sess_id (rp_sess rp)) @ '' does not match filename '' @ quote sid))
      else Inr ((rp_sess rp)\<lparr>sess_id := sid\<rparr>, rp_deleted rp))"

lemma replaySession_result:
  "replaySession sid es =
     (case replay_all sid replay_init es of Inl e \<Rightarrow> Inl e | Inr rp \<Rightarrow> replay_result sid rp)"
  by (simp add: replaySession_def replay_result_def split: sum.split)

text \<open>A state in which the session is open: created, not deleted, under its own id.\<close>

definition session_live :: "string \<Rightarrow> replay \<Rightarrow> bool" where
  "session_live sid rp \<longleftrightarrow> rp_created rp \<and> \<not> rp_deleted rp \<and> sess_id (rp_sess rp) = sid"

lemma live_result: "session_live sid rp \<Longrightarrow> replay_result sid rp = Inr (rp_sess rp, False)"
  by (simp add: session_live_def replay_result_def)

lemma decode_payload_cases:
  "decode_payload dec p = Inr x \<longleftrightarrow> (\<exists>v. p = Some v \<and> dec v = Some x)"
  by (auto simp: decode_payload_def split: option.splits)

definition times_ok :: "session \<Rightarrow> bool" where
  "times_ok s \<longleftrightarrow> int64_ok (sess_created_at s) \<and> int64_ok (sess_updated_at s)"

lemma int64_ok_0 [simp]: "int64_ok 0"
  by (simp add: int64_ok_def)

lemma apply_meta_times: "apply_meta v old = Some x \<Longrightarrow> times_ok x"
  unfolding apply_meta_def dec_struct_def times_ok_def
  by (cases v) (auto simp: bind_eq_Some_conv dest: dec_int64_range)

lemma decode_meta_id: "decode_meta typ sid e sess = Inr x \<Longrightarrow> sess_id x = sid \<and> sid \<noteq> [] \<and> times_ok x"
  by (auto simp: decode_meta_def decode_payload_cases split: sum.splits if_splits dest: apply_meta_times)

lemma times_ok_messages [simp]: "times_ok (s\<lparr>sess_messages := ms\<rparr>) = times_ok s"
  by (simp add: times_ok_def)

lemma applySessionMessageEvent_id:
  "applySessionMessageEvent sess e = Inr x \<Longrightarrow> sess_id x = sess_id sess \<and> (times_ok sess \<longrightarrow> times_ok x)"
  by (auto simp: applySessionMessageEvent_def split: if_splits sum.splits)

definition rp_ok :: "string \<Rightarrow> replay \<Rightarrow> bool" where
  "rp_ok sid rp \<longleftrightarrow> (rp_created rp \<longrightarrow> sess_id (rp_sess rp) = sid \<and> times_ok (rp_sess rp))"

lemma replay_step_ok: "replay_step sid rp e = Inr rp' \<Longrightarrow> rp_ok sid rp \<Longrightarrow> rp_ok sid rp'"
  by (auto simp: replay_step_def replay_created_def replay_updated_def replay_message_def rp_ok_def
      split: if_splits sum.splits dest: decode_meta_id applySessionMessageEvent_id)

lemma replay_all_ok: "replay_all sid rp es = Inr rp' \<Longrightarrow> rp_ok sid rp \<Longrightarrow> rp_ok sid rp'"
  by (induction es arbitrary: rp) (auto split: sum.splits dest: replay_step_ok)

lemma replay_live:
  assumes "replay_all sid replay_init es = Inr rp" "replay_result sid rp = Inr (sess, False)"
  shows "session_live sid rp" "rp_sess rp = sess" "times_ok sess"
proof -
  have "rp_ok sid rp" using replay_all_ok [OF assms(1)] by (simp add: rp_ok_def replay_init_def)
  then show "session_live sid rp" "rp_sess rp = sess" "times_ok sess"
    using assms(2) by (auto simp: rp_ok_def session_live_def replay_result_def split: if_splits)
qed

section \<open>Transactions\<close>

text \<open>Transactions no record mentions are neither pending nor committed.\<close>

definition txn_free :: "string \<Rightarrow> replay \<Rightarrow> bool" where
  "txn_free x rp \<longleftrightarrow> rp_pending rp x = [] \<and> x \<notin> set (rp_committed rp)"

lemma replay_step_free:
  "replay_step sid rp e = Inr rp' \<Longrightarrow> txn_free x rp \<Longrightarrow> env_txn e \<noteq> x \<Longrightarrow> txn_free x rp'"
  by (auto simp: replay_step_def replay_created_def replay_updated_def replay_message_def txn_free_def
      split: if_splits sum.splits)

lemma replay_all_free:
  "replay_all sid rp es = Inr rp' \<Longrightarrow> txn_free x rp \<Longrightarrow> x \<notin> env_txn ` set es \<Longrightarrow> txn_free x rp'"
  by (induction es arbitrary: rp) (auto split: sum.splits dest: replay_step_free)

lemma txn_free_init: "txn_free x replay_init"
  by (simp add: txn_free_def replay_init_def)

text \<open>The message events of transaction \<open>x\<close>.\<close>

definition txn_event :: "string \<Rightarrow> string \<Rightarrow> envelope \<Rightarrow> bool" where
  "txn_event sid x e \<longleftrightarrow> env_txn e = x \<and> env_session e = sid \<and>
     (env_type e = ''message.upsert'' \<or> env_type e = ''messages.replaced'')"

lemma replay_txn_event:
  "txn_event sid x e \<Longrightarrow> x \<noteq> [] \<Longrightarrow> session_live sid rp \<Longrightarrow> x \<notin> set (rp_committed rp) \<Longrightarrow>
     replay_step sid rp e = Inr (rp\<lparr>rp_pending := (rp_pending rp)(x := rp_pending rp x @ [e])\<rparr>)"
  by (auto simp: txn_event_def replay_step_def replay_message_def session_live_def)

lemma replay_txn_events:
  "\<forall>e \<in> set evs. txn_event sid x e \<Longrightarrow> x \<noteq> [] \<Longrightarrow> session_live sid rp \<Longrightarrow> x \<notin> set (rp_committed rp) \<Longrightarrow>
     replay_all sid rp evs = Inr (rp\<lparr>rp_pending := (rp_pending rp)(x := rp_pending rp x @ evs)\<rparr>)"
proof (induction evs arbitrary: rp)
  case (Cons e evs)
  let ?rp = "rp\<lparr>rp_pending := (rp_pending rp)(x := rp_pending rp x @ [e])\<rparr>"
  have "session_live sid ?rp" "x \<notin> set (rp_committed ?rp)"
    using Cons.prems by (simp_all add: session_live_def)
  then have "replay_all sid ?rp evs =
      Inr (?rp\<lparr>rp_pending := (rp_pending ?rp)(x := rp_pending ?rp x @ evs)\<rparr>)"
    using Cons.prems by (intro Cons.IH) simp_all
  moreover have "?rp\<lparr>rp_pending := (rp_pending ?rp)(x := rp_pending ?rp x @ evs)\<rparr> =
      rp\<lparr>rp_pending := (rp_pending rp)(x := rp_pending rp x @ e # evs)\<rparr>"
    by (simp del: fun_upd_apply add: fun_upd_same)
  ultimately have "replay_all sid ?rp evs = Inr (rp\<lparr>rp_pending := (rp_pending rp)(x := rp_pending rp x @ e # evs)\<rparr>)"
    by (simp only:)
  then show ?case
    using replay_txn_event [of sid x e rp] Cons.prems by (simp del: fun_upd_apply)
qed simp

text \<open>The decoded sessionMeta of a session, whatever session it is applied to.\<close>

lemma apply_meta_json:
  assumes "session_ok s"
  shows "apply_meta (meta_json s) old = Some (s\<lparr>sess_messages := sess_messages old\<rparr>)"
proof -
  have i: "dec_elems dec_interrupt (map enc_interrupt (sess_open_interrupts s)) = Some (sess_open_interrupts s)"
    using assms by (auto intro!: dec_elems_enc simp: session_ok_def dec_interrupt_enc)
  show ?thesis
    using assms i
    by (simp add: apply_meta_def meta_json_def dec_struct_def session_ok_def jmember_append
      jmember_omit canon_id(3))
qed

lemma json_ok_meta: "session_ok s \<Longrightarrow> json_ok (meta_json s)"
  by (simp add: meta_json_def session_ok_def json_ok_omit ball_Un json_ok_enc_interrupt)

lemma json_ok_summary: "json_ok (summary_json s)"
  by (simp add: summary_json_def json_ok_omit ball_Un)

definition commit_event :: "string \<Rightarrow> string \<Rightarrow> session \<Rightarrow> envelope \<Rightarrow> bool" where
  "commit_event sid x s e \<longleftrightarrow> env_txn e = x \<and> env_session e = sid \<and> env_type e = ''session.updated'' \<and>
     env_payload e = Some (meta_json s)"

lemma decode_meta_commit:
  "commit_event sid x s e \<Longrightarrow> session_ok s \<Longrightarrow> sess_id s = sid \<Longrightarrow> sid \<noteq> [] \<Longrightarrow>
     decode_meta typ sid e old = Inr (s\<lparr>sess_messages := sess_messages old\<rparr>)"
  by (simp add: decode_meta_def decode_payload_def commit_event_def apply_meta_json)

text \<open>The commit of a transaction shows its events and the metadata at once.\<close>

lemma replay_commit:
  assumes "session_live sid rp" "txn_free x rp" "x \<noteq> []" "\<forall>e \<in> set evs. txn_event sid x e"
    and "commit_event sid x s e" "session_ok s" "sess_id s = sid" "sid \<noteq> []"
    and "applyEvents (rp_sess rp) evs = Inr sess'" "sess_messages sess' = sess_messages s"
  shows "\<exists>rp'. replay_all sid rp (evs @ [e]) = Inr rp' \<and> session_live sid rp' \<and> rp_sess rp' = s"
proof -
  let ?rp = "rp\<lparr>rp_pending := (rp_pending rp)(x := rp_pending rp x @ evs)\<rparr>"
  have 1: "replay_all sid rp evs = Inr ?rp"
    using replay_txn_events [OF assms(4,3,1)] assms(2) by (simp add: txn_free_def)
  have 2: "replay_step sid ?rp e = replay_updated sid ?rp e"
    using assms(5) by (simp add: replay_step_def commit_event_def)
  have 3: "replay_updated sid ?rp e = Inr (?rp\<lparr>rp_sess := s\<lparr>sess_messages := sess_messages sess'\<rparr>,
      rp_pending := (rp_pending ?rp)(x := []), rp_committed := x # rp_committed rp\<rparr>)"
    using assms(1-3,9) decode_meta_commit [OF assms(5-8)] assms(5)
    by (simp add: replay_updated_def session_live_def txn_free_def commit_event_def)
  show ?thesis
    unfolding replay_all_append 1 using 2 3 assms(1,7,10) by (simp add: session_live_def)
qed

section \<open>The events of an update\<close>

lemma upsert_message_new: "msg_id m \<notin> set (map msg_id xs) \<Longrightarrow> upsert_message m xs = xs @ [m]"
  by (induction xs) auto

lemma upsert_message_at:
  "msg_id m \<notin> set (map msg_id xs) \<Longrightarrow> msg_id c = msg_id m \<Longrightarrow>
     upsert_message m (xs @ c # cs) = xs @ m # cs"
  by (induction xs) auto

lemma apply_upsert:
  "env_type e = ''message.upsert'' \<Longrightarrow> env_payload e = Some (enc_message m) \<Longrightarrow> message_ok m \<Longrightarrow>
     applySessionMessageEvent sess e = Inr (sess\<lparr>sess_messages := upsert_message m (sess_messages sess)\<rparr>)"
  by (simp add: applySessionMessageEvent_def decode_payload_def dec_message_enc)

lemma dec_messages_json:
  "\<forall>m \<in> set ms. message_ok m \<Longrightarrow> dec_messages (messages_json ms) = Some ms"
  by (simp add: dec_messages_def messages_json_def dec_struct_def dec_elems_enc dec_message_enc)

lemma apply_replaced:
  "env_type e = ''messages.replaced'' \<Longrightarrow> env_payload e = Some (messages_json ms) \<Longrightarrow>
     \<forall>m \<in> set ms. message_ok m \<Longrightarrow> applySessionMessageEvent sess e = Inr (sess\<lparr>sess_messages := ms\<rparr>)"
  by (simp add: applySessionMessageEvent_def decode_payload_def dec_messages_json)

text \<open>Events a session transaction may consist of, with the clock of the machine in range.\<close>

definition clock_ok :: "os \<Rightarrow> bool" where
  "clock_ok s \<longleftrightarrow> (\<forall>n. int64_ok (clk s n div 1000000))"

lemma newEnvelope_ok:
  assumes "newEnvelope typ sid key v s = (Inr e, t)" "clock_ok s" "json_ok v" "typ \<noteq> []"
  shows "env_ok e" "env_txn e = []" "env_type e = typ" "env_session e = sid" "env_key e = key"
    "env_payload e = Some v" "clock_ok t" "rnd t = rnd s" "clk t = clk s"
proof -
  let ?P = "env_ok e \<and> env_txn e = [] \<and> env_type e = typ \<and> env_session e = sid \<and> env_key e = key \<and>
    env_payload e = Some v \<and> clock_ok t \<and> rnd t = rnd s \<and> clk t = clk s"
  from assms(1) have ?P
  proof (cases rule: newEnvelope_cases)
    case (ok i t1 c)
    have i: "i \<noteq> []" "clk t1 = clk s" using newID_frame [OF ok(2)] by auto
    show ?thesis
      using ok assms(2-4) newID_frame [OF ok(2)] i
      by (auto simp: env_ok_def now_milli_def now_nano_def clock_ok_def)
  qed simp
  then show "env_ok e" "env_txn e = []" "env_type e = typ" "env_session e = sid" "env_key e = key"
    "env_payload e = Some v" "clock_ok t" "rnd t = rnd s" "clk t = clk s" by auto
qed

lemma env_ok_txn [simp]: "env_ok (e\<lparr>env_txn := x\<rparr>) = env_ok e"
  by (simp add: env_ok_def)

lemma upsert_events_post:
  assumes "upsert_events x sid cur ms s = (Inr evs, t)" "clock_ok s" "\<forall>m \<in> set ms. message_ok m"
    and "length cur \<le> length ms" "map msg_id cur = map msg_id (take (length cur) ms)"
    and "distinct (map msg_id (pre @ ms))" "sess_messages sess = pre @ cur"
  shows "(\<forall>e \<in> set evs. txn_event sid x e \<and> env_ok e) \<and> clock_ok t \<and>
     (\<exists>sess'. applyEvents sess evs = Inr sess' \<and> sess_messages sess' = pre @ ms)"
  using assms
proof (induction ms arbitrary: cur s evs pre sess)
  case Nil
  then show ?case by (simp add: ret_def)
next
  case (Cons m ms)
  have fresh: "msg_id m \<notin> set (map msg_id pre)" using Cons.prems(6) by auto
  have dist: "distinct (map msg_id ((pre @ [m]) @ ms))" using Cons.prems(6) by simp
  show ?case
  proof (cases "cur \<noteq> [] \<and> hd cur = m")
    case True
    then have cur: "cur = m # tl cur" by (cases cur) auto
    have "upsert_events x sid (tl cur) ms s = (Inr evs, t)" using Cons.prems(1) True by simp
    moreover have "length (tl cur) \<le> length ms" "map msg_id (tl cur) = map msg_id (take (length (tl cur)) ms)"
      using Cons.prems(4,5) cur by (cases cur; simp)+
    moreover have "sess_messages sess = (pre @ [m]) @ tl cur" using Cons.prems(7) cur by simp
    ultimately show ?thesis
      using Cons.IH [of "tl cur" s evs "pre @ [m]" sess] Cons.prems(2,3) dist by simp
  next
    case False
    have run: "seq (wrapping (''jsonl: marshal message '' @ quote (msg_id m))
               (newEnvelope ''message.upsert'' sid (msg_id m) (enc_message m))) (\<lambda>e.
        seq (upsert_events x sid (tl cur) ms) (\<lambda>es. ret (e\<lparr>env_txn := x\<rparr> # es))) s = (Inr evs, t)"
      using Cons.prems(1) False by simp
    obtain e s1 es where e: "newEnvelope ''message.upsert'' sid (msg_id m) (enc_message m) s = (Inr e, s1)"
      and es: "upsert_events x sid (tl cur) ms s1 = (Inr es, t)" and evs: "evs = e\<lparr>env_txn := x\<rparr> # es"
      using run by (auto elim!: seq_cases wrapping_cases simp: ret_def)
    have ok: "env_ok e" "env_type e = ''message.upsert''" "env_session e = sid"
        "env_payload e = Some (enc_message m)" "clock_ok s1"
      using newEnvelope_ok [OF e Cons.prems(2)] by auto
    let ?sess = "sess\<lparr>sess_messages := upsert_message m (sess_messages sess)\<rparr>"
    have a: "applySessionMessageEvent sess (e\<lparr>env_txn := x\<rparr>) = Inr ?sess"
      using apply_upsert [of "e\<lparr>env_txn := x\<rparr>" m sess] ok Cons.prems(3) by simp
    have len: "length (tl cur) \<le> length ms" "map msg_id (tl cur) = map msg_id (take (length (tl cur)) ms)"
      using Cons.prems(4,5) by (cases cur; simp)+
    have up: "sess_messages ?sess = (pre @ [m]) @ tl cur"
    proof (cases cur)
      case Nil
      then show ?thesis using Cons.prems(7) upsert_message_new [OF fresh] by simp
    next
      case (Cons c cs)
      then have "msg_id c = msg_id m" using Cons.prems(5) by simp
      then show ?thesis using Cons Cons.prems(7) upsert_message_at [OF fresh, of c cs] by simp
    qed
    show ?thesis
      using Cons.IH [OF es ok(5) _ len dist up] Cons.prems(3) a ok evs by (auto simp: txn_event_def)
  qed
qed

lemma sessionMessageChanges_post:
  assumes "sessionMessageChanges x sid (sess_messages cur) ms s = (Inr evs, t)" "clock_ok s"
    and "\<forall>m \<in> set ms. message_ok m" "incremental (sess_messages cur) ms \<Longrightarrow> distinct (map msg_id ms)"
  shows "(\<forall>e \<in> set evs. txn_event sid x e \<and> env_ok e) \<and> clock_ok t \<and>
     (\<exists>sess'. applyEvents cur evs = Inr sess' \<and> sess_messages sess' = ms)"
proof (cases "incremental (sess_messages cur) ms")
  case True
  then show ?thesis
    using upsert_events_post [of x sid "sess_messages cur" ms s evs t "[]" cur] assms
    by (simp add: sessionMessageChanges_def incremental_def)
next
  case False
  obtain e where e: "newEnvelope ''messages.replaced'' sid [] (messages_json ms) s = (Inr e, t)"
    and evs: "evs = [e\<lparr>env_txn := x\<rparr>]"
    using assms(1) False by (auto simp: sessionMessageChanges_def ret_def elim!: seq_cases wrapping_cases)
  have "json_ok (messages_json ms)" by (simp add: messages_json_def)
  note ok = newEnvelope_ok [OF e assms(2) this]
  then show ?thesis
    using apply_replaced [of "e\<lparr>env_txn := x\<rparr>" ms cur] assms(3) evs by (simp add: txn_event_def)
qed

end

