(* ===== verification/Store_Contract.thy ===== *)
theory Store_Contract
  imports Metadata
begin

text \<open>
  The promise of metadata.Store about sessions, as an interface: UpdateSession advances the
  stored session by one revision or leaves it. What a client may conclude is proved here once;
  a store earns it by interpreting \<open>session_store\<close> on its own operations.
\<close>

section \<open>One revision\<close>

text \<open>
  \<open>x\<close> is the stored session \<open>cur\<close> after an update to \<open>sess\<close>: the caller's content under the
  stored identity and creation time, the revision and the update time advanced.
\<close>

definition session_step :: "session \<Rightarrow> session \<Rightarrow> session \<Rightarrow> bool" where
  "session_step sess cur x \<longleftrightarrow>
     sess_revision sess = sess_revision cur \<and> sess_revision cur \<noteq> - 1 \<and>
     x = sess\<lparr>sess_id := sess_id cur, sess_created_at := sess_created_at cur,
              sess_revision := sess_revision cur + 1, sess_updated_at := sess_updated_at x\<rparr> \<and>
     sess_updated_at cur < sess_updated_at x"

lemma unat_next: "r \<noteq> - 1 \<Longrightarrow> unat (r + 1) = Suc (unat (r :: 64 word))"
proof -
  assume "r \<noteq> - 1"
  then have "1 + r \<noteq> 0" by (simp add: eq_neg_iff_add_eq_0 add.commute)
  then show ?thesis using unatSuc [of r] by (simp add: add.commute)
qed

lemma session_step_content:
  assumes "session_step sess cur x"
  shows "sess_messages x = sess_messages sess" "sess_state x = sess_state sess"
    "sess_open_interrupts x = sess_open_interrupts sess"
proof -
  have e: "x = sess\<lparr>sess_id := sess_id cur, sess_created_at := sess_created_at cur,
      sess_revision := sess_revision cur + 1, sess_updated_at := sess_updated_at x\<rparr>"
    using assms by (simp only: session_step_def)
  show "sess_messages x = sess_messages sess" by (subst e) simp
  show "sess_state x = sess_state sess" by (subst e) simp
  show "sess_open_interrupts x = sess_open_interrupts sess" by (subst e) simp
qed

lemma session_step_revision: "session_step sess cur x \<Longrightarrow> unat (sess_revision x) = Suc (unat (sess_revision cur))"
proof -
  assume st: "session_step sess cur x"
  then have e: "x = sess\<lparr>sess_id := sess_id cur, sess_created_at := sess_created_at cur,
      sess_revision := sess_revision cur + 1, sess_updated_at := sess_updated_at x\<rparr>"
    by (simp only: session_step_def)
  have x: "sess_revision x = sess_revision cur + 1"
    by (subst e) simp
  show ?thesis unfolding x by (rule unat_next) (use st in \<open>simp add: session_step_def\<close>)
qed

section \<open>The interface\<close>

locale session_store =
  fixes update :: "session \<Rightarrow> 's \<Rightarrow> (error + session) \<times> 's"
    and stored :: "'s \<Rightarrow> string \<Rightarrow> error + session option"
    and readable :: "'s \<Rightarrow> string \<Rightarrow> bool"
    and usable :: "'s \<Rightarrow> session \<Rightarrow> bool"
  assumes committed: "usable s sess \<Longrightarrow> update sess s = (Inr x, t) \<Longrightarrow>
      \<exists>cur. stored s (sess_id sess) = Inr (Some cur) \<and> session_step sess cur x \<and>
            stored t (sess_id sess) = Inr (Some x)"
    and refused: "readable s (sess_id sess) \<Longrightarrow> update sess s = (r, t) \<Longrightarrow>
      stored s (sess_id sess) = Inr (Some cur) \<Longrightarrow> sess_revision sess \<noteq> sess_revision cur \<Longrightarrow>
      isl r \<and> stored t (sess_id sess) = Inr (Some cur)"
    and others: "usable s sess \<Longrightarrow> update sess s = (r, t) \<Longrightarrow> sid \<noteq> sess_id sess \<Longrightarrow> stored t sid = stored s sid"
    and stays_readable: "usable s sess \<Longrightarrow> update sess s = (r, t) \<Longrightarrow> readable t (sess_id sess)"
begin

text \<open>Of two updates made from the same revision, the second is refused and the first stays.\<close>

lemma no_lost_update:
  assumes "usable s a" "update a s = (Inr x, s1)" "update b s1 = (r, s2)"
    and "sess_id b = sess_id a" "sess_revision b = sess_revision a"
  shows "isl r" "stored s2 (sess_id a) = Inr (Some x)"
proof -
  obtain cur where c: "session_step a cur x" "stored s1 (sess_id a) = Inr (Some x)"
    using committed [OF assms(1,2)] by blast
  have "unat (sess_revision x) = Suc (unat (sess_revision a))"
    using session_step_revision [OF c(1)] c(1) by (simp add: session_step_def)
  then have "sess_revision b \<noteq> sess_revision x" using assms(5) by auto
  then show "isl r" "stored s2 (sess_id a) = Inr (Some x)"
    using refused [OF _ assms(3)] stays_readable [OF assms(1,2)] c(2) assms(4) by auto
qed

text \<open>An update that succeeds after another was made from the session the other returned.\<close>

lemma latest_only:
  assumes "usable s a" "update a s = (Inr x, s1)" "usable s1 b" "update b s1 = (Inr y, s2)"
    and "sess_id b = sess_id a"
  shows "sess_revision b = sess_revision x" "session_step b x y" "stored s2 (sess_id a) = Inr (Some y)"
proof -
  have "stored s1 (sess_id a) = Inr (Some x)" using committed [OF assms(1,2)] by blast
  then have "session_step b x y \<and> stored s2 (sess_id a) = Inr (Some y)"
    using committed [OF assms(3,4)] assms(5) by auto
  then show "sess_revision b = sess_revision x" "session_step b x y" "stored s2 (sess_id a) = Inr (Some y)"
    by (auto simp: session_step_def)
qed

end

section \<open>Keys and values\<close>

text \<open>
  The scoped memory of metadata.Store, and the contents of a blob store. \<open>apart\<close> holds of two keys
  that are not the same entry of the store; \<open>ready\<close> of a store that can be read and written.
\<close>

locale kv_store =
  fixes put :: "'k \<Rightarrow> 'v \<Rightarrow> 's \<Rightarrow> (error + unit) \<times> 's"
    and del :: "'k \<Rightarrow> 's \<Rightarrow> (error + unit) \<times> 's"
    and stored :: "'s \<Rightarrow> 'k \<Rightarrow> error + 'v option"
    and ready :: "'s \<Rightarrow> bool"
    and apart :: "'k \<Rightarrow> 'k \<Rightarrow> bool"
  assumes put_ok: "ready s \<Longrightarrow> put k v s = (Inr (), t) \<Longrightarrow> ready t \<and> stored t k = Inr (Some v)"
    and put_other: "ready s \<Longrightarrow> put k v s = (Inr (), t) \<Longrightarrow> apart k k' \<Longrightarrow>
      stored t k' = stored s k'"
    and del_ok: "ready s \<Longrightarrow> del k s = (Inr (), t) \<Longrightarrow> ready t \<and> stored t k = Inr None"
    and del_other: "ready s \<Longrightarrow> del k s = (Inr (), t) \<Longrightarrow> apart k k' \<Longrightarrow>
      stored t k' = stored s k'"
begin

lemma put_put:
  assumes "ready s" "put k v s = (Inr (), s1)" "put k w s1 = (Inr (), t)"
  shows "stored t k = Inr (Some w)"
  using assms put_ok by blast

lemma put_del:
  assumes "ready s" "put k v s = (Inr (), s1)" "del k s1 = (Inr (), t)"
  shows "stored t k = Inr None"
  using assms put_ok del_ok by blast

text \<open>Two entries written one after the other are both there.\<close>

lemma put_two:
  assumes "ready s" "put k v s = (Inr (), s1)" "put k' w s1 = (Inr (), t)" "apart k' k"
  shows "stored t k = Inr (Some v)" "stored t k' = Inr (Some w)"
  using assms put_ok put_other by (metis, metis)

end

end
