(* ===== verification/Jsonl_Update.thy ===== *)
theory Jsonl_Update
  imports Jsonl_Replay Store_Contract
begin

text \<open>
  The session operations of the JSONL store: what GetSession returns as a function of the
  files (\<open>session_view\<close>), which logs each operation leaves alone, and UpdateSession as one
  atomic step from the old session to the new one under every fault script.
\<close>

section \<open>The disk as sessions\<close>

definition store_ok :: "store \<Rightarrow> bool" where
  "store_ok st \<longleftrightarrow> transcriptDir st = projectDir st \<and> storeDir st = join_path (projectDir st) ''_store'' \<and>
     locksDir st = join_path (projectDir st) ''_locks''"

definition transcript :: "store \<Rightarrow> string \<Rightarrow> string" where
  "transcript st sid = join_path (transcriptDir st) (sid @ ''.jsonl'')"

text \<open>The logs no session operation uses for its own ends: all but the index and temporary files.\<close>

definition index_path :: "store \<Rightarrow> string" where
  "index_path st = join_path (storeDir st) ''session-index.jsonl''"

definition not_index :: "store \<Rightarrow> string \<Rightarrow> bool" where
  "not_index st p \<longleftrightarrow> p \<noteq> index_path st \<and> \<not> temp_path (storeDir st) p"

definition sessions_of :: "string \<Rightarrow> envelope list \<Rightarrow> error + session option" where
  "sessions_of sid es =
     (if es = [] then Inr None
      else case replaySession sid es of
        Inl e \<Rightarrow> Inl (wrapf (''jsonl: replay session '' @ quote sid) e)
      | Inr (sess, deleted) \<Rightarrow> Inr (if deleted then None else Some sess))"

definition session_view :: "store \<Rightarrow> os \<Rightarrow> string \<Rightarrow> error + session option" where
  "session_view st s sid =
     (case view s (transcript st sid) of
        Inl e \<Rightarrow> Inl (wrapf (''jsonl: read session '' @ quote sid) e)
      | Inr es \<Rightarrow> sessions_of sid es)"

text \<open>What a process that starts after the fault script reads.\<close>

definition look :: "store \<Rightarrow> os \<Rightarrow> string \<Rightarrow> error + session option" where
  "look st s sid = fst (GetSession st sid (s\<lparr>faults := []\<rparr>))"

definition valid_id :: "store \<Rightarrow> string \<Rightarrow> bool" where
  "valid_id st sid \<longleftrightarrow> validateSessionID (unicode_table st) sid = None"

lemma valid_id_plain: "valid_id st sid \<Longrightarrow> CHR ''/'' \<notin> set sid \<and> sid \<noteq> []"
  by (auto simp: valid_id_def validateSessionID_def split: if_splits)

lemma view_files: "files t = files s \<Longrightarrow> view t p = view s p"
  by (simp add: view_def recs_def)

lemma jsonl_rel [simp]: "sid @ ''.jsonl'' \<noteq> ''..''"
  by (cases sid; cases "tl sid") auto

lemma prefix_char: "prefix (a @ [c]) s \<Longrightarrow> c \<in> set s"
  by (auto simp: prefix_def)

lemma sessionPath_eq:
  assumes "valid_id st sid"
  shows "sessionPath st sid s =
    (case sys s of (r, s1) \<Rightarrow>
       if is_ok r \<and> transcript st sid \<in> set (symlinks s1)
         then (Inl (ErrMsg (''jsonl: session path '' @ quote sid @ '' is a symlink'')), s1)
       else (Inr (transcript st sid), s1))"
proof -
  have "\<not> prefix ''../'' (sid @ ''.jsonl'')"
    using valid_id_plain [OF assms] prefix_char [of "''..''" "CHR ''/''" "sid @ ''.jsonl''"] by auto
  then show ?thesis
    using assms unfolding sessionPath_def valid_id_def transcript_def Let_def by simp
qed

lemma sessionPath_cases:
  assumes "sessionPath st sid s = (r, t)" "valid_id st sid"
  obtains (link) e where "r = Inl e" "files t = files s" "keeps D s t" "rnd_pos t = rnd_pos s"
  | (path) "r = Inr (transcript st sid)" "files t = files s" "keeps D s t" "rnd_pos t = rnd_pos s"
proof -
  obtain c s1 where c: "sys s = (c, s1)" by force
  note f = sys_frame [OF c]
  have k: "keeps D s s1" by (rule frames_keeps [OF frames_sys c])
  have "(if is_ok c \<and> transcript st sid \<in> set (symlinks s1)
         then (Inl (ErrMsg (''jsonl: session path '' @ quote sid @ '' is a symlink'')), s1)
       else (Inr (transcript st sid), s1)) = (r, t)"
    using assms(1) c unfolding sessionPath_eq [OF assms(2)] by simp
  then show ?thesis
    using f k link path by (cases "is_ok c \<and> transcript st sid \<in> set (symlinks s1)") auto
qed

lemma frames_sessionPath [frame_rules]: "frames D (sessionPath st sid)"
proof (rule framesI)
  fix s r t
  assume "sessionPath st sid s = (r, t)"
  moreover obtain c s1 where c: "sys s = (c, s1)" by force
  moreover have "keeps D s s1" by (rule frames_keeps [OF frames_sys c])
  ultimately show "keeps D s t"
    by (auto simp: sessionPath_def Let_def split: option.splits if_splits)
qed

lemma frames_if [frame_rules]: "(b \<Longrightarrow> frames D m) \<Longrightarrow> (\<not> b \<Longrightarrow> frames D n) \<Longrightarrow> frames D (if b then m else n)"
  by simp

lemma frames_option [frame_rules]:
  "frames D m \<Longrightarrow> (\<And>x. frames D (k x)) \<Longrightarrow> frames D (case y of None \<Rightarrow> m | Some x \<Rightarrow> k x)"
  by (cases y) auto

lemma frames_prod [frame_rules]: "(\<And>x y. frames D (k x y)) \<Longrightarrow> frames D (case z of (x, y) \<Rightarrow> k x y)"
  by (cases z) auto

lemma frames_getSessionLocked [frame_rules]: "frames D (getSessionLocked st sid)"
  unfolding getSessionLocked_def by (intro frame_rules)

lemma getSessionLocked_view:
  assumes "getSessionLocked st sid s = (Inr x, t)" "no_cut s" "valid_id st sid"
  shows "session_view st s sid = Inr x" "\<exists>es. ready t (transcript st sid) es \<and> sessions_of sid es = Inr x"
proof -
  let ?p = "transcript st sid"
  have "session_view st s sid = Inr x \<and> (\<exists>es. ready t ?p es \<and> sessions_of sid es = Inr x)"
    using assms(1) unfolding getSessionLocked_def
  proof (cases rule: seq_cases)
    case (ok path s1)
    from ok(1) have path: "path = ?p" and f1: "files s1 = files s" and k1: "keeps (\<lambda>_. True) s s1"
      by (auto elim!: sessionPath_cases [OF _ assms(3), where D = "\<lambda>_. True"])
    have nc: "no_cut s1" using k1 assms(2) by (rule keeps_no_cut)
    from ok(2) show ?thesis
    proof (cases rule: seq_cases)
      case (ok es s2)
      then have rd: "readEnvelopes ?p s1 = (Inr es, s2)" by (auto simp: path elim: wrapping_cases)
      have v: "view s ?p = Inr es" "ready s2 ?p es"
        using readEnvelopes_view(2) [OF rd nc] view_files [OF f1] by auto
      show ?thesis
      proof (cases "es = []")
        case True
        then show ?thesis using ok(2) v by (auto simp: ret_def session_view_def sessions_of_def)
      next
        case False
        then have run: "seq (wrapping (''jsonl: replay session '' @ quote sid) (lift_result (replaySession sid es)))
            (\<lambda>(sess, deleted). ret (if deleted then None else Some sess)) s2 = (Inr x, t)"
          using ok(2) by simp
        show ?thesis
        proof (cases "replaySession sid es")
          case (Inl e)
          then show ?thesis using run by (simp add: seq_def wrapping_def lift_result_def)
        next
          case (Inr z)
          obtain sess d where z: "z = (sess, d)" by force
          have "x = (if d then None else Some sess)" "t = s2"
            using run Inr z by (simp_all add: seq_def wrapping_def lift_result_def ret_def)
          then have "sessions_of sid es = Inr x" using False Inr z by (simp add: sessions_of_def)
          then show ?thesis using v \<open>t = s2\<close> by (auto simp: session_view_def)
        qed
      qed
    qed auto
  qed auto
  then show "session_view st s sid = Inr x" "\<exists>es. ready t (transcript st sid) es \<and> sessions_of sid es = Inr x" by auto
qed

lemma look_view:
  assumes "valid_id st sid" "transcript st sid \<notin> set (symlinks s)"
  shows "look st s sid = session_view st s sid"
proof -
  let ?q = "s\<lparr>faults := []\<rparr>" and ?p = "transcript st sid"
  obtain s1 where s1: "keeps (\<lambda>_. True) ?q s1" "faults s1 = []"
      "fst (GetSession st sid ?q) = fst (getSessionLocked st sid s1)"
    using withLock_quiet [of ?q "\<lambda>_. True" st "getSessionLocked st sid"] by (auto simp: GetSession_def)
  have v: "view s1 ?p = view s ?p"
    using keeps_view [OF s1(1), of ?p] view_files [of ?q s] by simp
  have "symlinks s1 = symlinks s" using s1(1) by (simp add: keeps_def)
  then have "sessionPath st sid s1 = (Inr ?p, s1)"
    using assms(2) s1(2) by (simp add: sessionPath_eq [OF assms(1)])
  then have "fst (getSessionLocked st sid s1) = session_view st s sid"
    using readEnvelopes_quiet [OF s1(2), of ?p] v
    by (auto simp: getSessionLocked_def seq_def wrapping_def session_view_def sessions_of_def
        lift_result_def ret_def split: prod.split sum.split option.split)
  then show ?thesis using s1(3) by (simp add: look_def)
qed

section \<open>What each operation leaves alone\<close>

lemma frames_sum [frame_rules]:
  "(\<And>x. frames D (f x)) \<Longrightarrow> (\<And>x. frames D (g x)) \<Longrightarrow> frames D (case y of Inl x \<Rightarrow> f x | Inr x \<Rightarrow> g x)"
  by (cases y) auto

lemma frames_file_size [frame_rules]: "frames D (file_size p)"
  unfolding file_size_def by (rule frames_after_sys) (simp split: option.split)

lemma frames_scan_names: "frames D (scan_names st ns)"
  by (induction ns) (auto simp: Let_def intro!: frame_rules split: option.split)

lemma frames_scanSessionsLocked [frame_rules]: "frames D (scanSessionsLocked st)"
  unfolding scanSessionsLocked_def
  by (rule frames_after_sys) (use frames_scan_names [of D st] in \<open>auto simp: frames_def\<close>)

lemma frames_index_records: "frames D (index_records xs)"
  by (induction xs) (auto intro!: frame_rules)

lemma not_index_paths: "\<not> not_index st (index_path st)" "temp_path (storeDir st) q \<Longrightarrow> \<not> not_index st q"
  by (simp_all add: not_index_def)

lemma frames_rebuild [frame_rules]: "frames (not_index st) (rebuildIndexLocked st xs)"
  unfolding rebuildIndexLocked_def
  by (intro frames_seq frames_index_records frames_rewrite)
    (use not_index_paths in \<open>auto simp: index_path_def\<close>)

lemma frames_appendIndex [frame_rules]: "frames (not_index st) (appendIndexLocked st what)"
proof -
  have "\<not> not_index st (join_path (storeDir st) ''session-index.jsonl'')"
    using not_index_paths(1) by (simp add: index_path_def)
  then show ?thesis
    unfolding appendIndexLocked_def Let_def by (intro frame_rules)
qed

text \<open>A transcript is neither the index nor a temporary file.\<close>

lemma transcript_not_index:
  assumes "store_ok st" "valid_id st sid"
  shows "not_index st (transcript st sid)"
proof -
  have plain: "CHR ''/'' \<notin> set (sid @ ''.jsonl'')" using valid_id_plain [OF assms(2)] by simp
  have "transcript st sid \<noteq> index_path st"
  proof
    assume "transcript st sid = index_path st"
    then have "transcriptDir st = storeDir st \<and> sid @ ''.jsonl'' = ''session-index.jsonl''"
      unfolding transcript_def index_path_def by (rule join_path_plain) (use plain in auto)
    then have "projectDir st = join_path (projectDir st) ''_store''"
      using assms(1) by (metis store_ok_def)
    then show False by (simp add: join_path_def)
  qed
  moreover have "\<not> temp_path (storeDir st) (transcript st sid)"
  proof
    assume "temp_path (storeDir st) (transcript st sid)"
    then have "prefix (''_store/.jsonl-rewrite-'') (sid @ ''.jsonl'')"
      using assms(1) by (simp add: temp_path_def transcript_def store_ok_def join_path_def)
    moreover have "CHR ''/'' \<in> set ''_store/.jsonl-rewrite-''" by simp
    ultimately show False using plain set_mono_prefix by blast
  qed
  ultimately show ?thesis by (simp add: not_index_def)
qed

lemma transcript_inj:
  "valid_id st a \<Longrightarrow> valid_id st b \<Longrightarrow> transcript st a = transcript st b \<longleftrightarrow> a = b"
  by (simp add: transcript_def)

lemma view_session: "view t (transcript st sid) = view s (transcript st sid) \<Longrightarrow> session_view st t sid = session_view st s sid"
  by (simp add: session_view_def)

section \<open>Transactions on disk\<close>

lemma sessions_of_live:
  assumes "sessions_of sid es = Inr (Some cur)"
  obtains rp where "replay_all sid replay_init es = Inr rp" "session_live sid rp" "rp_sess rp = cur" "times_ok cur" "sess_id cur = sid"
proof -
  have "es \<noteq> []" "replaySession sid es = Inr (cur, False)"
    using assms by (auto simp: sessions_of_def split: if_splits sum.splits)
  then obtain rp where rp: "replay_all sid replay_init es = Inr rp" "replay_result sid rp = Inr (cur, False)"
    by (auto simp: replaySession_result split: sum.splits)
  from replay_live [OF rp] rp(1) show ?thesis using that by (auto simp: session_live_def)
qed

lemma open_txn_hidden:
  assumes "sessions_of sid es = Inr (Some cur)" "\<forall>e \<in> set evs. txn_event sid x e" "x \<noteq> []"
    and "x \<notin> env_txn ` set es"
  shows "sessions_of sid (es @ evs) = Inr (Some cur)"
proof -
  obtain rp where rp: "replay_all sid replay_init es = Inr rp" "session_live sid rp" "rp_sess rp = cur"
    using assms(1) by (rule sessions_of_live)
  have fr: "txn_free x rp" by (rule replay_all_free [OF rp(1) txn_free_init assms(4)])
  let ?rp = "rp\<lparr>rp_pending := (rp_pending rp)(x := rp_pending rp x @ evs)\<rparr>"
  have "replay_all sid replay_init (es @ evs) = Inr ?rp"
    using replay_txn_events [OF assms(2,3) rp(2)] fr rp(1) by (simp add: replay_all_append txn_free_def)
  moreover have "replay_result sid ?rp = Inr (cur, False)"
    using live_result [of sid ?rp] rp(2,3) by (simp add: session_live_def)
  moreover have "es \<noteq> []" using assms(1) by (auto simp: sessions_of_def)
  ultimately show ?thesis by (simp add: sessions_of_def replaySession_result)
qed

lemma commit_shown:
  assumes "sessions_of sid es = Inr (Some cur)" "\<forall>e \<in> set evs. txn_event sid x e" "x \<noteq> []"
    and "x \<notin> env_txn ` set es" "commit_event sid x nxt e" "session_ok nxt" "sess_id nxt = sid" "sid \<noteq> []"
    and "applyEvents cur evs = Inr sess'" "sess_messages sess' = sess_messages nxt"
  shows "sessions_of sid (es @ evs @ [e]) = Inr (Some nxt)"
proof -
  obtain rp where rp: "replay_all sid replay_init es = Inr rp" "session_live sid rp" "rp_sess rp = cur"
    using assms(1) by (rule sessions_of_live)
  have fr: "txn_free x rp" by (rule replay_all_free [OF rp(1) txn_free_init assms(4)])
  obtain rp' where "replay_all sid rp (evs @ [e]) = Inr rp'" "session_live sid rp'" "rp_sess rp' = nxt"
    using replay_commit [OF rp(2) fr assms(3,2,5-8)] assms(9,10) rp(3) by blast
  then have "replay_all sid replay_init (es @ evs @ [e]) = Inr rp'" "replay_result sid rp' = Inr (nxt, False)"
    using rp(1) live_result [of sid rp'] by (simp_all add: replay_all_append [of sid _ es])
  then show ?thesis by (simp add: sessions_of_def replaySession_result)
qed

lemma append_events_post:
  assumes "append_events p evs s = (r, t)" "ready s p es" "\<forall>e \<in> set evs. env_ok e"
  shows "(\<exists>k. view t p = Inr (es @ take k evs)) \<or> (\<exists>m. view t p = Inl m)"
    and "r = Inr () \<Longrightarrow> ready t p (es @ evs)"
proof -
  have "((\<exists>k. view t p = Inr (es @ take k evs)) \<or> (\<exists>m. view t p = Inl m)) \<and> (r = Inr () \<longrightarrow> ready t p (es @ evs))"
    using assms
  proof (induction evs arbitrary: s es)
    case Nil
    then show ?case by (simp add: ret_def ready_view)
  next
    case (Cons e evs)
    from Cons.prems(1) have "seq (wrapping ''jsonl: append session transaction'' (appendEnvelope p e))
        (\<lambda>_. append_events p evs) s = (r, t)" by simp
    then show ?case
    proof (cases rule: seq_cases)
      case (err x)
      then obtain y where "appendEnvelope p e s = (Inl y, t)" by (auto elim: wrapping_cases)
      then have "appended t p es e" by (rule appendEnvelope_post(1)) (use Cons.prems in auto)
      then show ?thesis using appended_view [of t p es e] err
        by (auto intro: exI [of _ 0] exI [of _ "1::nat"])
    next
      case (ok u s1)
      then have a: "appendEnvelope p e s = (Inr (), s1)" by (auto elim: wrapping_cases)
      have "ready s1 p (es @ [e])" by (rule appendEnvelope_post(2) [OF a]) (use Cons.prems in auto)
      from Cons.IH [OF ok(2) this] Cons.prems(3) show ?thesis
        by (auto intro: exI [of _ "Suc k" for k])
    qed
  qed
  then show "(\<exists>k. view t p = Inr (es @ take k evs)) \<or> (\<exists>m. view t p = Inl m)"
    "r = Inr () \<Longrightarrow> ready t p (es @ evs)" by auto
qed

section \<open>Committing\<close>

text \<open>No record of the transcript carries a transaction id the machine can still draw.\<close>

definition fresh_txn :: "store \<Rightarrow> os \<Rightarrow> string \<Rightarrow> bool" where
  "fresh_txn st s sid \<longleftrightarrow>
     (\<forall>es k c. view s (transcript st sid) = Inr es \<longrightarrow> rnd_pos s \<le> k \<longrightarrow>
        fst (newID ''txn-'' (s\<lparr>rnd_pos := k, clk_pos := c\<rparr>)) \<notin> env_txn ` set es)"

lemma newID_at: "rnd t = rnd s \<Longrightarrow> clk t = clk s \<Longrightarrow>
    fst (newID pre t) = fst (newID pre (s\<lparr>rnd_pos := rnd_pos t, clk_pos := clk_pos t\<rparr>))"
  by (simp add: newID_def now_nano_def Let_def split: option.split)

lemma fresh_txn_at:
  assumes "fresh_txn st s sid" "keeps D s t" "view s (transcript st sid) = Inr es"
  shows "fst (newID ''txn-'' t) \<notin> env_txn ` set es"
  using assms newID_at [of t s "''txn-''"] by (auto simp: fresh_txn_def keeps_def)

lemma newEnvelope_files: "newEnvelope typ sid key v s = (r, t) \<Longrightarrow> files t = files s"
  by (erule newEnvelope_cases) (auto simp: now_milli_def now_nano_def dest: newID_frame)

lemma upsert_events_files: "upsert_events x sid cur ms s = (r, t) \<Longrightarrow> files t = files s"
proof (induction ms arbitrary: cur s r)
  case (Cons m ms)
  show ?case
  proof (cases "cur \<noteq> [] \<and> hd cur = m")
    case True
    then show ?thesis using Cons by simp
  next
    case False
    then have "seq (wrapping (''jsonl: marshal message '' @ quote (msg_id m))
               (newEnvelope ''message.upsert'' sid (msg_id m) (enc_message m))) (\<lambda>e.
        seq (upsert_events x sid (tl cur) ms) (\<lambda>es. ret (e\<lparr>env_txn := x\<rparr> # es))) s = (r, t)"
      using Cons.prems unfolding upsert_events.simps if_not_P [OF False] by blast
    then show ?thesis
      by (auto elim!: seq_cases wrapping_cases dest!: newEnvelope_files Cons.IH simp: ret_def)
  qed
qed (simp add: ret_def)

lemma sessionMessageChanges_files: "sessionMessageChanges x sid cur ms s = (r, t) \<Longrightarrow> files t = files s"
  by (auto simp: sessionMessageChanges_def ret_def split: if_splits elim!: seq_cases wrapping_cases
      dest!: newEnvelope_files upsert_events_files)

lemma ready_files: "ready s p es \<Longrightarrow> files t = files s \<Longrightarrow> ready t p es"
  by (simp add: ready_def recs_def)

lemma frames_upsert_events: "frames D (upsert_events x sid cur ms)"
  by (induction ms arbitrary: cur) (auto intro!: frame_rules)

lemma frames_sessionMessageChanges [frame_rules]: "frames D (sessionMessageChanges x sid cur ms)"
  unfolding sessionMessageChanges_def by (intro frame_rules frames_upsert_events)

lemma frames_append_events: "\<not> D p \<Longrightarrow> frames D (append_events p evs)"
  by (induction evs) (auto intro!: frame_rules)

text \<open>A session of the store with the content \<open>x\<close> has, or the store lost the transcript to a torn line.\<close>

definition settled :: "store \<Rightarrow> os \<Rightarrow> string \<Rightarrow> session \<Rightarrow> session \<Rightarrow> bool" where
  "settled st t sid old new \<longleftrightarrow>
     session_view st t sid = Inr (Some old) \<or> session_view st t sid = Inr (Some new) \<or>
     (\<exists>m. session_view st t sid = Inl m)"

lemma keeps_settled:
  assumes "keeps (not_index st) s t" "no_cut s" "store_ok st" "valid_id st sid"
  shows "session_view st t sid = session_view st s sid"
  using keeps_view [OF assms(1,2) transcript_not_index [OF assms(3,4)]] by (rule view_session)

lemma commit_session_post:
  assumes run: "commit_session st sid cur nxt s = (r, t)" and nc: "no_cut s"
    and rd: "ready s (transcript st sid) es" and cur: "sessions_of sid es = Inr (Some cur)"
    and okay: "store_ok st" "valid_id st sid" "clock_ok s" "session_ok nxt" "sess_id nxt = sid"
      "distinct (map msg_id (sess_messages nxt))"
    and fresh: "\<And>u. keeps (not_index st) s u \<Longrightarrow> fst (newID ''txn-'' u) \<notin> env_txn ` set es"
  shows "settled st t sid cur nxt" "r = Inr x \<Longrightarrow> x = nxt \<and> session_view st t sid = Inr (Some nxt)"
proof -
  let ?p = "transcript st sid"
  let ?G = "settled st t sid cur nxt \<and> (\<forall>x. r = Inr x \<longrightarrow> x = nxt \<and> session_view st t sid = Inr (Some nxt))"
  have sid: "sid \<noteq> []" using valid_id_plain [OF okay(2)] by blast
  have old: "session_view st u sid = Inr (Some cur)" if "ready u ?p es" for u
    using that cur by (simp add: session_view_def ready_view)
  from run have ?G
    unfolding commit_session_def
  proof (cases rule: seq_cases)
    case (err e)
    from err(1) have "files t = files s"
      by (rule sessionPath_cases [OF _ okay(2), where D = "\<lambda>_. True"]) simp_all
    then have "ready t ?p es" using rd by (simp add: ready_def recs_def)
    then show ?thesis using old err by (simp add: settled_def)
  next
    case (ok path s0)
    note run1 = ok(2)
    from ok(1) have path: "path = ?p" and f0: "files s0 = files s" and k0: "keeps (not_index st) s s0"
      by (auto elim!: sessionPath_cases [OF _ okay(2), where D = "not_index st"])
    obtain x s1 where x: "newID ''txn-'' s0 = (x, s1)" by force
    have xf: "x \<notin> env_txn ` set es" using fresh [OF k0] x by simp
    have xn: "x \<noteq> []" using newID_frame [OF x] by auto
    have k1: "keeps (not_index st) s s1" using keeps_trans [OF k0 keeps_newID [OF x]] .
    have f1: "files s1 = files s" using f0 newID_frame [OF x] by simp
    have c1: "clock_ok s1" using okay(3) k1 by (simp add: clock_ok_def keeps_def)
    have r1: "ready s1 ?p es" by (rule ready_files [OF rd f1])
    have run2: "seq (sessionMessageChanges x sid (sess_messages cur) (sess_messages nxt)) (\<lambda>events.
       seq (wrapping ''jsonl: marshal session update'' (newEnvelope ''session.updated'' sid [] (meta_json nxt))) (\<lambda>e.
       seq (append_events ?p events) (\<lambda>_.
       seq (wrapping ''jsonl: update session'' (appendEnvelope ?p (e\<lparr>env_txn := x\<rparr>))) (\<lambda>_.
       seq (ignoring (appendIndexLocked st (Inr nxt))) (\<lambda>_.
       ret nxt))))) s1 = (r, t)"
      using run1 x path by simp
    then show ?thesis
    proof (cases rule: seq_cases)
      case (err e)
      then show ?thesis
        using old [OF ready_files [OF r1 sessionMessageChanges_files [OF err(1)]]] by (simp add: settled_def)
    next
      case (ok evs s2)
      have ms: "\<forall>m \<in> set (sess_messages nxt). message_ok m" using okay(4) by (simp add: session_ok_def)
      obtain sess' where evs: "\<forall>e \<in> set evs. txn_event sid x e \<and> env_ok e" "clock_ok s2"
          "applyEvents cur evs = Inr sess'" "sess_messages sess' = sess_messages nxt"
        using sessionMessageChanges_post [OF ok(1) c1 ms] okay(6) by blast
      note r2 = ready_files [OF r1 sessionMessageChanges_files [OF ok(1)]]
      have k2: "keeps (not_index st) s s2"
        by (rule keeps_trans [OF k1 frames_keeps [OF frames_sessionMessageChanges ok(1)]])
      from ok(2) show ?thesis
      proof (cases rule: seq_cases)
        case (err e)
        then obtain y where "newEnvelope ''session.updated'' sid [] (meta_json nxt) s2 = (Inl y, t)"
          by (auto elim: wrapping_cases)
        then show ?thesis
          using old [OF ready_files [OF r2 newEnvelope_files]] err by (simp add: settled_def)
      next
        case (ok e s3)
        then have ne: "newEnvelope ''session.updated'' sid [] (meta_json nxt) s2 = (Inr e, s3)"
          by (auto elim: wrapping_cases)
        note e = newEnvelope_ok [OF ne evs(2) json_ok_meta [OF okay(4)], simplified]
        have ce: "commit_event sid x nxt (e\<lparr>env_txn := x\<rparr>)" using e by (simp add: commit_event_def)
        note r3 = ready_files [OF r2 newEnvelope_files [OF ne]]
        have k3: "keeps (not_index st) s s3"
          by (rule keeps_trans [OF k2 frames_keeps [OF frames_newEnvelope ne]])
        have evs_txn: "\<forall>e \<in> set evs. txn_event sid x e" using evs(1) by blast
        have hid: "sessions_of sid (es @ take k evs) = Inr (Some cur)" for k
          by (rule open_txn_hidden [OF cur _ xn xf]) (use evs_txn in \<open>auto dest: in_set_takeD\<close>)
        have shown: "sessions_of sid (es @ evs @ [e\<lparr>env_txn := x\<rparr>]) = Inr (Some nxt)"
          by (rule commit_shown [OF cur evs_txn xn xf ce okay(4,5) sid evs(3,4)])
        from ok(2) show ?thesis
        proof (cases rule: seq_cases)
          case (err y)
          have "(\<exists>k. view t ?p = Inr (es @ take k evs)) \<or> (\<exists>m. view t ?p = Inl m)"
            by (rule append_events_post(1) [OF err(1) r3]) (use evs(1) in blast)
          then show ?thesis using hid err by (auto simp: settled_def session_view_def)
        next
          case (ok u s4)
          have r4: "ready s4 ?p (es @ evs)"
            by (rule append_events_post(2) [OF ok(1) r3]) (use evs(1) in auto)
          have k4: "no_cut s4"
            using frames_keeps [OF frames_append_events [of "\<lambda>_. False"] ok(1)] k3 nc
            by (auto simp: keeps_def intro: no_cut_suffix)
          from ok(2) show ?thesis
          proof (cases rule: seq_cases)
            case (err y)
            then obtain z where "appendEnvelope ?p (e\<lparr>env_txn := x\<rparr>) s4 = (Inl z, t)"
              by (auto elim: wrapping_cases)
            then have "appended t ?p (es @ evs) (e\<lparr>env_txn := x\<rparr>)"
              by (rule appendEnvelope_post(1) [OF _ r4]) (use e in simp)
            then have "view t ?p = Inr (es @ evs) \<or> view t ?p = Inr (es @ evs @ [e\<lparr>env_txn := x\<rparr>]) \<or>
                (\<exists>m. view t ?p = Inl m)"
              using appended_view [of t ?p "es @ evs"] by simp
            then have "settled st t sid cur nxt"
              using hid [of "length evs"] shown by (elim disjE exE) (simp_all add: settled_def session_view_def)
            then show ?thesis using err by simp
          next
            case (ok u s5)
            then have ap: "appendEnvelope ?p (e\<lparr>env_txn := x\<rparr>) s4 = (Inr (), s5)"
              by (auto elim: wrapping_cases)
            have "ready s5 ?p ((es @ evs) @ [e\<lparr>env_txn := x\<rparr>])"
              by (rule appendEnvelope_post(2) [OF ap r4]) (use e in simp_all)
            then have s5: "session_view st s5 sid = Inr (Some nxt)"
              using shown by (simp add: session_view_def ready_view)
            have k5: "no_cut s5"
              using frames_keeps [OF frames_append [of "\<lambda>_. False"] ap] k4 by (auto simp: keeps_def intro: no_cut_suffix)
            have "keeps (not_index st) s5 (snd (appendIndexLocked st (Inr nxt) s5))"
              using frames_appendIndex by (simp add: frames_def)
            moreover have "r = Inr nxt" "t = snd (appendIndexLocked st (Inr nxt) s5)"
              using ok(2) by (simp_all add: seq_def ignoring_def ret_def)
            ultimately show ?thesis
              using keeps_settled [OF _ k5 okay(1,2)] s5 by (simp add: settled_def)
          qed
        qed
      qed
    qed
  qed
  then show "settled st t sid cur nxt" "r = Inr x \<Longrightarrow> x = nxt \<and> session_view st t sid = Inr (Some nxt)" by auto
qed

section \<open>UpdateSession\<close>

lemma cloneSession_id: "session_ok s \<Longrightarrow> cloneSession s = s"
  using json_Unmarshal_render [OF json_ok_enc_session [of s]]
  by (simp add: cloneSession_def json_Marshal_ok json_ok_enc_session unmarshal_def dec_session_enc)

lemma next_session_step:
  assumes "next_session sess cur now = Inr x" "session_ok sess" "times_ok cur" "int64_ok now"
    and "sess_revision sess = sess_revision cur" "sess_revision cur \<noteq> - 1"
  shows "session_step sess cur x" "session_ok x" "sess_id x = sess_id cur" "sess_messages x = sess_messages sess"
proof -
  have "session_step sess cur x \<and> session_ok x \<and> sess_id x = sess_id cur \<and> sess_messages x = sess_messages sess"
    using assms
    by (auto simp: next_session_def cloneSession_id session_step_def session_ok_def times_ok_def
        int64_ok_def max_int64_def Let_def split: if_splits)
  then show "session_step sess cur x" "session_ok x" "sess_id x = sess_id cur" "sess_messages x = sess_messages sess"
    by auto
qed

lemma newEnvelope_frame_any: "newEnvelope typ sid key v s = (r, t) \<Longrightarrow> keeps D s t"
  by (rule frames_keeps [OF frames_newEnvelope])

lemma now_milli_keeps: "now_milli s = (n, t) \<Longrightarrow> keeps D s t \<and> files t = files s"
  by (auto simp: now_milli_def now_nano_def intro: keeps_same_files)

definition update_input_ok :: "store \<Rightarrow> os \<Rightarrow> session \<Rightarrow> bool" where
  "update_input_ok st s sess \<longleftrightarrow> store_ok st \<and> no_cut s \<and> clock_ok s \<and> session_ok sess \<and>
     distinct (map msg_id (sess_messages sess)) \<and> fresh_txn st s (sess_id sess)"

lemma update_locked_post:
  assumes run: "update_locked st sess s = (r, t)" and inp: "update_input_ok st s sess" "valid_id st (sess_id sess)"
  shows "(\<exists>cur x. session_view st s (sess_id sess) = Inr (Some cur) \<and> session_step sess cur x \<and>
            settled st t (sess_id sess) cur x \<and>
            (\<forall>y. r = Inr y \<longrightarrow> y = x \<and> session_view st t (sess_id sess) = Inr (Some x)))
       \<or> (session_view st t (sess_id sess) = session_view st s (sess_id sess) \<and> isl r)"
proof -
  let ?id = "sess_id sess" and ?p = "transcript st (sess_id sess)"
  let ?same = "session_view st t ?id = session_view st s ?id \<and> isl r"
  have oks: "store_ok st" "no_cut s" "clock_ok s" "session_ok sess" "distinct (map msg_id (sess_messages sess))"
    "fresh_txn st s ?id" using inp(1) by (simp_all add: update_input_ok_def)
  have kept: "session_view st u ?id = session_view st s ?id" if "keeps (not_index st) s u" for u
    by (rule keeps_settled [OF that oks(2,1) inp(2)])
  from run show ?thesis
    unfolding update_locked_def
  proof (cases rule: seq_cases)
    case (err e)
    then show ?thesis using kept [OF frames_keeps [OF frames_getSessionLocked err(1)]] by simp
  next
    case (ok cur s1)
    note k1 = frames_keeps [OF frames_getSessionLocked ok(1), of "not_index st"]
    note v = getSessionLocked_view [OF ok(1) oks(2) inp(2)]
    show ?thesis
    proof (cases cur)
      case None
      then show ?thesis using ok(2) kept [OF k1] by (auto simp: raise_def)
    next
      case (Some c)
      obtain es where es: "ready s1 ?p es" "sessions_of ?id es = Inr (Some c)" using v(2) Some by auto
      obtain rp where c: "times_ok c" "sess_id c = ?id" using es(2) by (rule sessions_of_live)
      show ?thesis
      proof (cases "sess_revision sess \<noteq> sess_revision c \<or> sess_revision c = - 1")
        case True
        then show ?thesis using ok(2) kept [OF k1] Some by (auto simp: raise_def split: if_splits)
      next
        case False
        obtain now s2 where now: "now_milli s1 = (now, s2)" by force
        have k2: "keeps (not_index st) s s2" and f2: "files s2 = files s1"
          using keeps_trans [OF k1] now_milli_keeps [OF now] by auto
        have nowok: "int64_ok now"
          using now oks(3) k1 by (auto simp: now_milli_def now_nano_def clock_ok_def keeps_def)
        have run2: "seq (lift_result (next_session sess c now)) (commit_session st ?id c) s2 = (r, t)"
          using ok(2) Some False now by simp
        show ?thesis
        proof (cases "next_session sess c now")
          case (Inl e)
          then have "r = Inl e" "t = s2" using run2 by (simp_all add: seq_def lift_result_def)
          then show ?thesis using kept [OF k2] by simp
        next
          case (Inr x)
          note st' = next_session_step [OF Inr oks(4) c(1) nowok]
          have stp: "session_step sess c x" "session_ok x" "sess_id x = ?id" "sess_messages x = sess_messages sess"
            using st' False c(2) by auto
          have cs: "commit_session st ?id c x s2 = (r, t)"
            using run2 Inr by (simp add: seq_def lift_result_def)
          have rd: "ready s2 ?p es" by (rule ready_files [OF es(1) f2])
          have nc: "no_cut s2" by (rule keeps_no_cut [OF k2 oks(2)])
          have ck: "clock_ok s2" using oks(3) k2 by (simp add: clock_ok_def keeps_def)
          have vs: "view s ?p = Inr es"
            using keeps_view [OF k1 oks(2) transcript_not_index [OF oks(1) inp(2)]] ready_view [OF es(1)] by simp
          have fr: "fst (newID ''txn-'' u) \<notin> env_txn ` set es" if "keeps (not_index st) s2 u" for u
            by (rule fresh_txn_at [OF oks(6) keeps_trans [OF k2 that] vs])
          have ds: "distinct (map msg_id (sess_messages x))" using stp(4) oks(5) by simp
          note post = commit_session_post [OF cs nc rd es(2) oks(1) inp(2) ck stp(2,3) ds fr]
          have "session_view st s ?id = Inr (Some c)" using v(1) Some by simp
          moreover have "\<forall>y. r = Inr y \<longrightarrow> y = x \<and> session_view st t ?id = Inr (Some x)"
            using post(2) by blast
          ultimately show ?thesis using post(1) stp(1) by blast
        qed
      qed
    qed
  qed
qed

text \<open>The lock around it and the id check in front of it change no session.\<close>

lemma UpdateSession_post:
  assumes run: "UpdateSession st sess s = (r, t)" and ok: "update_input_ok st s sess" "valid_id st (sess_id sess)"
  shows "(\<exists>cur x. session_view st s (sess_id sess) = Inr (Some cur) \<and> session_step sess cur x \<and>
            settled st t (sess_id sess) cur x \<and>
            (\<forall>y. r = Inr y \<longrightarrow> y = x \<and> session_view st t (sess_id sess) = Inr (Some x)))
       \<or> (session_view st t (sess_id sess) = session_view st s (sess_id sess) \<and> isl r)"
proof -
  let ?id = "sess_id sess"
  have oks: "store_ok st" "no_cut s" "clock_ok s" using ok(1) by (simp_all add: update_input_ok_def)
  have "withLock st (update_locked st sess) s = (r, t)"
    using run ok(2) by (simp add: UpdateSession_def valid_id_def)
  then show ?thesis
  proof (cases rule: withLock_cases [where D = "\<lambda>p. p = transcript st ?id"])
    case (refused e)
    then show ?thesis using view_session [OF keeps_view [OF refused(2) oks(2) refl]] by simp
  next
    case (held s1 s2)
    have v1: "view s1 (transcript st ?id) = view s (transcript st ?id)"
      using keeps_view [OF held(1) oks(2)] by simp
    have sv1: "session_view st s1 ?id = session_view st s ?id" by (rule view_session [OF v1])
    have sv2: "session_view st t ?id = session_view st s2 ?id"
      by (rule view_session, rule view_at) (simp add: held(5))
    have nc: "no_cut s1" by (rule keeps_no_cut [OF held(1) oks(2)])
    have same: "rnd s1 = rnd s" "clk s1 = clk s" using held(1) by (simp_all add: keeps_def)
    have "fst (newID ''txn-'' (s1\<lparr>rnd_pos := k, clk_pos := c\<rparr>)) \<notin> env_txn ` set es"
      if "view s (transcript st ?id) = Inr es" "rnd_pos s \<le> k" for es k c
    proof -
      have "fst (newID ''txn-'' (s1\<lparr>rnd_pos := k, clk_pos := c\<rparr>)) = fst (newID ''txn-'' (s\<lparr>rnd_pos := k, clk_pos := c\<rparr>))"
        by (simp add: newID_def now_nano_def Let_def same split: option.split)
      then show ?thesis using ok(1) that by (simp add: update_input_ok_def fresh_txn_def)
    qed
    then have "fresh_txn st s1 ?id" using v1 held(2) by (simp add: fresh_txn_def)
    then have "update_input_ok st s1 sess"
      using ok(1) nc held(1) by (simp add: update_input_ok_def clock_ok_def keeps_def)
    from update_locked_post [OF held(3) this ok(2)] show ?thesis
      unfolding settled_def sv1 sv2 .
  qed
qed

end
