(* ===== verification/Jsonl_Contract.thy ===== *)
theory Jsonl_Contract
  imports Jsonl_Update
begin

text \<open>
  What the JSONL store promises about sessions: UpdateSession is atomic under every fault script
  without a read that breaks off partway (\<open>no_cut\<close>), refuses stale revisions without a write, succeeds
  when nothing fails, and touches no other session. The store is an instance of \<open>session_store\<close>, so no
  update is lost.
\<close>

section \<open>Reading after the faults\<close>

definition readable :: "store \<Rightarrow> os \<Rightarrow> string \<Rightarrow> bool" where
  "readable st s sid \<longleftrightarrow> store_ok st \<and> no_cut s \<and> valid_id st sid \<and> transcript st sid \<notin> set (symlinks s)"

definition usable :: "store \<Rightarrow> os \<Rightarrow> session \<Rightarrow> bool" where
  "usable st s sess \<longleftrightarrow> update_input_ok st s sess \<and> readable st s (sess_id sess)"

lemma look_eq:
  "look st s sid =
     (case validateSessionID (unicode_table st) sid of
        Some e \<Rightarrow> Inl e
      | None \<Rightarrow>
          if transcript st sid \<in> set (symlinks s)
            then Inl (ErrMsg (''jsonl: session path '' @ quote sid @ '' is a symlink''))
          else session_view st s sid)"
proof (cases "validateSessionID (unicode_table st) sid")
  case None
  then have v: "valid_id st sid" by (simp add: valid_id_def)
  show ?thesis
  proof (cases "transcript st sid \<in> set (symlinks s)")
    case True
    let ?q = "s\<lparr>faults := []\<rparr>"
    obtain s1 where s1: "keeps (\<lambda>_. True) ?q s1" "faults s1 = []"
        "fst (GetSession st sid ?q) = fst (getSessionLocked st sid s1)"
      using withLock_quiet [of ?q "\<lambda>_. True" st "getSessionLocked st sid"] by (auto simp: GetSession_def)
    have "transcript st sid \<in> set (symlinks s1)" using s1(1) True by (simp add: keeps_def)
    then have "sessionPath st sid s1 =
        (Inl (ErrMsg (''jsonl: session path '' @ quote sid @ '' is a symlink'')), s1)"
      using s1(2) by (simp add: sessionPath_eq [OF v])
    then have "fst (getSessionLocked st sid s1) = Inl (ErrMsg (''jsonl: session path '' @ quote sid @ '' is a symlink''))"
      by (simp only: getSessionLocked_def seq_err fst_conv)
    then show ?thesis using s1(3) True None by (simp add: look_def)
  qed (use look_view [OF v] None in simp)
next
  case (Some e)
  let ?q = "s\<lparr>faults := []\<rparr>"
  obtain s1 where s1: "fst (GetSession st sid ?q) = fst (getSessionLocked st sid s1)"
    using withLock_quiet [of ?q "\<lambda>_. True" st "getSessionLocked st sid"] by (auto simp: GetSession_def)
  have "sessionPath st sid s1 = (Inl e, s1)" using Some by (simp add: sessionPath_def)
  then have "fst (getSessionLocked st sid s1) = Inl e"
    by (simp only: getSessionLocked_def seq_err fst_conv)
  then show ?thesis using s1 Some by (simp add: look_def)
qed

lemma look_readable:
  assumes "readable st s sid" "symlinks t = symlinks s"
  shows "look st t sid = session_view st t sid"
  using assms by (intro look_view) (auto simp: readable_def)

lemma usable_readable: "usable st s sess \<Longrightarrow> readable st s (sess_id sess)"
  by (simp add: usable_def)

lemma look_keeps:
  assumes "keeps D s t" "no_cut s" "valid_id st sid \<Longrightarrow> D (transcript st sid)"
  shows "look st t sid = look st s sid"
proof (cases "validateSessionID (unicode_table st) sid")
  case None
  then have "view t (transcript st sid) = view s (transcript st sid)"
    using keeps_view [OF assms(1,2)] assms(3) by (simp add: valid_id_def)
  then have "session_view st t sid = session_view st s sid" by (rule view_session)
  then show ?thesis using assms(1) None by (simp add: look_eq keeps_def)
qed (simp add: look_eq)

section \<open>Other sessions\<close>

lemma frames_mono: "frames D m \<Longrightarrow> (\<And>p. D' p \<Longrightarrow> D p) \<Longrightarrow> frames D' m"
  by (simp add: frames_def keeps_def)

lemma frames_newID: "(\<And>x. frames D (k x)) \<Longrightarrow> frames D (\<lambda>s. case newID pre s of (x, s1) \<Rightarrow> k x s1)"
  by (rule framesI) (auto split: prod.splits intro: keeps_trans keeps_newID frames_keeps)

lemma frames_now: "(\<And>x. frames D (k x)) \<Longrightarrow> frames D (\<lambda>s. case now_milli s of (x, s1) \<Rightarrow> k x s1)"
  by (rule framesI) (auto split: prod.splits dest!: now_milli_keeps [where D = D] intro: keeps_trans frames_keeps)

lemma frames_at_path:
  assumes "valid_id st sid" "frames D (k (transcript st sid))"
  shows "frames D (seq (sessionPath st sid) k)"
proof (rule framesI)
  fix s r t
  assume "seq (sessionPath st sid) k s = (r, t)"
  then show "keeps D s t"
  proof (cases rule: seq_cases)
    case (err e)
    then show ?thesis using frames_keeps [OF frames_sessionPath] by blast
  next
    case (ok p s1)
    from ok(1) have "p = transcript st sid" "keeps D s s1"
      by (auto elim!: sessionPath_cases [OF _ assms(1), where D = D])
    then show ?thesis using ok(2) frames_keeps [OF assms(2)] by (blast intro: keeps_trans)
  qed
qed

definition others_than :: "store \<Rightarrow> string \<Rightarrow> string \<Rightarrow> bool" where
  "others_than st sid p \<longleftrightarrow> not_index st p \<and> p \<noteq> transcript st sid"

lemma frames_appendIndex_others: "frames (others_than st sid) (appendIndexLocked st what)"
  by (rule frames_mono [OF frames_appendIndex]) (simp add: others_than_def)

lemma frames_commit_session:
  assumes "valid_id st sid"
  shows "frames (others_than st sid) (commit_session st sid cur nxt)"
  unfolding commit_session_def
  by (rule frames_at_path [OF assms])
    (intro frame_rules frames_newID frames_append_events frames_appendIndex_others; simp add: others_than_def)

lemma frames_UpdateSession:
  assumes "valid_id st (sess_id sess)"
  shows "frames (others_than st (sess_id sess)) (UpdateSession st sess)"
  using assms unfolding UpdateSession_def valid_id_def
  by (simp, unfold update_locked_def)
    (intro frame_rules frames_now frames_commit_session, simp add: valid_id_def)

lemma transcript_others:
  "store_ok st \<Longrightarrow> valid_id st sid \<Longrightarrow> valid_id st other \<Longrightarrow> other \<noteq> sid \<Longrightarrow> others_than st sid (transcript st other)"
  using transcript_not_index transcript_inj by (simp add: others_than_def)

lemma UpdateSession_others:
  assumes "UpdateSession st sess s = (r, t)" "usable st s sess" "sid \<noteq> sess_id sess"
  shows "look st t sid = look st s sid"
proof (rule look_keeps)
  show "keeps (others_than st (sess_id sess)) s t"
    using frames_UpdateSession assms(1,2) by (auto simp: usable_def readable_def intro: frames_keeps)
  show "no_cut s" using assms(2) by (simp add: usable_def readable_def)
  show "others_than st (sess_id sess) (transcript st sid)" if "valid_id st sid"
    using transcript_others that assms(2,3) by (auto simp: usable_def readable_def)
qed

section \<open>The store is a session store\<close>

lemma UpdateSession_readable:
  assumes "UpdateSession st sess s = (r, t)" "readable st s (sess_id sess)"
  shows "symlinks t = symlinks s" "readable st t (sess_id sess)"
proof -
  have k: "keeps (others_than st (sess_id sess)) s t"
    using frames_keeps [OF frames_UpdateSession assms(1)] assms(2) by (simp add: readable_def)
  then show "symlinks t = symlinks s" by (simp add: keeps_def)
  with k show "readable st t (sess_id sess)"
    using assms(2) keeps_no_cut by (auto simp: readable_def)
qed

lemma update_post:
  assumes "UpdateSession st sess s = (r, t)" "usable st s sess"
  shows "(\<exists>cur x. look st s (sess_id sess) = Inr (Some cur) \<and> session_step sess cur x \<and>
            (look st t (sess_id sess) = Inr (Some cur) \<or> look st t (sess_id sess) = Inr (Some x) \<or>
             isl (look st t (sess_id sess))) \<and>
            (\<forall>y. r = Inr y \<longrightarrow> y = x \<and> look st t (sess_id sess) = Inr (Some x)))
       \<or> (look st t (sess_id sess) = look st s (sess_id sess) \<and> isl r)"
  using UpdateSession_post [OF assms(1)] assms(2) look_readable [OF usable_readable [OF assms(2)]]
    UpdateSession_readable(1) [OF assms(1) usable_readable [OF assms(2)]]
  by (auto simp: usable_def readable_def settled_def)

text \<open>A stale revision ends the update before its first write.\<close>

lemma stale_post:
  assumes run: "UpdateSession st sess s = (r, t)" and us: "readable st s (sess_id sess)"
    and cur: "look st s (sess_id sess) = Inr (Some cur)" "sess_revision sess \<noteq> sess_revision cur"
  shows "isl r \<and> (\<forall>p. view t p = view s p) \<and> (faults s = [] \<longrightarrow> (\<exists>e. r = Inl e \<and> is_conflict e))"
proof -
  let ?id = "sess_id sess" and ?D = "\<lambda>_::string. True"
  have v: "valid_id st ?id" and nc: "no_cut s" using us by (auto simp: readable_def)
  have sv: "session_view st s ?id = Inr (Some cur)" using cur(1) look_readable [OF us refl] by simp
  have inner: "isl r' \<and> keeps ?D s1 s2 \<and> (faults s1 = [] \<longrightarrow> (\<exists>e. r' = Inl e \<and> is_conflict e))"
    if u: "update_locked st sess s1 = (r', s2)" and k: "keeps ?D s s1" for s1 s2 r'
  proof -
    have nc1: "no_cut s1" by (rule keeps_no_cut [OF k nc])
    have sv1: "session_view st s1 ?id = Inr (Some cur)"
      using view_session [OF keeps_view [OF k nc TrueI]] sv by simp
    from u show ?thesis
      unfolding update_locked_def
    proof (cases rule: seq_cases)
      case (err e)
      have False if q: "faults s1 = []"
      proof -
        have "transcript st ?id \<notin> set (symlinks s1)" using us k by (auto simp: readable_def keeps_def)
        then have "sessionPath st ?id s1 = (Inr (transcript st ?id), s1)"
          using q by (simp add: sessionPath_eq [OF v])
        moreover obtain es where "view s1 (transcript st ?id) = Inr es" "sessions_of ?id es = Inr (Some cur)"
          using sv1 by (auto simp: session_view_def split: sum.splits)
        ultimately have "is_ok (fst (getSessionLocked st ?id s1))"
          using readEnvelopes_quiet [OF q, of "transcript st ?id"]
          by (auto simp: getSessionLocked_def seq_def wrapping_def sessions_of_def
              lift_result_def ret_def split: prod.split sum.splits option.split if_splits)
        then show False using err(1) by simp
      qed
      then show ?thesis using err frames_keeps [OF frames_getSessionLocked err(1)] by auto
    next
      case (ok c s3)
      have "c = Some cur" using getSessionLocked_view(1) [OF ok(1) nc1 v] sv1 by simp
      then show ?thesis
        using ok(2) cur(2) frames_keeps [OF frames_getSessionLocked ok(1)]
        by (auto simp: raise_def conflict_error_def)
    qed
  qed
  have run': "withLock st (update_locked st sess) s = (r, t)"
    using run v by (simp add: UpdateSession_def valid_id_def)
  then have main: "isl r \<and> (\<forall>p. view t p = view s p)"
  proof (cases rule: withLock_cases [where D = ?D])
    case (refused e)
    then show ?thesis using keeps_view [OF refused(2) nc] by simp
  next
    case (held s1 s2)
    then show ?thesis
      using inner [OF held(3,1)] keeps_view [OF keeps_trans [OF held(1)] nc] view_files [OF held(5)] by auto
  qed
  have "\<exists>e. r = Inl e \<and> is_conflict e" if q: "faults s = []"
  proof -
    obtain s1 where s1: "keeps ?D s s1" "faults s1 = []"
        "fst (withLock st (update_locked st sess) s) = fst (update_locked st sess s1)"
      using q by (rule withLock_quiet [where D = ?D])
    obtain r' s2 where "update_locked st sess s1 = (r', s2)" by force
    then show ?thesis using inner [of s1 r' s2] s1 run' by auto
  qed
  then show ?thesis using main by blast
qed

interpretation jsonl: session_store "UpdateSession st" "look st" "readable st" "usable st" for st
proof
  fix s sess x t
  assume "usable st s sess" "UpdateSession st sess s = (Inr x, t)"
  from update_post [OF this(2,1)]
  show "\<exists>cur. look st s (sess_id sess) = Inr (Some cur) \<and> session_step sess cur x \<and>
      look st t (sess_id sess) = Inr (Some x)" by auto
next
  fix s sess r t cur
  assume a: "readable st s (sess_id sess)" "UpdateSession st sess s = (r, t)"
    "look st s (sess_id sess) = Inr (Some cur)" "sess_revision sess \<noteq> sess_revision cur"
  from stale_post [OF a(2,1,3,4)] have "isl r" "view t (transcript st (sess_id sess)) = view s (transcript st (sess_id sess))"
    by auto
  then show "isl r \<and> look st t (sess_id sess) = Inr (Some cur)"
    using a(3) look_readable [OF a(1)] UpdateSession_readable(1) [OF a(2,1)] by (simp add: session_view_def)
next
  fix s sess r t sid
  assume "usable st s sess" "UpdateSession st sess s = (r, t)" "sid \<noteq> sess_id sess"
  then show "look st t sid = look st s sid" using UpdateSession_others by blast
next
  fix s sess r t
  assume "usable st s sess" "UpdateSession st sess s = (r, t)"
  then show "readable st t (sess_id sess)" using UpdateSession_readable(2) usable_readable by blast
qed

section \<open>Without faults an update succeeds\<close>

definition good :: "'a io \<Rightarrow> os \<Rightarrow> bool" where
  "good m s \<longleftrightarrow> is_ok (fst (m s))"

lemma good_seq: "good m s \<Longrightarrow> (\<And>x t. m s = (Inr x, t) \<Longrightarrow> good (k x) t) \<Longrightarrow> good (seq m k) s"
  by (cases "m s"; cases "fst (m s)") (auto simp: good_def seq_def)

lemma good_wrapping: "good m s \<Longrightarrow> good (wrapping p m) s"
  by (cases "m s"; cases "fst (m s)") (auto simp: good_def wrapping_def)

lemma good_simps [simp]: "good (ret x) s" "good (ignoring m) s" "faults s = [] \<Longrightarrow> good sys s"
  by (simp_all add: good_def ret_def ignoring_def)

lemma ok_quiet: "m s = (r, t) \<Longrightarrow> frames (\<lambda>_. True) m \<Longrightarrow> faults s = [] \<Longrightarrow> faults t = []"
  using frames_keeps quiet_keeps by blast

lemma ok_quiet': "m s = (r, t) \<Longrightarrow> frames (\<lambda>_. False) m \<Longrightarrow> faults s = [] \<Longrightarrow> faults t = []"
  using frames_keeps quiet_keeps by blast

lemma quiet_append:
  assumes q: "faults s = []" and e: "env_ok e"
  shows "appendEnvelope p e s = (Inr (), add_bytes p (line_of e @ [CHR 0x0A]) (if file_at s p = None then set_file p [] s else s))"
proof -
  let ?s1 = "if file_at s p = None then set_file p [] s else s"
  let ?b = "line_of e @ [CHR 0x0A]"
  have q1: "faults ?s1 = []" using q by simp
  have q2: "faults (add_bytes p ?b ?s1) = []" using q1 by (simp add: add_bytes_def)
  have "open_create p s = (Inr (), ?s1)" using q by (auto simp: open_create_def quiet_seq_sys split: option.split)
  moreover have "chmod_or_close ?s1 = (Inr (), ?s1)" using q1 by (simp add: chmod_or_close_def)
  moreover have "write_sync_close p ?b ?s1 = (Inr (), add_bytes p ?b ?s1)"
    using q1 q2 by (simp add: write_sync_close_def write_bytes_def next_fault_def)
  moreover have "syncDir (add_bytes p ?b ?s1) = (Inr (), add_bytes p ?b ?s1)"
    using q2 by (simp add: syncDir_def quiet_seq_sys)
  ultimately show ?thesis
    by (simp add: appendEnvelope_def seq_def wrapping_def lift_result_def marshal_envelope [OF e])
qed

lemma good_append: "faults s = [] \<Longrightarrow> env_ok e \<Longrightarrow> good (appendEnvelope p e) s"
  by (simp add: good_def quiet_append)

lemma good_newEnvelope: "json_ok v \<Longrightarrow> good (newEnvelope typ sid key v) s"
  by (simp add: good_def newEnvelope_def json_Marshal_ok split: prod.split)

lemma good_append_events:
  "faults s = [] \<Longrightarrow> \<forall>e \<in> set evs. env_ok e \<Longrightarrow> good (append_events p evs) s"
proof (induction evs arbitrary: s)
  case (Cons e evs)
  have "good (append_events p evs) t"
    if "wrapping ''jsonl: append session transaction'' (appendEnvelope p e) s = (Inr x, t)" for x t
  proof (rule Cons.IH)
    show "faults t = []"
    proof -
      have a: "appendEnvelope p e s = (Inr x, t)" using that by (auto elim: wrapping_cases)
      show ?thesis by (rule ok_quiet' [OF a frames_append Cons.prems(1)]) simp
    qed
  qed (use Cons.prems in simp)
  then show ?case
    using Cons.prems by (auto intro!: good_seq good_wrapping good_append)
qed simp

lemma good_upsert_events: "good (upsert_events x sid cur ms) s"
proof (induction ms arbitrary: cur s)
  case (Cons m ms)
  then show ?case
    by (auto intro!: good_seq good_wrapping good_newEnvelope)
qed simp

lemma good_sessionMessageChanges: "good (sessionMessageChanges x sid cur ms) s"
  by (auto simp: sessionMessageChanges_def messages_json_def good_upsert_events
      intro!: good_seq good_wrapping good_newEnvelope)

lemma quiet_sessionPath:
  "faults s = [] \<Longrightarrow> valid_id st sid \<Longrightarrow> transcript st sid \<notin> set (symlinks s) \<Longrightarrow>
     sessionPath st sid s = (Inr (transcript st sid), s)"
  by (simp add: sessionPath_eq)

lemma good_commit:
  assumes q: "faults s = []" and v: "valid_id st sid" "transcript st sid \<notin> set (symlinks s)"
    and ok: "clock_ok s" "session_ok nxt" "distinct (map msg_id (sess_messages nxt))"
  shows "good (commit_session st sid cur nxt) s"
  unfolding commit_session_def
proof (rule good_seq)
  show "good (sessionPath st sid) s" using quiet_sessionPath [OF q v] by (simp add: good_def)
  fix path s0
  assume "sessionPath st sid s = (Inr path, s0)"
  then have p: "path = transcript st sid" "s0 = s" using quiet_sessionPath [OF q v] by auto
  obtain x s1 where x: "newID ''txn-'' s0 = (x, s1)" by force
  have q1: "faults s1 = []" and c1: "clock_ok s1"
    using newID_frame [OF x] p q ok(1) by (simp_all add: clock_ok_def)
  have "good (seq (sessionMessageChanges x sid (sess_messages cur) (sess_messages nxt)) (\<lambda>events.
       seq (wrapping ''jsonl: marshal session update'' (newEnvelope ''session.updated'' sid [] (meta_json nxt))) (\<lambda>e.
       seq (append_events path events) (\<lambda>_.
       seq (wrapping ''jsonl: update session'' (appendEnvelope path (e\<lparr>env_txn := x\<rparr>))) (\<lambda>_.
       seq (ignoring (appendIndexLocked st (Inr nxt))) (\<lambda>_.
       ret nxt)))))) s1"
  proof (intro good_seq good_sessionMessageChanges good_wrapping good_newEnvelope json_ok_meta ok(2))
    fix evs s2
    assume evs: "sessionMessageChanges x sid (sess_messages cur) (sess_messages nxt) s1 = (Inr evs, s2)"
    have q2: "faults s2 = []" by (rule ok_quiet [OF evs frames_sessionMessageChanges q1])
    have "\<forall>m \<in> set (sess_messages nxt). message_ok m" using ok(2) by (simp add: session_ok_def)
    then have e2: "\<forall>e \<in> set evs. env_ok e" "clock_ok s2"
      using sessionMessageChanges_post [OF evs c1] ok(3) by blast+
    fix e s3
    assume "wrapping ''jsonl: marshal session update'' (newEnvelope ''session.updated'' sid [] (meta_json nxt)) s2 = (Inr e, s3)"
    then have e: "newEnvelope ''session.updated'' sid [] (meta_json nxt) s2 = (Inr e, s3)"
      by (auto elim: wrapping_cases)
    have q3: "faults s3 = []" by (rule ok_quiet [OF e frames_newEnvelope q2])
    have eok: "env_ok e" using newEnvelope_ok(1) [OF e e2(2) json_ok_meta [OF ok(2)]] by simp
    show "good (append_events path evs) s3" by (rule good_append_events [OF q3 e2(1)])
    fix u s4
    assume a: "append_events path evs s3 = (Inr u, s4)"
    have q4: "faults s4 = []"
      by (rule ok_quiet' [OF a frames_append_events q3]) simp
    show "good (appendEnvelope path (e\<lparr>env_txn := x\<rparr>)) s4"
      by (rule good_append [OF q4]) (simp add: eok)
  qed simp_all
  then show "good (\<lambda>s. case newID ''txn-'' s of (txn, s1) \<Rightarrow>
       seq (sessionMessageChanges txn sid (sess_messages cur) (sess_messages nxt)) (\<lambda>events.
       seq (wrapping ''jsonl: marshal session update'' (newEnvelope ''session.updated'' sid [] (meta_json nxt))) (\<lambda>e.
       seq (append_events path events) (\<lambda>_.
       seq (wrapping ''jsonl: update session'' (appendEnvelope path (e\<lparr>env_txn := txn\<rparr>))) (\<lambda>_.
       seq (ignoring (appendIndexLocked st (Inr nxt))) (\<lambda>_.
       ret nxt))))) s1) s0"
    using x by (simp add: good_def)
qed

lemma good_getSessionLocked:
  assumes q: "faults s = []" and v: "valid_id st sid" "transcript st sid \<notin> set (symlinks s)"
    and c: "session_view st s sid = Inr c"
  shows "good (getSessionLocked st sid) s"
proof -
  have "sessionPath st sid s = (Inr (transcript st sid), s)" by (rule quiet_sessionPath [OF q v])
  moreover obtain es where "view s (transcript st sid) = Inr es" "sessions_of sid es = Inr c"
    using c by (auto simp: session_view_def split: sum.splits)
  ultimately show ?thesis
    using readEnvelopes_quiet [OF q, of "transcript st sid"]
    by (auto simp: good_def getSessionLocked_def seq_def wrapping_def sessions_of_def
        lift_result_def ret_def split: prod.split sum.splits option.split if_splits)
qed

lemma good_UpdateSession:
  assumes q: "faults s = []" and us: "usable st s sess"
    and cur: "look st s (sess_id sess) = Inr (Some cur)" "sess_revision sess = sess_revision cur"
      "sess_revision cur \<noteq> - 1" "sess_updated_at cur \<noteq> max_int64"
  shows "good (UpdateSession st sess) s"
proof -
  let ?id = "sess_id sess" and ?D = "\<lambda>_::string. True"
  have v: "valid_id st ?id" and nl: "transcript st ?id \<notin> set (symlinks s)" and oks: "clock_ok s" "session_ok sess"
      "distinct (map msg_id (sess_messages sess))"
    using us by (auto simp: usable_def readable_def update_input_ok_def)
  have sv: "session_view st s ?id = Inr (Some cur)" using cur(1) look_readable [OF usable_readable [OF us] refl] by simp
  obtain s1 where s1: "keeps ?D s s1" "faults s1 = []"
      "fst (withLock st (update_locked st sess) s) = fst (update_locked st sess s1)"
    using q by (rule withLock_quiet [where D = ?D])
  have sv1: "session_view st s1 ?id = Inr (Some cur)"
    using view_session [OF keeps_view [OF s1(1) quiet_no_cut [OF q] TrueI]] sv by simp
  have nl1: "transcript st ?id \<notin> set (symlinks s1)" using nl s1(1) by (simp add: keeps_def)
  have "good (update_locked st sess) s1"
    unfolding update_locked_def
  proof (rule good_seq)
    show "good (getSessionLocked st ?id) s1" by (rule good_getSessionLocked [OF s1(2) v nl1 sv1])
    fix c s2
    assume g: "getSessionLocked st ?id s1 = (Inr c, s2)"
    have c: "c = Some cur" using getSessionLocked_view(1) [OF g _ v] s1(2) sv1 by simp
    obtain es where "sessions_of ?id es = Inr (Some cur)"
      using getSessionLocked_view(2) [OF g _ v] s1(2) c by auto
    then have times: "times_ok cur" by (rule sessions_of_live)
    have k2: "keeps ?D s s2" by (rule keeps_trans [OF s1(1) frames_keeps [OF frames_getSessionLocked g]])
    obtain now s3 where now: "now_milli s2 = (now, s3)" by force
    have k3: "keeps ?D s s3" using keeps_trans [OF k2] now_milli_keeps [OF now] by blast
    have nowok: "int64_ok now"
      using now oks(1) k2 by (auto simp: now_milli_def now_nano_def clock_ok_def keeps_def)
    obtain x where x: "next_session sess cur now = Inr x"
      using cur(4) by (cases "next_session sess cur now") (auto simp: next_session_def Let_def split: if_splits)
    note st' = next_session_step [OF x oks(2) times nowok cur(2,3)]
    have "good (commit_session st ?id cur x) s3"
    proof (rule good_commit)
      show "faults s3 = []" by (rule quiet_keeps [OF k3 q])
      show "transcript st ?id \<notin> set (symlinks s3)" using nl k3 by (simp add: keeps_def)
      show "clock_ok s3" using oks(1) k3 by (simp add: keeps_def clock_ok_def)
      show "distinct (map msg_id (sess_messages x))" using oks(3) st'(4) by simp
    qed (rule v, rule st'(2))
    then show "good (case c of
       None \<Rightarrow> raise (ErrMsg (''jsonl: update session '' @ quote (sess_id sess) @ '': not found''))
     | Some current \<Rightarrow>
         if sess_revision sess \<noteq> sess_revision current
           then raise (conflict_error (sess_id sess) (sess_revision current) (sess_revision sess))
         else if sess_revision current = - 1
           then raise (ErrMsg (''jsonl: session '' @ quote (sess_id sess) @ '' revision overflow''))
         else (\<lambda>s. case now_milli s of (now, s1) \<Rightarrow>
           seq (lift_result (next_session sess current now)) (commit_session st (sess_id sess) current) s1)) s2"
      using c cur(2,3) now x by (simp add: good_def seq_def lift_result_def)
  qed
  then show ?thesis
    using s1(3) v by (simp add: good_def UpdateSession_def valid_id_def)
qed

end
