(* ===== verification/Jsonl_Lifecycle.thy ===== *)
theory Jsonl_Lifecycle
  imports Jsonl_Contract
begin

text \<open>
  Creating, deleting and listing sessions of the JSONL store, over every fault script that
  cuts no read short.
\<close>

section \<open>Deleting\<close>

lemma deleted_hidden:
  assumes "sessions_of sid es = Inr (Some cur)" "env_type e = ''session.deleted''" "env_session e = sid"
  shows "sessions_of sid (es @ [e]) = Inr None"
proof -
  obtain rp where rp: "replay_all sid replay_init es = Inr rp" "session_live sid rp" "rp_sess rp = cur"
    using assms(1) by (rule sessions_of_live)
  have "replay_all sid replay_init (es @ [e]) = Inr (rp\<lparr>rp_deleted := True\<rparr>)"
    using rp assms(2,3) by (simp add: replay_all_append replay_step_def session_live_def)
  moreover have "replay_result sid (rp\<lparr>rp_deleted := True\<rparr>) = Inr (cur\<lparr>sess_id := sid\<rparr>, True)"
    using rp by (simp add: replay_result_def session_live_def)
  ultimately show ?thesis by (simp add: sessions_of_def replaySession_result)
qed

definition tombstoned :: "store \<Rightarrow> os \<Rightarrow> os \<Rightarrow> string \<Rightarrow> bool" where
  "tombstoned st s t sid \<longleftrightarrow>
     session_view st t sid = session_view st s sid \<or> session_view st t sid = Inr None \<or>
     (\<exists>m. session_view st t sid = Inl m)"

lemma view_gone: "file_at t (transcript st sid) = None \<Longrightarrow> session_view st t sid = Inr None"
  by (simp add: session_view_def view_def recs_def sessions_of_def)

lemma deleted_path: "transcript st sid @ ''.deleted'' \<noteq> transcript st other"
proof
  assume a: "transcript st sid @ ''.deleted'' = transcript st other"
  then have "last (transcript st sid @ ''.deleted'') = last (transcript st other)" by simp
  then show False by (simp add: transcript_def join_path_def)
qed

lemma DeleteSession_eq:
  "valid_id st sid \<Longrightarrow> DeleteSession st sid = withLock st (
     seq (sessionPath st sid) (\<lambda>path.
     seq (stat_file path) (\<lambda>exists. if \<not> exists then ret () else delete_locked st sid path)))"
  by (simp add: DeleteSession_def valid_id_def)

lemma frames_after_rename:
  assumes "\<not> D (p @ ''.deleted'')"
  shows "frames D (seq (wrapping a syncDir) (\<lambda>_.
     seq (wrapping b (remove_file (p @ ''.deleted''))) (\<lambda>_. syncDir)))"
  using assms by (intro frame_rules)

lemma frames_tombstone [frame_rules]: "\<not> D p \<Longrightarrow> frames D (append_tombstone sid p cur)"
  unfolding append_tombstone_def by (intro frame_rules)

lemma delete_tombstone_post:
  assumes run: "append_tombstone sid (transcript st sid) cur s = (r, t)"
    and okay: "ready s (transcript st sid) es" "sessions_of sid es = Inr cur" "clock_ok s"
  shows "tombstoned st s t sid" "r = Inr () \<Longrightarrow> \<exists>es'. ready t (transcript st sid) es' \<and> sessions_of sid es' = Inr None"
proof -
  have "tombstoned st s t sid \<and> (r = Inr () \<longrightarrow> (\<exists>es'. ready t (transcript st sid) es' \<and> sessions_of sid es' = Inr None))"
  proof (cases cur)
    case None
    then show ?thesis using run okay by (auto simp: append_tombstone_def ret_def tombstoned_def)
  next
    case (Some c)
    from run have "seq (newEnvelope ''session.deleted'' sid [] (JObj [(''id'', JStr sid)])) (\<lambda>e.
        wrapping (''jsonl: delete session '' @ quote sid) (appendEnvelope (transcript st sid) e)) s = (r, t)"
      by (simp add: append_tombstone_def Some)
    then show ?thesis
    proof (cases rule: seq_cases)
      case (err x)
      then have "session_view st t sid = session_view st s sid"
        using view_session [OF view_files [OF newEnvelope_files [OF err(1)]]] by simp
      then show ?thesis using err by (simp add: tombstoned_def)
    next
      case (ok e s1)
      have "json_ok (JObj [(''id'', JStr sid)])" by simp
      note e = newEnvelope_ok [OF ok(1) okay(3) this, simplified]
      have rd: "ready s1 (transcript st sid) es" by (rule ready_files [OF okay(1) newEnvelope_files [OF ok(1)]])
      obtain r' where a: "appendEnvelope (transcript st sid) e s1 = (r', t)" "r = Inr () \<Longrightarrow> r' = Inr ()"
        using ok(2) by (auto elim: wrapping_cases)
      have hid: "sessions_of sid (es @ [e]) = Inr None"
        by (rule deleted_hidden [OF okay(2) [unfolded Some]]) (simp_all add: e)
      have "view s (transcript st sid) = Inr es" by (rule ready_view [OF okay(1)])
      then have "tombstoned st s t sid"
        using appended_view [OF appendEnvelope_post(1) [OF a(1) rd e(1)]] hid
        by (elim disjE exE) (simp_all add: tombstoned_def session_view_def)
      then show ?thesis using appendEnvelope_post(2) [OF a(1) rd e(1)] a(2) hid by blast
    qed
  qed
  then show "tombstoned st s t sid" "r = Inr () \<Longrightarrow> \<exists>es'. ready t (transcript st sid) es' \<and> sessions_of sid es' = Inr None" by auto
qed

lemma delete_locked_post:
  assumes run: "delete_locked st sid (transcript st sid) s = (r, t)" and nc: "no_cut s"
    and okay: "store_ok st" "valid_id st sid" "clock_ok s"
  shows "tombstoned st s t sid" "r = Inr () \<Longrightarrow> session_view st t sid = Inr None"
proof -
  let ?p = "transcript st sid" and ?q = "transcript st sid @ ''.deleted''"
  let ?G = "tombstoned st s t sid \<and> (r = Inr () \<longrightarrow> session_view st t sid = Inr None)"
  have qp: "?q \<noteq> ?p" by simp
  from run have ?G
    unfolding delete_locked_def
  proof (cases rule: seq_cases)
    case (err e)
    then show ?thesis
      using view_session [OF keeps_view [OF frames_keeps [OF frames_getSessionLocked [where D = "\<lambda>_. True"] err(1)] nc TrueI]]
      by (simp add: tombstoned_def)
  next
    case (ok cur s1)
    have k1: "keeps (\<lambda>_. True) s s1" by (rule frames_keeps [OF frames_getSessionLocked ok(1)])
    have sv1: "session_view st s1 sid = session_view st s sid"
      by (rule view_session [OF keeps_view [OF k1 nc TrueI]])
    obtain es where es: "ready s1 ?p es" "sessions_of sid es = Inr cur"
      using getSessionLocked_view(2) [OF ok(1) nc okay(2)] by blast
    have ck: "clock_ok s1" using okay(3) k1 by (simp add: clock_ok_def keeps_def)
    from ok(2) show ?thesis
    proof (cases rule: seq_cases)
      case (err e)
      then show ?thesis using delete_tombstone_post(1) [OF err(1) es ck] sv1 by (simp add: tombstoned_def)
    next
      case (ok u s2)
      obtain es' where gone: "ready s2 ?p es'" "sessions_of sid es' = Inr None"
        using delete_tombstone_post(2) [OF ok(1) es ck] by auto
      have none: "session_view st v sid = Inr None" if "view v ?p = Inr es'" for v
        using that gone(2) by (simp add: session_view_def)
      have f2: "suffix (faults s2) (faults s1)"
      proof -
        have "keeps (\<lambda>_. False) s1 s2"
          by (rule frames_keeps [OF frames_tombstone ok(1)]) simp
        then show ?thesis by (simp add: keeps_def)
      qed
      have nc2: "no_cut s2" using f2 keeps_no_cut [OF k1 nc] by (rule no_cut_suffix)
      define s3 where "s3 = snd (appendIndexLocked st (Inl sid) s2)"
      define s4 where "s4 = snd (remove_file ?q s3)"
      have k3: "keeps (not_index st) s2 s3" using frames_appendIndex by (simp add: frames_def s3_def)
      have v3: "view s3 ?p = Inr es'"
        using keeps_view [OF k3 nc2 transcript_not_index [OF okay(1,2)]] ready_view [OF gone(1)] by simp
      have nc3: "no_cut s3" by (rule keeps_no_cut [OF k3 nc2])
      have "keeps (\<lambda>x. x \<noteq> ?q) s3 s4" using frames_remove [of "\<lambda>x. x \<noteq> ?q" ?q] by (simp add: frames_def s4_def)
      then have v4: "view s4 ?p = Inr es'" and nc4: "no_cut s4"
        using keeps_view [of "\<lambda>x. x \<noteq> ?q" s3 s4 ?p] nc3 v3 qp by (auto intro: keeps_no_cut)
      have run4: "seq (wrapping (''jsonl: stage deleted session '' @ quote sid) (rename_file ?p ?q)) (\<lambda>_.
         seq (wrapping (''jsonl: sync deleted session '' @ quote sid) syncDir) (\<lambda>_.
         seq (wrapping (''jsonl: remove deleted session '' @ quote sid) (remove_file ?q)) (\<lambda>_.
         syncDir))) s4 = (r, t)"
        using ok(2) by (simp add: seq_def ignoring_def s3_def s4_def)
      then show ?thesis
      proof (cases rule: seq_cases)
        case (err e)
        then obtain x where rn: "rename_file ?p ?q s4 = (Inl x, t)" by (auto elim: wrapping_cases)
        have "file_at t ?p = file_at s4 ?p \<or> file_at t ?p = None"
          using rename_file_at(1) [OF rn] qp by auto
        then have "session_view st t sid = Inr None"
        proof
          assume "file_at t ?p = file_at s4 ?p"
          then have "view t ?p = Inr es'" using view_at [of t ?p s4] v4 by simp
          then show ?thesis by (rule none)
        qed (rule view_gone)
        then show ?thesis by (simp add: tombstoned_def)
      next
        case (ok u s5)
        then have rn: "rename_file ?p ?q s4 = (Inr u, s5)" by (auto elim: wrapping_cases)
        have gone5: "file_at s5 ?p = None" using rename_file_at(2) [OF rn] qp by auto
        have k5: "keeps (\<lambda>x. x \<noteq> ?q) s5 t" by (rule frames_keeps [OF frames_after_rename ok(2)]) simp
        have "keeps (\<lambda>_. False) s4 s5" by (rule frames_keeps [OF frames_rename rn]) simp_all
        then have "no_cut s5" using nc4 by (rule keeps_no_cut)
        then have "view t ?p = view s5 ?p" using keeps_view [OF k5] qp by auto
        then have "session_view st t sid = session_view st s5 sid" by (rule view_session)
        then have "session_view st t sid = Inr None" using view_gone [OF gone5] by simp
        then show ?thesis by (simp add: tombstoned_def)
      qed
    qed
  qed
  then show "tombstoned st s t sid" "r = Inr () \<Longrightarrow> session_view st t sid = Inr None" by auto
qed

lemma frames_delete:
  assumes "valid_id st sid" "\<not> D (transcript st sid)" "\<not> D (transcript st sid @ ''.deleted'')"
    and "\<And>p. D p \<Longrightarrow> not_index st p"
  shows "frames D (DeleteSession st sid)"
  unfolding DeleteSession_eq [OF assms(1)] delete_locked_def
  by (intro frame_rules frames_at_path [OF assms(1)] frames_mono [OF frames_appendIndex])
    (use assms in auto)

lemma DeleteSession_post:
  assumes run: "DeleteSession st sid s = (r, t)" and nc: "no_cut s"
    and okay: "store_ok st" "valid_id st sid" "clock_ok s"
  shows "tombstoned st s t sid" "r = Inr () \<Longrightarrow> session_view st t sid = Inr None"
proof -
  let ?D = "\<lambda>_::string. True" and ?p = "transcript st sid"
  let ?G = "tombstoned st s t sid \<and> (r = Inr () \<longrightarrow> session_view st t sid = Inr None)"
  have same: "session_view st u sid = session_view st s sid" if "keeps ?D s u" for u
    by (rule view_session [OF keeps_view [OF that nc TrueI]])
  from run have ?G
    unfolding DeleteSession_eq [OF okay(2)]
  proof (cases rule: withLock_cases [where D = ?D])
    case (refused e)
    then show ?thesis using same [OF refused(2)] by (simp add: tombstoned_def)
  next
    case (held s1 s2)
    have st2: "session_view st t sid = session_view st s2 sid" by (rule view_session [OF view_files [OF held(5)]])
    from held(3) show ?thesis
    proof (cases rule: seq_cases)
      case (err e)
      then show ?thesis
        using same [OF keeps_trans [OF held(1) frames_keeps [OF frames_sessionPath err(1)]]] st2
        by (simp add: tombstoned_def)
    next
      case (ok path s3)
      have path: "path = ?p" using ok(1) by (auto elim!: sessionPath_cases [OF _ okay(2), where D = ?D])
      note k3 = keeps_trans [OF held(1) frames_keeps [OF frames_sessionPath ok(1)]]
      from ok(2) show ?thesis
      proof (cases rule: seq_cases)
        case (err e)
        then show ?thesis
          using same [OF keeps_trans [OF k3 frames_keeps [OF frames_stat err(1)]]] st2
          by (simp add: tombstoned_def)
      next
        case (ok ex s4)
        note k4 = keeps_trans [OF k3 frames_keeps [OF frames_stat ok(1)]]
        show ?thesis
        proof (cases ex)
          case False
          then have "file_at s4 ?p = None"
            using ok(1) path by (auto simp: stat_file_def seq_def split: prod.splits sum.splits)
          moreover have "t' = s4" if "ret () s4 = (r, t')" for t' using that by (simp add: ret_def)
          ultimately show ?thesis
            using ok(2) False view_gone [of s4 st sid] st2 by (auto simp: ret_def tombstoned_def)
        next
          case True
          have ck: "clock_ok s4" using okay(3) k4 by (simp add: clock_ok_def keeps_def)
          have d: "delete_locked st sid ?p s4 = (r, s2)" using ok(2) True path by simp
          show ?thesis
            using delete_locked_post [OF d keeps_no_cut [OF k4 nc] okay(1,2) ck] same [OF k4] st2
            by (simp add: tombstoned_def)
        qed
      qed
    qed
  qed
  then show "tombstoned st s t sid" "r = Inr () \<Longrightarrow> session_view st t sid = Inr None" by auto
qed

section \<open>Creating\<close>

lemma sessionPath_valid: "sessionPath st sid s = (Inr p, t) \<Longrightarrow> valid_id st sid"
  by (auto simp: sessionPath_def valid_id_def split: option.splits)

lemma created_shown:
  assumes "env_type e = ''session.created''" "env_session e = sid" "env_payload e = Some (meta_json sess)"
    and "session_ok sess" "sess_id sess = sid" "sid \<noteq> []" "sess_messages sess = []"
  shows "sessions_of sid [e] = Inr (Some sess)"
proof -
  have "decode_meta w sid e zero_session = Inr sess" for w
    using assms by (simp add: decode_meta_def decode_payload_def apply_meta_json zero_session_def)
  then show ?thesis
    using assms by (simp add: sessions_of_def replaySession_def replay_step_def replay_created_def replay_init_def)
qed

definition new_session :: "string \<Rightarrow> string \<Rightarrow> string \<Rightarrow> int \<Rightarrow> session" where
  "new_session sid agentID userID now =
     zero_session\<lparr>sess_id := sid, sess_agent_id := agentID, sess_user_id := userID,
       sess_revision := 1, sess_created_at := now, sess_updated_at := now\<rparr>"

lemma new_session_simps [simp]:
  "sess_id (new_session sid a u now) = sid" "sess_messages (new_session sid a u now) = []"
  "int64_ok now \<Longrightarrow> session_ok (new_session sid a u now)"
  by (simp_all add: new_session_def zero_session_def session_ok_def)

text \<open>
  What creating a session does to the machine: a session id whose transcript did not exist
  gets one record, or nothing but fresh transcripts changes.
\<close>

definition fresh_only :: "store \<Rightarrow> os \<Rightarrow> os \<Rightarrow> bool" where
  "fresh_only st s t \<longleftrightarrow>
     (\<forall>p. not_index st p \<longrightarrow> view s p \<noteq> Inr [] \<longrightarrow> view t p = view s p)"

lemma keeps_fresh_only: "keeps (not_index st) s t \<Longrightarrow> no_cut s \<Longrightarrow> fresh_only st s t"
  by (auto simp: fresh_only_def keeps_def)

lemma create_attempts_post:
  assumes "create_attempts st n a u s = (r, t)" "no_cut s" "store_ok st" "clock_ok s"
  shows "fresh_only st s t \<and>
    (\<forall>x. r = Inr x \<longrightarrow> valid_id st (sess_id x) \<and> view s (transcript st (sess_id x)) = Inr [] \<and>
        session_view st t (sess_id x) = Inr (Some x) \<and> (\<exists>now. x = new_session (sess_id x) a u now))"
  using assms
proof (induction n arbitrary: s)
  case 0
  then show ?case by (auto simp: raise_def fresh_only_def)
next
  case (Suc n)
  obtain sid s1 where sid: "newID ''ses-'' s = (sid, s1)" by force
  let ?p = "transcript st sid" and ?D = "\<lambda>_::string. True"
  have k1: "keeps ?D s s1" by (rule keeps_newID [OF sid])
  have run: "seq (sessionPath st sid) (\<lambda>path.
       seq (stat_file path) (\<lambda>exists.
       if exists then create_attempts st n a u
       else (\<lambda>s2. case now_milli s2 of (now, s3) \<Rightarrow>
           (let sess = zero_session\<lparr>sess_id := sid, sess_agent_id := a, sess_user_id := u,
                  sess_revision := 1, sess_created_at := now, sess_updated_at := now\<rparr> in
            seq (wrapping ''jsonl: create session'' (newEnvelope ''session.created'' sid [] (meta_json sess))) (\<lambda>e.
            seq (wrapping ''jsonl: create session'' (appendEnvelope path e)) (\<lambda>_.
            seq (ignoring (appendIndexLocked st (Inr sess))) (\<lambda>_.
            ret sess))) s3)))) s1 = (r, t)"
    using Suc.prems(1) sid by simp
  have plain: ?case if "keeps ?D s t" "isl r"
    using that keeps_view [OF that(1) Suc.prems(2)] by (auto simp: fresh_only_def)
  from run show ?case
  proof (cases rule: seq_cases)
    case (err e)
    then show ?thesis using plain keeps_trans [OF k1 frames_keeps [OF frames_sessionPath err(1)]] by simp
  next
    case (ok path s2)
    have v: "valid_id st sid" by (rule sessionPath_valid [OF ok(1)])
    have path: "path = ?p" using ok(1) by (auto elim!: sessionPath_cases [OF _ v, where D = ?D])
    note k2 = keeps_trans [OF k1 frames_keeps [OF frames_sessionPath ok(1)]]
    from ok(2) show ?thesis
    proof (cases rule: seq_cases)
      case (err e)
      then show ?thesis using plain keeps_trans [OF k2 frames_keeps [OF frames_stat err(1)]] by simp
    next
      case (ok ex s3)
      note k3 = keeps_trans [OF k2 frames_keeps [OF frames_stat ok(1)]]
      have nc3: "no_cut s3" by (rule keeps_no_cut [OF k3 Suc.prems(2)])
      have v3: "view s3 p = view s p" for p using keeps_view [OF k3 Suc.prems(2)] by simp
      have ck3: "clock_ok s3" using Suc.prems(4) k3 by (simp add: clock_ok_def keeps_def)
      show ?thesis
      proof (cases ex)
        case True
        then have "create_attempts st n a u s3 = (r, t)" using ok(2) by simp
        from Suc.IH [OF this nc3 Suc.prems(3) ck3] show ?thesis by (simp add: fresh_only_def v3)
      next
        case False
        then have absent: "file_at s3 ?p = None"
          using ok(1) path by (auto simp: stat_file_def seq_def split: prod.splits sum.splits)
        then have vp: "view s ?p = Inr []" using v3 [of ?p] by (simp add: view_def recs_def)
        obtain now s4 where now: "now_milli s3 = (now, s4)" by force
        let ?sess = "new_session sid a u now"
        have k4: "keeps ?D s s4" using keeps_trans [OF k3] now_milli_keeps [OF now] by blast
        have now_ok: "int64_ok now" using now ck3 by (auto simp: now_milli_def now_nano_def clock_ok_def)
        have nc4: "no_cut s4" by (rule keeps_no_cut [OF k4 Suc.prems(2)])
        have ck4: "clock_ok s4" using Suc.prems(4) k4 by (simp add: clock_ok_def keeps_def)
        have run5: "seq (wrapping ''jsonl: create session'' (newEnvelope ''session.created'' sid [] (meta_json ?sess))) (\<lambda>e.
            seq (wrapping ''jsonl: create session'' (appendEnvelope ?p e)) (\<lambda>_.
            seq (ignoring (appendIndexLocked st (Inr ?sess))) (\<lambda>_. ret ?sess))) s4 = (r, t)"
          using ok(2) False now path by (simp add: new_session_def Let_def)
        then show ?thesis
        proof (cases rule: seq_cases)
          case (err e)
          then have "keeps ?D s4 t" using frames_keeps [OF frames_wrapping [OF frames_newEnvelope]] by blast
          then show ?thesis using plain keeps_trans [OF k4] err by simp
        next
          case (ok e s5)
          then have ne: "newEnvelope ''session.created'' sid [] (meta_json ?sess) s4 = (Inr e, s5)"
            by (auto elim: wrapping_cases)
          note e = newEnvelope_ok [OF ne ck4 json_ok_meta [OF new_session_simps(3) [OF now_ok]], simplified]
          have k5: "keeps ?D s s5" by (rule keeps_trans [OF k4 frames_keeps [OF frames_newEnvelope ne]])
          have "file_at s5 ?p = None"
            using absent now_milli_keeps [OF now, of ?D] newEnvelope_files [OF ne] by simp
          then have rd: "ready s5 ?p []" by (simp add: ready_def recs_def)
          have nc5: "no_cut s5" by (rule keeps_no_cut [OF k5 Suc.prems(2)])
          have fr: "fresh_only st s v" if "keeps (others_than st sid) s5 v" for v
            using that vp keeps_view [OF that nc5] keeps_view [OF k5 Suc.prems(2)]
            by (auto simp: fresh_only_def others_than_def)
          from ok(2) show ?thesis
          proof (cases rule: seq_cases)
            case (err y)
            have "keeps (others_than st sid) s5 t"
              by (rule frames_keeps [OF frames_wrapping [OF frames_append] err(1)]) (simp add: others_than_def)
            then show ?thesis using fr err by simp
          next
            case (ok w s6)
            then have ap: "appendEnvelope ?p e s5 = (Inr (), s6)" by (auto elim: wrapping_cases)
            have r6: "ready s6 ?p [e]" using appendEnvelope_post(2) [OF ap rd] e by simp
            have k6: "keeps (others_than st sid) s5 s6"
              by (rule frames_keeps [OF frames_append ap]) (simp add: others_than_def)
            have nc6: "no_cut s6" by (rule keeps_no_cut [OF k6 nc5])
            have rt: "r = Inr ?sess" "t = snd (appendIndexLocked st (Inr ?sess) s6)"
              using ok(2) by (simp_all add: seq_def ignoring_def ret_def)
            have k7: "keeps (not_index st) s6 t" using frames_appendIndex rt(2) by (simp add: frames_def)
            have k7': "keeps (others_than st sid) s6 t" using frames_appendIndex_others rt(2) by (simp add: frames_def)
            have "sid \<noteq> []" using valid_id_plain [OF v] by blast
            then have "sessions_of sid [e] = Inr (Some ?sess)"
              using created_shown [of e sid ?sess] e now_ok by simp
            then have "session_view st s6 sid = Inr (Some ?sess)"
              using ready_view [OF r6] by (simp add: session_view_def)
            then have "session_view st t sid = Inr (Some ?sess)"
              using keeps_settled [OF k7 nc6 Suc.prems(3) v] by simp
            then show ?thesis
              using fr [OF keeps_trans [OF k6 k7']] rt(1) vp v by auto
          qed
        qed
      qed
    qed
  qed
qed

lemma frames_create_attempts: "frames (\<lambda>_. False) (create_attempts st n a u)"
proof (induction n)
  case (Suc n)
  then show ?case
    unfolding create_attempts.simps Let_def
    by (intro frames_newID frame_rules frames_now frames_mono [OF frames_appendIndex]) simp_all
qed (simp add: frames_basic)

lemma CreateSession_symlinks: "CreateSession st a u s = (r, t) \<Longrightarrow> symlinks t = symlinks s"
  unfolding CreateSession_def
  using frames_keeps [OF frames_withLock [OF frames_create_attempts]] by (auto simp: keeps_def)

lemma CreateSession_post:
  assumes run: "CreateSession st a u s = (r, t)" and okay: "store_ok st" "no_cut s" "clock_ok s"
  shows "fresh_only st s t"
    and "r = Inr x \<Longrightarrow> valid_id st (sess_id x) \<and> view s (transcript st (sess_id x)) = Inr [] \<and>
        session_view st t (sess_id x) = Inr (Some x) \<and> (\<exists>now. x = new_session (sess_id x) a u now)"
proof -
  have "fresh_only st s t \<and>
    (\<forall>x. r = Inr x \<longrightarrow> valid_id st (sess_id x) \<and> view s (transcript st (sess_id x)) = Inr [] \<and>
        session_view st t (sess_id x) = Inr (Some x) \<and> (\<exists>now. x = new_session (sess_id x) a u now))"
    using run unfolding CreateSession_def
  proof (cases rule: withLock_cases [where D = "\<lambda>_. True"])
    case (refused e)
    then show ?thesis using keeps_view [OF refused(2) okay(2)] by (simp add: fresh_only_def)
  next
    case (held s1 s2)
    have v: "view s1 p = view s p" for p using keeps_view [OF held(1) okay(2)] by simp
    have t: "view t p = view s2 p" for p by (rule view_files [OF held(5)])
    have sv: "session_view st t z = session_view st s2 z" for z by (rule view_session [OF t])
    have "clock_ok s1" using okay(3) held(1) by (simp add: clock_ok_def keeps_def)
    from create_attempts_post [OF held(3) keeps_no_cut [OF held(1) okay(2)] okay(1) this]
    show ?thesis by (simp add: fresh_only_def v t sv)
  qed
  then show "fresh_only st s t"
    and "r = Inr x \<Longrightarrow> valid_id st (sess_id x) \<and> view s (transcript st (sess_id x)) = Inr [] \<and>
        session_view st t (sess_id x) = Inr (Some x) \<and> (\<exists>now. x = new_session (sess_id x) a u now)" by auto
qed

lemma not_empty_view: "session_view st s sid = Inr (Some cur) \<Longrightarrow> view s (transcript st sid) \<noteq> Inr []"
  by (auto simp: session_view_def sessions_of_def)

section \<open>Listing\<close>

lemma insert_session_set: "set (insert_session x xs) = insert x (set xs)"
  by (induction xs) auto

lemma sortSessions_set: "set (sortSessions xs) = set xs"
  by (induction xs) (simp_all add: sortSessions_def insert_session_set)

lemma listed_before_total: "\<not> listed_before a b \<Longrightarrow> \<not> listed_before b a \<Longrightarrow> sess_updated_at a = sess_updated_at b \<and> sess_id a = sess_id b"
  by (auto simp: listed_before_def split: if_splits)

lemma listed_before_trans: "listed_before a b \<Longrightarrow> listed_before b c \<Longrightarrow> listed_before a c"
  by (auto simp: listed_before_def split: if_splits)

lemma listed_after_trans:
  assumes "\<not> listed_before b a" "\<not> listed_before c b"
  shows "\<not> listed_before c a"
proof
  assume "listed_before c a"
  then show False using assms by (auto simp: listed_before_def split: if_splits)
qed

text \<open>In a sorted list no later session is to be listed before an earlier one.\<close>

definition listed_in_order :: "session list \<Rightarrow> bool" where
  "listed_in_order xs \<longleftrightarrow> sorted_wrt (\<lambda>a b. \<not> listed_before b a) xs"

lemma insert_session_order: "listed_in_order xs \<Longrightarrow> listed_in_order (insert_session x xs)"
proof (induction xs)
  case (Cons y ys)
  show ?case
  proof (cases "listed_before y x")
    case True
    then have "\<not> listed_before x y" by (auto simp: listed_before_def split: if_splits)
    then show ?thesis using Cons True by (auto simp: listed_in_order_def insert_session_set)
  next
    case False
    then show ?thesis
      using Cons.prems listed_after_trans [of y x] by (auto simp: listed_in_order_def)
  qed
qed (simp add: listed_in_order_def)

lemma sortSessions_order: "listed_in_order (sortSessions xs)"
  by (induction xs) (simp_all add: sortSessions_def insert_session_order, simp add: listed_in_order_def)

lemma scan_names_post:
  assumes "scan_names st ns s = (Inr xs, t)" "no_cut s"
  shows "set xs = {x. \<exists>sid. sid @ ''.jsonl'' \<in> set ns \<and> valid_id st sid \<and> session_view st s sid = Inr (Some x)}"
  using assms
proof (induction ns arbitrary: s xs)
  case Nil
  then show ?case by (simp add: ret_def)
next
  case (Cons n ns)
  show ?case
  proof (cases "suffix ''.jsonl'' n")
    case False
    then have "scan_names st ns s = (Inr xs, t)" using Cons.prems(1) by simp
    moreover have "sid @ ''.jsonl'' \<noteq> n" for sid using False by (auto simp: suffix_def)
    ultimately show ?thesis using Cons.IH Cons.prems(2) by auto
  next
    case True
    then obtain sid where n: "n = sid @ ''.jsonl''" by (auto simp: suffix_def)
    have run: "(case validateSessionID (unicode_table st) sid of
          Some e \<Rightarrow> raise e
        | None \<Rightarrow>
            seq (getSessionLocked st sid) (\<lambda>sess.
            seq (scan_names st ns) (\<lambda>rest.
            ret (case sess of Some x \<Rightarrow> x # rest | None \<Rightarrow> rest)))) s = (Inr xs, t)"
      using Cons.prems(1) True n by simp
    then have v: "valid_id st sid" by (auto simp: valid_id_def raise_def split: option.splits)
    from run v have "seq (getSessionLocked st sid) (\<lambda>sess.
            seq (scan_names st ns) (\<lambda>rest.
            ret (case sess of Some x \<Rightarrow> x # rest | None \<Rightarrow> rest))) s = (Inr xs, t)"
      by (simp add: valid_id_def)
    then obtain o1 s1 rest where g: "getSessionLocked st sid s = (Inr o1, s1)"
        and sc: "scan_names st ns s1 = (Inr rest, t)" and xs: "xs = (case o1 of Some x \<Rightarrow> x # rest | None \<Rightarrow> rest)"
      by (auto simp: ret_def elim!: seq_cases)
    have sv: "session_view st s sid = Inr o1" by (rule getSessionLocked_view(1) [OF g Cons.prems(2) v])
    have k: "keeps (\<lambda>_. True) s s1" by (rule frames_keeps [OF frames_getSessionLocked g])
    have same: "session_view st s1 z = session_view st s z" for z
      by (rule view_session [OF keeps_view [OF k Cons.prems(2) TrueI]])
    have IH: "set rest = {x. \<exists>z. z @ ''.jsonl'' \<in> set ns \<and> valid_id st z \<and> session_view st s z = Inr (Some x)}"
      using Cons.IH [OF sc keeps_no_cut [OF k Cons.prems(2)]] by (simp add: same)
    show ?thesis using xs IH sv v n by (cases o1) auto
  qed
qed

lemma dir_entry: "file_at s (join_path d n) = Some b \<Longrightarrow> CHR ''/'' \<notin> set n \<Longrightarrow> n \<in> set (dir_entries d s)"
  by (force simp: dir_entries_def join_path_def dest: map_of_SomeD)

lemma scanSessions_post:
  assumes "scanSessionsLocked st s = (Inr xs, t)" "no_cut s"
  shows "set xs = {x. \<exists>sid. valid_id st sid \<and> session_view st s sid = Inr (Some x)}"
proof -
  obtain s1 where s1: "sys s = (Inr (), s1)" "scan_names st (dir_entries (transcriptDir st) s1) s1 = (Inr xs, t)"
    using assms(1) unfolding scanSessionsLocked_def by (auto elim: seq_cases)
  have k: "keeps (\<lambda>_. True) s s1" and f: "files s1 = files s"
    using frames_keeps [OF frames_sys s1(1)] sys_frame [OF s1(1)] by auto
  have sv: "session_view st s1 z = session_view st s z" for z
    by (rule view_session [OF view_files [OF f]])
  have "sid @ ''.jsonl'' \<in> set (dir_entries (transcriptDir st) s1)"
    if "valid_id st sid" "session_view st s sid = Inr (Some x)" for sid x
  proof -
    have "file_at s (transcript st sid) \<noteq> None" using view_gone [of s st sid] that(2) by auto
    then obtain b where "file_at s1 (join_path (transcriptDir st) (sid @ ''.jsonl'')) = Some b"
      using f by (auto simp: transcript_def)
    then show ?thesis by (rule dir_entry) (use valid_id_plain [OF that(1)] in auto)
  qed
  then show ?thesis using scan_names_post [OF s1(2) keeps_no_cut [OF k assms(2)]] by (auto simp: sv)
qed

lemma listSessions_post:
  assumes run: "listSessions st matches s = ((xs, None), t)" and nc: "no_cut s"
  shows "set xs = {summarySession x |x. matches x \<and> (\<exists>sid. valid_id st sid \<and> session_view st s sid = Inr (Some x))}"
    and "listed_in_order xs"
proof -
  define body where "body = (\<lambda>s1.
        case scanSessionsLocked st s1 of
          (Inl e, s2) \<Rightarrow> (Inr ([], Some e), s2)
        | (Inr all, s2) \<Rightarrow>
            (let found = sortSessions (map summarySession (filter matches all)) in
             case rebuildIndexLocked st all s2 of
               (Inl e, s3) \<Rightarrow> (Inr (found, Some e), s3)
             | (Inr _, s3) \<Rightarrow> ((Inr (found, None) :: error + session list \<times> error option), s3)))"
  obtain r s4 where w: "withLock st body s = (r, s4)" by force
  have r: "r = Inr (xs, None)"
    using run w by (auto simp: listSessions_def body_def [symmetric] split: sum.splits)
  show "set xs = {summarySession x |x. matches x \<and> (\<exists>sid. valid_id st sid \<and> session_view st s sid = Inr (Some x))}"
    and "listed_in_order xs"
  proof (atomize (full), rule withLock_cases [OF w, where D = "\<lambda>_. True"], goal_cases refused held)
    case refused
    then show ?case using r by simp
  next
    case (held s1 s2)
    have sv: "session_view st s1 z = session_view st s z" for z
      by (rule view_session [OF keeps_view [OF held(1) nc TrueI]])
    obtain all s3 where sc: "scanSessionsLocked st s1 = (Inr all, s3)"
        and xs: "xs = sortSessions (map summarySession (filter matches all))"
      using held(3) r by (auto simp: body_def Let_def split: prod.splits sum.splits)
    have "set all = {x. \<exists>sid. valid_id st sid \<and> session_view st s sid = Inr (Some x)}"
      using scanSessions_post [OF sc keeps_no_cut [OF held(1) nc]] by (simp add: sv)
    then have "set xs = {summarySession x |x. matches x \<and> (\<exists>sid. valid_id st sid \<and> session_view st s sid = Inr (Some x))}"
      unfolding xs sortSessions_set by auto
    moreover have "listed_in_order xs" unfolding xs by (rule sortSessions_order)
    ultimately show ?case by blast
  qed
qed

end
