(* ===== verification/Jsonl_Session_Spec.thy ===== *)
theory Jsonl_Session_Spec
  imports Jsonl_Lifecycle
begin

text \<open>
  The properties of the JSONL store's sessions, and a concrete machine on which they apply:
  one project directory that holds one session, created by the record CreateSession writes.
\<close>

section \<open>A concrete machine\<close>

definition w_store :: store where
  "w_store = \<lparr>rootDir = ''/r'', workspace = ''/w'', projectDir = ''/r/projects/w'',
     storeDir = ''/r/projects/w/_store'', locksDir = ''/r/projects/w/_locks'',
     transcriptDir = ''/r/projects/w'', unicode_table = (\<lambda>_. False)\<rparr>"

definition w_session :: session where
  "w_session = new_session ''s1'' ''agent'' ''user'' 7"

definition w_created :: envelope where
  "w_created = \<lparr>env_version = 1, env_event_id = ''evt-0'', env_txn = [], env_type = ''session.created'',
     env_session = ''s1'', env_key = [], env_timestamp = 7, env_payload = Some (meta_json w_session)\<rparr>"

definition w_os :: "fault list \<Rightarrow> os" where
  "w_os fs = \<lparr>files = [(''/r/projects/w/s1.jsonl'', line_of w_created @ [CHR 0x0A])], symlinks = [],
     faults = fs, rnd = (\<lambda>n. Some [char_of n]), rnd_pos = 0, clk = (\<lambda>n. 8000000), clk_pos = 0\<rparr>"

definition w_message :: message where
  "w_message = \<lparr>msg_id = ''m1'', msg_role = ''user'', msg_content = ''hi'', msg_tool_calls = [], msg_created_at = 7\<rparr>"

lemma w_valid: "valid_id w_store ''s1''"
  by (simp add: valid_id_def validateSessionID_def letter_or_digit_def w_store_def)

lemma w_created_ok: "env_ok w_created"
  by (simp add: env_ok_def w_created_def schemaVersion_def int64_ok_def json_ok_meta w_session_def)

lemma w_transcript: "transcript w_store ''s1'' = ''/r/projects/w/s1.jsonl''"
  by (simp add: transcript_def join_path_def w_store_def)

lemma w_view: "view (w_os fs) (transcript w_store ''s1'') = Inr [w_created]"
  using scan_one [OF w_created_ok] by (simp add: view_def recs_def w_transcript w_os_def)

lemma w_sessions_of: "sessions_of ''s1'' [w_created] = Inr (Some w_session)"
  by (rule created_shown) (simp_all add: w_created_def w_session_def int64_ok_def)

lemma w_stored: "session_view w_store (w_os fs) ''s1'' = Inr (Some w_session)"
  by (simp add: session_view_def w_view w_sessions_of)

lemma w_look: "look w_store (w_os fs) ''s1'' = Inr (Some w_session)"
  using look_view [OF w_valid, of "w_os fs"] w_stored by (simp add: w_os_def)

lemma w_store_ok: "store_ok w_store"
  by (simp add: store_ok_def w_store_def join_path_def)

lemma w_clock: "clock_ok (w_os fs)"
  by (simp add: clock_ok_def w_os_def int64_ok_def)

lemma w_fresh: "fresh_txn w_store (w_os fs) ''s1''"
  unfolding fresh_txn_def
proof (intro allI impI)
  fix es k c
  assume "view (w_os fs) (transcript w_store ''s1'') = Inr es"
  then have "env_txn ` set es = {[]}" by (auto simp: w_view w_created_def)
  moreover obtain i u where i: "newID ''txn-'' (w_os fs\<lparr>rnd_pos := k, clk_pos := c\<rparr>) = (i, u)" by force
  ultimately show "fst (newID ''txn-'' (w_os fs\<lparr>rnd_pos := k, clk_pos := c\<rparr>)) \<notin> env_txn ` set es"
    using newID_frame [OF i] by auto
qed

lemma w_usable: "no_cut (w_os fs) \<Longrightarrow> usable w_store (w_os fs) (w_session\<lparr>sess_messages := [w_message], sess_revision := r\<rparr>)"
  by (simp add: usable_def readable_def update_input_ok_def w_store_ok w_clock w_valid w_fresh w_session_def new_session_def
      zero_session_def session_ok_def message_ok_def w_message_def int64_ok_def)
    (simp add: w_os_def)

section \<open>Properties\<close>

text \<open>
  C5: UpdateSession is atomic under every sequence of failing system calls (or wherever the process
  stops inside one), but for a read that gives part of a file and then an error (\<open>no_cut\<close>): a later
  reader finds the session as it was, or the complete new snapshot at the next revision, or an
  error; when UpdateSession returned without error the reader finds exactly the session it
  returned; and unless the transaction was begun the session is as it was. \<open>usable\<close> asks of the
  store the layout NewStore gives it and a clock and random source that repeat no transaction id
  of the transcript, of the transcript that it is no symbolic link, and of the session an id that
  passes validateSessionID, message ids of their own and values and times that JSON can carry. What
  a read that breaks off does is \<open>cut_read_hides_session\<close>.
\<close>

theorem jsonl_update_atomic:
  assumes "usable st s sess"
  shows "case UpdateSession st sess s of (r, t) \<Rightarrow>
      (\<exists>cur x. look st s (sess_id sess) = Inr (Some cur) \<and> session_step sess cur x \<and>
         (look st t (sess_id sess) = Inr (Some cur) \<or> look st t (sess_id sess) = Inr (Some x) \<or>
          isl (look st t (sess_id sess))) \<and>
         (\<forall>y. r = Inr y \<longrightarrow> y = x \<and> look st t (sess_id sess) = Inr (Some x)))
    \<or> (look st t (sess_id sess) = look st s (sess_id sess) \<and> isl r)"
proof -
  obtain r t where rt: "UpdateSession st sess s = (r, t)" by force
  then show ?thesis using update_post [OF rt assms] by (simp add: rt)
qed

lemma jsonl_update_atomic_witness:
  "usable w_store (w_os [FOk, FOk, FShort 9 ''disk full'']) (w_session\<lparr>sess_messages := [w_message], sess_revision := 1\<rparr>) \<and>
   (case UpdateSession w_store (w_session\<lparr>sess_messages := [w_message], sess_revision := 1\<rparr>)
           (w_os [FOk, FOk, FShort 9 ''disk full'']) of (r, t) \<Rightarrow>
      isl (look w_store t ''s1'') \<or> (\<exists>x. look w_store t ''s1'' = Inr (Some x)))"
proof -
  let ?s = "w_os [FOk, FOk, FShort 9 ''disk full'']" and ?x = "w_session\<lparr>sess_messages := [w_message], sess_revision := 1\<rparr>"
  have u: "usable w_store ?s ?x" by (rule w_usable) (simp add: no_cut_def w_os_def)
  have i: "sess_id ?x = ''s1''" by (simp add: w_session_def)
  show ?thesis using jsonl_update_atomic [OF u] u unfolding i w_look by auto
qed

lemma update_succeeds:
  assumes "faults s = []" "usable st s sess" "look st s (sess_id sess) = Inr (Some cur)"
    and "sess_revision sess = sess_revision cur" "sess_revision cur \<noteq> - 1" "sess_updated_at cur \<noteq> max_int64"
  shows "\<exists>x t. UpdateSession st sess s = (Inr x, t) \<and> session_step sess cur x \<and>
     look st t (sess_id sess) = Inr (Some x) \<and> sess_messages x = sess_messages sess \<and> sess_state x = sess_state sess"
proof -
  obtain r t where rt: "UpdateSession st sess s = (r, t)" by force
  then obtain x where x: "r = Inr x"
    using good_UpdateSession [OF assms] by (cases r) (auto simp: good_def)
  then have "session_step sess cur x" "look st t (sess_id sess) = Inr (Some x)"
    using update_post [OF rt assms(2)] assms(3) by auto
  moreover from this have "sess_messages x = sess_messages sess" "sess_state x = sess_state sess"
    by (metis (no_types) session_step_content)+
  ultimately show ?thesis using rt x by blast
qed

text \<open>
  C19: with no failing call, an update made from the stored revision succeeds (below the two
  overflow limits), and the reader finds the caller's content at the next revision.
\<close>

theorem jsonl_update_succeeds:
  assumes "faults s = []" "usable st s sess" "look st s (sess_id sess) = Inr (Some cur)"
    and "sess_revision sess = sess_revision cur" "sess_revision cur \<noteq> - 1" "sess_updated_at cur \<noteq> max_int64"
  shows "\<exists>x t. UpdateSession st sess s = (Inr x, t) \<and> session_step sess cur x \<and>
     look st t (sess_id sess) = Inr (Some x) \<and> sess_messages x = sess_messages sess \<and> sess_state x = sess_state sess"
  by (rule update_succeeds [OF assms])

lemma jsonl_update_succeeds_witness:
  "\<exists>x t. UpdateSession w_store (w_session\<lparr>sess_messages := [w_message], sess_revision := 1\<rparr>) (w_os []) = (Inr x, t) \<and>
     look w_store t ''s1'' = Inr (Some x) \<and> sess_messages x = [w_message]"
proof -
  let ?x = "w_session\<lparr>sess_messages := [w_message], sess_revision := 1\<rparr>"
  have "\<exists>x t. UpdateSession w_store ?x (w_os []) = (Inr x, t) \<and> session_step ?x w_session x \<and>
     look w_store t (sess_id ?x) = Inr (Some x) \<and> sess_messages x = sess_messages ?x \<and> sess_state x = sess_state ?x"
    by (rule jsonl_update_succeeds)
      (simp add: w_os_def, rule w_usable, simp_all add: no_cut_def w_os_def w_look [unfolded w_os_def] w_session_def
        new_session_def zero_session_def max_int64_def)
  then show ?thesis by (simp add: w_session_def) blast
qed

text \<open>
  A stale revision writes nothing: the call fails, every log on disk keeps its records, and
  with no failing call the error is the revision conflict.
\<close>

theorem jsonl_stale_update_writes_nothing:
  assumes "readable st s (sess_id sess)" "look st s (sess_id sess) = Inr (Some cur)" "sess_revision sess \<noteq> sess_revision cur"
  shows "case UpdateSession st sess s of (r, t) \<Rightarrow>
     isl r \<and> (\<forall>p. view t p = view s p) \<and> (faults s = [] \<longrightarrow> (\<exists>e. r = Inl e \<and> is_conflict e))"
proof -
  obtain r t where rt: "UpdateSession st sess s = (r, t)" by force
  then show ?thesis using stale_post [OF rt assms] by (simp add: rt)
qed

lemma jsonl_stale_update_writes_nothing_witness:
  "case UpdateSession w_store (w_session\<lparr>sess_messages := [w_message], sess_revision := 5\<rparr>) (w_os []) of (r, t) \<Rightarrow>
     (\<exists>e. r = Inl e \<and> is_conflict e) \<and> view t ''/r/projects/w/s1.jsonl'' = Inr [w_created]"
proof -
  let ?x = "w_session\<lparr>sess_messages := [w_message], sess_revision := 5\<rparr>"
  have u: "usable w_store (w_os []) ?x" by (rule w_usable) (simp add: no_cut_def w_os_def)
  have l: "look w_store (w_os []) (sess_id ?x) = Inr (Some w_session)" by (simp add: w_session_def w_look [unfolded w_session_def])
  have r: "sess_revision ?x \<noteq> sess_revision w_session" by (simp add: w_session_def new_session_def)
  show ?thesis
    using jsonl_stale_update_writes_nothing [OF usable_readable [OF u] l r] w_view [of "[]"] by (auto simp: w_transcript w_os_def)
qed

text \<open>
  no update is lost. Of two updates made from the same revision of a session, the second to
  run fails, and the reader finds the first one's session.
\<close>

theorem jsonl_no_lost_update:
  assumes "usable st s a" "UpdateSession st a s = (Inr x, s1)"
    and "sess_id b = sess_id a" "sess_revision b = sess_revision a"
  shows "case UpdateSession st b s1 of (r, s2) \<Rightarrow> isl r \<and> look st s2 (sess_id a) = Inr (Some x)"
proof -
  obtain r s2 where b: "UpdateSession st b s1 = (r, s2)" by force
  then show ?thesis using jsonl.no_lost_update [OF assms(1,2) b assms(3,4)] by simp
qed

lemma jsonl_no_lost_update_witness:
  "\<exists>x s1. UpdateSession w_store (w_session\<lparr>sess_messages := [w_message], sess_revision := 1\<rparr>) (w_os []) = (Inr x, s1) \<and>
     isl (fst (UpdateSession w_store w_session s1))"
proof -
  let ?a = "w_session\<lparr>sess_messages := [w_message], sess_revision := 1\<rparr>"
  have u: "usable w_store (w_os []) ?a" by (rule w_usable) (simp add: no_cut_def w_os_def)
  have ab: "sess_id w_session = sess_id ?a" "sess_revision w_session = sess_revision ?a"
    by (simp_all add: w_session_def new_session_def)
  obtain r s1 where rs: "UpdateSession w_store ?a (w_os []) = (r, s1)" by force
  have "good (UpdateSession w_store ?a) (w_os [])"
    by (rule good_UpdateSession [OF _ u, where cur = w_session])
      (simp_all add: w_os_def w_look [unfolded w_os_def] w_session_def new_session_def zero_session_def max_int64_def)
  then obtain x where x: "UpdateSession w_store ?a (w_os []) = (Inr x, s1)"
    using rs by (cases r) (auto simp: good_def)
  show ?thesis using jsonl_no_lost_update [OF u x ab] x by (auto split: prod.splits)
qed

text \<open>
  UpdateSession changes no other session, whatever fails.
\<close>

theorem jsonl_update_others:
  assumes "usable st s sess" "sid \<noteq> sess_id sess"
  shows "look st (snd (UpdateSession st sess s)) sid = look st s sid"
  using UpdateSession_others [OF _ assms] by (cases "UpdateSession st sess s") simp

lemma jsonl_update_others_witness:
  "look w_store (snd (UpdateSession w_store (w_session\<lparr>sess_messages := [w_message], sess_revision := 1\<rparr>) (w_os [FFail ''io'']))) ''s2''
     = look w_store (w_os [FFail ''io'']) ''s2''"
  by (rule jsonl_update_others) (rule w_usable, simp_all add: no_cut_def w_os_def w_session_def)

text \<open>
  CreateSession returns a new session under an id that held none, and a reader finds it;
  whatever fails, every session that existed is found as before.
\<close>

theorem jsonl_create_session:
  assumes "store_ok st" "no_cut s" "clock_ok s" "symlinks s = []"
  shows "case CreateSession st agentID userID s of (r, t) \<Rightarrow>
     (\<forall>sid cur. look st s sid = Inr (Some cur) \<longrightarrow> look st t sid = Inr (Some cur)) \<and>
     (\<forall>x. r = Inr x \<longrightarrow> look st s (sess_id x) = Inr None \<and> look st t (sess_id x) = Inr (Some x) \<and>
        sess_agent_id x = agentID \<and> sess_user_id x = userID \<and> sess_revision x = 1 \<and> sess_messages x = [])"
proof -
  obtain r t where rt: "CreateSession st agentID userID s = (r, t)" by force
  note post = CreateSession_post [OF rt assms(1-3)]
  have sym: "symlinks t = []" using CreateSession_symlinks [OF rt] assms(4) by simp
  have "look st t sid = Inr (Some cur)" if "look st s sid = Inr (Some cur)" for sid cur
    using that post(1) assms(4) sym not_empty_view
    by (auto simp: look_eq fresh_only_def valid_id_def [symmetric] transcript_not_index [OF assms(1)]
        session_view_def split: option.splits)
  moreover have "look st s (sess_id x) = Inr None \<and> look st t (sess_id x) = Inr (Some x) \<and>
      sess_agent_id x = agentID \<and> sess_user_id x = userID \<and> sess_revision x = 1 \<and> sess_messages x = []"
    if rx: "r = Inr x" for x
  proof -
    obtain now where x: "valid_id st (sess_id x)" "view s (transcript st (sess_id x)) = Inr []"
        "session_view st t (sess_id x) = Inr (Some x)" "x = new_session (sess_id x) agentID userID now"
      using post(2) [OF rx] by blast
    have "sess_agent_id x = agentID \<and> sess_user_id x = userID \<and> sess_revision x = 1 \<and> sess_messages x = []"
      by (subst (1 2 3 4) x(4)) (simp add: new_session_def zero_session_def)
    then show ?thesis
      using x(1-3) assms(4) sym by (simp add: look_view session_view_def sessions_of_def)
  qed
  ultimately show ?thesis by (simp add: rt)
qed

lemma jsonl_create_session_witness:
  "look w_store (snd (CreateSession w_store ''a'' ''u'' (w_os [FOk, FFail ''io'']))) ''s1'' = Inr (Some w_session)"
  using jsonl_create_session [OF w_store_ok, of "w_os [FOk, FFail ''io'']" "''a''" "''u''"] w_clock w_look
  by (auto simp: no_cut_def w_os_def split: prod.splits)

text \<open>
  DeleteSession. When it returns without error the session is gone for every later reader;
  whatever fails, a reader finds the session as it was, finds none, or gets an error; no other
  session changes.
\<close>

theorem jsonl_delete_session:
  assumes "readable st s sid" "clock_ok s"
  shows "case DeleteSession st sid s of (r, t) \<Rightarrow>
     (r = Inr () \<longrightarrow> look st t sid = Inr None) \<and>
     (look st t sid = look st s sid \<or> look st t sid = Inr None \<or> isl (look st t sid)) \<and>
     (\<forall>other. other \<noteq> sid \<longrightarrow> look st t other = look st s other)"
proof -
  obtain r t where rt: "DeleteSession st sid s = (r, t)" by force
  have a: "store_ok st" "no_cut s" "valid_id st sid" using assms(1) by (simp_all add: readable_def)
  let ?D = "\<lambda>p. others_than st sid p \<and> p \<noteq> transcript st sid @ ''.deleted''"
  have k: "keeps ?D s t"
    by (rule frames_keeps [OF frames_delete rt]) (simp_all add: a(3) others_than_def)
  have sym: "symlinks t = symlinks s" using k by (simp add: keeps_def)
  note post = DeleteSession_post [OF rt a(2,1,3) assms(2)]
  have l: "look st t sid = session_view st t sid" "look st s sid = session_view st s sid"
    using look_readable [OF assms(1)] sym by auto
  have "look st t other = look st s other" if "other \<noteq> sid" for other
    by (rule look_keeps [OF k a(2)]) (use transcript_others [OF a(1,3) _ that] deleted_path [of st sid other, THEN not_sym] in auto)
  then show ?thesis using post unfolding rt by (auto simp: l tombstoned_def)
qed

lemma jsonl_delete_session_witness:
  "case DeleteSession w_store ''s1'' (w_os [FOk, FOk, FOk, FOk, FFail ''io'']) of (r, t) \<Rightarrow>
     r = Inr () \<longrightarrow> look w_store t ''s1'' = Inr None"
proof -
  have "readable w_store (w_os [FOk, FOk, FOk, FOk, FFail ''io'']) ''s1''"
    by (simp add: readable_def w_store_ok w_valid no_cut_def w_os_def)
  from jsonl_delete_session [OF this w_clock] show ?thesis by auto
qed

text \<open>
  ListSessions, when it reports no error, returns the summaries of exactly the stored
  sessions of the agent, the latest updated first and equal times by id.
\<close>

theorem jsonl_list_sessions:
  assumes "no_cut s" "symlinks s = []"
  shows "case ListSessions st agentID s of ((xs, err), t) \<Rightarrow> err = None \<longrightarrow>
     set xs = {summarySession x |x. sess_agent_id x = agentID \<and> (\<exists>sid. look st s sid = Inr (Some x))} \<and>
     sorted_wrt (\<lambda>a b. \<not> listed_before b a) xs"
proof -
  obtain xs err t where l: "ListSessions st agentID s = ((xs, err), t)" by (metis prod.collapse)
  have look: "look st s sid = Inr (Some x) \<longleftrightarrow> valid_id st sid \<and> session_view st s sid = Inr (Some x)" for sid x
    using assms(2) by (auto simp: look_eq valid_id_def split: option.split)
  have "set xs = {summarySession x |x. sess_agent_id x = agentID \<and> (\<exists>sid. look st s sid = Inr (Some x))} \<and>
     sorted_wrt (\<lambda>a b. \<not> listed_before b a) xs" if "err = None"
    using listSessions_post [of st "\<lambda>x. sess_agent_id x = agentID" s xs t] l that assms(1)
    unfolding ListSessions_def look listed_in_order_def by auto
  then show ?thesis by (simp add: l)
qed

lemma jsonl_list_sessions_witness:
  "case ListSessions w_store ''agent'' (w_os []) of ((xs, err), t) \<Rightarrow> err = None \<longrightarrow> summarySession w_session \<in> set xs"
proof -
  have "sess_agent_id w_session = ''agent''" by (simp add: w_session_def new_session_def)
  moreover have "\<exists>sid. look w_store (w_os []) sid = Inr (Some w_session)" using w_look by blast
  ultimately show ?thesis
    using jsonl_list_sessions [where s = "w_os []" and st = w_store and agentID = "''agent''"] by (auto simp: no_cut_def w_os_def split: prod.splits)
qed

text \<open>
  replay never shows an open transaction. Message events under a transaction id that was
  not committed leave the session as the records before them give it, however many there are.
\<close>

theorem replay_ignores_uncommitted:
  assumes "replaySession sid es = Inr (cur, False)" "\<forall>e \<in> set evs. txn_event sid x e"
    and "x \<noteq> []" "x \<notin> env_txn ` set es"
  shows "replaySession sid (es @ evs) = Inr (cur, False)"
proof -
  have ne: "es \<noteq> []"
    using assms(1) by (auto simp: replaySession_def replay_init_def)
  then have "sessions_of sid es = Inr (Some cur)" using assms(1) by (simp add: sessions_of_def)
  from open_txn_hidden [OF this assms(2-4)] have "sessions_of sid (es @ evs) = Inr (Some cur)" .
  then show ?thesis using ne by (auto simp: sessions_of_def split: sum.splits if_splits)
qed

lemma replay_ignores_uncommitted_witness:
  "replaySession ''s1'' ([w_created] @ [w_created\<lparr>env_txn := ''txn-1'', env_type := ''messages.replaced'',
     env_payload := Some (messages_json [w_message])\<rparr>]) = Inr (w_session, False)"
proof -
  have "replaySession ''s1'' [w_created] = Inr (w_session, False)"
    using w_sessions_of by (auto simp: sessions_of_def split: sum.splits if_splits)
  then show ?thesis
    by (rule replay_ignores_uncommitted [where x = "''txn-1''"]) (simp_all add: txn_event_def w_created_def)
qed

text \<open>
  A session id that passes validateSessionID names a file directly in the transcript
  directory: it is no directory name, holds no separator and has at most 256 bytes.
\<close>

theorem validated_id_is_a_plain_name:
  assumes "validateSessionID uni sid = None"
  shows "sid \<notin> {[], ''.'', ''..''} \<and> CHR ''/'' \<notin> set sid \<and> CHR 0x5C \<notin> set sid \<and> length sid \<le> 256 \<and>
     (\<forall>r \<in> set (runes sid). letter_or_digit uni (fst r) \<or> fst r \<in> {45, 46, 95})"
  using assms by (auto simp: validateSessionID_def list_all_iff split: if_splits)

lemma validated_id_is_a_plain_name_witness:
  "validateSessionID (\<lambda>_. False) ''ses-0a'' = None \<and> CHR ''/'' \<notin> set ''ses-0a''"
proof -
  have v: "validateSessionID (\<lambda>_. False) ''ses-0a'' = None"
    by (simp add: validateSessionID_def letter_or_digit_def)
  show ?thesis using validated_id_is_a_plain_name [OF v] v by blast
qed

end
