(* ===== verification/Jsonl_Domains.thy ===== *)
theory Jsonl_Domains
  imports Jsonl_Contract
begin

text \<open>
  storage/metadata/jsonl/domains.go: tools, skills, MCP servers and scoped memory, each one log
  of put and delete records whose last record for a key wins. \<open>live_records\<close> is that
  reading; a list in the order of a Go map comes in the order of its keys here, which the code
  does not promise. A pointer argument the operation fills in is returned.
\<close>

section \<open>Bytes in JSON\<close>

text \<open>A byte slice is its standard base64 text.\<close>

definition b64_char :: "nat \<Rightarrow> char" where
  "b64_char n =
     (if n < 26 then char_of (65 + n) else if n < 52 then char_of (71 + n)
      else if n < 62 then char_of (n - 4) else if n = 62 then CHR ''+'' else CHR ''/'')"

definition b64_val :: "char \<Rightarrow> nat option" where
  "b64_val c = (let n = of_char c :: nat in
     if 65 \<le> n \<and> n \<le> 90 then Some (n - 65) else if 97 \<le> n \<and> n \<le> 122 then Some (n - 71)
     else if 48 \<le> n \<and> n \<le> 57 then Some (n + 4) else if n = 43 then Some 62 else if n = 47 then Some 63 else None)"

fun b64_encode :: "nat list \<Rightarrow> string" where
  "b64_encode [] = []"
| "b64_encode [a] = [b64_char (a div 4), b64_char (a mod 4 * 16), CHR ''='', CHR ''='']"
| "b64_encode [a, b] =
     [b64_char (a div 4), b64_char (a mod 4 * 16 + b div 16), b64_char (b mod 16 * 4), CHR ''='']"
| "b64_encode (a # b # c # r) =
     [b64_char (a div 4), b64_char (a mod 4 * 16 + b div 16), b64_char (b mod 16 * 4 + c div 64),
      b64_char (c mod 64)] @ b64_encode r"

fun b64_decode :: "string \<Rightarrow> nat list option" where
  "b64_decode [] = Some []"
| "b64_decode (p # q # r # s # rest) =
     do {
       w \<leftarrow> b64_val p;
       x \<leftarrow> b64_val q;
       if r = CHR ''='' then (if s = CHR ''='' \<and> rest = [] then Some [w * 4 + x div 16] else None)
       else do {
         y \<leftarrow> b64_val r;
         if s = CHR ''='' then (if rest = [] then Some [w * 4 + x div 16, x mod 16 * 16 + y div 4] else None)
         else do {
           z \<leftarrow> b64_val s;
           bs \<leftarrow> b64_decode rest;
           Some ((w * 4 + x div 16) # (x mod 16 * 16 + y div 4) # (y mod 4 * 64 + z) # bs)
         }
       }
     }"
| "b64_decode _ = None"

definition bytes_json :: "string \<Rightarrow> json" where
  "bytes_json b = JStr (b64_encode (map of_char b))"

definition dec_bytes :: "json option \<Rightarrow> string option" where
  "dec_bytes j = do {
     t \<leftarrow> dec_string j;
     ns \<leftarrow> b64_decode (filter (\<lambda>c. c \<noteq> CHR 0x0D \<and> c \<noteq> CHR 0x0A) t);
     Some (map char_of ns) }"

definition memory_json :: "string \<Rightarrow> json" where
  "memory_json v = JObj [(''value'', bytes_json v)]"

definition dec_memory :: "json \<Rightarrow> string option" where
  "dec_memory = dec_struct (\<lambda>kvs. dec_bytes (jmember ''value'' kvs))"

section \<open>One domain\<close>

definition domainPath :: "store \<Rightarrow> string \<Rightarrow> string" where
  "domainPath st name = join_path (storeDir st) (name @ ''.jsonl'')"

definition map_del :: "string \<Rightarrow> (string \<times> 'a) list \<Rightarrow> (string \<times> 'a) list" where
  "map_del k kvs = filter (\<lambda>kv. fst kv \<noteq> k) kvs"

text \<open>The loop over the records that readLatest and maybeCompactDomainLocked both have.\<close>

fun live_records :: "string \<Rightarrow> envelope list \<Rightarrow> (string \<times> envelope) list \<Rightarrow> error + (string \<times> envelope) list" where
  "live_records path [] live = Inr live"
| "live_records path (e # es) live =
     (if env_type e = ''put'' then
        (if env_payload e = None then
           Inl (ErrMsg (''jsonl: mutable put record '' @ env_event_id e @ '' has no payload in '' @ path))
         else live_records path es (map_put (env_key e) e live))
      else if env_type e = ''delete'' then live_records path es (map_del (env_key e) live)
      else Inl (ErrMsg (''jsonl: unknown mutable event type '' @ quote (env_type e) @ '' in '' @ path)))"

definition payloads :: "(string \<times> envelope) list \<Rightarrow> (string \<times> json) list" where
  "payloads live = map (\<lambda>(k, e). (k, the (env_payload e))) live"

definition readLatest :: "string \<Rightarrow> (string \<times> json) list io" where
  "readLatest path =
     seq (readEnvelopes path) (\<lambda>records.
     seq (lift_result (live_records path records [])) (\<lambda>live. ret (payloads live)))"

text \<open>Stat: a file that does not exist ends the compaction without an error.\<close>

definition stat_size :: "string \<Rightarrow> nat option io" where
  "stat_size p = seq sys (\<lambda>_ s. (Inr (map_option length (file_at s p)), s))"

definition maybeCompactDomainLocked :: "store \<Rightarrow> string \<Rightarrow> unit io" where
  "maybeCompactDomainLocked st name =
     (let path = domainPath st name in
      seq (stat_size path) (\<lambda>size.
      case size of
        None \<Rightarrow> ret ()
      | Some n \<Rightarrow>
          if n \<le> mutableCompactionBytes then ret ()
          else
            seq (readEnvelopes path) (\<lambda>records.
            seq (lift_result (live_records path records [])) (\<lambda>live.
            if (length records - length live) * 2 < length records then ret ()
            else rewriteEnvelopes (storeDir st) (name @ ''.jsonl'') (map snd live)))))"

definition appendDomainLocked :: "store \<Rightarrow> string \<Rightarrow> string \<Rightarrow> json \<Rightarrow> unit io" where
  "appendDomainLocked st name key value =
     seq (newEnvelope ''put'' [] key value) (\<lambda>e.
     seq (appendEnvelope (domainPath st name) e) (\<lambda>_.
     maybeCompactDomainLocked st name))"

definition deleteDomainLocked :: "store \<Rightarrow> string \<Rightarrow> string \<Rightarrow> unit io" where
  "deleteDomainLocked st name key =
     seq (newEnvelope ''delete'' [] key (JObj [(''key'', JStr key)])) (\<lambda>e.
     seq (appendEnvelope (domainPath st name) e) (\<lambda>_.
     maybeCompactDomainLocked st name))"

definition deleteDomain :: "store \<Rightarrow> string \<Rightarrow> string \<Rightarrow> unit io" where
  "deleteDomain st name key = withLock st (
     seq (wrapping (''jsonl: read '' @ name) (readLatest (domainPath st name))) (\<lambda>live.
     if map_of live key = None then ret ()
     else wrapping (''jsonl: delete '' @ name @ '' '' @ quote key) (deleteDomainLocked st name key)))"

text \<open>Looking a key up and decoding what is there; decoding every live value in turn.\<close>

definition get_decoded :: "(json \<Rightarrow> 'a option) \<Rightarrow> string \<Rightarrow> (string \<times> json) list \<Rightarrow> string \<Rightarrow> error + 'a option" where
  "get_decoded dec what live key =
     (case map_of live key of
        None \<Rightarrow> Inr None
      | Some raw \<Rightarrow>
          (case decode_payload dec (Some raw) of
             Inl e \<Rightarrow> Inl (wrapf (''jsonl: decode '' @ what @ '' '' @ quote key) e)
           | Inr x \<Rightarrow> Inr (Some x)))"

fun decode_all :: "(json \<Rightarrow> 'a option) \<Rightarrow> string \<Rightarrow> (string \<times> json) list \<Rightarrow> error + 'a list" where
  "decode_all dec what [] = Inr []"
| "decode_all dec what ((k, raw) # live) =
     (case decode_payload dec (Some raw) of
        Inl e \<Rightarrow> Inl (wrapf (''jsonl: decode '' @ what) e)
      | Inr x \<Rightarrow> (case decode_all dec what live of Inl e \<Rightarrow> Inl e | Inr xs \<Rightarrow> Inr (x # xs)))"

definition read_domain :: "store \<Rightarrow> string \<Rightarrow> string \<Rightarrow> (string \<times> json) list io" where
  "read_domain st name what = wrapping (''jsonl: read '' @ what) (readLatest (domainPath st name))"

section \<open>Tools\<close>

definition name_tool :: "tool_def \<Rightarrow> (string \<times> json) list \<Rightarrow> tool_def io" where
  "name_tool td live =
     (case map_of live (td_name td) of
        Some raw \<Rightarrow>
          (case decode_payload dec_tool_def (Some raw) of
             Inl e \<Rightarrow> raise (wrapf (''jsonl: decode tool '' @ quote (td_name td)) e)
           | Inr old \<Rightarrow> ret (td\<lparr>td_id := td_id old, td_created_at := td_created_at old\<rparr>))
      | None \<Rightarrow> (\<lambda>s.
          case (if td_id td = [] then newID ''tool-'' s else (td_id td, s)) of (i, s1) \<Rightarrow>
            (case (if td_created_at td = 0 then now_milli s1 else (td_created_at td, s1)) of (c, s2) \<Rightarrow>
               (Inr (td\<lparr>td_id := i, td_created_at := c\<rparr>), s2))))"

definition SaveTool :: "store \<Rightarrow> tool_def \<Rightarrow> tool_def io" where
  "SaveTool st td = withLock st (
     seq (read_domain st ''tools'' ''tools'') (\<lambda>live.
     seq (name_tool td live) (\<lambda>td'.
     seq (wrapping (''jsonl: save tool '' @ quote (td_name td'))
            (appendDomainLocked st ''tools'' (td_name td') (enc_tool_def td'))) (\<lambda>_.
     ret td'))))"

definition GetTool :: "store \<Rightarrow> string \<Rightarrow> tool_def option io" where
  "GetTool st name = withLock st (
     seq (read_domain st ''tools'' ''tools'') (\<lambda>live.
     lift_result (get_decoded dec_tool_def ''tool'' live name)))"

definition ListTools :: "store \<Rightarrow> string \<Rightarrow> tool_def list io" where
  "ListTools st agentID = withLock st (
     seq (read_domain st ''tools'' ''tools'') (\<lambda>live.
     seq (lift_result (decode_all dec_tool_def ''tool'' live)) (\<lambda>tds.
     ret (filter (\<lambda>td. td_agent_id td = agentID) tds))))"

definition DeleteTool :: "store \<Rightarrow> string \<Rightarrow> unit io" where
  "DeleteTool st name = deleteDomain st ''tools'' name"

section \<open>Skills\<close>

definition SaveSkill :: "store \<Rightarrow> skill_def \<Rightarrow> unit io" where
  "SaveSkill st d = withLock st (
     wrapping (''jsonl: save skill '' @ quote (sd_name d))
       (appendDomainLocked st ''skills'' (sd_name d) (enc_skill_def d)))"

definition GetSkill :: "store \<Rightarrow> string \<Rightarrow> skill_def option io" where
  "GetSkill st name = withLock st (
     seq (read_domain st ''skills'' ''skills'') (\<lambda>live.
     lift_result (get_decoded dec_skill_def ''skill'' live name)))"

definition skill_entry_of :: "skill_def \<Rightarrow> skill_entry" where
  "skill_entry_of d = \<lparr>se_name = sd_name d, se_description = sd_description d, se_version = sd_version d,
     se_enabled = sd_enabled d\<rparr>"

definition ListSkills :: "store \<Rightarrow> skill_entry list io" where
  "ListSkills st = withLock st (
     seq (read_domain st ''skills'' ''skills'') (\<lambda>live.
     seq (lift_result (decode_all dec_skill_def ''skill'' live)) (\<lambda>ds.
     ret (map skill_entry_of ds))))"

definition DeleteSkill :: "store \<Rightarrow> string \<Rightarrow> unit io" where
  "DeleteSkill st name = deleteDomain st ''skills'' name"

section \<open>Memory\<close>

definition SetMemory :: "store \<Rightarrow> memory_scope \<Rightarrow> string \<Rightarrow> string \<Rightarrow> string \<Rightarrow> unit io" where
  "SetMemory st scope scopeID key value = withLock st (
     wrapping (''jsonl: set memory '' @ quote (ScopedKey scope scopeID key))
       (appendDomainLocked st ''memory'' (ScopedKey scope scopeID key) (memory_json value)))"

definition GetMemory :: "store \<Rightarrow> memory_scope \<Rightarrow> string \<Rightarrow> string \<Rightarrow> string option io" where
  "GetMemory st scope scopeID key = withLock st (
     seq (read_domain st ''memory'' ''memory'') (\<lambda>live.
     lift_result (get_decoded dec_memory ''memory'' live (ScopedKey scope scopeID key))))"

definition DeleteMemory :: "store \<Rightarrow> memory_scope \<Rightarrow> string \<Rightarrow> string \<Rightarrow> unit io" where
  "DeleteMemory st scope scopeID key = deleteDomain st ''memory'' (ScopedKey scope scopeID key)"

definition ListMemory :: "store \<Rightarrow> memory_scope \<Rightarrow> string \<Rightarrow> string \<Rightarrow> string list io" where
  "ListMemory st scope scopeID pre = withLock st (
     seq (read_domain st ''memory'' ''memory'') (\<lambda>live.
     ret (sort (filter (\<lambda>k. prefix (ScopedKey scope scopeID pre) k) (map fst live)))))"

text \<open>The flat keys of old: the global scope with an empty scope id.\<close>

definition Set_kv :: "store \<Rightarrow> string \<Rightarrow> string \<Rightarrow> unit io" where
  "Set_kv st key value = SetMemory st ScopeGlobal [] key value"

definition Get_kv :: "store \<Rightarrow> string \<Rightarrow> string option io" where
  "Get_kv st key = GetMemory st ScopeGlobal [] key"

definition Delete_kv :: "store \<Rightarrow> string \<Rightarrow> unit io" where
  "Delete_kv st key = DeleteMemory st ScopeGlobal [] key"

definition List_kv :: "store \<Rightarrow> string \<Rightarrow> string list io" where
  "List_kv st pre = ListMemory st ScopeGlobal [] pre"

section \<open>MCP servers\<close>

definition http_default :: "mcp_server_def \<Rightarrow> mcp_server_def" where
  "http_default m = (if ms_transport m = [] then m\<lparr>ms_transport := ''http''\<rparr> else m)"

definition name_server :: "mcp_server_def \<Rightarrow> (string \<times> json) list \<Rightarrow> mcp_server_def io" where
  "name_server m live =
     (case map_of live (ms_name m) of
        Some raw \<Rightarrow>
          (case decode_payload dec_mcp_server_def (Some raw) of
             Inl e \<Rightarrow> raise (wrapf (''jsonl: decode MCP server '' @ quote (ms_name m)) e)
           | Inr old \<Rightarrow> ret (m\<lparr>ms_id := ms_id old, ms_created_at := ms_created_at old\<rparr>))
      | None \<Rightarrow> (\<lambda>s.
          case (if ms_id m = [] then newID ''mcp-'' s else (ms_id m, s)) of (i, s1) \<Rightarrow>
            (case (if ms_created_at m = 0 then now_milli s1 else (ms_created_at m, s1)) of (c, s2) \<Rightarrow>
               (Inr (m\<lparr>ms_id := i, ms_created_at := c\<rparr>), s2))))"

definition SaveMCPServer :: "store \<Rightarrow> mcp_server_def \<Rightarrow> mcp_server_def io" where
  "SaveMCPServer st m = withLock st (
     seq (read_domain st ''mcp-servers'' ''MCP servers'') (\<lambda>live.
     seq (name_server m live) (\<lambda>named.
     let m' = http_default named in
     seq (wrapping (''jsonl: save MCP server '' @ quote (ms_name m'))
            (appendDomainLocked st ''mcp-servers'' (ms_name m') (enc_mcp_server_def m'))) (\<lambda>_.
     ret m'))))"

definition GetMCPServer :: "store \<Rightarrow> string \<Rightarrow> mcp_server_def option io" where
  "GetMCPServer st name = withLock st (
     seq (read_domain st ''mcp-servers'' ''MCP servers'') (\<lambda>live.
     seq (lift_result (get_decoded dec_mcp_server_def ''MCP server'' live name)) (\<lambda>m.
     ret (map_option http_default m))))"

definition ListMCPServers :: "store \<Rightarrow> string \<Rightarrow> mcp_server_def list io" where
  "ListMCPServers st agentID = withLock st (
     seq (read_domain st ''mcp-servers'' ''MCP servers'') (\<lambda>live.
     seq (lift_result (decode_all dec_mcp_server_def ''MCP server'' live)) (\<lambda>ms.
     ret (map http_default (filter (\<lambda>m. ms_agent_id m = agentID) ms)))))"

definition DeleteMCPServer :: "store \<Rightarrow> string \<Rightarrow> unit io" where
  "DeleteMCPServer st name = deleteDomain st ''mcp-servers'' name"

end
