(* ===== verification/Jsonl_Domain_Spec.thy ===== *)
theory Jsonl_Domain_Spec
  imports Jsonl_Domains Jsonl_Session_Spec
begin

text \<open>
  The domains of the JSONL store as maps: a put or delete that returned without error is what
  every later reader finds, a failed one shows the old map or the new, compaction never changes
  the map. Memory is an instance of the key-value contract \<open>kv_store\<close>; its hypothesis that the
  log ends in a complete line is one SetMemory does not check, with the consequence of
  \<open>memory_lost_after_torn_write\<close>.
\<close>

section \<open>The bytes of a value\<close>

lemma b64_val_char: "n < 64 \<Longrightarrow> b64_val (b64_char n) = Some n"
  by (auto simp: b64_char_def b64_val_def Let_def)

lemma b64_char_neq: "n < 64 \<Longrightarrow> b64_char n \<noteq> CHR ''=''" "n < 64 \<Longrightarrow> b64_char n \<noteq> CHR 0x0D"
  "n < 64 \<Longrightarrow> b64_char n \<noteq> CHR 0x0A"
proof -
  assume n: "n < 64"
  have "b64_val (CHR ''='') = None" "b64_val (CHR 0x0D) = None" "b64_val (CHR 0x0A) = None"
    by (simp_all add: b64_val_def)
  then show "b64_char n \<noteq> CHR ''=''" "b64_char n \<noteq> CHR 0x0D" "b64_char n \<noteq> CHR 0x0A"
    using b64_val_char [OF n] by auto
qed

lemma b64_split:
  fixes a :: nat
  assumes "a < 256" "b < 256" "c < 256"
  shows "a div 4 < 64" "a mod 4 * 16 + b div 16 < 64" "b mod 16 * 4 + c div 64 < 64" "c mod 64 < 64"
    "a div 4 * 4 + (a mod 4 * 16 + b div 16) div 16 = a"
    "(a mod 4 * 16 + b div 16) mod 16 * 16 + (b mod 16 * 4 + c div 64) div 4 = b"
    "(b mod 16 * 4 + c div 64) mod 4 * 64 + c mod 64 = c"
proof -
  have s: "b div 16 < 16" "b mod 16 < 16" "c div 64 < 4" "a mod 4 < 4" "a div 4 < 64" "c mod 64 < 64"
    using assms by (simp_all add: div_less_iff_less_mult)
  show "a div 4 < 64" "c mod 64 < 64" by (fact s)+
  show "a mod 4 * 16 + b div 16 < 64" "b mod 16 * 4 + c div 64 < 64" using s by linarith+
  show "a div 4 * 4 + (a mod 4 * 16 + b div 16) div 16 = a" using s by simp
  show "(a mod 4 * 16 + b div 16) mod 16 * 16 + (b mod 16 * 4 + c div 64) div 4 = b" using s by simp
  show "(b mod 16 * 4 + c div 64) mod 4 * 64 + c mod 64 = c" using s by simp
qed

lemma b64_cases:
  assumes "\<forall>a \<in> set bs. a < (256::nat)"
  obtains (nil) "bs = []"
  | (one) a w x where "bs = [a]" "b64_encode bs = [b64_char w, b64_char x, CHR ''='', CHR ''='']"
      "w < 64" "x < 64" "w * 4 + x div 16 = a"
  | (two) a b w x y where "bs = [a, b]" "b64_encode bs = [b64_char w, b64_char x, b64_char y, CHR ''='']"
      "w < 64" "x < 64" "y < 64" "w * 4 + x div 16 = a" "x mod 16 * 16 + y div 4 = b"
  | (more) a b c r w x y z where "bs = a # b # c # r"
      "b64_encode bs = [b64_char w, b64_char x, b64_char y, b64_char z] @ b64_encode r"
      "w < 64" "x < 64" "y < 64" "z < 64" "w * 4 + x div 16 = a" "x mod 16 * 16 + y div 4 = b" "y mod 4 * 64 + z = c"
proof (cases bs rule: b64_encode.cases)
  case (2 a)
  then have "a < 256" using assms by simp
  note f = b64_split [OF this, of 0 0, simplified]
  show ?thesis by (rule one [of a "a div 4" "a mod 4 * 16"]) (simp_all add: 2 f)
next
  case (3 a b)
  then have "a < 256" "b < 256" using assms by simp_all
  note f = b64_split [OF this zero_less_numeral, unfolded div_0 add_0_right]
  show ?thesis
    by (rule two [of a b "a div 4" "a mod 4 * 16 + b div 16" "b mod 16 * 4"])
      (rule 3, simp only: 3 b64_encode.simps, (rule f)+)
next
  case (4 a b c r)
  then have "a < 256" "b < 256" "c < 256" using assms by simp_all
  note f = b64_split [OF this]
  show ?thesis
    by (rule more [of a b c r "a div 4" "a mod 4 * 16 + b div 16" "b mod 16 * 4 + c div 64" "c mod 64"])
      (rule 4 f, simp only: 4 b64_encode.simps, (rule f)+)
qed (rule nil)

lemma b64_round_trip: "\<forall>a \<in> set bs. a < 256 \<Longrightarrow> b64_decode (b64_encode bs) = Some bs"
proof (induction bs rule: length_induct)
  case (1 bs)
  from 1(2) show ?case
  proof (cases rule: b64_cases)
    case (more a b c r w x y z)
    then have "b64_decode (b64_encode r) = Some r" using 1 by simp
    then show ?thesis using more by (simp add: b64_val_char b64_char_neq)
  qed (simp_all add: b64_val_char b64_char_neq)
qed

lemma b64_no_newline: "\<forall>a \<in> set bs. a < 256 \<Longrightarrow> filter (\<lambda>c. c \<noteq> CHR 0x0D \<and> c \<noteq> CHR 0x0A) (b64_encode bs) = b64_encode bs"
proof (induction bs rule: length_induct)
  case (1 bs)
  from 1(2) show ?case
  proof (cases rule: b64_cases)
    case (more a b c r w x y z)
    then have "filter (\<lambda>c. c \<noteq> CHR 0x0D \<and> c \<noteq> CHR 0x0A) (b64_encode r) = b64_encode r" using 1 by simp
    then show ?thesis using more by (simp add: b64_char_neq)
  qed (simp_all add: b64_char_neq)
qed

lemma dec_memory_json: "dec_memory (memory_json v) = Some v"
proof -
  have "\<forall>a \<in> set (map of_char v). (a::nat) < 256" by simp
  then show ?thesis
    by (simp add: dec_memory_def memory_json_def dec_struct_def dec_bytes_def bytes_json_def
        b64_round_trip b64_no_newline comp_def)
qed

section \<open>The live map\<close>

lemma map_of_map_del: "map_of (map_del k kvs) = (map_of kvs)(k := None)"
proof
  fix q
  show "map_of (map_del k kvs) q = ((map_of kvs)(k := None)) q"
    by (induction kvs) (auto simp: map_del_def)
qed

lemma sorted_keys_map_del: "sorted_keys kvs \<Longrightarrow> sorted_keys (map_del k kvs)"
  by (induction kvs) (auto simp: map_del_def)

lemma payloads_put: "payloads (map_put k e l) = map_put k (the (env_payload e)) (payloads l)"
  by (induction k e l rule: map_put.induct) (auto simp: payloads_def)

lemma payloads_del: "payloads (map_del k l) = map_del k (payloads l)"
  by (induction l) (auto simp: payloads_def map_del_def)

lemma live_records_append:
  "live_records p (xs @ ys) acc =
     (case live_records p xs acc of Inl e \<Rightarrow> Inl e | Inr l \<Rightarrow> live_records p ys l)"
  by (induction xs arbitrary: acc) auto

definition live_ok :: "(string \<times> envelope) list \<Rightarrow> bool" where
  "live_ok l \<longleftrightarrow> sorted_keys l \<and> (\<forall>(k, e) \<in> set l. env_type e = ''put'' \<and> env_payload e \<noteq> None \<and> env_key e = k)"

lemma live_records_ok:
  "live_records p es acc = Inr l \<Longrightarrow> live_ok acc \<Longrightarrow> (\<forall>(k, e) \<in> set acc. P e) \<Longrightarrow> (\<forall>e \<in> set es. P e) \<Longrightarrow>
     live_ok l \<and> (\<forall>(k, e) \<in> set l. P e)"
proof (induction es arbitrary: acc)
  case (Cons e es)
  show ?case
  proof (cases "env_type e = ''put''")
    case True
    then have r: "env_payload e \<noteq> None" "live_records p es (map_put (env_key e) e acc) = Inr l"
      using Cons.prems(1) by (auto split: if_splits)
    have "live_ok (map_put (env_key e) e acc)"
      using Cons.prems(2) True r(1) by (auto simp: live_ok_def sorted_keys_map_put dest!: map_put_mem)
    moreover have "\<forall>(k, x) \<in> set (map_put (env_key e) e acc). P x"
      using Cons.prems(3,4) by (auto dest!: map_put_mem)
    ultimately show ?thesis using Cons.IH [OF r(2)] Cons.prems(4) by simp
  next
    case False
    then have r: "live_records p es (map_del (env_key e) acc) = Inr l"
      using Cons.prems(1) by (auto split: if_splits)
    have "live_ok (map_del (env_key e) acc)"
      using Cons.prems(2) by (auto simp: live_ok_def sorted_keys_map_del) (auto simp: map_del_def)
    moreover have "\<forall>(k, x) \<in> set (map_del (env_key e) acc). P x"
      using Cons.prems(3) by (auto simp: map_del_def)
    ultimately show ?thesis using Cons.IH [OF r] Cons.prems(4) by simp
  qed
qed simp

text \<open>The live records of a log, written as a log of their own, have the same live records.\<close>

lemma live_again: "live_ok l \<Longrightarrow> (\<forall>k \<in> set (map fst acc). \<forall>k' \<in> set (map fst l). k < k') \<Longrightarrow>
    live_records p (map snd l) acc = Inr (acc @ l)"
proof (induction l arbitrary: acc)
  case (Cons ke l)
  obtain k e where ke: "ke = (k, e)" by force
  have h: "env_type e = ''put''" "env_payload e \<noteq> None" "env_key e = k" "live_ok l"
    using Cons.prems(1) ke by (auto simp: live_ok_def)
  have "map_put k e acc = acc @ [(k, e)]"
    using Cons.prems(2) ke by (intro map_put_last) auto
  moreover have "\<forall>q \<in> set (map fst (acc @ [(k, e)])). \<forall>k' \<in> set (map fst l). q < k'"
    using Cons.prems ke by (auto simp: live_ok_def)
  ultimately show ?case using Cons.IH [of "acc @ [(k, e)]"] h ke by simp
qed simp

section \<open>A domain log on disk\<close>

text \<open>A log that reads without error and ends in a complete line, and what is live in it.\<close>

definition domain_ready :: "os \<Rightarrow> string \<Rightarrow> (string \<times> envelope) list \<Rightarrow> bool" where
  "domain_ready s p l \<longleftrightarrow> (\<exists>es. ready s p es \<and> live_records p es [] = Inr l)"

definition domain_view :: "os \<Rightarrow> string \<Rightarrow> error + (string \<times> json) list" where
  "domain_view s p =
     (case view s p of Inl e \<Rightarrow> Inl e
      | Inr es \<Rightarrow> (case live_records p es [] of Inl e \<Rightarrow> Inl e | Inr l \<Rightarrow> Inr (payloads l)))"

lemma domain_ready_view: "domain_ready s p l \<Longrightarrow> domain_view s p = Inr (payloads l)"
  by (auto simp: domain_ready_def domain_view_def dest: ready_view)

lemma domain_view_at: "view t p = view s p \<Longrightarrow> domain_view t p = domain_view s p"
  by (simp add: domain_view_def)

lemma readLatest_quiet: "faults s = [] \<Longrightarrow> fst (readLatest p s) = domain_view s p"
  using readEnvelopes_quiet [of s p]
  by (auto simp: readLatest_def seq_def lift_result_def ret_def domain_view_def split: prod.split sum.split)

lemma frames_readLatest [frame_rules]: "frames D (readLatest p)"
  unfolding readLatest_def by (intro frame_rules)

lemma frames_read_domain [frame_rules]: "frames D (read_domain st n w)"
  unfolding read_domain_def by (intro frame_rules)

lemma readLatest_ready:
  assumes "readLatest p s = (Inr m, t)" "no_cut s"
  shows "\<exists>l. domain_ready t p l \<and> m = payloads l \<and> domain_view s p = Inr m"
proof -
  obtain es s1 l where r: "readEnvelopes p s = (Inr es, s1)" "live_records p es [] = Inr l" "t = s1" "m = payloads l"
    using assms(1) by (auto simp: readLatest_def lift_result_def ret_def elim!: seq_cases)
  show ?thesis
    using readEnvelopes_view(2) [OF r(1) assms(2) refl] r
    by (auto simp: domain_ready_def domain_view_def)
qed

text \<open>The path of a domain is not one of the temporary files compaction makes.\<close>

definition domain_name :: "string \<Rightarrow> bool" where
  "domain_name n \<longleftrightarrow> n \<in> {''tools'', ''skills'', ''memory'', ''mcp-servers''}"

lemma domain_not_temp: "domain_name n \<Longrightarrow> \<not> temp_path (storeDir st) (domainPath st n)"
  by (auto simp: domain_name_def temp_path_def domainPath_def join_path_def)

lemma compact_post:
  assumes run: "maybeCompactDomainLocked st n s = (r, t)" and nc: "no_cut s"
    and rd: "domain_ready s (domainPath st n) l" and n: "domain_name n"
  shows "domain_view t (domainPath st n) = Inr (payloads l)" "r = Inr () \<Longrightarrow> domain_ready t (domainPath st n) l"
proof -
  let ?p = "domainPath st n" and ?D = "\<lambda>_::string. True"
  have "domain_view t ?p = Inr (payloads l) \<and> (r = Inr () \<longrightarrow> domain_ready t ?p l)"
    using run unfolding maybeCompactDomainLocked_def Let_def
  proof (cases rule: seq_cases)
    case (err e)
    then have "files t = files s" by (auto simp: stat_size_def elim!: seq_cases dest!: sys_frame)
    then have "domain_view t ?p = domain_view s ?p" by (intro domain_view_at view_files)
    then show ?thesis using err domain_ready_view [OF rd] by simp
  next
    case (ok size s1)
    have f1: "files s1 = files s" and k1: "keeps ?D s s1"
      using ok(1) by (auto simp: stat_size_def elim!: seq_cases dest!: sys_frame intro: keeps_same_files)
    have rd1: "domain_ready s1 ?p l" using rd f1 by (auto simp: domain_ready_def intro: ready_files)
    have nc1: "no_cut s1" by (rule keeps_no_cut [OF k1 nc])
    have same: "domain_view t ?p = Inr (payloads l) \<and> (r = Inr () \<longrightarrow> domain_ready t ?p l)" if "t = s1"
      using that rd1 domain_ready_view by simp
    show ?thesis
    proof (cases "size = None \<or> the size \<le> mutableCompactionBytes")
      case True
      then show ?thesis using ok(2) same by (auto simp: ret_def split: option.splits)
    next
      case False
      have run1: "seq (readEnvelopes ?p) (\<lambda>records.
            seq (lift_result (live_records ?p records [])) (\<lambda>live.
            if (length records - length live) * 2 < length records then ret ()
            else rewriteEnvelopes (storeDir st) (n @ ''.jsonl'') (map snd live))) s1 = (r, t)"
        using ok(2) False by (cases size) simp_all
      then show ?thesis
      proof (cases rule: seq_cases)
        case (err e)
        have "domain_view t ?p = domain_view s1 ?p"
          by (rule domain_view_at [OF readEnvelopes_view(1) [OF err(1) nc1]])
        then show ?thesis using err domain_ready_view [OF rd1] by simp
      next
        case (ok es s2)
        note v = readEnvelopes_view [OF ok(1) nc1]
        obtain es0 where es0: "ready s1 ?p es0" "live_records ?p es0 [] = Inr l" using rd1 by (auto simp: domain_ready_def)
        have e: "es = es0" "ready s2 ?p es" using v(2) [OF refl] ready_view [OF es0(1)] by auto
        have nc2: "no_cut s2" by (rule keeps_no_cut [OF frames_keeps [OF frames_read [where D = ?D] ok(1)] nc1])
        have rd2: "domain_ready s2 ?p l" using e es0(2) by (auto simp: domain_ready_def)
        show ?thesis
        proof (cases "(length es - length l) * 2 < length es")
          case True
          then show ?thesis
            using ok(2) e es0(2) rd2 domain_ready_view [OF rd2] by (simp add: seq_def lift_result_def ret_def)
        next
          case False
          then have rw: "rewriteEnvelopes (storeDir st) (n @ ''.jsonl'') (map snd l) s2 = (r, t)"
            using ok(2) e es0(2) by (simp add: seq_def lift_result_def)
          have "live_ok l \<and> (\<forall>(k, x) \<in> set l. env_ok x)"
            using live_records_ok [OF es0(2), of env_ok] ready_env_ok [OF es0(1)] by (simp add: live_ok_def)
          then have lk: "live_ok l" "\<forall>x \<in> set (map snd l). env_ok x" by auto
          have again: "live_records ?p (map snd l) [] = Inr l" using live_again [OF lk(1), of "[]"] by simp
          have p: "?p = join_path (storeDir st) (n @ ''.jsonl'')" by (simp add: domainPath_def)
          note post = rewrite_post [OF rw nc2 lk(2) p domain_not_temp [OF n]]
          have "domain_view t ?p = Inr (payloads l)"
            using post(1) ready_view [OF e(2)] e(1) es0(2) again by (auto simp: domain_view_def)
          then show ?thesis using post(2) again by (auto simp: domain_ready_def)
        qed
      qed
    qed
  qed
  then show "domain_view t ?p = Inr (payloads l)" "r = Inr () \<Longrightarrow> domain_ready t ?p l" by auto
qed

section \<open>Puts and deletes\<close>

lemma append_record_post:
  assumes a: "appendEnvelope p e s = (r, t)" and rd: "domain_ready s p l" and e: "env_ok e"
    and l': "live_records p [e] l = Inr l'"
  shows "domain_view t p = Inr (payloads l) \<or> domain_view t p = Inr (payloads l') \<or> isl (domain_view t p)"
    "r = Inr () \<Longrightarrow> domain_ready t p l'"
proof -
  obtain es where es: "ready s p es" "live_records p es [] = Inr l" using rd by (auto simp: domain_ready_def)
  have app: "live_records p (es @ [e]) [] = Inr l'" using es(2) l' by (simp add: live_records_append)
  from appended_view [OF appendEnvelope_post(1) [OF a es(1) e]]
  show "domain_view t p = Inr (payloads l) \<or> domain_view t p = Inr (payloads l') \<or> isl (domain_view t p)"
    using es(2) app by (elim disjE exE) (simp_all add: domain_view_def)
  show "r = Inr () \<Longrightarrow> domain_ready t p l'"
    using appendEnvelope_post(2) [OF a es(1) e] app by (auto simp: domain_ready_def)
qed

lemma append_compact_post:
  assumes run: "seq (newEnvelope typ [] key v) (\<lambda>e. seq (appendEnvelope (domainPath st n) e) (\<lambda>_.
      maybeCompactDomainLocked st n)) s = (r, t)"
    and okay: "no_cut s" "clock_ok s" "json_ok v" "typ \<noteq> []" "domain_name n" "domain_ready s (domainPath st n) l"
    and l': "\<And>e. env_type e = typ \<Longrightarrow> env_key e = key \<Longrightarrow> env_payload e = Some v \<Longrightarrow>
        \<exists>l'. live_records (domainPath st n) [e] l = Inr l' \<and> payloads l' = m"
  shows "domain_view t (domainPath st n) \<in> {Inr (payloads l), Inr m} \<or> isl (domain_view t (domainPath st n))"
    "r = Inr () \<Longrightarrow> \<exists>l'. domain_ready t (domainPath st n) l' \<and> payloads l' = m"
proof -
  let ?p = "domainPath st n" and ?D = "\<lambda>_::string. False"
  have "(domain_view t ?p \<in> {Inr (payloads l), Inr m} \<or> isl (domain_view t ?p)) \<and>
      (r = Inr () \<longrightarrow> (\<exists>l'. domain_ready t ?p l' \<and> payloads l' = m))"
    using run
  proof (cases rule: seq_cases)
    case (err x)
    then have "domain_view t ?p = domain_view s ?p" by (intro domain_view_at view_files newEnvelope_files)
    then show ?thesis using err domain_ready_view [OF okay(6)] by simp
  next
    case (ok e s1)
    note e = newEnvelope_ok [OF ok(1) okay(2,3,4)]
    have rd1: "domain_ready s1 ?p l"
      using okay(6) newEnvelope_files [OF ok(1)] by (auto simp: domain_ready_def intro: ready_files)
    obtain l' where l'': "live_records ?p [e] l = Inr l'" "payloads l' = m" using l' [OF e(3,5,6)] by blast
    have nc1: "no_cut s1" by (rule keeps_no_cut [OF frames_keeps [OF frames_newEnvelope [where D = ?D] ok(1)] okay(1)])
    from ok(2) show ?thesis
    proof (cases rule: seq_cases)
      case (err x)
      then show ?thesis using append_record_post(1) [OF err(1) rd1 e(1) l''(1)] l''(2) by auto
    next
      case (ok u s2)
      have rd2: "domain_ready s2 ?p l'" using append_record_post(2) [OF ok(1) rd1 e(1) l''(1)] by simp
      have nc2: "no_cut s2"
        by (rule keeps_no_cut [OF frames_keeps [OF frames_append [where D = ?D] ok(1)] nc1]) simp
      show ?thesis using compact_post [OF ok(2) nc2 rd2 okay(5)] l''(2) by auto
    qed
  qed
  then show "domain_view t ?p \<in> {Inr (payloads l), Inr m} \<or> isl (domain_view t ?p)"
    "r = Inr () \<Longrightarrow> \<exists>l'. domain_ready t ?p l' \<and> payloads l' = m" by auto
qed

lemma put_post:
  assumes "appendDomainLocked st n key v s = (r, t)" "no_cut s" "clock_ok s" "json_ok v" "domain_name n"
    "domain_ready s (domainPath st n) l"
  shows "domain_view t (domainPath st n) \<in> {Inr (payloads l), Inr (map_put key v (payloads l))} \<or>
      isl (domain_view t (domainPath st n))"
    "r = Inr () \<Longrightarrow> \<exists>l'. domain_ready t (domainPath st n) l' \<and> payloads l' = map_put key v (payloads l)"
  using append_compact_post [OF assms(1) [unfolded appendDomainLocked_def] assms(2-4) _ assms(5,6),
      of "map_put key v (payloads l)"]
  by (auto simp: payloads_put)

lemma del_post:
  assumes "deleteDomainLocked st n key s = (r, t)" "no_cut s" "clock_ok s" "domain_name n"
    "domain_ready s (domainPath st n) l"
  shows "domain_view t (domainPath st n) \<in> {Inr (payloads l), Inr (map_del key (payloads l))} \<or>
      isl (domain_view t (domainPath st n))"
    "r = Inr () \<Longrightarrow> \<exists>l'. domain_ready t (domainPath st n) l' \<and> payloads l' = map_del key (payloads l)"
  using append_compact_post [OF assms(1) [unfolded deleteDomainLocked_def] assms(2,3) _ _ assms(4,5),
      of "map_del key (payloads l)"]
  by (auto simp: payloads_del)

text \<open>The lock in front of an operation on a domain.\<close>

lemma withLock_domain:
  assumes run: "withLock st fn s = (r, t)" and okay: "no_cut s" "clock_ok s" "domain_ready s p l"
  obtains (refused) e where "r = Inl e" "domain_view t p = domain_view s p"
  | (held) s1 s2 where "no_cut s1" "clock_ok s1" "domain_view s1 p = domain_view s p" "domain_ready s1 p l" "fn s1 = (r, s2)"
      "files t = files s2" "keeps (\<lambda>_. True) s s1" "keeps (\<lambda>_. True) s2 t"
  using run
proof (cases rule: withLock_cases [where D = "\<lambda>_. True"])
  case (refused e)
  then show ?thesis using that(1) [of e] domain_view_at [OF keeps_view [OF refused(2) okay(1) TrueI]] by simp
next
  case (held s1 s2)
  then show ?thesis
    using that(2) [of s1 s2] keeps_no_cut [OF held(1) okay(1)] okay(2)
      domain_view_at [OF keeps_view [OF held(1) okay(1) TrueI]] okay(3)
    by (simp add: clock_ok_def keeps_def domain_ready_def ready_def held(6))
qed

text \<open>What a reading operation of a process that starts after the fault script returns.\<close>

lemma look_domain:
  "fst (withLock st (seq (read_domain st n w) (\<lambda>live. lift_result (g live))) (s\<lparr>faults := []\<rparr>)) =
     (case domain_view s (domainPath st n) of Inl e \<Rightarrow> Inl (wrapf (''jsonl: read '' @ w) e) | Inr m \<Rightarrow> g m)"
proof -
  let ?q = "s\<lparr>faults := []\<rparr>" and ?f = "seq (read_domain st n w) (\<lambda>live. lift_result (g live))"
  obtain s1 where s1: "keeps (\<lambda>_. True) ?q s1" "faults s1 = []" "fst (withLock st ?f ?q) = fst (?f s1)"
    by (rule withLock_quiet [of ?q "\<lambda>_. True" st ?f]) simp
  have v: "domain_view s1 (domainPath st n) = domain_view s (domainPath st n)"
    by (intro domain_view_at) (use keeps_view [OF s1(1)] view_files [of ?q s] in simp)
  have "fst (?f s1) = (case domain_view s1 (domainPath st n) of Inl e \<Rightarrow> Inl (wrapf (''jsonl: read '' @ w) e) | Inr m \<Rightarrow> g m)"
    using readLatest_quiet [OF s1(2), of "domainPath st n"]
    by (auto simp: read_domain_def seq_def wrapping_def lift_result_def split: prod.split sum.split)
  then show ?thesis using s1(3) v by simp
qed

section \<open>Scoped memory\<close>

type_synonym memory_key = "memory_scope \<times> string \<times> string"

definition memory_path :: "store \<Rightarrow> string" where
  "memory_path st = domainPath st ''memory''"

definition put_memory :: "store \<Rightarrow> memory_key \<Rightarrow> string \<Rightarrow> unit io" where
  "put_memory st k v = (case k of (scope, scopeID, key) \<Rightarrow> SetMemory st scope scopeID key v)"

definition del_memory :: "store \<Rightarrow> memory_key \<Rightarrow> unit io" where
  "del_memory st k = (case k of (scope, scopeID, key) \<Rightarrow> DeleteMemory st scope scopeID key)"

text \<open>What a process that starts after the fault script reads.\<close>

definition look_memory :: "store \<Rightarrow> os \<Rightarrow> memory_key \<Rightarrow> error + string option" where
  "look_memory st s k = (case k of (scope, scopeID, key) \<Rightarrow>
     fst (GetMemory st scope scopeID key (s\<lparr>faults := []\<rparr>)))"

definition memory_ready :: "store \<Rightarrow> os \<Rightarrow> bool" where
  "memory_ready st s \<longleftrightarrow> no_cut s \<and> clock_ok s \<and> (\<exists>l. domain_ready s (memory_path st) l)"

definition composite :: "memory_key \<Rightarrow> string" where
  "composite k = (case k of (scope, scopeID, key) \<Rightarrow> ScopedKey scope scopeID key)"

text \<open>Scope ids without a colon: the keys the composite keeps apart.\<close>

definition plain_scope :: "memory_key \<Rightarrow> bool" where
  "plain_scope k \<longleftrightarrow> CHR '':'' \<notin> set (fst (snd k))"

lemma composite_inj: "plain_scope k \<Longrightarrow> plain_scope k' \<Longrightarrow> composite k = composite k' \<longleftrightarrow> k = k'"
  using ScopedKey_plain_iff by (cases k; cases k') (auto simp: composite_def plain_scope_def)

lemma look_memory_view:
  "look_memory st s k =
     (case domain_view s (memory_path st) of
        Inl e \<Rightarrow> Inl (wrapf (''jsonl: read '' @ ''memory'') e)
      | Inr m \<Rightarrow> get_decoded dec_memory ''memory'' m (composite k))"
  by (cases k) (simp add: look_memory_def GetMemory_def look_domain memory_path_def composite_def split: sum.split)

lemma get_decoded_put: "dec v = Some x \<Longrightarrow> get_decoded dec w (map_put k v m) k = Inr (Some x)"
  by (simp add: get_decoded_def decode_payload_def)

lemma get_decoded_put_other: "k' \<noteq> k \<Longrightarrow> get_decoded dec w (map_put k v m) k' = get_decoded dec w m k'"
  by (simp add: get_decoded_def)

lemma get_decoded_del: "get_decoded dec w (map_del k m) k' = (if k' = k then Inr None else get_decoded dec w m k')"
  by (simp add: get_decoded_def map_of_map_del)

lemma memory_json_ok: "json_ok (memory_json v)"
  by (simp add: memory_json_def bytes_json_def)

lemma memory_name: "domain_name ''memory''"
  by (simp add: domain_name_def)

lemma domain_ready_files: "domain_ready s p l \<Longrightarrow> files t = files s \<Longrightarrow> domain_ready t p l"
  by (auto simp: domain_ready_def intro: ready_files)

lemma keeps_stay: "keeps D s t \<Longrightarrow> no_cut s \<Longrightarrow> clock_ok s \<Longrightarrow> no_cut t \<and> clock_ok t"
  using keeps_no_cut by (auto simp: keeps_def clock_ok_def)

lemma frames_maybeCompact: "frames (\<lambda>_. False) (maybeCompactDomainLocked st n)"
  unfolding maybeCompactDomainLocked_def Let_def stat_size_def
  by (intro frame_rules frames_after_sys frames_rewrite) simp_all

lemma frames_appendDomain: "frames (\<lambda>_. False) (appendDomainLocked st n k v)"
  unfolding appendDomainLocked_def by (intro frame_rules frames_maybeCompact) simp

lemma frames_deleteDomain: "frames (\<lambda>_. False) (deleteDomainLocked st n k)"
  unfolding deleteDomainLocked_def by (intro frame_rules frames_maybeCompact) simp

text \<open>SetMemory on a readable log: the old map, the new map, or an unreadable log; the new map on success.\<close>

lemma SetMemory_post:
  assumes run: "put_memory st k v s = (r, t)" and rd: "domain_ready s (memory_path st) l"
    and okay: "no_cut s" "clock_ok s"
  shows "domain_view t (memory_path st) \<in> {Inr (payloads l), Inr (map_put (composite k) (memory_json v) (payloads l))} \<or>
      isl (domain_view t (memory_path st))"
    "r = Inr () \<Longrightarrow> no_cut t \<and> clock_ok t \<and>
       (\<exists>l'. domain_ready t (memory_path st) l' \<and> payloads l' = map_put (composite k) (memory_json v) (payloads l))"
proof -
  obtain scope scopeID key where k: "k = (scope, scopeID, key)" by (cases k) auto
  let ?p = "memory_path st" and ?m = "map_put (composite k) (memory_json v) (payloads l)"
  let ?G = "(domain_view t ?p \<in> {Inr (payloads l), Inr ?m} \<or> isl (domain_view t ?p)) \<and>
    (r = Inr () \<longrightarrow> no_cut t \<and> clock_ok t \<and> (\<exists>l'. domain_ready t ?p l' \<and> payloads l' = ?m))"
  have "withLock st (wrapping (''jsonl: set memory '' @ quote (composite k))
      (appendDomainLocked st ''memory'' (composite k) (memory_json v))) s = (r, t)"
    using run by (simp add: put_memory_def k SetMemory_def composite_def)
  then have ?G
  proof (rule withLock_domain [OF _ okay rd], goal_cases refused held)
    case (refused e)
    then show ?case using domain_ready_view [OF rd] by simp
  next
    case (held s1 s2)
    obtain r' where a: "appendDomainLocked st ''memory'' (composite k) (memory_json v) s1 = (r', s2)"
        "r = Inr () \<Longrightarrow> r' = Inr ()"
      using held(5) by (auto elim: wrapping_cases)
    note post = put_post [OF a(1) held(1,2) memory_json_ok memory_name held(4) [unfolded memory_path_def], folded memory_path_def]
    have t: "domain_view t ?p = domain_view s2 ?p" by (rule domain_view_at [OF view_files [OF held(6)]])
    have "no_cut s2 \<and> clock_ok s2" by (rule keeps_stay [OF frames_keeps [OF frames_appendDomain a(1)] held(1,2)])
    then have "no_cut t \<and> clock_ok t" using keeps_stay [OF held(8)] by blast
    then show ?case using post a(2) t domain_ready_files [OF _ held(6)] by auto
  qed
  then show "domain_view t ?p \<in> {Inr (payloads l), Inr ?m} \<or> isl (domain_view t ?p)"
    "r = Inr () \<Longrightarrow> no_cut t \<and> clock_ok t \<and> (\<exists>l'. domain_ready t ?p l' \<and> payloads l' = ?m)" by auto
qed

lemma DeleteMemory_post:
  assumes run: "del_memory st k s = (Inr (), t)" and rd: "domain_ready s (memory_path st) l"
    and okay: "no_cut s" "clock_ok s"
  shows "no_cut t \<and> clock_ok t \<and>
     (\<exists>l'. domain_ready t (memory_path st) l' \<and> map_of (payloads l') = (map_of (payloads l))(composite k := None))"
proof -
  obtain scope scopeID key where k: "k = (scope, scopeID, key)" by (cases k) auto
  let ?p = "memory_path st" and ?D = "\<lambda>_::string. False"
  have "withLock st (seq (wrapping (''jsonl: read '' @ ''memory'') (readLatest ?p)) (\<lambda>live.
     if map_of live (composite k) = None then ret ()
     else wrapping (''jsonl: delete '' @ ''memory'' @ '' '' @ quote (composite k)) (deleteDomainLocked st ''memory'' (composite k)))) s = (Inr (), t)"
    using run by (simp add: del_memory_def k DeleteMemory_def deleteDomain_def composite_def memory_path_def cong: if_cong)
  then show ?thesis
  proof (rule withLock_domain [OF _ okay rd], goal_cases refused held)
    case (refused e)
    then show ?case by simp
  next
    case (held s1 s2)
    from held(5) show ?case
    proof (cases rule: seq_cases)
      case (ok m s3)
      then have rl: "readLatest ?p s1 = (Inr m, s3)" by (auto elim: wrapping_cases)
      obtain l3 where l3: "domain_ready s3 ?p l3" "m = payloads l3" "domain_view s1 ?p = Inr m"
        using readLatest_ready [OF rl held(1)] by blast
      have m: "m = payloads l" using l3(3) held(3) domain_ready_view [OF rd] by simp
      have st3: "no_cut s3 \<and> clock_ok s3"
        by (rule keeps_stay [OF frames_keeps [OF frames_readLatest [where D = ?D] rl] held(1,2)])
      show ?thesis
      proof (cases "map_of m (composite k) = None")
        case True
        then have "s2 = s3" using ok(2) by (simp add: ret_def)
        then have "domain_ready t ?p l3" "no_cut t \<and> clock_ok t"
          using domain_ready_files [OF l3(1), of t] held(6) keeps_stay [OF held(8)] st3 by auto
        moreover have "map_of (payloads l3) = (map_of (payloads l))(composite k := None)"
          using True l3(2) m by auto
        ultimately show ?thesis by blast
      next
        case False
        then have d: "deleteDomainLocked st ''memory'' (composite k) s3 = (Inr (), s2)"
          using ok(2) by (auto elim: wrapping_cases)
        obtain l' where l': "domain_ready s2 ?p l'" "payloads l' = map_del (composite k) (payloads l3)"
          using del_post(2) [OF d _ _ memory_name l3(1) [unfolded memory_path_def]] st3
          by (auto simp: memory_path_def)
        have "no_cut s2 \<and> clock_ok s2"
          using keeps_stay [OF frames_keeps [OF frames_deleteDomain d]] st3 by blast
        then have "no_cut t \<and> clock_ok t" using keeps_stay [OF held(8)] by blast
        then show ?thesis
          using domain_ready_files [OF l'(1) held(6)] l'(2) l3(2) m by (auto simp: map_of_map_del)
      qed
    qed simp
  qed
qed

interpretation memory: kv_store "put_memory st" "del_memory st" "look_memory st" "memory_ready st" "\<lambda>k k'. composite k' \<noteq> composite k" for st
proof
  fix s k v t
  assume a: "memory_ready st s" "put_memory st k v s = (Inr (), t)"
  obtain l where l: "no_cut s" "clock_ok s" "domain_ready s (memory_path st) l" using a(1) by (auto simp: memory_ready_def)
  obtain l' where l': "no_cut t" "clock_ok t" "domain_ready t (memory_path st) l'"
      "payloads l' = map_put (composite k) (memory_json v) (payloads l)"
    using SetMemory_post(2) [OF a(2) l(3,1,2)] by auto
  then show "memory_ready st t \<and> look_memory st t k = Inr (Some v)"
    by (auto simp: memory_ready_def look_memory_view domain_ready_view get_decoded_put dec_memory_json)
  fix k'
  assume "composite k' \<noteq> composite k"
  then show "look_memory st t k' = look_memory st s k'"
    using l' domain_ready_view [OF l(3)] by (simp add: look_memory_view domain_ready_view get_decoded_put_other)
next
  fix s k t
  assume a: "memory_ready st s" "del_memory st k s = (Inr (), t)"
  obtain l where l: "no_cut s" "clock_ok s" "domain_ready s (memory_path st) l" using a(1) by (auto simp: memory_ready_def)
  obtain l' where l': "no_cut t" "clock_ok t" "domain_ready t (memory_path st) l'"
      "map_of (payloads l') = (map_of (payloads l))(composite k := None)"
    using DeleteMemory_post [OF a(2) l(3,1,2)] by auto
  then show "memory_ready st t \<and> look_memory st t k = Inr None"
    by (auto simp: memory_ready_def look_memory_view domain_ready_view get_decoded_def)
  fix k'
  assume "composite k' \<noteq> composite k"
  then show "look_memory st t k' = look_memory st s k'"
    using l' domain_ready_view [OF l(3)] by (simp add: look_memory_view domain_ready_view get_decoded_def)
qed

end
