(* ===== verification/Jsonl_Domain_Props.thy ===== *)
theory Jsonl_Domain_Props
  imports Jsonl_Domain_Spec
begin

text \<open>
  Operations on a domain of a machine without faults, and the properties of the store's scoped
  memory and tools.
\<close>

section \<open>Without faults\<close>

definition bytes_at :: "os \<Rightarrow> string \<Rightarrow> string" where
  "bytes_at s p = (case file_at s p of None \<Rightarrow> [] | Some d \<Rightarrow> d)"

text \<open>
  appendDomainLocked writes the record behind whatever the log holds, and returns without
  looking at it while the log is short.
\<close>

lemma quiet_put:
  assumes q: "faults s = []" and c: "clock_ok s" and v: "json_ok v"
    and e: "newEnvelope ''put'' [] key v s = (Inr e, s1)"
    and short: "length (bytes_at s (domainPath st n)) + length (line_of e) < mutableCompactionBytes"
  shows "\<exists>t. appendDomainLocked st n key v s = (Inr (), t)"
proof -
  let ?p = "domainPath st n"
  note e1 = newEnvelope_ok [OF e c v]
  have f: "files s1 = files s" by (rule newEnvelope_files [OF e])
  have q1: "faults s1 = []" by (rule ok_quiet [OF e frames_newEnvelope q])
  let ?t = "add_bytes ?p (line_of e @ [CHR 0x0A]) (if file_at s ?p = None then set_file ?p [] s1 else s1)"
  have a: "appendEnvelope ?p e s1 = (Inr (), ?t)" using quiet_append [OF q1, of e ?p] e1 f by simp
  have qt: "faults ?t = []" using q1 by (simp add: add_bytes_def)
  have "file_at ?t ?p = Some (bytes_at s ?p @ line_of e @ [CHR 0x0A])"
    using f by (auto simp: add_bytes_def bytes_at_def split: option.splits)
  then have "maybeCompactDomainLocked st n ?t = (Inr (), ?t)"
    using qt short by (simp add: maybeCompactDomainLocked_def Let_def stat_size_def quiet_seq_sys seq_def ret_def)
  then show ?thesis using e a by (simp add: appendDomainLocked_def seq_def)
qed

text \<open>
  The record goes behind what the log held; where that cannot be read any more, the call reports it
  only if the log is long enough to be compacted.
\<close>

lemma quiet_put_bytes:
  assumes q: "faults s = []" and c: "clock_ok s" and v: "json_ok v"
    and run: "appendDomainLocked st n key v s = (res, t)"
    and bad: "\<And>e. env_ok e \<Longrightarrow> isl (scan (domainPath st n) (bytes_at s (domainPath st n) @ line_of e @ [CHR 0x0A]) None)"
  shows "isl (recs t (domainPath st n)) \<and>
    (res = Inr () \<longleftrightarrow> length (bytes_at t (domainPath st n)) \<le> mutableCompactionBytes)"
proof -
  let ?p = "domainPath st n"
  obtain e s1 where e: "newEnvelope ''put'' [] key v s = (Inr e, s1)"
      "seq (appendEnvelope ?p e) (\<lambda>_. maybeCompactDomainLocked st n) s1 = (res, t)"
    using run good_newEnvelope [OF v, of "''put''" "[]" key s]
    by (auto simp: appendDomainLocked_def good_def elim: seq_cases)
  note e1 = newEnvelope_ok [OF e(1) c v]
  have f: "files s1 = files s" by (rule newEnvelope_files [OF e(1)])
  have q1: "faults s1 = []" by (rule ok_quiet [OF e(1) frames_newEnvelope q])
  let ?u = "add_bytes ?p (line_of e @ [CHR 0x0A]) (if file_at s ?p = None then set_file ?p [] s1 else s1)"
  have a: "appendEnvelope ?p e s1 = (Inr (), ?u)" using quiet_append [OF q1, of e ?p] e1 f by simp
  have qu: "faults ?u = []" using q1 by (simp add: add_bytes_def)
  have u: "file_at ?u ?p = Some (bytes_at s ?p @ line_of e @ [CHR 0x0A])"
    using f by (auto simp: add_bytes_def bytes_at_def split: option.splits)
  have r: "isl (recs ?u ?p)" using bad [of e] e1(1) u by (simp add: recs_def)
  then have rd: "fst (readEnvelopes ?p ?u) \<noteq> Inr x" for x
    using readEnvelopes_quiet [OF qu, of ?p] by (cases "recs ?u ?p") (auto simp: view_def)
  have "maybeCompactDomainLocked st n ?u = (res, t)" using e(2) a by (simp add: seq_def)
  moreover have "view ?u ?p = Inl x \<Longrightarrow> snd (readEnvelopes ?p ?u) = ?u" for x
    using qu u by (auto simp: readEnvelopes_def quiet_seq_sys read_bytes_def next_fault_def view_def recs_def split: sum.splits)
  moreover obtain x where "view ?u ?p = Inl x" using r by (cases "recs ?u ?p") (auto simp: view_def)
  ultimately have "t = ?u \<and> (res = Inr () \<longleftrightarrow> length (bytes_at ?u ?p) \<le> mutableCompactionBytes)"
    using qu u rd by (cases "readEnvelopes ?p ?u") (auto simp: maybeCompactDomainLocked_def Let_def stat_size_def
        bytes_at_def quiet_seq_sys seq_def ret_def split: if_splits prod.splits sum.splits)
  then show ?thesis using r by simp
qed

text \<open>withLock hands the operation the machine with at most the lock file added.\<close>

lemma quiet_withLock:
  assumes q: "faults s = []"
  obtains s1 t1 where "s1 = s\<lparr>files := files s1\<rparr>" "\<And>p. p \<noteq> join_path (locksDir st) ''store.lock'' \<Longrightarrow> file_at s1 p = file_at s p"
    "files t1 = files (snd (fn s1))" "withLock st fn s = (fst (fn s1), t1)"
proof -
  let ?p = "join_path (locksDir st) ''store.lock''"
  let ?s1 = "case file_at s ?p of Some _ \<Rightarrow> s | None \<Rightarrow> set_file ?p [] s"
  have q1: "faults ?s1 = []" using q by (simp split: option.split)
  have o: "open_create ?p s = (Inr (), ?s1)" using q by (simp add: open_create_def quiet_seq_sys)
  have c: "chmod_or_close ?s1 = (Inr (), ?s1)" using q1 by (simp add: chmod_or_close_def)
  have l: "wait_lock ?s1 = (Inr (), ?s1)" using q1 by (subst wait_lock.simps) simp
  let ?t = "snd (sys (snd (sys (snd (fn ?s1)))))"
  have "withLock st fn s = (fst (fn ?s1), ?t)"
    using q o c l by (simp add: withLock_def quiet_seq_sys seq_def wrapping_def split: prod.split)
  moreover have "files ?t = files (snd (fn ?s1))"
    by (cases "sys (snd (fn ?s1))"; cases "sys (snd (sys (snd (fn ?s1))))") (auto dest!: sys_frame)
  moreover have "?s1 = s\<lparr>files := files ?s1\<rparr>" by (simp add: set_file_def split: option.split)
  ultimately show ?thesis using that [of ?s1 ?t] by (auto split: option.split)
qed

section \<open>A torn record before a line\<close>

lemma torn_brace_line: "env_ok e \<Longrightarrow> isl (decode_line p (CHR 0x7B # line_of e) True)"
proof -
  assume e: "env_ok e"
  obtain u where u: "line_of e = CHR 0x7B # u" "u \<noteq> []" using line_of_head by blast
  have "json_Unmarshal (CHR 0x7B # line_of e) = None"
    by (simp add: json_Unmarshal_def u parse_value.simps(2) parse_members.simps(2) skip_ws_def is_ws_def split: option.split)
  moreover have "trim_cr (CHR 0x7B # line_of e) = CHR 0x7B # line_of e"
    using piece_simps(1) [OF e, of "line_of e" "[]"] u by (auto simp: trim_cr_def split: if_splits)
  ultimately show ?thesis by (simp add: decode_line_def unmarshal_def is_space_def)
qed

lemma scan_torn_brace:
  assumes "scan p d None = Inr (es, False)" "env_ok e"
  shows "isl (scan p ((d @ [CHR 0x7B]) @ line_of e @ [CHR 0x0A]) None)"
proof -
  have "CHR 0x0A \<notin> set (CHR 0x7B # line_of e)" using line_of_no_newline [OF assms(2)] by simp
  from scan_line [OF this, of p "[]" None] have "isl (scan p (CHR 0x7B # line_of e @ [CHR 0x0A]) None)"
    using torn_brace_line [OF assms(2), of p] by (auto split: sum.splits)
  then show ?thesis
    using scan_append [OF assms(1), of "CHR 0x7B # line_of e @ [CHR 0x0A]" None]
    by (auto simp: terminated_def split: sum.splits)
qed

section \<open>Tools\<close>

definition tools_path :: "store \<Rightarrow> string" where
  "tools_path st = domainPath st ''tools''"

lemma GetTool_view:
  "fst (GetTool st n (s\<lparr>faults := []\<rparr>)) =
     (case domain_view s (tools_path st) of
        Inl e \<Rightarrow> Inl (wrapf (''jsonl: read '' @ ''tools'') e)
      | Inr m \<Rightarrow> get_decoded dec_tool_def ''tool'' m n)"
  by (simp add: GetTool_def look_domain tools_path_def)

lemma dec_tool_created: "dec_tool_def v = Some td \<Longrightarrow> int64_ok (td_created_at td)"
  by (cases v) (auto simp: dec_tool_def_def dec_struct_def bind_eq_Some_conv intro: dec_int64_range)

text \<open>The id and the creation time a tool is saved under.\<close>

lemma name_tool_post:
  assumes "name_tool td m s = (Inr x, t)" "clock_ok s" "tool_def_ok td"
  shows "tool_def_ok x" "x = td\<lparr>td_id := td_id x, td_created_at := td_created_at x\<rparr>" "files t = files s"
    "keeps (\<lambda>_. True) s t"
    "\<And>old. get_decoded dec_tool_def ''tool'' m (td_name td) = Inr (Some old) \<Longrightarrow>
       td_id x = td_id old \<and> td_created_at x = td_created_at old"
proof -
  have "tool_def_ok x \<and> x = td\<lparr>td_id := td_id x, td_created_at := td_created_at x\<rparr> \<and> files t = files s \<and>
      keeps (\<lambda>_. True) s t \<and>
      (\<forall>old. get_decoded dec_tool_def ''tool'' m (td_name td) = Inr (Some old) \<longrightarrow>
         td_id x = td_id old \<and> td_created_at x = td_created_at old)"
  proof (cases "map_of m (td_name td)")
    case None
    obtain i s1 where i: "(if td_id td = [] then newID ''tool-'' s else (td_id td, s)) = (i, s1)" by force
    obtain c s2 where c: "(if td_created_at td = 0 then now_milli s1 else (td_created_at td, s1)) = (c, s2)" by force
    have x: "x = td\<lparr>td_id := i, td_created_at := c\<rparr>" "t = s2" using assms(1) None i c by (auto simp: name_tool_def)
    have k1: "keeps (\<lambda>_. True) s s1" "files s1 = files s" "clk s1 = clk s"
      using i keeps_newID newID_frame by (auto split: if_splits)
    have "int64_ok c \<and> keeps (\<lambda>_. True) s1 s2 \<and> files s2 = files s1"
      using c k1(3) assms(2,3) now_milli_keeps [of s1]
      by (auto simp: tool_def_ok_def now_milli_def now_nano_def clock_ok_def split: if_splits)
    then show ?thesis using x k1 assms(3) None by (auto simp: tool_def_ok_def get_decoded_def intro: keeps_trans)
  next
    case (Some raw)
    then show ?thesis
      using assms dec_tool_created
      by (auto simp: name_tool_def get_decoded_def decode_payload_def raise_def ret_def tool_def_ok_def
          split: option.splits sum.splits)
  qed
  then show "tool_def_ok x" "x = td\<lparr>td_id := td_id x, td_created_at := td_created_at x\<rparr>" "files t = files s"
    "keeps (\<lambda>_. True) s t"
    "\<And>old. get_decoded dec_tool_def ''tool'' m (td_name td) = Inr (Some old) \<Longrightarrow>
       td_id x = td_id old \<and> td_created_at x = td_created_at old" by blast+
qed

lemma SaveTool_post:
  assumes okay: "no_cut s" "clock_ok s" and rd: "domain_ready s (tools_path st) l" and td: "tool_def_ok td"
    and run: "SaveTool st td s = (Inr x, t)"
  shows "x = td\<lparr>td_id := td_id x, td_created_at := td_created_at x\<rparr> \<and>
     fst (GetTool st (td_name td) (t\<lparr>faults := []\<rparr>)) = Inr (Some x) \<and>
     (\<forall>old. fst (GetTool st (td_name td) (s\<lparr>faults := []\<rparr>)) = Inr (Some old) \<longrightarrow>
        td_id x = td_id old \<and> td_created_at x = td_created_at old) \<and>
     (\<forall>n. n \<noteq> td_name td \<longrightarrow> fst (GetTool st n (t\<lparr>faults := []\<rparr>)) = fst (GetTool st n (s\<lparr>faults := []\<rparr>)))"
proof -
  let ?p = "tools_path st"
  have v: "domain_view s ?p = Inr (payloads l)" by (rule domain_ready_view [OF rd])
  have "withLock st (seq (read_domain st ''tools'' ''tools'') (\<lambda>live.
     seq (name_tool td live) (\<lambda>td'.
     seq (wrapping (''jsonl: save tool '' @ quote (td_name td'))
            (appendDomainLocked st ''tools'' (td_name td') (enc_tool_def td'))) (\<lambda>_. ret td')))) s = (Inr x, t)"
    using run by (simp add: SaveTool_def)
  then show ?thesis
  proof (rule withLock_domain [OF _ okay rd], goal_cases refused held)
    case (held s1 s2)
    from held(5) obtain m s3 where m: "read_domain st ''tools'' ''tools'' s1 = (Inr m, s3)"
        "seq (name_tool td m) (\<lambda>td'. seq (wrapping (''jsonl: save tool '' @ quote (td_name td'))
            (appendDomainLocked st ''tools'' (td_name td') (enc_tool_def td'))) (\<lambda>_. ret td')) s3 = (Inr x, s2)"
      by (auto elim: seq_cases)
    then have rl: "readLatest ?p s1 = (Inr m, s3)" by (auto simp: read_domain_def tools_path_def elim: wrapping_cases)
    obtain l3 where l3: "domain_ready s3 ?p l3" "m = payloads l3" "domain_view s1 ?p = Inr m"
      using readLatest_ready [OF rl held(1)] by blast
    have mv: "m = payloads l" using l3(3) held(3) v by simp
    have st3: "no_cut s3 \<and> clock_ok s3"
      by (rule keeps_stay [OF frames_keeps [OF frames_readLatest [where D = "\<lambda>_. False"] rl] held(1,2)])
    from m(2) obtain y s4 s5 where y: "name_tool td m s3 = (Inr y, s4)" "x = y" "s5 = s2"
        "appendDomainLocked st ''tools'' (td_name y) (enc_tool_def y) s4 = (Inr (), s5)"
      by (auto simp: ret_def elim!: seq_cases wrapping_cases)
    note nt = name_tool_post [OF y(1) _ td, unfolded y(2) [symmetric]]
    have x: "x = td\<lparr>td_id := td_id x, td_created_at := td_created_at x\<rparr>" and xo: "tool_def_ok x" using nt(1,2) st3 by auto
    have nm: "td_name x = td_name td" by (subst x) simp
    have st4: "no_cut s4" "clock_ok s4" "domain_ready s4 ?p l3"
      using keeps_stay [OF nt(4)] st3 domain_ready_files [OF l3(1) nt(3)] td by auto
    have jo: "json_ok (enc_tool_def x)" by (rule json_ok_enc_defs(1) [OF xo])
    obtain l5 where l5: "domain_ready s2 ?p l5" "payloads l5 = map_put (td_name td) (enc_tool_def x) m"
      using put_post(2) [OF y(4) [folded y(2)] st4(1,2) jo _ st4(3) [unfolded tools_path_def]] y(3) l3(2) nm
      by (auto simp: domain_name_def tools_path_def)
    have "domain_view t ?p = Inr (map_put (td_name td) (enc_tool_def x) m)"
      using domain_ready_view [OF domain_ready_files [OF l5(1) held(6)]] l5(2) by simp
    then show ?thesis
      using x nt(5) st3 v mv td by (auto simp: GetTool_view get_decoded_put get_decoded_put_other dec_tool_def_enc xo)
  qed simp
qed

section \<open>A concrete machine\<close>

definition w_memory_os :: "string \<Rightarrow> fault list \<Rightarrow> os" where
  "w_memory_os log fs = \<lparr>files = [(''/r/projects/w/_store/memory.jsonl'', log)], symlinks = [],
     faults = fs, rnd = (\<lambda>n. Some []), rnd_pos = 0, clk = (\<lambda>n. 8000000), clk_pos = 0\<rparr>"

lemma w_memory_path: "memory_path w_store = ''/r/projects/w/_store/memory.jsonl''"
  by (simp add: memory_path_def domainPath_def join_path_def w_store_def)

lemma w_memory_clock: "clock_ok (w_memory_os log fs)"
  by (simp add: clock_ok_def w_memory_os_def int64_ok_def)

lemma w_memory_ready: "no_cut (w_memory_os [] fs) \<Longrightarrow> memory_ready w_store (w_memory_os [] fs)"
proof -
  assume n: "no_cut (w_memory_os [] fs)"
  have "ready (w_memory_os [] fs) (memory_path w_store) []"
    unfolding w_memory_path by (simp add: ready_def recs_def w_memory_os_def)
  then have "domain_ready (w_memory_os [] fs) (memory_path w_store) []"
    unfolding domain_ready_def by (intro exI [of _ "[]"]) simp
  then show ?thesis by (auto simp: memory_ready_def w_memory_clock n)
qed

lemma w_memory_no_cut: "no_cut (w_memory_os log [])" "no_cut (w_memory_os log [FOk, FOk, FOk, FShort 9 ''disk full''])"
  by (simp_all add: no_cut_def w_memory_os_def)

definition w_put :: "string \<Rightarrow> envelope" where
  "w_put k = \<lparr>env_version = 1, env_event_id = ''evt-'', env_txn = [], env_type = ''put'',
      env_session = [], env_key = k, env_timestamp = 8, env_payload = Some (memory_json ''v'')\<rparr>"

lemma w_put_ok: "env_ok (w_put k)"
  by (simp add: env_ok_def w_put_def schemaVersion_def int64_ok_def memory_json_ok)

lemma w_put_short: "length (line_of (w_put ''user:u::k'')) < 1000"
  by (simp add: w_put_def line_of_def enc_envelope_def memory_json_def bytes_json_def omit_str_def
      enc_int_def b64_char_def render_str_def json_esc_def int_text_def nat_text.simps)

lemma w_set:
  assumes "length log < 1000" "k = ''k''"
  obtains t where "SetMemory w_store ScopeUser ''u'' k ''v'' (w_memory_os log []) = (Inr (), t)"
proof -
  let ?s = "w_memory_os log []" and ?k = "ScopedKey ScopeUser ''u'' ''k''"
  have k: "?k = ''user:u::k''" by (simp add: ScopedKey_def)
  let ?f = "wrapping (''jsonl: set memory '' @ quote ?k) (appendDomainLocked w_store ''memory'' ?k (memory_json ''v''))"
  have q: "faults ?s = []" by (simp add: w_memory_os_def)
  obtain s1 t1 where s1: "s1 = ?s\<lparr>files := files s1\<rparr>"
      "\<And>p. p \<noteq> join_path (locksDir w_store) ''store.lock'' \<Longrightarrow> file_at s1 p = file_at ?s p"
      "withLock w_store ?f ?s = (fst (?f s1), t1)"
    by (rule quiet_withLock [OF q, of w_store ?f]) blast
  have m: "rnd s1 = (\<lambda>n. Some [])" "clk s1 = (\<lambda>n. 8000000)" "faults s1 = []" "clock_ok s1"
    by (subst s1(1), simp add: w_memory_os_def clock_ok_def int64_ok_def)+
  obtain t where e: "newEnvelope ''put'' [] ?k (memory_json ''v'') s1 = (Inr (w_put ?k), t)"
    by (simp add: newEnvelope_def json_Marshal_ok memory_json_ok m newID_def now_milli_def now_nano_def
        w_put_def schemaVersion_def hex_of_def)
  have "file_at s1 (domainPath w_store ''memory'') = Some log"
    unfolding memory_path_def [symmetric] w_memory_path
    by (subst s1(2)) (simp_all add: w_memory_os_def w_store_def join_path_def)
  then have "length (bytes_at s1 (domainPath w_store ''memory'')) + length (line_of (w_put ?k)) < mutableCompactionBytes"
    using assms(1) w_put_short by (simp add: bytes_at_def k mutableCompactionBytes_def)
  then obtain u where "appendDomainLocked w_store ''memory'' ?k (memory_json ''v'') s1 = (Inr (), u)"
    using quiet_put [OF m(3,4) memory_json_ok e] by blast
  then have "fst (?f s1) = Inr ()" by (simp add: wrapping_def)
  then show ?thesis using s1(3) that [of t1] assms(2) by (simp add: SetMemory_def)
qed

section \<open>Properties\<close>

text \<open>
  Scoped memory is a map on the keys whose scope id has no colon: after SetMemory returned
  without error GetMemory finds the value, and finds under every other key what it found before.
\<close>

theorem memory_set_get:
  assumes "memory_ready st s" "SetMemory st sc i k v s = (Inr (), t)"
  shows "fst (GetMemory st sc i k (t\<lparr>faults := []\<rparr>)) = Inr (Some v) \<and>
     (\<forall>sc' i' k'. (sc', i', k') \<noteq> (sc, i, k) \<and> CHR '':'' \<notin> set i \<and> CHR '':'' \<notin> set i' \<longrightarrow>
        fst (GetMemory st sc' i' k' (t\<lparr>faults := []\<rparr>)) = fst (GetMemory st sc' i' k' (s\<lparr>faults := []\<rparr>)))"
proof -
  have p: "put_memory st (sc, i, k) v s = (Inr (), t)" using assms(2) by (simp add: put_memory_def)
  have "fst (GetMemory st sc' i' k' (t\<lparr>faults := []\<rparr>)) = fst (GetMemory st sc' i' k' (s\<lparr>faults := []\<rparr>))"
    if "(sc', i', k') \<noteq> (sc, i, k)" "CHR '':'' \<notin> set i" "CHR '':'' \<notin> set i'" for sc' i' k'
  proof -
    have "composite (sc', i', k') \<noteq> composite (sc, i, k)"
      using that composite_inj [of "(sc', i', k')" "(sc, i, k)"] by (simp add: plain_scope_def)
    from memory.put_other [OF assms(1) p this] show ?thesis by (simp add: look_memory_def)
  qed
  then show ?thesis
    using memory.put_ok [OF assms(1) p] by (simp add: look_memory_def)
qed

lemma memory_set_get_witness:
  "\<exists>t. SetMemory w_store ScopeUser ''u'' ''k'' ''v'' (w_memory_os [] []) = (Inr (), t) \<and>
     fst (GetMemory w_store ScopeUser ''u'' ''k'' (t\<lparr>faults := []\<rparr>)) = Inr (Some ''v'')"
proof -
  obtain t where t: "SetMemory w_store ScopeUser ''u'' ''k'' ''v'' (w_memory_os [] []) = (Inr (), t)"
    by (rule w_set [of "[]" "''k''"]) simp_all
  show ?thesis using memory_set_get [OF w_memory_ready [OF w_memory_no_cut(1)] t] t by blast
qed

text \<open>
  SetMemory is atomic under faults: whatever system call fails, a later GetMemory of any
  entry finds what it found before, or what it finds when the entry was set, or reports an error.
\<close>

theorem memory_set_atomic:
  assumes "memory_ready st s"
  shows "case SetMemory st sc i k v s of (r, t) \<Rightarrow>
     (let got = (\<lambda>x. fst (GetMemory st sc i k (x\<lparr>faults := []\<rparr>))) in
      got t = got s \<or> got t = Inr (Some v) \<or> isl (got t))"
proof -
  obtain l where l: "no_cut s" "clock_ok s" "domain_ready s (memory_path st) l" using assms by (auto simp: memory_ready_def)
  obtain r t where rt: "SetMemory st sc i k v s = (r, t)" by force
  then have p: "put_memory st (sc, i, k) v s = (r, t)" by (simp add: put_memory_def)
  have s: "look_memory st s (sc, i, k) = get_decoded dec_memory ''memory'' (payloads l) (composite (sc, i, k))"
    by (simp add: look_memory_view domain_ready_view [OF l(3)])
  show ?thesis
    using SetMemory_post(1) [OF p l(3,1,2)] s
    by (auto simp: rt look_memory_def [of st _ "(sc, i, k)", simplified, symmetric] look_memory_view
        get_decoded_put dec_memory_json split: sum.splits)
qed

lemma memory_set_atomic_witness:
  "case SetMemory w_store ScopeUser ''u'' ''k'' ''v'' (w_memory_os [] [FOk, FOk, FOk, FShort 9 ''disk full'']) of (r, t) \<Rightarrow>
     (let got = (\<lambda>x. fst (GetMemory w_store ScopeUser ''u'' ''k'' (x\<lparr>faults := []\<rparr>))) in
      got t = got (w_memory_os [] [FOk, FOk, FOk, FShort 9 ''disk full'']) \<or> got t = Inr (Some ''v'') \<or> isl (got t))"
  by (rule memory_set_atomic [OF w_memory_ready [OF w_memory_no_cut(2)]])

text \<open>
  C40: SetMemory appends without reading the log first. When the log ends in a record of which only
  the first byte was written, then without any fault SetMemory writes its record behind that byte,
  and from then on no entry of the memory can be read; it reports success exactly if the log has at
  most mutableCompactionBytes bytes, below which it does not read it.
\<close>

theorem memory_lost_after_torn_write:
  assumes "faults s = []" "clock_ok s" "memory_path st \<noteq> join_path (locksDir st) ''store.lock''"
    and "file_at s (memory_path st) = Some (d @ [CHR 0x7B])" "scan (memory_path st) d None = Inr (es, False)"
    and "SetMemory st sc i k v s = (res, t)"
  shows "(res = Inr () \<longleftrightarrow> length (bytes_at t (memory_path st)) \<le> mutableCompactionBytes) \<and>
    (\<forall>sc' i' k'. isl (fst (GetMemory st sc' i' k' (t\<lparr>faults := []\<rparr>))))"
proof -
  let ?p = "memory_path st" and ?k = "ScopedKey sc i k"
  let ?f = "wrapping (''jsonl: set memory '' @ quote ?k) (appendDomainLocked st ''memory'' ?k (memory_json v))"
  obtain s1 t1 where s1: "s1 = s\<lparr>files := files s1\<rparr>"
      "\<And>p. p \<noteq> join_path (locksDir st) ''store.lock'' \<Longrightarrow> file_at s1 p = file_at s p"
      "files t1 = files (snd (?f s1))" "withLock st ?f s = (fst (?f s1), t1)"
    by (rule quiet_withLock [OF assms(1), of st ?f]) blast
  have m: "faults s1 = []" "clock_ok s1"
    using assms(1,2) by (subst s1(1), simp add: clock_ok_def)+
  have r: "fst (?f s1) = res" "t = t1" using s1(4) assms(6) by (simp_all add: SetMemory_def)
  then obtain r0 u where u: "appendDomainLocked st ''memory'' ?k (memory_json v) s1 = (r0, u)" "snd (?f s1) = u"
      "res = Inr () \<longleftrightarrow> r0 = Inr ()"
    by (auto simp: wrapping_def split: prod.splits sum.splits)
  have b: "bytes_at s1 ?p = d @ [CHR 0x7B]" using s1(2) [OF assms(3)] assms(4) by (simp add: bytes_at_def)
  have ru: "isl (recs u ?p) \<and> (r0 = Inr () \<longleftrightarrow> length (bytes_at u ?p) \<le> mutableCompactionBytes)"
    unfolding memory_path_def
    by (rule quiet_put_bytes [OF m memory_json_ok u(1)])
      (use scan_torn_brace [OF assms(5)] b in \<open>simp add: memory_path_def\<close>)
  then have rt: "isl (recs t ?p)" "res = Inr () \<longleftrightarrow> length (bytes_at t ?p) \<le> mutableCompactionBytes"
    using r(2) s1(3) u(2,3) by (simp_all add: recs_def bytes_at_def)
  from rt(1) have "isl (domain_view t ?p)" by (cases "recs t ?p") (simp_all add: domain_view_def view_def)
  then have "isl (look_memory st t (sc', i', k'))" for sc' i' k' by (auto simp: look_memory_view split: sum.split)
  then show ?thesis using rt(2) by (simp add: look_memory_def)
qed

lemma memory_lost_after_torn_write_witness:
  "\<exists>t. SetMemory w_store ScopeUser ''u'' ''k'' ''v'' (w_memory_os [CHR 0x7B] []) = (Inr (), t) \<and>
     isl (fst (GetMemory w_store ScopeUser ''u'' ''k'' (t\<lparr>faults := []\<rparr>)))"
proof -
  obtain t where t: "SetMemory w_store ScopeUser ''u'' ''k'' ''v'' (w_memory_os [CHR 0x7B] []) = (Inr (), t)"
    by (rule w_set [of "[CHR 0x7B]" "''k''"]) simp_all
  have f: "file_at (w_memory_os [CHR 0x7B] []) (memory_path w_store) = Some ([] @ [CHR 0x7B])"
    by (simp add: w_memory_os_def w_memory_path)
  have n: "memory_path w_store \<noteq> join_path (locksDir w_store) ''store.lock''"
    unfolding w_memory_path by (simp add: w_store_def join_path_def)
  show ?thesis
    using memory_lost_after_torn_write [OF _ w_memory_clock n f scan_Nil t] t by (simp add: w_memory_os_def)
qed

text \<open>
  SaveTool, when it returns without error, returns the caller's definition with an id and
  a creation time; GetTool finds exactly that; a tool that was there keeps its id and creation
  time; and every other tool is found as before.
\<close>

theorem save_tool_keeps_identity:
  assumes "no_cut s" "clock_ok s" "domain_ready s (tools_path st) l" "tool_def_ok td" "SaveTool st td s = (Inr x, t)"
  shows "x = td\<lparr>td_id := td_id x, td_created_at := td_created_at x\<rparr> \<and>
     fst (GetTool st (td_name td) (t\<lparr>faults := []\<rparr>)) = Inr (Some x) \<and>
     (\<forall>old. fst (GetTool st (td_name td) (s\<lparr>faults := []\<rparr>)) = Inr (Some old) \<longrightarrow>
        td_id x = td_id old \<and> td_created_at x = td_created_at old) \<and>
     (\<forall>n. n \<noteq> td_name td \<longrightarrow> fst (GetTool st n (t\<lparr>faults := []\<rparr>)) = fst (GetTool st n (s\<lparr>faults := []\<rparr>)))"
  using SaveTool_post [OF assms] .

definition w_tool :: tool_def where
  "w_tool = \<lparr>td_id = [], td_agent_id = ''agent'', td_name = ''clock'', td_description = [], td_parameters = JNull,
     td_handler = ''http'', td_endpoint = [], td_headers = [], td_input_mapping = [], td_response_field = [],
     td_script_path = [], td_created_at = 0\<rparr>"

lemma save_tool_keeps_identity_witness:
  "\<exists>x t. SaveTool w_store w_tool (w_memory_os [] []) = (Inr x, t) \<and>
     fst (GetTool w_store ''clock'' (t\<lparr>faults := []\<rparr>)) = Inr (Some x) \<and> td_created_at x = 8"
proof -
  let ?s = "w_memory_os [] []" and ?x = "w_tool\<lparr>td_id := ''tool-'', td_created_at := 8\<rparr>"
  let ?f = "seq (read_domain w_store ''tools'' ''tools'') (\<lambda>live.
     seq (name_tool w_tool live) (\<lambda>td'.
     seq (wrapping (''jsonl: save tool '' @ quote (td_name td'))
            (appendDomainLocked w_store ''tools'' (td_name td') (enc_tool_def td'))) (\<lambda>_. ret td')))"
  have q: "faults ?s = []" by (simp add: w_memory_os_def)
  obtain s1 t1 where s1: "s1 = ?s\<lparr>files := files s1\<rparr>"
      "\<And>p. p \<noteq> join_path (locksDir w_store) ''store.lock'' \<Longrightarrow> file_at s1 p = file_at ?s p"
      "withLock w_store ?f ?s = (fst (?f s1), t1)"
    by (rule quiet_withLock [OF q, of w_store ?f]) blast
  have p: "file_at s1 (domainPath w_store ''tools'') = None"
    by (subst s1(2)) (simp_all add: w_memory_os_def w_store_def domainPath_def join_path_def)
  have m: "rnd s1 = (\<lambda>n. Some [])" "clk s1 = (\<lambda>n. 8000000)" "faults s1 = []"
    by (subst s1(1), simp add: w_memory_os_def)+
  have r: "read_domain w_store ''tools'' ''tools'' s1 = (Inr [], s1)"
    using m(3) p by (simp add: read_domain_def wrapping_def readLatest_def readEnvelopes_def quiet_seq_sys seq_def
        lift_result_def ret_def payloads_def)
  obtain s2 where s2: "name_tool w_tool [] s1 = (Inr ?x, s2)" "rnd s2 = rnd s1" "clk s2 = clk s1" "faults s2 = []" "files s2 = files s1"
    using m by (simp add: name_tool_def w_tool_def newID_def now_milli_def now_nano_def hex_of_def)
  have c: "clock_ok s2" using s2 m by (simp add: clock_ok_def int64_ok_def)
  have ok: "tool_def_ok ?x" by (simp add: tool_def_ok_def w_tool_def int64_ok_def)
  define e where "e = \<lparr>env_version = 1, env_event_id = ''evt-'', env_txn = [], env_type = ''put'',
      env_session = [], env_key = ''clock'', env_timestamp = 8, env_payload = Some (enc_tool_def ?x)\<rparr>"
  obtain s3 where e: "newEnvelope ''put'' [] ''clock'' (enc_tool_def ?x) s2 = (Inr e, s3)"
    using m s2 by (simp add: newEnvelope_def json_Marshal_ok json_ok_enc_defs(1) [OF ok] newID_def now_milli_def now_nano_def
        e_def schemaVersion_def hex_of_def)
  have "length (line_of e) < 2000"
    by (simp add: e_def w_tool_def line_of_def enc_envelope_def enc_tool_def_def omit_str_def enc_str_map_def
      enc_int_def render_str_def json_esc_def int_text_def nat_text.simps)
  then have "length (bytes_at s2 (domainPath w_store ''tools'')) + length (line_of e) < mutableCompactionBytes"
    using p s2(5) by (simp add: bytes_at_def mutableCompactionBytes_def)
  then obtain u where "appendDomainLocked w_store ''tools'' ''clock'' (enc_tool_def ?x) s2 = (Inr (), u)"
    using quiet_put [OF s2(4) c json_ok_enc_defs(1) [OF ok] e] by blast
  then have "fst (?f s1) = Inr ?x" using r s2(1) by (simp add: seq_def wrapping_def ret_def w_tool_def)
  then have run: "SaveTool w_store w_tool ?s = (Inr ?x, t1)" using s1(3) by (simp add: SaveTool_def w_tool_def)
  have "domain_ready ?s (tools_path w_store) []"
    unfolding domain_ready_def
    by (intro exI [of _ "[]"]) (simp add: ready_def recs_def w_memory_os_def tools_path_def domainPath_def join_path_def w_store_def)
  from save_tool_keeps_identity [OF w_memory_no_cut(1) w_memory_clock this _ run] run
  show ?thesis by (simp add: tool_def_ok_def w_tool_def int64_ok_def)
qed

text \<open>
  C26: Compaction never changes what a domain holds: whatever system call fails while the log is
  replaced, but for a read that gives part of the log and then an error (\<open>no_cut\<close>; such a read can
  pass for the whole log, and the rewrite then drops the live records behind it), a later reader
  finds the same live values, and after a compaction without error the log can be read and
  appended to.
\<close>

theorem compaction_keeps_domain:
  assumes "no_cut s" "domain_ready s (domainPath st n) l" "domain_name n"
  shows "case maybeCompactDomainLocked st n s of (r, t) \<Rightarrow>
     domain_view t (domainPath st n) = Inr (payloads l) \<and>
     (r = Inr () \<longrightarrow> domain_ready t (domainPath st n) l)"
proof -
  obtain r t where rt: "maybeCompactDomainLocked st n s = (r, t)" by force
  then show ?thesis using compact_post [OF rt assms] by simp
qed

lemma compaction_keeps_domain_witness:
  "domain_view (snd (maybeCompactDomainLocked w_store ''memory'' (w_memory_os [] [FOk, FOk, FOk, FShort 9 ''disk full''])))
     (domainPath w_store ''memory'') = Inr []"
proof -
  let ?s = "w_memory_os [] [FOk, FOk, FOk, FShort 9 ''disk full'']"
  have "domain_ready ?s (domainPath w_store ''memory'') []"
    unfolding domain_ready_def
    by (intro exI [of _ "[]"]) (simp add: ready_def recs_def w_memory_os_def domainPath_def join_path_def w_store_def)
  from compaction_keeps_domain [OF w_memory_no_cut(2) this memory_name] show ?thesis
    by (auto simp: payloads_def split: prod.splits)
qed

end
