(* ===== verification/Jsonl_Agent.thy ===== *)
theory Jsonl_Agent
  imports Library_Spec Resume_Spec Jsonl_Session_Spec Jsonl_Domain_Props
begin

text \<open>
  The agent over the JSONL store: the store's operations as the interface the agent calls, and
  what the store's guarantees make of the run's: a save the runner went past is what the next
  reader of the transcript finds.
\<close>

definition jsonl_store :: "store \<Rightarrow> os meta_store" where
  "jsonl_store st =
     \<lparr>st_CreateSession = CreateSession st, st_GetSession = GetSession st, st_ListSessions = ListSessions st,
      st_ListSessionsByUser = ListSessionsByUser st,
      st_UpdateSession = (\<lambda>sess. seq (UpdateSession st sess) (\<lambda>x. ret (x, True))),
      st_DeleteSession = DeleteSession st, st_ListTools = ListTools st, st_SaveSkill = SaveSkill st,
      st_GetSkill = GetSkill st, st_ListSkills = ListSkills st, st_DeleteSkill = DeleteSkill st,
      st_SaveMCPServer = SaveMCPServer st, st_GetMCPServer = GetMCPServer st, st_ListMCPServers = ListMCPServers st,
      st_DeleteMCPServer = DeleteMCPServer st\<rparr>"

section \<open>The copy through JSON\<close>

lemma dec_elems_same:
  "dec_elems f (map g xs) = Some ys \<Longrightarrow> (\<And>x y. x \<in> set xs \<Longrightarrow> f (g x) = Some y \<Longrightarrow> y = x) \<Longrightarrow> ys = xs"
  by (induction xs arbitrary: ys) (auto split: Option.bind_splits)

lemma dec_message_same: "dec_message (enc_message m) = Some m' \<Longrightarrow> m' = m"
proof (cases "message_ok m")
  case True
  then show "dec_message (enc_message m) = Some m' \<Longrightarrow> m' = m" using dec_message_enc by simp
next
  case False
  then have "dec_int64 (Some (enc_int (msg_created_at m))) = None" by (simp add: message_ok_def enc_int_def)
  then show "dec_message (enc_message m) = Some m' \<Longrightarrow> m' = m"
    by (auto simp: dec_message_def enc_message_def dec_struct_def split: Option.bind_splits)
qed

lemma clone_keeps:
  "sess_messages (cloneSession sess) = sess_messages sess"
  "list_all interrupt_ok (sess_open_interrupts sess) \<Longrightarrow> sess_open_interrupts (cloneSession sess) = sess_open_interrupts sess"
proof -
  have dec: "sess_messages c = sess_messages sess \<and>
      (list_all interrupt_ok (sess_open_interrupts sess) \<longrightarrow> sess_open_interrupts c = sess_open_interrupts sess)"
    if d: "dec_session (enc_session sess) = Some c" for c
  proof -
    have m: "dec_elems dec_message (map enc_message (sess_messages sess)) = Some (sess_messages c)"
      using d by (cases "sess_open_interrupts sess")
        (auto simp: dec_session_def enc_session_def dec_struct_def jmember_append jmember_omit split: Option.bind_splits)
    have i: "dec_list dec_interrupt (if sess_open_interrupts sess = [] then None else Some (JArr (map enc_interrupt (sess_open_interrupts sess))))
       = Some (sess_open_interrupts c)"
      using d by (cases "sess_open_interrupts sess")
        (auto simp: dec_session_def enc_session_def dec_struct_def jmember_append jmember_omit split: Option.bind_splits)
    have "list_all interrupt_ok (sess_open_interrupts sess) \<Longrightarrow> sess_open_interrupts c = sess_open_interrupts sess"
      using i dec_elems_enc [of "sess_open_interrupts sess" dec_interrupt enc_interrupt]
      by (auto simp: list_all_iff dec_interrupt_enc split: if_splits)
    then show ?thesis using dec_elems_same [OF m] dec_message_same by blast
  qed
  have "cloneSession sess = sess \<or> (\<exists>c. dec_session (enc_session sess) = Some c \<and> cloneSession sess = c)"
  proof (cases "json_Marshal (enc_session sess)")
    case (Inr b)
    then have "json_Unmarshal b = Some (enc_session sess)"
      using json_Marshal_Inr [OF Inr] json_Unmarshal_render by simp
    then show ?thesis using Inr by (auto simp: cloneSession_def unmarshal_def split: option.splits)
  qed (simp add: cloneSession_def)
  then show "sess_messages (cloneSession sess) = sess_messages sess"
    "list_all interrupt_ok (sess_open_interrupts sess) \<Longrightarrow> sess_open_interrupts (cloneSession sess) = sess_open_interrupts sess"
    using dec by auto
qed

section \<open>The store keeps what the runner gives it\<close>

lemma next_session_keeps:
  assumes "next_session sess cur now = Inr x"
  shows "sess_messages x = sess_messages sess"
    "list_all interrupt_ok (sess_open_interrupts sess) \<Longrightarrow> sess_open_interrupts x = sess_open_interrupts sess"
  using assms by (auto simp: next_session_def Let_def clone_keeps split: if_splits)

lemma commit_session_value: "commit_session st sid cur nxt s = (Inr x, t) \<Longrightarrow> x = nxt"
  by (auto simp: commit_session_def ret_def split: prod.splits elim!: seq_cases)

lemma withLock_value: "withLock st fn s = (Inr x, t) \<Longrightarrow> \<exists>s1 s2. fn s1 = (Inr x, s2)"
  by (auto simp: withLock_def split: prod.splits elim!: seq_cases; blast)

lemma UpdateSession_keeps:
  assumes "UpdateSession st sess s = (Inr x, t)"
  shows "\<exists>cur now. next_session sess cur now = Inr x"
proof -
  obtain s1 s2 where "update_locked st sess s1 = (Inr x, s2)"
    using assms by (auto simp: UpdateSession_def raise_def split: option.splits dest!: withLock_value)
  then show ?thesis
    by (auto simp: update_locked_def raise_def lift_result_def split: option.splits prod.splits if_splits
      elim!: seq_cases dest!: commit_session_value; blast)
qed

lemma jsonl_persist:
  assumes "ag_Store a = Some (jsonl_store st)" "persistSession a sess s = (Inr (x, fresh), t)"
  shows "UpdateSession st sess s = (Inr x, t) \<and> fresh"
  using assms by (auto simp: persistSession_def jsonl_store_def ret_def elim!: seq_cases)

lemma jsonl_content_kept: "ag_Store a = Some (jsonl_store st) \<Longrightarrow> content_kept a"
  unfolding content_kept_def
  using next_session_keeps by (blast dest: jsonl_persist UpdateSession_keeps)

lemma jsonl_replaces: "ag_Store a = Some (jsonl_store st) \<Longrightarrow> replaces_messages a"
  unfolding replaces_messages_def by (auto dest: jsonl_persist)

text \<open>
  C4: Over the JSONL store, with a provider that brings no tool results of its own, the runner's
  order is durable: every tool result a run reports comes right after a save of the session that
  holds it; and a save that returned is on disk, if no read of the transcript broke off partway and
  the session is one the store can keep (\<open>usable\<close>, as for \<open>jsonl_update_atomic\<close>): the next reader of
  the transcript finds exactly the session the runner goes on with, with the messages it handed over.
  With a read that breaks off this is false (\<open>cut_read_hides_session\<close>).
\<close>

theorem jsonl_run_durable:
  assumes "ag_Store a = Some (jsonl_store st)" "\<not> brings_results a"
  shows "results_saved (log_of (RunWithSession h mk a sid input enc) w) \<and>
    (\<forall>sess s x fresh t. usable st s sess \<and> persistSession a sess s = (Inr (x, fresh), t) \<longrightarrow>
       look st t (sess_id sess) = Inr (Some x) \<and> sess_messages x = sess_messages sess)"
proof (intro conjI allI impI)
  show "results_saved (log_of (RunWithSession h mk a sid input enc) w)"
    by (rule results_saved_run [OF jsonl_content_kept [OF assms(1)] assms(2)])
  fix sess s x fresh t
  assume u: "usable st s sess \<and> persistSession a sess s = (Inr (x, fresh), t)"
  then have "UpdateSession st sess s = (Inr x, t)" using jsonl_persist [OF assms(1)] by blast
  then show "look st t (sess_id sess) = Inr (Some x)"
    using update_post u by fastforce
  show "sess_messages x = sess_messages sess"
    using content_kept_messages [OF jsonl_content_kept [OF assms(1)]] u by fastforce
qed

definition jsonl_agent :: "os agent" where
  "jsonl_agent = (bare_agent ''a'')\<lparr>ag_Store := Some (jsonl_store w_store)\<rparr>"

definition quiet_host :: "os host" where
  "quiet_host = \<lparr>clock = (\<lambda>w. (5000000, w)), rand_bytes = (\<lambda>n w. (Some (replicate n (CHR 0x00)), w)),
     ctx_err = (\<lambda>w. (None, w)), bad_request = (\<lambda>_. None),
     http_post = (\<lambda>_ _ _. act_fail (ErrMsg ''no network'')), run_command = (\<lambda>_ _ w. (([], None), w))\<rparr>"

definition quiet_mk :: "os new_transport" where
  "quiet_mk _ _ _ = \<lparr>tp_Send = (\<lambda>_ _. act_fail nil_deref), tp_Notify = (\<lambda>_ _. act_fail nil_deref), tp_Close = act_ret ()\<rparr>"

lemma w_update_succeeds:
  "\<exists>x t. UpdateSession w_store (w_session\<lparr>sess_messages := [w_message], sess_revision := 1\<rparr>) (w_os []) = (Inr x, t)"
proof -
  let ?x = "w_session\<lparr>sess_messages := [w_message], sess_revision := 1\<rparr>"
  have "\<exists>x t. UpdateSession w_store ?x (w_os []) = (Inr x, t) \<and> session_step ?x w_session x \<and>
     look w_store t (sess_id ?x) = Inr (Some x) \<and> sess_messages x = sess_messages ?x \<and> sess_state x = sess_state ?x"
    by (rule update_succeeds)
      (simp add: w_os_def, rule w_usable, simp_all add: no_cut_def w_os_def w_look [unfolded w_os_def] w_session_def
        new_session_def zero_session_def max_int64_def)
  then show ?thesis by blast
qed

theorem jsonl_run_durable_witness:
  "results_saved (log_of (RunWithSession quiet_host quiet_mk jsonl_agent ''s1'' ''hi'' (Some ''agui'')) (w_os [])) \<and>
   (\<exists>x t. persistSession jsonl_agent (w_session\<lparr>sess_messages := [w_message], sess_revision := 1\<rparr>) (w_os []) = (Inr (x, True), t) \<and>
      look w_store t ''s1'' = Inr (Some x) \<and> sess_messages x = [w_message])"
proof -
  let ?x = "w_session\<lparr>sess_messages := [w_message], sess_revision := 1\<rparr>"
  have a: "ag_Store jsonl_agent = Some (jsonl_store w_store)" "\<not> brings_results jsonl_agent"
    by (simp_all add: jsonl_agent_def bare_agent_def brings_results_def)
  obtain x t where u: "UpdateSession w_store ?x (w_os []) = (Inr x, t)" using w_update_succeeds by blast
  then have p: "persistSession jsonl_agent ?x (w_os []) = (Inr (x, True), t)"
    by (simp add: persistSession_def a(1) jsonl_store_def seq_def ret_def)
  have us: "usable w_store (w_os []) ?x" by (rule w_usable) (simp add: no_cut_def w_os_def)
  have i: "sess_id ?x = ''s1''" by (simp add: w_session_def)
  show ?thesis
    using jsonl_run_durable [OF a, of quiet_host quiet_mk "''s1''" "''hi''" "Some ''agui''" "w_os []"] us p i by fastforce
qed

end
