(* ===== verification/Jsonl_Cut.thy ===== *)
theory Jsonl_Cut
  imports Jsonl_Session_Spec
begin

text \<open>
  A read of a transcript that breaks off. ReadBytes hands over what it got together with the error,
  and readEnvelopes takes any bytes without a newline for the last record of the file: when the
  read breaks off between a record and its newline, the beginning of the log is taken for the whole,
  and the repair puts a newline behind the newline the file ends with. From then on the file has an
  empty line, which every reader refuses.
\<close>

section \<open>The read\<close>

lemma scan_empty_line: "scan p d None = Inr (es, False) \<Longrightarrow> isl (scan p (d @ CHR 0x0A # r) None)"
  using scan_append [of p d es False "CHR 0x0A # r" None] scan_line [of "[]" p r None]
  by (simp add: terminated_def decode_line_def trim_cr_def)

text \<open>Behind complete records the file has an empty line.\<close>

definition ends_blank :: "os \<Rightarrow> string \<Rightarrow> bool" where
  "ends_blank s p \<longleftrightarrow> (\<exists>b r es. file_at s p = Some (b @ CHR 0x0A # r) \<and> scan p b None = Inr (es, False))"

lemma blank_unreadable: "ends_blank s p \<Longrightarrow> isl (recs s p)"
  by (auto simp: ends_blank_def recs_def scan_empty_line)

lemma blank_at: "file_at t p = file_at s p \<Longrightarrow> ends_blank s p \<Longrightarrow> ends_blank t p"
  by (simp add: ends_blank_def)

lemma blank_add: "ends_blank s p \<Longrightarrow> ends_blank (add_bytes q b s) p"
  by (cases "q = p") (fastforce simp: ends_blank_def add_bytes_def)+

lemma blank_hides:
  assumes "ends_blank s (transcript st sid)" "valid_id st sid" "transcript st sid \<notin> set (symlinks s)"
  shows "isl (look st s sid)"
  using blank_unreadable [OF assms(1)] look_view [OF assms(2,3)]
  by (cases "recs s (transcript st sid)") (auto simp: session_view_def view_def)

text \<open>
  The bytes read end with the text of a record, its newline is not there any more: the records up
  to it are returned, and a newline is put at the end of the file, behind the newline it has.
\<close>

lemma cut_read:
  assumes "file_at s p = Some (d @ line_of e @ CHR 0x0A # rest)" "scan p d None = Inr (es, False)" "env_ok e"
    and "scan p rest None = Inr (es', False)" "faults s = [FOk, FCut (length (d @ line_of e)) m]"
  shows "\<exists>t. readEnvelopes p s = (Inr (es @ [e]), t) \<and> t = s\<lparr>files := files t, faults := []\<rparr> \<and> ends_blank t p"
proof -
  let ?all = "d @ line_of e @ CHR 0x0A # rest"
  let ?t = "set_file p (?all @ [CHR 0x0A]) (s\<lparr>faults := []\<rparr>)"
  have n: "line_of e \<noteq> []" using line_of_head [of e] by auto
  have cut: "scan p (d @ line_of e) (Some m) = Inr (es @ [e], True)"
    using scan_append [OF assms(2), of "line_of e" "Some m"] scan_rest [OF line_of_no_newline [OF assms(3)] n, of p "Some m"]
    by (simp add: terminated_def decode_line_of assms(3))
  have whole: "scan p ?all None = Inr (es @ e # es', False)"
    using scan_append [OF assms(2), of "line_of e @ CHR 0x0A # rest" None] scan_line [OF line_of_no_newline [OF assms(3)], of p rest None]
    by (simp add: terminated_def decode_line_of assms(3,4))
  have "readEnvelopes p s = (Inr (es @ [e]), ?t)"
    using assms(1,5) cut
    by (simp add: readEnvelopes_def seq_def sys_def next_fault_def read_bytes_def wrapping_def repairFinalNewline_def
      write_sync_close_def write_bytes_def add_bytes_def ret_def)
  moreover have "ends_blank ?t p" unfolding ends_blank_def
    by (rule exI [of _ ?all], rule exI [of _ "[]"], rule exI [of _ "es @ e # es'"]) (simp add: whole)
  moreover have "?t = s\<lparr>files := files ?t, faults := []\<rparr>" by (simp add: set_file_def)
  ultimately show ?thesis by blast
qed

lemma sys_next: "faults s = FOk # fs \<Longrightarrow> sys s = (Inr (), s\<lparr>faults := fs\<rparr>)"
  by (simp add: sys_def next_fault_def)

lemma lock_then:
  assumes "faults s = FOk # FOk # FOk # FOk # FOk # fs" "p \<noteq> join_path (locksDir st) ''store.lock''"
  obtains s1 where "s1 = s\<lparr>files := files s1, faults := fs\<rparr>" "file_at s1 p = file_at s p"
    "withLock st fn s = (fst (fn s1), snd (sys (snd (sys (snd (fn s1))))))"
proof -
  let ?p = "join_path (locksDir st) ''store.lock''"
  let ?s0 = "s\<lparr>faults := FOk # FOk # fs\<rparr>"
  let ?s1 = "case file_at s ?p of Some _ \<Rightarrow> ?s0 | None \<Rightarrow> set_file ?p [] ?s0"
  have f: "faults ?s1 = FOk # FOk # fs" by (simp split: option.split)
  have o: "open_create ?p (s\<lparr>faults := FOk # FOk # FOk # fs\<rparr>) = (Inr (), ?s1)"
    by (simp add: open_create_def seq_def sys_next)
  have c: "chmod_or_close ?s1 = (Inr (), ?s1\<lparr>faults := FOk # fs\<rparr>)"
    by (simp add: chmod_or_close_def sys_next [OF f])
  have l: "wait_lock (?s1\<lparr>faults := FOk # fs\<rparr>) = (Inr (), ?s1\<lparr>faults := fs\<rparr>)"
    by (subst wait_lock.simps) simp
  have "withLock st fn s = (fst (fn (?s1\<lparr>faults := fs\<rparr>)), snd (sys (snd (sys (snd (fn (?s1\<lparr>faults := fs\<rparr>)))))))"
    using assms(1) o c l by (simp add: withLock_def seq_def sys_next wrapping_def split: prod.split)
  then show ?thesis using that [of "?s1\<lparr>faults := fs\<rparr>"] assms(2) by (auto simp: set_file_def split: option.split)
qed

lemma sys_only: "snd (sys s)\<lparr>faults := []\<rparr> = s\<lparr>faults := []\<rparr>"
  by (simp add: sys_def next_fault_def split: list.split option.split)

text \<open>GetSession's part under the lock.\<close>

lemma cut_session:
  assumes "valid_id st sid" "transcript st sid \<notin> set (symlinks s)"
    and "file_at s (transcript st sid) = Some (d @ line_of e @ CHR 0x0A # rest)" "env_ok e"
    and "scan (transcript st sid) d None = Inr (es, False)" "scan (transcript st sid) rest None = Inr (es', False)"
    and "faults s = [FOk, FOk, FCut (length (d @ line_of e)) m]"
  shows "\<exists>t. getSessionLocked st sid s = (sessions_of sid (es @ [e]), t) \<and> t = s\<lparr>files := files t, faults := []\<rparr> \<and>
     ends_blank t (transcript st sid)"
proof -
  let ?p = "transcript st sid" and ?s1 = "s\<lparr>faults := [FOk, FCut (length (d @ line_of e)) m]\<rparr>"
  have p: "sessionPath st sid s = (Inr ?p, ?s1)"
    using assms(1,2,7) by (simp add: sessionPath_eq sys_def next_fault_def)
  obtain t where t: "readEnvelopes ?p ?s1 = (Inr (es @ [e]), t)" "t = ?s1\<lparr>files := files t, faults := []\<rparr>" "ends_blank t ?p"
    using cut_read [of ?s1 ?p d e rest es es' m] assms(3-6) by auto
  have "getSessionLocked st sid s = (sessions_of sid (es @ [e]), t)"
    using p t(1) by (auto simp: getSessionLocked_def seq_def wrapping_def lift_result_def ret_def sessions_of_def split: sum.split)
  then show ?thesis using t(2,3) by (intro exI [of _ t]) simp
qed

section \<open>The update after it\<close>

lemma blank_append:
  assumes "faults s = []" "env_ok e" "appendEnvelope q e s = (r, t)" "ends_blank s p"
  shows "ends_blank t p"
proof -
  have t: "t = add_bytes q (line_of e @ [CHR 0x0A]) (if file_at s q = None then set_file q [] s else s)"
    using quiet_append [OF assms(1,2), of q] assms(3) by simp
  have "ends_blank (if file_at s q = None then set_file q [] s else s) p"
    using assms(4) by (cases "q = p") (auto simp: ends_blank_def)
  then show ?thesis unfolding t by (rule blank_add)
qed

lemma blank_append_events:
  "faults s = [] \<Longrightarrow> \<forall>e \<in> set evs. env_ok e \<Longrightarrow> append_events q evs s = (r, t) \<Longrightarrow> ends_blank s p \<Longrightarrow> ends_blank t p"
proof (induction evs arbitrary: s)
  case (Cons e evs)
  obtain r1 s1 where a: "appendEnvelope q e s = (r1, s1)" by force
  have b: "ends_blank s1 p" by (rule blank_append [OF Cons.prems(1) _ a Cons.prems(4)]) (use Cons.prems(2) in simp)
  have q: "faults s1 = []" by (rule ok_quiet' [OF a frames_append Cons.prems(1)]) simp
  have "r1 = Inr ()" using quiet_append [OF Cons.prems(1), of e q] Cons.prems(2) a by simp
  then have "append_events q evs s1 = (r, t)" using Cons.prems(3) a by (simp add: seq_def wrapping_def)
  then show ?case using Cons.IH [OF q _ _ b] Cons.prems(2) by simp
qed (simp add: ret_def)

lemma blank_commit:
  assumes run: "commit_session st sid cur nxt s = (Inr x, t)" and b: "ends_blank s (transcript st sid)"
    and q: "faults s = []" and v: "valid_id st sid" "transcript st sid \<notin> set (symlinks s)" "store_ok st"
    and ok: "clock_ok s" "session_ok nxt" "distinct (map msg_id (sess_messages nxt))"
  shows "isl (look st t sid)"
proof -
  let ?p = "transcript st sid"
  obtain i s1 where i: "newID ''txn-'' s = (i, s1)" by force
  have "seq (sessionMessageChanges i sid (sess_messages cur) (sess_messages nxt)) (\<lambda>events.
       seq (wrapping ''jsonl: marshal session update'' (newEnvelope ''session.updated'' sid [] (meta_json nxt))) (\<lambda>e.
       seq (append_events ?p events) (\<lambda>_.
       seq (wrapping ''jsonl: update session'' (appendEnvelope ?p (e\<lparr>env_txn := i\<rparr>))) (\<lambda>_.
       seq (ignoring (appendIndexLocked st (Inr nxt))) (\<lambda>_.
       ret nxt))))) s1 = (Inr x, t)"
    using run i by (simp add: commit_session_def seq_def quiet_sessionPath [OF q v(1,2)])
  then obtain evs s2 e s3 s4 u s5 where steps:
      "sessionMessageChanges i sid (sess_messages cur) (sess_messages nxt) s1 = (Inr evs, s2)"
      "newEnvelope ''session.updated'' sid [] (meta_json nxt) s2 = (Inr e, s3)"
      "append_events ?p evs s3 = (Inr (), s4)"
      "appendEnvelope ?p (e\<lparr>env_txn := i\<rparr>) s4 = (Inr (), s5)"
      "appendIndexLocked st (Inr nxt) s5 = (u, t)"
    by (auto simp: ret_def ignoring_def elim!: seq_cases wrapping_cases) (metis prod.collapse)
  note n = newID_frame [OF i]
  have q1: "faults s1 = []" and c1: "clock_ok s1" using n q ok(1) by (simp_all add: clock_ok_def)
  have q2: "faults s2 = []" by (rule ok_quiet [OF steps(1) frames_sessionMessageChanges q1])
  have e2: "\<forall>e \<in> set evs. env_ok e" "clock_ok s2"
    using sessionMessageChanges_post [OF steps(1) c1] ok(2,3) by (auto simp: session_ok_def)
  have q3: "faults s3 = []" by (rule ok_quiet [OF steps(2) frames_newEnvelope q2])
  have eok: "env_ok e" using newEnvelope_ok(1) [OF steps(2) e2(2) json_ok_meta [OF ok(2)]] by simp
  have f: "files s3 = files s"
    using newEnvelope_files [OF steps(2)] sessionMessageChanges_files [OF steps(1)] n by simp
  have b4: "ends_blank s4 ?p"
    by (rule blank_append_events [OF q3 e2(1) steps(3)]) (use b f in \<open>simp add: ends_blank_def\<close>)
  have q4: "faults s4 = []" by (rule ok_quiet' [OF steps(3) frames_append_events q3]) simp
  have b5: "ends_blank s5 ?p" by (rule blank_append [OF q4 _ steps(4) b4]) (simp add: eok)
  have q5: "faults s5 = []" by (rule ok_quiet' [OF steps(4) frames_append q4]) simp
  have k: "keeps (not_index st) s5 t" by (rule frames_keeps [OF frames_appendIndex steps(5)])
  have "isl (view t ?p)"
    using keeps_view [OF k quiet_no_cut [OF q5] transcript_not_index [OF v(3,1)]] blank_unreadable [OF b5]
    by (cases "recs s5 ?p") (simp_all add: view_def)
  then show ?thesis
    using look_view [OF v(1), of t] v(2) frames_keeps [OF frames_commit_session [OF v(1)] run]
    by (auto simp: session_view_def keeps_def split: sum.splits)
qed

lemma cut_update:
  assumes "valid_id st sid" "transcript st sid \<notin> set (symlinks s)" "store_ok st" "clock_ok s"
    and b: "ends_blank t (transcript st sid)" "t = s\<lparr>files := files t, faults := []\<rparr>"
    and g: "getSessionLocked st sid s = (Inr (Some cur), t)" "sessions_of sid es = Inr (Some cur)"
    and u: "sess_id sess = sid" "session_ok sess" "distinct (map msg_id (sess_messages sess))"
      "sess_revision sess = sess_revision cur" "sess_revision cur \<noteq> - 1" "sess_updated_at cur \<noteq> max_int64"
  shows "\<exists>x u. update_locked st sess s = (Inr x, u) \<and> session_step sess cur x \<and> isl (look st u sid)"
proof -
  have t: "faults t = []" "clk t = clk s" "symlinks t = symlinks s"
    by (subst b(2), simp)+
  obtain now t1 where now: "now_milli t = (now, t1)" by force
  have t1: "t1 = t\<lparr>clk_pos := clk_pos t1\<rparr>" using now by (auto simp: now_milli_def now_nano_def)
  have nowok: "int64_ok now" using now assms(4) t(2) by (auto simp: now_milli_def now_nano_def clock_ok_def)
  obtain rp where "times_ok cur" by (rule sessions_of_live [OF g(2)])
  obtain x where x: "next_session sess cur now = Inr x"
    using u(6) by (cases "next_session sess cur now") (auto simp: next_session_def Let_def split: if_splits)
  note st' = next_session_step [OF x u(2) \<open>times_ok cur\<close> nowok u(4,5)]
  have same: "faults t1 = []" "transcript st sid \<notin> set (symlinks t1)" "clock_ok t1" "ends_blank t1 (transcript st sid)"
    using t assms(2,4) b(1) by (subst t1, simp add: clock_ok_def ends_blank_def)+
  have d: "distinct (map msg_id (sess_messages x))" using u(3) st'(4) by simp
  obtain y v where y: "commit_session st sid cur x t1 = (Inr y, v)"
    using good_commit [OF same(1) assms(1) same(2,3) st'(2) d, of cur] by (auto simp: good_def) (metis prod.collapse sum.collapse(2))
  have "y = x" using y by (auto simp: commit_session_def ret_def split: prod.splits elim!: seq_cases)
  moreover have "isl (look st v sid)"
    by (rule blank_commit [OF y same(4,1) assms(1) same(2) assms(3) same(3) st'(2) d])
  moreover have "update_locked st sess s = (Inr y, v)"
    using g(1) y x now u(1,4,5) by (simp add: update_locked_def seq_def lift_result_def)
  ultimately show ?thesis using st'(1) by blast
qed

section \<open>What the break leaves\<close>

text \<open>
  C37: A read of a transcript that breaks off behind a record, before its newline, damages the
  session for good. Let the transcript be complete records \<open>es\<close>, \<open>e\<close>, \<open>es'\<close>, and let the one
  read of a call give its bytes up to the end of \<open>e\<close> and then an error, with no other fault. GetSession
  reports no error: it returns the session as \<open>es\<close> and \<open>e\<close> have it, without \<open>es'\<close>; UpdateSession
  from that session's revision returns a committed session. Afterwards no reader is given the
  session any more: every GetSession fails.
\<close>

theorem cut_read_hides_session:
  assumes "valid_id st sid" "transcript st sid \<notin> set (symlinks s)" "store_ok st" "clock_ok s"
    and "transcript st sid \<noteq> join_path (locksDir st) ''store.lock''"
    and "file_at s (transcript st sid) = Some (d @ line_of e @ CHR 0x0A # rest)" "env_ok e"
    and "scan (transcript st sid) d None = Inr (es, False)" "scan (transcript st sid) rest None = Inr (es', False)"
    and "faults s = replicate 7 FOk @ [FCut (length (d @ line_of e)) m]"
    and "sessions_of sid (es @ [e]) = Inr (Some cur)"
  shows "(\<exists>t. GetSession st sid s = (Inr (Some cur), t) \<and> isl (look st t sid)) \<and>
    (\<forall>sess. sess_id sess = sid \<and> session_ok sess \<and> distinct (map msg_id (sess_messages sess)) \<and>
       sess_revision sess = sess_revision cur \<and> sess_revision cur \<noteq> - 1 \<and> sess_updated_at cur \<noteq> max_int64 \<longrightarrow>
       (\<exists>x t. UpdateSession st sess s = (Inr x, t) \<and> session_step sess cur x \<and> isl (look st t sid)))"
proof -
  let ?p = "transcript st sid" and ?cut = "[FOk, FOk, FCut (length (d @ line_of e)) m]"
  have f: "faults s = FOk # FOk # FOk # FOk # FOk # ?cut"
    using assms(10) by (simp add: numeral_eq_Suc)
  have cut: "\<exists>t. getSessionLocked st sid s1 = (Inr (Some cur), t) \<and> t = s1\<lparr>files := files t, faults := []\<rparr> \<and> ends_blank t ?p"
    if s1: "s1 = s\<lparr>files := files s1, faults := ?cut\<rparr>" "file_at s1 ?p = file_at s ?p" for s1
  proof -
    have "symlinks s1 = symlinks s" "faults s1 = ?cut" by (subst s1(1), simp)+
    then show ?thesis using cut_session [OF assms(1) _ _ assms(7-9), of s1 m] assms(2,6,11) s1(2) by simp
  qed
  have "\<exists>t. GetSession st sid s = (Inr (Some cur), t) \<and> isl (look st t sid)"
  proof -
    obtain s1 where s1: "s1 = s\<lparr>files := files s1, faults := ?cut\<rparr>" "file_at s1 ?p = file_at s ?p"
        "GetSession st sid s = (fst (getSessionLocked st sid s1), snd (sys (snd (sys (snd (getSessionLocked st sid s1))))))"
      using lock_then [OF f assms(5), of "getSessionLocked st sid"] unfolding GetSession_def by blast
    obtain t where t: "getSessionLocked st sid s1 = (Inr (Some cur), t)" "t = s1\<lparr>files := files t, faults := []\<rparr>" "ends_blank t ?p"
      using cut [OF s1(1,2)] by blast
    have "faults t = []" "symlinks t = symlinks s" by (subst t(2), subst s1(1), simp)+
    then show ?thesis using s1(3) t(1) blank_hides [OF t(3) assms(1)] assms(2) by simp
  qed
  moreover have "\<exists>x t. UpdateSession st sess s = (Inr x, t) \<and> session_step sess cur x \<and> isl (look st t sid)"
    if u: "sess_id sess = sid" "session_ok sess" "distinct (map msg_id (sess_messages sess))"
      "sess_revision sess = sess_revision cur" "sess_revision cur \<noteq> - 1" "sess_updated_at cur \<noteq> max_int64" for sess
  proof -
    obtain s1 where s1: "s1 = s\<lparr>files := files s1, faults := ?cut\<rparr>" "file_at s1 ?p = file_at s ?p"
        "withLock st (update_locked st sess) s = (fst (update_locked st sess s1), snd (sys (snd (sys (snd (update_locked st sess s1))))))"
      using lock_then [OF f assms(5), of "update_locked st sess"] by blast
    obtain t where t: "getSessionLocked st sid s1 = (Inr (Some cur), t)" "t = s1\<lparr>files := files t, faults := []\<rparr>" "ends_blank t ?p"
      using cut [OF s1(1,2)] by blast
    have s1': "symlinks s1 = symlinks s" "clock_ok s1" using assms(4) by (subst s1(1), simp add: clock_ok_def)+
    obtain x v where x: "update_locked st sess s1 = (Inr x, v)" "session_step sess cur x" "isl (look st v sid)"
      using cut_update [OF assms(1) _ assms(3) s1'(2) t(3,2,1) assms(11) u] assms(2) s1'(1) by auto
    have "look st (snd (sys (snd (sys v)))) sid = look st v sid"
      by (simp add: look_def sys_only)
    then show ?thesis using x s1(3) u(1) assms(1) by (simp add: UpdateSession_def valid_id_def)
  qed
  ultimately show ?thesis by blast
qed

definition w_cut :: os where
  "w_cut = w_os (replicate 7 FOk @ [FCut (length (line_of w_created)) ''input/output error''])"

theorem cut_read_hides_session_witness:
  "(\<exists>t. GetSession w_store ''s1'' w_cut = (Inr (Some w_session), t) \<and> isl (look w_store t ''s1'')) \<and>
   (\<exists>x t. UpdateSession w_store (w_session\<lparr>sess_messages := [w_message], sess_revision := 1\<rparr>) w_cut = (Inr x, t) \<and>
      isl (look w_store t ''s1''))"
proof -
  let ?p = "transcript w_store ''s1''" and ?x = "w_session\<lparr>sess_messages := [w_message], sess_revision := 1\<rparr>"
  have c: "transcript w_store ''s1'' \<notin> set (symlinks w_cut)" "clock_ok w_cut"
    "?p \<noteq> join_path (locksDir w_store) ''store.lock''"
    "file_at w_cut ?p = Some ([] @ line_of w_created @ CHR 0x0A # [])"
    "faults w_cut = replicate 7 FOk @ [FCut (length ([] @ line_of w_created)) ''input/output error'']"
    "sessions_of ''s1'' ([] @ [w_created]) = Inr (Some w_session)"
    by (simp_all add: w_cut_def w_clock w_transcript w_sessions_of) (simp_all add: w_os_def w_store_def join_path_def)
  have u: "sess_id ?x = ''s1''" "session_ok ?x" "distinct (map msg_id (sess_messages ?x))" "sess_revision ?x = sess_revision w_session"
    "sess_revision w_session \<noteq> - 1" "sess_updated_at w_session \<noteq> max_int64"
    using w_usable [of "[]" 1] by (simp_all add: usable_def update_input_ok_def no_cut_def w_os_def w_session_def new_session_def
      zero_session_def max_int64_def)
  show ?thesis
    using cut_read_hides_session [OF w_valid c(1) w_store_ok c(2-4) w_created_ok scan_Nil scan_Nil c(5,6)] u by blast
qed

end
