(* ===== verification/Protocols.thy ===== *)
theory Protocols
  imports Agent_Core
begin

text \<open>
  The package protocol: the encoders that put the events of a run on an HTTP response, for AG-UI
  (protocol/agui) and for the AI SDK (protocol/aisdk), and the registry that picks one by the
  Accept header. The response writer is an interface; a stream of events is what the encoder's
  select takes, in the order it takes it.
\<close>

section \<open>Writers and streams\<close>

text \<open>io.Writer, with the Flush it may have.\<close>

record 'w writer =
  wr_Write :: "string \<Rightarrow> ('w, unit) act"
  wr_Flush :: "('w \<Rightarrow> 'w) option"

text \<open>What one turn of the select takes: an event, the closed channel, or the end of the context.\<close>

datatype arrival = Arrived event | Closed | Cancelled error

text \<open>A Go map written as a composite literal.\<close>

definition go_map :: "(string \<times> 'a) list \<Rightarrow> (string \<times> 'a) list" where
  "go_map kvs = fold (\<lambda>(k, v). map_put k v) kvs []"

definition blank_line :: string where
  "blank_line = [CHR 0x0A, CHR 0x0A]"

definition writeSSE :: "'w writer \<Rightarrow> (string \<times> json) list \<Rightarrow> ('w, unit) act" where
  "writeSSE wr data =
     act_seq (act_lift (json_Marshal (JObj data))) (\<lambda>b. wr_Write wr (''data: '' @ b @ blank_line))"

definition flush :: "'w writer \<Rightarrow> ('w, unit) act" where
  "flush wr w = (Inr (), case wr_Flush wr of None \<Rightarrow> w | Some f \<Rightarrow> f w)"

section \<open>Times on the wire\<close>

text \<open>
  \<open>t.UTC().Format(...)\<close> with the layout of RFC 3339 to the second, for a time in nanoseconds since
  1970: the proleptic Gregorian date by eras of 400 years that start in March.
\<close>

definition civil_from_days :: "int \<Rightarrow> int \<times> int \<times> int" where
  "civil_from_days z =
     (let era = (z + 719468) div 146097; doe = (z + 719468) mod 146097;
          yoe = (doe - doe div 1460 + doe div 36524 - doe div 146096) div 365;
          doy = doe - (365 * yoe + yoe div 4 - yoe div 100);
          mp = (5 * doy + 2) div 153;
          d = doy - (153 * mp + 2) div 5 + 1;
          m = (if mp < 10 then mp + 3 else mp - 9)
      in (yoe + era * 400 + (if m \<le> 2 then 1 else 0), m, d))"

definition padded :: "nat \<Rightarrow> int \<Rightarrow> string" where
  "padded width i =
     (let s = nat_text (nat \<bar>i\<bar>) in (if i < 0 then ''-'' else []) @ replicate (width - length s) (CHR ''0'') @ s)"

definition rfc3339 :: "int \<Rightarrow> string" where
  "rfc3339 ns =
     (let secs = ns div 1000000000; t = secs mod 86400 in
      case civil_from_days (secs div 86400) of (y, m, d) \<Rightarrow>
        padded 4 y @ ''-'' @ padded 2 m @ ''-'' @ padded 2 d @ ''T'' @ padded 2 (t div 3600) @ '':''
        @ padded 2 (t div 60 mod 60) @ '':'' @ padded 2 (t mod 60) @ ''Z'')"

section \<open>AG-UI\<close>

definition wire_interrupt :: "ainterrupt \<Rightarrow> (string \<times> json) list" where
  "wire_interrupt i = go_map
     ([(''id'', JStr (ai_id i)), (''reason'', JStr (ai_reason i)), (''message'', JStr (ai_message i))]
      @ (if ai_tool_call_id i = [] then [] else [(''toolCallId'', JStr (ai_tool_call_id i))])
      @ (if ai_response_schema i = [] then [] else [(''responseSchema'', JObj (ai_response_schema i))])
      @ (case ai_expires_at i of None \<Rightarrow> [] | Some t \<Rightarrow> [(''expiresAt'', JStr (rfc3339 t))])
      @ (if ai_metadata i = [] then [] else [(''metadata'', JObj (ai_metadata i))]))"

definition interruptsToWire :: "ainterrupt list \<Rightarrow> json" where
  "interruptsToWire ins = JArr (map (\<lambda>i. JObj (wire_interrupt i)) ins)"

text \<open>The frame of an event; nothing is written for the others.\<close>

fun agui_frame :: "event \<Rightarrow> (string \<times> json) list option" where
  "agui_frame (RunStarted thread run _) =
     Some (go_map [(''type'', JStr ''RUN_STARTED''), (''threadId'', JStr thread), (''runId'', JStr run)])"
| "agui_frame (TextStart i _) =
     Some (go_map [(''type'', JStr ''TEXT_MESSAGE_START''), (''messageId'', JStr i), (''role'', JStr ''assistant'')])"
| "agui_frame (TextDelta i d) =
     Some (go_map [(''type'', JStr ''TEXT_MESSAGE_CONTENT''), (''messageId'', JStr i), (''delta'', JStr d)])"
| "agui_frame (TextEnd i) = Some (go_map [(''type'', JStr ''TEXT_MESSAGE_END''), (''messageId'', JStr i)])"
| "agui_frame (ToolCallStart i n) =
     Some (go_map [(''type'', JStr ''TOOL_CALL_START''), (''toolCallId'', JStr i), (''toolCallName'', JStr n)])"
| "agui_frame (ToolCallArgs i d) =
     Some (go_map [(''type'', JStr ''TOOL_CALL_ARGS''), (''toolCallId'', JStr i), (''delta'', JStr d)])"
| "agui_frame (ToolCallEnd i _) = Some (go_map [(''type'', JStr ''TOOL_CALL_END''), (''toolCallId'', JStr i)])"
| "agui_frame (ToolResultEv i r) =
     Some (go_map [(''type'', JStr ''TOOL_CALL_RESULT''), (''toolCallId'', JStr i), (''content'', JStr r),
       (''role'', JStr ''tool'')])"
| "agui_frame (StateSnapshot m) = Some (go_map [(''type'', JStr ''STATE_SNAPSHOT''), (''snapshot'', JObj m)])"
| "agui_frame (StateDelta ds) = Some (go_map [(''type'', JStr ''STATE_DELTA''), (''delta'', JArr ds)])"
| "agui_frame (ReasoningStart i) = Some (go_map [(''type'', JStr ''REASONING_START''), (''messageId'', JStr i)])"
| "agui_frame (ReasoningMessageStart i r) =
     Some (go_map [(''type'', JStr ''REASONING_MESSAGE_START''), (''messageId'', JStr i), (''role'', JStr r)])"
| "agui_frame (ReasoningMessageContent i d) =
     Some (go_map [(''type'', JStr ''REASONING_MESSAGE_CONTENT''), (''messageId'', JStr i), (''delta'', JStr d)])"
| "agui_frame (ReasoningMessageEnd i) =
     Some (go_map [(''type'', JStr ''REASONING_MESSAGE_END''), (''messageId'', JStr i)])"
| "agui_frame (ReasoningEnd i) = Some (go_map [(''type'', JStr ''REASONING_END''), (''messageId'', JStr i)])"
| "agui_frame (RunFinished thread run outcome ins result) =
     Some (go_map ([(''type'', JStr ''RUN_FINISHED''), (''threadId'', JStr thread), (''runId'', JStr run)]
       @ (if outcome = OutcomeInterrupt
          then [(''outcome'', JStr ''interrupt''), (''interrupts'', interruptsToWire ins)]
          else case result of None \<Rightarrow> [] | Some r \<Rightarrow> [(''result'', r)])))"
| "agui_frame (RunErrorEv m c) =
     Some (go_map [(''type'', JStr ''RUN_ERROR''), (''message'', JStr m), (''code'', JStr c)])"
| "agui_frame DoneEv = None"
| "agui_frame (ErrorEv _) = None"

definition agui_Encode :: "'w writer \<Rightarrow> event \<Rightarrow> ('w, unit) act" where
  "agui_Encode wr ev = (case agui_frame ev of None \<Rightarrow> act_ret () | Some frame \<Rightarrow> writeSSE wr frame)"

text \<open>\<open>None\<close> when the encoder still waits for its next event.\<close>

fun agui_EncodeStream :: "'w writer \<Rightarrow> arrival list \<Rightarrow> 'w \<Rightarrow> (error + unit) option \<times> 'w" where
  "agui_EncodeStream wr [] w = (None, w)"
| "agui_EncodeStream wr (Cancelled e # _) w = (Some (Inl e), w)"
| "agui_EncodeStream wr (Closed # _) w = (Some (Inr ()), w)"
| "agui_EncodeStream wr (Arrived ev # rest) w =
     (case act_seq (agui_Encode wr ev) (\<lambda>_. flush wr) w of
        (Inl e, w1) \<Rightarrow> (Some (Inl e), w1)
      | (Inr _, w1) \<Rightarrow> agui_EncodeStream wr rest w1)"

section \<open>AI SDK\<close>

definition writeData :: "'w writer \<Rightarrow> (string \<times> json) list \<Rightarrow> ('w, unit) act" where
  "writeData wr data =
     act_seq (act_lift (json_Marshal (JObj data))) (\<lambda>b. wr_Write wr (''data: '' @ b @ blank_line))"

definition available_input :: "string \<Rightarrow> json" where
  "available_input args =
     (if args = [] then JObj []
      else case json_Unmarshal args of None \<Rightarrow> JStr args | Some v \<Rightarrow> canon v)"

text \<open>A frame, nothing, or the panic of a nil error's Error method.\<close>

fun aisdk_frame :: "event \<Rightarrow> error + (string \<times> json) list option" where
  "aisdk_frame (TextStart i _) = Inr (Some (go_map [(''type'', JStr ''start''), (''messageId'', JStr i)]))"
| "aisdk_frame (TextDelta _ d) = Inr (Some (go_map [(''type'', JStr ''text-delta''), (''delta'', JStr d)]))"
| "aisdk_frame (ToolCallStart i n) =
     Inr (Some (go_map [(''type'', JStr ''tool-input-start''), (''toolCallId'', JStr i), (''toolName'', JStr n)]))"
| "aisdk_frame (ToolCallArgs i d) =
     Inr (Some (go_map [(''type'', JStr ''tool-input-delta''), (''toolCallId'', JStr i), (''delta'', JStr d)]))"
| "aisdk_frame (ToolCallEnd i args) =
     Inr (Some (go_map [(''type'', JStr ''tool-input-available''), (''toolCallId'', JStr i), (''input'', available_input args)]))"
| "aisdk_frame (ToolResultEv i r) =
     Inr (Some (go_map [(''type'', JStr ''tool-output-available''), (''toolCallId'', JStr i), (''output'', JStr r)]))"
| "aisdk_frame (ReasoningMessageContent _ d) = Inr (Some (go_map [(''type'', JStr ''reasoning''), (''delta'', JStr d)]))"
| "aisdk_frame (StateSnapshot m) = Inr (Some (go_map [(''type'', JStr ''state-snapshot''), (''snapshot'', JObj m)]))"
| "aisdk_frame (StateDelta ds) = Inr (Some (go_map [(''type'', JStr ''state-delta''), (''delta'', JArr ds)]))"
| "aisdk_frame DoneEv = Inr None"
| "aisdk_frame (ErrorEv x) =
     (case x of None \<Rightarrow> Inl nil_deref
      | Some e \<Rightarrow> Inr (Some (go_map [(''type'', JStr ''error''), (''error'', JStr (error_text e))])))"
| "aisdk_frame _ = Inr None"

definition aisdk_Encode :: "'w writer \<Rightarrow> event \<Rightarrow> ('w, unit) act" where
  "aisdk_Encode wr ev =
     (case aisdk_frame ev of Inl e \<Rightarrow> act_fail e | Inr None \<Rightarrow> act_ret () | Inr (Some frame) \<Rightarrow> writeData wr frame)"

definition done_frame :: string where
  "done_frame = ''data: [DONE]'' @ blank_line"

fun aisdk_EncodeStream :: "'w writer \<Rightarrow> arrival list \<Rightarrow> 'w \<Rightarrow> (error + unit) option \<times> 'w" where
  "aisdk_EncodeStream wr [] w = (None, w)"
| "aisdk_EncodeStream wr (Cancelled e # _) w = (Some (Inl e), w)"
| "aisdk_EncodeStream wr (Closed # _) w =
     (case act_seq (wr_Write wr done_frame) (\<lambda>_. flush wr) w of (r, w1) \<Rightarrow> (Some r, w1))"
| "aisdk_EncodeStream wr (Arrived ev # rest) w =
     (case act_seq (aisdk_Encode wr ev) (\<lambda>_. flush wr) w of
        (Inl e, w1) \<Rightarrow> (Some (Inl e), w1)
      | (Inr _, w1) \<Rightarrow> aisdk_EncodeStream wr rest w1)"

section \<open>Encoders and their registry\<close>

record 'w encoder =
  en_Name :: string
  en_ContentType :: string
  en_Encode :: "'w writer \<Rightarrow> event \<Rightarrow> ('w, unit) act"
  en_EncodeStream :: "'w writer \<Rightarrow> arrival list \<Rightarrow> 'w \<Rightarrow> (error + unit) option \<times> 'w"
  en_Decode :: "string \<Rightarrow> error + event"
  en_DecodeStream :: "string \<Rightarrow> error + event list"

definition agui_New :: "'w encoder" where
  "agui_New =
     \<lparr>en_Name = ''ag-ui'', en_ContentType = ''text/event-stream'', en_Encode = agui_Encode,
      en_EncodeStream = agui_EncodeStream, en_Decode = (\<lambda>_. Inl (ErrMsg ''agui: Decode not implemented'')),
      en_DecodeStream = (\<lambda>_. Inl (ErrMsg ''agui: DecodeStream not implemented''))\<rparr>"

definition aisdk_New :: "'w encoder" where
  "aisdk_New =
     \<lparr>en_Name = ''ai-sdk'', en_ContentType = ''text/plain; charset=utf-8'', en_Encode = aisdk_Encode,
      en_EncodeStream = aisdk_EncodeStream, en_Decode = (\<lambda>_. Inl (ErrMsg ''aisdk: Decode not implemented'')),
      en_DecodeStream = (\<lambda>_. Inl (ErrMsg ''aisdk: DecodeStream not implemented''))\<rparr>"

record 'w protocol_registry =
  pr_protocols :: "(string \<times> 'w encoder) list"
  pr_def :: "'w encoder option"

definition NewProtocolRegistry :: "'w protocol_registry" where
  "NewProtocolRegistry = \<lparr>pr_protocols = [], pr_def = None\<rparr>"

definition Register_protocol :: "'w encoder \<Rightarrow> 'w protocol_registry \<Rightarrow> 'w protocol_registry" where
  "Register_protocol p r = r\<lparr>pr_protocols := map_put (en_Name p) p (pr_protocols r)\<rparr>"

definition Get_protocol :: "'w protocol_registry \<Rightarrow> string \<Rightarrow> 'w encoder option" where
  "Get_protocol r name = map_of (pr_protocols r) name"

definition SetDefault :: "'w encoder option \<Rightarrow> 'w protocol_registry \<Rightarrow> 'w protocol_registry" where
  "SetDefault p r = r\<lparr>pr_def := p\<rparr>"

definition Default_protocol :: "'w protocol_registry \<Rightarrow> 'w encoder option" where
  "Default_protocol r = pr_def r"

text \<open>
  strings.ToLower, strings.Split at one character and strings.TrimSpace. \<open>uni\<close> stands for
  unicode.ToLower above ASCII.
\<close>

definition ascii_lower :: "nat \<Rightarrow> nat" where
  "ascii_lower n = (if 65 \<le> n \<and> n \<le> 90 then n + 32 else n)"

definition ToLower :: "(nat \<Rightarrow> nat) \<Rightarrow> string \<Rightarrow> string" where
  "ToLower uni s = concat (map (\<lambda>(r, _). utf8 (if r < 128 then ascii_lower r else uni r)) (runes s))"

fun split_on :: "char \<Rightarrow> string \<Rightarrow> string list" where
  "split_on c [] = [[]]"
| "split_on c (x # xs) =
     (if x = c then [] # split_on c xs
      else case split_on c xs of [] \<Rightarrow> [[x]] | p # ps \<Rightarrow> (x # p) # ps)"

definition white_space :: "nat \<Rightarrow> bool" where
  "white_space r \<longleftrightarrow> (9 \<le> r \<and> r \<le> 13) \<or> r = 32 \<or> r = 133 \<or> r = 160 \<or> r = 5760 \<or> (8192 \<le> r \<and> r \<le> 8202)
     \<or> r = 8232 \<or> r = 8233 \<or> r = 8239 \<or> r = 8287 \<or> r = 12288"

definition TrimSpace :: "string \<Rightarrow> string" where
  "TrimSpace s = concat (map snd
     (rev (dropWhile (white_space \<circ> fst) (rev (dropWhile (white_space \<circ> fst) (runes s))))))"

fun negotiate_parts :: "'w protocol_registry \<Rightarrow> string list \<Rightarrow> 'w encoder option" where
  "negotiate_parts r [] = None"
| "negotiate_parts r (part # parts) =
     (let p = takeWhile (\<lambda>c. c \<noteq> CHR '';'') (TrimSpace part) in
      if p = ''text/vnd.ag-ui'' \<or> p = ''application/vnd.ag-ui'' then
        (case map_of (pr_protocols r) ''ag-ui'' of Some x \<Rightarrow> Some x | None \<Rightarrow> negotiate_parts r parts)
      else if p = ''text/vnd.ai-sdk'' \<or> p = ''application/vnd.ai-sdk'' then
        (case map_of (pr_protocols r) ''ai-sdk'' of Some x \<Rightarrow> Some x | None \<Rightarrow> negotiate_parts r parts)
      else if p = ''text/event-stream'' then pr_def r
      else negotiate_parts r parts)"

definition Negotiate :: "(nat \<Rightarrow> nat) \<Rightarrow> 'w protocol_registry \<Rightarrow> string \<Rightarrow> 'w encoder option" where
  "Negotiate uni r accept = negotiate_parts r (split_on (CHR '','') (ToLower uni accept))"

end
