(* ===== verification/Protocol_Spec.thy ===== *)
theory Protocol_Spec
  imports Protocols Agent_Spec
begin

text \<open>
  What reaches the client of a run: the byte stream of an encoder read back frame by frame, and the
  frames of the runs an agent makes.
\<close>

section \<open>Reading the stream\<close>

text \<open>A response writer that keeps the bytes, and a client that cuts them at blank lines.\<close>

definition buffer :: "string writer" where
  "buffer = \<lparr>wr_Write = (\<lambda>b w. (Inr (), w @ b)), wr_Flush = None\<rparr>"

fun blocks :: "string \<Rightarrow> string \<Rightarrow> string list" where
  "blocks acc (c # d # cs) =
     (if c = CHR 0x0A \<and> d = CHR 0x0A then acc # blocks [] cs else blocks (acc @ [c]) (d # cs))"
| "blocks acc _ = []"

definition data_block :: "(string \<times> json) list \<Rightarrow> string" where
  "data_block frame = ''data: '' @ render (JObj frame)"

lemma blocks_block: "CHR 0x0A \<notin> set p \<Longrightarrow> blocks acc (p @ blank_line @ r) = (acc @ p) # blocks [] r"
proof (induction p arbitrary: acc)
  case (Cons c p)
  then obtain d cs where e: "p @ blank_line @ r = d # cs" by (cases "p @ blank_line @ r") (auto simp: blank_line_def)
  have "c \<noteq> CHR 0x0A" using Cons.prems by auto
  then have "blocks acc ((c # p) @ blank_line @ r) = blocks (acc @ [c]) (p @ blank_line @ r)"
    by (simp add: e)
  also have "\<dots> = (acc @ c # p) # blocks [] r" using Cons by simp
  finally show ?case .
qed (simp add: blank_line_def)

lemma data_block_one_line: "json_ok (JObj frame) \<Longrightarrow> CHR 0x0A \<notin> set (data_block frame)"
  using newline_free_render by (auto simp: data_block_def simp del: json_ok.simps render.simps)

lemma read_blocks:
  "\<forall>f \<in> set fs. json_ok (JObj f) \<Longrightarrow>
   blocks [] (concat (map (\<lambda>f. data_block f @ blank_line) fs) @ r) = map data_block fs @ blocks [] r"
  by (induction fs) (auto simp: blocks_block data_block_one_line simp del: json_ok.simps)

lemma read_data_block: "json_ok (JObj frame) \<Longrightarrow> json_Unmarshal (drop 6 (data_block frame)) = Some (JObj frame)"
  by (simp add: data_block_def json_Unmarshal_render del: json_ok.simps render.simps)

section \<open>Frames are JSON\<close>

lemma map_put_all: "P v \<Longrightarrow> \<forall>kv \<in> set kvs. P (snd kv) \<Longrightarrow> \<forall>kv \<in> set (map_put k v kvs). P (snd kv)"
  by (auto dest: map_put_mem)

lemma go_map_mem: "kv \<in> set (go_map kvs) \<Longrightarrow> kv \<in> set kvs"
proof -
  have "kv \<in> set (fold (\<lambda>(k, v). map_put k v) kvs acc) \<Longrightarrow> kv \<in> set kvs \<union> set acc" for acc
  proof (induction kvs arbitrary: acc)
    case (Cons x kvs)
    obtain k v where x: "x = (k, v)" by (cases x)
    from Cons.prems have "kv \<in> set kvs \<union> set (map_put k v acc)" using Cons.IH by (simp add: x)
    then show ?case by (cases kv) (auto simp: x dest: map_put_mem)
  qed simp
  then show "kv \<in> set (go_map kvs) \<Longrightarrow> kv \<in> set kvs" by (fastforce simp: go_map_def)
qed

lemma json_ok_go_map: "\<forall>kv \<in> set kvs. json_ok (snd kv) \<Longrightarrow> json_ok (JObj (go_map kvs))"
  using go_map_mem by fastforce

lemma json_ok_canon:
  "json_ok v \<Longrightarrow> json_ok (canon v)"
  "(\<forall>v \<in> set vs. json_ok v) \<Longrightarrow> (\<forall>v \<in> set (canon_elems vs). json_ok v)"
  "(\<forall>kv \<in> set kvs. json_ok (snd kv)) \<Longrightarrow> (\<forall>kv \<in> set acc. json_ok (snd kv)) \<Longrightarrow>
     (\<forall>kv \<in> set (canon_members kvs acc). json_ok (snd kv))"
  by (induction v and vs and kvs acc rule: canon_canon_elems_canon_members.induct)
    (auto simp: map_put_all [where P = json_ok])

text \<open>The values an event carries that the code does not build itself.\<close>

definition interrupt_wire_ok :: "ainterrupt \<Rightarrow> bool" where
  "interrupt_wire_ok i \<longleftrightarrow> json_ok (JObj (ai_response_schema i)) \<and> json_ok (JObj (ai_metadata i))"

fun event_ok :: "event \<Rightarrow> bool" where
  "event_ok (RunFinished _ _ _ ins v) \<longleftrightarrow>
     list_all interrupt_wire_ok ins \<and> (case v of None \<Rightarrow> True | Some r \<Rightarrow> json_ok r)"
| "event_ok (StateSnapshot m) \<longleftrightarrow> json_ok (JObj m)"
| "event_ok (StateDelta ds) \<longleftrightarrow> json_ok (JArr ds)"
| "event_ok _ \<longleftrightarrow> True"

lemma wire_interrupt_ok: "interrupt_wire_ok i \<Longrightarrow> json_ok (JObj (wire_interrupt i))"
  unfolding wire_interrupt_def interrupt_wire_ok_def
  by (rule json_ok_go_map) (auto split: option.splits)

lemma agui_frame_ok: "event_ok ev \<Longrightarrow> agui_frame ev = Some f \<Longrightarrow> json_ok (JObj f)"
proof (cases ev)
  case (RunFinished t r oc ins v)
  moreover assume "event_ok ev" "agui_frame ev = Some f"
  ultimately have o: "list_all interrupt_wire_ok ins" "case v of None \<Rightarrow> True | Some r \<Rightarrow> json_ok r"
    and f: "f = go_map ([(''type'', JStr ''RUN_FINISHED''), (''threadId'', JStr t), (''runId'', JStr r)]
       @ (if oc = OutcomeInterrupt then [(''outcome'', JStr ''interrupt''), (''interrupts'', interruptsToWire ins)]
          else case v of None \<Rightarrow> [] | Some r \<Rightarrow> [(''result'', r)]))" by auto
  have "json_ok (interruptsToWire ins)"
    using o(1) wire_interrupt_ok by (auto simp: interruptsToWire_def list_all_iff simp del: json_ok.simps(3))
  then show ?thesis unfolding f using o(2) by (intro json_ok_go_map) (auto split: option.splits)
qed (auto intro!: json_ok_go_map simp del: json_ok.simps(2,3))

lemma available_input_ok: "json_ok (available_input args)"
  by (auto simp: available_input_def json_ok_canon(1) json_Unmarshal_ok split: option.split)

lemma aisdk_frame_ok: "event_ok ev \<Longrightarrow> aisdk_frame ev = Inr (Some f) \<Longrightarrow> json_ok (JObj f)"
  by (cases ev) (auto simp: available_input_ok simp del: json_ok.simps(2,3) split: option.splits intro!: json_ok_go_map)


section \<open>Whole streams\<close>

abbreviation agui_frames :: "event list \<Rightarrow> (string \<times> json) list list" where
  "agui_frames \<equiv> List.map_filter agui_frame"

definition aisdk_frames :: "event list \<Rightarrow> (string \<times> json) list list" where
  "aisdk_frames = List.map_filter (\<lambda>ev. case aisdk_frame ev of Inl _ \<Rightarrow> None | Inr f \<Rightarrow> f)"

definition on_wire :: "(string \<times> json) list list \<Rightarrow> string" where
  "on_wire fs = concat (map (\<lambda>f. data_block f @ blank_line) fs)"

lemma write_buffer:
  "json_ok (JObj f) \<Longrightarrow> writeSSE buffer f bs = (Inr (), bs @ data_block f @ blank_line)"
  "json_ok (JObj f) \<Longrightarrow> writeData buffer f bs = (Inr (), bs @ data_block f @ blank_line)"
  by (simp_all add: writeSSE_def writeData_def act_seq_def act_lift_def json_Marshal_ok buffer_def data_block_def
      del: json_ok.simps render.simps)

lemma flush_buffer: "flush buffer bs = (Inr (), bs)"
  by (simp add: flush_def buffer_def)

lemma agui_stream:
  "list_all event_ok es \<Longrightarrow>
   agui_EncodeStream buffer (map Arrived es @ rest) bs = agui_EncodeStream buffer rest (bs @ on_wire (agui_frames es))"
proof (induction es arbitrary: bs)
  case (Cons ev es)
  show ?case
  proof (cases "agui_frame ev")
    case None
    then show ?thesis using Cons by (simp add: agui_Encode_def act_seq_def act_ret_def flush_buffer map_filter_simps)
  next
    case (Some f)
    then have "json_ok (JObj f)" using Cons.prems by (intro agui_frame_ok [of ev]) simp_all
    then show ?thesis using Cons Some
      by (simp add: agui_Encode_def act_seq_def write_buffer [OF \<open>json_ok (JObj f)\<close>] flush_buffer map_filter_simps on_wire_def)
  qed
qed (simp add: on_wire_def map_filter_simps)

lemma aisdk_stream:
  "list_all event_ok es \<Longrightarrow> ErrorEv None \<notin> set es \<Longrightarrow>
   aisdk_EncodeStream buffer (map Arrived es @ rest) bs = aisdk_EncodeStream buffer rest (bs @ on_wire (aisdk_frames es))"
proof (induction es arbitrary: bs)
  case (Cons ev es)
  have no: "aisdk_frame ev \<noteq> Inl e" for e using Cons.prems(2) by (cases ev) (auto split: option.split)
  show ?case
  proof (cases "aisdk_frame ev")
    case (Inr x)
    show ?thesis
    proof (cases x)
      case None
      then show ?thesis using Cons Inr
        by (simp add: aisdk_Encode_def act_seq_def act_ret_def flush_buffer map_filter_simps aisdk_frames_def)
    next
      case (Some f)
      then have "json_ok (JObj f)" using Cons.prems(1) Inr by (intro aisdk_frame_ok [of ev]) simp_all
      then show ?thesis using Cons Inr Some
        by (simp add: aisdk_Encode_def act_seq_def write_buffer [OF \<open>json_ok (JObj f)\<close>] flush_buffer map_filter_simps
            aisdk_frames_def on_wire_def)
    qed
  qed (simp add: no)
qed (simp add: on_wire_def map_filter_simps aisdk_frames_def)

lemma agui_frames_ok: "list_all event_ok es \<Longrightarrow> \<forall>f \<in> set (agui_frames es). json_ok (JObj f)"
  using agui_frame_ok by (fastforce simp: map_filter_def list_all_iff simp del: json_ok.simps)

lemma aisdk_frames_ok: "list_all event_ok es \<Longrightarrow> \<forall>f \<in> set (aisdk_frames es). json_ok (JObj f)"
  using aisdk_frame_ok
  by (fastforce simp: map_filter_def list_all_iff aisdk_frames_def simp del: json_ok.simps split: sum.splits)

text \<open>
  C32: A client of AG-UI that cuts the response at blank lines and parses what follows \<open>data: \<close>
  gets exactly the frames of the events, in their order, whatever text the events carry; the
  response ends without an error when the run closes its channel.
\<close>

theorem agui_stream_round_trip:
  assumes "list_all event_ok es"
  shows "case agui_EncodeStream buffer (map Arrived es @ [Closed]) [] of (r, bs) \<Rightarrow>
    r = Some (Inr ()) \<and>
    map (\<lambda>b. json_Unmarshal (drop 6 b)) (blocks [] bs) = map (\<lambda>f. Some (JObj f)) (agui_frames es)"
  using agui_frames_ok [OF assms] read_blocks [OF agui_frames_ok [OF assms], of "[]"]
  by (simp add: agui_stream [OF assms] on_wire_def read_data_block del: json_ok.simps)

theorem agui_stream_round_trip_witness:
  "case agui_EncodeStream buffer (map Arrived [TextDelta [] [CHR 0x0A, CHR 0x0A], DoneEv] @ [Closed]) [] of (r, bs) \<Rightarrow>
    r = Some (Inr ()) \<and>
    map (\<lambda>b. json_Unmarshal (drop 6 b)) (blocks [] bs) =
      map (\<lambda>f. Some (JObj f)) (agui_frames [TextDelta [] [CHR 0x0A, CHR 0x0A], DoneEv])"
  by (rule agui_stream_round_trip) simp

text \<open>
  C33: Over the AI SDK protocol the client gets one frame for each event that has one, in order, and
  the sentinel \<open>[DONE]\<close> exactly once, as the last frame, exactly when the run closed its channel: not
  while events may still come and not when the context ended first.
\<close>

theorem aisdk_done_last:
  assumes "list_all event_ok es" "ErrorEv None \<notin> set es"
  shows "case aisdk_EncodeStream buffer (map Arrived es @ rest) [] of (r, bs) \<Rightarrow>
    ''data: [DONE]'' \<notin> set (map data_block (aisdk_frames es)) \<and>
    (rest = [] \<longrightarrow> r = None \<and> blocks [] bs = map data_block (aisdk_frames es)) \<and>
    (\<forall>e. rest = [Cancelled e] \<longrightarrow> r = Some (Inl e) \<and> blocks [] bs = map data_block (aisdk_frames es)) \<and>
    (rest = [Closed] \<longrightarrow> r = Some (Inr ()) \<and> blocks [] bs = map data_block (aisdk_frames es) @ [''data: [DONE]''])"
proof -
  let ?fs = "aisdk_frames es"
  have ok: "\<forall>f \<in> set ?fs. json_ok (JObj f)" by (rule aisdk_frames_ok [OF assms(1)])
  have plain: "blocks [] (on_wire ?fs) = map data_block ?fs"
    using read_blocks [OF ok, of "[]"] by (simp add: on_wire_def)
  have "blocks [] (''data: [DONE]'' @ blank_line @ []) = ([] @ ''data: [DONE]'') # blocks [] []"
    by (rule blocks_block) simp
  then have final: "blocks [] (on_wire ?fs @ done_frame) = map data_block ?fs @ [''data: [DONE]'']"
    using read_blocks [OF ok, of done_frame] by (simp add: on_wire_def done_frame_def)
  have other: "''data: [DONE]'' \<noteq> data_block f" for f by (simp add: data_block_def)
  have closes: "aisdk_EncodeStream buffer [Closed] bs = (Some (Inr ()), bs @ done_frame)" for bs
    by (simp add: act_seq_def buffer_def flush_def)
  show ?thesis
    by (auto simp: aisdk_stream [OF assms] closes plain final other simp del: aisdk_EncodeStream.simps(3))
qed

theorem aisdk_done_last_witness:
  "case aisdk_EncodeStream buffer (map Arrived [ToolCallEnd ''c'' ''{''] @ [Closed]) [] of (r, bs) \<Rightarrow>
    ''data: [DONE]'' \<notin> set (map data_block (aisdk_frames [ToolCallEnd ''c'' ''{''])) \<and>
    ([Closed] = [] \<longrightarrow> r = None \<and> blocks [] bs = map data_block (aisdk_frames [ToolCallEnd ''c'' ''{''])) \<and>
    (\<forall>e. [Closed] = [Cancelled e] \<longrightarrow>
       r = Some (Inl e) \<and> blocks [] bs = map data_block (aisdk_frames [ToolCallEnd ''c'' ''{''])) \<and>
    ([Closed] = [Closed] \<longrightarrow> r = Some (Inr ()) \<and>
       blocks [] bs = map data_block (aisdk_frames [ToolCallEnd ''c'' ''{'']) @ [''data: [DONE]''])"
  by (rule aisdk_done_last) simp_all

section \<open>The frames of a run\<close>

fun events_of :: "action list \<Rightarrow> event list" where
  "events_of [] = []"
| "events_of (Emit ev # l) = ev # events_of l"
| "events_of (_ # l) = events_of l"

lemma events_of_append: "events_of (l @ l') = events_of l @ events_of l'"
  by (induction l rule: events_of.induct) auto

fun unnamed :: "action \<Rightarrow> bool" where
  "unnamed (Emit (TextDelta i _)) = (i = [])"
| "unnamed (Emit (RunErrorEv _ _)) = False"
| "unnamed _ = True"

lemma unnamed_event [simp]: "plain_event ev \<or> text_event ev \<Longrightarrow> unnamed (Emit ev)"
  by (cases ev) auto

interpretation unnamed_events: event_log a "list_all unnamed" "list_all unnamed" for a
  by unfold_locales auto

interpretation unnamed: loop_log a "list_all unnamed" "list_all unnamed" for a
  by unfold_locales (auto intro: unnamed_events.received)

lemma run_unnamed: "list_all unnamed (log_of (RunWithSession h mk a sid input enc) w)"
  by (rule run_shape_all, rule adds_log_of, rule RunWithSession_shape, rule unnamed.loop) auto

definition frame_type :: "(string \<times> json) list \<Rightarrow> json option" where
  "frame_type f = map_of f ''type''"


lemma map_of_go_map: "map_of (go_map kvs) k = map_of (rev kvs) k"
proof -
  have "map_of (fold (\<lambda>(k, v). map_put k v) kvs acc) k = map_of (rev kvs @ acc) k" for acc
    by (induction kvs arbitrary: acc) (auto simp: map_add_def split: option.split)
  from this [of "[]"] show ?thesis by (simp add: go_map_def)
qed

lemma frame_of_event:
  assumes "agui_frame ev = Some f"
  shows "frame_type f = Some (JStr ''RUN_ERROR'') \<Longrightarrow> \<exists>m c. ev = RunErrorEv m c"
    "frame_type f = Some (JStr ''RUN_FINISHED'') \<Longrightarrow> \<exists>t r oc ins v. ev = RunFinished t r oc ins v"
    "frame_type f = Some (JStr ''TEXT_MESSAGE_CONTENT'') \<Longrightarrow>
       \<exists>i d. ev = TextDelta i d \<and> map_of f ''messageId'' = Some (JStr i)"
  using assms by (cases ev; auto simp: frame_type_def map_of_go_map split: if_splits option.splits)+

lemma mem_agui_frames: "f \<in> set (agui_frames es) \<longleftrightarrow> (\<exists>ev \<in> set es. agui_frame ev = Some f)"
  by (force simp: map_filter_def)

lemma mem_events_of: "ev \<in> set (events_of l) \<longleftrightarrow> Emit ev \<in> set l"
  by (induction l rule: events_of.induct) auto

lemma finished_is_last:
  assumes "run_shape (one_end H) x l" "Emit (RunFinished t r oc ins v) \<in> set l"
  shows "last l = Emit (RunFinished t r oc ins v)"
proof -
  have saves: "Emit ev \<notin> set pre" if "list_all before_start pre" for pre ev
    using that by (auto simp: list_all_iff)
  have ran: "last l = Emit (RunFinished t r oc ins v)" if "ran_log (one_end H) l"
    using that assms(2) saves by (fastforce simp: ran_log_def one_end_def list_all_iff)
  show ?thesis using assms ran saves
    by (auto simp: run_shape_def crash_end_def split: option.splits sum.splits)
qed

text \<open>
  C31: What an AG-UI client sees of a run: no frame RUN_ERROR ever, a frame RUN_FINISHED only when
  RunFinished is the last thing the run did (so none when the run failed: its response just ends),
  and every TEXT_MESSAGE_CONTENT with an empty messageId, never the one of its TEXT_MESSAGE_START.
\<close>

theorem agui_run_wire:
  assumes "f \<in> set (agui_frames (events_of (log_of (RunWithSession h mk a sid input enc) w)))"
  shows "frame_type f \<noteq> Some (JStr ''RUN_ERROR'') \<and>
    (frame_type f = Some (JStr ''RUN_FINISHED'') \<longrightarrow>
       (\<exists>t r oc ins v. last (log_of (RunWithSession h mk a sid input enc) w) = Emit (RunFinished t r oc ins v))) \<and>
    (frame_type f = Some (JStr ''TEXT_MESSAGE_CONTENT'') \<longrightarrow> map_of f ''messageId'' = Some (JStr []))"
proof -
  let ?l = "log_of (RunWithSession h mk a sid input enc) w"
  obtain ev where ev: "Emit ev \<in> set ?l" "agui_frame ev = Some f"
    using assms by (auto simp: mem_agui_frames mem_events_of)
  have u: "unnamed (Emit ev)"
    using run_unnamed [of h mk a sid input enc w, unfolded list_all_iff] ev(1) by (rule bspec)
  have s: "run_shape (one_end (hook_error a)) (value_of (RunWithSession h mk a sid input enc) w) ?l"
    by (rule adds_log_of, rule RunWithSession_shape, rule life.loop)
  show ?thesis
  proof (intro conjI impI notI)
    assume "frame_type f = Some (JStr ''RUN_ERROR'')"
    then show False using frame_of_event(1) [OF ev(2)] u by auto
  next
    assume "frame_type f = Some (JStr ''RUN_FINISHED'')"
    then obtain t r oc ins v where "ev = RunFinished t r oc ins v" using frame_of_event(2) [OF ev(2)] by blast
    then show "\<exists>t r oc ins v. last ?l = Emit (RunFinished t r oc ins v)"
      using finished_is_last [OF s] ev(1) by blast
  next
    assume "frame_type f = Some (JStr ''TEXT_MESSAGE_CONTENT'')"
    then show "map_of f ''messageId'' = Some (JStr [])" using frame_of_event(3) [OF ev(2)] u by auto
  qed
qed

theorem agui_run_wire_witness:
  "\<exists>f. f \<in> set (agui_frames (events_of (log_of (RunWithSession demo_host demo_mk demo_agent ''s'' ''hi'' (Some ''agui'')) demo_session)))
     \<and> frame_type f = Some (JStr ''RUN_FINISHED'') \<and>
     (\<exists>t r oc ins v. last (log_of (RunWithSession demo_host demo_mk demo_agent ''s'' ''hi'' (Some ''agui'')) demo_session) =
        Emit (RunFinished t r oc ins v))"
proof -
  let ?l = "log_of (RunWithSession demo_host demo_mk demo_agent ''s'' ''hi'' (Some ''agui'')) demo_session"
  obtain l run ins where l: "?l = l @ [Emit (RunFinished ''s'' run OutcomeInterrupt ins None)]" using demo_log by blast
  obtain f where f: "agui_frame (RunFinished ''s'' run OutcomeInterrupt ins None) = Some f" by simp
  have t: "frame_type f = Some (JStr ''RUN_FINISHED'')" using f by (auto simp: frame_type_def map_of_go_map)
  have m: "f \<in> set (agui_frames (events_of ?l))"
    unfolding mem_agui_frames mem_events_of l using f by (auto intro!: bexI simp: events_of_append)
  show ?thesis using agui_run_wire [OF m] t m by blast
qed

end
