(* ===== verification/Sqlite.thy ===== *)
theory Sqlite
  imports Skills Metadata
begin

text \<open>
  storage/metadata/sqlite/store.go: the metadata store on SQLite. The tables are lists of rows in
  the order they were inserted; an SQL statement of the source is a function on them. Every call of
  database/sql takes the next element of a script of outcomes (an exhausted script means success),
  and a statement that fails changes nothing. Rows that no ORDER BY orders, and rows it leaves
  equal, come in table order, which the engine does not promise. \<open>foreign_keys\<close> says whether the
  engine enforces REFERENCES: SQLite does so only for a connection that asks for it, and the source
  never does.
\<close>

section \<open>Tables\<close>

record session_row =
  sr_id :: string
  sr_agent_id :: string
  sr_user_id :: string
  sr_parent_session_id :: string
  sr_state :: string
  sr_open_interrupts :: string
  sr_revision :: int
  sr_created_at :: int
  sr_updated_at :: int

record message_row =
  mr_id :: string
  mr_session_id :: string
  mr_role :: string
  mr_content :: string
  mr_tool_calls :: string
  mr_created_at :: int

record tool_row =
  tl_id :: string
  tl_agent_id :: string
  tl_name :: string
  tl_description :: string
  tl_parameters :: string
  tl_handler :: string
  tl_endpoint :: string
  tl_headers :: string
  tl_input_mapping :: string
  tl_response_field :: string
  tl_script_path :: string
  tl_created_at :: int

record skill_row =
  sk_name :: string
  sk_description :: string
  sk_version :: string
  sk_instructions :: string
  sk_tools :: string
  sk_config :: string
  sk_resources :: string
  sk_enabled :: int

record mcp_row =
  mc_id :: string
  mc_agent_id :: string
  mc_name :: string
  mc_url :: string
  mc_transport :: string
  mc_headers :: string
  mc_enabled :: int
  mc_created_at :: int

text \<open>
  The column \<open>response_field\<close> of tools comes by a compatibility migration only;
  \<open>t_response_field\<close> says whether it is there.
\<close>

record tables =
  t_sessions :: "session_row list"
  t_messages :: "message_row list"
  t_tools :: "tool_row list"
  t_skills :: "skill_row list"
  t_memory :: "(string \<times> string) list"
  t_mcp_servers :: "mcp_row list"
  t_response_field :: bool

section \<open>The connection\<close>

text \<open>\<open>SCut n m\<close> ends the iteration over a result after \<open>n\<close> rows; any other call fails on it.\<close>

datatype outcome = SOk | SFail string | SCut nat string

record sqlite =
  tables :: tables
  outcomes :: "outcome list"
  foreign_keys :: bool
  sq_random :: "nat \<Rightarrow> string option"
  sq_clock :: "nat \<Rightarrow> int"
  sq_draws :: nat

definition next_outcome :: "sqlite \<Rightarrow> outcome \<times> sqlite" where
  "next_outcome s = (case outcomes s of [] \<Rightarrow> (SOk, s) | oc # os \<Rightarrow> (oc, s\<lparr>outcomes := os\<rparr>))"

definition sq_call :: "(sqlite, unit) act" where
  "sq_call s =
     (case next_outcome s of (oc, s1) \<Rightarrow>
       (case oc of SOk \<Rightarrow> (Inr (), s1) | SFail m \<Rightarrow> (Inl (ErrMsg m), s1) | SCut _ m \<Rightarrow> (Inl (ErrMsg m), s1)))"

text \<open>ExecContext, QueryRowContext with Scan (\<open>None\<close> is sql.ErrNoRows), and QueryContext.\<close>

definition sq_exec :: "(tables \<Rightarrow> error + 'a \<times> tables) \<Rightarrow> (sqlite, 'a) act" where
  "sq_exec f = act_seq sq_call (\<lambda>_ s.
     (case f (tables s) of Inl e \<Rightarrow> (Inl e, s) | Inr (x, t) \<Rightarrow> (Inr x, s\<lparr>tables := t\<rparr>)))"

definition sq_row :: "(tables \<Rightarrow> 'r list) \<Rightarrow> (sqlite, 'r option) act" where
  "sq_row q = act_seq sq_call (\<lambda>_ s. (Inr (case q (tables s) of [] \<Rightarrow> None | r # _ \<Rightarrow> Some r), s))"

text \<open>The loop over \<open>rows.Next()\<close>; no caller asks rows.Err why it ended.\<close>

definition sq_rows :: "(tables \<Rightarrow> 'r list) \<Rightarrow> (sqlite, 'r list) act" where
  "sq_rows q s =
     (case next_outcome s of (oc, s1) \<Rightarrow>
       (case oc of
          SOk \<Rightarrow> (Inr (q (tables s1)), s1)
        | SCut n _ \<Rightarrow> (Inr (take n (q (tables s1))), s1)
        | SFail m \<Rightarrow> (Inl (ErrMsg m), s1)))"

definition set_tables :: "tables \<Rightarrow> sqlite \<Rightarrow> sqlite" where
  "set_tables t s = s\<lparr>tables := t\<rparr>"

text \<open>A transaction: what its statements did is dropped by the deferred Rollback unless Commit succeeded.\<close>

definition sq_tx :: "(sqlite, 'a) act \<Rightarrow> (sqlite, 'a) act" where
  "sq_tx m s =
     (case act_wrap ''sqlite: begin tx'' sq_call s of
        (Inl e, s1) \<Rightarrow> (Inl e, s1)
      | (Inr _, s1) \<Rightarrow>
          (case act_seq m (\<lambda>x. act_seq sq_call (\<lambda>_. act_ret x)) s1 of
             (Inl e, s2) \<Rightarrow> (Inl e, set_tables (tables s1) s2)
           | (Inr x, s2) \<Rightarrow> (Inr x, s2)))"

definition unique_failed :: "string \<Rightarrow> error" where
  "unique_failed column = ErrMsg (''UNIQUE constraint failed: '' @ column)"

definition draw_random :: "sqlite \<Rightarrow> string option \<times> sqlite" where
  "draw_random s = (sq_random s (sq_draws s), s\<lparr>sq_draws := Suc (sq_draws s)\<rparr>)"

definition draw_nano :: "sqlite \<Rightarrow> int \<times> sqlite" where
  "draw_nano s = (sq_clock s (sq_draws s), s\<lparr>sq_draws := Suc (sq_draws s)\<rparr>)"

definition sq_now :: "(sqlite, int) act" where
  "sq_now s = (case draw_nano s of (t, s1) \<Rightarrow> (Inr (t div 1000000), s1))"

definition sq_newID :: "(sqlite, string) act" where
  "sq_newID s =
     (case draw_random s of
        (Some b, s1) \<Rightarrow> (Inr (hex_of b), s1)
      | (None, s1) \<Rightarrow> (case draw_nano s1 of (t, s2) \<Rightarrow> (Inr (int_text t), s2)))"

text \<open>
  Columns of JSON text. What \<open>json.Unmarshal\<close> leaves in a variable when its error is dropped: a
  value of the wrong kind leaves nothing, an entry of the wrong kind in a map of strings its key.
\<close>

definition column :: "string \<Rightarrow> json \<Rightarrow> (sqlite, string) act" where
  "column what v = act_wrap (''sqlite: marshal '' @ what) (act_lift (json_Marshal v))"

definition read_column :: "(json option \<Rightarrow> 'a list option) \<Rightarrow> string \<Rightarrow> 'a list" where
  "read_column dec text =
     (case json_Unmarshal text of
        None \<Rightarrow> []
      | Some v \<Rightarrow> (case dec (Some v) of None \<Rightarrow> [] | Some xs \<Rightarrow> xs))"

fun loose_strings :: "(string \<times> json) list \<Rightarrow> (string \<times> string) list \<Rightarrow> (string \<times> string) list" where
  "loose_strings [] acc = acc"
| "loose_strings ((k, v) # kvs) acc =
     loose_strings kvs (map_put k (case dec_string (Some v) of None \<Rightarrow> [] | Some x \<Rightarrow> x) acc)"

definition read_strings :: "string \<Rightarrow> (string \<times> string) list" where
  "read_strings text = (case json_Unmarshal text of Some (JObj kvs) \<Rightarrow> loose_strings kvs [] | _ \<Rightarrow> [])"

definition read_any :: "string \<Rightarrow> json" where
  "read_any text = (case json_Unmarshal text of None \<Rightarrow> JNull | Some v \<Rightarrow> canon v)"

section \<open>Opening\<close>

text \<open>
  CREATE TABLE IF NOT EXISTS and ALTER TABLE on tables that have all their columns, except the one
  that only the compatibility migration adds.
\<close>

definition schemaMigrations :: "(tables \<Rightarrow> error + unit \<times> tables) list" where
  "schemaMigrations = replicate 6 (\<lambda>t. Inr ((), t))"

definition compatibilityMigrations :: "(tables \<Rightarrow> error + unit \<times> tables) list" where
  "compatibilityMigrations =
     (let present = (\<lambda>t. Inl (ErrMsg ''duplicate column name'')) in
      replicate 5 present
      @ [\<lambda>t. if t_response_field t then Inl (ErrMsg ''duplicate column name'') else Inr ((), t\<lparr>t_response_field := True\<rparr>)]
      @ replicate 5 present)"

fun executeRequiredMigrations :: "(tables \<Rightarrow> error + unit \<times> tables) list \<Rightarrow> (sqlite, unit) act" where
  "executeRequiredMigrations [] = act_ret ()"
| "executeRequiredMigrations (m # ms) = act_seq (sq_exec m) (\<lambda>_. executeRequiredMigrations ms)"

fun addOptionalColumns :: "(tables \<Rightarrow> error + unit \<times> tables) list \<Rightarrow> (sqlite, unit) act" where
  "addOptionalColumns [] = act_ret ()"
| "addOptionalColumns (m # ms) =
     act_handle (sq_exec m) (\<lambda>_. addOptionalColumns ms) (\<lambda>_. addOptionalColumns ms)"

definition sq_migrate :: "(sqlite, unit) act" where
  "sq_migrate = act_seq (executeRequiredMigrations schemaMigrations) (\<lambda>_. addOptionalColumns compatibilityMigrations)"

text \<open>os.MkdirAll, sql.Open and the journal mode are calls like the others; Close drops the rest.\<close>

definition sq_NewStore :: "string \<Rightarrow> (sqlite, unit) act" where
  "sq_NewStore dbPath =
     act_seq (act_wrap ''sqlite: create directory'' sq_call) (\<lambda>_.
     act_seq (act_wrap (''sqlite: open '' @ quote dbPath) sq_call) (\<lambda>_.
     act_seq (act_wrap ''sqlite: set WAL'' sq_call) (\<lambda>_.
     act_wrap ''sqlite: migrate'' sq_migrate)))"

section \<open>Sessions\<close>

definition insert_session_row :: "session_row \<Rightarrow> tables \<Rightarrow> error + unit \<times> tables" where
  "insert_session_row r t =
     (if \<exists>x \<in> set (t_sessions t). sr_id x = sr_id r then Inl (unique_failed ''sessions.id'')
      else Inr ((), t\<lparr>t_sessions := t_sessions t @ [r]\<rparr>))"

definition sq_CreateSession :: "string \<Rightarrow> string \<Rightarrow> (sqlite, session) act" where
  "sq_CreateSession agentID userID =
     act_seq sq_now (\<lambda>now.
     act_seq sq_newID (\<lambda>i.
     act_seq (act_wrap ''sqlite: create session'' (sq_exec (insert_session_row
       \<lparr>sr_id = i, sr_agent_id = agentID, sr_user_id = userID, sr_parent_session_id = [], sr_state = ''{}'',
        sr_open_interrupts = ''[]'', sr_revision = 1, sr_created_at = now, sr_updated_at = now\<rparr>))) (\<lambda>_.
     act_ret \<lparr>sess_id = i, sess_agent_id = agentID, sess_user_id = userID, sess_parent_session_id = [],
       sess_messages = [], sess_state = [], sess_open_interrupts = [], sess_revision = 1,
       sess_created_at = now, sess_updated_at = now\<rparr>)))"

definition session_rows :: "string \<Rightarrow> tables \<Rightarrow> session_row list" where
  "session_rows i t = filter (\<lambda>r. sr_id r = i) (t_sessions t)"

definition message_rows :: "string \<Rightarrow> tables \<Rightarrow> message_row list" where
  "message_rows i t = sort_key mr_created_at (filter (\<lambda>r. mr_session_id r = i) (t_messages t))"

definition scan_message :: "message_row \<Rightarrow> message" where
  "scan_message r =
     \<lparr>msg_id = mr_id r, msg_role = mr_role r, msg_content = mr_content r,
      msg_tool_calls = read_column (dec_list dec_tool_call) (mr_tool_calls r), msg_created_at = mr_created_at r\<rparr>"

definition loadMessages :: "string \<Rightarrow> (sqlite, message list) act" where
  "loadMessages i = act_seq (act_wrap ''sqlite: load messages'' (sq_rows (message_rows i))) (\<lambda>rs.
     act_ret (map scan_message rs))"

definition scan_session :: "session_row \<Rightarrow> message list \<Rightarrow> session" where
  "scan_session r ms =
     \<lparr>sess_id = sr_id r, sess_agent_id = sr_agent_id r, sess_user_id = sr_user_id r,
      sess_parent_session_id = sr_parent_session_id r, sess_messages = ms,
      sess_state = read_column dec_map (sr_state r),
      sess_open_interrupts = read_column (dec_list dec_interrupt)
        (if sr_open_interrupts r = [] then ''[]'' else sr_open_interrupts r),
      sess_revision = word_of_int (sr_revision r), sess_created_at = sr_created_at r, sess_updated_at = sr_updated_at r\<rparr>"

definition sq_GetSession :: "string \<Rightarrow> (sqlite, session option) act" where
  "sq_GetSession i =
     act_seq (act_wrap (''sqlite: get session '' @ quote i) (sq_row (session_rows i))) (\<lambda>row.
     case row of
       None \<Rightarrow> act_ret None
     | Some r \<Rightarrow>
         if sr_revision r < 0 then
           act_fail (ErrMsg (''sqlite: get session '' @ quote i @ '': invalid revision '' @ int_text (sr_revision r)))
         else act_seq (loadMessages i) (\<lambda>ms. act_ret (Some (scan_session r ms))))"

definition sq_max_revision :: "64 word" where
  "sq_max_revision = 2 ^ 63 - 1"

definition validateSessionUpdate :: "session \<Rightarrow> error + unit" where
  "validateSessionUpdate sess =
     (if sess_revision sess \<ge> sq_max_revision then
        Inl (ErrMsg (''sqlite: update session '' @ quote (sess_id sess) @ '': revision overflow''))
      else Inr ())"

definition encodeSessionMetadata :: "session \<Rightarrow> (sqlite, string \<times> string) act" where
  "encodeSessionMetadata sess =
     act_seq (column ''state'' (JObj (sess_state sess))) (\<lambda>state.
     act_seq (column ''open interrupts'' (JArr (map enc_interrupt (sess_open_interrupts sess)))) (\<lambda>ints.
     act_ret (state, ints)))"

definition loadSessionTimestamps :: "string \<Rightarrow> (sqlite, int \<times> int) act" where
  "loadSessionTimestamps i =
     act_seq (act_wrap (''sqlite: inspect session '' @ quote i) (sq_row (session_rows i))) (\<lambda>row.
     case row of
       None \<Rightarrow> act_fail (ErrMsg (''sqlite: update session '' @ quote i @ '': not found''))
     | Some r \<Rightarrow> act_ret (sr_created_at r, sr_updated_at r))"

definition nextSQLiteUpdatedAt :: "string \<Rightarrow> int \<Rightarrow> (sqlite, int) act" where
  "nextSQLiteUpdatedAt i current =
     act_seq sq_now (\<lambda>now.
     if now > current then act_ret now
     else if current = 2 ^ 63 - 1 then
       act_fail (ErrMsg (''sqlite: update session '' @ quote i @ '': updatedAt overflow''))
     else act_ret (current + 1))"

text \<open>UPDATE ... WHERE id = ? AND revision = ?, and the number of rows it changed.\<close>

definition write_session_row :: "session \<Rightarrow> string \<times> string \<Rightarrow> int \<Rightarrow> int \<Rightarrow> int \<Rightarrow> session_row \<Rightarrow> session_row" where
  "write_session_row sess enc expected nextRevision updatedAt r =
     (if sr_id r = sess_id sess \<and> sr_revision r = expected then
        r\<lparr>sr_agent_id := sess_agent_id sess, sr_user_id := sess_user_id sess,
          sr_parent_session_id := sess_parent_session_id sess, sr_state := fst enc, sr_open_interrupts := snd enc,
          sr_revision := nextRevision, sr_updated_at := updatedAt\<rparr>
      else r)"

definition update_session_rows :: "session \<Rightarrow> string \<times> string \<Rightarrow> int \<Rightarrow> int \<Rightarrow> int \<Rightarrow> tables \<Rightarrow> error + nat \<times> tables" where
  "update_session_rows sess enc expected nextRevision updatedAt t =
     Inr (length (filter (\<lambda>r. sr_id r = sess_id sess \<and> sr_revision r = expected) (t_sessions t)),
          t\<lparr>t_sessions := map (write_session_row sess enc expected nextRevision updatedAt) (t_sessions t)\<rparr>)"

definition classifySessionUpdateMiss :: "string \<Rightarrow> (sqlite, unit) act" where
  "classifySessionUpdateMiss i =
     act_seq (act_wrap (''sqlite: inspect session '' @ quote i) (sq_row (session_rows i))) (\<lambda>row.
     case row of
       None \<Rightarrow> act_fail (ErrMsg (''sqlite: update session '' @ quote i @ '': not found''))
     | Some _ \<Rightarrow>
         act_fail (ErrWrap (''sqlite: update session '' @ quote i @ '': '') ErrSessionConflict '' (stored revision differs)''))"

text \<open>RowsAffected of the engine never fails.\<close>

definition updateSessionRow :: "session \<Rightarrow> string \<times> string \<Rightarrow> int \<Rightarrow> int \<Rightarrow> int \<Rightarrow> (sqlite, unit) act" where
  "updateSessionRow sess enc expected nextRevision updatedAt =
     act_seq (act_wrap ''sqlite: update session''
       (sq_exec (update_session_rows sess enc expected nextRevision updatedAt))) (\<lambda>updated.
     if updated > 0 then act_ret () else classifySessionUpdateMiss (sess_id sess))"

definition delete_message_rows :: "string \<Rightarrow> message list \<Rightarrow> tables \<Rightarrow> error + unit \<times> tables" where
  "delete_message_rows i ms t =
     Inr ((), t\<lparr>t_messages := filter (\<lambda>r. \<not> (mr_session_id r = i \<and> mr_id r \<notin> set (map msg_id ms))) (t_messages t)\<rparr>)"

definition deleteRemovedMessages :: "string \<Rightarrow> message list \<Rightarrow> (sqlite, unit) act" where
  "deleteRemovedMessages i ms =
     (if ms = [] then act_wrap ''sqlite: delete old messages'' (sq_exec (delete_message_rows i []))
      else act_wrap ''sqlite: delete removed messages'' (sq_exec (delete_message_rows i ms)))"

text \<open>INSERT ... ON CONFLICT(id) DO UPDATE: the row with that id, whichever session it is of.\<close>

definition upsert_message_row :: "message_row \<Rightarrow> tables \<Rightarrow> error + unit \<times> tables" where
  "upsert_message_row r t =
     Inr ((), t\<lparr>t_messages :=
       (if \<exists>x \<in> set (t_messages t). mr_id x = mr_id r
        then map (\<lambda>x. if mr_id x = mr_id r then r else x) (t_messages t)
        else t_messages t @ [r])\<rparr>)"

definition upsertSessionMessage :: "string \<Rightarrow> message \<Rightarrow> (sqlite, unit) act" where
  "upsertSessionMessage i m =
     act_seq (column (''tool calls for message '' @ quote (msg_id m)) (JArr (map enc_tool_call (msg_tool_calls m)))) (\<lambda>calls.
     act_wrap (''sqlite: upsert message '' @ quote (msg_id m)) (sq_exec (upsert_message_row
       \<lparr>mr_id = msg_id m, mr_session_id = i, mr_role = msg_role m, mr_content = msg_content m,
        mr_tool_calls = calls, mr_created_at = msg_created_at m\<rparr>)))"

fun upsert_messages :: "string \<Rightarrow> message list \<Rightarrow> (sqlite, unit) act" where
  "upsert_messages i [] = act_ret ()"
| "upsert_messages i (m # ms) = act_seq (upsertSessionMessage i m) (\<lambda>_. upsert_messages i ms)"

definition reconcileSessionMessages :: "string \<Rightarrow> message list \<Rightarrow> (sqlite, unit) act" where
  "reconcileSessionMessages i ms = act_seq (deleteRemovedMessages i ms) (\<lambda>_. upsert_messages i ms)"

definition updateSessionTransaction :: "session \<Rightarrow> string \<times> string \<Rightarrow> (sqlite, int \<times> int \<times> int) act" where
  "updateSessionTransaction sess enc =
     act_seq (loadSessionTimestamps (sess_id sess)) (\<lambda>(createdAt, current).
     act_seq (nextSQLiteUpdatedAt (sess_id sess) current) (\<lambda>updatedAt.
     let expected = uint (sess_revision sess) in
     act_seq (updateSessionRow sess enc expected (expected + 1) updatedAt) (\<lambda>_.
     act_seq (reconcileSessionMessages (sess_id sess) (sess_messages sess)) (\<lambda>_.
     act_ret (expected + 1, createdAt, updatedAt)))))"

text \<open>applyCommittedSession: the caller's session keeps its content and gets revision and times.\<close>

definition applyCommittedSession :: "session \<Rightarrow> int \<times> int \<times> int \<Rightarrow> session" where
  "applyCommittedSession sess c = (case c of (revision, createdAt, updatedAt) \<Rightarrow>
     sess\<lparr>sess_revision := word_of_int revision, sess_created_at := createdAt, sess_updated_at := updatedAt\<rparr>)"

definition sq_UpdateSession :: "session \<Rightarrow> (sqlite, session) act" where
  "sq_UpdateSession sess =
     act_seq (act_lift (validateSessionUpdate sess)) (\<lambda>_.
     act_seq (encodeSessionMetadata sess) (\<lambda>enc.
     act_seq (sq_tx (updateSessionTransaction sess enc)) (\<lambda>c.
     act_ret (applyCommittedSession sess c))))"

definition delete_session_rows :: "bool \<Rightarrow> string \<Rightarrow> tables \<Rightarrow> error + unit \<times> tables" where
  "delete_session_rows fk i t =
     Inr ((), t\<lparr>t_sessions := filter (\<lambda>r. sr_id r \<noteq> i) (t_sessions t),
       t_messages := (if fk then filter (\<lambda>r. mr_session_id r \<noteq> i) (t_messages t) else t_messages t)\<rparr>)"

definition sq_DeleteSession :: "string \<Rightarrow> (sqlite, unit) act" where
  "sq_DeleteSession i s =
     act_wrap (''sqlite: delete session '' @ quote i) (sq_exec (delete_session_rows (foreign_keys s) i)) s"

definition newest_first :: "session_row list \<Rightarrow> session_row list" where
  "newest_first rs = sort_key (\<lambda>r. - sr_updated_at r) rs"

definition scanSessionSummary :: "session_row \<Rightarrow> error + session" where
  "scanSessionSummary r =
     (if sr_revision r < 0 then Inl (ErrMsg (''sqlite: scan session: invalid revision '' @ int_text (sr_revision r)))
      else Inr \<lparr>sess_id = sr_id r, sess_agent_id = sr_agent_id r, sess_user_id = sr_user_id r,
        sess_parent_session_id = sr_parent_session_id r, sess_messages = [], sess_state = [],
        sess_open_interrupts = [], sess_revision = word_of_int (sr_revision r),
        sess_created_at = sr_created_at r, sess_updated_at = sr_updated_at r\<rparr>)"

fun scan_all :: "session_row list \<Rightarrow> error + session list" where
  "scan_all [] = Inr []"
| "scan_all (r # rs) =
     (case scanSessionSummary r of Inl e \<Rightarrow> Inl e
      | Inr x \<Rightarrow> (case scan_all rs of Inl e \<Rightarrow> Inl e | Inr xs \<Rightarrow> Inr (x # xs)))"

definition querySessionSummaries :: "(session_row \<Rightarrow> bool) \<Rightarrow> string \<Rightarrow> (sqlite, session list) act" where
  "querySessionSummaries P operation =
     act_seq (act_wrap (''sqlite: '' @ operation) (sq_rows (\<lambda>t. newest_first (filter P (t_sessions t))))) (\<lambda>rs.
     act_lift (scan_all rs))"

definition sq_ListSessions :: "string \<Rightarrow> (sqlite, session list) act" where
  "sq_ListSessions agentID = querySessionSummaries (\<lambda>r. sr_agent_id r = agentID) ''list sessions''"

definition sq_ListSessionsByUser :: "string \<Rightarrow> string \<Rightarrow> (sqlite, session list) act" where
  "sq_ListSessionsByUser agentID userID =
     querySessionSummaries (\<lambda>r. sr_agent_id r = agentID \<and> sr_user_id r = userID) ''list sessions by user''"

section \<open>Tools\<close>

definition needs_column :: "string \<Rightarrow> (sqlite, 'a) act \<Rightarrow> (sqlite, 'a) act" where
  "needs_column m act s = (if t_response_field (tables s) then act s else (Inl (ErrMsg m), s))"

text \<open>The values SaveTool and SaveMCPServer fill in before they look at the table.\<close>

definition fill_id :: "string \<Rightarrow> (sqlite, string) act" where
  "fill_id i = (if i = [] then sq_newID else act_ret i)"

definition fill_time :: "int \<Rightarrow> (sqlite, int) act" where
  "fill_time t = (if t = 0 then sq_now else act_ret t)"

definition tool_row_of :: "tool_def \<Rightarrow> string \<Rightarrow> string \<Rightarrow> string \<Rightarrow> tool_row" where
  "tool_row_of td params headers mapping =
     \<lparr>tl_id = td_id td, tl_agent_id = td_agent_id td, tl_name = td_name td, tl_description = td_description td,
      tl_parameters = params, tl_handler = td_handler td, tl_endpoint = td_endpoint td, tl_headers = headers,
      tl_input_mapping = mapping, tl_response_field = td_response_field td, tl_script_path = td_script_path td,
      tl_created_at = td_created_at td\<rparr>"

text \<open>ON CONFLICT(name) keeps the id and the creation time of the row that is there.\<close>

definition upsert_tool_row :: "tool_row \<Rightarrow> tables \<Rightarrow> error + unit \<times> tables" where
  "upsert_tool_row r t =
     (if \<exists>x \<in> set (t_tools t). tl_name x = tl_name r then
        Inr ((), t\<lparr>t_tools := map (\<lambda>x. if tl_name x = tl_name r
          then r\<lparr>tl_id := tl_id x, tl_created_at := tl_created_at x\<rparr> else x) (t_tools t)\<rparr>)
      else if \<exists>x \<in> set (t_tools t). tl_id x = tl_id r then Inl (unique_failed ''tools.id'')
      else Inr ((), t\<lparr>t_tools := t_tools t @ [r]\<rparr>))"

definition sq_SaveTool :: "tool_def \<Rightarrow> (sqlite, tool_def) act" where
  "sq_SaveTool td =
     act_seq (fill_id (td_id td)) (\<lambda>i.
     act_seq (fill_time (td_created_at td)) (\<lambda>c.
     let td1 = td\<lparr>td_id := i, td_created_at := c\<rparr> in
     act_seq (column ''params'' (td_parameters td1)) (\<lambda>params.
     act_seq (column ''headers'' (enc_str_map (td_headers td1))) (\<lambda>headers.
     act_seq (column ''input_mapping'' (enc_str_map (td_input_mapping td1))) (\<lambda>mapping.
     act_seq (act_wrap (''sqlite: save tool '' @ quote (td_name td1))
       (needs_column ''table tools has no column named response_field''
         (sq_exec (upsert_tool_row (tool_row_of td1 params headers mapping))))) (\<lambda>_.
     act_ret td1))))))"

definition scan_tool :: "tool_row \<Rightarrow> tool_def" where
  "scan_tool r =
     \<lparr>td_id = tl_id r, td_agent_id = tl_agent_id r, td_name = tl_name r, td_description = tl_description r,
      td_parameters = read_any (tl_parameters r), td_handler = tl_handler r, td_endpoint = tl_endpoint r,
      td_headers = read_strings (tl_headers r), td_input_mapping = read_strings (tl_input_mapping r),
      td_response_field = tl_response_field r, td_script_path = tl_script_path r, td_created_at = tl_created_at r\<rparr>"

definition sq_GetTool :: "string \<Rightarrow> (sqlite, tool_def option) act" where
  "sq_GetTool name =
     act_seq (act_wrap (''sqlite: get tool '' @ quote name) (needs_column ''no such column: response_field''
       (sq_row (\<lambda>t. filter (\<lambda>r. tl_name r = name) (t_tools t))))) (\<lambda>row.
     act_ret (map_option scan_tool row))"

definition sq_ListTools :: "string \<Rightarrow> (sqlite, tool_def list) act" where
  "sq_ListTools agentID =
     act_seq (act_wrap ''sqlite: list tools'' (needs_column ''no such column: response_field''
       (sq_rows (\<lambda>t. filter (\<lambda>r. tl_agent_id r = agentID) (t_tools t))))) (\<lambda>rs.
     act_ret (map scan_tool rs))"

definition sq_DeleteTool :: "string \<Rightarrow> (sqlite, unit) act" where
  "sq_DeleteTool name =
     act_wrap (''sqlite: delete tool '' @ quote name)
       (sq_exec (\<lambda>t. Inr ((), t\<lparr>t_tools := filter (\<lambda>r. tl_name r \<noteq> name) (t_tools t)\<rparr>)))"

section \<open>Skills\<close>

definition upsert_skill_row :: "skill_row \<Rightarrow> tables \<Rightarrow> error + unit \<times> tables" where
  "upsert_skill_row r t =
     Inr ((), t\<lparr>t_skills :=
       (if \<exists>x \<in> set (t_skills t). sk_name x = sk_name r
        then map (\<lambda>x. if sk_name x = sk_name r then r else x) (t_skills t)
        else t_skills t @ [r])\<rparr>)"

definition sq_SaveSkill :: "skill_def \<Rightarrow> (sqlite, unit) act" where
  "sq_SaveSkill d =
     act_seq (column ''tools'' (JArr (sd_tools d))) (\<lambda>tools.
     act_seq (column ''config'' (JObj (sd_config d))) (\<lambda>config.
     act_seq (column ''resources'' (JArr (sd_resources d))) (\<lambda>resources.
     act_wrap (''sqlite: save skill '' @ quote (sd_name d)) (sq_exec (upsert_skill_row
       \<lparr>sk_name = sd_name d, sk_description = sd_description d, sk_version = sd_version d,
        sk_instructions = sd_instructions d, sk_tools = tools, sk_config = config, sk_resources = resources,
        sk_enabled = (if sd_enabled d then 1 else 0)\<rparr>)))))"

definition scan_skill :: "skill_row \<Rightarrow> skill_def" where
  "scan_skill r =
     \<lparr>sd_name = sk_name r, sd_description = sk_description r, sd_version = sk_version r,
      sd_instructions = sk_instructions r, sd_tools = read_column (dec_list (\<lambda>v. Some (canon v))) (sk_tools r),
      sd_config = read_column dec_map (sk_config r),
      sd_resources = read_column (dec_list (\<lambda>v. Some (canon v))) (sk_resources r), sd_enabled = (sk_enabled r = 1)\<rparr>"

definition sq_GetSkill :: "string \<Rightarrow> (sqlite, skill_def option) act" where
  "sq_GetSkill name =
     act_seq (act_wrap (''sqlite: get skill '' @ quote name)
       (sq_row (\<lambda>t. filter (\<lambda>r. sk_name r = name) (t_skills t)))) (\<lambda>row.
     act_ret (map_option scan_skill row))"

definition sq_ListSkills :: "(sqlite, skill_entry list) act" where
  "sq_ListSkills =
     act_seq (act_wrap ''sqlite: list skills'' (sq_rows t_skills)) (\<lambda>rs.
     act_ret (map (\<lambda>r. \<lparr>se_name = sk_name r, se_description = sk_description r, se_version = sk_version r,
       se_enabled = (sk_enabled r = 1)\<rparr>) rs))"

definition sq_DeleteSkill :: "string \<Rightarrow> (sqlite, unit) act" where
  "sq_DeleteSkill name =
     act_wrap (''sqlite: delete skill '' @ quote name)
       (sq_exec (\<lambda>t. Inr ((), t\<lparr>t_skills := filter (\<lambda>r. sk_name r \<noteq> name) (t_skills t)\<rparr>)))"

section \<open>Scoped memory\<close>

definition upsert_memory_row :: "string \<Rightarrow> string \<Rightarrow> tables \<Rightarrow> error + unit \<times> tables" where
  "upsert_memory_row k v t =
     Inr ((), t\<lparr>t_memory :=
       (if \<exists>x \<in> set (t_memory t). fst x = k then map (\<lambda>x. if fst x = k then (k, v) else x) (t_memory t)
        else t_memory t @ [(k, v)])\<rparr>)"

definition sq_SetMemory :: "memory_scope \<Rightarrow> string \<Rightarrow> string \<Rightarrow> string \<Rightarrow> (sqlite, unit) act" where
  "sq_SetMemory scope scopeID key value =
     (let k = ScopedKey scope scopeID key in
      act_wrap (''sqlite: set memory '' @ quote k) (sq_exec (upsert_memory_row k value)))"

definition sq_GetMemory :: "memory_scope \<Rightarrow> string \<Rightarrow> string \<Rightarrow> (sqlite, string option) act" where
  "sq_GetMemory scope scopeID key =
     (let k = ScopedKey scope scopeID key in
      act_seq (act_wrap (''sqlite: get memory '' @ quote k) (sq_row (\<lambda>t. filter (\<lambda>x. fst x = k) (t_memory t)))) (\<lambda>row.
      act_ret (map_option snd row)))"

definition sq_DeleteMemory :: "memory_scope \<Rightarrow> string \<Rightarrow> string \<Rightarrow> (sqlite, unit) act" where
  "sq_DeleteMemory scope scopeID key =
     (let k = ScopedKey scope scopeID key in
      act_wrap (''sqlite: delete memory '' @ quote k)
        (sq_exec (\<lambda>t. Inr ((), t\<lparr>t_memory := filter (\<lambda>x. fst x \<noteq> k) (t_memory t)\<rparr>))))"

text \<open>LIKE on characters: \<open>%\<close> any text, \<open>_\<close> any character, ASCII letters without regard to case.\<close>

definition fold_case :: "nat \<Rightarrow> nat" where
  "fold_case c = (if 65 \<le> c \<and> c \<le> 90 then c + 32 else c)"

fun like :: "nat list \<Rightarrow> nat list \<Rightarrow> bool" where
  "like [] ys \<longleftrightarrow> ys = []"
| "like (p # ps) [] \<longleftrightarrow> p = 37 \<and> like ps []"
| "like (p # ps) (y # ys) \<longleftrightarrow>
     (if p = 37 then like ps (y # ys) \<or> like (p # ps) ys
      else if p = 95 then like ps ys
      else fold_case p = fold_case y \<and> like ps ys)"

definition sql_like :: "string \<Rightarrow> string \<Rightarrow> bool" where
  "sql_like pattern s = like (map fst (runes pattern)) (map fst (runes s))"

definition sq_ListMemory :: "memory_scope \<Rightarrow> string \<Rightarrow> string \<Rightarrow> (sqlite, string list) act" where
  "sq_ListMemory scope scopeID pre =
     (let p = ScopedKey scope scopeID pre in
      act_wrap (''sqlite: list memory '' @ quote p)
        (sq_rows (\<lambda>t. filter (sql_like (p @ ''%'')) (map fst (t_memory t)))))"

definition sq_Set :: "string \<Rightarrow> string \<Rightarrow> (sqlite, unit) act" where
  "sq_Set key value = sq_SetMemory ScopeGlobal [] key value"

definition sq_Get :: "string \<Rightarrow> (sqlite, string option) act" where
  "sq_Get key = sq_GetMemory ScopeGlobal [] key"

definition sq_Delete :: "string \<Rightarrow> (sqlite, unit) act" where
  "sq_Delete key = sq_DeleteMemory ScopeGlobal [] key"

definition sq_List :: "string \<Rightarrow> (sqlite, string list) act" where
  "sq_List pre = sq_ListMemory ScopeGlobal [] pre"

section \<open>MCP servers\<close>

definition upsert_mcp_row :: "mcp_row \<Rightarrow> tables \<Rightarrow> error + unit \<times> tables" where
  "upsert_mcp_row r t =
     (if \<exists>x \<in> set (t_mcp_servers t). mc_name x = mc_name r then
        Inr ((), t\<lparr>t_mcp_servers := map (\<lambda>x. if mc_name x = mc_name r
          then r\<lparr>mc_id := mc_id x, mc_created_at := mc_created_at x\<rparr> else x) (t_mcp_servers t)\<rparr>)
      else if \<exists>x \<in> set (t_mcp_servers t). mc_id x = mc_id r then Inl (unique_failed ''mcp_servers.id'')
      else Inr ((), t\<lparr>t_mcp_servers := t_mcp_servers t @ [r]\<rparr>))"

definition or_http :: "string \<Rightarrow> string" where
  "or_http t = (if t = [] then ''http'' else t)"

definition sq_SaveMCPServer :: "mcp_server_def \<Rightarrow> (sqlite, mcp_server_def) act" where
  "sq_SaveMCPServer m =
     act_seq (fill_id (ms_id m)) (\<lambda>i.
     act_seq (fill_time (ms_created_at m)) (\<lambda>c.
     let m1 = m\<lparr>ms_id := i, ms_created_at := c, ms_transport := or_http (ms_transport m)\<rparr> in
     act_seq (column ''headers'' (enc_str_map (ms_headers m1))) (\<lambda>headers.
     act_seq (act_wrap (''sqlite: save mcp server '' @ quote (ms_name m1)) (sq_exec (upsert_mcp_row
       \<lparr>mc_id = ms_id m1, mc_agent_id = ms_agent_id m1, mc_name = ms_name m1, mc_url = ms_url m1,
        mc_transport = ms_transport m1, mc_headers = headers, mc_enabled = (if ms_enabled m1 then 1 else 0),
        mc_created_at = ms_created_at m1\<rparr>))) (\<lambda>_.
     act_ret m1))))"

definition scan_mcp :: "mcp_row \<Rightarrow> mcp_server_def" where
  "scan_mcp r =
     \<lparr>ms_id = mc_id r, ms_agent_id = mc_agent_id r, ms_name = mc_name r, ms_url = mc_url r,
      ms_transport = or_http (mc_transport r), ms_headers = read_strings (mc_headers r),
      ms_enabled = (mc_enabled r = 1), ms_created_at = mc_created_at r\<rparr>"

definition sq_GetMCPServer :: "string \<Rightarrow> (sqlite, mcp_server_def option) act" where
  "sq_GetMCPServer name =
     act_seq (act_wrap (''sqlite: get mcp server '' @ quote name)
       (sq_row (\<lambda>t. filter (\<lambda>r. mc_name r = name) (t_mcp_servers t)))) (\<lambda>row.
     act_ret (map_option scan_mcp row))"

definition sq_ListMCPServers :: "string \<Rightarrow> (sqlite, mcp_server_def list) act" where
  "sq_ListMCPServers agentID =
     act_seq (act_wrap ''sqlite: list mcp servers''
       (sq_rows (\<lambda>t. filter (\<lambda>r. mc_agent_id r = agentID) (t_mcp_servers t)))) (\<lambda>rs.
     act_ret (map scan_mcp rs))"

definition sq_DeleteMCPServer :: "string \<Rightarrow> (sqlite, unit) act" where
  "sq_DeleteMCPServer name =
     act_wrap (''sqlite: delete mcp server '' @ quote name)
       (sq_exec (\<lambda>t. Inr ((), t\<lparr>t_mcp_servers := filter (\<lambda>r. mc_name r \<noteq> name) (t_mcp_servers t)\<rparr>)))"

section \<open>The store\<close>

text \<open>UpdateSession fills its argument in without replacing the message slice.\<close>

definition listed :: "(sqlite, session list) act \<Rightarrow> sqlite \<Rightarrow> (session list \<times> error option) \<times> sqlite" where
  "listed m s = (case m s of (Inl e, s1) \<Rightarrow> (([], Some e), s1) | (Inr xs, s1) \<Rightarrow> ((xs, None), s1))"

definition sqlite_store :: "sqlite meta_store" where
  "sqlite_store =
     \<lparr>st_CreateSession = sq_CreateSession, st_GetSession = sq_GetSession,
      st_ListSessions = (\<lambda>a. listed (sq_ListSessions a)),
      st_ListSessionsByUser = (\<lambda>a u. listed (sq_ListSessionsByUser a u)),
      st_UpdateSession = (\<lambda>sess. act_seq (sq_UpdateSession sess) (\<lambda>x. act_ret (x, False))),
      st_DeleteSession = sq_DeleteSession, st_ListTools = sq_ListTools, st_SaveSkill = sq_SaveSkill,
      st_GetSkill = sq_GetSkill, st_ListSkills = sq_ListSkills, st_DeleteSkill = sq_DeleteSkill,
      st_SaveMCPServer = sq_SaveMCPServer, st_GetMCPServer = sq_GetMCPServer,
      st_ListMCPServers = sq_ListMCPServers, st_DeleteMCPServer = sq_DeleteMCPServer\<rparr>"

end
