(* ===== verification/Acts.thy ===== *)
theory Acts
  imports Tools
begin

text \<open>Rules for operations on the world: what a sequence, a wrapped error and a value come to.\<close>

lemma act_seq_iff:
  "act_seq m k s = (r, t) \<longleftrightarrow>
     (\<exists>e. m s = (Inl e, t) \<and> r = Inl e) \<or> (\<exists>x s1. m s = (Inr x, s1) \<and> k x s1 = (r, t))"
  by (auto simp: act_seq_def split: prod.splits sum.splits)

lemma act_simps [simp]:
  "act_ret x s = (r, t) \<longleftrightarrow> r = Inr x \<and> t = s"
  "act_fail e s = (r, t) \<longleftrightarrow> r = Inl e \<and> t = s"
  "act_lift y s = (r, t) \<longleftrightarrow> r = y \<and> t = s"
  by (auto simp: act_ret_def act_fail_def act_lift_def)

lemma act_wrap_iff:
  "act_wrap p m s = (r, t) \<longleftrightarrow>
     (\<exists>e. m s = (Inl e, t) \<and> r = Inl (if is_panic e then e else wrapf p e)) \<or> (\<exists>x. m s = (Inr x, t) \<and> r = Inr x)"
  by (auto simp: act_wrap_def split: prod.splits sum.splits)

lemma act_wrap_Inr [simp]: "act_wrap p m s = (Inr x, t) \<longleftrightarrow> m s = (Inr x, t)"
  by (auto simp: act_wrap_iff)

lemma act_wrap_failed: "act_wrap p m s = (Inl e, t) \<Longrightarrow> \<exists>e'. m s = (Inl e', t)"
  by (auto simp: act_wrap_iff)

end
