(* ===== verification/Sqlite_Contract.thy ===== *)
theory Sqlite_Contract
  imports Sqlite Acts Store_Contract "HOL-Library.Multiset"
begin

text \<open>
  What the SQLite store promises about sessions: UpdateSession is one transaction, so an error
  leaves every table as it was; what it commits is the row at the next revision and the caller's
  messages, which a reader gets in the order of their times. On sessions whose messages are in that
  order and share no id with another session it is an instance of \<open>session_store\<close>.
\<close>

section \<open>What a call does to the tables\<close>

definition same_db :: "sqlite \<Rightarrow> sqlite \<Rightarrow> bool" where
  "same_db s t \<longleftrightarrow> tables t = tables s \<and> foreign_keys t = foreign_keys s \<and>
     sq_random t = sq_random s \<and> sq_clock t = sq_clock s"

lemma same_db_refl [simp]: "same_db s s"
  by (simp add: same_db_def)

lemma same_db_trans: "same_db s t \<Longrightarrow> same_db t u \<Longrightarrow> same_db s u"
  by (simp add: same_db_def)

lemma next_outcome_same: "next_outcome s = (oc, t) \<Longrightarrow> same_db s t"
  by (auto simp: next_outcome_def same_db_def split: list.splits)

lemma sq_call_same: "sq_call s = (r, t) \<Longrightarrow> same_db s t"
  using next_outcome_same by (fastforce simp: sq_call_def split: prod.splits outcome.splits)

lemma sq_row_same: "sq_row q s = (r, t) \<Longrightarrow> same_db s t"
  using sq_call_same by (fastforce simp: sq_row_def act_seq_iff)

lemma sq_rows_same: "sq_rows q s = (r, t) \<Longrightarrow> same_db s t"
  using next_outcome_same by (fastforce simp: sq_rows_def split: prod.splits outcome.splits)

lemma sq_now_same: "sq_now s = (r, t) \<Longrightarrow> same_db s t"
  by (auto simp: sq_now_def draw_nano_def same_db_def)

lemma sq_newID_same: "sq_newID s = (r, t) \<Longrightarrow> same_db s t"
  by (auto simp: sq_newID_def draw_random_def draw_nano_def same_db_def split: option.splits)

lemma column_same: "column what v s = (r, t) \<Longrightarrow> t = s"
  by (auto simp: column_def act_wrap_iff)

lemma column_Inr: "column what v s = (Inr x, t) \<longleftrightarrow> t = s \<and> json_ok v \<and> x = render v"
  using json_Marshal_ok by (auto simp: column_def dest: json_Marshal_Inr [OF sym])

lemma sq_row_value: "sq_row q s = (Inr x, t) \<Longrightarrow> x = (case q (tables s) of [] \<Rightarrow> None | r # _ \<Rightarrow> Some r)"
  using sq_call_same by (fastforce simp: sq_row_def act_seq_iff same_db_def)

lemma sq_exec_cases:
  assumes "sq_exec f s = (r, t)"
  obtains (fails) e where "r = Inl e" "same_db s t"
  | (works) x s1 where "r = Inr x" "f (tables s) = Inr (x, tables t)" "same_db s s1" "t = s1\<lparr>tables := tables t\<rparr>"
proof -
  from assms consider e where "sq_call s = (Inl e, t)" "r = Inl e"
    | s1 where "sq_call s = (Inr (), s1)"
        "(case f (tables s1) of Inl e \<Rightarrow> (Inl e, s1) | Inr (x, u) \<Rightarrow> (Inr x, s1\<lparr>tables := u\<rparr>)) = (r, t)"
    by (auto simp: sq_exec_def act_seq_iff)
  then show ?thesis
  proof cases
    case (2 s1)
    note same = sq_call_same [OF 2(1)]
    show ?thesis
    proof (cases "f (tables s1)")
      case (Inl e)
      then show ?thesis using 2 same fails [of e] by auto
    next
      case (Inr y)
      then show ?thesis using 2 same works [of "fst y" s1] by (cases y) (auto simp: same_db_def)
    qed
  qed (use sq_call_same fails in auto)
qed

lemma sq_exec_failed: "sq_exec f s = (Inl e, t) \<Longrightarrow> same_db s t"
  by (auto elim: sq_exec_cases)

lemma sq_exec_done:
  assumes "sq_exec f s = (Inr x, t)"
  shows "f (tables s) = Inr (x, tables t)" "foreign_keys t = foreign_keys s"
    "sq_random t = sq_random s" "sq_clock t = sq_clock s"
proof -
  from assms obtain s1 where "f (tables s) = Inr (x, tables t)" "same_db s s1" "t = s1\<lparr>tables := tables t\<rparr>"
    by (auto elim: sq_exec_cases)
  moreover from this have "foreign_keys t = foreign_keys s1" "sq_random t = sq_random s1" "sq_clock t = sq_clock s1"
    by (metis sqlite.select_convs sqlite.surjective sqlite.update_convs(1))+
  ultimately show "f (tables s) = Inr (x, tables t)" "foreign_keys t = foreign_keys s"
    "sq_random t = sq_random s" "sq_clock t = sq_clock s" by (auto simp: same_db_def)
qed

text \<open>A transaction that fails leaves the tables; one that succeeds leaves what its body made of them.\<close>

lemma sq_tx_failed: "sq_tx m s = (Inl e, t) \<Longrightarrow> tables t = tables s"
  by (auto simp: sq_tx_def set_tables_def same_db_def split: prod.splits sum.splits dest!: act_wrap_failed dest: sq_call_same)

lemma sq_tx_done: "sq_tx m s = (Inr x, t) \<Longrightarrow> \<exists>s1 s2. same_db s s1 \<and> m s1 = (Inr x, s2) \<and> tables t = tables s2"
  by (fastforce simp: sq_tx_def same_db_def act_seq_iff split: prod.splits sum.splits dest: sq_call_same)

section \<open>Keys\<close>

text \<open>The primary and unique keys of the schema, and revisions that a 64-bit column holds and that are not negative.\<close>

definition keys_ok :: "tables \<Rightarrow> bool" where
  "keys_ok t \<longleftrightarrow> distinct (map sr_id (t_sessions t)) \<and> distinct (map mr_id (t_messages t)) \<and>
     distinct (map tl_id (t_tools t)) \<and> distinct (map tl_name (t_tools t)) \<and>
     distinct (map sk_name (t_skills t)) \<and> distinct (map fst (t_memory t)) \<and>
     distinct (map mc_id (t_mcp_servers t)) \<and> distinct (map mc_name (t_mcp_servers t)) \<and>
     (\<forall>r \<in> set (t_sessions t). 0 \<le> sr_revision r \<and> sr_revision r < 2 ^ 63)"

lemma keys_ok_dest:
  "keys_ok t \<Longrightarrow> distinct (map sr_id (t_sessions t))" "keys_ok t \<Longrightarrow> distinct (map mr_id (t_messages t))"
  "keys_ok t \<Longrightarrow> r \<in> set (t_sessions t) \<Longrightarrow> 0 \<le> sr_revision r \<and> sr_revision r < 2 ^ 63"
  by (auto simp: keys_ok_def)

lemma filter_key: "distinct (map f xs) \<Longrightarrow> x \<in> set xs \<Longrightarrow> filter (\<lambda>y. f y = f x) xs = [x]"
proof (induction xs)
  case (Cons a xs)
  show ?case
  proof (cases "a = x")
    case True
    then have "f y \<noteq> f x" if "y \<in> set xs" for y using Cons.prems(1) True that by (metis distinct.simps(2) imageI list.set_map list.simps(9))
    then show ?thesis using True by simp
  next
    case False
    then show ?thesis using Cons by auto
  qed
qed simp

lemma session_rows_cases:
  assumes "keys_ok t"
  obtains (none) "session_rows i t = []" | (one) r where "session_rows i t = [r]" "r \<in> set (t_sessions t)" "sr_id r = i"
proof (cases "session_rows i t")
  case (Cons r rs)
  then have "r \<in> set (t_sessions t)" "sr_id r = i" by (auto simp: session_rows_def dest: filter_eq_ConsD)
  then show ?thesis using filter_key [OF keys_ok_dest(1) [OF assms], of r] one by (simp add: session_rows_def)
qed (rule none)

section \<open>What a reader finds\<close>

definition sq_look :: "sqlite \<Rightarrow> string \<Rightarrow> error + session option" where
  "sq_look s i = fst (sq_GetSession i (s\<lparr>outcomes := []\<rparr>))"

lemma quiet_calls [simp]:
  "outcomes s = [] \<Longrightarrow> sq_call s = (Inr (), s)"
  "outcomes s = [] \<Longrightarrow> sq_rows q s = (Inr (q (tables s)), s)"
  "outcomes s = [] \<Longrightarrow> sq_row q s = (Inr (case q (tables s) of [] \<Rightarrow> None | r # _ \<Rightarrow> Some r), s)"
  by (simp_all add: sq_call_def next_outcome_def sq_rows_def sq_row_def act_seq_def)

definition look_tables :: "tables \<Rightarrow> string \<Rightarrow> error + session option" where
  "look_tables t i =
     (case session_rows i t of
        [] \<Rightarrow> Inr None
      | r # _ \<Rightarrow>
          if sr_revision r < 0 then
            Inl (ErrMsg (''sqlite: get session '' @ quote i @ '': invalid revision '' @ int_text (sr_revision r)))
          else Inr (Some (scan_session r (map scan_message (message_rows i t)))))"

lemma sq_look_tables: "sq_look s i = look_tables (tables s) i"
  by (simp add: sq_look_def sq_GetSession_def look_tables_def act_seq_def act_wrap_def loadMessages_def act_ret_def
      act_fail_def split: list.split)

lemma look_tables_some:
  assumes "keys_ok t" "look_tables t i = Inr (Some cur)"
  obtains r where "session_rows i t = [r]" "r \<in> set (t_sessions t)" "sr_id r = i"
    "cur = scan_session r (map scan_message (message_rows i t))"
  using assms(1)
proof (cases rule: session_rows_cases [of t i])
  case none
  then show ?thesis using assms(2) by (simp add: look_tables_def)
next
  case (one r)
  then show ?thesis using assms(2) that by (auto simp: look_tables_def split: if_splits)
qed

section \<open>The rows an update writes\<close>

definition row_of :: "string \<Rightarrow> message \<Rightarrow> message_row" where
  "row_of i m =
     \<lparr>mr_id = msg_id m, mr_session_id = i, mr_role = msg_role m, mr_content = msg_content m,
      mr_tool_calls = render (JArr (map enc_tool_call (msg_tool_calls m))), mr_created_at = msg_created_at m\<rparr>"

lemma read_back_calls: "read_column (dec_list dec_tool_call) (render (JArr (map enc_tool_call tcs))) = tcs"
  by (simp add: read_column_def json_Unmarshal_render dec_elems_enc del: render.simps)

lemma scan_row_of [simp]: "scan_message (row_of i m) = m"
  using read_back_calls by (simp add: scan_message_def row_of_def del: render.simps)

lemma upsert_done:
  "upsertSessionMessage i m s = (Inr x, t) \<Longrightarrow> Inr ((), tables t) = upsert_message_row (row_of i m) (tables s)"
  by (auto simp: upsertSessionMessage_def act_seq_iff row_of_def column_Inr dest!: sq_exec_done(1))

definition put_row :: "message_row \<Rightarrow> message_row list \<Rightarrow> message_row list" where
  "put_row r rs = (if \<exists>x \<in> set rs. mr_id x = mr_id r then map (\<lambda>x. if mr_id x = mr_id r then r else x) rs else rs @ [r])"

lemma upsert_message_row_put: "upsert_message_row r t = Inr ((), t\<lparr>t_messages := put_row r (t_messages t)\<rparr>)"
  by (simp add: upsert_message_row_def put_row_def)

lemma upsert_messages_done:
  "upsert_messages i ms s = (Inr x, t) \<Longrightarrow>
     tables t = (tables s)\<lparr>t_messages := fold put_row (map (row_of i) ms) (t_messages (tables s))\<rparr>"
proof (induction ms arbitrary: s)
  case (Cons m ms)
  then obtain y s1 where "upsertSessionMessage i m s = (Inr y, s1)" "upsert_messages i ms s1 = (Inr x, t)"
    by (auto simp: act_seq_iff)
  then show ?case using Cons.IH [of s1] by (auto dest!: upsert_done simp: upsert_message_row_put)
qed simp

lemma put_row_ids: "set (map mr_id (put_row r rs)) = insert (mr_id r) (set (map mr_id rs))"
  by (auto simp: put_row_def)

lemma put_row_distinct: "distinct (map mr_id rs) \<Longrightarrow> distinct (map mr_id (put_row r rs))"
proof -
  assume d: "distinct (map mr_id rs)"
  have "map mr_id (map (\<lambda>x. if mr_id x = mr_id r then r else x) rs) = map mr_id rs" by simp
  then show ?thesis using d by (auto simp: put_row_def simp del: map_map)
qed

text \<open>The row with a given id after an upsert: the new one, or the one it was.\<close>

lemma put_row_mem:
  "x \<in> set (put_row r rs) \<longleftrightarrow> x = r \<or> x \<in> set rs \<and> mr_id x \<noteq> mr_id r"
  by (auto simp: put_row_def)

lemma fold_put_row_distinct: "distinct (map mr_id rs) \<Longrightarrow> distinct (map mr_id (fold put_row ws rs))"
  by (induction ws arbitrary: rs) (auto simp: put_row_distinct)

lemma fold_put_row_mem:
  "distinct (map mr_id ws) \<Longrightarrow>
   x \<in> set (fold put_row ws rs) \<longleftrightarrow> x \<in> set ws \<or> x \<in> set rs \<and> mr_id x \<notin> set (map mr_id ws)"
proof (induction ws arbitrary: rs)
  case (Cons w ws)
  then show ?case by (fastforce simp: put_row_mem)
qed simp


section \<open>UpdateSession\<close>

definition session_columns :: "session \<Rightarrow> string \<times> string" where
  "session_columns sess =
     (render (JObj (sess_state sess)), render (JArr (map enc_interrupt (sess_open_interrupts sess))))"

text \<open>The tables after the update of \<open>sess\<close> at time \<open>u\<close>.\<close>

definition committed_tables :: "session \<Rightarrow> int \<Rightarrow> tables \<Rightarrow> tables" where
  "committed_tables sess u t = t
     \<lparr>t_sessions := map (write_session_row sess (session_columns sess) (uint (sess_revision sess))
        (uint (sess_revision sess) + 1) u) (t_sessions t),
      t_messages := fold put_row (map (row_of (sess_id sess)) (sess_messages sess))
        (filter (\<lambda>r. \<not> (mr_session_id r = sess_id sess \<and> mr_id r \<notin> set (map msg_id (sess_messages sess)))) (t_messages t))\<rparr>"

lemma reconcile_done:
  assumes "reconcileSessionMessages i ms s = (Inr x, t)"
  shows "tables t = (tables s)\<lparr>t_messages := fold put_row (map (row_of i) ms)
    (filter (\<lambda>r. \<not> (mr_session_id r = i \<and> mr_id r \<notin> set (map msg_id ms))) (t_messages (tables s)))\<rparr>"
proof -
  obtain y s1 where d: "deleteRemovedMessages i ms s = (Inr y, s1)" "upsert_messages i ms s1 = (Inr x, t)"
    using assms by (auto simp: reconcileSessionMessages_def act_seq_iff)
  have "delete_message_rows i ms (tables s) = Inr (y, tables s1)"
    using d(1) by (auto simp: deleteRemovedMessages_def split: if_splits dest: sq_exec_done(1))
  then have "tables s1 = (tables s)\<lparr>t_messages :=
      filter (\<lambda>r. \<not> (mr_session_id r = i \<and> mr_id r \<notin> set (map msg_id ms))) (t_messages (tables s))\<rparr>"
    by (simp add: delete_message_rows_def)
  then show ?thesis using upsert_messages_done [OF d(2)] by simp
qed

lemma timestamps_done:
  assumes "loadSessionTimestamps i s = (Inr (c, u), t)"
  shows "same_db s t \<and> (\<exists>r rs. session_rows i (tables s) = r # rs \<and> c = sr_created_at r \<and> u = sr_updated_at r)"
proof -
  obtain row s1 where "sq_row (session_rows i) s = (Inr row, s1)"
    "(case row of None \<Rightarrow> act_fail (ErrMsg (''sqlite: update session '' @ quote i @ '': not found''))
      | Some r \<Rightarrow> act_ret (sr_created_at r, sr_updated_at r)) s1 = (Inr (c, u), t)"
    using assms by (auto simp: loadSessionTimestamps_def act_seq_iff)
  note got = this
  obtain r where r: "row = Some r" "s1 = t" "c = sr_created_at r" "u = sr_updated_at r"
    using got(2) by (cases row) auto
  then obtain rs where "session_rows i (tables s) = r # rs"
    using sq_row_value [OF got(1)] by (cases "session_rows i (tables s)") auto
  then show ?thesis using sq_row_same [OF got(1)] r by blast
qed

lemma next_updated_done:
  assumes "nextSQLiteUpdatedAt i c s = (Inr u, t)"
  shows "same_db s t" "c < u"
  using assms by (auto simp: nextSQLiteUpdatedAt_def act_seq_iff dest: sq_now_same split: if_splits)

lemma update_row_done:
  assumes "updateSessionRow sess enc e n u s = (Inr x, t)"
  shows "tables t = (tables s)\<lparr>t_sessions := map (write_session_row sess enc e n u) (t_sessions (tables s))\<rparr> \<and>
    (\<exists>r \<in> set (t_sessions (tables s)). sr_id r = sess_id sess \<and> sr_revision r = e)"
proof -
  have miss: "classifySessionUpdateMiss i s1 \<noteq> (Inr y, t)" for i s1 y
    by (auto simp: classifySessionUpdateMiss_def act_seq_iff split: option.splits)
  obtain k s1 where "sq_exec (update_session_rows sess enc e n u) s = (Inr k, s1)"
    "(if k > 0 then act_ret () else classifySessionUpdateMiss (sess_id sess)) s1 = (Inr x, t)"
    using assms by (auto simp: updateSessionRow_def act_seq_iff)
  then have k: "update_session_rows sess enc e n u (tables s) = Inr (k, tables t)" "k > 0"
    using miss by (auto split: if_splits dest: sq_exec_done(1))
  then show ?thesis by (auto simp: update_session_rows_def filter_empty_conv)
qed

lemma transaction_done:
  assumes "updateSessionTransaction sess (session_columns sess) s = (Inr c, t)" "keys_ok (tables s)"
  obtains r u where "session_rows (sess_id sess) (tables s) = [r]" "r \<in> set (t_sessions (tables s))"
    "sr_revision r = uint (sess_revision sess)" "sr_updated_at r < u"
    "c = (uint (sess_revision sess) + 1, sr_created_at r, u)" "tables t = committed_tables sess u (tables s)"
proof -
  obtain cr cu s1 u s2 y s3 z where steps: "loadSessionTimestamps (sess_id sess) s = (Inr (cr, cu), s1)"
    "nextSQLiteUpdatedAt (sess_id sess) cu s1 = (Inr u, s2)"
    "updateSessionRow sess (session_columns sess) (uint (sess_revision sess)) (uint (sess_revision sess) + 1) u s2 = (Inr y, s3)"
    "reconcileSessionMessages (sess_id sess) (sess_messages sess) s3 = (Inr z, t)"
    "c = (uint (sess_revision sess) + 1, cr, u)"
    using assms(1) unfolding updateSessionTransaction_def act_seq_iff Let_def by (auto simp: act_seq_iff)
  have same: "tables s2 = tables s" using timestamps_done [OF steps(1)] next_updated_done(1) [OF steps(2)] by (simp add: same_db_def)
  obtain r rs where r: "session_rows (sess_id sess) (tables s) = r # rs" "cr = sr_created_at r" "cu = sr_updated_at r"
    using timestamps_done [OF steps(1)] by blast
  then have one: "session_rows (sess_id sess) (tables s) = [r]" "r \<in> set (t_sessions (tables s))" "sr_id r = sess_id sess"
    using session_rows_cases [OF assms(2), of "sess_id sess"] by auto
  obtain q where q: "q \<in> set (t_sessions (tables s))" "sr_id q = sess_id sess" "sr_revision q = uint (sess_revision sess)"
    using update_row_done [OF steps(3)] same by auto
  have "q \<in> set (session_rows (sess_id sess) (tables s))" using q by (simp add: session_rows_def)
  then have "sr_revision r = uint (sess_revision sess)" using one q by simp
  moreover have "tables t = committed_tables sess u (tables s)"
    using update_row_done [OF steps(3)] reconcile_done [OF steps(4)] same by (simp add: committed_tables_def)
  ultimately show ?thesis using that one r steps(5) next_updated_done(2) [OF steps(2)] by blast
qed

lemma encoded:
  "encodeSessionMetadata sess s = (r, t) \<Longrightarrow> t = s \<and> (\<forall>enc. r = Inr enc \<longrightarrow> enc = session_columns sess)"
  by (auto simp: encodeSessionMetadata_def act_seq_iff column_Inr session_columns_def dest: column_same)

lemma update_steps:
  assumes "sq_UpdateSession sess s = (r, t)"
  obtains (refused) e where "r = Inl e" "t = s"
  | (tried) r' where "validateSessionUpdate sess = Inr ()"
      "sq_tx (updateSessionTransaction sess (session_columns sess)) s = (r', t)"
      "r = map_sum id (applyCommittedSession sess) r'"
proof -
  from assms consider e where "r = Inl e" "t = s"
    | enc s1 where "validateSessionUpdate sess = Inr ()" "encodeSessionMetadata sess s = (Inr enc, s1)"
        "act_seq (sq_tx (updateSessionTransaction sess enc)) (\<lambda>c. act_ret (applyCommittedSession sess c)) s1 = (r, t)"
    unfolding sq_UpdateSession_def act_seq_iff [of "act_lift _"] act_seq_iff [of "encodeSessionMetadata _"]
    using encoded by (auto dest: encoded)
  then show ?thesis
  proof cases
    case (2 enc s1)
    then show ?thesis using encoded [OF 2(2)] tried by (auto simp: act_seq_iff)
  qed (rule refused)
qed

lemma update_failed: "sq_UpdateSession sess s = (Inl e, t) \<Longrightarrow> tables t = tables s"
proof (erule update_steps)
  fix r'
  assume "sq_tx (updateSessionTransaction sess (session_columns sess)) s = (r', t)" "Inl e = map_sum id (applyCommittedSession sess) r'"
  then show "tables t = tables s" by (cases r') (auto dest: sq_tx_failed)
qed simp

lemma update_done:
  assumes "sq_UpdateSession sess s = (Inr x, t)" "keys_ok (tables s)"
  obtains r u where "session_rows (sess_id sess) (tables s) = [r]" "r \<in> set (t_sessions (tables s))"
    "sr_revision r = uint (sess_revision sess)" "sess_revision sess < sq_max_revision" "sr_updated_at r < u"
    "x = sess\<lparr>sess_revision := sess_revision sess + 1, sess_created_at := sr_created_at r, sess_updated_at := u\<rparr>"
    "tables t = committed_tables sess u (tables s)"
proof -
  from assms(1) obtain c where c: "validateSessionUpdate sess = Inr ()" "x = applyCommittedSession sess c"
    "sq_tx (updateSessionTransaction sess (session_columns sess)) s = (Inr c, t)"
  proof (cases rule: update_steps)
    case (tried r')
    then show ?thesis using that by (cases r') auto
  qed simp
  from sq_tx_done [OF c(3)] obtain s2 s3 where m: "same_db s s2"
    "updateSessionTransaction sess (session_columns sess) s2 = (Inr c, s3)" "tables t = tables s3" by auto
  have "keys_ok (tables s2)" using m(1) assms(2) by (simp add: same_db_def)
  from transaction_done [OF m(2) this] obtain r u where
    "session_rows (sess_id sess) (tables s) = [r]" "r \<in> set (t_sessions (tables s))"
    "sr_revision r = uint (sess_revision sess)" "sr_updated_at r < u"
    "c = (uint (sess_revision sess) + 1, sr_created_at r, u)" "tables s3 = committed_tables sess u (tables s)"
    using m(1) by (auto simp: same_db_def)
  then show ?thesis
    using that [of r u] c m(3) by (auto simp: applyCommittedSession_def validateSessionUpdate_def not_le split: if_splits)
qed


section \<open>The session after its update\<close>

lemma read_back_interrupts:
  "list_all interrupt_ok ins \<Longrightarrow>
   read_column (dec_list dec_interrupt) (render (JArr (map enc_interrupt ins))) = ins"
proof -
  assume ok: "list_all interrupt_ok ins"
  then have "json_ok (JArr (map enc_interrupt ins))"
    by (auto simp: list_all_iff json_ok_enc_interrupt)
  moreover have "dec_elems dec_interrupt (map enc_interrupt ins) = Some ins"
    using ok by (intro dec_elems_enc) (auto simp: list_all_iff dec_interrupt_enc)
  ultimately show ?thesis by (simp add: read_column_def json_Unmarshal_render del: render.simps)
qed

lemma read_back_state: "json_map_ok m \<Longrightarrow> read_column dec_map (render (JObj m)) = m"
  by (simp add: read_column_def json_Unmarshal_render canon_id(3) del: render.simps)

lemma render_arr_nonempty: "render (JArr vs) \<noteq> []"
  by simp

lemma session_rows_written:
  assumes "session_rows (sess_id sess) t = [r]" "sr_revision r = e"
  shows "session_rows (sess_id sess) (t\<lparr>t_sessions := map (write_session_row sess enc e n u) (t_sessions t), t_messages := ms\<rparr>) =
    [write_session_row sess enc e n u r]"
proof -
  have "filter (\<lambda>r. sr_id r = i) (map (write_session_row sess enc e n u) rs) =
      map (write_session_row sess enc e n u) (filter (\<lambda>r. sr_id r = i) rs)" for i rs
    by (induction rs) (auto simp: write_session_row_def)
  then show ?thesis using assms(1) by (simp add: session_rows_def)
qed

text \<open>The rows of the session are the caller's messages, whatever their order.\<close>

lemma written_rows:
  assumes "keys_ok t" "distinct (map msg_id ms)"
  shows "mset (filter (\<lambda>r. mr_session_id r = i)
      (fold put_row (map (row_of i) ms) (filter (\<lambda>r. \<not> (mr_session_id r = i \<and> mr_id r \<notin> set (map msg_id ms))) (t_messages t)))) =
    mset (map (row_of i) ms)" (is "mset ?l = mset ?r")
proof -
  have ids: "map mr_id (map (row_of i) ms) = map msg_id ms" by (simp add: row_of_def)
  then have d: "distinct (map mr_id (map (row_of i) ms))" using assms(2) by metis
  have "distinct (map mr_id (fold put_row (map (row_of i) ms) (filter Q (t_messages t))))" for Q
    using keys_ok_dest(2) [OF assms(1)] by (intro fold_put_row_distinct) (rule distinct_map_filter)
  then have "distinct (fold put_row (map (row_of i) ms) (filter Q (t_messages t)))" for Q by (rule distinct_map [THEN iffD1, THEN conjunct1])
  then have "distinct ?l" by (rule distinct_filter)
  moreover have "distinct ?r" using d by (rule distinct_map [THEN iffD1, THEN conjunct1])
  moreover have "set ?l = set ?r"
    unfolding set_filter fold_put_row_mem [OF d] ids by (auto simp: row_of_def)
  ultimately show ?thesis by (simp only: set_eq_iff_mset_eq_distinct)
qed

lemma scan_sorted: "map scan_message (sort_key mr_created_at rs) = sort_key msg_created_at (map scan_message rs)"
proof -
  have ins: "map scan_message (insort_key mr_created_at r rs) = insort_key msg_created_at (scan_message r) (map scan_message rs)" for r rs
    by (induction rs) (auto simp: scan_message_def)
  show ?thesis by (induction rs) (simp_all add: sort_key_def ins)
qed

text \<open>\<open>by_time\<close>: the history as the table gives it back, when no two messages have the same time.\<close>

definition by_time :: "message list \<Rightarrow> message list" where
  "by_time ms = sort_key msg_created_at ms"

lemma by_time_sorted: "sorted (map msg_created_at ms) \<Longrightarrow> by_time ms = ms"
  unfolding by_time_def by (rule sort_key_id_if_sorted)

lemma written_messages:
  assumes "keys_ok t" "distinct (map msg_id (sess_messages sess))" "distinct (map msg_created_at (sess_messages sess))"
  shows "map scan_message (message_rows (sess_id sess) (committed_tables sess u t)) = by_time (sess_messages sess)"
proof -
  let ?i = "sess_id sess" and ?ms = "sess_messages sess"
  let ?l = "filter (\<lambda>r. mr_session_id r = ?i) (t_messages (committed_tables sess u t))"
  have "mset ?l = mset (map (row_of ?i) ?ms)"
    using written_rows [OF assms(1,2)] by (simp add: committed_tables_def)
  then have "mset (map scan_message ?l) = mset (map scan_message (map (row_of ?i) ?ms))" by (metis mset_map)
  then have m: "mset (map scan_message ?l) = mset ?ms" by (simp add: comp_def)
  have "by_time (map scan_message ?l) = by_time ?ms"
    unfolding by_time_def
  proof (rule sort_key_inj_key_eq)
    show "mset (map scan_message ?l) = mset (sort_key msg_created_at ?ms)" using m by (simp only: mset_sort)
    have "set (map scan_message ?l) = set ?ms" using m by (metis set_mset_mset)
    then show "inj_on msg_created_at (set (map scan_message ?l))" using assms(3) by (simp add: distinct_map)
    show "sorted (map msg_created_at (sort_key msg_created_at ?ms))" by simp
  qed
  then show ?thesis by (simp add: message_rows_def scan_sorted by_time_def)
qed


lemma look_committed:
  assumes "keys_ok t" "session_rows (sess_id sess) t = [r]" "sr_revision r = uint (sess_revision sess)"
    and "session_ok sess" "distinct (map msg_id (sess_messages sess))" "distinct (map msg_created_at (sess_messages sess))"
  shows "look_tables (committed_tables sess u t) (sess_id sess) = Inr (Some (sess\<lparr>sess_messages := by_time (sess_messages sess),
    sess_revision := sess_revision sess + 1, sess_created_at := sr_created_at r, sess_updated_at := u\<rparr>))"
proof -
  let ?r = "write_session_row sess (session_columns sess) (uint (sess_revision sess)) (uint (sess_revision sess) + 1) u r"
  have i: "sr_id r = sess_id sess" using assms(2) by (auto simp: session_rows_def dest: filter_eq_ConsD)
  have rows: "session_rows (sess_id sess) (committed_tables sess u t) = [?r]"
    unfolding committed_tables_def by (rule session_rows_written [OF assms(2,3)])
  have rev: "word_of_int (uint (sess_revision sess) + 1) = sess_revision sess + 1"
    by (metis word_of_int_uint wi_hom_succ word_succ_p1)
  have "scan_session ?r (by_time (sess_messages sess)) = sess\<lparr>sess_messages := by_time (sess_messages sess),
      sess_revision := sess_revision sess + 1, sess_created_at := sr_created_at r, sess_updated_at := u\<rparr>"
    using assms(3,4) i read_back_state [of "sess_state sess"] read_back_interrupts [of "sess_open_interrupts sess"]
    by (simp add: scan_session_def write_session_row_def session_columns_def render_arr_nonempty rev session_ok_def list_all_iff
        del: render.simps)
  moreover have "\<not> sr_revision ?r < 0"
  proof -
    have "sr_revision ?r = uint (sess_revision sess) + 1" using i assms(3) by (simp add: write_session_row_def)
    moreover have "0 \<le> uint (sess_revision sess)" by (rule uint_ge_0)
    ultimately show ?thesis by linarith
  qed
  ultimately show ?thesis
    using written_messages [OF assms(1,5,6)] by (simp add: look_tables_def rows)
qed

section \<open>The contract\<close>

definition own_messages :: "session \<Rightarrow> tables \<Rightarrow> bool" where
  "own_messages sess t \<longleftrightarrow>
     (\<forall>r \<in> set (t_messages t). mr_id r \<in> set (map msg_id (sess_messages sess)) \<longrightarrow> mr_session_id r = sess_id sess)"

definition sq_usable :: "sqlite \<Rightarrow> session \<Rightarrow> bool" where
  "sq_usable s sess \<longleftrightarrow> keys_ok (tables s) \<and> session_ok sess \<and> distinct (map msg_id (sess_messages sess)) \<and>
     sorted (map msg_created_at (sess_messages sess)) \<and> distinct (map msg_created_at (sess_messages sess)) \<and>
     own_messages sess (tables s)"

lemma next_revision_fits: "sess_revision sess < sq_max_revision \<Longrightarrow> uint (sess_revision sess) + 1 < 2 ^ 63"
  by (simp add: sq_max_revision_def word_less_def)

lemma committed_keys:
  assumes k: "keys_ok t" and rev: "sess_revision sess < sq_max_revision"
  shows "keys_ok (committed_tables sess u t)"
proof -
  have ids: "map (sr_id \<circ> write_session_row sess c e n u) rs = map sr_id rs" for c e n rs
    by (auto simp: write_session_row_def)
  have "distinct (map mr_id (fold put_row ws (filter Q (t_messages t))))" for ws Q
    using keys_ok_dest(2) [OF k] by (intro fold_put_row_distinct) (rule distinct_map_filter)
  then show ?thesis
    using k next_revision_fits [OF rev] by (auto simp: keys_ok_def committed_tables_def ids write_session_row_def)
qed

lemma look_others:
  assumes "own_messages sess t" "distinct (map msg_id (sess_messages sess))" "i \<noteq> sess_id sess"
  shows "look_tables (committed_tables sess u t) i = look_tables t i"
proof -
  let ?ws = "map (row_of (sess_id sess)) (sess_messages sess)"
  have rows: "session_rows i (committed_tables sess u t) = session_rows i t"
  proof -
    have "filter (\<lambda>r. sr_id r = i) (map (write_session_row sess c e n u) rs) = filter (\<lambda>r. sr_id r = i) rs" for c e n rs
      using assms(3) by (induction rs) (auto simp: write_session_row_def)
    then show ?thesis by (simp add: session_rows_def committed_tables_def)
  qed
  have put: "filter (\<lambda>r. mr_session_id r = i) (put_row w rs) = filter (\<lambda>r. mr_session_id r = i) rs"
    if "mr_session_id w \<noteq> i" "\<forall>r \<in> set rs. mr_id r = mr_id w \<longrightarrow> mr_session_id r \<noteq> i" for w rs
  proof -
    have "filter (\<lambda>r. mr_session_id r = i) (map (\<lambda>x. if mr_id x = mr_id w then w else x) rs) = filter (\<lambda>r. mr_session_id r = i) rs"
      using that by (induction rs) auto
    then show ?thesis using that(1) by (simp add: put_row_def)
  qed
  have fold: "filter (\<lambda>r. mr_session_id r = i) (fold put_row ws rs) = filter (\<lambda>r. mr_session_id r = i) rs"
    if "\<forall>w \<in> set ws. mr_session_id w \<noteq> i" "\<forall>r \<in> set rs. mr_id r \<in> set (map mr_id ws) \<longrightarrow> mr_session_id r \<noteq> i" for ws rs
    using that
  proof (induction ws arbitrary: rs)
    case (Cons w ws)
    have "filter (\<lambda>r. mr_session_id r = i) (fold put_row ws (put_row w rs)) = filter (\<lambda>r. mr_session_id r = i) (put_row w rs)"
      using Cons.prems by (intro Cons.IH) (auto simp: put_row_mem)
    also have "\<dots> = filter (\<lambda>r. mr_session_id r = i) rs" using Cons.prems by (intro put) auto
    finally show ?case by simp
  qed simp
  let ?kept = "filter (\<lambda>r. \<not> (mr_session_id r = sess_id sess \<and> mr_id r \<notin> set (map msg_id (sess_messages sess)))) (t_messages t)"
  have "t_messages (committed_tables sess u t) = fold put_row ?ws ?kept" by (simp add: committed_tables_def)
  moreover have "filter (\<lambda>r. mr_session_id r = i) (fold put_row ?ws ?kept) = filter (\<lambda>r. mr_session_id r = i) ?kept"
    by (rule fold) (use assms(1,3) in \<open>auto simp: row_of_def own_messages_def\<close>)
  ultimately have "filter (\<lambda>r. mr_session_id r = i) (t_messages (committed_tables sess u t)) = filter (\<lambda>r. mr_session_id r = i) ?kept"
    by simp
  also have "\<dots> = filter (\<lambda>r. mr_session_id r = i) (t_messages t)"
    using assms(3) by (auto simp: filter_filter intro: filter_cong)
  finally have "message_rows i (committed_tables sess u t) = message_rows i t" by (simp add: message_rows_def)
  then show ?thesis unfolding look_tables_def rows by (simp only:)
qed

lemma update_usable:
  assumes "sq_UpdateSession sess s = (Inr x, t)" "sq_usable s sess"
  obtains cur where "sq_look s (sess_id sess) = Inr (Some cur)" "session_step sess cur x"
    "sq_look t (sess_id sess) = Inr (Some x)"
proof -
  have us: "keys_ok (tables s)" "session_ok sess" "distinct (map msg_id (sess_messages sess))"
    "by_time (sess_messages sess) = sess_messages sess" "distinct (map msg_created_at (sess_messages sess))"
    using assms(2) by (auto simp: sq_usable_def by_time_sorted)
  from update_done [OF assms(1) us(1)] obtain r u where r: "session_rows (sess_id sess) (tables s) = [r]"
    "r \<in> set (t_sessions (tables s))" "sr_revision r = uint (sess_revision sess)" "sess_revision sess < sq_max_revision"
    "sr_updated_at r < u" "x = sess\<lparr>sess_revision := sess_revision sess + 1, sess_created_at := sr_created_at r, sess_updated_at := u\<rparr>"
    "tables t = committed_tables sess u (tables s)" .
  let ?cur = "scan_session r (map scan_message (message_rows (sess_id sess) (tables s)))"
  have i: "sr_id r = sess_id sess" using r(1) by (auto simp: session_rows_def dest: filter_eq_ConsD)
  have "sq_look s (sess_id sess) = Inr (Some ?cur)"
    using r(1,3) by (simp add: sq_look_tables look_tables_def)
  moreover have "session_step sess ?cur x"
    using r(3-6) i by (auto simp: session_step_def scan_session_def sq_max_revision_def)
  moreover have "sq_look t (sess_id sess) = Inr (Some x)"
    using look_committed [OF us(1) r(1,3) us(2,3,5)] us(4) r(6,7) by (simp add: sq_look_tables)
  ultimately show ?thesis by (rule that)
qed

interpretation sqlite: session_store sq_UpdateSession sq_look "\<lambda>s _. keys_ok (tables s)" sq_usable
proof
  fix s sess x t
  assume "sq_usable s sess" "sq_UpdateSession sess s = (Inr x, t)"
  from update_usable [OF this(2,1)] show "\<exists>cur. sq_look s (sess_id sess) = Inr (Some cur) \<and> session_step sess cur x \<and>
      sq_look t (sess_id sess) = Inr (Some x)" by metis
next
  fix s sess r t cur
  assume a: "keys_ok (tables s)" "sq_UpdateSession sess s = (r, t)"
    "sq_look s (sess_id sess) = Inr (Some cur)" "sess_revision sess \<noteq> sess_revision cur"
  have "r \<noteq> Inr x" for x
  proof
    assume "r = Inr x"
    with a(2) have "sq_UpdateSession sess s = (Inr x, t)" by simp
    from update_done [OF this a(1)] obtain q where "session_rows (sess_id sess) (tables s) = [q]"
      "sr_revision q = uint (sess_revision sess)" by metis
    then have "cur = scan_session q (map scan_message (message_rows (sess_id sess) (tables s)))"
      using a(3) by (simp add: sq_look_tables look_tables_def)
    then show False using a(4) \<open>sr_revision q = uint (sess_revision sess)\<close> by (simp add: scan_session_def)
  qed
  then obtain e where "r = Inl e" by (cases r) auto
  then show "isl r \<and> sq_look t (sess_id sess) = Inr (Some cur)"
    using update_failed a(2,3) by (simp add: sq_look_tables)
next
  fix s sess r t sid
  assume a: "sq_usable s sess" "sq_UpdateSession sess s = (r, t)" "sid \<noteq> sess_id sess"
  show "sq_look t sid = sq_look s sid"
  proof (cases r)
    case (Inl e)
    then show ?thesis using update_failed a(2) by (simp add: sq_look_tables)
  next
    case (Inr x)
    with a(2) have u: "sq_UpdateSession sess s = (Inr x, t)" by simp
    have k: "keys_ok (tables s)" "own_messages sess (tables s)" "distinct (map msg_id (sess_messages sess))"
      using a(1) by (auto simp: sq_usable_def)
    from update_done [OF u k(1)] obtain v where "tables t = committed_tables sess v (tables s)" by metis
    then show ?thesis using look_others [OF k(2,3) a(3)] by (simp add: sq_look_tables)
  qed
next
  fix s sess r t
  assume a: "sq_usable s sess" "sq_UpdateSession sess s = (r, t)"
  show "keys_ok (tables t)"
  proof (cases r)
    case (Inl e)
    then show ?thesis using update_failed a by (simp add: sq_usable_def)
  next
    case (Inr x)
    with a(2) have u: "sq_UpdateSession sess s = (Inr x, t)" by simp
    have k: "keys_ok (tables s)" using a(1) by (simp add: sq_usable_def)
    from update_done [OF u k] obtain v where "sess_revision sess < sq_max_revision"
      "tables t = committed_tables sess v (tables s)" by metis
    then show ?thesis using committed_keys [OF k] by simp
  qed
qed

end
