(* ===== verification/Sqlite_Spec.thy ===== *)
theory Sqlite_Spec
  imports Sqlite_Contract Jsonl_Agent
begin

text \<open>
  The properties of the SQLite store's sessions: atomic updates, none lost, the same answers as the
  JSONL store on sessions whose messages are in the order of their times, and what becomes of the
  others.
\<close>

section \<open>Without failing calls\<close>

lemma quiet_exec: "outcomes s = [] \<Longrightarrow> f (tables s) = Inr (x, u) \<Longrightarrow> sq_exec f s = (Inr x, s\<lparr>tables := u\<rparr>)"
  by (simp add: sq_exec_def act_seq_def)

lemma quiet_now: "outcomes s = [] \<Longrightarrow> \<exists>n d. sq_now s = (Inr n, s\<lparr>sq_draws := d\<rparr>)"
  by (auto simp: sq_now_def draw_nano_def)

lemma quiet_column: "json_ok v \<Longrightarrow> column what v s = (Inr (render v), s)"
  by (simp add: column_Inr)

lemma quiet_upserts: "outcomes s = [] \<Longrightarrow> \<exists>t. upsert_messages i ms s = (Inr (), t) \<and> outcomes t = []"
proof (induction ms arbitrary: s)
  case Nil
  then show ?case by (simp add: act_ret_def)
next
  case (Cons m ms)
  have c: "json_ok (JArr (map enc_tool_call (msg_tool_calls m)))" by simp
  obtain u where "upsertSessionMessage i m s = (Inr (), s\<lparr>tables := u\<rparr>)"
    using Cons.prems by (simp add: upsertSessionMessage_def act_seq_def quiet_column [OF c] quiet_exec upsert_message_row_put del: render.simps)
  then show ?case using Cons.IH [of "s\<lparr>tables := u\<rparr>"] Cons.prems by (simp add: act_seq_def)
qed

lemma quiet_reconcile: "outcomes s = [] \<Longrightarrow> \<exists>t. reconcileSessionMessages i ms s = (Inr (), t) \<and> outcomes t = []"
proof -
  assume q: "outcomes s = []"
  obtain u where "deleteRemovedMessages i ms s = (Inr (), s\<lparr>tables := u\<rparr>)"
    using q by (cases "ms = []") (simp_all add: deleteRemovedMessages_def quiet_exec delete_message_rows_def)
  then show ?thesis using quiet_upserts [of "s\<lparr>tables := u\<rparr>"] q by (simp add: reconcileSessionMessages_def act_seq_def)
qed

lemma quiet_update_row:
  assumes "outcomes s = []" "session_rows (sess_id sess) (tables s) = [r]"
  shows "if sr_revision r = e
    then \<exists>u. updateSessionRow sess enc e n v s = (Inr (), s\<lparr>tables := u\<rparr>)
    else \<exists>x t. updateSessionRow sess enc e n v s = (Inl x, t) \<and> is_conflict x"
proof -
  let ?k = "length (filter (\<lambda>r. sr_id r = sess_id sess \<and> sr_revision r = e) (t_sessions (tables s)))"
  have "filter (\<lambda>r. sr_id r = sess_id sess \<and> sr_revision r = e) (t_sessions (tables s)) =
      filter (\<lambda>r. sr_revision r = e) (session_rows (sess_id sess) (tables s))"
    by (auto simp: session_rows_def intro: filter_cong)
  then have k: "?k = (if sr_revision r = e then 1 else 0)" by (simp only: assms(2)) simp
  let ?t = "s\<lparr>tables := (tables s)\<lparr>t_sessions := map (write_session_row sess enc e n v) (t_sessions (tables s))\<rparr>\<rparr>"
  have x: "sq_exec (update_session_rows sess enc e n v) s = (Inr ?k, ?t)"
    using assms(1) by (simp add: quiet_exec update_session_rows_def)
  show ?thesis
  proof (cases "sr_revision r = e")
    case False
    have none: "map (write_session_row sess enc e n v) (t_sessions (tables s)) = t_sessions (tables s)"
      using k False by (intro map_idI) (auto simp: write_session_row_def filter_empty_conv)
    have "updateSessionRow sess enc e n v s = classifySessionUpdateMiss (sess_id sess) ?t"
      unfolding updateSessionRow_def act_seq_def act_wrap_def x k using False by simp
    then show ?thesis using assms False
      by (simp add: none classifySessionUpdateMiss_def act_seq_def act_wrap_def act_fail_def)
  next
    case True
    have "updateSessionRow sess enc e n v s = (Inr (), ?t)"
      unfolding updateSessionRow_def act_seq_def act_wrap_def x k using True by (simp add: act_ret_def)
    then show ?thesis using True by auto
  qed
qed

lemma quiet_updated_at:
  "outcomes s = [] \<Longrightarrow> c \<noteq> max_int64 \<Longrightarrow> \<exists>u d. nextSQLiteUpdatedAt i c s = (Inr u, s\<lparr>sq_draws := d\<rparr>)"
  using quiet_now [of s] by (auto simp: nextSQLiteUpdatedAt_def act_seq_def act_ret_def max_int64_def)

text \<open>A quiet update succeeds from the stored revision and is refused as a conflict from any other.\<close>

lemma quiet_update:
  assumes q: "outcomes s = []" and ok: "session_ok sess" and rev: "sess_revision sess < sq_max_revision"
    and rows: "session_rows (sess_id sess) (tables s) = [r]" and up: "sr_updated_at r \<noteq> max_int64"
  shows "if sr_revision r = uint (sess_revision sess) then \<exists>x t. sq_UpdateSession sess s = (Inr x, t)
    else \<exists>e t. sq_UpdateSession sess s = (Inl e, t) \<and> is_conflict e"
proof -
  let ?i = "sess_id sess" and ?e = "uint (sess_revision sess)"
  have enc: "encodeSessionMetadata sess s = (Inr (session_columns sess), s)"
    using ok by (simp add: encodeSessionMetadata_def act_seq_def session_columns_def session_ok_def quiet_column
        json_ok_enc_interrupt act_ret_def del: render.simps)
  have ts: "loadSessionTimestamps ?i s = (Inr (sr_created_at r, sr_updated_at r), s)"
    using q rows by (simp add: loadSessionTimestamps_def act_seq_def act_wrap_def act_ret_def)
  obtain u d where nu: "nextSQLiteUpdatedAt ?i (sr_updated_at r) s = (Inr u, s\<lparr>sq_draws := d\<rparr>)"
    using quiet_updated_at [OF q up] by blast
  let ?s = "s\<lparr>sq_draws := d\<rparr>"
  have upd: "if sr_revision r = ?e
    then \<exists>w. updateSessionRow sess (session_columns sess) ?e (?e + 1) u ?s = (Inr (), ?s\<lparr>tables := w\<rparr>)
    else \<exists>x t. updateSessionRow sess (session_columns sess) ?e (?e + 1) u ?s = (Inl x, t) \<and> is_conflict x"
    using quiet_update_row [of ?s sess r ?e "session_columns sess" "?e + 1" u] q rows by simp
  have body: "updateSessionTransaction sess (session_columns sess) s =
      act_seq (updateSessionRow sess (session_columns sess) ?e (?e + 1) u) (\<lambda>_.
      act_seq (reconcileSessionMessages ?i (sess_messages sess)) (\<lambda>_. act_ret (?e + 1, sr_created_at r, u))) ?s"
    by (simp add: updateSessionTransaction_def act_seq_def ts nu Let_def)
  have call: "act_wrap ''sqlite: begin tx'' sq_call s = (Inr (), s)" using q by (simp add: act_wrap_def)
  have valid: "validateSessionUpdate sess = Inr ()" using rev by (simp add: validateSessionUpdate_def)
  show ?thesis
  proof (cases "sr_revision r = ?e")
    case True
    then obtain w where w: "updateSessionRow sess (session_columns sess) ?e (?e + 1) u ?s = (Inr (), ?s\<lparr>tables := w\<rparr>)"
      using upd by auto
    obtain t where t: "reconcileSessionMessages ?i (sess_messages sess) (?s\<lparr>tables := w\<rparr>) = (Inr (), t)" "outcomes t = []"
      using quiet_reconcile [of "?s\<lparr>tables := w\<rparr>"] q by auto
    have "updateSessionTransaction sess (session_columns sess) s = (Inr (?e + 1, sr_created_at r, u), t)"
      unfolding body by (simp add: act_seq_def w t(1) act_ret_def)
    then have "sq_tx (updateSessionTransaction sess (session_columns sess)) s = (Inr (?e + 1, sr_created_at r, u), t)"
      using t(2) by (simp add: sq_tx_def call act_seq_def act_ret_def)
    then show ?thesis using True
      by (simp add: sq_UpdateSession_def act_seq_def act_lift_def valid enc act_ret_def)
  next
    case False
    then obtain x t where x: "updateSessionRow sess (session_columns sess) ?e (?e + 1) u ?s = (Inl x, t)" "is_conflict x"
      using upd by auto
    then have "updateSessionTransaction sess (session_columns sess) s = (Inl x, t)"
      unfolding body by (simp add: act_seq_def)
    then have "\<exists>t. sq_tx (updateSessionTransaction sess (session_columns sess)) s = (Inl x, t)"
      by (simp add: sq_tx_def call act_seq_def)
    then show ?thesis using False x(2)
      by (auto simp: sq_UpdateSession_def act_seq_def act_lift_def valid enc)
  qed
qed


section \<open>Witnesses\<close>

definition w_row :: session_row where
  "w_row = \<lparr>sr_id = ''s1'', sr_agent_id = sess_agent_id w_session, sr_user_id = sess_user_id w_session,
     sr_parent_session_id = sess_parent_session_id w_session, sr_state = ''{}'', sr_open_interrupts = ''[]'',
     sr_revision = 1, sr_created_at = sess_created_at w_session, sr_updated_at = sess_updated_at w_session\<rparr>"

definition w_tables :: "message_row list \<Rightarrow> tables" where
  "w_tables ms = \<lparr>t_sessions = [w_row, w_row\<lparr>sr_id := ''s2''\<rparr>], t_messages = ms, t_tools = [], t_skills = [], t_memory = [],
     t_mcp_servers = [], t_response_field = True\<rparr>"

definition w_db :: "outcome list \<Rightarrow> message_row list \<Rightarrow> sqlite" where
  "w_db os ms = \<lparr>tables = w_tables ms, outcomes = os, foreign_keys = False, sq_random = (\<lambda>_. None),
     sq_clock = (\<lambda>_. 8000000), sq_draws = 0\<rparr>"

lemma w_empty_columns: "json_Unmarshal ''{}'' = Some (JObj [])" "json_Unmarshal ''[]'' = Some (JArr [])"
  by code_simp+

lemma w_db_rows: "session_rows ''s1'' (tables (w_db os ms)) = [w_row]" "keys_ok (tables (w_db os [])) "
  by (auto simp: w_db_def w_tables_def session_rows_def keys_ok_def w_row_def)

lemma w_sq_look: "sq_look (w_db os []) ''s1'' = Inr (Some w_session)"
  by (simp add: sq_look_tables look_tables_def w_db_rows message_rows_def)
    (simp add: scan_session_def w_db_def w_tables_def w_row_def read_column_def w_empty_columns w_session_def new_session_def
      zero_session_def)

lemma w_sq_usable:
  "sq_usable (w_db os []) (w_session\<lparr>sess_messages := [w_message], sess_revision := r\<rparr>)"
  by (simp add: sq_usable_def w_db_rows own_messages_def)
    (simp add: w_db_def w_tables_def w_session_def new_session_def zero_session_def session_ok_def message_ok_def w_message_def int64_ok_def)

abbreviation w_next :: session where
  "w_next \<equiv> w_session\<lparr>sess_messages := [w_message], sess_revision := 1\<rparr>"

lemma w_sq_updates: "\<exists>x t. sq_UpdateSession w_next (w_db [] []) = (Inr x, t)"
proof -
  have "if sr_revision w_row = uint (sess_revision w_next) then \<exists>x t. sq_UpdateSession w_next (w_db [] []) = (Inr x, t)
    else \<exists>e t. sq_UpdateSession w_next (w_db [] []) = (Inl e, t) \<and> is_conflict e"
  proof (rule quiet_update)
    show "session_ok w_next" using w_sq_usable [of "[]" 1] by (simp add: sq_usable_def)
    show "session_rows (sess_id w_next) (tables (w_db [] [])) = [w_row]" using w_db_rows(1) by (simp add: w_session_def)
  qed (simp_all add: w_db_def w_row_def w_session_def new_session_def zero_session_def max_int64_def sq_max_revision_def)
  then show ?thesis by (simp add: w_row_def)
qed

section \<open>Updates\<close>

text \<open>
  C6: UpdateSession of the SQLite store is one transaction. Whatever call of the database fails, and
  whatever the session, an error leaves every table as it was. A success is what every later reader
  finds (the stored session stepped by one revision, with the caller's content) and leaves every
  other session alone, for the sessions of \<open>sq_usable\<close>: the keys of the tables are unique, the
  values can be carried by JSON, and the messages have ids of their own, none of them the id of a
  message of another session, and come in strictly increasing order of their times. For others this
  is false: messages are read back in the order of their times, and a message whose id another
  session has is taken from that session.
\<close>

theorem sqlite_update_atomic:
  assumes "sq_UpdateSession sess s = (r, t)"
  shows "(isl r \<longrightarrow> tables t = tables s) \<and>
    (\<forall>x. r = Inr x \<and> sq_usable s sess \<longrightarrow>
      (\<exists>cur. sq_look s (sess_id sess) = Inr (Some cur) \<and> session_step sess cur x) \<and>
      sq_look t (sess_id sess) = Inr (Some x) \<and> (\<forall>i. i \<noteq> sess_id sess \<longrightarrow> sq_look t i = sq_look s i))"
proof (intro conjI impI allI)
  assume "isl r"
  then show "tables t = tables s" using assms update_failed by (cases r) auto
next
  fix x
  assume "r = Inr x \<and> sq_usable s sess"
  then have u: "sq_UpdateSession sess s = (Inr x, t)" "sq_usable s sess" using assms by auto
  show "\<exists>cur. sq_look s (sess_id sess) = Inr (Some cur) \<and> session_step sess cur x"
    "sq_look t (sess_id sess) = Inr (Some x)"
    using sqlite.committed [OF u(2,1)] by auto
  fix i
  assume "i \<noteq> sess_id sess"
  then show "sq_look t i = sq_look s i" by (rule sqlite.others [OF u(2,1)])
qed

theorem sqlite_update_atomic_witness:
  "\<exists>x t. sq_UpdateSession w_next (w_db [] []) = (Inr x, t) \<and> sq_look t ''s1'' = Inr (Some x) \<and>
     session_step w_next w_session x"
proof -
  obtain x t where u: "sq_UpdateSession w_next (w_db [] []) = (Inr x, t)" using w_sq_updates by blast
  have i: "sess_id w_next = ''s1''" by (simp add: w_session_def)
  have "(\<exists>cur. sq_look (w_db [] []) (sess_id w_next) = Inr (Some cur) \<and> session_step w_next cur x) \<and>
      sq_look t (sess_id w_next) = Inr (Some x)"
    using sqlite_update_atomic [OF u] w_sq_usable [of "[]" 1] by blast
  then show ?thesis using u unfolding i w_sq_look by auto
qed

text \<open>Of two updates of the SQLite store made from one revision the second fails and the first one stays.\<close>

theorem sqlite_no_lost_update:
  assumes "sq_usable s a" "sq_UpdateSession a s = (Inr x, s1)" "sq_UpdateSession b s1 = (r, s2)"
    and "sess_id b = sess_id a" "sess_revision b = sess_revision a"
  shows "isl r \<and> sq_look s2 (sess_id a) = Inr (Some x)"
  using sqlite.no_lost_update [OF assms] by blast

theorem sqlite_no_lost_update_witness:
  "\<exists>x s1 r s2. sq_UpdateSession w_next (w_db [] []) = (Inr x, s1) \<and> sq_UpdateSession w_next s1 = (r, s2) \<and>
     isl r \<and> sq_look s2 (sess_id w_next) = Inr (Some x)"
proof -
  obtain x s1 where u: "sq_UpdateSession w_next (w_db [] []) = (Inr x, s1)" using w_sq_updates by blast
  obtain r s2 where v: "sq_UpdateSession w_next s1 = (r, s2)" by force
  show ?thesis using sqlite_no_lost_update [OF w_sq_usable u v] u v by blast
qed

section \<open>Two stores, one answer\<close>

lemma session_step_timeless:
  assumes "session_step sess cur x"
  shows "x\<lparr>sess_updated_at := 0\<rparr> = sess\<lparr>sess_id := sess_id cur, sess_created_at := sess_created_at cur,
    sess_revision := sess_revision cur + 1, sess_updated_at := 0\<rparr>"
proof -
  have e: "x = sess\<lparr>sess_id := sess_id cur, sess_created_at := sess_created_at cur,
      sess_revision := sess_revision cur + 1, sess_updated_at := sess_updated_at x\<rparr>"
    using assms by (simp only: session_step_def)
  show ?thesis by (subst e) simp
qed

text \<open>
  C20: The JSONL store and the SQLite store agree on the sessions both can keep (\<open>usable\<close> and
  \<open>sq_usable\<close>: the messages come in strictly increasing order of their times, with ids of their own
  that no other session of the database has, and with values JSON can carry), on revisions that fit a
  signed column and as long as the stored time can still advance. When no call fails and both hold
  the same session, both accept the update or both refuse it as a conflict; what they return and what
  a reader then finds is the same session, up to the time of the update. On messages in another
  order they do not agree: SQLite reads them back sorted.
\<close>

theorem stores_agree:
  assumes "faults s = []" "usable st s sess" "outcomes d = []" "sq_usable d sess"
    and "look st s (sess_id sess) = Inr (Some cur)" "sq_look d (sess_id sess) = Inr (Some cur)"
    and "sess_revision sess < sq_max_revision" "sess_updated_at cur \<noteq> max_int64"
  shows "case (UpdateSession st sess s, sq_UpdateSession sess d) of
      ((Inr x, s'), (Inr y, d')) \<Rightarrow>
        x\<lparr>sess_updated_at := 0\<rparr> = y\<lparr>sess_updated_at := 0\<rparr> \<and>
        look st s' (sess_id sess) = Inr (Some x) \<and> sq_look d' (sess_id sess) = Inr (Some y)
    | ((Inl e, _), (Inl f, _)) \<Rightarrow> is_conflict e \<and> is_conflict f
    | _ \<Rightarrow> False"
proof -
  have k: "keys_ok (tables d)" "session_ok sess" using assms(4) by (auto simp: sq_usable_def)
  obtain q where q: "session_rows (sess_id sess) (tables d) = [q]" "q \<in> set (t_sessions (tables d))"
    "cur = scan_session q (map scan_message (message_rows (sess_id sess) (tables d)))"
    using look_tables_some [OF k(1)] assms(6) unfolding sq_look_tables by metis
  have up: "sr_updated_at q \<noteq> max_int64" using assms(8) q(3) by (simp add: scan_session_def)
  have rd: "readable st s (sess_id sess)" using assms(2) by (simp add: usable_def)
  note quiet = quiet_update [OF assms(3) k(2) assms(7) q(1) up]
  show ?thesis
  proof (cases "sess_revision sess = sess_revision cur")
    case True
    have "sess_revision cur \<noteq> - 1" using assms(7) True by (auto simp: sq_max_revision_def)
    then obtain x s' where x: "UpdateSession st sess s = (Inr x, s')" "session_step sess cur x"
      "look st s' (sess_id sess) = Inr (Some x)"
      using update_succeeds [OF assms(1,2,5) True] assms(8) by blast
    have "uint (word_of_int (sr_revision q) :: 64 word) = sr_revision q"
      using keys_ok_dest(3) [OF k(1) q(2)] by (simp add: uint_word_of_int)
    then have "sr_revision q = uint (sess_revision sess)" using True q(3) by (simp add: scan_session_def)
    then obtain y d' where y: "sq_UpdateSession sess d = (Inr y, d')" using quiet by (metis (full_types))
    from update_usable [OF this assms(4)] have y': "session_step sess cur y" "sq_look d' (sess_id sess) = Inr (Some y)"
      using assms(6) by auto
    have "x\<lparr>sess_updated_at := 0\<rparr> = y\<lparr>sess_updated_at := 0\<rparr>"
      by (simp only: session_step_timeless [OF x(2)] session_step_timeless [OF y'(1)])
    then show ?thesis using x y y' by simp
  next
    case False
    moreover have "sess_revision cur = word_of_int (sr_revision q)" using q(3) by (simp add: scan_session_def)
    ultimately have "uint (sess_revision sess) \<noteq> sr_revision q" by (metis word_of_int_uint)
    then obtain f d' where "sq_UpdateSession sess d = (Inl f, d')" "is_conflict f" using quiet by metis
    moreover obtain r s' where r: "UpdateSession st sess s = (r, s')" by force
    moreover from stale_post [OF r rd assms(5) False] assms(1) obtain e where "r = Inl e" "is_conflict e" by blast
    ultimately show ?thesis by simp
  qed
qed


theorem stores_agree_witness:
  "case (UpdateSession w_store w_next (w_os []), sq_UpdateSession w_next (w_db [] [])) of
      ((Inr x, s'), (Inr y, d')) \<Rightarrow>
        x\<lparr>sess_updated_at := 0\<rparr> = y\<lparr>sess_updated_at := 0\<rparr> \<and>
        look w_store s' (sess_id w_next) = Inr (Some x) \<and> sq_look d' (sess_id w_next) = Inr (Some y)
    | ((Inl e, _), (Inl f, _)) \<Rightarrow> is_conflict e \<and> is_conflict f
    | _ \<Rightarrow> False"
proof (rule stores_agree)
  show "usable w_store (w_os []) w_next" by (rule w_usable) (simp add: no_cut_def w_os_def)
  show "sq_usable (w_db [] []) w_next" by (rule w_sq_usable)
  have i: "sess_id w_next = ''s1''" by (simp add: w_session_def)
  show "look w_store (w_os []) (sess_id w_next) = Inr (Some w_session)" unfolding i by (rule w_look)
  show "sq_look (w_db [] []) (sess_id w_next) = Inr (Some w_session)" unfolding i by (rule w_sq_look)
qed (simp_all add: w_os_def w_db_def w_session_def new_session_def zero_session_def max_int64_def sq_max_revision_def)

section \<open>Histories out of order\<close>

text \<open>
  The table has no order of its own: a reader gets the messages of a session by the times they
  carry. The summary that compaction puts in front of the history carries the time it was made, so
  over SQLite the compacted history the run goes on with is stored, but the next reader finds the
  summary behind the messages it summarises the past of.
\<close>

theorem sqlite_compaction_reordered:
  assumes "ag_Store a = Some sqlite_store" "compact h p msgs cfg w = (Inr (m # recent), w')"
    and "\<not> int (length msgs) \<le> cc_keep_recent cfg"
    and "sorted (map msg_created_at msgs)" "distinct (map msg_created_at msgs)" "\<forall>k \<in> set msgs. msg_created_at k < msg_created_at m"
    and "distinct (map msg_id (m # recent))" "session_ok (sess\<lparr>sess_messages := m # recent\<rparr>)" "keys_ok (tables s)"
    and "persistSession a (sess\<lparr>sess_messages := m # recent\<rparr>) s = (Inr (x, fresh), t)"
  shows "sess_messages x = m # recent \<and>
    (\<exists>y. sq_look t (sess_id sess) = Inr (Some y) \<and> sess_messages y = recent @ [m])"
proof -
  let ?sess = "sess\<lparr>sess_messages := m # recent\<rparr>" and ?n = "length msgs - nat (cc_keep_recent cfg)"
  have rec: "recent = drop ?n msgs" using summary_post(2) [OF assms(2,3)] by simp
  have t: "sorted (map msg_created_at recent)" "distinct (map msg_created_at recent)"
    using assms(4,5) by (simp_all add: rec drop_map [symmetric] sorted_wrt_drop)
  have late: "\<forall>k \<in> set recent. msg_created_at k < msg_created_at m" using assms(6) by (auto simp: rec dest: in_set_dropD)
  have "by_time (m # recent) = by_time (recent @ [m])"
    unfolding by_time_def
    by (rule sort_key_inj_key_eq) (use t late in \<open>auto simp: distinct_map inj_on_def\<close>)
  also have "\<dots> = recent @ [m]"
    using t late by (intro by_time_sorted) (auto simp: sorted_append less_imp_le)
  finally have order: "by_time (m # recent) = recent @ [m]" .
  have u: "sq_UpdateSession ?sess s = (Inr x, t)"
    using assms(10) by (auto simp: persistSession_def assms(1) sqlite_store_def act_seq_iff)
  from update_done [OF u assms(9)] obtain r v where r: "session_rows (sess_id ?sess) (tables s) = [r]"
    "sr_revision r = uint (sess_revision ?sess)"
    "x = ?sess\<lparr>sess_revision := sess_revision ?sess + 1, sess_created_at := sr_created_at r, sess_updated_at := v\<rparr>"
    "tables t = committed_tables ?sess v (tables s)" .
  have d: "distinct (map msg_created_at (m # recent))" using t(2) late by auto
  show ?thesis
    using look_committed [OF assms(9) r(1,2) assms(8)] assms(7) d r(3,4) order by (simp add: sq_look_tables)
qed


definition w_history :: "message list" where
  "w_history = [w_message, w_message\<lparr>msg_id := ''m2'', msg_created_at := 8\<rparr>]"

definition w_host :: "sqlite host" where
  "w_host = \<lparr>clock = (\<lambda>w. (9000000, w)), rand_bytes = (\<lambda>n w. (Some (replicate n (CHR 0x00)), w)),
     ctx_err = (\<lambda>w. (None, w)), bad_request = (\<lambda>_. None),
     http_post = (\<lambda>_ _ _. act_fail (ErrMsg ''no network'')), run_command = (\<lambda>_ _ w. (([], None), w))\<rparr>"

definition w_summarizer :: "sqlite provider" where
  "w_summarizer = \<lparr>pv_Model = ''m'', pv_Stream = (\<lambda>_. act_ret []),
     pv_Generate = (\<lambda>_. act_ret \<lparr>rs_content = ''earlier'', rs_tool_calls = [],
       rs_usage = \<lparr>us_input_tokens = 0, us_output_tokens = 0\<rparr>\<rparr>)\<rparr>"

definition w_config :: compaction_config where
  "w_config = \<lparr>cc_max_messages = 1, cc_keep_recent = 1, cc_summary_role = ''system''\<rparr>"

definition w_agent :: "sqlite agent" where
  "w_agent = (bare_agent ''a'')\<lparr>ag_Store := Some sqlite_store\<rparr>"

definition w_summary :: message where
  "w_summary = \<lparr>msg_id = hex_of (replicate 16 (CHR 0x00)), msg_role = ''system'', msg_content = ''earlier'',
     msg_tool_calls = [], msg_created_at = 9\<rparr>"

lemma w_summary_id: "msg_id w_summary \<noteq> ''m2''"
  by code_simp

lemma w_compacts:
  "compact w_host w_summarizer w_history w_config (w_db [] []) = (Inr (w_summary # drop 1 w_history), w_db [] [])"
  by (simp add: compact_def w_host_def w_summarizer_def w_history_def w_config_def w_summary_def act_defs generateID_def
      unix_milli_def Let_def)

theorem sqlite_compaction_reordered_witness:
  "\<exists>x t y. persistSession w_agent (w_session\<lparr>sess_revision := 1, sess_messages := w_summary # drop 1 w_history\<rparr>) (w_db [] []) = (Inr (x, False), t) \<and>
     sess_messages x = w_summary # drop 1 w_history \<and>
     sq_look t ''s1'' = Inr (Some y) \<and> sess_messages y = drop 1 w_history @ [w_summary]"
proof -
  let ?s = "w_session\<lparr>sess_revision := 1\<rparr>"
  let ?sess = "?s\<lparr>sess_messages := w_summary # drop 1 w_history\<rparr>"
  have ok: "session_ok ?sess"
    by (simp add: session_ok_def w_session_def new_session_def zero_session_def message_ok_def w_summary_def w_history_def
        w_message_def int64_ok_def)
  have i: "sess_id ?s = ''s1''" by (simp add: w_session_def)
  have "if sr_revision w_row = uint (sess_revision ?sess) then \<exists>x t. sq_UpdateSession ?sess (w_db [] []) = (Inr x, t)
    else \<exists>e t. sq_UpdateSession ?sess (w_db [] []) = (Inl e, t) \<and> is_conflict e"
  proof (rule quiet_update [OF _ ok])
    show "session_rows (sess_id ?sess) (tables (w_db [] [])) = [w_row]" using w_db_rows(1) by (simp add: w_session_def)
  qed (simp_all add: w_db_def w_row_def w_session_def new_session_def zero_session_def max_int64_def sq_max_revision_def)
  then obtain x t where "sq_UpdateSession ?sess (w_db [] []) = (Inr x, t)" by (auto simp: w_row_def)
  then have p: "persistSession w_agent ?sess (w_db [] []) = (Inr (x, False), t)"
    by (simp add: persistSession_def w_agent_def bare_agent_def sqlite_store_def act_seq_def act_ret_def)
  have d: "distinct (map msg_id (w_summary # drop 1 w_history))" using w_summary_id by (simp add: w_history_def)
  have "sess_messages x = w_summary # drop 1 w_history \<and>
    (\<exists>y. sq_look t (sess_id ?s) = Inr (Some y) \<and> sess_messages y = drop 1 w_history @ [w_summary])"
    by (rule sqlite_compaction_reordered [OF _ w_compacts _ _ _ _ d ok _ p])
      (simp_all add: w_agent_def bare_agent_def w_config_def w_history_def w_message_def w_summary_def w_db_rows)
  then show ?thesis using p unfolding i by blast
qed

section \<open>Reads cut short\<close>

text \<open>
  No caller asks why the iteration over the rows ended. A read that breaks off after n messages
  gives the session with its first n messages and no error, and saving that session, as the runner
  does with every session it loads, deletes the others.
\<close>

theorem sqlite_cut_read_deletes:
  assumes "outcomes s = [SOk, SCut n e]" "sq_look s i = Inr (Some cur)" "sq_usable s cur"
    and "sess_revision cur < sq_max_revision" "sess_updated_at cur \<noteq> max_int64"
  shows "\<exists>s1 x t. sq_GetSession i s = (Inr (Some (cur\<lparr>sess_messages := take n (sess_messages cur)\<rparr>)), s1) \<and>
    sq_UpdateSession (cur\<lparr>sess_messages := take n (sess_messages cur)\<rparr>) s1 = (Inr x, t) \<and>
    sq_look t i = Inr (Some x) \<and> sess_messages x = take n (sess_messages cur)"
proof -
  let ?cut = "cur\<lparr>sess_messages := take n (sess_messages cur)\<rparr>" and ?s1 = "s\<lparr>outcomes := []\<rparr>"
  have k: "keys_ok (tables s)" using assms(3) by (simp add: sq_usable_def)
  obtain r where r: "session_rows i (tables s) = [r]" "r \<in> set (t_sessions (tables s))" "sr_id r = i"
    "cur = scan_session r (map scan_message (message_rows i (tables s)))"
    using look_tables_some [OF k] assms(2) unfolding sq_look_tables by metis
  have i: "sess_id cur = i" using r(3,4) by (simp add: scan_session_def)
  have rev: "0 \<le> sr_revision r" "sr_revision r < 2 ^ 63" using keys_ok_dest(3) [OF k r(2)] by auto
  have get: "sq_GetSession i s = (Inr (Some ?cut), ?s1)"
    using assms(1) r(1,4) rev(1)
    by (simp add: sq_GetSession_def act_seq_def act_wrap_def sq_row_def sq_call_def next_outcome_def sq_rows_def
        loadMessages_def act_ret_def scan_session_def take_map)
  have us: "sq_usable ?s1 ?cut"
    using assms(3)
    by (auto simp: sq_usable_def session_ok_def own_messages_def take_map [symmetric] sorted_wrt_take dest: in_set_takeD)
  have "sr_revision r = uint (sess_revision ?cut)"
    using rev r(4) by (simp add: scan_session_def uint_word_of_int)
  moreover have "if sr_revision r = uint (sess_revision ?cut) then \<exists>x t. sq_UpdateSession ?cut ?s1 = (Inr x, t)
    else \<exists>e t. sq_UpdateSession ?cut ?s1 = (Inl e, t) \<and> is_conflict e"
  proof (rule quiet_update)
    show "session_ok ?cut" using us by (simp add: sq_usable_def)
    show "session_rows (sess_id ?cut) (tables ?s1) = [r]" using r(1) i by simp
    show "sr_updated_at r \<noteq> max_int64" using assms(5) r(4) by (simp add: scan_session_def)
  qed (use assms(4) in simp_all)
  ultimately obtain x t where u: "sq_UpdateSession ?cut ?s1 = (Inr x, t)" by (metis (full_types))
  from update_usable [OF u us] obtain c where "session_step ?cut c x" "sq_look t i = Inr (Some x)" using i by auto
  then show ?thesis using get u session_step_content(1) by fastforce
qed


definition w_kept :: session where
  "w_kept = w_session\<lparr>sess_messages := [w_message], sess_revision := 1\<rparr>"

lemma w_kept_facts:
  "sq_look (w_db os [row_of ''s1'' w_message]) ''s1'' = Inr (Some w_kept)"
  "sq_usable (w_db os [row_of ''s1'' w_message]) w_kept"
proof -
  have r: "scan_session w_row [w_message] = w_kept"
    by (simp add: scan_session_def w_row_def read_column_def w_empty_columns w_kept_def w_session_def new_session_def
        zero_session_def)
  have "session_rows ''s1'' (tables (w_db os [row_of ''s1'' w_message])) = [w_row]" by (rule w_db_rows)
  moreover have "message_rows ''s1'' (tables (w_db os [row_of ''s1'' w_message])) = [row_of ''s1'' w_message]"
    by (simp add: message_rows_def w_db_def w_tables_def row_of_def)
  ultimately show "sq_look (w_db os [row_of ''s1'' w_message]) ''s1'' = Inr (Some w_kept)"
    by (simp add: sq_look_tables look_tables_def r) (simp add: w_row_def)
  show "sq_usable (w_db os [row_of ''s1'' w_message]) w_kept"
    by (auto simp: sq_usable_def w_kept_def keys_ok_def own_messages_def w_db_def w_tables_def w_row_def row_of_def session_ok_def
        message_ok_def int64_ok_def w_session_def new_session_def zero_session_def w_message_def)
qed

theorem sqlite_cut_read_deletes_witness:
  "\<exists>s1 x t. sq_GetSession ''s1'' (w_db [SOk, SCut 0 ''disk I/O error''] [row_of ''s1'' w_message]) =
      (Inr (Some (w_kept\<lparr>sess_messages := []\<rparr>)), s1) \<and>
     sq_UpdateSession (w_kept\<lparr>sess_messages := []\<rparr>) s1 = (Inr x, t) \<and>
     sq_look t ''s1'' = Inr (Some x) \<and> sess_messages x = []"
  using sqlite_cut_read_deletes [of "w_db [SOk, SCut 0 ''disk I/O error''] [row_of ''s1'' w_message]" 0 "''disk I/O error''",
      OF _ w_kept_facts]
  by (simp add: w_db_def) (simp add: w_kept_def w_session_def new_session_def zero_session_def max_int64_def sq_max_revision_def)

section \<open>Messages of other sessions\<close>

text \<open>
  Message ids are the primary key of one table for all sessions, and an update takes the row of
  an id it brings from whichever session has it: of every other session exactly the messages whose
  ids the update did not name are left.
\<close>

theorem sqlite_takes_messages:
  assumes "sq_UpdateSession sess s = (Inr x, t)" "keys_ok (tables s)" "distinct (map msg_id (sess_messages sess))"
    and "j \<noteq> sess_id sess" "sq_look s j = Inr (Some other)"
  shows "\<exists>y. sq_look t j = Inr (Some y) \<and>
    set (sess_messages y) = {k \<in> set (sess_messages other). msg_id k \<notin> msg_id ` set (sess_messages sess)}"
proof -
  let ?ws = "map (row_of (sess_id sess)) (sess_messages sess)"
  obtain r where r: "session_rows j (tables s) = [r]" "r \<in> set (t_sessions (tables s))" "sr_id r = j"
    "other = scan_session r (map scan_message (message_rows j (tables s)))"
    using look_tables_some [OF assms(2)] assms(5) unfolding sq_look_tables by metis
  from update_done [OF assms(1,2)] obtain u where u: "tables t = committed_tables sess u (tables s)" by metis
  have "filter (\<lambda>r. sr_id r = j) (map (write_session_row sess c e n u) rs) = filter (\<lambda>r. sr_id r = j) rs" for c e n rs
    using assms(4) by (induction rs) (auto simp: write_session_row_def)
  then have rows: "session_rows j (tables t) = [r]" using r(1) by (simp add: u session_rows_def committed_tables_def)
  have ids: "map mr_id ?ws = map msg_id (sess_messages sess)" by (simp add: row_of_def)
  have d: "distinct (map mr_id ?ws)" using assms(3) unfolding ids .
  have "set (message_rows j (tables t)) =
      {q \<in> set (message_rows j (tables s)). mr_id q \<notin> msg_id ` set (sess_messages sess)}"
    using assms(4) unfolding u message_rows_def set_sort set_filter committed_tables_def
    by (auto simp: fold_put_row_mem [OF d] ids, auto simp: row_of_def)
  moreover have "msg_id (scan_message q) = mr_id q" for q by (simp add: scan_message_def)
  ultimately have "set (map scan_message (message_rows j (tables t))) =
      {k \<in> set (sess_messages other). msg_id k \<notin> msg_id ` set (sess_messages sess)}"
    unfolding r(4) by (fastforce simp: scan_session_def)
  moreover have "\<not> sr_revision r < 0" using keys_ok_dest(3) [OF assms(2) r(2)] by simp
  ultimately show ?thesis using rows by (simp add: sq_look_tables look_tables_def scan_session_def)
qed

theorem sqlite_takes_messages_witness:
  "\<exists>x t y. sq_UpdateSession w_next (w_db [] [row_of ''s2'' w_message]) = (Inr x, t) \<and>
     sq_look t ''s2'' = Inr (Some y) \<and> sess_messages y = []"
proof -
  let ?s = "w_db [] [row_of ''s2'' w_message]"
  have ok: "session_ok w_next" using w_sq_usable [of "[]" 1] by (simp add: sq_usable_def)
  have k: "keys_ok (tables ?s)" by (auto simp: keys_ok_def w_db_def w_tables_def w_row_def)
  have "if sr_revision w_row = uint (sess_revision w_next) then \<exists>x t. sq_UpdateSession w_next ?s = (Inr x, t)
    else \<exists>e t. sq_UpdateSession w_next ?s = (Inl e, t) \<and> is_conflict e"
  proof (rule quiet_update [OF _ ok])
    show "session_rows (sess_id w_next) (tables ?s) = [w_row]" using w_db_rows(1) by (simp add: w_session_def)
  qed (simp_all add: w_db_def w_row_def w_session_def new_session_def zero_session_def max_int64_def sq_max_revision_def)
  then obtain x t where u: "sq_UpdateSession w_next ?s = (Inr x, t)" by (auto simp: w_row_def)
  have p: "mr_session_id (row_of ''s2'' w_message) = ''s2''" by (simp add: row_of_def)
  obtain other where o: "sq_look ?s ''s2'' = Inr (Some other)" "sess_messages other = [w_message]"
    by (simp add: sq_look_tables look_tables_def session_rows_def message_rows_def w_db_def w_tables_def w_row_def scan_session_def p)
  have "\<exists>y. sq_look t ''s2'' = Inr (Some y) \<and>
      set (sess_messages y) = {k \<in> set (sess_messages other). msg_id k \<notin> msg_id ` set (sess_messages w_next)}"
    by (rule sqlite_takes_messages [OF u k _ _ o(1)]) (simp_all add: w_session_def)
  then obtain y where y: "sq_look t ''s2'' = Inr (Some y)"
    "set (sess_messages y) = {k \<in> set (sess_messages other). msg_id k \<notin> msg_id ` set (sess_messages w_next)}" by blast
  have "set (sess_messages y) = {}" unfolding y(2) o(2) by auto
  then show ?thesis using u y(1) by auto
qed

section \<open>The agent over SQLite\<close>

lemma sqlite_persist:
  assumes "ag_Store a = Some sqlite_store" "persistSession a sess s = (Inr (x, fresh), t)"
  shows "sq_UpdateSession sess s = (Inr x, t)" "\<not> fresh"
  using assms by (auto simp: persistSession_def sqlite_store_def act_seq_iff)

lemma update_keeps_content:
  assumes "sq_UpdateSession sess s = (Inr x, t)"
  shows "sess_messages x = sess_messages sess \<and> sess_open_interrupts x = sess_open_interrupts sess"
  using assms
proof (cases rule: update_steps)
  case (tried r')
  then show ?thesis by (cases r') (auto simp: applyCommittedSession_def)
qed simp

lemma sqlite_content_kept: "ag_Store a = Some sqlite_store \<Longrightarrow> content_kept a"
  unfolding content_kept_def using update_keeps_content by (blast dest: sqlite_persist)

lemma sqlite_in_place: "ag_Store a = Some sqlite_store \<Longrightarrow> updates_in_place a"
  unfolding updates_in_place_def using sqlite_persist(2) by blast


text \<open>
  C7: Over the SQLite store, with a provider that brings no tool results of its own, the runner's
  order is durable: results are reported after the save that holds them; a save that returned is what
  the next reader finds when the session is one the database can keep (\<open>sq_usable\<close>: messages in
  strictly increasing order of their times, with ids of their own that no other session has); and,
  unlike with the JSONL store, a batch that is resumed is recorded completely: when its last call is
  done every call of the paused message has a final status, the calls are the same as before, and the
  results the provider is sent are the ones of the session.
\<close>

theorem sqlite_run_durable:
  assumes "ag_Store a = Some sqlite_store" "\<not> brings_results a"
  shows "results_saved (log_of (RunWithSession h mk a sid input enc) w) \<and>
    (\<forall>sess s x fresh t. sq_usable s sess \<and> persistSession a sess s = (Inr (x, fresh), t) \<longrightarrow>
       sq_look t (sess_id sess) = Inr (Some x) \<and> sess_messages x = sess_messages sess) \<and>
    (\<forall>reg inputs idx z msgs z' msgs' w.
       pz_live z \<and> batch_of idx z = pz_calls z \<and> idx < length (sess_messages (pz_session z)) \<and>
       value_of (resume_calls a reg inputs idx 0 (pz_calls z) z msgs) w = Some (z', msgs') \<longrightarrow>
       list_all isTerminalToolCall (batch_of idx z') \<and> map tc_id (batch_of idx z') = map tc_id (batch_of idx z) \<and>
       map pm_content msgs' = map pm_content msgs @ map tc_result (batch_of idx z'))"
proof (intro conjI allI impI)
  show "results_saved (log_of (RunWithSession h mk a sid input enc) w)"
    by (rule results_saved_run [OF sqlite_content_kept [OF assms(1)] assms(2)])
  fix sess s x fresh t
  assume u: "sq_usable s sess \<and> persistSession a sess s = (Inr (x, fresh), t)"
  then have v: "sq_UpdateSession sess s = (Inr x, t)" using sqlite_persist [OF assms(1)] by blast
  show "sq_look t (sess_id sess) = Inr (Some x)" using update_usable [OF v] u by blast
  show "sess_messages x = sess_messages sess" using update_keeps_content [OF v] by blast
next
  fix reg inputs idx z msgs z' msgs' w
  assume z: "pz_live z \<and> batch_of idx z = pz_calls z \<and> idx < length (sess_messages (pz_session z)) \<and>
       value_of (resume_calls a reg inputs idx 0 (pz_calls z) z msgs) w = Some (z', msgs')"
  then obtain r' where r: "resume_calls a reg inputs idx 0 (pz_calls z) z msgs \<lparr>r_world = w, r_log = []\<rparr> = (Some (z', msgs'), r')"
    unfolding value_of_def by (metis prod.collapse)
  from resume_calls_recorded [OF sqlite_content_kept [OF assms(1)] sqlite_in_place [OF assms(1)] _ _ _ _ _ r] z
  show "list_all isTerminalToolCall (batch_of idx z')" "map tc_id (batch_of idx z') = map tc_id (batch_of idx z)"
    "map pm_content msgs' = map pm_content msgs @ map tc_result (batch_of idx z')" by simp_all
qed

definition w_mk :: "sqlite new_transport" where
  "w_mk _ _ _ = \<lparr>tp_Send = (\<lambda>_ _. act_fail nil_deref), tp_Notify = (\<lambda>_ _. act_fail nil_deref), tp_Close = act_ret ()\<rparr>"

theorem sqlite_run_durable_witness:
  "results_saved (log_of (RunWithSession w_host w_mk w_agent ''s1'' ''hi'' (Some ''agui'')) (w_db [] [])) \<and>
   (\<exists>x t. persistSession w_agent w_next (w_db [] []) = (Inr (x, False), t) \<and>
      sq_look t ''s1'' = Inr (Some x) \<and> sess_messages x = [w_message])"
proof -
  have a: "ag_Store w_agent = Some sqlite_store" "\<not> brings_results w_agent"
    by (simp_all add: w_agent_def bare_agent_def brings_results_def)
  obtain x t where u: "sq_UpdateSession w_next (w_db [] []) = (Inr x, t)" using w_sq_updates by blast
  then have p: "persistSession w_agent w_next (w_db [] []) = (Inr (x, False), t)"
    by (simp add: persistSession_def a(1) sqlite_store_def act_seq_def act_ret_def)
  have i: "sess_id w_next = ''s1''" by (simp add: w_session_def)
  show ?thesis
    using sqlite_run_durable [OF a, of w_host w_mk "''s1''" "''hi''" "Some ''agui''" "w_db [] []"]
      w_sq_usable [of "[]" 1] p i by fastforce
qed

end
