(* ===== verification/Sqlite_Props.thy ===== *)
theory Sqlite_Props
  imports Sqlite_Spec
begin

text \<open>
  The rest of the SQLite store: the keys of its tables under every operation, scoped memory as a map
  and what listing it shows, and the column that opening the database may leave out.
\<close>

section \<open>Operations that keep the keys\<close>

definition safe :: "(sqlite, 'a) act \<Rightarrow> bool" where
  "safe m \<longleftrightarrow> (\<forall>s r t. m s = (r, t) \<longrightarrow> keys_ok (tables s) \<longrightarrow> keys_ok (tables t))"

named_theorems safe_rules \<open>operations that keep the keys of the tables\<close>

lemma safe_same: "(\<And>s r t. m s = (r, t) \<Longrightarrow> same_db s t) \<Longrightarrow> safe m"
  unfolding safe_def same_db_def by metis

lemma safe_basic [safe_rules]:
  "safe (act_ret x)" "safe (act_fail e)" "safe (act_lift y)" "safe sq_call" "safe (sq_row q)" "safe (sq_rows q')"
  "safe sq_now" "safe sq_newID" "safe (column what v)"
  by (rule safe_same; auto dest: sq_call_same sq_row_same sq_rows_same sq_now_same sq_newID_same column_same)+

lemma safe_seq [safe_rules]: "safe m \<Longrightarrow> (\<And>x. safe (k x)) \<Longrightarrow> safe (act_seq m k)"
  unfolding safe_def act_seq_iff by blast

lemma safe_wrap [safe_rules]: "safe m \<Longrightarrow> safe (act_wrap p m)"
  unfolding safe_def act_wrap_iff by blast

lemma safe_handle [safe_rules]: "safe m \<Longrightarrow> (\<And>e. safe (f e)) \<Longrightarrow> (\<And>x. safe (k x)) \<Longrightarrow> safe (act_handle m f k)"
  unfolding safe_def act_handle_def by (fastforce split: prod.splits sum.splits if_splits)

lemma safe_cases [safe_rules]:
  "(b \<Longrightarrow> safe m) \<Longrightarrow> (\<not> b \<Longrightarrow> safe n) \<Longrightarrow> safe (if b then m else n)"
  "safe m \<Longrightarrow> (\<And>x. safe (f x)) \<Longrightarrow> safe (case_option m f opt)"
  by (auto split: option.split)

lemma safe_exec [safe_rules]:
  assumes "\<And>t x u. f t = Inr (x, u) \<Longrightarrow> keys_ok t \<Longrightarrow> keys_ok u"
  shows "safe (sq_exec f)"
  unfolding safe_def
proof (intro allI impI)
  fix s r t
  assume a: "sq_exec f s = (r, t)" "keys_ok (tables s)"
  from a(1) show "keys_ok (tables t)"
  proof (cases rule: sq_exec_cases)
    case (works x s1)
    then show ?thesis using assms a(2) by blast
  qed (use a(2) in \<open>simp add: same_db_def\<close>)
qed

lemma safe_column [safe_rules]: "safe m \<Longrightarrow> safe (needs_column p m)"
  by (simp add: safe_def needs_column_def)

lemma distinct_map_same: "(\<And>x. x \<in> set xs \<Longrightarrow> f (g x) = f x) \<Longrightarrow> distinct (map f (map g xs)) \<longleftrightarrow> distinct (map f xs)"
  by (metis (mono_tags, lifting) map_eq_conv map_map comp_apply)

lemma distinct_map_snoc:
  "distinct (map f xs) \<Longrightarrow> \<forall>x \<in> set xs. f x \<noteq> f r \<Longrightarrow> distinct (map f (xs @ [r]))"
  by force

lemma migration_keys:
  "m \<in> set (schemaMigrations @ compatibilityMigrations) \<Longrightarrow> m t = Inr (x, u) \<Longrightarrow> keys_ok t \<Longrightarrow> keys_ok u"
  by (auto simp: schemaMigrations_def compatibilityMigrations_def keys_ok_def Let_def split: if_splits)

lemma safe_migrations:
  "set ms \<subseteq> set (schemaMigrations @ compatibilityMigrations) \<Longrightarrow> safe (executeRequiredMigrations ms)"
  "set ms \<subseteq> set (schemaMigrations @ compatibilityMigrations) \<Longrightarrow> safe (addOptionalColumns ms)"
proof (induction ms)
  case (Cons m ms)
  { case 1 then show ?case using Cons.IH migration_keys [of m] by (auto intro!: safe_rules) }
  { case 2 then show ?case using Cons.IH migration_keys [of m] by (auto intro!: safe_rules) }
qed (auto intro!: safe_rules)

lemma safe_NewStore: "safe (sq_NewStore path)"
  unfolding sq_NewStore_def sq_migrate_def by (intro safe_rules safe_migrations) auto

lemma safe_CreateSession: "safe (sq_CreateSession a u)"
  unfolding sq_CreateSession_def
  by (intro safe_rules) (auto simp: insert_session_row_def keys_ok_def split: if_splits)

lemma safe_UpdateSession: "safe (sq_UpdateSession sess)"
  unfolding safe_def
proof (intro allI impI)
  fix s r t
  assume a: "sq_UpdateSession sess s = (r, t)" "keys_ok (tables s)"
  show "keys_ok (tables t)"
  proof (cases r)
    case (Inr x)
    from update_done [OF a(1) [unfolded Inr] a(2)] obtain v where "sess_revision sess < sq_max_revision"
      "tables t = committed_tables sess v (tables s)" by metis
    then show ?thesis using committed_keys [OF a(2)] by simp
  qed (use a update_failed in auto)
qed

lemma distinct_filter_map: "distinct (map f xs) \<Longrightarrow> distinct (map f (filter P xs))"
  by (rule distinct_map_filter)

lemma safe_DeleteSession: "safe (sq_DeleteSession i)"
proof -
  have "safe (act_wrap p (sq_exec (delete_session_rows fk i)))" for p fk
    by (intro safe_rules) (auto simp: delete_session_rows_def keys_ok_def distinct_filter_map)
  then show ?thesis by (simp add: safe_def sq_DeleteSession_def)
qed

lemma safe_tools: "safe (sq_SaveTool td)" "safe (sq_DeleteTool n)"
proof -
  have "keys_ok t \<Longrightarrow> upsert_tool_row r t = Inr (x, u) \<Longrightarrow> keys_ok u" for r t x u
    by (auto simp: upsert_tool_row_def keys_ok_def distinct_map_same distinct_map_snoc simp del: map_map map_append split: if_splits)
  then show "safe (sq_SaveTool td)"
    unfolding sq_SaveTool_def fill_id_def fill_time_def Let_def by (intro safe_rules)
  show "safe (sq_DeleteTool n)"
    unfolding sq_DeleteTool_def by (intro safe_rules) (auto simp: keys_ok_def distinct_filter_map)
qed

lemma safe_skills: "safe (sq_SaveSkill d)" "safe (sq_DeleteSkill n)"
proof -
  have "keys_ok t \<Longrightarrow> upsert_skill_row r t = Inr (x, u) \<Longrightarrow> keys_ok u" for r t x u
    by (auto simp: upsert_skill_row_def keys_ok_def distinct_map_same distinct_map_snoc simp del: map_map map_append split: if_splits)
  then show "safe (sq_SaveSkill d)" unfolding sq_SaveSkill_def by (intro safe_rules)
  show "safe (sq_DeleteSkill n)"
    unfolding sq_DeleteSkill_def by (intro safe_rules) (auto simp: keys_ok_def distinct_filter_map)
qed

lemma safe_memory: "safe (sq_SetMemory sc i k v)" "safe (sq_DeleteMemory sc i k)"
proof -
  have "keys_ok t \<Longrightarrow> upsert_memory_row q w t = Inr (x, u) \<Longrightarrow> keys_ok u" for q w t x u
    by (auto simp: upsert_memory_row_def keys_ok_def distinct_map_same distinct_map_snoc simp del: map_map map_append split: if_splits)
  then show "safe (sq_SetMemory sc i k v)" unfolding sq_SetMemory_def Let_def by (intro safe_rules)
  show "safe (sq_DeleteMemory sc i k)"
    unfolding sq_DeleteMemory_def Let_def by (intro safe_rules) (auto simp: keys_ok_def distinct_filter_map)
qed

lemma safe_servers: "safe (sq_SaveMCPServer m)" "safe (sq_DeleteMCPServer n)"
proof -
  have "keys_ok t \<Longrightarrow> upsert_mcp_row r t = Inr (x, u) \<Longrightarrow> keys_ok u" for r t x u
    by (auto simp: upsert_mcp_row_def keys_ok_def distinct_map_same distinct_map_snoc simp del: map_map map_append split: if_splits)
  then show "safe (sq_SaveMCPServer m)"
    unfolding sq_SaveMCPServer_def fill_id_def fill_time_def Let_def by (intro safe_rules)
  show "safe (sq_DeleteMCPServer n)"
    unfolding sq_DeleteMCPServer_def by (intro safe_rules) (auto simp: keys_ok_def distinct_filter_map)
qed

lemma safe_reads:
  "safe (sq_GetSession i)" "safe (querySessionSummaries P op)" "safe (sq_GetTool n)" "safe (sq_ListTools a)"
  "safe (sq_GetSkill n)" "safe sq_ListSkills" "safe (sq_GetMemory sc i k)" "safe (sq_ListMemory sc i k)"
  "safe (sq_GetMCPServer n)" "safe (sq_ListMCPServers a)"
  unfolding sq_GetSession_def loadMessages_def querySessionSummaries_def sq_GetTool_def sq_ListTools_def sq_GetSkill_def
    sq_ListSkills_def sq_GetMemory_def sq_ListMemory_def sq_GetMCPServer_def sq_ListMCPServers_def Let_def
  by (intro safe_rules)+


text \<open>One call of the store's interface, whatever the database answers.\<close>

inductive sq_step :: "sqlite \<Rightarrow> sqlite \<Rightarrow> bool" where
  opened: "sq_NewStore path s = (r, t) \<Longrightarrow> sq_step s t"
| session_created: "sq_CreateSession agent user s = (x, t) \<Longrightarrow> sq_step s t"
| session_read: "sq_GetSession i s = (so, t) \<Longrightarrow> sq_step s t"
| session_updated: "sq_UpdateSession sess s = (x, t) \<Longrightarrow> sq_step s t"
| session_deleted: "sq_DeleteSession i s = (r, t) \<Longrightarrow> sq_step s t"
| sessions_listed: "sq_ListSessions agent s = (xs, t) \<Longrightarrow> sq_step s t"
| user_sessions_listed: "sq_ListSessionsByUser agent user s = (xs, t) \<Longrightarrow> sq_step s t"
| tool_saved: "sq_SaveTool td s = (td', t) \<Longrightarrow> sq_step s t"
| tool_read: "sq_GetTool n s = (tdo, t) \<Longrightarrow> sq_step s t"
| tools_listed: "sq_ListTools agent s = (tds, t) \<Longrightarrow> sq_step s t"
| tool_deleted: "sq_DeleteTool n s = (r, t) \<Longrightarrow> sq_step s t"
| skill_saved: "sq_SaveSkill d s = (r, t) \<Longrightarrow> sq_step s t"
| skill_read: "sq_GetSkill n s = (d', t) \<Longrightarrow> sq_step s t"
| skills_listed: "sq_ListSkills s = (ds, t) \<Longrightarrow> sq_step s t"
| skill_deleted: "sq_DeleteSkill n s = (r, t) \<Longrightarrow> sq_step s t"
| memory_set: "sq_SetMemory sc i k v s = (r, t) \<Longrightarrow> sq_step s t"
| memory_read: "sq_GetMemory sc i k s = (v', t) \<Longrightarrow> sq_step s t"
| memory_deleted: "sq_DeleteMemory sc i k s = (r, t) \<Longrightarrow> sq_step s t"
| memory_listed: "sq_ListMemory sc i k s = (ks, t) \<Longrightarrow> sq_step s t"
| server_saved: "sq_SaveMCPServer m s = (m', t) \<Longrightarrow> sq_step s t"
| server_read: "sq_GetMCPServer n s = (mo, t) \<Longrightarrow> sq_step s t"
| servers_listed: "sq_ListMCPServers agent s = (ms, t) \<Longrightarrow> sq_step s t"
| server_deleted: "sq_DeleteMCPServer n s = (r, t) \<Longrightarrow> sq_step s t"

lemmas safe_store = safe_NewStore safe_CreateSession safe_UpdateSession safe_DeleteSession safe_tools safe_skills
  safe_memory safe_servers safe_reads

lemma safeD: "safe m \<Longrightarrow> m s = (r, t) \<Longrightarrow> keys_ok (tables s) \<Longrightarrow> keys_ok (tables t)"
  unfolding safe_def by blast

lemma step_keys: "sq_step s t \<Longrightarrow> keys_ok (tables s) \<Longrightarrow> keys_ok (tables t)"
  by (induction rule: sq_step.induct)
    (unfold sq_ListSessions_def sq_ListSessionsByUser_def, (erule safeD [rotated], assumption, rule safe_store)+)

definition new_tables :: tables where
  "new_tables = \<lparr>t_sessions = [], t_messages = [], t_tools = [], t_skills = [], t_memory = [], t_mcp_servers = [],
     t_response_field = False\<rparr>"

text \<open>
  C21: Whatever calls are made on a new database, in whatever order and with whatever failures, its
  keys stay unique: session ids, message ids over all sessions, tool and server ids and names, skill
  names, memory keys; and no reader is ever refused a session for its revision.
\<close>

theorem sqlite_keys_invariant:
  assumes "rtranclp sq_step s t" "tables s = new_tables"
  shows "keys_ok (tables t) \<and> (\<forall>i. \<exists>so. sq_look t i = Inr so)"
proof -
  have k: "keys_ok (tables t)"
    using assms(1)
  proof (induction rule: rtranclp_induct)
    case base
    then show ?case by (simp add: assms(2) new_tables_def keys_ok_def)
  next
    case (step u t)
    show ?case by (rule step_keys [OF step(2) step(3)])
  qed
  have "\<exists>so. sq_look t i = Inr so" for i
    using k
  proof (cases rule: session_rows_cases [of "tables t" i])
    case (one r)
    then show ?thesis using keys_ok_dest(3) [OF k one(2)] by (auto simp: sq_look_tables look_tables_def)
  qed (simp add: sq_look_tables look_tables_def)
  then show ?thesis using k by blast
qed

definition w_new :: sqlite where
  "w_new = (w_db [] [])\<lparr>tables := new_tables\<rparr>"

theorem sqlite_keys_invariant_witness:
  "\<exists>t. rtranclp sq_step w_new t \<and> t_sessions (tables t) \<noteq> [] \<and> keys_ok (tables t)"
proof -
  have n: "sq_now w_new = (Inr 8, w_new\<lparr>sq_draws := Suc 0\<rparr>)"
    by (simp add: sq_now_def draw_nano_def w_new_def w_db_def)
  obtain i d where i: "sq_newID (w_new\<lparr>sq_draws := Suc 0\<rparr>) = (Inr i, w_new\<lparr>sq_draws := d\<rparr>)"
    by (simp add: sq_newID_def draw_nano_def draw_random_def w_new_def w_db_def)
  have q: "outcomes (w_new\<lparr>sq_draws := d\<rparr>) = []" "tables (w_new\<lparr>sq_draws := d\<rparr>) = new_tables"
    by (simp_all add: w_new_def w_db_def)
  have "\<exists>x t. sq_CreateSession ''a'' ''u'' w_new = (Inr x, t) \<and> t_sessions (tables t) \<noteq> []"
    by (simp add: sq_CreateSession_def act_seq_def n i act_wrap_def quiet_exec [OF q(1)] q(2) insert_session_row_def new_tables_def act_ret_def)
  then obtain x t where c: "sq_CreateSession ''a'' ''u'' w_new = (Inr x, t)" "t_sessions (tables t) \<noteq> []" by blast
  then have "rtranclp sq_step w_new t" by (intro r_into_rtranclp session_created)
  moreover have "tables w_new = new_tables" by (simp add: w_new_def)
  ultimately show ?thesis using sqlite_keys_invariant c(2) by blast
qed

section \<open>Scoped memory\<close>

definition memory_look :: "sqlite \<Rightarrow> memory_scope \<times> string \<times> string \<Rightarrow> error + string option" where
  "memory_look s k = (case k of (sc, i, key) \<Rightarrow> fst (sq_GetMemory sc i key (s\<lparr>outcomes := []\<rparr>)))"

lemma memory_look_rows:
  "memory_look s (sc, i, key) = Inr (map_of (t_memory (tables s)) (ScopedKey sc i key))"
proof -
  have "(case filter (\<lambda>x. fst x = k) xs of [] \<Rightarrow> None | r # _ \<Rightarrow> Some r) = map_option (Pair k) (map_of xs k)" for k :: string and xs :: "(string \<times> string) list"
    by (induction xs) auto
  then show ?thesis
    by (simp add: memory_look_def sq_GetMemory_def Let_def act_seq_def act_wrap_def act_ret_def option.map_comp comp_def option.map_ident)
qed

lemma memory_upserted: "upsert_memory_row k v t = Inr (x, u) \<Longrightarrow> map_of (t_memory u) = (map_of (t_memory t))(k \<mapsto> v)"
proof -
  have upd: "map_of (map (\<lambda>x. if fst x = k then (k, v) else x) xs) = (\<lambda>q. if q = k \<and> k \<in> fst ` set xs then Some v else map_of xs q)" for xs
    by (induction xs) (auto simp: fun_eq_iff)
  assume u: "upsert_memory_row k v t = Inr (x, u)"
  show ?thesis
  proof (cases "k \<in> fst ` set (t_memory t)")
    case True
    then have "t_memory u = map (\<lambda>x. if fst x = k then (k, v) else x) (t_memory t)"
      using u by (force simp: upsert_memory_row_def)
    then show ?thesis using True by (simp only: upd) (simp add: fun_eq_iff)
  next
    case False
    then have "t_memory u = t_memory t @ [(k, v)]" "map_of (t_memory t) k = None"
      using u by (force simp: upsert_memory_row_def map_of_eq_None_iff)+
    then show ?thesis by (auto simp: fun_eq_iff map_add_def split: option.split)
  qed
qed

lemma memory_deleted_map: "map_of (filter (\<lambda>x. fst x \<noteq> k) xs) = (map_of xs)(k := None)"
  by (induction xs) (auto simp: fun_eq_iff)

abbreviation memory_put :: "memory_scope \<times> string \<times> string \<Rightarrow> string \<Rightarrow> (sqlite, unit) act" where
  "memory_put k v \<equiv> (case k of (sc, i, key) \<Rightarrow> sq_SetMemory sc i key v)"

abbreviation memory_del :: "memory_scope \<times> string \<times> string \<Rightarrow> (sqlite, unit) act" where
  "memory_del k \<equiv> (case k of (sc, i, key) \<Rightarrow> sq_DeleteMemory sc i key)"

lemma memory_put_done:
  "sq_SetMemory sc i key v s = (Inr (), t) \<Longrightarrow> map_of (t_memory (tables t)) = (map_of (t_memory (tables s)))(ScopedKey sc i key \<mapsto> v)"
  by (auto simp: sq_SetMemory_def Let_def dest!: sq_exec_done(1) memory_upserted)

lemma memory_del_done:
  "sq_DeleteMemory sc i key s = (Inr (), t) \<Longrightarrow> map_of (t_memory (tables t)) = (map_of (t_memory (tables s)))(ScopedKey sc i key := None)"
  by (auto simp: sq_DeleteMemory_def Let_def memory_deleted_map dest!: sq_exec_done(1) sym [of _ "tables t"])

interpretation sqlite_memory: kv_store memory_put memory_del memory_look "\<lambda>_. True"
  "\<lambda>(sc, i, key) (sc', i', key'). ScopedKey sc' i' key' \<noteq> ScopedKey sc i key"
  by unfold_locales
    (auto simp: memory_look_rows split: prod.splits dest!: memory_put_done memory_del_done)


lemma like_percent: "like [37] ys"
  by (induction ys) auto

text \<open>
  Listing the memory of one user shows that of others. The scope id is part of a LIKE pattern and
  is not escaped: with no failing call, the keys listed for the user \<open>a_b\<close> include every key of the
  user \<open>axb\<close>, and of \<open>A_B\<close>, although no key of theirs can be read as the user's.
\<close>

theorem sqlite_lists_foreign_memory:
  assumes "outcomes s = []" "u \<in> {''axb'', ''A_B''}" "memory_look s (ScopeUser, u, key) = Inr (Some v)"
  shows "(\<exists>ks. fst (sq_ListMemory ScopeUser ''a_b'' [] s) = Inr ks \<and> ScopedKey ScopeUser u key \<in> set ks) \<and>
    ScopedKey ScopeUser u key \<notin> range (ScopedKey ScopeUser ''a_b'')"
proof
  have m: "ScopedKey ScopeUser u key \<in> fst ` set (t_memory (tables s))"
    using assms(3) by (force simp: memory_look_rows dest: map_of_SomeD)
  have "sql_like (ScopedKey ScopeUser ''a_b'' [] @ ''%'') (ScopedKey ScopeUser u key)"
    using assms(2) like_percent by (auto simp: sql_like_def ScopedKey_def fold_case_def)
  then show "\<exists>ks. fst (sq_ListMemory ScopeUser ''a_b'' [] s) = Inr ks \<and> ScopedKey ScopeUser u key \<in> set ks"
    using assms(1) m by (simp add: sq_ListMemory_def Let_def act_wrap_def)
  show "ScopedKey ScopeUser u key \<notin> range (ScopedKey ScopeUser ''a_b'')"
    using assms(2) by (auto simp: ScopedKey_def)
qed

theorem sqlite_lists_foreign_memory_witness:
  "let s = (w_db [] [])\<lparr>tables := new_tables\<lparr>t_memory := [(''user:axb::pin'', ''1234'')]\<rparr>\<rparr> in
   \<exists>ks. fst (sq_ListMemory ScopeUser ''a_b'' [] s) = Inr ks \<and> ''user:axb::pin'' \<in> set ks"
proof -
  let ?s = "(w_db [] [])\<lparr>tables := new_tables\<lparr>t_memory := [(''user:axb::pin'', ''1234'')]\<rparr>\<rparr>"
  have k: "ScopedKey ScopeUser ''axb'' ''pin'' = ''user:axb::pin''" by (simp add: ScopedKey_def)
  have "memory_look ?s (ScopeUser, ''axb'', ''pin'') = Inr (Some ''1234'')" by (simp add: memory_look_rows k)
  then show ?thesis
    using sqlite_lists_foreign_memory [of ?s "''axb''" "''pin''" "''1234''"] unfolding k Let_def by (simp add: w_db_def)
qed

section \<open>A column that is not there\<close>

lemma migrations_present:
  assumes "\<forall>m \<in> set ms. \<forall>t. m t = Inl (ErrMsg ''duplicate column name'')"
  shows "\<exists>u. addOptionalColumns ms s = (Inr (), u) \<and> same_db s u"
  using assms
proof (induction ms arbitrary: s)
  case Nil
  then show ?case by (simp add: act_ret_def)
next
  case (Cons m ms)
  obtain r s1 where x: "sq_exec m s = (r, s1)" by force
  then have "same_db s s1 \<and> (\<exists>e. r = Inl (ErrMsg e))"
    using Cons.prems by (auto simp: sq_exec_def act_seq_def sq_call_def split: prod.splits outcome.splits dest: next_outcome_same)
  then obtain e where e: "same_db s s1" "r = Inl (ErrMsg e)" by blast
  obtain u where "addOptionalColumns ms s1 = (Inr (), u)" "same_db s1 u"
    using Cons.IH [of s1] Cons.prems by auto
  then show ?case using x e by (auto simp: act_handle_def intro: same_db_trans)
qed

lemma tools_fail_without_column:
  assumes "\<not> t_response_field (tables s)"
  shows "isl (fst (sq_SaveTool td s))" "isl (fst (sq_GetTool n s))" "isl (fst (sq_ListTools a s))"
proof -
  have save: "\<not> (\<exists>x t. sq_SaveTool td s = (Inr x, t))"
  proof
    assume "\<exists>x t. sq_SaveTool td s = (Inr x, t)"
    then show False using assms
      by (auto simp: sq_SaveTool_def fill_id_def fill_time_def act_seq_iff column_Inr Let_def needs_column_def same_db_def
          split: if_splits dest!: sq_newID_same sq_now_same)
  qed
  then show "isl (fst (sq_SaveTool td s))" by (cases "sq_SaveTool td s"; cases "fst (sq_SaveTool td s)") auto
  show "isl (fst (sq_GetTool n s))" "isl (fst (sq_ListTools a s))"
    using assms by (simp_all add: sq_GetTool_def sq_ListTools_def needs_column_def act_seq_def act_wrap_def)
qed


lemma next_outcome_Cons: "outcomes s = oc # os \<Longrightarrow> next_outcome s = (oc, s\<lparr>outcomes := os\<rparr>)"
  by (simp add: next_outcome_def)

lemma call_ok: "outcomes s = SOk # os \<Longrightarrow> sq_call s = (Inr (), s\<lparr>outcomes := os\<rparr>)"
  by (simp add: sq_call_def next_outcome_Cons)

lemma required_ok:
  "outcomes s = replicate n SOk @ os \<Longrightarrow>
   executeRequiredMigrations (replicate n (\<lambda>t. Inr ((), t))) s = (Inr (), s\<lparr>outcomes := os\<rparr>)"
proof (induction n arbitrary: s)
  case (Suc n)
  have "sq_exec (\<lambda>t. Inr ((), t)) s = (Inr (), s\<lparr>outcomes := replicate n SOk @ os\<rparr>)"
    using Suc.prems by (simp add: sq_exec_def act_seq_def call_ok)
  then show ?case using Suc.IH [of "s\<lparr>outcomes := replicate n SOk @ os\<rparr>"] by (simp add: act_seq_def)
qed (simp add: act_ret_def)

lemma optional_present:
  "outcomes s = replicate n SOk @ os \<Longrightarrow>
   addOptionalColumns (replicate n (\<lambda>t. Inl (ErrMsg ''duplicate column name'')) @ ms) s =
     addOptionalColumns ms (s\<lparr>outcomes := os\<rparr>)"
proof (induction n arbitrary: s)
  case (Suc n)
  have "sq_exec (\<lambda>t. Inl (ErrMsg ''duplicate column name'') :: error + unit \<times> tables) s =
      (Inl (ErrMsg ''duplicate column name''), s\<lparr>outcomes := replicate n SOk @ os\<rparr>)"
    using Suc.prems by (simp add: sq_exec_def act_seq_def call_ok)
  then show ?case using Suc.IH [of "s\<lparr>outcomes := replicate n SOk @ os\<rparr>"] by (simp add: act_handle_def)
next
  case 0
  then have "s\<lparr>outcomes := os\<rparr> = s" by (cases s) simp
  then show ?case by simp
qed

text \<open>
  Opening a new database can succeed and leave a store whose tools cannot be saved or read. The
  column \<open>response_field\<close> is no part of CREATE TABLE, it comes by an ALTER TABLE whose error is
  dropped: when that one call fails (a busy database, say), NewStore returns no error and every
  SaveTool, GetTool and ListTools fails until the database is opened again.
\<close>

theorem sqlite_opened_without_column:
  assumes "\<not> t_response_field (tables s)" "outcomes s = replicate 14 SOk @ SFail m # os"
  shows "\<exists>t. sq_NewStore path s = (Inr (), t) \<and> (\<forall>u. tables u = tables t \<longrightarrow>
     (\<forall>td. isl (fst (sq_SaveTool td u))) \<and> (\<forall>n. isl (fst (sq_GetTool n u))) \<and> (\<forall>a. isl (fst (sq_ListTools a u))))"
proof -
  let ?bad = "\<lambda>t :: tables. Inl (ErrMsg ''duplicate column name'') :: error + unit \<times> tables"
  let ?add = "\<lambda>t. if t_response_field t then Inl (ErrMsg ''duplicate column name'') :: error + unit \<times> tables else Inr ((), t\<lparr>t_response_field := True\<rparr>)"
  let ?s = "\<lambda>l. s\<lparr>outcomes := l\<rparr>"
  have o: "outcomes s = SOk # SOk # SOk # replicate 6 SOk @ replicate 5 SOk @ SFail m # os"
    using assms(2) by (simp add: eval_nat_numeral)
  have req: "executeRequiredMigrations schemaMigrations (?s (replicate 6 SOk @ replicate 5 SOk @ SFail m # os)) =
      (Inr (), ?s (replicate 5 SOk @ SFail m # os))"
    unfolding schemaMigrations_def by (subst required_ok) simp_all
  have fail: "sq_exec ?add (?s (SFail m # os)) = (Inl (ErrMsg m), ?s os)"
    by (simp add: sq_exec_def act_seq_def sq_call_def next_outcome_def)
  obtain t where t: "addOptionalColumns (replicate 5 ?bad) (?s os) = (Inr (), t)" "same_db (?s os) t"
    using migrations_present [of "replicate 5 ?bad" "?s os"] by auto
  have "addOptionalColumns compatibilityMigrations (?s (replicate 5 SOk @ SFail m # os)) = (Inr (), t)"
    unfolding compatibilityMigrations_def Let_def
    by (subst optional_present, simp, simp add: act_handle_def, subst fail, simp add: t(1))
  then have "sq_NewStore path s = (Inr (), t)"
    using req by (simp add: sq_NewStore_def sq_migrate_def act_seq_def act_wrap_def call_ok o)
  moreover have "\<not> t_response_field (tables t)" using t(2) assms(1) by (simp add: same_db_def)
  ultimately show ?thesis using tools_fail_without_column by metis
qed

theorem sqlite_opened_without_column_witness:
  "\<exists>t. sq_NewStore ''db'' (w_new\<lparr>outcomes := replicate 14 SOk @ [SFail ''database is locked'']\<rparr>) = (Inr (), t) \<and>
     (\<forall>td. isl (fst (sq_SaveTool td t)))"
proof -
  have "\<not> t_response_field (tables (w_new\<lparr>outcomes := replicate 14 SOk @ [SFail ''database is locked'']\<rparr>))"
    by (simp add: w_new_def new_tables_def)
  from sqlite_opened_without_column [OF this, of "''database is locked''" "[]" "''db''"] show ?thesis by auto
qed

section \<open>Deleting a session\<close>

text \<open>The session is gone, its messages only when the engine enforces the foreign key.\<close>

lemma sqlite_delete_leaves_messages:
  assumes "sq_DeleteSession i s = (Inr (), t)"
  shows "sq_look t i = Inr None \<and>
    t_messages (tables t) = (if foreign_keys s then filter (\<lambda>r. mr_session_id r \<noteq> i) (t_messages (tables s)) else t_messages (tables s))"
  using assms
  by (auto simp: sq_DeleteSession_def delete_session_rows_def sq_look_tables look_tables_def session_rows_def filter_empty_conv
      dest!: sq_exec_done(1) sym [of _ "tables t"] split: list.split)

end
