(* ===== verification/Providers.thy ===== *)
theory Providers
  imports Compaction Resume "HOL-Library.Log_Nat"
begin

text \<open>
  provider/openai/provider.go and provider/gemini/provider.go: the two providers. The values of the
  vendors' SDKs that the source builds or takes apart are data with the fields it uses; the calls of
  an SDK are operations of a record, arguments of the model. A stream is the list of what the SDK
  yields until it ends.
\<close>

section \<open>OpenAI\<close>

text \<open>The messages that the constructors SystemMessage, UserMessage and ToolMessage make, and the assistant's.\<close>

record oa_call =
  oc_id :: string
  oc_name :: string
  oc_arguments :: string

datatype oa_message =
    OaSystem string
  | OaUser string
  | OaAssistant "string option" "oa_call list"
  | OaTool string string

record oa_tool =
  ot_name :: string
  ot_description :: string
  ot_parameters :: "(string \<times> json) list"

record oa_params =
  op_model :: string
  op_messages :: "oa_message list"
  op_tools :: "oa_tool list"
  op_max_tokens :: "int option"
  op_temperature :: "rat option"

record oa_completion =
  co_choices :: "(string \<times> oa_call list) list"
  co_prompt_tokens :: int
  co_completion_tokens :: int

text \<open>
  The client and its accumulator: \<open>'c\<close> are the chunks of a stream, \<open>'acc\<close> what has been gathered of
  them. A stream ends with the error that \<open>Err\<close> returns, if any.
\<close>

record ('w, 'c, 'acc) oa_sdk =
  os_stream :: "oa_params \<Rightarrow> 'w \<Rightarrow> ('c list \<times> error option) \<times> 'w"
  os_complete :: "oa_params \<Rightarrow> ('w, oa_completion) act"
  os_contents :: "'c \<Rightarrow> string list"
  os_start :: 'acc
  os_AddChunk :: "'c \<Rightarrow> 'acc \<Rightarrow> 'acc"
  os_JustFinishedToolCall :: "'acc \<Rightarrow> oa_call option"

definition openai_Name :: string where
  "openai_Name = ''openai''"

definition openai_Models :: "string list" where
  "openai_Models = [''gpt-4o'', ''gpt-4o-mini'', ''gpt-4.1'', ''gpt-4.1-mini'']"

definition oa_call_of :: "ptool_call \<Rightarrow> oa_call" where
  "oa_call_of tc = \<lparr>oc_id = pt_id tc, oc_name = pt_name tc, oc_arguments = pt_arguments tc\<rparr>"

definition toOpenAIMessages :: "pmessage \<Rightarrow> oa_message list" where
  "toOpenAIMessages m =
     (if pm_role m = ''system'' then [OaSystem (pm_content m)]
      else if pm_role m = ''user'' then [OaUser (pm_content m)]
      else if pm_role m = ''assistant'' then
        [OaAssistant (if pm_content m = [] then None else Some (pm_content m)) (map oa_call_of (pm_tool_calls m))]
      else if pm_role m = ''tool'' then
        [OaTool (pm_content m) (case pm_tool_calls m of [] \<Rightarrow> [] | tc # _ \<Rightarrow> pt_id tc)]
      else [])"

definition toOpenAIParams :: "json \<Rightarrow> (string \<times> json) list" where
  "toOpenAIParams schema =
     (case json_Marshal schema of
        Inl _ \<Rightarrow> []
      | Inr b \<Rightarrow> (case json_Unmarshal b of Some (JObj kvs) \<Rightarrow> canon_members kvs [] | _ \<Rightarrow> []))"

definition buildParams :: "string \<Rightarrow> request \<Rightarrow> oa_params" where
  "buildParams model req =
     \<lparr>op_model = model,
      op_messages = (if rq_system req = [] then [] else [OaSystem (rq_system req)])
        @ concat (map toOpenAIMessages (rq_messages req)),
      op_tools = map (\<lambda>t. \<lparr>ot_name = ps_name t, ot_description = ps_description t,
        ot_parameters = toOpenAIParams (ps_parameters t)\<rparr>) (rq_tools req),
      op_max_tokens = (if rq_max_tokens req > 0 then Some (rq_max_tokens req) else None),
      op_temperature = (if rq_temperature req > 0 then Some (rq_temperature req) else None)\<rparr>"

definition call_of_oa :: "oa_call \<Rightarrow> ptool_call" where
  "call_of_oa c = \<lparr>pt_id = oc_id c, pt_name = oc_name c, pt_arguments = oc_arguments c, pt_thought = []\<rparr>"

text \<open>One turn of the loop over the stream: the text of the first choice, then a call that is complete.\<close>

definition chunk_events :: "('w, 'c, 'acc) oa_sdk \<Rightarrow> 'c \<Rightarrow> 'acc \<Rightarrow> pevent list" where
  "chunk_events sdk chunk acc =
     (case os_contents sdk chunk of [] \<Rightarrow> [] | d # _ \<Rightarrow> if d = [] then [] else [PTextDelta d])
     @ (case os_JustFinishedToolCall sdk acc of None \<Rightarrow> [] | Some c \<Rightarrow> [PToolCall (call_of_oa c)])"

fun openai_events :: "('w, 'c, 'acc) oa_sdk \<Rightarrow> 'c list \<Rightarrow> error option \<Rightarrow> 'acc \<Rightarrow> pevent list" where
  "openai_events sdk [] err acc = [case err of None \<Rightarrow> PDone | Some e \<Rightarrow> PError (Some e)]"
| "openai_events sdk (chunk # cs) err acc =
     (let acc1 = os_AddChunk sdk chunk acc in chunk_events sdk chunk acc1 @ openai_events sdk cs err acc1)"

definition openai_Stream :: "('w, 'c, 'acc) oa_sdk \<Rightarrow> string \<Rightarrow> request \<Rightarrow> ('w, pevent list) act" where
  "openai_Stream sdk model req w =
     (case os_stream sdk (buildParams model req) w of ((chunks, err), w1) \<Rightarrow>
        (Inr (openai_events sdk chunks err (os_start sdk)), w1))"

definition openai_Generate :: "('w, 'c, 'acc) oa_sdk \<Rightarrow> string \<Rightarrow> request \<Rightarrow> ('w, response) act" where
  "openai_Generate sdk model req =
     act_seq (os_complete sdk (buildParams model req)) (\<lambda>c.
     act_ret
       \<lparr>rs_content = (case co_choices c of [] \<Rightarrow> [] | ch # _ \<Rightarrow> fst ch),
        rs_tool_calls = (case co_choices c of [] \<Rightarrow> [] | ch # _ \<Rightarrow> map call_of_oa (snd ch)),
        rs_usage = \<lparr>us_input_tokens = co_prompt_tokens c, us_output_tokens = co_completion_tokens c\<rparr>\<rparr>)"

definition openai_provider :: "('w, 'c, 'acc) oa_sdk \<Rightarrow> string \<Rightarrow> 'w provider" where
  "openai_provider sdk model =
     \<lparr>pv_Model = model, pv_Stream = openai_Stream sdk model, pv_Generate = openai_Generate sdk model\<rparr>"

section \<open>Gemini\<close>

text \<open>A map of arguments is \<open>None\<close> when it is nil, which JSON shows.\<close>

record gcall =
  gk_name :: string
  gk_args :: tool_input

record gpart =
  gp_text :: string
  gp_call :: "gcall option"
  gp_response :: "(string \<times> (string \<times> json) list) option"
  gp_thought :: string

record gcontent =
  gt_role :: string
  gt_parts :: "gpart list"

record 's gconfig =
  gc_system :: "gcontent option"
  gc_max_tokens :: "32 word"
  gc_temperature :: "rat option"
  gc_tools :: "(string \<times> string \<times> 's option) list"

record gresponse =
  gr_candidates :: "gcontent option list"
  gr_usage :: "(32 word \<times> 32 word) option"

record ('w, 's) genai_sdk =
  gs_stream :: "string \<Rightarrow> gcontent list \<Rightarrow> 's gconfig \<Rightarrow> 'w \<Rightarrow> (error + gresponse option) list \<times> 'w"
  gs_generate :: "string \<Rightarrow> gcontent list \<Rightarrow> 's gconfig \<Rightarrow> ('w, gresponse option) act"
  gs_schema :: "string \<Rightarrow> error + 's"

definition gemini_Name :: string where
  "gemini_Name = ''gemini''"

definition gemini_Models :: "string list" where
  "gemini_Models =
     [''gemini-2.5-flash'', ''gemini-2.5-pro'', ''gemini-2.0-flash'', ''gemini-flash-latest'', ''gemini-pro-latest'']"

definition no_part :: gpart where
  "no_part = \<lparr>gp_text = [], gp_call = None, gp_response = None, gp_thought = []\<rparr>"

definition text_part :: "string \<Rightarrow> gpart" where
  "text_part t = no_part\<lparr>gp_text := t\<rparr>"

definition response_part :: "string \<Rightarrow> json \<Rightarrow> gpart" where
  "response_part name v = no_part\<lparr>gp_response := Some (name, [(''result'', v)])\<rparr>"

text \<open>\<open>json.Unmarshal\<close> into a map: an error is replaced by an empty map.\<close>

definition call_args :: "string \<Rightarrow> tool_input" where
  "call_args args = (case parse_input args of Inl _ \<Rightarrow> Some [] | Inr m \<Rightarrow> m)"

definition call_part :: "ptool_call \<Rightarrow> gpart" where
  "call_part tc = no_part\<lparr>gp_call := Some \<lparr>gk_name = pt_name tc, gk_args = call_args (pt_arguments tc)\<rparr>, gp_thought := pt_thought tc\<rparr>"

text \<open>A result without its call is taken apart: each member is the result of the function it names.\<close>

definition response_parts :: "pmessage \<Rightarrow> gpart list" where
  "response_parts m =
     (if pm_tool_calls m \<noteq> [] then map (\<lambda>tc. response_part (pt_name tc) (JStr (pm_content m))) (pm_tool_calls m)
      else if pm_content m \<noteq> [] then
        (case parse_input (pm_content m) of
           Inr (Some kvs) \<Rightarrow> map (\<lambda>(name, v). response_part name v) kvs
         | _ \<Rightarrow> [])
      else [])"

definition toGeminiContent :: "pmessage \<Rightarrow> gcontent list" where
  "toGeminiContent m =
     (let parts = (if pm_content m = [] then [] else [text_part (pm_content m)]) @ map call_part (pm_tool_calls m) in
      if pm_role m = ''tool'' then
        (if response_parts m = [] then [] else [\<lparr>gt_role = ''user'', gt_parts = response_parts m\<rparr>])
      else if parts = [] then []
      else [\<lparr>gt_role = (if pm_role m = ''assistant'' then ''model'' else ''user''), gt_parts = parts\<rparr>])"

definition toGeminiContents :: "pmessage list \<Rightarrow> gcontent list" where
  "toGeminiContents ms = concat (map toGeminiContent ms)"

definition toGeminiSchema :: "('w, 's) genai_sdk \<Rightarrow> json \<Rightarrow> error + 's option" where
  "toGeminiSchema sdk schema =
     (if schema = JNull then Inr None
      else case json_Marshal schema of
        Inl e \<Rightarrow> Inl e
      | Inr b \<Rightarrow> (case gs_schema sdk b of Inl e \<Rightarrow> Inl e | Inr s \<Rightarrow> Inr (Some s)))"

text \<open>
  \<open>float32(x)\<close> of a positive number: the nearest multiple of the last place of a 24-bit
  significand, ties to even. A temperature is far from the largest float.
\<close>

definition binade :: "rat \<Rightarrow> int" where
  "binade x = (case quotient_of x of (a, b) \<Rightarrow>
     let e = int (floorlog 2 (nat a)) - int (floorlog 2 (nat b)) in
     if 2 powi e \<le> x then e else e - 1)"

definition float32 :: "rat \<Rightarrow> rat" where
  "float32 x =
     (let u = 2 powi (max (binade x) (- 126) - 23);
          q = x / u; n = \<lfloor>q\<rfloor>; r = q - of_int n in
      of_int (if r > 1 / 2 \<or> (r = 1 / 2 \<and> odd n) then n + 1 else n) * u)"

fun gemini_tools :: "('w, 's) genai_sdk \<Rightarrow> ptool list \<Rightarrow> error + (string \<times> string \<times> 's option) list" where
  "gemini_tools sdk [] = Inr []"
| "gemini_tools sdk (t # ts) =
     (case toGeminiSchema sdk (ps_parameters t) of
        Inl e \<Rightarrow> Inl (wrapf (''gemini: tool '' @ quote (ps_name t) @ '' schema'') e)
      | Inr s \<Rightarrow>
          (case gemini_tools sdk ts of
             Inl e \<Rightarrow> Inl e
           | Inr gts \<Rightarrow> Inr ((ps_name t, ps_description t, s) # gts)))"

text \<open>The configuration that Stream and Generate build, each by the same statements.\<close>

definition gemini_config :: "('w, 's) genai_sdk \<Rightarrow> request \<Rightarrow> error + 's gconfig" where
  "gemini_config sdk req =
     (case gemini_tools sdk (rq_tools req) of
        Inl e \<Rightarrow> Inl e
      | Inr ts \<Rightarrow> Inr
          \<lparr>gc_system = (if rq_system req = [] then None else Some \<lparr>gt_role = [], gt_parts = [text_part (rq_system req)]\<rparr>),
           gc_max_tokens = (if rq_max_tokens req > 0 then word_of_int (rq_max_tokens req) else 0),
           gc_temperature = (if rq_temperature req > 0 then Some (float32 (rq_temperature req)) else None),
           gc_tools = ts\<rparr>)"

text \<open>A function call has no id of its own: its name stands for it.\<close>

definition gemini_call :: "gpart \<Rightarrow> gcall \<Rightarrow> ptool_call" where
  "gemini_call part c =
     \<lparr>pt_id = gk_name c, pt_name = gk_name c, pt_arguments = marshal_or_empty (input_json (gk_args c)),
      pt_thought = gp_thought part\<rparr>"

definition part_events :: "gpart \<Rightarrow> pevent list" where
  "part_events part =
     (if gp_text part \<noteq> [] then [PTextDelta (gp_text part)]
      else case gp_call part of None \<Rightarrow> [] | Some c \<Rightarrow> [PToolCall (gemini_call part c)])"

definition candidate_events :: "gcontent option \<Rightarrow> pevent list" where
  "candidate_events c = (case c of None \<Rightarrow> [] | Some content \<Rightarrow> concat (map part_events (gt_parts content)))"

fun gemini_events :: "(error + gresponse option) list \<Rightarrow> pevent list" where
  "gemini_events [] = [PDone]"
| "gemini_events (Inl e # rs) = [PError (Some e)]"
| "gemini_events (Inr None # rs) = gemini_events rs"
| "gemini_events (Inr (Some r) # rs) = concat (map candidate_events (gr_candidates r)) @ gemini_events rs"

definition gemini_Stream :: "('w, 's) genai_sdk \<Rightarrow> string \<Rightarrow> request \<Rightarrow> ('w, pevent list) act" where
  "gemini_Stream sdk model req =
     act_seq (act_lift (gemini_config sdk req)) (\<lambda>config w.
     case gs_stream sdk model (toGeminiContents (rq_messages req)) config w of (rs, w1) \<Rightarrow>
       (Inr (gemini_events rs), w1))"

fun add_parts :: "gpart list \<Rightarrow> response \<Rightarrow> response" where
  "add_parts [] r = r"
| "add_parts (p # ps) r =
     add_parts ps (r\<lparr>rs_content := rs_content r @ gp_text p,
       rs_tool_calls := rs_tool_calls r @ (case gp_call p of None \<Rightarrow> [] | Some c \<Rightarrow> [gemini_call p c])\<rparr>)"

definition nil_panic :: error where
  "nil_panic = ErrPanic ''runtime error: invalid memory address or nil pointer dereference''"

definition no_response :: response where
  "no_response = \<lparr>rs_content = [], rs_tool_calls = [], rs_usage = \<lparr>us_input_tokens = 0, us_output_tokens = 0\<rparr>\<rparr>"

text \<open>Generate reads the first candidate only, and its content without asking whether there is any.\<close>

definition read_response :: "gresponse \<Rightarrow> error + response" where
  "read_response r =
     (let usage = (case gr_usage r of None \<Rightarrow> rs_usage no_response
                   | Some (i, out) \<Rightarrow> \<lparr>us_input_tokens = sint i, us_output_tokens = sint out\<rparr>) in
      case gr_candidates r of
        [] \<Rightarrow> Inr (no_response\<lparr>rs_usage := usage\<rparr>)
      | None # _ \<Rightarrow> Inl nil_panic
      | Some content # _ \<Rightarrow> Inr ((add_parts (gt_parts content) no_response)\<lparr>rs_usage := usage\<rparr>))"

definition gemini_Generate :: "('w, 's) genai_sdk \<Rightarrow> string \<Rightarrow> request \<Rightarrow> ('w, response) act" where
  "gemini_Generate sdk model req =
     act_seq (act_lift (gemini_config sdk req)) (\<lambda>config.
     act_seq (gs_generate sdk model (toGeminiContents (rq_messages req)) config) (\<lambda>res.
     case res of None \<Rightarrow> act_ret no_response | Some r \<Rightarrow> act_lift (read_response r)))"

definition gemini_provider :: "('w, 's) genai_sdk \<Rightarrow> string \<Rightarrow> 'w provider" where
  "gemini_provider sdk model =
     \<lparr>pv_Model = model, pv_Stream = gemini_Stream sdk model, pv_Generate = gemini_Generate sdk model\<rparr>"

end
