(* ===== verification/Provider_Requests.thy ===== *)
theory Provider_Requests
  imports Providers Run_Props
begin

text \<open>
  What a run asks its provider: the history it starts from, followed by the batches of the run, each
  with the results of its calls. Whether a list of messages is one that the chat completions API
  takes is \<open>oa_ok\<close>.
\<close>

section \<open>Requests\<close>

fun asked_ok :: "(request \<Rightarrow> bool) \<Rightarrow> action \<Rightarrow> bool" where
  "asked_ok W (Asked req) = W req"
| "asked_ok W _ = True"

interpretation request_events: event_log a "list_all (asked_ok W)" "list_all (asked_ok W)" for a W
  by unfold_locales auto

abbreviation requests :: "(request \<Rightarrow> bool) \<Rightarrow> ('a \<Rightarrow> bool) \<Rightarrow> ('w, 'a) proc \<Rightarrow> bool" where
  "requests W V \<equiv> yields V (list_all (asked_ok W)) (list_all (asked_ok W))"

definition answers :: "ptool_call \<Rightarrow> pmessage \<Rightarrow> bool" where
  "answers tc m \<longleftrightarrow> (\<exists>result. m = tool_message (pt_id tc) (pt_name tc) result)"

text \<open>The batches of a run: a message with calls and, right after it, a result for each.\<close>

inductive batches :: "pmessage list \<Rightarrow> bool" where
  none: "batches []"
| batch: "batches ms \<Longrightarrow> calls \<noteq> [] \<Longrightarrow> list_all2 answers calls results \<Longrightarrow>
    batches (ms @ \<lparr>pm_role = ''assistant'', pm_content = c, pm_tool_calls = calls\<rparr> # results)"

lemma outcome_requests: "requests W (\<lambda>_. True) (call_outcome reg tc)"
  unfolding call_outcome_def start_tool_def
  by (auto simp: request_events.basic split: option.split sum.split
      intro!: request_events.piece [where V = "\<lambda>_. True"] request_events.tried)

lemma calls_requests:
  "requests W (\<lambda>x. \<exists>rs. list_all2 answers tcs rs \<and> snd x = msgs @ rs) (execute_calls a reg idx i tcs sess msgs)"
proof (induction tcs arbitrary: i sess msgs)
  case (Cons tc tcs)
  have rest: "requests W (\<lambda>x. \<exists>rs. list_all2 answers (tc # tcs) rs \<and> snd x = msgs @ rs)
      (execute_calls a reg idx (Suc i) tcs s (msgs @ [tool_message (pt_id tc) (pt_name tc) r]))" for s r
  proof (rule yields_weaken [OF Cons.IH], elim exE conjE)
    fix x rs
    assume "list_all2 answers tcs rs" "snd x = (msgs @ [tool_message (pt_id tc) (pt_name tc) r]) @ rs"
    then show "\<exists>rs. list_all2 answers (tc # tcs) rs \<and> snd x = msgs @ rs"
      by (intro exI [of _ "tool_message (pt_id tc) (pt_name tc) r # rs"]) (auto simp: answers_def)
  qed
  show ?case
    unfolding execute_calls.simps
    by (rule request_events.piece [OF outcome_requests])
      (auto simp: request_events.basic rest intro!: request_events.piece [OF request_events.save_any] request_events.piece [where V = "\<lambda>_. True"])
qed (simp add: request_events.basic)

lemma raise_requests: "requests W V (raise_interrupts a thread run idx calls ins sess)"
  unfolding raise_interrupts_def
  by (auto simp: request_events.basic intro!: request_events.piece [OF request_events.save_any])

lemma batch_requests:
  "requests W (\<lambda>x. \<exists>rs. list_all2 answers (an_calls an) rs \<and>
      snd x = msgs @ \<lparr>pm_role = ''assistant'', pm_content = an_content an, pm_tool_calls = an_calls an\<rparr> # rs)
    (tool_batch h a reg thread run an sess msgs)"
proof -
  have c: "requests W (\<lambda>x. \<exists>rs. list_all2 answers (an_calls an) rs \<and>
      snd x = msgs @ \<lparr>pm_role = ''assistant'', pm_content = an_content an, pm_tool_calls = an_calls an\<rparr> # rs)
    (execute_calls a reg idx i (an_calls an) s
      (msgs @ [\<lparr>pm_role = ''assistant'', pm_content = an_content an, pm_tool_calls = an_calls an\<rparr>]))" for idx i s
    by (rule yields_weaken [OF calls_requests]) simp
  show ?thesis
    unfolding tool_batch_def Let_def case_prod_unfold
    by (rule request_events.piece [OF request_events.new_message], rule request_events.piece [OF request_events.save_any],
        rule request_events.piece [OF request_events.args], rule request_events.piece [where V = "\<lambda>_. True"])
      (simp_all add: request_events.basic raise_requests c)
qed

lemma asked_set: "list_all (asked_ok W) l \<Longrightarrow> Asked req \<in> set l \<Longrightarrow> W req"
  by (induction l) auto

lemma ask_requests: "ag_Provider a = Some p \<Longrightarrow> W req \<Longrightarrow> requests W (\<lambda>_. True) (ask h a p req)"
  unfolding ask_def
  by (rule request_events.piece [where V = "\<lambda>_. True"]) (simp_all add: request_events.basic request_events.received)

section \<open>The loop\<close>

text \<open>A request that starts from a history in \<open>H\<close> and has batches of the run after it.\<close>

definition continues :: "(pmessage list \<Rightarrow> bool) \<Rightarrow> request \<Rightarrow> bool" where
  "continues H req \<longleftrightarrow> (\<exists>base suf. H base \<and> batches suf \<and> rq_messages req = base @ suf)"

lemma iteration_requests:
  assumes "ag_Provider a = Some p" "H base" "batches suf"
  shows "requests (continues H) (\<lambda>x. \<forall>s ms. x = Some (s, ms) \<longrightarrow> (\<exists>suf. batches suf \<and> ms = base @ suf))
    (iteration h mk a p thread run sess (base @ suf))"
proof -
  have q: "continues H \<lparr>rq_model = m, rq_messages = base @ suf, rq_tools = ts, rq_system = sys, rq_max_tokens = 0, rq_temperature = 0\<rparr>" for m ts sys
    using assms(2,3) by (auto simp: continues_def)
  have b: "batches (suf @ \<lparr>pm_role = ''assistant'', pm_content = c, pm_tool_calls = calls\<rparr> # rs)"
    if "calls \<noteq> []" "list_all2 answers calls rs" for c calls rs
    by (rule batches.batch [OF assms(3) that])
  show ?thesis
    unfolding iteration_def case_prod_unfold
  proof (rule request_events.piece [OF request_events.stop_on_ctx], rule request_events.piece [OF request_events.registry],
      rule request_events.piece [OF ask_requests [where W = "continues H", OF assms(1) q]])
    fix x :: "'a registry \<times> string" and an
    show "requests (continues H) (\<lambda>x. \<forall>s ms. x = Some (s, ms) \<longrightarrow> (\<exists>suf. batches suf \<and> ms = base @ suf))
      (if an_calls an = [] then pseq (save_answer h a an sess) (\<lambda>_. pret None)
       else pseq (tool_batch h a (fst x) thread run an sess (base @ suf)) (\<lambda>x. pret (Some x)))"
      by (auto simp: request_events.basic intro!: request_events.piece [OF request_events.save_answer]
          request_events.piece [OF batch_requests] yields_basic(1) [OF _ request_events.closed] b)
  qed
qed

lemma loop_requests:
  assumes "ag_Provider a = Some p" "H base"
  shows "batches suf \<Longrightarrow>
    requests (continues H) (\<lambda>_. True) (continueAgenticLoop h mk a p n thread run sess (base @ suf))"
proof (induction n arbitrary: sess suf)
  case (Suc n)
  show ?case
    unfolding continueAgenticLoop.simps
    by (rule request_events.piece [OF iteration_requests [where H = H, OF assms Suc.prems]])
      (auto simp: request_events.basic Suc.IH split: option.split)
qed (simp add: request_events.basic)

text \<open>
  The messages a run on a session starts from: those of the session the store has, the user's, and
  what compaction made of them.
\<close>

lemma run_requests:
  fixes a :: "'w agent"
  assumes k: "content_kept a" and st: "ag_Store a = Some st"
    and loaded: "\<And>s w'. st_GetSession st sid (r_world r) = (Inr (Some s), w') \<Longrightarrow> H (sess_messages s)"
    and added: "\<And>ms i now. H ms \<Longrightarrow>
      K (ms @ [\<lparr>msg_id = i, msg_role = ''user'', msg_content = input, msg_tool_calls = [], msg_created_at = now\<rparr>])"
    and compacted: "\<And>p ms ms' w w'. K ms \<Longrightarrow> shouldCompact ms (ag_compaction a) \<Longrightarrow>
      compact h p ms (ag_compaction a) w = (Inr ms', w') \<Longrightarrow> K ms'"
    and runs: "RunWithSession h mk a sid input enc r = (x, t)"
  shows "\<exists>l. r_log t = r_log r @ l \<and> (\<forall>req. Asked req \<in> set l \<longrightarrow>
    (\<exists>ms suf. K ms \<and> batches suf \<and> rq_messages req = metadataToProviderMessages ms @ suf))"
proof -
  let ?W = "continues (\<lambda>base. \<exists>ms. K ms \<and> base = metadataToProviderMessages ms)"
  have load: "r_log r1 = r_log r \<and> (\<forall>p s. res = Some (Inr (p, s)) \<longrightarrow> ag_Provider a = Some p \<and> H (sess_messages s)) \<or>
      (\<exists>m. res = None \<and> r_log r1 = r_log r @ [Crashed m])"
    if "load_session a sid enc r = (res, r1)" for res r1
    using that loaded
    by (auto simp: load_session_def refuse_def st proc_defs split: option.splits sum.splits if_splits prod.splits)
  have user: "requests ?W (\<lambda>m. \<exists>i now. m = \<lparr>msg_id = i, msg_role = ''user'', msg_content = input, msg_tool_calls = [], msg_created_at = now\<rparr>)
      (new_message h ''user'' input [])"
    unfolding new_message_def by (intro request_events.piece [where V = "\<lambda>_. True"]) (simp_all add: request_events.basic)
  have save: "requests ?W (\<lambda>x. \<forall>s1. x = Inr s1 \<longrightarrow> K (sess_messages s1)) (save_or_refuse a what s)" if "K (sess_messages s)" for what s
  proof -
    have t: "requests ?W (\<lambda>x. \<forall>y. x = Inr y \<longrightarrow> sess_messages (fst y) = sess_messages s) (attempt (persistSession a s))"
      by (rule yields_attempt) (auto simp: request_events.basic dest: content_kept_messages [OF k])
    show ?thesis
      unfolding save_or_refuse_def
    proof (rule request_events.piece [OF t])
      fix x :: "error + session \<times> bool"
      assume m: "\<forall>y. x = Inr y \<longrightarrow> sess_messages (fst y) = sess_messages s"
      show "requests ?W (\<lambda>x. \<forall>s1. x = Inr s1 \<longrightarrow> K (sess_messages s1))
        (case x of Inl e \<Rightarrow> pret (Inl (wrapf what e)) | Inr (x, _) \<Rightarrow> pseq (log_acts [Saved x]) (\<lambda>_. pret (Inr x)))"
      proof (cases x)
        case (Inr y)
        then have "K (sess_messages (fst y))" using m that by simp
        then show ?thesis
          unfolding Inr sum.case case_prod_unfold
          by (intro request_events.piece [where V = "\<lambda>_. True"]) (simp_all add: request_events.basic)
      qed (simp add: request_events.basic)
    qed
  qed
  have comp: "requests ?W (\<lambda>x. \<forall>s1. x = Inr s1 \<longrightarrow> K (sess_messages s1)) (compact_session h a p s)" if "K (sess_messages s)" for p s
  proof (cases "shouldCompact (sess_messages s) (ag_compaction a)")
    case True
    have t: "requests ?W (\<lambda>x. \<forall>ms. x = Inr ms \<longrightarrow> K ms) (attempt (compact h p (sess_messages s) (ag_compaction a)))"
      by (rule yields_attempt) (auto simp: request_events.basic dest: compacted [OF that True])
    show ?thesis
      using True unfolding compact_session_def
      by (auto simp: request_events.basic that split: sum.split
        intro!: request_events.piece [OF t] save request_events.piece [where V = "\<lambda>_. True"])
  qed (simp add: compact_session_def request_events.basic that)
  have run: "requests ?W (\<lambda>_. True) (session_run h mk a p s)" if "ag_Provider a = Some p" "K (sess_messages s)" for p s
  proof -
    have "requests ?W (\<lambda>_. True) (continueAgenticLoop h mk a p n t run s (metadataToProviderMessages (sess_messages s) @ []))" for n t run
      by (rule loop_requests [OF that(1) _ batches.none]) (use that(2) in blast)
    then show ?thesis
      unfolding session_run_def
      by (intro request_events.piece [where V = "\<lambda>_. True"]) (simp_all add: request_events.basic)
  qed
  let ?last = "\<lambda>p. \<lambda>res. case res of Inl e \<Rightarrow> pret (Inl e) | Inr s \<Rightarrow> pseq (session_run h mk a p s) (\<lambda>_. pret (Inr ()))"
  have last: "requests ?W (\<lambda>_. True) (?last p res)"
    if "ag_Provider a = Some p" "\<forall>s. res = Inr s \<longrightarrow> K (sess_messages s)" for p res
    using that by (cases res) (simp_all add: request_events.basic request_events.piece [OF run])
  let ?mid = "\<lambda>p. \<lambda>res. case res of Inl e \<Rightarrow> pret (Inl e) | Inr s \<Rightarrow> pseq (compact_session h a p s) (?last p)"
  have mid: "requests ?W (\<lambda>_. True) (?mid p res)"
    if "ag_Provider a = Some p" "\<forall>s. res = Inr s \<longrightarrow> K (sess_messages s)" for p res
    using that by (cases res) (simp_all add: request_events.basic request_events.piece [OF comp last])
  have "requests ?W (\<lambda>_. True) (pseq (new_message h ''user'' input []) (\<lambda>m.
      pseq (save_or_refuse a ''agent: persist user message'' (add_message m s)) (?mid p)))"
    if "ag_Provider a = Some p" "H (sess_messages s)" for p s
  proof (rule request_events.piece [OF user], elim exE)
    fix m i now
    assume "m = \<lparr>msg_id = i, msg_role = ''user'', msg_content = input, msg_tool_calls = [], msg_created_at = now\<rparr>"
    then have "K (sess_messages (add_message m s))" using added [OF that(2)] by (simp add: add_message_def)
    from request_events.piece [OF save [OF this] mid [OF that(1)]]
    show "requests ?W (\<lambda>_. True) (pseq (save_or_refuse a ''agent: persist user message'' (add_message m s)) (?mid p))" .
  qed
  then have first: "requests ?W (\<lambda>_. True) (case res of Inl e \<Rightarrow> pret (Inl e) | Inr x \<Rightarrow>
      pseq (new_message h ''user'' input []) (\<lambda>m.
      pseq (save_or_refuse a ''agent: persist user message'' (add_message m (snd x))) (?mid (fst x))))"
    if "\<forall>p s. res = Inr (p, s) \<longrightarrow> ag_Provider a = Some p \<and> H (sess_messages s)" for res
    using that by (cases res) (auto simp: request_events.basic)
  show ?thesis
    using runs unfolding RunWithSession_def pseq_ok_def case_prod_unfold
  proof (cases rule: pseq_cases)
    case stop
    then show ?thesis using load by fastforce
  next
    case (go res r1)
    have l: "r_log r1 = r_log r" "\<forall>p s. res = Inr (p, s) \<longrightarrow> ag_Provider a = Some p \<and> H (sess_messages s)"
      using load [OF go(1)] by auto
    obtain l' where l': "r_log t = r_log r1 @ l'" "list_all (asked_ok ?W) l'"
      using yieldsD [OF first [OF l(2)] go(2)] by (auto split: option.splits)
    have "\<exists>ms suf. K ms \<and> batches suf \<and> rq_messages req = metadataToProviderMessages ms @ suf" if "Asked req \<in> set l'" for req
      using asked_set [OF l'(2) that] by (auto simp: continues_def)
    then show ?thesis using l'(1) l(1) by simp
  qed
qed

end
