(* ===== verification/Provider_Spec.thy ===== *)
theory Provider_Spec
  imports Provider_Requests Resume_Spec
begin

text \<open>
  What the two providers make of a run's requests and of the answers to them: the shape of the
  message list that the chat completions API takes, how a stream ends, the agreement of streaming
  with generating, and what follows from using a function's name as the id of a call.
\<close>

section \<open>The messages of a request\<close>

lemma asked_in_run:
  fixes a :: "'w agent"
  assumes "content_kept a" "ag_Store a = Some st"
    and "\<And>s w1. st_GetSession st sid w = (Inr (Some s), w1) \<Longrightarrow> H (sess_messages s)"
    and "\<And>ms i now. H ms \<Longrightarrow>
      K (ms @ [\<lparr>msg_id = i, msg_role = ''user'', msg_content = input, msg_tool_calls = [], msg_created_at = now\<rparr>])"
    and "\<And>p ms ms' v v'. K ms \<Longrightarrow> shouldCompact ms (ag_compaction a) \<Longrightarrow>
      compact h p ms (ag_compaction a) v = (Inr ms', v') \<Longrightarrow> K ms'"
    and "Asked req \<in> set (log_of (RunWithSession h mk a sid input enc) w)"
  shows "\<exists>ms suf. K ms \<and> batches suf \<and> rq_messages req = metadataToProviderMessages ms @ suf"
proof -
  obtain x t where x: "RunWithSession h mk a sid input enc \<lparr>r_world = w, r_log = []\<rparr> = (x, t)" by force
  have "\<exists>l. r_log t = r_log \<lparr>r_world = w, r_log = []\<rparr> @ l \<and> (\<forall>req. Asked req \<in> set l \<longrightarrow>
      (\<exists>ms suf. K ms \<and> batches suf \<and> rq_messages req = metadataToProviderMessages ms @ suf))"
    by (rule run_requests [where H = H and K = K, OF assms(1,2) _ assms(4,5) x]) (simp_all add: assms(3))
  then show ?thesis using assms(6) unfolding log_of_def x by simp
qed

section \<open>The shape of an OpenAI request\<close>

text \<open>Each message with calls is followed by one result for each call, in order, and nowhere else is a result.\<close>

fun oa_answers :: "oa_call \<Rightarrow> oa_message \<Rightarrow> bool" where
  "oa_answers c (OaTool _ i) \<longleftrightarrow> i = oc_id c"
| "oa_answers c _ \<longleftrightarrow> False"

fun oa_ok :: "oa_message list \<Rightarrow> bool" where
  "oa_ok [] \<longleftrightarrow> True"
| "oa_ok (OaAssistant _ calls # ms) \<longleftrightarrow> list_all2 oa_answers calls (take (length calls) ms) \<and> oa_ok (drop (length calls) ms)"
| "oa_ok (OaTool _ _ # ms) \<longleftrightarrow> False"
| "oa_ok (OaSystem _ # ms) \<longleftrightarrow> oa_ok ms"
| "oa_ok (OaUser _ # ms) \<longleftrightarrow> oa_ok ms"

abbreviation oa_list :: "pmessage list \<Rightarrow> oa_message list" where
  "oa_list ms \<equiv> concat (map toOpenAIMessages ms)"

lemma oa_ok_append: "oa_ok xs \<Longrightarrow> oa_ok ys \<Longrightarrow> oa_ok (xs @ ys)"
proof (induction xs rule: oa_ok.induct)
  case (2 c calls ms)
  then have "length calls \<le> length ms" by (auto dest!: list_all2_lengthD)
  then show ?case using 2 by simp
qed auto

lemma results_list:
  "list_all2 answers calls rs \<Longrightarrow>
    list_all2 oa_answers (map oa_call_of calls) (oa_list rs) \<and> length (oa_list rs) = length calls"
  by (induction rule: list_all2_induct) (auto simp: answers_def tool_message_def toOpenAIMessages_def oa_call_of_def)

lemma assistant_message:
  "toOpenAIMessages \<lparr>pm_role = ''assistant'', pm_content = c, pm_tool_calls = calls\<rparr> =
    [OaAssistant (if c = [] then None else Some c) (map oa_call_of calls)]"
  by (simp add: toOpenAIMessages_def)

lemma batches_ok: "batches ms \<Longrightarrow> oa_ok (oa_list ms)"
proof (induction rule: batches.induct)
  case (batch ms calls rs c)
  then have "oa_ok (OaAssistant (if c = [] then None else Some c) (map oa_call_of calls) # oa_list rs)"
    using results_list [of calls rs] by simp
  then show ?case using oa_ok_append [OF batch.IH] by (simp add: assistant_message)
qed simp

lemma plain_ok: "\<forall>m \<in> set ms. pm_tool_calls m = [] \<and> pm_role m \<noteq> ''tool'' \<Longrightarrow> oa_ok (oa_list ms)"
  by (induction ms) (auto simp: toOpenAIMessages_def)

lemma system_ok [simp]: "oa_ok (op_messages (buildParams m req)) \<longleftrightarrow> oa_ok (oa_list (rq_messages req))"
  by (simp add: buildParams_def)

text \<open>The history that is left of text only: no calls, and results nowhere.\<close>

definition text_only :: "message list \<Rightarrow> bool" where
  "text_only ms \<longleftrightarrow> (\<forall>m \<in> set ms. msg_tool_calls m = [] \<and> msg_role m \<noteq> ''tool'')"

text \<open>
  C27: Within a run OpenAI gets its calls answered. When the stored session is text only, every
  request of a run has the shape the chat completions API asks for: right after each message with
  tool calls one result for each of its calls, in their order and under their ids, and no result
  anywhere else; whatever the tools, the store and the provider do.
\<close>

theorem openai_requests_answered:
  assumes "content_kept a" "ag_Store a = Some st" "cc_summary_role (ag_compaction a) \<noteq> ''tool''"
    and "st_GetSession st sid w = (Inr (Some s), w1)" "text_only (sess_messages s)"
    and "Asked req \<in> set (log_of (RunWithSession h mk a sid input enc) w)"
  shows "oa_ok (op_messages (buildParams model req))"
proof -
  have q: "\<exists>ms suf. text_only ms \<and> batches suf \<and> rq_messages req = metadataToProviderMessages ms @ suf"
  proof (rule asked_in_run [OF assms(1,2) _ _ _ assms(6), where H = text_only])
    fix p ms ms' v v'
    assume ms: "text_only ms" "shouldCompact ms (ag_compaction a)" "compact h p ms (ag_compaction a) v = (Inr ms', v')"
    show "text_only ms'"
      using ms assms(3) unfolding text_only_def
      by (auto simp: compact_def act_seq_def act_fail_def act_ret_def Let_def dest!: in_set_dropD split: prod.splits sum.splits if_splits)
  qed (use assms(4,5) in \<open>auto simp: text_only_def\<close>)
  then obtain ms suf where m: "text_only ms" "batches suf" "rq_messages req = metadataToProviderMessages ms @ suf" by blast
  have "oa_ok (oa_list (metadataToProviderMessages ms))"
    using m(1) by (intro plain_ok) (auto simp: text_only_def metadataToProviderMessages_def)
  then show ?thesis using oa_ok_append batches_ok [OF m(2)] by (simp add: m(3))
qed

lemma unanswered:
  assumes "\<exists>c calls. OaAssistant c calls \<in> set xs \<and> calls \<noteq> []" "\<forall>r i. OaTool r i \<notin> set xs"
    and "ys = [] \<or> (\<exists>c calls. hd ys = OaAssistant c calls)"
  shows "\<not> oa_ok (xs @ ys)"
  using assms(1,2)
proof (induction xs)
  case (Cons x xs)
  have h: "\<not> list_all2 oa_answers (c # calls) (take (length (c # calls)) (xs @ ys))" for c calls
  proof (cases "xs @ ys")
    case (Cons y zs)
    then have "\<forall>r i. y \<noteq> OaTool r i" using Cons.prems(2) assms(3) by (cases xs) auto
    then show ?thesis using Cons by (cases y) auto
  qed simp
  show ?case
  proof (cases x)
    case (OaAssistant c calls)
    show ?thesis
    proof (cases calls)
      case Nil
      then show ?thesis using Cons OaAssistant by auto
    qed (use OaAssistant h in simp)
  qed (use Cons in auto)
qed simp

lemma batches_hd: "batches ms \<Longrightarrow> ms = [] \<or> (\<exists>c calls. hd ms = \<lparr>pm_role = ''assistant'', pm_content = c, pm_tool_calls = calls\<rparr>)"
  by (induction rule: batches.induct) (auto simp: hd_append)

text \<open>A history with a batch of calls, as every run with tools leaves it: results are in the records, not in messages.\<close>

definition has_batch :: "message list \<Rightarrow> bool" where
  "has_batch ms \<longleftrightarrow> (\<exists>m \<in> set ms. msg_role m = ''assistant'' \<and> msg_tool_calls m \<noteq> []) \<and> (\<forall>m \<in> set ms. msg_role m \<noteq> ''tool'')"

text \<open>
  The next run on such a session does not. Tool results are stored in the records of their
  calls, and the conversion of the history drops them: once a session holds a message with tool
  calls (every run that called a tool leaves one), every request of every later run, until
  compaction takes it away, has calls that no result follows, which the chat completions API refuses.
\<close>

theorem openai_later_runs_unanswered:
  assumes "content_kept a" "ag_Store a = Some st"
    and "st_GetSession st sid w = (Inr (Some s), w1)" "has_batch (sess_messages s)"
    and "int (length (sess_messages s)) < cc_max_messages (ag_compaction a)"
    and "Asked req \<in> set (log_of (RunWithSession h mk a sid input enc) w)"
  shows "\<not> oa_ok (op_messages (buildParams model req))"
proof -
  let ?c = "ag_compaction a"
  have "\<exists>ms suf. (has_batch ms \<and> int (length ms) \<le> cc_max_messages ?c) \<and> batches suf \<and> rq_messages req = metadataToProviderMessages ms @ suf"
    by (rule asked_in_run [OF assms(1,2) _ _ _ assms(6), where H = "\<lambda>ms. has_batch ms \<and> int (length ms) < cc_max_messages ?c"])
      (use assms(3,4,5) in \<open>auto simp: has_batch_def shouldCompact_def\<close>)
  then obtain ms suf where m: "has_batch ms" "batches suf" "rq_messages req = metadataToProviderMessages ms @ suf" by blast
  have "\<not> oa_ok (oa_list (metadataToProviderMessages ms) @ oa_list suf)"
  proof (rule unanswered)
    have "\<exists>pm \<in> set (metadataToProviderMessages ms). pm_role pm = ''assistant'' \<and> pm_tool_calls pm \<noteq> []"
      using m(1) by (force simp: has_batch_def metadataToProviderMessages_def)
    then obtain pm where pm: "pm \<in> set (metadataToProviderMessages ms)" "pm_role pm = ''assistant''" "pm_tool_calls pm \<noteq> []" by blast
    then have "toOpenAIMessages pm = [OaAssistant (if pm_content pm = [] then None else Some (pm_content pm)) (map oa_call_of (pm_tool_calls pm))]"
      by (simp add: toOpenAIMessages_def)
    then show "\<exists>c calls. OaAssistant c calls \<in> set (oa_list (metadataToProviderMessages ms)) \<and> calls \<noteq> []"
      using pm(1,3) by force
    show "\<forall>r i. OaTool r i \<notin> set (oa_list (metadataToProviderMessages ms))"
      using m(1) by (auto simp: has_batch_def metadataToProviderMessages_def toOpenAIMessages_def split: if_splits)
    show "oa_list suf = [] \<or> (\<exists>c calls. hd (oa_list suf) = OaAssistant c calls)"
      using batches_hd [OF m(2)] by (cases suf) (auto simp: assistant_message)
  qed
  then show ?thesis by (simp add: m(3))
qed

section \<open>A small provider\<close>

text \<open>Every answer of it is one call; a chunk is the call it completes.\<close>

definition w_sdk :: "(session, oa_call, oa_call option) oa_sdk" where
  "w_sdk = \<lparr>os_stream = (\<lambda>_ w. (([oa_call_of demo_call], None), w)), os_complete = (\<lambda>_. demo_fail),
     os_contents = (\<lambda>_. []), os_start = None, os_AddChunk = (\<lambda>c _. Some c), os_JustFinishedToolCall = (\<lambda>acc. acc)\<rparr>"

definition w_openai_agent :: "session agent" where
  "w_openai_agent = (bare_agent ''a'')\<lparr>ag_Provider := Some (openai_provider w_sdk ''gpt-4o''),
     ag_Store := Some (demo_store False), ag_maxIterations := 2\<rparr>"

lemma w_kept: "content_kept w_openai_agent"
  by (auto simp: content_kept_def persistSession_def w_openai_agent_def demo_store_def bare_agent_def Let_def)

lemma w_agent:
  "ag_Store w_openai_agent = Some (demo_store False)" "ag_compaction w_openai_agent = DefaultCompactionConfig"
  "ag_Provider w_openai_agent = Some (openai_provider w_sdk ''gpt-4o'')" "max_iterations w_openai_agent = Suc (Suc 0)"
  by (simp_all add: w_openai_agent_def bare_agent_def max_iterations_def)

lemma w_stream: "pv_Stream (openai_provider w_sdk m) req w = (Inr [PToolCall demo_call, PDone], w)"
  by (simp add: openai_provider_def openai_Stream_def w_sdk_def Let_def chunk_events_def call_of_oa_def oa_call_of_def demo_call_def)

lemma w_model: "pv_Model (openai_provider sdk m) = m"
  by (simp add: openai_provider_def)

lemma w_iteration:
  "\<exists>s result r' l. iteration demo_host demo_mk w_openai_agent (openai_provider w_sdk m) thread run sess msgs r =
      (Some (Some (s, msgs @ [\<lparr>pm_role = ''assistant'', pm_content = [], pm_tool_calls = [demo_call]\<rparr>, tool_message ''c1'' ''del'' result])), r') \<and>
     r_log r' = r_log r @ l \<and> (\<exists>req. Asked req \<in> set l \<and> rq_messages req = msgs)"
  by (simp add: iteration_def stop_on_ctx_def registry_or_static_def buildMergedRegistry_def skill_part_def
      persisted_part_def mcp_part_def ask_def receive_def tool_batch_def save_or_stop_def emit_hooked_def persistSession_def
      new_message_def proc_defs act_seq_def act_ret_def act_wrap_def act_handle_def act_lift_def w_stream w_model w_openai_agent_def demo_host_def demo_store_def bare_agent_def
      generateID_def unix_milli_def NewRegistry_def Register_all_def All_tools_def add_message_def map_message_def no_answer_def
      gate_def Get_tool_def register_persisted_def call_outcome_def demo_call_def Let_def) (rule exI, rule refl)

lemma w_loop:
  "\<exists>req. Asked req \<in> set (r_log (snd (continueAgenticLoop demo_host demo_mk w_openai_agent (openai_provider w_sdk m)
       (Suc (Suc 0)) thread run sess msgs r))) \<and> map pm_role (rq_messages req) = map pm_role msgs @ [''assistant'', ''tool'']"
proof -
  let ?it = "iteration demo_host demo_mk w_openai_agent (openai_provider w_sdk m) thread run"
  obtain s1 res1 r1 where i: "?it sess msgs r = (Some (Some (s1, msgs @ [\<lparr>pm_role = ''assistant'', pm_content = [], pm_tool_calls = [demo_call]\<rparr>, tool_message ''c1'' ''del'' res1])), r1)"
    using w_iteration [of m thread run sess msgs r] by blast
  let ?ms = "msgs @ [\<lparr>pm_role = ''assistant'', pm_content = [], pm_tool_calls = [demo_call]\<rparr>, tool_message ''c1'' ''del'' res1]"
  obtain s2 ms2 r2 l req where j: "?it s1 ?ms r1 = (Some (Some (s2, ms2)), r2)" "r_log r2 = r_log r1 @ l" "Asked req \<in> set l" "rq_messages req = ?ms"
    using w_iteration [of m thread run s1 ?ms r1] by blast
  have "continueAgenticLoop demo_host demo_mk w_openai_agent (openai_provider w_sdk m) (Suc (Suc 0)) thread run sess msgs r =
      emit (RunFinished thread run OutcomeSuccess [] None) r2"
    by (simp add: pseq_def i j(1))
  then show ?thesis using j(2-4) by (intro exI [of _ req]) (simp add: proc_defs tool_message_def)
qed

text \<open>Both requests of a run; the second has the batch of the first answer.\<close>

lemma w_run:
  assumes "length (sess_messages sess) < 20"
  shows "\<exists>req. Asked req \<in> set (log_of (RunWithSession demo_host demo_mk w_openai_agent ''s'' ''hi'' (Some ''agui'')) sess) \<and>
    map pm_role (rq_messages req) = map msg_role (sess_messages sess) @ [''user'', ''assistant'', ''tool'']"
proof -
  let ?m = "\<lparr>msg_id = hex_of (replicate 16 (CHR 0x00)), msg_role = ''user'', msg_content = ''hi'', msg_tool_calls = [], msg_created_at = 5\<rparr>"
  have last: "snd (case p of (None, r1) \<Rightarrow> (None, r1) | (Some _, r1) \<Rightarrow> pret y r1) = snd p" for p :: "unit option \<times> session run" and y :: "error + unit"
    by (cases p) (simp add: pret_def split: option.split)
  have "\<exists>s1 r1 thread run. log_of (RunWithSession demo_host demo_mk w_openai_agent ''s'' ''hi'' (Some ''agui'')) sess =
    r_log (snd (continueAgenticLoop demo_host demo_mk w_openai_agent (openai_provider w_sdk ''gpt-4o'') (Suc (Suc 0))
      thread run s1 (metadataToProviderMessages (sess_messages sess @ [?m])) r1))"
    using assms
    by (simp add: log_of_def RunWithSession_def load_session_def refuse_def pseq_ok_def new_message_def w_agent
      save_or_refuse_def compact_session_def shouldCompact_def session_run_def persistSession_def demo_host_def demo_store_def
      pseq_def log_acts_def emit_def draw_def attempt_def DefaultCompactionConfig_def generateID_def unix_milli_def add_message_def Let_def
      pret_def last del: continueAgenticLoop.simps) (intro exI, rule refl)
  then show ?thesis using w_loop by (fastforce simp: metadataToProviderMessages_def comp_def)
qed

theorem openai_requests_answered_witness:
  "\<exists>req. Asked req \<in> set (log_of (RunWithSession demo_host demo_mk w_openai_agent ''s'' ''hi'' (Some ''agui'')) demo_session) \<and>
     map pm_role (rq_messages req) = [''user'', ''assistant'', ''tool''] \<and> oa_ok (op_messages (buildParams ''gpt-4o'' req))"
proof -
  have g: "st_GetSession (demo_store False) ''s'' demo_session = (Inr (Some demo_session), demo_session)" by (simp add: demo_store_def)
  have t: "text_only (sess_messages demo_session)" "sess_messages demo_session = []" by (simp_all add: demo_session_def text_only_def)
  have r: "cc_summary_role (ag_compaction w_openai_agent) \<noteq> ''tool''" by (simp add: w_agent DefaultCompactionConfig_def)
  obtain req where req: "Asked req \<in> set (log_of (RunWithSession demo_host demo_mk w_openai_agent ''s'' ''hi'' (Some ''agui'')) demo_session)"
    "map pm_role (rq_messages req) = [''user'', ''assistant'', ''tool'']"
    using w_run [of demo_session] unfolding t(2) by auto
  show ?thesis
    by (intro exI [of _ req] conjI req openai_requests_answered [OF w_kept w_agent(1) r g t(1) req(1)])
qed

definition w_later :: session where
  "w_later = demo_session\<lparr>sess_messages := [\<lparr>msg_id = ''m1'', msg_role = ''assistant'', msg_content = [],
     msg_tool_calls = [\<lparr>tc_id = ''c1'', tc_name = ''del'', tc_arguments = ''{}'', tc_result = ''null'', tc_status = ''completed''\<rparr>],
     msg_created_at = 1\<rparr>]\<rparr>"

theorem openai_later_runs_unanswered_witness:
  "\<exists>req. Asked req \<in> set (log_of (RunWithSession demo_host demo_mk w_openai_agent ''s'' ''hi'' (Some ''agui'')) w_later) \<and>
     \<not> oa_ok (op_messages (buildParams ''gpt-4o'' req))"
proof -
  have g: "st_GetSession (demo_store False) ''s'' w_later = (Inr (Some w_later), w_later)" by (simp add: demo_store_def)
  have t: "has_batch (sess_messages w_later)" "int (length (sess_messages w_later)) < cc_max_messages (ag_compaction w_openai_agent)"
    "length (sess_messages w_later) < 20"
    by (simp_all add: w_later_def has_batch_def w_agent DefaultCompactionConfig_def)
  obtain req where req: "Asked req \<in> set (log_of (RunWithSession demo_host demo_mk w_openai_agent ''s'' ''hi'' (Some ''agui'')) w_later)"
    using w_run [OF t(3)] by blast
  show ?thesis
    by (intro exI [of _ req] conjI req openai_later_runs_unanswered [OF w_kept w_agent(1) g t(1,2) req])
qed

section \<open>How a stream ends\<close>

fun answer_part :: "pevent \<Rightarrow> bool" where
  "answer_part (PTextDelta d) \<longleftrightarrow> d \<noteq> []"
| "answer_part (PToolCall _) \<longleftrightarrow> True"
| "answer_part _ \<longleftrightarrow> False"

definition ends_once :: "pevent list \<Rightarrow> bool" where
  "ends_once es \<longleftrightarrow> (\<exists>parts x. es = parts @ [x] \<and> list_all answer_part parts \<and> (x = PDone \<or> (\<exists>e. x = PError (Some e))))"

lemma ends_once_append: "list_all answer_part ps \<Longrightarrow> ends_once es \<Longrightarrow> ends_once (ps @ es)"
  unfolding ends_once_def by (metis append.assoc list_all_append)

lemma ends_once_single: "ends_once [PDone]" "ends_once [PError (Some e)]"
  unfolding ends_once_def by (rule exI [of _ "[]"], simp)+

lemma openai_events_end: "ends_once (openai_events sdk cs err acc)"
proof (induction cs arbitrary: acc)
  case (Cons c cs)
  have "list_all answer_part (chunk_events sdk c acc1)" for acc1
    by (auto simp: chunk_events_def split: list.split option.split)
  then show ?case using Cons by (simp add: Let_def ends_once_append)
qed (simp add: ends_once_single split: option.split)

lemma candidates_parts: "list_all answer_part (concat (map candidate_events cs))"
proof -
  have "list_all answer_part (part_events p)" for p by (simp add: part_events_def split: option.split)
  then show ?thesis
    by (induction cs) (auto simp: candidate_events_def list_all_iff split: option.split)
qed

lemma gemini_events_end: "ends_once (gemini_events rs)"
  by (induction rs rule: gemini_events.induct) (simp_all add: ends_once_single ends_once_append candidates_parts)

text \<open>
  C30: Both providers keep the promise of the interface: a stream is text (never an empty delta) and
  calls, then exactly one Done or one Error, which carries an error, and nothing after it; so an
  agent with such a provider reports no tool result that a tool of its own did not give.
\<close>

theorem provider_streams_end_once:
  fixes osdk :: "('w, 'c, 'acc) oa_sdk" and gsdk :: "('w, 's) genai_sdk"
  assumes "ag_Provider a = Some p" "p = openai_provider osdk model \<or> p = gemini_provider gsdk model"
  shows "(\<forall>req w es w1. pv_Stream p req w = (Inr es, w1) \<longrightarrow> ends_once es) \<and> \<not> brings_results a"
proof -
  have e: "ends_once es" if "pv_Stream p req w = (Inr es, w1)" for req w es w1
    using that assms(2) openai_events_end gemini_events_end
    by (auto simp: openai_provider_def gemini_provider_def openai_Stream_def gemini_Stream_def act_seq_def split: prod.splits sum.splits)
  have "PToolResult i r \<notin> set es" if "ends_once es" for es i r
    using that by (force simp: ends_once_def list_all_iff)
  then have "\<not> brings_results a" using e assms(1) unfolding brings_results_def by fastforce
  then show ?thesis using e by blast
qed

theorem provider_streams_end_once_witness:
  "ends_once [PToolCall demo_call, PDone] \<and> \<not> brings_results w_openai_agent"
proof -
  have "openai_provider w_sdk ''gpt-4o'' = openai_provider w_sdk ''gpt-4o'' \<or>
      openai_provider w_sdk ''gpt-4o'' = gemini_provider (undefined :: (session, unit) genai_sdk) ''gpt-4o''" by blast
  from provider_streams_end_once [OF w_agent(3) this] show ?thesis using w_stream by blast
qed

section \<open>Streaming and generating\<close>

definition streamed_text :: "pevent list \<Rightarrow> string" where
  "streamed_text es = concat (map (\<lambda>e. case e of PTextDelta d \<Rightarrow> d | _ \<Rightarrow> []) es)"

definition streamed_calls :: "pevent list \<Rightarrow> ptool_call list" where
  "streamed_calls es = concat (map (\<lambda>e. case e of PToolCall c \<Rightarrow> [c] | _ \<Rightarrow> []) es)"

lemma streamed_append [simp]:
  "streamed_text (es @ fs) = streamed_text es @ streamed_text fs" "streamed_calls (es @ fs) = streamed_calls es @ streamed_calls fs"
  by (simp_all add: streamed_text_def streamed_calls_def)

definition plain_part :: "gpart \<Rightarrow> bool" where
  "plain_part p \<longleftrightarrow> gp_text p = [] \<or> gp_call p = None"

lemma add_parts_append: "add_parts (ps @ qs) r = add_parts qs (add_parts ps r)"
  by (induction ps arbitrary: r) auto

lemma parts_streamed:
  "\<forall>p \<in> set ps. plain_part p \<Longrightarrow>
     rs_content (add_parts ps r) = rs_content r @ streamed_text (concat (map part_events ps)) \<and>
     rs_tool_calls (add_parts ps r) = rs_tool_calls r @ streamed_calls (concat (map part_events ps))"
  by (induction ps arbitrary: r)
    (auto simp: part_events_def plain_part_def streamed_text_def streamed_calls_def split: option.splits)

lemma chunks_streamed:
  "list_all2 (\<lambda>r c. gr_candidates r = [Some c]) rs cs \<Longrightarrow>
     gemini_events (map (\<lambda>r. Inr (Some r)) rs) = concat (map part_events (concat (map gt_parts cs))) @ [PDone]"
  by (induction rule: list_all2_induct) (auto simp: candidate_events_def)

text \<open>
  C29: With Gemini, streaming an answer and generating it agree. When the response comes as one
  candidate, in any number of chunks, and no part of it is both text and a call, the deltas of the
  stream add up to the content that Generate returns and its calls are the calls of the stream, in
  the same order, with the same ids and arguments.
\<close>

theorem gemini_stream_is_generate:
  assumes "gemini_config sdk req = Inr c"
    and "gs_stream sdk model (toGeminiContents (rq_messages req)) c w = (map (\<lambda>r. Inr (Some r)) rs, w1)"
    and "list_all2 (\<lambda>r k. gr_candidates r = [Some k]) rs ks"
    and "gs_generate sdk model (toGeminiContents (rq_messages req)) c v = (Inr (Some whole), v1)"
    and "gr_candidates whole = [Some k]" "gt_parts k = concat (map gt_parts ks)" "\<forall>p \<in> set (gt_parts k). plain_part p"
  shows "\<exists>es resp. gemini_Stream sdk model req w = (Inr es, w1) \<and> gemini_Generate sdk model req v = (Inr resp, v1) \<and>
    streamed_text es = rs_content resp \<and> streamed_calls es = rs_tool_calls resp"
proof -
  let ?es = "concat (map part_events (gt_parts k)) @ [PDone]"
  have "gemini_Stream sdk model req w = (Inr ?es, w1)"
    using assms(1,2) chunks_streamed [OF assms(3)] by (simp add: gemini_Stream_def act_seq_def act_lift_def assms(6))
  moreover obtain resp where resp: "gemini_Generate sdk model req v = (Inr resp, v1)"
    "rs_content resp = rs_content (add_parts (gt_parts k) no_response)" "rs_tool_calls resp = rs_tool_calls (add_parts (gt_parts k) no_response)"
    using assms(1,4,5) by (simp add: gemini_Generate_def act_seq_def act_lift_def read_response_def Let_def)
  moreover have "streamed_text ?es = rs_content resp" "streamed_calls ?es = rs_tool_calls resp"
    using parts_streamed [OF assms(7), of no_response] resp(2,3)
    by (simp_all add: no_response_def) (simp_all add: streamed_text_def streamed_calls_def)
  ultimately show ?thesis by blast
qed

text \<open>A client of Gemini that gives one response, whole or in the chunks \<open>rs\<close>.\<close>

definition w_genai :: "gresponse list \<Rightarrow> gresponse \<Rightarrow> (session, unit) genai_sdk" where
  "w_genai rs whole = \<lparr>gs_stream = (\<lambda>_ _ _ w. (map (\<lambda>r. Inr (Some r)) rs, w)), gs_generate = (\<lambda>_ _ _. act_ret (Some whole)),
     gs_schema = (\<lambda>_. Inr ())\<rparr>"

definition w_response :: "gpart list \<Rightarrow> gresponse" where
  "w_response ps = \<lparr>gr_candidates = [Some \<lparr>gt_role = ''model'', gt_parts = ps\<rparr>], gr_usage = None\<rparr>"

definition w_function :: gpart where
  "w_function = no_part\<lparr>gp_call := Some \<lparr>gk_name = ''del'', gk_args = Some []\<rparr>\<rparr>"

definition w_request :: request where
  "w_request = \<lparr>rq_model = ''m'', rq_messages = [], rq_tools = [], rq_system = [], rq_max_tokens = 0, rq_temperature = 0\<rparr>"

theorem gemini_stream_is_generate_witness:
  "let sdk = w_genai [w_response [text_part ''he''], w_response [text_part ''llo'', w_function]]
      (w_response [text_part ''he'', text_part ''llo'', w_function]) in
   \<exists>es resp. gemini_Stream sdk ''m'' w_request demo_session = (Inr es, demo_session) \<and>
     gemini_Generate sdk ''m'' w_request demo_session = (Inr resp, demo_session) \<and>
     streamed_text es = rs_content resp \<and> streamed_calls es = rs_tool_calls resp"
proof -
  let ?cs = "[[text_part ''he''], [text_part ''llo'', w_function]]"
  let ?k = "\<lambda>ps. \<lparr>gt_role = ''model'', gt_parts = ps\<rparr>"
  let ?sdk = "w_genai (map w_response ?cs) (w_response (concat ?cs))"
  obtain c where c: "gemini_config ?sdk w_request = Inr c" by (simp add: gemini_config_def w_request_def)
  have "\<exists>es resp. gemini_Stream ?sdk ''m'' w_request demo_session = (Inr es, demo_session) \<and>
     gemini_Generate ?sdk ''m'' w_request demo_session = (Inr resp, demo_session) \<and>
     streamed_text es = rs_content resp \<and> streamed_calls es = rs_tool_calls resp"
    by (rule gemini_stream_is_generate [OF c, where ks = "map ?k ?cs" and k = "?k (concat ?cs)" and rs = "map w_response ?cs"])
      (auto simp: w_genai_def w_response_def act_ret_def plain_part_def text_part_def w_function_def no_part_def)
  then show ?thesis by (simp add: Let_def)
qed

text \<open>
  The agreement ends where there is nothing to read. Generate takes the content of the first
  candidate without asking whether there is one: when compaction asks Gemini for a summary and the
  answer is blocked (a candidate without content), the process panics, in a goroutine that does not
  exist yet, so RunWithSession's caller takes the panic; streaming the same response just ends.
\<close>

theorem gemini_blocked_summary_panics:
  assumes "shouldCompact (sess_messages s) (ag_compaction a)" "0 \<le> cc_keep_recent (ag_compaction a)"
    and "\<forall>contents config w. gs_generate sdk model contents config w = (Inr (Some r), w)" "gr_candidates r = None # cs"
  shows "(\<exists>m. compact_session h a (gemini_provider sdk model) s \<lparr>r_world = w, r_log = l\<rparr> = (None, \<lparr>r_world = w,
      r_log = l @ [Generated (compaction_request (gemini_provider sdk model) (sess_messages s) (ag_compaction a)), Crashed m]\<rparr>)) \<and>
    gemini_events [Inr (Some (r\<lparr>gr_candidates := [None]\<rparr>))] = [PDone]"
proof -
  have "\<not> int (length (sess_messages s)) \<le> cc_keep_recent (ag_compaction a)"
    using assms(1) by (auto simp: shouldCompact_def split: if_splits)
  moreover have "gemini_Generate sdk model (summary_request m ms) w = (Inl nil_panic, w)" for m ms
  proof -
    obtain c where "gemini_config sdk (summary_request m ms) = Inr c" by (simp add: gemini_config_def summary_request_def)
    then show ?thesis using assms(3,4) by (simp add: gemini_Generate_def act_seq_def act_lift_def read_response_def Let_def)
  qed
  ultimately have "compact h (gemini_provider sdk model) (sess_messages s) (ag_compaction a) w = (Inl nil_panic, w)"
    using assms(2) by (simp add: compact_def compaction_request_def act_seq_def act_wrap_def gemini_provider_def Let_def nil_panic_def)
  then show ?thesis
    using assms(1,2) by (simp add: compact_session_def proc_defs nil_panic_def candidate_events_def)
qed

definition w_blocked :: gresponse where
  "w_blocked = \<lparr>gr_candidates = [None], gr_usage = None\<rparr>"

theorem gemini_blocked_summary_panics_witness:
  "\<exists>q m. compact_session demo_host w_openai_agent (gemini_provider (w_genai [] w_blocked) ''m'')
      (demo_session\<lparr>sess_messages := replicate 21 (hd (sess_messages w_later))\<rparr>) \<lparr>r_world = demo_session, r_log = []\<rparr> =
    (None, \<lparr>r_world = demo_session, r_log = [Generated q, Crashed m]\<rparr>)"
proof -
  let ?s = "demo_session\<lparr>sess_messages := replicate 21 (hd (sess_messages w_later))\<rparr>"
  have "shouldCompact (sess_messages ?s) (ag_compaction w_openai_agent)" "0 \<le> cc_keep_recent (ag_compaction w_openai_agent)"
    "\<forall>contents config w. gs_generate (w_genai [] w_blocked) ''m'' contents config w = (Inr (Some w_blocked), w)"
    "gr_candidates w_blocked = None # []"
    by (simp_all add: w_agent DefaultCompactionConfig_def shouldCompact_def w_genai_def w_blocked_def act_ret_def)
  from gemini_blocked_summary_panics [OF this, of demo_host demo_session "[]"] show ?thesis by auto
qed

section \<open>Names as ids\<close>

lemma gemini_call_ids: "PToolCall c \<in> set (gemini_events rs) \<Longrightarrow> pt_id c = pt_name c"
proof (induction rs rule: gemini_events.induct)
  case (4 r rs)
  have "pt_id c = pt_name c" if "PToolCall c \<in> set (candidate_events k)" for k
    using that by (auto simp: candidate_events_def part_events_def gemini_call_def split: option.splits if_splits)
  then show ?case using 4 by auto
qed auto

text \<open>
  C28: Over Gemini a rejected call is executed. A call's id is the name of its function, so when one
  answer calls a gated function twice, both calls carry one id, and so do their interrupts: Resume
  takes the user's two answers, the first no, the second yes, and executes the call that was
  rejected.
\<close>

theorem gemini_rejected_call_runs:
  assumes "PToolCall c1 \<in> set (gemini_events rs)" "PToolCall c2 \<in> set (gemini_events rs)" "pt_name c1 = pt_name c2" "pt_name c1 \<noteq> []"
    and "gate a reg c1 = Some kindApproval" "gate a reg c2 = Some kindApproval"
    and "classifyPending h a reg [c1, c2] w = ([i1, i2], w1)" "ai_id i1 \<noteq> ai_id i2" "ai_id i1 \<noteq> []" "ai_id i2 \<noteq> []"
    and "ri_interrupt_id x1 = ai_id i1" "\<not> approves x1" "ri_interrupt_id x2 = ai_id i2" "approves x2"
    and "tc = hd (mark_pending [c1, c2] [i1, i2] (providerToolCallsToRecords [c1, c2]))"
  shows "validate_inputs (interruptsToMetadata [i1, i2]) [x1, x2] = None \<and>
    resolveToolCall reg2 (inputByToolCallID (interruptsToMetadata [i1, i2]) [x1, x2]) tc = executeTool reg2 tc"
proof -
  have id: "pt_id c1 = pt_name c1" "pt_id c2 = pt_name c2" using gemini_call_ids assms(1,2) by blast+
  obtain j1 j2 where j: "i1 = new_interrupt j1 kindApproval c1" "i2 = new_interrupt j2 kindApproval c2"
    using assms(5,6,7) by (auto split: prod.splits)
  have tc: "tc_id tc = pt_name c1" "tc_status tc = ''pending_approval''"
    by (simp_all add: assms(15) providerToolCallsToRecords_def id j new_interrupt_def interruptKind_def)
  obtain k1 k2 where k: "interruptsToMetadata [i1, i2] = [k1, k2]" "intr_tool_call_id k1 = pt_name c1" "intr_tool_call_id k2 = pt_name c1"
    "intr_id k1 = ai_id i1" "intr_id k2 = ai_id i2"
    using id assms(3) by (simp add: interruptsToMetadata_def j new_interrupt_def)
  have "resolveToolCall reg2 (inputByToolCallID (interruptsToMetadata [i1, i2]) [x1, x2]) tc = executeTool reg2 tc"
    unfolding k(1) by (rule shared_id_executes) (use assms(4,8,11-14) tc k in simp_all)
  moreover have "validate_inputs (interruptsToMetadata [i1, i2]) [x1, x2] = None"
    using assms(8-11,13) by (simp add: validate_inputs_iff interruptsToMetadata_def)
  ultimately show ?thesis by blast
qed

definition w_ids :: "nat host" where
  "w_ids = \<lparr>clock = (\<lambda>w. (5000000, w)), rand_bytes = (\<lambda>n w. (Some [char_of w], Suc w)), ctx_err = (\<lambda>w. (None, w)),
     bad_request = (\<lambda>_. None), http_post = (\<lambda>_ _ _. act_fail (ErrMsg ''no network'')), run_command = (\<lambda>_ _ w. (([], None), w))\<rparr>"

definition w_gated :: "nat agent" where
  "w_gated = (bare_agent ''a'')\<lparr>ag_approvalPolicy := Some RequireAll\<rparr>"

theorem gemini_rejected_call_runs_witness:
  "let c1 = gemini_call w_function \<lparr>gk_name = ''del'', gk_args = Some []\<rparr>;
       c2 = gemini_call w_function \<lparr>gk_name = ''del'', gk_args = None\<rparr> in
   \<exists>i1 i2. fst (classifyPending w_ids w_gated [] [c1, c2] 0) = [i1, i2] \<and>
     (let tc = hd (mark_pending [c1, c2] [i1, i2] (providerToolCallsToRecords [c1, c2])) in
      resolveToolCall [] (inputByToolCallID (interruptsToMetadata [i1, i2]) [demo_input (ai_id i1) False, demo_input (ai_id i2) True]) tc =
      (executeTool [] tc :: (session, string \<times> string) proc))"
proof -
  let ?k1 = "\<lparr>gk_name = ''del'', gk_args = Some []\<rparr>" and ?k2 = "\<lparr>gk_name = ''del'', gk_args = None\<rparr>"
  let ?c1 = "gemini_call w_function ?k1" and ?c2 = "gemini_call w_function ?k2"
  let ?rs = "[Inr (Some (w_response [w_function\<lparr>gp_call := Some ?k1\<rparr>, w_function\<lparr>gp_call := Some ?k2\<rparr>]))]"
  have e: "PToolCall ?c1 \<in> set (gemini_events ?rs)" "PToolCall ?c2 \<in> set (gemini_events ?rs)"
    by (simp_all add: w_response_def candidate_events_def part_events_def w_function_def no_part_def gemini_call_def)
  have n: "pt_name ?c1 = pt_name ?c2" "pt_name ?c1 \<noteq> []" by (simp_all add: gemini_call_def)
  have g: "gate w_gated [] c = Some kindApproval" for c
    by (simp add: gate_def Get_tool_def w_gated_def bare_agent_def RequireAll_def)
  obtain i1 i2 w1 where i: "classifyPending w_ids w_gated [] [?c1, ?c2] 0 = ([i1, i2], w1)"
    "ai_id i1 = ''intr-'' @ hex_of [char_of (0 :: nat)]" "ai_id i2 = ''intr-'' @ hex_of [char_of (1 :: nat)]"
    by (simp add: g interruptID_def w_ids_def new_interrupt_def)
  have d: "ai_id i1 \<noteq> ai_id i2" "ai_id i1 \<noteq> []" "ai_id i2 \<noteq> []" unfolding i(2,3) by code_simp+
  have a: "\<not> approves (demo_input x False)" "approves (demo_input x True)" "ri_interrupt_id (demo_input x b) = x" for x b
    by (simp_all add: approves_def demo_input_def)
  from gemini_rejected_call_runs [OF e n g g i(1) d a(3) a(1) a(3) a(2) refl] i(1) show ?thesis unfolding Let_def by auto
qed

end
