(* ===== verification/Paths.thy ===== *)
theory Paths
  imports Prelude
begin

text \<open>path/filepath on Unix: cleaning and joining paths, and absolute paths in normal form.\<close>

section \<open>Cleaning and joining\<close>

fun split_path :: "string \<Rightarrow> string list" where
  "split_path [] = [[]]"
| "split_path (c # cs) =
     (if c = CHR ''/'' then [] # split_path cs
      else case split_path cs of [] \<Rightarrow> [[c]] | p # ps \<Rightarrow> (c # p) # ps)"

fun join_parts :: "string list \<Rightarrow> string" where
  "join_parts [] = []"
| "join_parts [p] = p"
| "join_parts (p # q # ps) = p @ ''/'' @ join_parts (q # ps)"

text \<open>filepath.Clean: the parts that stay, the last one first.\<close>

fun clean_parts :: "bool \<Rightarrow> string list \<Rightarrow> string list \<Rightarrow> string list" where
  "clean_parts rooted [] acc = acc"
| "clean_parts rooted (p # ps) acc =
     (if p = [] \<or> p = ''.'' then clean_parts rooted ps acc
      else if p = ''..'' then
        (case acc of
           q # r \<Rightarrow> if q = ''..'' then clean_parts rooted ps (p # acc) else clean_parts rooted ps r
         | [] \<Rightarrow> if rooted then clean_parts rooted ps [] else clean_parts rooted ps [p])
      else clean_parts rooted ps (p # acc))"

definition Clean :: "string \<Rightarrow> string" where
  "Clean path =
     (let rooted = prefix ''/'' path; out = join_parts (rev (clean_parts rooted (split_path path) [])) in
      if rooted then CHR ''/'' # out else if out = [] then ''.'' else out)"

definition Join :: "string list \<Rightarrow> string" where
  "Join ps = (case filter (\<lambda>p. p \<noteq> []) ps of [] \<Rightarrow> [] | qs \<Rightarrow> Clean (join_parts qs))"

section \<open>Paths in normal form\<close>

definition no_slash :: "string \<Rightarrow> bool" where
  "no_slash p \<longleftrightarrow> CHR ''/'' \<notin> set p"

definition plain_name :: "string \<Rightarrow> bool" where
  "plain_name p \<longleftrightarrow> p \<noteq> [] \<and> p \<noteq> ''.'' \<and> p \<noteq> ''..'' \<and> no_slash p"

definition abs_path :: "string \<Rightarrow> bool" where
  "abs_path q \<longleftrightarrow> (\<exists>ps. list_all plain_name ps \<and> q = CHR ''/'' # join_parts ps)"

lemma split_path_ne [simp]: "split_path s \<noteq> []"
  by (induction s) (auto split: list.splits)

lemma split_plain: "no_slash p \<Longrightarrow> split_path p = [p]"
  by (induction p) (auto simp: no_slash_def)

lemma split_slash: "no_slash p \<Longrightarrow> split_path (p @ CHR ''/'' # r) = p # split_path r"
  by (induction p) (auto simp: no_slash_def)

lemma split_join: "list_all no_slash ps \<Longrightarrow> ps \<noteq> [] \<Longrightarrow> split_path (join_parts ps) = ps"
  by (induction ps rule: join_parts.induct) (auto simp: split_plain split_slash)

lemma split_no_slash: "list_all no_slash (split_path s)"
  by (induction s) (auto simp: no_slash_def split: list.splits)

lemma plain_no_slash: "list_all plain_name ps \<Longrightarrow> list_all no_slash ps"
  by (auto simp: plain_name_def list_all_iff)

lemma clean_parts_plain:
  "list_all no_slash ps \<Longrightarrow> list_all plain_name acc \<Longrightarrow> list_all plain_name (clean_parts True ps acc)"
  by (induction True ps acc rule: clean_parts.induct)
    (auto simp: plain_name_def split: list.splits)

lemma clean_parts_id: "list_all plain_name ps \<Longrightarrow> clean_parts b ps acc = rev ps @ acc"
  by (induction ps arbitrary: acc) (auto simp: plain_name_def)

lemma Clean_abs: "prefix ''/'' p \<Longrightarrow> abs_path (Clean p)"
  using clean_parts_plain [OF split_no_slash, of "[]" p] unfolding abs_path_def
  by (intro exI [of _ "rev (clean_parts True (split_path p) [])"]) (simp add: Clean_def Let_def)

lemma Clean_rooted:
  "Clean (CHR ''/'' # s) = CHR ''/'' # join_parts (rev (clean_parts True (split_path s) []))"
  by (simp add: Clean_def Let_def)

lemma Clean_id: "abs_path q \<Longrightarrow> Clean q = q"
proof -
  assume "abs_path q"
  then obtain ps where ps: "list_all plain_name ps" "q = CHR ''/'' # join_parts ps"
    by (auto simp: abs_path_def)
  show ?thesis
  proof (cases "ps = []")
    case False
    then have "split_path (join_parts ps) = ps" using ps(1) by (simp add: split_join plain_no_slash)
    then show ?thesis using ps by (simp add: Clean_rooted clean_parts_id)
  qed (simp add: ps(2) Clean_rooted)
qed

lemma abs_path_prefix: "abs_path q \<Longrightarrow> prefix ''/'' q"
  by (auto simp: abs_path_def)

lemma join_parts_append: "ps \<noteq> [] \<Longrightarrow> join_parts (ps @ [n]) = join_parts ps @ ''/'' @ n"
  by (induction ps rule: join_parts.induct) auto

lemma Join_abs:
  assumes "list_all plain_name ps" "plain_name n"
  shows "Join [CHR ''/'' # join_parts ps, n] = CHR ''/'' # join_parts (ps @ [n])"
proof (cases "ps = []")
  case True
  then show ?thesis using assms
    by (simp add: Join_def Clean_rooted split_plain plain_name_def)
next
  case False
  have "abs_path (CHR ''/'' # join_parts (ps @ [n]))" using assms unfolding abs_path_def
    by (intro exI [of _ "ps @ [n]"]) simp
  then show ?thesis using assms False
    by (simp add: Join_def plain_name_def Clean_id join_parts_append)
qed

lemma Join_plain:
  assumes "abs_path q" "plain_name n"
  shows "abs_path (Join [q, n])"
proof -
  obtain ps where "list_all plain_name ps" "q = CHR ''/'' # join_parts ps"
    using assms(1) by (auto simp: abs_path_def)
  then show ?thesis unfolding abs_path_def
    by (intro exI [of _ "ps @ [n]"]) (simp add: Join_abs assms(2))
qed

end
