(* ===== verification/Jsonl_Open.thy ===== *)
theory Jsonl_Open
  imports Jsonl_Log Paths
begin

text \<open>
  storage/metadata/jsonl/store.go, NewStore: where the files of a workspace are and what a process that
  starts removes. The name of a project ends in the first six
  bytes of SHA-256 (crypto/sha256) of the workspace's path.
\<close>

section \<open>Paths\<close>

text \<open>filepath.Abs; \<open>cwd\<close> is the process's working directory.\<close>

definition Abs :: "string \<Rightarrow> string \<Rightarrow> string io" where
  "Abs cwd path = (if prefix ''/'' path then ret (Clean path) else seq sys (\<lambda>_. ret (Join [cwd, path])))"

section \<open>SHA-256\<close>

definition sha_k :: "32 word list" where
  "sha_k =
     [0x428A2F98, 0x71374491, 0xB5C0FBCF, 0xE9B5DBA5, 0x3956C25B, 0x59F111F1,
      0x923F82A4, 0xAB1C5ED5, 0xD807AA98, 0x12835B01, 0x243185BE, 0x550C7DC3,
      0x72BE5D74, 0x80DEB1FE, 0x9BDC06A7, 0xC19BF174, 0xE49B69C1, 0xEFBE4786,
      0x0FC19DC6, 0x240CA1CC, 0x2DE92C6F, 0x4A7484AA, 0x5CB0A9DC, 0x76F988DA,
      0x983E5152, 0xA831C66D, 0xB00327C8, 0xBF597FC7, 0xC6E00BF3, 0xD5A79147,
      0x06CA6351, 0x14292967, 0x27B70A85, 0x2E1B2138, 0x4D2C6DFC, 0x53380D13,
      0x650A7354, 0x766A0ABB, 0x81C2C92E, 0x92722C85, 0xA2BFE8A1, 0xA81A664B,
      0xC24B8B70, 0xC76C51A3, 0xD192E819, 0xD6990624, 0xF40E3585, 0x106AA070,
      0x19A4C116, 0x1E376C08, 0x2748774C, 0x34B0BCB5, 0x391C0CB3, 0x4ED8AA4A,
      0x5B9CCA4F, 0x682E6FF3, 0x748F82EE, 0x78A5636F, 0x84C87814, 0x8CC70208,
      0x90BEFFFA, 0xA4506CEB, 0xBEF9A3F7, 0xC67178F2]"

definition sha_init :: "32 word list" where
  "sha_init =
     [0x6A09E667, 0xBB67AE85, 0x3C6EF372, 0xA54FF53A, 0x510E527F, 0x9B05688C, 0x1F83D9AB, 0x5BE0CD19]"

unbundle bit_operations_syntax

text \<open>The bytes as words of 32 bits, the most significant first.\<close>

fun be_words :: "nat list \<Rightarrow> 32 word list" where
  "be_words (a # b # c # d # r) = of_nat (((a * 256 + b) * 256 + c) * 256 + d) # be_words r"
| "be_words _ = []"

text \<open>The last \<open>k\<close> bytes of a number, the most significant first.\<close>

fun be_bytes :: "nat \<Rightarrow> nat \<Rightarrow> nat list" where
  "be_bytes 0 n = []"
| "be_bytes (Suc k) n = be_bytes k (n div 256) @ [n mod 256]"

definition sha_pad :: "nat list \<Rightarrow> nat list" where
  "sha_pad bs = bs @ [128] @ replicate ((119 - length bs mod 64) mod 64) 0 @ be_bytes 8 (8 * length bs)"

definition rotr :: "nat \<Rightarrow> 32 word \<Rightarrow> 32 word" where
  "rotr n x = word_rotr n x"

fun sha_extend :: "nat \<Rightarrow> 32 word list \<Rightarrow> 32 word list" where
  "sha_extend 0 w = w"
| "sha_extend (Suc n) w =
     (let i = length w; x = w ! (i - 15); y = w ! (i - 2);
          s0 = rotr 7 x XOR rotr 18 x XOR drop_bit 3 x; s1 = rotr 17 y XOR rotr 19 y XOR drop_bit 10 y in
      sha_extend n (w @ [w ! (i - 16) + s0 + w ! (i - 7) + s1]))"

fun sha_round :: "32 word \<Rightarrow> 32 word list \<Rightarrow> 32 word list" where
  "sha_round kw [a, b, c, d, e, f, g, h] =
     (let s1 = rotr 6 e XOR rotr 11 e XOR rotr 25 e;
          ch = (e AND f) XOR ((NOT e) AND g);
          t1 = h + s1 + ch + kw;
          s0 = rotr 2 a XOR rotr 13 a XOR rotr 22 a;
          maj = (a AND b) XOR (a AND c) XOR (b AND c) in
      [t1 + s0 + maj, a, b, c, d + t1, e, f, g])"
| "sha_round kw hs = hs"

definition sha_block :: "32 word list \<Rightarrow> 32 word list \<Rightarrow> 32 word list" where
  "sha_block block hs = map2 (+) hs (fold sha_round (map2 (+) sha_k (sha_extend 48 block)) hs)"

fun sha_blocks :: "nat \<Rightarrow> 32 word list \<Rightarrow> 32 word list \<Rightarrow> 32 word list" where
  "sha_blocks 0 ws hs = hs"
| "sha_blocks (Suc n) ws hs = sha_blocks n (drop 16 ws) (sha_block (take 16 ws) hs)"

definition sha256 :: "string \<Rightarrow> string" where
  "sha256 s =
     (let ws = be_words (sha_pad (map of_char s)) in
      map char_of (concat (map (\<lambda>w. be_bytes 4 (unat w)) (sha_blocks (length ws div 16) ws sha_init))))"

section \<open>NewStore\<close>

record config =
  cfg_RootDir :: string
  cfg_WorkspacePath :: string

text \<open>strings.TrimSpace leaves nothing: every rune is white space.\<close>

definition space_rune :: "nat \<Rightarrow> bool" where
  "space_rune r \<longleftrightarrow> r = 32 \<or> (9 \<le> r \<and> r \<le> 13) \<or> r \<in> {0x85, 0xA0, 0x1680, 0x2028, 0x2029, 0x202F, 0x205F, 0x3000} \<or>
     (0x2000 \<le> r \<and> r \<le> 0x200A)"

definition blank :: "string \<Rightarrow> bool" where
  "blank s \<longleftrightarrow> list_all space_rune (map fst (runes s))"

text \<open>A run of other characters becomes one dash; \<open>dash\<close> says whether the last character was one for it.\<close>

fun slug_runes :: "(nat \<Rightarrow> bool) \<Rightarrow> bool \<Rightarrow> (nat \<times> string) list \<Rightarrow> string" where
  "slug_runes uni dash [] = []"
| "slug_runes uni dash ((r, bs) # rs) =
     (if letter_or_digit uni r \<or> r = 46 \<or> r = 95 \<or> r = 45 then bs @ slug_runes uni False rs
      else if dash then slug_runes uni True rs
      else CHR ''-'' # slug_runes uni True rs)"

definition trim_dash :: "string \<Rightarrow> string" where
  "trim_dash s =
     (let cut = dropWhile (\<lambda>c. c = CHR ''-'' \<or> c = CHR ''.'') in rev (cut (rev (cut s))))"

definition workspaceSlug :: "(nat \<Rightarrow> bool) \<Rightarrow> string \<Rightarrow> string \<times> string" where
  "workspaceSlug uni wsp =
     (let slug = trim_dash (slug_runes uni False (runes wsp)) in
      (if slug = [] then ''workspace'' else slug, take 12 (hex_of (sha256 wsp))))"

text \<open>os.Remove of a staged transcript; one that is gone meanwhile is no error.\<close>

fun remove_staged :: "string \<Rightarrow> string list \<Rightarrow> bool \<Rightarrow> bool io" where
  "remove_staged dir [] removed = ret removed"
| "remove_staged dir (n # ns) removed =
     (if suffix ''.jsonl.deleted'' n
      then seq (remove_file (join_path dir n)) (\<lambda>_. remove_staged dir ns True)
      else remove_staged dir ns removed)"

definition recoverDeletedTranscripts :: "string \<Rightarrow> unit io" where
  "recoverDeletedTranscripts dir =
     seq sys (\<lambda>_ s.
     seq (remove_staged dir (dir_entries dir s) False) (\<lambda>removed.
     if removed then syncDir else ret ()) s)"

fun ensure_all :: "string list \<Rightarrow> unit io" where
  "ensure_all [] = ret ()"
| "ensure_all (d # ds) = seq (wrapping (''jsonl: create directory '' @ quote d) ensurePrivateDir) (\<lambda>_. ensure_all ds)"

definition NewStore :: "(nat \<Rightarrow> bool) \<Rightarrow> string \<Rightarrow> config \<Rightarrow> store io" where
  "NewStore uni cwd cfg =
     seq sys (\<lambda>_.
     if blank (cfg_RootDir cfg) then raise (ErrMsg ''jsonl: RootDir is required'')
     else if blank (cfg_WorkspacePath cfg) then raise (ErrMsg ''jsonl: WorkspacePath is required'')
     else
       seq (wrapping ''jsonl: resolve root directory'' (Abs cwd (cfg_RootDir cfg))) (\<lambda>root0.
       seq (wrapping ''jsonl: resolve workspace path'' (Abs cwd (cfg_WorkspacePath cfg))) (\<lambda>workspace0.
       let root = Clean root0; wsp = Clean workspace0;
           projectsDir = Join [root, ''projects''];
           slug = fst (workspaceSlug uni wsp); hash = snd (workspaceSlug uni wsp);
           project = Join [projectsDir, slug @ ''-'' @ hash];
           st = \<lparr>rootDir = root, workspace = wsp, projectDir = project, storeDir = Join [project, ''_store''],
                 locksDir = Join [project, ''_locks''], transcriptDir = project, unicode_table = uni\<rparr> in
       seq (ensure_all [root, projectsDir, project, storeDir st, locksDir st]) (\<lambda>_.
       seq (wrapping ''jsonl: recover deleted transcripts'' (recoverDeletedTranscripts project)) (\<lambda>_.
       ret st)))))"

end
