(* ===== verification/Jsonl_Open_Spec.thy ===== *)
theory Jsonl_Open_Spec
  imports Jsonl_Open Jsonl_Session_Spec
begin

text \<open>
  What NewStore of the JSONL store promises: the paths of the store are in normal form, so the
  store has the layout (\<open>store_ok\<close>) that the theorems on sessions and domains ask for; only staged
  transcripts are removed; and a process that opens the paths of a store again has the same store.
\<close>

section \<open>Paths in normal form\<close>

lemma join_parts_snoc: "ps \<noteq> [] \<Longrightarrow> join_parts (ps @ [n]) = join_path (join_parts ps) n"
  by (simp add: join_parts_append join_path_def)

text \<open>Below the root directory \<open>Join\<close> is the path with the name behind it.\<close>

lemma Join_twice:
  assumes "abs_path q" "plain_name m" "plain_name n"
  shows "Join [Join [q, m], n] = join_path (Join [q, m]) n"
proof -
  obtain ps where ps: "list_all plain_name ps" "q = CHR ''/'' # join_parts ps"
    using assms(1) by (auto simp: abs_path_def)
  then show ?thesis using assms(2,3) Join_abs [of "ps @ [m]" n]
    by (simp add: Join_abs join_parts_snoc [of "ps @ [m]", simplified] join_path_def)
qed

section \<open>The name of a project\<close>

lemma decode_rune_bytes:
  assumes "i < snd (decode_rune s)" "i < length s" "s ! i = CHR ''/''"
  shows "fst (decode_rune s) = 47"
proof -
  have b: "byte_at i s = 47" using assms(2,3) by (simp add: byte_at_def)
  consider "i = 0" | "i = 1" | "i = 2" | "i = 3"
  proof -
    have "snd (decode_rune s) \<le> 4" by (simp add: decode_rune_def Let_def)
    then have "i < 4" using assms(1) by simp
    then show ?thesis using that by linarith
  qed
  then show ?thesis
    by cases (use b assms(1) in \<open>auto simp: decode_rune_def Let_def is_cont_def split: if_splits\<close>)
qed

lemma runes_slash: "(r, bs) \<in> set (runes s) \<Longrightarrow> CHR ''/'' \<in> set bs \<Longrightarrow> r = 47"
proof (induction s rule: runes.induct)
  case (1 s)
  show ?case
  proof (cases "s = []")
    case True
    then show ?thesis using 1(2) by simp
  next
    case False
    consider "r = fst (decode_rune s)" "bs = take (snd (decode_rune s)) s"
      | "(r, bs) \<in> set (runes (drop (snd (decode_rune s)) s))"
      using 1(2) False by (subst (asm) runes.simps) auto
    then show ?thesis
    proof cases
      case 1
      then show ?thesis using \<open>CHR ''/'' \<in> set bs\<close> decode_rune_bytes [of _ s]
        by (auto simp: in_set_conv_nth)
    qed (use 1(1) False \<open>CHR ''/'' \<in> set bs\<close> in blast)
  qed
qed

lemma slug_no_slash:
  "\<forall>(r, bs) \<in> set rs. CHR ''/'' \<in> set bs \<longrightarrow> r = 47 \<Longrightarrow> CHR ''/'' \<notin> set (slug_runes uni dash rs)"
  by (induction uni dash rs rule: slug_runes.induct) (auto simp: letter_or_digit_def)

lemma hex_digit_no_slash: "n < 16 \<Longrightarrow> CHR ''/'' \<noteq> hex_digit n"
  by (auto simp: hex_digit_def dest: arg_cong [where f = "of_char :: char \<Rightarrow> nat"])

lemma hex_no_slash: "CHR ''/'' \<notin> set (hex_of b)"
proof -
  have "of_char c div 16 < (16::nat)" for c using of_char_less_256 [of c] by linarith
  then show ?thesis by (auto simp: hex_of_def hex_digit_no_slash)
qed

lemma trim_dash_set: "set (trim_dash s) \<subseteq> set s"
  unfolding trim_dash_def Let_def by (auto dest!: set_dropWhileD)

definition project_name :: "(nat \<Rightarrow> bool) \<Rightarrow> string \<Rightarrow> string" where
  "project_name uni wsp = fst (workspaceSlug uni wsp) @ ''-'' @ snd (workspaceSlug uni wsp)"

lemma project_name_plain: "plain_name (project_name uni wsp)"
proof -
  have "CHR ''/'' \<notin> set (trim_dash (slug_runes uni False (runes wsp)))"
    using slug_no_slash [of "runes wsp" uni False] runes_slash [of _ _ wsp] trim_dash_set by blast
  then have "no_slash (fst (workspaceSlug uni wsp))" "fst (workspaceSlug uni wsp) \<noteq> []"
    by (simp_all add: workspaceSlug_def Let_def no_slash_def)
  moreover have "no_slash (snd (workspaceSlug uni wsp))"
    using hex_no_slash by (auto simp: workspaceSlug_def Let_def no_slash_def dest: in_set_takeD)
  moreover have "CHR ''-'' \<in> set (project_name uni wsp)" by (simp add: project_name_def)
  then have "project_name uni wsp \<notin> {[], ''.'', ''..''}" by auto
  ultimately show ?thesis by (simp add: plain_name_def no_slash_def project_name_def)
qed

lemma seq_okE:
  assumes "seq m k s = (Inr y, t)"
  obtains x s' where "m s = (Inr x, s')" "k x s' = (Inr y, t)"
  using assms by (cases rule: seq_cases) auto

section \<open>Opening removes staged transcripts only\<close>

definition staged :: "string \<Rightarrow> bool" where
  "staged p \<longleftrightarrow> suffix ''.jsonl.deleted'' p"

definition sweep :: "os \<Rightarrow> os \<Rightarrow> bool" where
  "sweep s t \<longleftrightarrow> keeps (\<lambda>p. \<not> staged p) s t \<and>
     (\<forall>p. file_at t p = file_at s p \<or> (staged p \<and> file_at t p = None))"

definition sweeps :: "'a io \<Rightarrow> bool" where
  "sweeps m \<longleftrightarrow> (\<forall>s r t. m s = (r, t) \<longrightarrow> sweep s t)"

named_theorems sweep_rules

lemma sweep_refl [simp]: "sweep s s"
  by (simp add: sweep_def)

lemma sweep_trans: "sweep s t \<Longrightarrow> sweep t u \<Longrightarrow> sweep s u"
  unfolding sweep_def using keeps_trans by metis

lemma sweep_files: "files t = files s \<Longrightarrow> keeps (\<lambda>p. \<not> staged p) s t \<Longrightarrow> sweep s t"
  by (simp add: sweep_def)

lemma sweepsI: "(\<And>s r t. m s = (r, t) \<Longrightarrow> sweep s t) \<Longrightarrow> sweeps m"
  and sweepsD: "sweeps m \<Longrightarrow> m s = (r, t) \<Longrightarrow> sweep s t"
  by (auto simp: sweeps_def)

lemma sweeps_sys [sweep_rules]: "sweeps sys"
  by (rule sweepsI) (auto intro!: sweep_files frames_keeps [OF frames_sys] dest: sys_frame)

lemma sweeps_basic [sweep_rules]: "sweeps (ret x)" "sweeps (raise e)"
  by (auto simp: sweeps_def ret_def raise_def)

lemma sweeps_seq [sweep_rules]: "sweeps m \<Longrightarrow> (\<And>x. sweeps (k x)) \<Longrightarrow> sweeps (seq m k)"
  by (rule sweepsI) (auto elim!: seq_cases dest: sweepsD intro: sweep_trans)

lemma sweeps_wrapping [sweep_rules]: "sweeps m \<Longrightarrow> sweeps (wrapping p m)"
  by (rule sweepsI) (auto elim!: wrapping_cases dest: sweepsD)

lemma sweeps_if [sweep_rules]: "sweeps m \<Longrightarrow> sweeps n \<Longrightarrow> sweeps (if b then m else n)"
  by simp

lemma sweeps_remove:
  assumes "staged p"
  shows "sweeps (remove_file p)"
proof (rule sweepsI)
  fix s r t
  assume m: "remove_file p s = (r, t)"
  have "keeps (\<lambda>p. \<not> staged p) s t"
    using frames_keeps [OF frames_remove [where D = "\<lambda>p. \<not> staged p"] m] assms by simp
  moreover have "file_at t = file_at s \<or> file_at t = (file_at s)(p := None)"
    using m unfolding remove_file_def by (auto elim!: seq_cases dest: sys_frame)
  ultimately show "sweep s t" using assms by (auto simp: sweep_def split: if_splits)
qed

lemma staged_join: "suffix ''.jsonl.deleted'' n \<Longrightarrow> staged (join_path d n)"
  by (auto simp: staged_def join_path_def suffix_def)

lemma sweeps_remove_staged [sweep_rules]: "sweeps (remove_staged dir ns b)"
  by (induction ns arbitrary: b) (auto intro!: sweep_rules sweeps_remove staged_join)

lemma sweeps_syncDir [sweep_rules]: "sweeps syncDir"
proof (rule sweepsI)
  fix s r t
  assume m: "syncDir s = (r, t)"
  have "files t = files s"
    using m by (auto simp: syncDir_def elim!: seq_cases split: prod.splits dest!: sys_frame)
  then show "sweep s t" using frames_keeps [OF frames_syncDir m] by (rule sweep_files)
qed

lemma sweeps_recover [sweep_rules]: "sweeps (recoverDeletedTranscripts dir)"
proof (rule sweepsI)
  fix s r t
  assume "recoverDeletedTranscripts dir s = (r, t)"
  then show "sweep s t"
    unfolding recoverDeletedTranscripts_def
  proof (cases rule: seq_cases)
    case (err e)
    then show ?thesis using sweepsD [OF sweeps_sys] by blast
  next
    case (ok x s1)
    have "sweeps (seq (remove_staged dir (dir_entries dir s1) False) (\<lambda>removed. if removed then syncDir else ret ()))"
      by (intro sweep_rules)
    from sweepsD [OF this ok(2)] show ?thesis
      using sweepsD [OF sweeps_sys ok(1)] by (rule sweep_trans [rotated])
  qed
qed

lemma sweeps_ensure_all [sweep_rules]: "sweeps (ensure_all ds)"
  by (induction ds) (auto intro!: sweep_rules simp: ensurePrivateDir_def)

lemma sweeps_Abs [sweep_rules]: "sweeps (Abs cwd p)"
  unfolding Abs_def by (intro sweep_rules)

lemma sweeps_NewStore: "sweeps (NewStore uni cwd cfg)"
  unfolding NewStore_def Let_def by (intro sweep_rules)

lemma sweep_gone: "sweep s t \<Longrightarrow> file_at s p = None \<Longrightarrow> file_at t p = None"
  unfolding sweep_def by metis

lemma removed_staged:
  "remove_staged dir ns b s = (Inr c, t) \<Longrightarrow> n \<in> set ns \<Longrightarrow> suffix ''.jsonl.deleted'' n \<Longrightarrow>
     file_at t (join_path dir n) = None"
proof (induction ns arbitrary: b s)
  case (Cons m ns)
  show ?case
  proof (cases "suffix ''.jsonl.deleted'' m")
    case True
    obtain u where u: "remove_file (join_path dir m) s = (Inr (), u)" "remove_staged dir ns True u = (Inr c, t)"
      using Cons.prems(1) True by (auto elim!: seq_cases)
    have "file_at u (join_path dir m) = None"
      using u(1) unfolding remove_file_def by (auto elim!: seq_cases)
    then show ?thesis
      using Cons.IH [OF u(2)] Cons.prems(2,3) sweep_gone [OF sweepsD [OF sweeps_remove_staged u(2)]] by auto
  next
    case False
    then show ?thesis using Cons.IH [of b s] Cons.prems by auto
  qed
qed simp

lemma dir_entries_at: "n \<in> set (dir_entries d s) \<longleftrightarrow> no_slash n \<and> file_at s (join_path d n) \<noteq> None"
proof
  assume "n \<in> set (dir_entries d s)"
  then obtain f where f: "f \<in> set (files s)" "prefix (d @ ''/'') (fst f)" "n = drop (length d + 1) (fst f)" "no_slash n"
    by (auto simp: dir_entries_def no_slash_def)
  then have "fst f = join_path d n" by (auto simp: prefix_def join_path_def)
  then show "no_slash n \<and> file_at s (join_path d n) \<noteq> None"
    using f(1,4) by (simp add: map_of_eq_None_iff) (metis image_eqI)
qed (auto simp: no_slash_def intro: dir_entry)

lemma recovered:
  assumes "recoverDeletedTranscripts dir s = (Inr u, t)" "n \<in> set (dir_entries dir t)"
  shows "\<not> suffix ''.jsonl.deleted'' n"
proof
  assume n: "suffix ''.jsonl.deleted'' n"
  define body where "body s1 = seq (remove_staged dir (dir_entries dir s1) False)
      (\<lambda>removed. if removed then syncDir else ret ()) s1" for s1
  have "seq sys (\<lambda>_. body) s = (Inr u, t)"
    using assms(1) unfolding recoverDeletedTranscripts_def body_def .
  then obtain s1 where s1: "body s1 = (Inr u, t)" by (rule seq_okE)
  from s1 [unfolded body_def] obtain c s2
    where s2: "remove_staged dir (dir_entries dir s1) False s1 = (Inr c, s2)"
      "(if c then syncDir else ret ()) s2 = (Inr u, t)" by (rule seq_okE)
  have w: "sweep s2 t" using sweepsD [OF sweeps_if [OF sweeps_syncDir sweeps_basic(1)] s2(2)] .
  have e: "no_slash n" "file_at t (join_path dir n) \<noteq> None" using assms(2) by (simp_all add: dir_entries_at)
  have f2: "file_at s2 (join_path dir n) \<noteq> None"
    by (rule contrapos_nn [OF e(2) sweep_gone [OF w]])
  have "file_at s1 (join_path dir n) \<noteq> None"
    by (rule contrapos_nn [OF f2 sweep_gone [OF sweepsD [OF sweeps_remove_staged s2(1)]]])
  then have "n \<in> set (dir_entries dir s1)" using e(1) by (simp add: dir_entries_at)
  from removed_staged [OF s2(1) this n] f2 show False by (rule notE [rotated])
qed

section \<open>The store that is opened\<close>

definition abs_of :: "string \<Rightarrow> string \<Rightarrow> string" where
  "abs_of cwd p = (if prefix ''/'' p then Clean p else Join [cwd, p])"

definition store_at :: "(nat \<Rightarrow> bool) \<Rightarrow> string \<Rightarrow> string \<Rightarrow> store" where
  "store_at uni root wsp =
     (let project = Join [Join [root, ''projects''], project_name uni wsp] in
      \<lparr>rootDir = root, workspace = wsp, projectDir = project, storeDir = Join [project, ''_store''],
       locksDir = Join [project, ''_locks''], transcriptDir = project, unicode_table = uni\<rparr>)"

lemma abs_of_abs: "prefix ''/'' cwd \<Longrightarrow> p \<noteq> [] \<Longrightarrow> abs_path (abs_of cwd p)"
  by (auto simp: abs_of_def Join_def Clean_abs prefix_def)

lemma abs_of_id: "abs_path q \<Longrightarrow> abs_of cwd q = q"
  by (simp add: abs_of_def Clean_id abs_path_prefix)

lemma Abs_result: "Abs cwd p s = (Inr x, t) \<Longrightarrow> x = abs_of cwd p"
  by (auto simp: Abs_def abs_of_def ret_def elim!: seq_cases split: if_splits)

lemma plain_literals [simp]: "plain_name ''projects''" "plain_name ''_store''" "plain_name ''_locks''"
  by (simp_all add: plain_name_def no_slash_def)

lemma store_at_ok:
  assumes "abs_path root"
  shows "store_ok (store_at uni root wsp)"
    "projectDir (store_at uni root wsp) = join_path (Join [root, ''projects'']) (project_name uni wsp)"
  using Join_twice [OF assms, of "''projects''"] project_name_plain
    Join_twice [OF Join_plain [OF assms, of "''projects''"] project_name_plain]
  by (simp_all add: store_at_def Let_def store_ok_def)

lemma blank_Nil [simp]: "blank []"
  by (simp add: blank_def)

lemma blank_abs: "abs_path q \<Longrightarrow> \<not> blank q"
  by (auto simp: abs_path_def blank_def space_rune_def)

lemma NewStore_inv:
  assumes "NewStore uni cwd cfg s = (Inr st, t)" "prefix ''/'' cwd"
  obtains root wsp u where "abs_path root" "abs_path wsp" "st = store_at uni root wsp"
    "recoverDeletedTranscripts (projectDir st) u = (Inr (), t)"
proof -
  let ?root = "Clean (abs_of cwd (cfg_RootDir cfg))" and ?wsp = "Clean (abs_of cwd (cfg_WorkspacePath cfg))"
  define build where "build root0 workspace0 =
      (let root = Clean root0; wsp = Clean workspace0;
           projectsDir = Join [root, ''projects''];
           slug = fst (workspaceSlug uni wsp); hash = snd (workspaceSlug uni wsp);
           project = Join [projectsDir, slug @ ''-'' @ hash];
           st = \<lparr>rootDir = root, workspace = wsp, projectDir = project, storeDir = Join [project, ''_store''],
                 locksDir = Join [project, ''_locks''], transcriptDir = project, unicode_table = uni\<rparr> in
       seq (ensure_all [root, projectsDir, project, storeDir st, locksDir st]) (\<lambda>_.
       seq (wrapping ''jsonl: recover deleted transcripts'' (recoverDeletedTranscripts project)) (\<lambda>_.
       ret st)))" for root0 workspace0
  have b: "\<not> blank (cfg_RootDir cfg)" "\<not> blank (cfg_WorkspacePath cfg)"
    using assms(1) by (auto simp: NewStore_def raise_def elim!: seq_cases split: if_splits)
  obtain s0 where s0: "seq (wrapping ''jsonl: resolve root directory'' (Abs cwd (cfg_RootDir cfg))) (\<lambda>root0.
       seq (wrapping ''jsonl: resolve workspace path'' (Abs cwd (cfg_WorkspacePath cfg))) (build root0)) s0 = (Inr st, t)"
    using assms(1) unfolding NewStore_def if_not_P [OF b(1)] if_not_P [OF b(2)] build_def by (rule seq_okE)
  then obtain x s1 where s1: "wrapping ''jsonl: resolve root directory'' (Abs cwd (cfg_RootDir cfg)) s0 = (Inr x, s1)"
      "seq (wrapping ''jsonl: resolve workspace path'' (Abs cwd (cfg_WorkspacePath cfg))) (build x) s1 = (Inr st, t)"
    by (rule seq_okE)
  from s1(2) obtain y s2 where s2: "wrapping ''jsonl: resolve workspace path'' (Abs cwd (cfg_WorkspacePath cfg)) s1 = (Inr y, s2)"
      "build x y s2 = (Inr st, t)"
    by (rule seq_okE)
  have xy: "x = abs_of cwd (cfg_RootDir cfg)" "y = abs_of cwd (cfg_WorkspacePath cfg)"
    using s1(1) s2(1) by (auto elim!: wrapping_cases dest: Abs_result)
  let ?st = "store_at uni ?root ?wsp"
  have "build x y = seq (ensure_all [?root, Join [?root, ''projects''], projectDir ?st, storeDir ?st, locksDir ?st]) (\<lambda>_.
       seq (wrapping ''jsonl: recover deleted transcripts'' (recoverDeletedTranscripts (projectDir ?st))) (\<lambda>_. ret ?st))"
    by (simp add: build_def xy store_at_def project_name_def Let_def)
  from s2(2) [unfolded this] obtain u where u: "seq (wrapping ''jsonl: recover deleted transcripts''
      (recoverDeletedTranscripts (projectDir ?st))) (\<lambda>_. ret ?st) u = (Inr st, t)"
    by (rule seq_okE)
  have "st = ?st" "recoverDeletedTranscripts (projectDir ?st) u = (Inr (), t)"
    using u by (auto simp: ret_def elim!: seq_cases wrapping_cases)
  moreover have "abs_path ?root" "abs_path ?wsp"
    using b by (auto intro!: Clean_abs abs_path_prefix abs_of_abs [OF assms(2)])
  ultimately show ?thesis using that by blast
qed

text \<open>Without faults a store is opened.\<close>

lemma quiet_remove_staged:
  "faults s = [] \<Longrightarrow> \<exists>c t. remove_staged dir ns b s = (Inr c, t) \<and> faults t = []"
proof (induction ns arbitrary: b s)
  case (Cons n ns)
  have "remove_file (join_path dir n) s = (Inr (), del_file (join_path dir n) s)"
    using Cons.prems by (simp add: remove_file_def quiet_seq_sys)
  then show ?case using Cons.IH [of s b] Cons.IH [of "del_file (join_path dir n) s" True] Cons.prems
    by (simp add: seq_ok)
qed (simp add: ret_def)

lemma quiet_syncDir: "faults s = [] \<Longrightarrow> syncDir s = (Inr (), s)"
  by (simp add: syncDir_def quiet_seq_sys)

lemma quiet_recover: "faults s = [] \<Longrightarrow> \<exists>t. recoverDeletedTranscripts dir s = (Inr (), t)"
proof -
  assume q: "faults s = []"
  obtain c t where "remove_staged dir (dir_entries dir s) False s = (Inr c, t)" "faults t = []"
    using quiet_remove_staged [OF q] by blast
  then show ?thesis using q
    by (simp add: recoverDeletedTranscripts_def quiet_seq_sys seq_ok quiet_syncDir ret_def)
qed

lemma quiet_ensure_all: "faults s = [] \<Longrightarrow> ensure_all ds s = (Inr (), s)"
  by (induction ds) (simp_all add: ret_def seq_ok wrapping_ok ensurePrivateDir_def quiet_seq_sys)

lemma quiet_Abs: "faults s = [] \<Longrightarrow> Abs cwd p s = (Inr (abs_of cwd p), s)"
  by (simp add: Abs_def abs_of_def quiet_seq_sys ret_def)

lemma quiet_NewStore:
  assumes "faults s = []" "abs_path root" "abs_path wsp"
  shows "\<exists>t. NewStore uni cwd \<lparr>cfg_RootDir = root, cfg_WorkspacePath = wsp\<rparr> s = (Inr (store_at uni root wsp), t)"
proof -
  obtain t where t: "recoverDeletedTranscripts (projectDir (store_at uni root wsp)) s = (Inr (), t)"
    using quiet_recover [OF assms(1)] by blast
  have "NewStore uni cwd \<lparr>cfg_RootDir = root, cfg_WorkspacePath = wsp\<rparr> s = (Inr (store_at uni root wsp), t)"
    using t assms
    by (simp add: NewStore_def quiet_seq_sys blank_abs quiet_Abs wrapping_ok seq_ok abs_of_id Clean_id
        quiet_ensure_all store_at_def project_name_def Let_def ret_def del: ensure_all.simps)
  then show ?thesis by blast
qed

lemma transcript_unstaged: "\<not> staged (transcript st sid)"
  by (auto simp: staged_def transcript_def join_path_def suffix_def)

text \<open>
  C22: NewStore removes nothing but staged transcripts (\<open>*.jsonl.deleted\<close>) and changes no file,
  whatever fails, so every session of every store is read as before. A store it returns has the
  layout that the theorems on the JSONL store assume, its project directory is one plain name below
  the directory projects, whatever characters the workspace's path has, and no staged transcript is
  left in it; opening the store's own paths again gives the same store.
\<close>

lemma jsonl_open:
  assumes "prefix ''/'' cwd" "NewStore uni cwd cfg s = (r, t)"
  shows "(\<forall>p. file_at t p = file_at s p \<or> (suffix ''.jsonl.deleted'' p \<and> file_at t p = None)) \<and>
    (no_cut s \<longrightarrow> (\<forall>st sid. look st t sid = look st s sid)) \<and>
    (\<forall>st. r = Inr st \<longrightarrow> store_ok st \<and>
      (\<exists>n. n \<notin> {[], ''.'', ''..''} \<and> CHR ''/'' \<notin> set n \<and>
        projectDir st = join_path (Join [rootDir st, ''projects'']) n) \<and>
      (\<forall>n \<in> set (dir_entries (projectDir st) t). \<not> suffix ''.jsonl.deleted'' n) \<and>
      (faults t = [] \<longrightarrow> (\<exists>u. NewStore uni cwd \<lparr>cfg_RootDir = rootDir st, cfg_WorkspacePath = workspace st\<rparr> t = (Inr st, u))))"
proof (intro conjI allI impI)
  have w: "sweep s t" by (rule sweepsD [OF sweeps_NewStore assms(2)])
  show "file_at t p = file_at s p \<or> (suffix ''.jsonl.deleted'' p \<and> file_at t p = None)" for p
    using w by (simp add: sweep_def staged_def)
  show "look st t sid = look st s sid" if "no_cut s" for st sid
    using w that transcript_unstaged by (auto simp: sweep_def intro: look_keeps)
next
  fix st
  assume "r = Inr st"
  with assms obtain root wsp u where st: "abs_path root" "abs_path wsp" "st = store_at uni root wsp"
    and rec: "recoverDeletedTranscripts (projectDir st) u = (Inr (), t)"
    by (auto elim: NewStore_inv)
  have parts: "rootDir st = root" "workspace st = wsp" by (simp_all add: st(3) store_at_def Let_def)
  show "store_ok st" using store_at_ok(1) [OF st(1)] st(3) by simp
  show "\<exists>n. n \<notin> {[], ''.'', ''..''} \<and> CHR ''/'' \<notin> set n \<and>
      projectDir st = join_path (Join [rootDir st, ''projects'']) n"
    using project_name_plain [of uni wsp] store_at_ok(2) [OF st(1), of uni wsp] parts st(3)
    by (intro exI [of _ "project_name uni wsp"]) (simp add: plain_name_def no_slash_def)
  show "\<forall>n \<in> set (dir_entries (projectDir st) t). \<not> suffix ''.jsonl.deleted'' n"
    using recovered [OF rec] by (intro ballI)
  show "\<exists>u. NewStore uni cwd \<lparr>cfg_RootDir = rootDir st, cfg_WorkspacePath = workspace st\<rparr> t = (Inr st, u)"
    if "faults t = []"
    using quiet_NewStore [OF that st(1,2)] st(3) parts by simp
qed

section \<open>A workspace at a concrete path\<close>

lemma be_bytes_numeral: "be_bytes (numeral k) n = be_bytes (pred_numeral k) (n div 256) @ [n mod 256]"
  by (subst numeral_eq_Suc) (simp only: be_bytes.simps)

lemma replicate_numeral_eq: "replicate (numeral k) x = x # replicate (pred_numeral k) x"
  by (subst numeral_eq_Suc) (simp only: replicate_Suc)

lemma sha_words_w: "be_words (sha_pad (map of_char ''/w'')) = [0x2F778000, 0x00000000, 0x00000000, 0x00000000, 0x00000000, 0x00000000, 0x00000000, 0x00000000, 0x00000000, 0x00000000, 0x00000000, 0x00000000, 0x00000000, 0x00000000, 0x00000000, 0x00000010]"
  by (simp add: sha_pad_def be_bytes_numeral replicate_numeral_eq)

lemma sha_block_w: "sha_block [0x2F778000, 0x00000000, 0x00000000, 0x00000000, 0x00000000, 0x00000000, 0x00000000, 0x00000000, 0x00000000, 0x00000000, 0x00000000, 0x00000000, 0x00000000, 0x00000000, 0x00000000, 0x00000010] sha_init =
    [0xD1BB8CA3, 0x54673CD5, 0x75D31D95, 0x2490058C, 0x9943AEF3, 0x9D5A9553, 0xFB4A21AB, 0x7A59A19D]"
  by code_simp

lemma sha256_w: "hex_of (sha256 ''/w'') = ''d1bb8ca354673cd575d31d952490058c9943aef39d5a9553fb4a21ab7a59a19d''"
proof -
  let ?ws = "[0x2F778000, 0x00000000, 0x00000000, 0x00000000, 0x00000000, 0x00000000, 0x00000000, 0x00000000, 0x00000000, 0x00000000, 0x00000000, 0x00000000, 0x00000000, 0x00000000, 0x00000000, 0x00000010] :: 32 word list"
  have "sha_blocks (length ?ws div 16) ?ws sha_init = [0xD1BB8CA3, 0x54673CD5, 0x75D31D95, 0x2490058C, 0x9943AEF3, 0x9D5A9553, 0xFB4A21AB, 0x7A59A19D]"
    using sha_block_w by simp
  then have "sha256 ''/w'' = map char_of (concat (map (\<lambda>w. be_bytes 4 (unat w))
      ([0xD1BB8CA3, 0x54673CD5, 0x75D31D95, 0x2490058C, 0x9943AEF3, 0x9D5A9553, 0xFB4A21AB, 0x7A59A19D] :: 32 word list)))"
    unfolding sha256_def sha_words_w Let_def by (simp only:)
  then show ?thesis by (simp add: be_bytes_numeral hex_of_def hex_digit_def) (simp add: char_of_def bit_0)
qed

lemma slug_w: "workspaceSlug uni ''/w'' = (''w'', ''d1bb8ca35467'')"
  by (simp add: workspaceSlug_def Let_def sha256_w trim_dash_def letter_or_digit_def)

text \<open>The project of the workspace /w below /r holds a transcript and a staged one.\<close>

definition w_project :: string where
  "w_project = ''/r/projects/w-d1bb8ca35467''"

definition w_staged :: os where
  "w_staged = (w_os [])\<lparr>files := [(join_path w_project ''a.jsonl'', ''x''), (join_path w_project ''a.jsonl.deleted'', ''x'')]\<rparr>"

lemma Join_w:
  "Join [''/r'', ''projects''] = ''/r/projects''" "Join [''/r/projects'', ''w-d1bb8ca35467''] = w_project"
  "Clean ''/r'' = ''/r''" "Clean ''/w'' = ''/w''" "Join [''/w'', ''r/.''] = ''/w/r''"
  by code_simp+

lemma jsonl_open_w:
  "fst (NewStore (\<lambda>_. False) ''/w'' \<lparr>cfg_RootDir = ''/r'', cfg_WorkspacePath = ''/w''\<rparr> w_staged) = Inr (store_at (\<lambda>_. False) ''/r'' ''/w'')"
  "projectDir (store_at (\<lambda>_. False) ''/r'' ''/w'') = w_project"
proof -
  have "abs_path ''/r''" "abs_path ''/w''"
    using Clean_abs [of "''/r''"] Clean_abs [of "''/w''"] by (simp_all add: Join_w)
  moreover have "faults w_staged = []" by (simp add: w_staged_def w_os_def)
  ultimately obtain t where "NewStore (\<lambda>_. False) ''/w'' \<lparr>cfg_RootDir = ''/r'', cfg_WorkspacePath = ''/w''\<rparr> w_staged
      = (Inr (store_at (\<lambda>_. False) ''/r'' ''/w''), t)"
    using quiet_NewStore by blast
  then show "fst (NewStore (\<lambda>_. False) ''/w'' \<lparr>cfg_RootDir = ''/r'', cfg_WorkspacePath = ''/w''\<rparr> w_staged)
      = Inr (store_at (\<lambda>_. False) ''/r'' ''/w'')" by simp
qed (simp add: store_at_def Let_def project_name_def slug_w Join_w)

lemma jsonl_open_witness:
  "\<exists>st t. NewStore (\<lambda>_. False) ''/w'' \<lparr>cfg_RootDir = ''/r'', cfg_WorkspacePath = ''/w''\<rparr> w_staged = (Inr st, t) \<and>
     projectDir st = w_project \<and> store_ok st \<and> file_at t (join_path w_project ''a.jsonl'') = Some ''x'' \<and>
     file_at t (join_path w_project ''a.jsonl.deleted'') = None"
proof -
  let ?st = "store_at (\<lambda>_. False) ''/r'' ''/w''"
  obtain t where t: "NewStore (\<lambda>_. False) ''/w'' \<lparr>cfg_RootDir = ''/r'', cfg_WorkspacePath = ''/w''\<rparr> w_staged = (Inr ?st, t)"
    using jsonl_open_w(1) by (metis prod.collapse)
  note o = jsonl_open [OF _ t, simplified]
  have ok: "store_ok ?st" using o by blast
  have "file_at t (join_path w_project ''a.jsonl'') = file_at w_staged (join_path w_project ''a.jsonl'')"
    using o by (auto simp: suffix_def join_path_def)
  moreover have "''a.jsonl.deleted'' \<notin> set (dir_entries w_project t)"
    using o jsonl_open_w(2) by (auto simp: suffix_def)
  ultimately show ?thesis using t ok jsonl_open_w(2)
    by (simp add: dir_entries_at no_slash_def w_staged_def)
qed

end
