(* ===== verification/Mcp_Sse.thy ===== *)
theory Mcp_Sse
  imports Mcp
begin

text \<open>
  mcp/transport_sse.go: the transport over server-sent events. Calls of Send and Notify, the
  goroutines that read the streams, timers and contexts run at the same time; a step of the
  machine is what one of them does between two points where another one can come in, and names
  what the network or the timer gave. \<open>sse_step\<close> is None for a step that cannot happen, so a list
  of steps is one interleaving.
\<close>

section \<open>The text of a stream\<close>

text \<open>The state of the scanner loop: the type and the data of the event being read.\<close>

definition read_line :: "string \<Rightarrow> string \<times> string \<Rightarrow> (string \<times> string) option \<times> (string \<times> string)" where
  "read_line line ev =
     (if line = [] then (if fst ev \<noteq> [] \<and> snd ev \<noteq> [] then Some ev else None, ([], []))
      else if prefix ''event: '' line then (None, (drop 7 line, snd ev))
      else if prefix ''data: '' line then (None, (fst ev, drop 6 line))
      else (None, ev))"

text \<open>strings.Index.\<close>

fun str_index :: "string \<Rightarrow> string \<Rightarrow> nat option" where
  "str_index sub [] = (if sub = [] then Some 0 else None)"
| "str_index sub (c # cs) = (if prefix sub (c # cs) then Some 0 else map_option Suc (str_index sub cs))"

definition base_url :: "string \<Rightarrow> string" where
  "base_url url =
     (case str_index ''://'' url of
        None \<Rightarrow> url
      | Some i \<Rightarrow>
          (case str_index ''/'' (drop (i + 3) url) of None \<Rightarrow> url | Some j \<Rightarrow> take (i + 3 + j) url))"

definition message_url :: "string \<Rightarrow> string \<Rightarrow> string" where
  "message_url url endpoint = (if prefix ''/'' endpoint then base_url url @ endpoint else endpoint)"

text \<open>A JSON-RPC message with its id; the id of a message without one is 0.\<close>

definition dec_rpc_message :: "json \<Rightarrow> (int \<times> rpc_response) option" where
  "dec_rpc_message v = do {
     r \<leftarrow> dec_rpc_response v;
     i \<leftarrow> dec_struct (\<lambda>kvs. dec_int64 (jmember ''id'' kvs)) v;
     Some (i, r) }"

text \<open>What Send makes of an answer; \<open>accept\<close> tells how the caller's value refuses a result, if it does.\<close>

definition rpc_result :: "(json \<Rightarrow> error option) \<Rightarrow> rpc_response \<Rightarrow> error + json option" where
  "rpc_result accept r =
     (case rp_error r of
        Some (c, m) \<Rightarrow> Inl (ErrMsg (''mcp sse: rpc error '' @ int_text c @ '': '' @ m))
      | None \<Rightarrow>
          (case rp_result r of
             None \<Rightarrow> Inr None
           | Some v \<Rightarrow> (case accept v of None \<Rightarrow> Inr (Some v) | Some e \<Rightarrow> Inl (wrapf ''mcp sse: unmarshal result'' e))))"

section \<open>The machine\<close>

text \<open>
  Where a call is: at the start of connect, behind its look at \<open>connected\<close>, at the GET, in the select on
  the endpoint of stream \<open>k\<close>, behind connect, behind nextRequestID, at the POST, in the select on its
  channel, about to take its entry out of \<open>pending\<close>, or back at its caller.
\<close>

datatype sse_pc =
    Connecting | Opening | Requesting | AwaitEndpoint nat | Ready | Registering | Posting | Waiting
  | Forgetting error | Returned "error + json option"

text \<open>
  \<open>cl_accept\<close> is the decoding into the caller's result, \<open>cl_ended\<close> says that the context of the call has
  ended, \<open>cl_cancelled\<close> that the context has which connect derives from it for the GET and its stream.
\<close>

record sse_call =
  cl_method :: string
  cl_params :: "json option"
  cl_accept :: "json \<Rightarrow> error option"
  cl_notify :: bool
  cl_id :: "int option"
  cl_chan :: "rpc_response option"
  cl_ended :: bool
  cl_cancelled :: bool
  cl_pc :: sse_pc

text \<open>\<open>rd_ctx\<close> is the call that opened the stream.\<close>

record sse_reader =
  rd_event :: "string \<times> string"
  rd_endpoint :: "string option"
  rd_alive :: bool
  rd_ctx :: nat

text \<open>
  \<open>sse_pending\<close> maps an id to the call whose channel it leads to; \<open>sse_done\<close> says that the channel
  done was closed; \<open>sse_cancel\<close> is the call whose GET the field cancel ends. \<open>sse_log\<close> is no state of the code: the messages the streams brought.
\<close>

record sse =
  sse_url :: string
  sse_headers :: "(string \<times> string) list"
  sse_connected :: bool
  sse_messageURL :: string
  sse_nextID :: int
  sse_pending :: "int \<Rightarrow> nat option"
  sse_cancel :: "nat option"
  sse_done :: bool
  sse_panicked :: bool
  sse_readers :: "sse_reader list"
  sse_calls :: "sse_call list"
  sse_log :: "(int \<times> rpc_response) list"

definition NewSSETransport :: "string \<Rightarrow> (string \<times> string) list \<Rightarrow> sse" where
  "NewSSETransport url headers =
     \<lparr>sse_url = url, sse_headers = headers, sse_connected = False, sse_messageURL = [], sse_nextID = 0,
      sse_pending = (\<lambda>_. None), sse_cancel = None, sse_done = False, sse_panicked = False,
      sse_readers = [], sse_calls = [], sse_log = []\<rparr>"

definition goto :: "nat \<Rightarrow> sse_pc \<Rightarrow> sse \<Rightarrow> sse" where
  "goto c pc s = s\<lparr>sse_calls := (sse_calls s)[c := (sse_calls s ! c)\<lparr>cl_pc := pc\<rparr>]\<rparr>"

text \<open>The context of the GET and the stream of call \<open>c\<close> is cancelled.\<close>

definition cancel_get :: "nat \<Rightarrow> sse \<Rightarrow> sse" where
  "cancel_get c s = s\<lparr>sse_calls := (sse_calls s)[c := (sse_calls s ! c)\<lparr>cl_cancelled := True\<rparr>]\<rparr>"

section \<open>connect\<close>

text \<open>What a request gives: nothing came back, or a status and a body.\<close>

datatype http_outcome = NoAnswer error | Answer int string

definition sse_connect_check :: "nat \<Rightarrow> sse \<Rightarrow> sse" where
  "sse_connect_check c s = goto c (if sse_connected s then Ready else Opening) s"

text \<open>The field cancel is set before the request is made, and stays when it fails.\<close>

definition sse_connect_request :: "nat \<Rightarrow> error option \<Rightarrow> sse \<Rightarrow> sse" where
  "sse_connect_request c bad s =
     goto c (case bad of None \<Rightarrow> Requesting | Some e \<Rightarrow> Returned (Inl (wrapf ''mcp sse: create request'' e)))
       (s\<lparr>sse_cancel := Some c\<rparr>)"

text \<open>The GET comes back, with the whole body when it is an error; its client has no timeout.\<close>

definition sse_connect_open :: "nat \<Rightarrow> http_outcome \<Rightarrow> sse \<Rightarrow> sse" where
  "sse_connect_open c out s =
     (case out of
        NoAnswer e \<Rightarrow> goto c (Returned (Inl (wrapf ''mcp sse: connect'' e))) s
      | Answer status body \<Rightarrow>
          if status \<noteq> 200 then
            goto c (Returned (Inl (ErrMsg (''mcp sse: server returned '' @ int_text status @ '': '' @ body)))) s
          else
            goto c (AwaitEndpoint (length (sse_readers s)))
              (s\<lparr>sse_readers := sse_readers s @
                   [\<lparr>rd_event = ([], []), rd_endpoint = None, rd_alive = True, rd_ctx = c\<rparr>]\<rparr>))"

definition sse_connect_endpoint :: "nat \<Rightarrow> nat \<Rightarrow> sse \<Rightarrow> sse option" where
  "sse_connect_endpoint c k s =
     (case rd_endpoint (sse_readers s ! k) of
        None \<Rightarrow> None
      | Some endpoint \<Rightarrow> Some (goto c Ready
          (s\<lparr>sse_messageURL := message_url (sse_url s) endpoint, sse_connected := True,
             sse_readers := (sse_readers s)[k := (sse_readers s ! k)\<lparr>rd_endpoint := None\<rparr>]\<rparr>)))"

definition sse_connect_fail :: "nat \<Rightarrow> error \<Rightarrow> sse \<Rightarrow> sse" where
  "sse_connect_fail c e s = goto c (Returned (Inl e)) (cancel_get c s)"

definition endpoint_timeout :: error where
  "endpoint_timeout = ErrMsg ''mcp sse: timed out waiting for endpoint event''"

definition ctx_error :: error where
  "ctx_error = ErrMsg ''context canceled''"

section \<open>Send and Notify\<close>

definition sse_draw_id :: "nat \<Rightarrow> sse \<Rightarrow> sse" where
  "sse_draw_id c s =
     (let i = sse_nextID s + 1 in
      s\<lparr>sse_nextID := i,
        sse_calls := (sse_calls s)[c := (sse_calls s ! c)\<lparr>cl_id := Some i, cl_pc := Registering\<rparr>]\<rparr>)"

definition sse_register :: "nat \<Rightarrow> int \<Rightarrow> sse \<Rightarrow> sse" where
  "sse_register c i s = goto c Posting (s\<lparr>sse_pending := (sse_pending s)(i \<mapsto> c)\<rparr>)"

text \<open>
  The request is marshalled and posted, by a client with a timeout of 30 seconds; the first two failures,
  of the marshalling and of making the request, leave the entry in \<open>pending\<close>.
\<close>

definition sse_post :: "nat \<Rightarrow> int \<Rightarrow> error + http_outcome \<Rightarrow> sse \<Rightarrow> sse" where
  "sse_post c i out s =
     (case json_Marshal (rpc_request i (cl_method (sse_calls s ! c)) (cl_params (sse_calls s ! c))) of
        Inl e \<Rightarrow> goto c (Returned (Inl (wrapf ''mcp sse: marshal request'' e))) s
      | Inr _ \<Rightarrow>
          (case out of
             Inl e \<Rightarrow> goto c (Returned (Inl (wrapf ''mcp sse: create post request'' e))) s
           | Inr (NoAnswer e) \<Rightarrow> goto c (Forgetting (wrapf ''mcp sse: post request failed'' e)) s
           | Inr (Answer status body) \<Rightarrow>
               if status \<ge> 400 then goto c (Forgetting (ErrMsg (''mcp sse: post returned '' @ int_text status))) s
               else goto c Waiting s))"

text \<open>A notification ignores the status of its answer.\<close>

definition sse_notify :: "nat \<Rightarrow> error + http_outcome \<Rightarrow> sse \<Rightarrow> sse" where
  "sse_notify c out s =
     (case json_Marshal (rpc_request 0 (cl_method (sse_calls s ! c)) (cl_params (sse_calls s ! c))) of
        Inl e \<Rightarrow> goto c (Returned (Inl e)) s
      | Inr _ \<Rightarrow>
          (case out of
             Inl e \<Rightarrow> goto c (Returned (Inl e)) s
           | Inr (NoAnswer e) \<Rightarrow> goto c (Returned (Inl e)) s
           | Inr (Answer status body) \<Rightarrow> goto c (Returned (Inr None)) s))"

definition sse_receive :: "nat \<Rightarrow> sse \<Rightarrow> sse option" where
  "sse_receive c s =
     (case cl_chan (sse_calls s ! c) of
        None \<Rightarrow> None
      | Some r \<Rightarrow> Some (s\<lparr>sse_calls :=
          (sse_calls s)[c := (sse_calls s ! c)\<lparr>cl_chan := None, cl_pc := Returned (rpc_result (cl_accept (sse_calls s ! c)) r)\<rparr>]\<rparr>))"

definition answer_timeout :: "string \<Rightarrow> error" where
  "answer_timeout method = ErrMsg (''mcp sse: timed out waiting for response to '' @ method)"

definition sse_forget :: "nat \<Rightarrow> int \<Rightarrow> error \<Rightarrow> sse \<Rightarrow> sse" where
  "sse_forget c i e s = goto c (Returned (Inl e)) (s\<lparr>sse_pending := (sse_pending s)(i := None)\<rparr>)"

section \<open>The goroutine of a stream\<close>

text \<open>
  handleSSEEvent. The endpoint channel takes one value and drops the others. The channel of a call
  holds one message; a second one would block the goroutine while it holds the mutex of \<open>pending\<close>,
  which is \<open>None\<close>.
\<close>

definition handleSSEEvent :: "nat \<Rightarrow> string \<Rightarrow> string \<Rightarrow> sse \<Rightarrow> sse option" where
  "handleSSEEvent k typ data s =
     (if typ = ''endpoint'' then
        Some (case rd_endpoint (sse_readers s ! k) of
                None \<Rightarrow> s\<lparr>sse_readers := (sse_readers s)[k := (sse_readers s ! k)\<lparr>rd_endpoint := Some data\<rparr>]\<rparr>
              | Some _ \<Rightarrow> s)
      else if typ = ''message'' then
        (case Option.bind (json_Unmarshal data) dec_rpc_message of
           None \<Rightarrow> Some s
         | Some (i, r) \<Rightarrow>
             (let s' = s\<lparr>sse_log := sse_log s @ [(i, r)]\<rparr> in
              case sse_pending s i of
                None \<Rightarrow> Some s'
              | Some c \<Rightarrow>
                  if cl_chan (sse_calls s ! c) \<noteq> None then None
                  else Some (s'\<lparr>sse_calls := (sse_calls s)[c := (sse_calls s ! c)\<lparr>cl_chan := Some r\<rparr>],
                                sse_pending := (sse_pending s)(i := None)\<rparr>)))
      else Some s)"

definition sse_read :: "nat \<Rightarrow> string \<Rightarrow> sse \<Rightarrow> sse option" where
  "sse_read k line s =
     (case read_line line (rd_event (sse_readers s ! k)) of
        (done, ev) \<Rightarrow>
          (let s1 = s\<lparr>sse_readers := (sse_readers s)[k := (sse_readers s ! k)\<lparr>rd_event := ev\<rparr>]\<rparr> in
           case done of None \<Rightarrow> Some s1 | Some (typ, data) \<Rightarrow> handleSSEEvent k typ data s1))"

text \<open>The end of a stream runs \<open>close(t.done)\<close>; closing a closed channel panics.\<close>

definition sse_end :: "nat \<Rightarrow> sse \<Rightarrow> sse" where
  "sse_end k s =
     (let s1 = s\<lparr>sse_readers := (sse_readers s)[k := (sse_readers s ! k)\<lparr>rd_alive := False\<rparr>]\<rparr> in
      if sse_done s then s1\<lparr>sse_panicked := True\<rparr> else s1\<lparr>sse_done := True\<rparr>)"

definition sse_close :: "sse \<Rightarrow> sse" where
  "sse_close s = (case sse_cancel s of None \<Rightarrow> s | Some c \<Rightarrow> cancel_get c s)"

definition sse_end_context :: "nat \<Rightarrow> sse \<Rightarrow> sse" where
  "sse_end_context c s =
     s\<lparr>sse_calls := (sse_calls s)[c := (sse_calls s ! c)\<lparr>cl_ended := True, cl_cancelled := True\<rparr>]\<rparr>"

section \<open>Steps\<close>

datatype sse_label =
    Begin string "json option" "json \<Rightarrow> error option" bool
  | CheckConnected nat
  | MakeRequest nat "error option"
  | OpenStream nat http_outcome
  | EndpointArrives nat
  | EndpointTimeout nat
  | EndpointCancelled nat
  | DrawId nat
  | RegisterCall nat
  | Post nat "error + http_outcome"
  | TakeAnswer nat
  | AnswerTimeout nat
  | AnswerCancelled nat
  | Forget nat
  | ReadLine nat string
  | StreamEnds nat
  | ContextEnds nat
  | CloseTransport

text \<open>The call a step belongs to.\<close>

fun step_call :: "sse_label \<Rightarrow> nat option" where
  "step_call (CheckConnected c) = Some c"
| "step_call (MakeRequest c bad) = Some c"
| "step_call (OpenStream c out) = Some c"
| "step_call (EndpointArrives c) = Some c"
| "step_call (EndpointTimeout c) = Some c"
| "step_call (EndpointCancelled c) = Some c"
| "step_call (DrawId c) = Some c"
| "step_call (RegisterCall c) = Some c"
| "step_call (Post c out) = Some c"
| "step_call (TakeAnswer c) = Some c"
| "step_call (AnswerTimeout c) = Some c"
| "step_call (AnswerCancelled c) = Some c"
| "step_call (Forget c) = Some c"
| "step_call _ = None"

text \<open>What the steps of a call do, from where it stands.\<close>

fun call_step :: "sse_label \<Rightarrow> nat \<Rightarrow> sse_call \<Rightarrow> sse \<Rightarrow> sse option" where
  "call_step (CheckConnected _) c x s = (if cl_pc x = Connecting then Some (sse_connect_check c s) else None)"
| "call_step (MakeRequest _ bad) c x s = (if cl_pc x = Opening then Some (sse_connect_request c bad s) else None)"
| "call_step (OpenStream _ out) c x s = (if cl_pc x = Requesting then Some (sse_connect_open c out s) else None)"
| "call_step (EndpointArrives _) c x s =
     (case cl_pc x of AwaitEndpoint k \<Rightarrow> sse_connect_endpoint c k s | _ \<Rightarrow> None)"
| "call_step (EndpointTimeout _) c x s =
     (case cl_pc x of AwaitEndpoint k \<Rightarrow> Some (sse_connect_fail c endpoint_timeout s) | _ \<Rightarrow> None)"
| "call_step (EndpointCancelled _) c x s =
     (case cl_pc x of
        AwaitEndpoint k \<Rightarrow> if cl_ended x then Some (sse_connect_fail c ctx_error s) else None
      | _ \<Rightarrow> None)"
| "call_step (DrawId _) c x s = (if cl_pc x = Ready \<and> \<not> cl_notify x then Some (sse_draw_id c s) else None)"
| "call_step (RegisterCall _) c x s =
     (case (cl_pc x, cl_id x) of (Registering, Some i) \<Rightarrow> Some (sse_register c i s) | _ \<Rightarrow> None)"
| "call_step (Post _ out) c x s =
     (if cl_pc x = Ready \<and> cl_notify x then Some (sse_notify c out s)
      else case (cl_pc x, cl_id x) of (Posting, Some i) \<Rightarrow> Some (sse_post c i out s) | _ \<Rightarrow> None)"
| "call_step (TakeAnswer _) c x s = (if cl_pc x = Waiting then sse_receive c s else None)"
| "call_step (AnswerTimeout _) c x s =
     (if cl_pc x = Waiting then Some (goto c (Forgetting (answer_timeout (cl_method x))) s) else None)"
| "call_step (AnswerCancelled _) c x s =
     (if cl_pc x = Waiting \<and> cl_ended x then Some (goto c (Forgetting ctx_error) s) else None)"
| "call_step (Forget _) c x s =
     (case (cl_pc x, cl_id x) of (Forgetting e, Some i) \<Rightarrow> Some (sse_forget c i e s) | _ \<Rightarrow> None)"
| "call_step _ c x s = None"

fun env_step :: "sse_label \<Rightarrow> sse \<Rightarrow> sse option" where
  "env_step (Begin method params accept notify) s =
     Some (s\<lparr>sse_calls := sse_calls s @
       [\<lparr>cl_method = method, cl_params = params, cl_accept = accept, cl_notify = notify, cl_id = None,
         cl_chan = None, cl_ended = False, cl_cancelled = False, cl_pc = Connecting\<rparr>]\<rparr>)"
| "env_step (ReadLine k line) s =
     (if k < length (sse_readers s) \<and> rd_alive (sse_readers s ! k) then sse_read k line s else None)"
| "env_step (StreamEnds k) s =
     (if k < length (sse_readers s) \<and> rd_alive (sse_readers s ! k) then Some (sse_end k s) else None)"
| "env_step (ContextEnds c) s = (if c < length (sse_calls s) then Some (sse_end_context c s) else None)"
| "env_step CloseTransport s = Some (sse_close s)"
| "env_step _ s = None"

definition sse_step :: "sse_label \<Rightarrow> sse \<Rightarrow> sse option" where
  "sse_step l s =
     (if sse_panicked s then None
      else case step_call l of
        None \<Rightarrow> env_step l s
      | Some c \<Rightarrow> if c < length (sse_calls s) then call_step l c (sse_calls s ! c) s else None)"

inductive sse_run :: "sse \<Rightarrow> sse_label list \<Rightarrow> sse \<Rightarrow> bool" where
  none: "sse_run s [] s"
| step: "sse_run s ls t \<Longrightarrow> sse_step l t = Some u \<Longrightarrow> sse_run s (ls @ [l]) u"

inductive_cases run_snoc: "sse_run s (ls @ [l]) u"

end
