(* ===== verification/Mcp_Sse_Spec.thy ===== *)
theory Mcp_Sse_Spec
  imports Mcp_Sse
begin

text \<open>
  What holds in every interleaving of the calls and streams of an SSE transport: answers go to the
  call that asked, the goroutine of a stream never blocks, a call waits for nothing without a timer but
  the GET of a stream; and where the transport stops working: the end of a second stream is a panic, and
  a transport whose stream has ended answers no call any more.
\<close>

section \<open>The invariant\<close>

text \<open>What holds of one call \<open>x\<close>, the \<open>c\<close>-th one.\<close>

definition answered :: "sse \<Rightarrow> sse_call \<Rightarrow> rpc_response \<Rightarrow> bool" where
  "answered s x r \<longleftrightarrow> (\<exists>i. cl_id x = Some i \<and> (i, r) \<in> set (sse_log s))"

fun pc_ok :: "sse \<Rightarrow> nat \<Rightarrow> sse_call \<Rightarrow> sse_pc \<Rightarrow> bool" where
  "pc_ok s c x Connecting = (cl_id x = None)"
| "pc_ok s c x Opening = (cl_id x = None)"
| "pc_ok s c x Requesting = (cl_id x = None)"
| "pc_ok s c x (AwaitEndpoint k) = (cl_id x = None \<and> k < length (sse_readers s))"
| "pc_ok s c x Ready = (cl_id x = None)"
| "pc_ok s c x Registering = (cl_id x \<noteq> None \<and> \<not> cl_notify x \<and> cl_chan x = None \<and> c \<notin> ran (sse_pending s))"
| "pc_ok s c x Posting = (cl_id x \<noteq> None \<and> \<not> cl_notify x)"
| "pc_ok s c x Waiting = (cl_id x \<noteq> None \<and> \<not> cl_notify x)"
| "pc_ok s c x (Forgetting e) = (cl_id x \<noteq> None \<and> \<not> cl_notify x)"
| "pc_ok s c x (Returned v) = (\<forall>y. v = Inr y \<longrightarrow> cl_notify x \<or> (\<exists>r. answered s x r \<and> rpc_result (cl_accept x) r = Inr y))"

definition call_ok :: "sse \<Rightarrow> nat \<Rightarrow> sse_call \<Rightarrow> bool" where
  "call_ok s c x \<longleftrightarrow>
     (\<forall>i. cl_id x = Some i \<longrightarrow> i \<le> sse_nextID s) \<and>
     (\<forall>i. sse_pending s i = Some c \<longrightarrow> cl_id x = Some i \<and> cl_chan x = None) \<and>
     (\<forall>r. cl_chan x = Some r \<longrightarrow> answered s x r) \<and> pc_ok s c x (cl_pc x)"

definition ids_differ :: "sse_call list \<Rightarrow> bool" where
  "ids_differ xs \<longleftrightarrow> (\<forall>c d i. c < length xs \<longrightarrow> d < length xs \<longrightarrow> cl_id (xs ! c) = Some i \<longrightarrow>
     cl_id (xs ! d) = Some i \<longrightarrow> c = d)"

definition sse_inv :: "sse \<Rightarrow> bool" where
  "sse_inv s \<longleftrightarrow> (\<forall>c < length (sse_calls s). call_ok s c (sse_calls s ! c)) \<and>
     (\<forall>i c. sse_pending s i = Some c \<longrightarrow> c < length (sse_calls s)) \<and> ids_differ (sse_calls s)"

lemma inv_init: "sse_inv (NewSSETransport url headers)"
  by (simp add: sse_inv_def NewSSETransport_def ids_differ_def)

lemma ids_differ_update:
  assumes "ids_differ xs" "cl_id y = cl_id (xs ! c)"
  shows "ids_differ (xs[c := y])"
proof -
  have "cl_id (xs[c := y] ! d) = cl_id (xs ! d)" if "d < length xs" for d
    using that assms(2) by (cases "c = d") simp_all
  then show ?thesis using assms(1) by (simp add: ids_differ_def)
qed

text \<open>
  A step of the call \<open>c\<close>: its record becomes \<open>y\<close>, and of what the others depend on, nothing is
  taken away.
\<close>

lemma call_ok_mono:
  assumes "call_ok s c x" "sse_nextID s \<le> sse_nextID t" "set (sse_log s) \<subseteq> set (sse_log t)"
    "length (sse_readers s) \<le> length (sse_readers t)" "\<And>i. sse_pending t i = Some c \<Longrightarrow> sse_pending s i = Some c"
  shows "call_ok t c x"
proof -
  have a: "answered t x r" if "answered s x r" for r using that assms(3) by (auto simp: answered_def)
  have "c \<notin> ran (sse_pending t)" if "c \<notin> ran (sse_pending s)" using that assms(5) by (auto simp: ran_def)
  then have "pc_ok t c x (cl_pc x)"
    using assms(1,4) a unfolding call_ok_def by (cases "cl_pc x") auto
  then show ?thesis using assms a unfolding call_ok_def by fastforce
qed

lemma inv_call:
  assumes "sse_inv s" "c < length (sse_calls s)" "sse_calls t = (sse_calls s)[c := y]"
    "sse_nextID s \<le> sse_nextID t" "set (sse_log s) \<subseteq> set (sse_log t)"
    "length (sse_readers s) \<le> length (sse_readers t)"
    "\<And>i d. sse_pending t i = Some d \<Longrightarrow> d = c \<or> sse_pending s i = Some d"
    "call_ok t c y" "ids_differ ((sse_calls s)[c := y])"
  shows "sse_inv t"
  unfolding sse_inv_def
proof (intro conjI allI impI)
  fix d
  assume d: "d < length (sse_calls t)"
  show "call_ok t d (sse_calls t ! d)"
  proof (cases "d = c")
    case False
    then have "call_ok s d (sse_calls s ! d)" using assms(1) d by (simp add: sse_inv_def assms(3))
    then show ?thesis using assms(3-7) False d by (auto intro!: call_ok_mono [of s])
  qed (use assms(2,3,8) in simp)
next
  fix i d
  assume "sse_pending t i = Some d"
  then show "d < length (sse_calls t)"
    using assms(1,2,3) assms(7) [of i d] by (auto simp: sse_inv_def)
qed (use assms(3,9) in simp)

lemma goto_simps [simp]:
  "sse_calls (goto c pc s) = (sse_calls s)[c := (sse_calls s ! c)\<lparr>cl_pc := pc\<rparr>]"
  "sse_nextID (goto c pc s) = sse_nextID s" "sse_log (goto c pc s) = sse_log s"
  "sse_readers (goto c pc s) = sse_readers s" "sse_pending (goto c pc s) = sse_pending s"
  "sse_connected (goto c pc s) = sse_connected s" "sse_done (goto c pc s) = sse_done s"
  "sse_panicked (goto c pc s) = sse_panicked s"
  by (simp_all add: goto_def)

lemma inv_goto:
  assumes "sse_inv s" "c < length (sse_calls s)"
    "pc_ok s c (sse_calls s ! c) (cl_pc (sse_calls s ! c)) \<Longrightarrow> call_ok s c (sse_calls s ! c) \<Longrightarrow> pc_ok s c (sse_calls s ! c) pc"
  shows "sse_inv (goto c pc s)"
proof (rule inv_call [OF assms(1,2)])
  have ok: "call_ok s c (sse_calls s ! c)" "ids_differ (sse_calls s)"
    using assms(1,2) by (auto simp: sse_inv_def)
  then have p: "pc_ok s c (sse_calls s ! c) pc" using assms(3) by (simp add: call_ok_def)
  have "pc_ok (goto c pc s) c ((sse_calls s ! c)\<lparr>cl_pc := pc\<rparr>) pc"
    using p by (cases pc) (auto simp: answered_def)
  then show "call_ok (goto c pc s) c ((sse_calls s ! c)\<lparr>cl_pc := pc\<rparr>)"
    using ok by (simp add: call_ok_def answered_def)
  show "ids_differ ((sse_calls s)[c := (sse_calls s ! c)\<lparr>cl_pc := pc\<rparr>])"
    using ok(2) by (rule ids_differ_update) simp
qed simp_all

section \<open>Every step keeps the invariant\<close>

lemma inv_frame:
  assumes "sse_inv s" "sse_calls t = sse_calls s" "sse_nextID t = sse_nextID s" "sse_log t = sse_log s"
    "length (sse_readers s) \<le> length (sse_readers t)" "\<And>i d. sse_pending t i = Some d \<Longrightarrow> sse_pending s i = Some d"
  shows "sse_inv t"
  unfolding sse_inv_def
proof (intro conjI allI impI)
  show "call_ok t c (sse_calls t ! c)" if "c < length (sse_calls t)" for c
  proof -
    have "call_ok s c (sse_calls s ! c)" using assms(1,2) that by (simp add: sse_inv_def)
    then show ?thesis unfolding assms(2)
      by (rule call_ok_mono) (simp_all add: assms(3-5), rule assms(6))
  qed
  show "c < length (sse_calls t)" if "sse_pending t i = Some c" for i c
    using assms(1,2) assms(6) [OF that] by (auto simp: sse_inv_def)
  show "ids_differ (sse_calls t)" using assms(1,2) by (simp add: sse_inv_def)
qed

lemma inv_ok:
  assumes "sse_inv s" "c < length (sse_calls s)"
  shows "call_ok s c (sse_calls s ! c)" "pc_ok s c (sse_calls s ! c) (cl_pc (sse_calls s ! c))"
    "ids_differ (sse_calls s)"
  using assms by (auto simp: sse_inv_def call_ok_def)

text \<open>Marks on a call that nothing of the invariant looks at.\<close>

lemma inv_mark:
  assumes "sse_inv s" "cl_id y = cl_id (sse_calls s ! c)" "cl_chan y = cl_chan (sse_calls s ! c)"
    "cl_pc y = cl_pc (sse_calls s ! c)" "cl_notify y = cl_notify (sse_calls s ! c)" "cl_accept y = cl_accept (sse_calls s ! c)"
    "t = s\<lparr>sse_calls := (sse_calls s)[c := y]\<rparr>"
  shows "sse_inv t"
proof (cases "c < length (sse_calls s)")
  case True
  note ok = inv_ok [OF assms(1) True]
  show ?thesis
  proof (rule inv_call [OF assms(1) True])
    show "sse_calls t = (sse_calls s)[c := y]" unfolding assms(7) by simp
    have "pc_ok t c y pc" if "pc_ok s c (sse_calls s ! c) pc" for pc
      using that assms(2-6) unfolding assms(7) by (cases pc) (auto simp: answered_def)
    then show "call_ok t c y"
      using ok(1) assms(2-6) unfolding assms(7) by (simp add: call_ok_def answered_def)
    show "ids_differ ((sse_calls s)[c := y])" using ok(3) assms(2) by (rule ids_differ_update)
  qed (auto simp: assms(7))
qed (use assms(1,7) in \<open>simp add: list_update_beyond\<close>)

lemma cancel_get_simps [simp]:
  "sse_nextID (cancel_get k s) = sse_nextID s" "sse_log (cancel_get k s) = sse_log s"
  "sse_pending (cancel_get k s) = sse_pending s" "sse_readers (cancel_get k s) = sse_readers s"
  "sse_connected (cancel_get k s) = sse_connected s" "sse_done (cancel_get k s) = sse_done s"
  "sse_panicked (cancel_get k s) = sse_panicked s"
  "sse_calls (cancel_get k s) = (sse_calls s)[k := (sse_calls s ! k)\<lparr>cl_cancelled := True\<rparr>]"
  by (simp_all add: cancel_get_def)

lemma inv_cancel_get: "sse_inv s \<Longrightarrow> sse_inv (cancel_get k s)"
  by (erule inv_mark [where c = k]) (simp_all add: cancel_get_def)

lemma inv_fail:
  assumes "sse_inv s" "c < length (sse_calls s)"
  shows "sse_inv (sse_connect_fail c e s)"
  unfolding sse_connect_fail_def
  by (rule inv_goto [OF inv_cancel_get [OF assms(1)]]) (use assms(2) in auto)

lemma inv_request:
  assumes "sse_inv s" "c < length (sse_calls s)" "cl_pc (sse_calls s ! c) = Opening"
  shows "sse_inv (sse_connect_request c bad s)"
proof -
  have "sse_inv (s\<lparr>sse_cancel := Some c\<rparr>)" using assms(1) by (rule inv_frame) auto
  then show ?thesis unfolding sse_connect_request_def
    by (rule inv_goto) (use assms(2,3) in \<open>auto split: option.splits\<close>)
qed

lemma inv_open:
  assumes "sse_inv s" "c < length (sse_calls s)" "cl_pc (sse_calls s ! c) = Requesting"
  shows "sse_inv (sse_connect_open c out s)"
proof -
  let ?u = "s\<lparr>sse_readers := sse_readers s @
      [\<lparr>rd_event = ([], []), rd_endpoint = None, rd_alive = True, rd_ctx = c\<rparr>]\<rparr>"
  have "sse_inv ?u" using assms(1) by (rule inv_frame) auto
  then have "sse_inv (goto c (AwaitEndpoint (length (sse_readers s))) ?u)"
    by (rule inv_goto) (use assms(2,3) in auto)
  then show ?thesis using assms
    by (auto simp: sse_connect_open_def intro!: inv_goto split: http_outcome.split)
qed

lemma inv_draw_id:
  assumes "sse_inv s" "c < length (sse_calls s)" "cl_pc (sse_calls s ! c) = Ready" "\<not> cl_notify (sse_calls s ! c)"
  shows "sse_inv (sse_draw_id c s)"
proof (rule inv_call [OF assms(1,2)])
  let ?y = "(sse_calls s ! c)\<lparr>cl_id := Some (sse_nextID s + 1), cl_pc := Registering\<rparr>"
  note ok = inv_ok [OF assms(1,2)]
  show "sse_calls (sse_draw_id c s) = (sse_calls s)[c := ?y]" by (simp add: sse_draw_id_def Let_def)
  have new: "cl_id (sse_calls s ! d) \<noteq> Some (sse_nextID s + 1)" if "d < length (sse_calls s)" for d
    using inv_ok(1) [OF assms(1) that] by (force simp: call_ok_def)
  show "ids_differ ((sse_calls s)[c := ?y])"
    using ok(3) new assms(2) by (auto simp: ids_differ_def nth_list_update split: if_splits)
  have "cl_id (sse_calls s ! c) = None" using ok(2) assms(3) by simp
  then show "call_ok (sse_draw_id c s) c ?y"
    using ok(1) assms(4) by (auto simp: call_ok_def sse_draw_id_def Let_def answered_def ran_def)
qed (auto simp: sse_draw_id_def Let_def)

lemma inv_register:
  assumes "sse_inv s" "c < length (sse_calls s)" "cl_pc (sse_calls s ! c) = Registering" "cl_id (sse_calls s ! c) = Some i"
  shows "sse_inv (sse_register c i s)"
proof (rule inv_call [OF assms(1,2)])
  let ?y = "(sse_calls s ! c)\<lparr>cl_pc := Posting\<rparr>"
  note ok = inv_ok [OF assms(1,2)]
  show "sse_calls (sse_register c i s) = (sse_calls s)[c := ?y]" by (simp add: sse_register_def)
  show "ids_differ ((sse_calls s)[c := ?y])" using ok(3) by (rule ids_differ_update) simp
  show "call_ok (sse_register c i s) c ?y"
    using ok(1,2) assms(3,4) by (auto simp: call_ok_def sse_register_def answered_def split: if_splits)
qed (auto simp: sse_register_def split: if_splits)

lemma inv_forget:
  assumes "sse_inv s" "c < length (sse_calls s)"
  shows "sse_inv (sse_forget c i e s)"
proof -
  have "sse_inv (s\<lparr>sse_pending := (sse_pending s)(i := None)\<rparr>)"
    using assms(1) by (rule inv_frame) (auto split: if_splits)
  then show ?thesis unfolding sse_forget_def by (rule inv_goto) (use assms(2) in auto)
qed

lemma inv_receive:
  assumes "sse_inv s" "c < length (sse_calls s)" "sse_receive c s = Some t"
  shows "sse_inv t"
proof -
  obtain r where r: "cl_chan (sse_calls s ! c) = Some r"
    "t = s\<lparr>sse_calls := (sse_calls s)[c := (sse_calls s ! c)\<lparr>cl_chan := None, cl_pc := Returned (rpc_result (cl_accept (sse_calls s ! c)) r)\<rparr>]\<rparr>"
    using assms(3) by (auto simp: sse_receive_def split: option.splits)
  note ok = inv_ok [OF assms(1,2)]
  show ?thesis
  proof (rule inv_call [OF assms(1,2)])
    let ?y = "(sse_calls s ! c)\<lparr>cl_chan := None, cl_pc := Returned (rpc_result (cl_accept (sse_calls s ! c)) r)\<rparr>"
    show "sse_calls t = (sse_calls s)[c := ?y]" using r by simp
    show "ids_differ ((sse_calls s)[c := ?y])" using ok(3) by (rule ids_differ_update) simp
    show "call_ok t c ?y" using ok(1) r by (auto simp: call_ok_def answered_def)
  qed (use r in auto)
qed

lemma inv_deliver:
  assumes "sse_inv s" "sse_pending s i = Some c"
  shows "sse_inv (s\<lparr>sse_log := sse_log s @ [(i, r)], sse_calls := (sse_calls s)[c := (sse_calls s ! c)\<lparr>cl_chan := Some r\<rparr>],
                   sse_pending := (sse_pending s)(i := None)\<rparr>)" (is "sse_inv ?t")
proof -
  have c: "c < length (sse_calls s)" using assms by (auto simp: sse_inv_def)
  note ok = inv_ok [OF assms(1) c]
  have i: "cl_id (sse_calls s ! c) = Some i" using ok(1) assms(2) by (auto simp: call_ok_def)
  have j: "j = i" if "sse_pending s j = Some c" for j
  proof -
    have "cl_id (sse_calls s ! c) = Some j" using ok(1) that unfolding call_ok_def by blast
    then show ?thesis using i by simp
  qed
  show ?thesis
  proof (rule inv_call [OF assms(1) c])
    let ?y = "(sse_calls s ! c)\<lparr>cl_chan := Some r\<rparr>"
    show "sse_calls ?t = (sse_calls s)[c := ?y]" by simp
    show "ids_differ ((sse_calls s)[c := ?y])" using ok(3) by (rule ids_differ_update) simp
    have p: "pc_ok ?t c ?y (cl_pc ?y)"
    proof (cases "cl_pc (sse_calls s ! c)")
      case Registering
      then show ?thesis using ok(2) assms(2) by (auto simp: ran_def)
    next
      case (Returned v)
      then show ?thesis using ok(2) by (auto simp: answered_def)
    qed (use ok(2) in auto)
    have l: "\<forall>k. cl_id ?y = Some k \<longrightarrow> k \<le> sse_nextID ?t"
      using ok(1) unfolding call_ok_def by simp
    have n: "sse_pending ?t k \<noteq> Some c" for k using j [of k] by auto
    show "call_ok ?t c ?y" unfolding call_ok_def using p l n i by (simp add: answered_def)
  qed (auto split: if_splits)
qed

lemma inv_handle:
  assumes "sse_inv s" "handleSSEEvent k typ data s = Some t"
  shows "sse_inv t"
proof -
  have readers: "sse_inv (s\<lparr>sse_readers := (sse_readers s)[k := x]\<rparr>)" for x
    using assms(1) by (rule inv_frame) auto
  have logged: "sse_inv (s\<lparr>sse_log := sse_log s @ [m]\<rparr>)" for m
    using assms(1) unfolding sse_inv_def by (auto intro: call_ok_mono [of s])
  show ?thesis
  proof (cases "typ = ''message''")
    case False
    then show ?thesis using assms readers by (auto simp: handleSSEEvent_def split: if_splits option.splits)
  next
    case True
    show ?thesis
    proof (cases "Option.bind (json_Unmarshal data) dec_rpc_message")
      case None
      then show ?thesis using assms True by (simp add: handleSSEEvent_def)
    next
      case (Some m)
      obtain i r where m: "m = (i, r)" by force
      show ?thesis
      proof (cases "sse_pending s i")
        case None
        then show ?thesis using assms(2) True Some m logged by (auto simp: handleSSEEvent_def Let_def)
      next
        case (Some c)
        then show ?thesis
          using assms(2) True \<open>Option.bind (json_Unmarshal data) dec_rpc_message = Some m\<close> m inv_deliver [OF assms(1) Some, of r]
          by (simp add: handleSSEEvent_def Let_def split: if_splits)
      qed
    qed
  qed
qed

lemma inv_read:
  assumes "sse_inv s" "sse_read k line s = Some t"
  shows "sse_inv t"
proof -
  have "sse_inv (s\<lparr>sse_readers := (sse_readers s)[k := x]\<rparr>)" for x
    using assms(1) by (rule inv_frame) auto
  then show ?thesis using assms(2)
    by (auto simp: sse_read_def Let_def split: prod.splits option.splits dest: inv_handle [rotated])
qed

lemma inv_call_step:
  assumes "sse_inv s" "c < length (sse_calls s)" "call_step l c (sse_calls s ! c) s = Some t"
  shows "sse_inv t"
proof (cases l)
  case (CheckConnected d)
  then show ?thesis using assms
    by (auto simp: sse_connect_check_def intro!: inv_goto split: if_splits)
next
  case (MakeRequest d bad)
  then show ?thesis using assms by (auto intro: inv_request split: if_splits)
next
  case (OpenStream d out)
  then show ?thesis using assms by (auto intro: inv_open split: if_splits)
next
  case (EndpointArrives d)
  then obtain k e where k: "cl_pc (sse_calls s ! c) = AwaitEndpoint k"
    "t = goto c Ready (s\<lparr>sse_messageURL := message_url (sse_url s) e, sse_connected := True,
         sse_readers := (sse_readers s)[k := (sse_readers s ! k)\<lparr>rd_endpoint := None\<rparr>]\<rparr>)"
    using assms(3) by (auto simp: sse_connect_endpoint_def split: sse_pc.splits option.splits)
  have "sse_inv (s\<lparr>sse_messageURL := message_url (sse_url s) e, sse_connected := True,
         sse_readers := (sse_readers s)[k := (sse_readers s ! k)\<lparr>rd_endpoint := None\<rparr>]\<rparr>)"
    using assms(1) by (rule inv_frame) auto
  then show ?thesis unfolding k(2) by (rule inv_goto) (use assms(2) k(1) in auto)
next
  case (EndpointTimeout d)
  then show ?thesis using assms by (auto intro: inv_fail split: sse_pc.splits)
next
  case (EndpointCancelled d)
  then show ?thesis using assms by (auto intro: inv_fail split: sse_pc.splits if_splits)
next
  case (DrawId d)
  then show ?thesis using assms by (auto intro: inv_draw_id split: if_splits)
next
  case (RegisterCall d)
  then show ?thesis using assms by (auto intro: inv_register split: sse_pc.splits option.splits)
next
  case (Post d out)
  then show ?thesis using assms
    by (auto simp: sse_notify_def sse_post_def intro!: inv_goto
        split: if_splits sum.splits http_outcome.splits sse_pc.splits option.splits)
next
  case (TakeAnswer d)
  then show ?thesis using assms by (auto intro: inv_receive split: if_splits)
next
  case (AnswerTimeout d)
  then show ?thesis using assms by (auto intro!: inv_goto split: if_splits)
next
  case (AnswerCancelled d)
  then show ?thesis using assms by (auto intro!: inv_goto split: if_splits)
next
  case (Forget d)
  then show ?thesis using assms by (auto intro: inv_forget split: sse_pc.splits option.splits)
qed (use assms(3) in simp_all)

lemma inv_env_step:
  assumes "sse_inv s" "env_step l s = Some t"
  shows "sse_inv t"
proof (cases l)
  case (Begin meth params accept notify)
  let ?x = "\<lparr>cl_method = meth, cl_params = params, cl_accept = accept, cl_notify = notify, cl_id = None,
         cl_chan = None, cl_ended = False, cl_cancelled = False, cl_pc = Connecting\<rparr>"
  have t: "t = s\<lparr>sse_calls := sse_calls s @ [?x]\<rparr>" using assms(2) Begin by simp
  show ?thesis
    unfolding sse_inv_def
  proof (intro conjI allI impI)
    fix d
    assume d: "d < length (sse_calls t)"
    show "call_ok t d (sse_calls t ! d)"
    proof (cases "d = length (sse_calls s)")
      case True
      then show ?thesis using assms(1) unfolding t by (auto simp: call_ok_def sse_inv_def)
    next
      case False
      then have "call_ok s d (sse_calls s ! d)" using assms(1) d t by (simp add: sse_inv_def)
      then show ?thesis using False d unfolding t by (auto simp: nth_append intro: call_ok_mono)
    qed
  next
    fix i d
    assume "sse_pending t i = Some d"
    then show "d < length (sse_calls t)" using assms(1) unfolding t by (force simp: sse_inv_def)
  next
    show "ids_differ (sse_calls t)"
      using assms(1) unfolding t by (auto simp: sse_inv_def ids_differ_def nth_append split: if_splits)
  qed
next
  case (ReadLine k line)
  then show ?thesis using assms by (auto intro: inv_read split: if_splits)
next
  case (StreamEnds k)
  then have t: "t = sse_end k s" using assms(2) by (simp split: if_splits)
  show ?thesis using assms(1) unfolding t by (rule inv_frame) (auto simp: sse_end_def Let_def split: if_splits)
next
  case (ContextEnds c)
  then have t: "t = sse_end_context c s" using assms(2) by (simp split: if_splits)
  show ?thesis by (rule inv_mark [OF assms(1), where c = c]) (simp_all add: t sse_end_context_def)
next
  case CloseTransport
  then show ?thesis using assms inv_cancel_get by (auto simp: sse_close_def split: option.splits)
qed (use assms(2) in simp_all)

lemma inv_step: "sse_step l s = Some t \<Longrightarrow> sse_inv s \<Longrightarrow> sse_inv t"
  by (auto simp: sse_step_def split: if_splits option.splits dest: inv_env_step [rotated] inv_call_step [rotated 2])

lemma run_inv: "sse_run s ls t \<Longrightarrow> sse_inv s \<Longrightarrow> sse_inv t"
  by (induction rule: sse_run.induct) (auto intro: inv_step)

section \<open>Answers\<close>

lemma handle_never_blocks:
  assumes "sse_inv s"
  shows "handleSSEEvent k typ data s \<noteq> None"
proof -
  have "cl_chan (sse_calls s ! c) = None" if "sse_pending s i = Some c" for i c
    using assms that by (auto simp: sse_inv_def call_ok_def)
  then show ?thesis by (auto simp: handleSSEEvent_def Let_def split: option.splits)
qed

lemma read_never_blocks:
  assumes "sse_inv s"
  shows "sse_read k line s \<noteq> None"
proof -
  have "sse_inv (s\<lparr>sse_readers := (sse_readers s)[k := x]\<rparr>)" for x
    using assms by (rule inv_frame) auto
  then show ?thesis using handle_never_blocks by (auto simp: sse_read_def Let_def split: prod.splits option.splits)
qed

lemma rpc_result_Inr: "rpc_result accept r = Inr y \<Longrightarrow> rp_error r = None \<and> rp_result r = y"
  by (auto simp: rpc_result_def split: option.splits)

text \<open>
  C23: In every interleaving of calls, streams, timers and contexts, a call of Send that returns
  without an error returns the result of a message that came on a stream with the id of its own
  request; no two requests have one id; and the goroutine of a stream never blocks, it can take
  any line that comes (the channel of a call in \<open>pending\<close> is empty), so it never holds the mutex
  forever.
\<close>

theorem sse_answers_own:
  assumes "sse_run (NewSSETransport url headers) ls s"
  shows "(\<forall>c < length (sse_calls s). \<forall>y. \<not> cl_notify (sse_calls s ! c) \<longrightarrow> cl_pc (sse_calls s ! c) = Returned (Inr y) \<longrightarrow>
      (\<exists>i r. cl_id (sse_calls s ! c) = Some i \<and> (i, r) \<in> set (sse_log s) \<and> rp_error r = None \<and> rp_result r = y)) \<and>
    (\<forall>c < length (sse_calls s). \<forall>d < length (sse_calls s). \<forall>i.
      cl_id (sse_calls s ! c) = Some i \<longrightarrow> cl_id (sse_calls s ! d) = Some i \<longrightarrow> c = d) \<and>
    (\<forall>k < length (sse_readers s). \<forall>line. rd_alive (sse_readers s ! k) \<longrightarrow> \<not> sse_panicked s \<longrightarrow>
      sse_step (ReadLine k line) s \<noteq> None)"
proof (intro conjI allI impI)
  have inv: "sse_inv s" by (rule run_inv [OF assms inv_init])
  show "\<exists>i r. cl_id (sse_calls s ! c) = Some i \<and> (i, r) \<in> set (sse_log s) \<and> rp_error r = None \<and> rp_result r = y"
    if "c < length (sse_calls s)" "\<not> cl_notify (sse_calls s ! c)" "cl_pc (sse_calls s ! c) = Returned (Inr y)" for c y
    using inv_ok(2) [OF inv that(1)] that(2,3) by (auto simp: answered_def dest!: rpc_result_Inr)
  show "c = d" if "c < length (sse_calls s)" "d < length (sse_calls s)" "cl_id (sse_calls s ! c) = Some i"
    "cl_id (sse_calls s ! d) = Some i" for c d i
    using inv that by (auto simp: sse_inv_def ids_differ_def)
  show "sse_step (ReadLine k line) s \<noteq> None"
    if "k < length (sse_readers s)" "rd_alive (sse_readers s ! k)" "\<not> sse_panicked s" for k line
    using that read_never_blocks [OF inv] by (simp add: sse_step_def)
qed

section \<open>What can keep a call from returning\<close>

text \<open>An upper bound for the steps a call has still to make.\<close>

fun rank :: "sse_pc \<Rightarrow> nat" where
  "rank Connecting = 9"
| "rank Opening = 8"
| "rank Requesting = 7"
| "rank (AwaitEndpoint k) = 6"
| "rank Ready = 5"
| "rank Registering = 4"
| "rank Posting = 3"
| "rank Waiting = 2"
| "rank (Forgetting e) = 1"
| "rank (Returned v) = 0"

lemma rank_0: "rank pc = 0 \<longleftrightarrow> (\<exists>v. pc = Returned v)"
  by (cases pc) auto

definition call_rank :: "sse \<Rightarrow> nat \<Rightarrow> nat" where
  "call_rank s c = rank (cl_pc (sse_calls s ! c))"

lemma nth_updated: "xs[i := y] ! j = (if i = j \<and> i < length xs then y else xs ! j)"
  by (cases "i < length xs") (auto simp: nth_list_update list_update_beyond)

lemma call_step_rank:
  assumes "call_step l c (sse_calls s ! c) s = Some t" "c < length (sse_calls s)"
  shows "call_rank t c < call_rank s c \<and> length (sse_calls t) = length (sse_calls s) \<and>
    (\<forall>d. d \<noteq> c \<longrightarrow> call_rank t d = call_rank s d)"
  using assms
  by (cases l)
    (auto simp: call_rank_def sse_connect_check_def sse_connect_request_def sse_connect_open_def sse_connect_endpoint_def sse_connect_fail_def nth_updated
        sse_draw_id_def sse_register_def sse_post_def sse_notify_def sse_receive_def sse_forget_def Let_def
      split: if_splits option.splits sum.splits http_outcome.splits sse_pc.splits)

lemma handle_rank:
  "handleSSEEvent k typ data s = Some t \<Longrightarrow> length (sse_calls t) = length (sse_calls s) \<and> call_rank t c = call_rank s c"
  by (auto simp: handleSSEEvent_def call_rank_def Let_def nth_updated split: if_splits option.splits)

lemma env_step_rank:
  assumes "env_step l s = Some t" "c < length (sse_calls s)"
  shows "c < length (sse_calls t) \<and> call_rank t c = call_rank s c"
proof (cases l)
  case (ReadLine k line)
  then show ?thesis using assms
    by (auto simp: sse_read_def Let_def call_rank_def split: if_splits prod.splits option.splits
        dest!: handle_rank [where c = c, unfolded call_rank_def])
qed (use assms in \<open>auto simp: call_rank_def nth_append sse_end_def sse_end_context_def sse_close_def
      Let_def nth_updated split: if_splits option.splits\<close>)

text \<open>
  The steps of a call that need neither the server nor the network: its own code, the timers of the
  endpoint and of the answer, the timeout of the POST's client, and the end of a GET whose context is
  cancelled. An answer that is in the channel of the call can be taken.
\<close>

fun assured :: "sse_call \<Rightarrow> sse_label \<Rightarrow> bool" where
  "assured x (OpenStream c (NoAnswer e)) = (cl_cancelled x)"
| "assured x (OpenStream c (Answer status body)) = False"
| "assured x (Post c (Inr (Answer status body))) = False"
| "assured x (EndpointArrives c) = False"
| "assured x l = True"

definition can_go_on :: "nat \<Rightarrow> sse \<Rightarrow> bool" where
  "can_go_on c s \<longleftrightarrow> (\<exists>l. step_call l = Some c \<and> assured (sse_calls s ! c) l \<and> sse_step l s \<noteq> None)"

text \<open>A call whose GET has not come back and is not cancelled.\<close>

definition waits_for_get :: "nat \<Rightarrow> sse \<Rightarrow> bool" where
  "waits_for_get c s \<longleftrightarrow> cl_pc (sse_calls s ! c) = Requesting \<and> \<not> cl_cancelled (sse_calls s ! c)"

lemma call_progress:
  assumes "sse_inv s" "c < length (sse_calls s)" "call_rank s c > 0" "\<not> waits_for_get c s"
  shows "\<exists>l. step_call l = Some c \<and> assured (sse_calls s ! c) l \<and> call_step l c (sse_calls s ! c) s \<noteq> None"
proof -
  let ?x = "sse_calls s ! c"
  note ok = inv_ok(2) [OF assms(1,2)]
  show ?thesis
  proof (cases "cl_pc ?x")
    case Connecting
    then show ?thesis by (intro exI [of _ "CheckConnected c"]) simp
  next
    case Opening
    then show ?thesis by (intro exI [of _ "MakeRequest c None"]) simp
  next
    case Requesting
    then show ?thesis using assms(4) by (intro exI [of _ "OpenStream c (NoAnswer ctx_error)"]) (simp add: waits_for_get_def)
  next
    case (AwaitEndpoint k)
    then show ?thesis by (intro exI [of _ "EndpointTimeout c"]) simp
  next
    case Ready
    then show ?thesis
      by (cases "cl_notify ?x")
        ((intro exI [of _ "Post c (Inr (NoAnswer ctx_error))"]; simp), (intro exI [of _ "DrawId c"]; simp))
  next
    case Registering
    then show ?thesis using ok by (intro exI [of _ "RegisterCall c"]) auto
  next
    case Posting
    then show ?thesis using ok by (intro exI [of _ "Post c (Inr (NoAnswer ctx_error))"]) auto
  next
    case Waiting
    then show ?thesis by (intro exI [of _ "AnswerTimeout c"]) simp
  next
    case (Forgetting e)
    then show ?thesis using ok by (intro exI [of _ "Forget c"]) auto
  next
    case (Returned v)
    then show ?thesis using assms(3) by (simp add: call_rank_def)
  qed
qed

lemma call_stuck:
  "step_call l = Some c \<Longrightarrow> cl_pc x = Requesting \<Longrightarrow> call_step l c x s \<noteq> None \<Longrightarrow> \<exists>out. l = OpenStream c out"
  "step_call l = Some c \<Longrightarrow> cl_pc x = Returned v \<Longrightarrow> call_step l c x s = None"
  by (cases l; auto)+

definition own_steps :: "nat \<Rightarrow> sse_label list \<Rightarrow> nat" where
  "own_steps c ls = length (filter (\<lambda>l. step_call l = Some c) ls)"

lemma run_rank:
  "sse_run s ls t \<Longrightarrow> c < length (sse_calls s) \<Longrightarrow>
     c < length (sse_calls t) \<and> own_steps c ls + call_rank t c \<le> call_rank s c"
proof (induction rule: sse_run.induct)
  case (step s ls t l u)
  then have IH: "c < length (sse_calls t)" "own_steps c ls + call_rank t c \<le> call_rank s c" by auto
  show ?case
  proof (cases "step_call l")
    case None
    then have "env_step l t = Some u" using step.hyps(2) by (simp add: sse_step_def split: if_splits)
    from env_step_rank [OF this IH(1)] show ?thesis using IH(2) None by (simp add: own_steps_def)
  next
    case (Some d)
    then have "call_step l d (sse_calls t ! d) t = Some u" "d < length (sse_calls t)"
      using step.hyps(2) by (simp_all add: sse_step_def split: if_splits)
    from call_step_rank [OF this] show ?thesis using IH Some
      by (cases "d = c") (auto simp: own_steps_def)
  qed
qed (simp add: own_steps_def)

text \<open>
  C24: in every interleaving a call of Send or Notify makes at most nine steps of its own. Until it
  returns there is one it can make whatever the server and the network do, its own code, a timer or a
  cancelled context, unless it waits for the GET of the stream: its client has no timeout, so a server
  that does not answer, or not to the end of an error, holds the call until its context ends or the
  transport is closed, and no other step of it is possible before. A panic of the process excepted.
\<close>

theorem sse_call_returns:
  assumes "sse_run (NewSSETransport url headers) ls s" "c < length (sse_calls s)" "sse_run s ls' t"
  shows "own_steps c ls' \<le> 9 \<and>
    (can_go_on c t \<longleftrightarrow> \<not> sse_panicked t \<and> (\<nexists>v. cl_pc (sse_calls t ! c) = Returned v) \<and> \<not> waits_for_get c t) \<and>
    (waits_for_get c t \<longrightarrow> (\<forall>l. step_call l = Some c \<longrightarrow> sse_step l t \<noteq> None \<longrightarrow> (\<exists>out. l = OpenStream c out)))"
proof (intro conjI iffI impI allI)
  have inv: "sse_inv t" by (rule run_inv [OF assms(3) run_inv [OF assms(1) inv_init]])
  have r: "c < length (sse_calls t)" "own_steps c ls' + call_rank t c \<le> call_rank s c"
    using run_rank [OF assms(3,2)] by auto
  have "call_rank s c \<le> 9" by (cases "cl_pc (sse_calls s ! c)") (simp_all add: call_rank_def)
  then show "own_steps c ls' \<le> 9" using r(2) by simp
  have enabled: "call_step l c (sse_calls t ! c) t \<noteq> None" if "step_call l = Some c" "sse_step l t \<noteq> None" for l
    using that by (auto simp: sse_step_def split: if_splits)
  show stuck: "\<exists>out. l = OpenStream c out" if "waits_for_get c t" "step_call l = Some c" "sse_step l t \<noteq> None" for l
    using call_stuck(1) [OF that(2) _ enabled [OF that(2,3)]] that(1) by (simp add: waits_for_get_def)
  show "can_go_on c t" if "\<not> sse_panicked t \<and> (\<nexists>v. cl_pc (sse_calls t ! c) = Returned v) \<and> \<not> waits_for_get c t"
  proof -
    have "call_rank t c > 0" using that rank_0 by (auto simp: call_rank_def)
    from call_progress [OF inv r(1) this] show ?thesis using that r(1) by (auto simp: sse_step_def can_go_on_def)
  qed
  assume "can_go_on c t"
  then obtain l where l: "step_call l = Some c" "assured (sse_calls t ! c) l" "sse_step l t \<noteq> None"
    by (auto simp: can_go_on_def)
  show "\<not> sse_panicked t" using l(3) by (auto simp: sse_step_def split: if_splits)
  show "\<nexists>v. cl_pc (sse_calls t ! c) = Returned v" using call_stuck(2) [OF l(1), of "sse_calls t ! c" _ t] enabled [OF l(1,3)] by auto
  show "\<not> waits_for_get c t"
  proof
    assume w: "waits_for_get c t"
    from stuck [OF this l(1,3)] obtain out where "l = OpenStream c out" ..
    with l(2) w show False by (cases out) (simp_all add: waits_for_get_def)
  qed
qed

section \<open>When the transport stops working\<close>

definition ended_streams :: "sse \<Rightarrow> nat" where
  "ended_streams s = length (filter (\<lambda>r. \<not> rd_alive r) (sse_readers s))"

lemma filter_update:
  assumes "k < length xs" "P (xs ! k) = P y"
  shows "length (filter P (xs[k := y])) = length (filter P xs)"
proof -
  have "map P (xs[k := y]) = map P xs"
    using assms by (simp add: map_update list_update_same_conv)
  moreover have "length (filter P zs) = length (filter id (map P zs))" for zs
    by (induction zs) auto
  ultimately show ?thesis by metis
qed

lemma ended_update:
  "k < length (sse_readers s) \<Longrightarrow> rd_alive y = rd_alive (sse_readers s ! k) \<Longrightarrow>
     length (filter (\<lambda>r. \<not> rd_alive r) ((sse_readers s)[k := y])) = ended_streams s"
  unfolding ended_streams_def by (rule filter_update) auto

lemma ended_end:
  assumes "k < length xs" "rd_alive (xs ! k)"
  shows "length (filter (\<lambda>r. \<not> rd_alive r) (xs[k := (xs ! k)\<lparr>rd_alive := False\<rparr>])) =
    Suc (length (filter (\<lambda>r. \<not> rd_alive r) xs))"
  using assms
proof (induction xs arbitrary: k)
  case (Cons x xs)
  then show ?case by (cases k) auto
qed simp

text \<open>The endpoint a call waits for is that of a stream.\<close>

lemma call_step_streams:
  assumes "sse_inv s" "c < length (sse_calls s)" "call_step l c (sse_calls s ! c) s = Some t"
  shows "ended_streams t = ended_streams s \<and> sse_done t = sse_done s \<and> sse_panicked t = sse_panicked s \<and>
    (sse_connected s \<longrightarrow> sse_connected t)"
proof -
  have k: "k < length (sse_readers s)" if "cl_pc (sse_calls s ! c) = AwaitEndpoint k" for k
    using inv_ok(2) [OF assms(1,2)] that by simp
  show ?thesis
  proof (cases l)
    case (OpenStream d out)
    then show ?thesis using assms(3)
      by (auto simp: sse_connect_open_def ended_streams_def Let_def split: if_splits http_outcome.splits)
  next
    case (EndpointArrives d)
    then show ?thesis using assms(3) k
      by (auto simp: sse_connect_endpoint_def ended_streams_def filter_update split: sse_pc.splits option.splits)
  next
    case (EndpointTimeout d)
    then show ?thesis using assms(3) k
      by (auto simp: sse_connect_fail_def ended_streams_def split: sse_pc.splits)
  next
    case (EndpointCancelled d)
    then show ?thesis using assms(3) k
      by (auto simp: sse_connect_fail_def ended_streams_def split: sse_pc.splits if_splits)
  qed (use assms(3) in \<open>auto simp: ended_streams_def sse_connect_check_def sse_connect_request_def sse_draw_id_def sse_register_def sse_post_def
      sse_notify_def sse_receive_def sse_forget_def Let_def
      split: if_splits option.splits sum.splits http_outcome.splits sse_pc.splits\<close>)
qed

lemma handle_streams:
  "handleSSEEvent k typ data s = Some t \<Longrightarrow> k < length (sse_readers s) \<Longrightarrow>
     ended_streams t = ended_streams s \<and> sse_done t = sse_done s \<and> sse_panicked t = sse_panicked s"
  by (auto simp: handleSSEEvent_def ended_streams_def Let_def filter_update split: if_splits option.splits)

lemma read_streams:
  assumes "sse_read k line s = Some t" "k < length (sse_readers s)"
  shows "ended_streams t = ended_streams s \<and> sse_done t = sse_done s \<and> sse_panicked t = sse_panicked s"
  using assms
  by (auto simp: sse_read_def Let_def ended_streams_def filter_update split: prod.splits option.splits
      dest!: handle_streams [unfolded ended_streams_def])

definition stream_inv :: "sse \<Rightarrow> bool" where
  "stream_inv s \<longleftrightarrow> (sse_panicked s \<longrightarrow> ended_streams s = 2) \<and>
     (\<not> sse_panicked s \<longrightarrow> ended_streams s = (if sse_done s then 1 else 0))"

lemma stream_inv_step:
  assumes "sse_step l s = Some t" "sse_inv s" "stream_inv s"
  shows "stream_inv t"
proof -
  have np: "\<not> sse_panicked s" using assms(1) by (simp add: sse_step_def split: if_splits)
  show ?thesis
  proof (cases "step_call l")
    case (Some c)
    then have "call_step l c (sse_calls s ! c) s = Some t" "c < length (sse_calls s)"
      using assms(1) by (simp_all add: sse_step_def split: if_splits)
    from call_step_streams [OF assms(2) this(2,1)] show ?thesis using assms(3) by (simp add: stream_inv_def)
  next
    case None
    then have e: "env_step l s = Some t" using assms(1) by (simp add: sse_step_def split: if_splits)
    show ?thesis
    proof (cases l)
      case (StreamEnds k)
      then show ?thesis using e assms(3) np
        by (auto simp: stream_inv_def sse_end_def ended_streams_def ended_end Let_def split: if_splits)
    next
      case (ReadLine k line)
      then show ?thesis using e assms(3) np
        by (auto simp: stream_inv_def dest!: read_streams split: if_splits)
    next
      case (ContextEnds c)
      then show ?thesis using e assms(3) np
        by (auto simp: stream_inv_def ended_streams_def sse_end_context_def split: if_splits)
    next
      case CloseTransport
      then show ?thesis using e assms(3) np
        by (auto simp: stream_inv_def ended_streams_def sse_close_def split: option.splits if_splits)
    qed (use e assms(3) np None in \<open>auto simp: stream_inv_def ended_streams_def\<close>)
  qed
qed

lemma run_stream_inv: "sse_run s ls t \<Longrightarrow> sse_inv s \<Longrightarrow> stream_inv s \<Longrightarrow> stream_inv t"
  by (induction rule: sse_run.induct) (auto intro: stream_inv_step run_inv)

text \<open>
  The process panics exactly when a second stream ends. The goroutine of every stream closes
  the same channel done, and a stream whose endpoint did not come in time is followed by another
  one when the caller tries again, so a slow server and a retry crash the client.
\<close>

theorem sse_second_end_panics:
  assumes "sse_run (NewSSETransport url headers) ls s"
  shows "sse_panicked s \<longleftrightarrow> 2 \<le> length (filter (\<lambda>r. \<not> rd_alive r) (sse_readers s))"
proof -
  have "stream_inv (NewSSETransport url headers)"
    by (simp add: stream_inv_def NewSSETransport_def ended_streams_def)
  from run_stream_inv [OF assms inv_init this] show ?thesis
    by (auto simp: stream_inv_def ended_streams_def split: if_splits)
qed

text \<open>A transport that is connected and whose streams have all ended.\<close>

definition stream_gone :: "sse \<Rightarrow> bool" where
  "stream_gone s \<longleftrightarrow> sse_connected s \<and> (\<forall>r \<in> set (sse_readers s). \<not> rd_alive r) \<and>
     (\<forall>x \<in> set (sse_calls s). cl_pc x \<notin> {Opening, Requesting})"

definition unanswered :: "sse_call \<Rightarrow> bool" where
  "unanswered x \<longleftrightarrow> cl_notify x \<or> (cl_chan x = None \<and> (\<forall>y. cl_pc x \<noteq> Returned (Inr y)))"

definition late :: "nat \<Rightarrow> sse \<Rightarrow> bool" where
  "late c s \<longleftrightarrow> (c < length (sse_calls s) \<longrightarrow> unanswered (sse_calls s ! c))"

lemma gone_env:
  assumes "env_step l s = Some t" "stream_gone s" "late c s"
  shows "stream_gone t \<and> late c t"
proof (cases l)
  case (ContextEnds d)
  then have t: "t = sse_end_context d s" using assms(1) by (simp split: if_splits)
  have "set (sse_calls t) \<subseteq> set (sse_calls s) \<union> (\<lambda>x. x\<lparr>cl_ended := True, cl_cancelled := True\<rparr>) ` set (sse_calls s)"
    using assms(1) ContextEnds unfolding t
    by (auto simp: sse_end_context_def dest!: set_update_subset_insert [THEN subsetD] split: if_splits)
  then have "\<forall>x \<in> set (sse_calls t). cl_pc x \<notin> {Opening, Requesting}" using assms(2) by (auto simp: stream_gone_def)
  then show ?thesis using assms(2,3) unfolding t
    by (auto simp: stream_gone_def late_def unanswered_def sse_end_context_def nth_updated)
next
  case CloseTransport
  have "stream_gone (cancel_get k s) \<and> late c (cancel_get k s)" for k
    using assms(2,3) by (cases "k < length (sse_calls s)")
      (auto simp: stream_gone_def late_def unanswered_def nth_updated list_update_beyond
        dest!: set_update_subset_insert [THEN subsetD])
  then show ?thesis using assms CloseTransport by (auto simp: sse_close_def split: option.splits)
qed (use assms in \<open>auto simp: stream_gone_def late_def unanswered_def nth_append split: if_splits\<close>)

lemma gone_call:
  assumes "call_step l d (sse_calls s ! d) s = Some t" "d < length (sse_calls s)" "stream_gone s" "late c s" "sse_inv s"
  shows "stream_gone t \<and> late c t"
proof -
  have x: "cl_pc (sse_calls s ! d) \<notin> {Opening, Requesting}" "sse_connected s" using assms(2,3) by (auto simp: stream_gone_def)
  have k: "k < length (sse_readers s)" if "cl_pc (sse_calls s ! d) = AwaitEndpoint k" for k
    using inv_ok(2) [OF assms(5,2)] that by simp
  have "stream_gone t"
    using assms(1,3) x k unfolding stream_gone_def
    by (cases l)
      (auto simp: sse_connect_check_def sse_connect_endpoint_def sse_connect_fail_def
          sse_draw_id_def sse_register_def sse_post_def sse_notify_def sse_receive_def sse_forget_def Let_def
        dest!: set_update_subset_insert [THEN subsetD]
        split: if_splits option.splits sum.splits http_outcome.splits sse_pc.splits)
  moreover have "late c t"
    using assms(1,2,4) x unfolding late_def unanswered_def
    by (cases l)
      (auto simp: sse_connect_check_def sse_connect_endpoint_def sse_connect_fail_def
          sse_draw_id_def sse_register_def sse_post_def sse_notify_def sse_receive_def sse_forget_def Let_def nth_updated
        split: if_splits option.splits sum.splits http_outcome.splits sse_pc.splits)
  ultimately show ?thesis by simp
qed

lemma gone_run:
  "sse_run s ls t \<Longrightarrow> sse_inv s \<Longrightarrow> stream_gone s \<Longrightarrow> late c s \<Longrightarrow> stream_gone t \<and> late c t"
proof (induction rule: sse_run.induct)
  case (step s ls t l u)
  then have t: "stream_gone t" "late c t" "sse_inv t" by (auto intro: run_inv)
  show ?case
  proof (cases "step_call l")
    case None
    then have "env_step l t = Some u" using step.hyps(2) by (simp add: sse_step_def split: if_splits)
    then show ?thesis using t(1,2) by (rule gone_env)
  next
    case (Some d)
    then have "call_step l d (sse_calls t ! d) t = Some u" "d < length (sse_calls t)"
      using step.hyps(2) by (simp_all add: sse_step_def split: if_splits)
    then show ?thesis using t by (rule gone_call)
  qed
qed simp

text \<open>
  A transport whose stream has ended is never used again with success: \<open>connected\<close> stays set,
  so no later step opens a stream, and every call of Send that had no answer yet, and every later
  one, can only return an error (after the 60 seconds of its timer). The stream ends with the
  context of the call that opened it, and with the connection.
\<close>

theorem sse_stays_dead:
  assumes "sse_run (NewSSETransport url headers) ls s" "sse_connected s"
    "\<forall>r \<in> set (sse_readers s). \<not> rd_alive r" "\<forall>x \<in> set (sse_calls s). cl_pc x \<notin> {Opening, Requesting}"
    "c < length (sse_calls s) \<longrightarrow> cl_chan (sse_calls s ! c) = None \<and> (\<forall>y. cl_pc (sse_calls s ! c) \<noteq> Returned (Inr y))"
    "sse_run s ls' t" "c < length (sse_calls t)" "\<not> cl_notify (sse_calls t ! c)"
  shows "cl_pc (sse_calls t ! c) \<noteq> Returned (Inr y) \<and> (\<forall>r \<in> set (sse_readers t). \<not> rd_alive r)"
proof -
  have "stream_gone t \<and> late c t"
    using assms(2-5) by (intro gone_run [OF assms(6) run_inv [OF assms(1) inv_init]])
      (auto simp: stream_gone_def late_def unanswered_def)
  then show ?thesis using assms(7,8) by (auto simp: stream_gone_def late_def unanswered_def)
qed

section \<open>Concrete runs\<close>

fun run_list :: "sse_label list \<Rightarrow> sse \<Rightarrow> sse option" where
  "run_list [] s = Some s"
| "run_list (l # ls) s = (case sse_step l s of None \<Rightarrow> None | Some t \<Rightarrow> run_list ls t)"

lemma run_Cons: "sse_run t ls u \<Longrightarrow> sse_step l s = Some t \<Longrightarrow> sse_run s (l # ls) u"
proof (induction rule: sse_run.induct)
  case (none t)
  then show ?case using sse_run.step [OF sse_run.none] by fastforce
next
  case (step t ls u m v)
  then have "sse_run s (l # ls) u" by simp
  from sse_run.step [OF this step.hyps(2)] show ?case by simp
qed

lemma run_list_run: "run_list ls s = Some t \<Longrightarrow> sse_run s ls t"
  by (induction ls arbitrary: s) (auto intro: sse_run.none run_Cons split: option.splits)

text \<open>A call connects and is answered; the context of the call ends, and its stream with it.\<close>

definition w_connect :: "nat \<Rightarrow> nat \<Rightarrow> sse_label list" where
  "w_connect c k =
     [Begin ''tools/list'' None (\<lambda>_. None) False, CheckConnected c, MakeRequest c None, OpenStream c (Answer 200 []),
      ReadLine k ''event: endpoint'', ReadLine k ''data: /m'', ReadLine k [], EndpointArrives c]"

definition w_answer :: "sse_label list" where
  "w_answer = w_connect 0 0 @
     [DrawId 0, RegisterCall 0, Post 0 (Inr (Answer 202 [])), ReadLine 0 ''event: message'',
      ReadLine 0 (''data: '' @ render (JObj [(''jsonrpc'', JStr ''2.0''), (''id'', enc_int 1), (''result'', JBool True)])),
      ReadLine 0 [], TakeAnswer 0]"

definition w_gone :: "sse_label list" where
  "w_gone = w_answer @ [ContextEnds 0, StreamEnds 0]"

definition w_later :: "sse_label list" where
  "w_later = [Begin ''tools/list'' None (\<lambda>_. None) False, CheckConnected 1, DrawId 1, RegisterCall 1, Post 1 (Inr (Answer 202 [])),
     AnswerTimeout 1, Forget 1]"

definition w_retry :: "sse_label list" where
  "w_retry = [Begin ''tools/list'' None (\<lambda>_. None) False, CheckConnected 0, MakeRequest 0 None, OpenStream 0 (Answer 200 []), EndpointTimeout 0]
     @ w_connect 1 1 @ [StreamEnds 0, StreamEnds 1]"

abbreviation w_sse :: sse where
  "w_sse \<equiv> NewSSETransport ''http://h/sse'' []"

lemma run_list_append: "run_list (a @ b) s = Option.bind (run_list a s) (run_list b)"
  by (induction a arbitrary: s) (auto split: option.splits)

lemma runs_through:
  assumes "map_option f (run_list ls s) = Some y"
  obtains t where "run_list ls s = Some t" "f t = y"
  using assms by (cases "run_list ls s") auto

lemma w_answer_run:
  "map_option (\<lambda>s. (sse_messageURL s, map cl_pc (sse_calls s))) (run_list w_answer w_sse) =
     Some (''http://h/m'', [Returned (Inr (Some (JBool True)))])"
  "map_option (\<lambda>s. map cl_notify (sse_calls s)) (run_list w_answer w_sse) = Some [False]"
  by code_simp+

lemma w_gone_run:
  "map_option (\<lambda>s. (sse_connected s, map rd_alive (sse_readers s), map cl_pc (sse_calls s))) (run_list w_gone w_sse) =
     Some (True, [False], [Returned (Inr (Some (JBool True)))])"
  "map_option (\<lambda>s. map cl_notify (sse_calls s)) (run_list (w_gone @ w_later) w_sse) = Some [False, False]"
  by code_simp+

lemma w_retry_run:
  "map_option (\<lambda>s. map rd_alive (sse_readers s)) (run_list w_retry w_sse) = Some [False, False]"
  by code_simp

theorem sse_answers_own_witness:
  "\<exists>s. sse_run w_sse w_answer s \<and> cl_pc (sse_calls s ! 0) = Returned (Inr (Some (JBool True))) \<and>
     (\<exists>i r. cl_id (sse_calls s ! 0) = Some i \<and> (i, r) \<in> set (sse_log s) \<and> rp_result r = Some (JBool True))"
proof -
  obtain s where s: "run_list w_answer w_sse = Some s" "map cl_pc (sse_calls s) = [Returned (Inr (Some (JBool True)))]"
    using runs_through [OF w_answer_run(1)] by (metis Pair_inject)
  have "map cl_notify (sse_calls s) = [False]" using w_answer_run(2) s(1) by simp
  then have x: "length (sse_calls s) = 1" "\<not> cl_notify (sse_calls s ! 0)"
      "cl_pc (sse_calls s ! 0) = Returned (Inr (Some (JBool True)))"
    using s(2) by (auto simp: map_eq_Cons_conv)
  have r: "sse_run w_sse w_answer s" by (rule run_list_run [OF s(1)])
  from sse_answers_own [OF r] x show ?thesis using r by (metis zero_less_one)
qed

text \<open>A server that takes the connection and does not answer: the call hangs until its context ends.\<close>

definition w_hanging :: "sse_label list" where
  "w_hanging = [Begin ''tools/list'' None (\<lambda>_. None) False, CheckConnected 0, MakeRequest 0 None]"

lemma w_hanging_run:
  "map_option (\<lambda>s. (sse_panicked s, map cl_pc (sse_calls s), map cl_cancelled (sse_calls s))) (run_list w_hanging w_sse) =
     Some (False, [Requesting], [False])"
  "map_option (\<lambda>s. (sse_panicked s, map cl_pc (sse_calls s), map cl_cancelled (sse_calls s)))
     (run_list (w_hanging @ [ContextEnds 0]) w_sse) = Some (False, [Requesting], [True])"
  by code_simp+

theorem sse_call_returns_witness:
  "\<exists>s t. sse_run w_sse w_hanging s \<and> sse_run s [ContextEnds 0] t \<and> waits_for_get 0 s \<and> \<not> can_go_on 0 s \<and> can_go_on 0 t"
proof -
  obtain s where s: "run_list w_hanging w_sse = Some s" "map cl_pc (sse_calls s) = [Requesting]" "map cl_cancelled (sse_calls s) = [False]"
    using runs_through [OF w_hanging_run(1)] by (metis Pair_inject)
  obtain t where t: "run_list (w_hanging @ [ContextEnds 0]) w_sse = Some t" "\<not> sse_panicked t" "map cl_pc (sse_calls t) = [Requesting]"
    "map cl_cancelled (sse_calls t) = [True]" using runs_through [OF w_hanging_run(2)] by (metis Pair_inject)
  have r: "sse_run w_sse w_hanging s" "sse_run s [ContextEnds 0] t"
    using s(1) t(1) by (auto simp: run_list_append intro: run_list_run)
  have c: "0 < length (sse_calls s)" "waits_for_get 0 s" "cl_pc (sse_calls t ! 0) = Requesting" "\<not> waits_for_get 0 t"
    using s(2,3) t(3,4) by (auto simp: map_eq_Cons_conv waits_for_get_def)
  have "\<not> can_go_on 0 s" using sse_call_returns [OF r(1) c(1) sse_run.none] c(2) by simp
  moreover have "can_go_on 0 t" using sse_call_returns [OF r(1) c(1) r(2)] c(3,4) t(2) by simp
  ultimately show ?thesis using r c(2) by blast
qed

theorem sse_second_end_panics_witness: "\<exists>s. sse_run w_sse w_retry s \<and> sse_panicked s"
proof -
  obtain s where s: "run_list w_retry w_sse = Some s" "map rd_alive (sse_readers s) = [False, False]"
    by (rule runs_through [OF w_retry_run])
  then have "2 \<le> length (filter (\<lambda>r. \<not> rd_alive r) (sse_readers s))"
    by (auto simp: map_eq_Cons_conv)
  then show ?thesis using sse_second_end_panics [OF run_list_run [OF s(1)]] run_list_run [OF s(1)] by blast
qed

theorem sse_stays_dead_witness:
  "\<exists>s t. sse_run w_sse w_gone s \<and> sse_run s w_later t \<and> length (sse_calls t) = 2 \<and>
     cl_pc (sse_calls t ! 1) \<noteq> Returned (Inr (Some (JBool True)))"
proof -
  obtain s where s: "run_list w_gone w_sse = Some s" "sse_connected s" "map rd_alive (sse_readers s) = [False]"
      "map cl_pc (sse_calls s) = [Returned (Inr (Some (JBool True)))]"
    using runs_through [OF w_gone_run(1)] by (metis Pair_inject)
  obtain t where t: "run_list (w_gone @ w_later) w_sse = Some t" "map cl_notify (sse_calls t) = [False, False]"
    by (rule runs_through [OF w_gone_run(2)])
  have r: "sse_run w_sse w_gone s" "sse_run s w_later t"
    using s(1) t(1) by (auto simp: run_list_append intro: run_list_run)
  have c: "1 < length (sse_calls t)" "\<not> cl_notify (sse_calls t ! 1)" "length (sse_calls t) = 2"
    "length (sse_calls s) = 1"
    using t(2) s(4) by (auto simp: map_eq_Cons_conv)
  have "\<forall>r \<in> set (sse_readers s). \<not> rd_alive r" "\<forall>x \<in> set (sse_calls s). cl_pc x \<notin> {Opening, Requesting}"
    using s(3,4) by (auto simp: map_eq_Cons_conv)
  from sse_stays_dead [OF r(1) s(2) this _ r(2) c(1,2)] c show ?thesis using r by fastforce
qed

end
