(* ===== verification/Mongo.thy ===== *)
theory Mongo
  imports Skills Metadata
begin

text \<open>
  storage/metadata/mongo/store.go: the metadata store on MongoDB. A collection is the list of its
  documents in natural order, and a document is the struct the driver encodes; pointers given to the store are not nil. Every call of the
  driver takes the next step of a script: what other clients did to the collections before the call
  was served, and how it ended. The source makes no index, so nothing keeps ids or names apart.

  What the driver makes of a value of type \<open>any\<close> that it encoded and decodes again is up to the
  driver; \<open>bson\<close> stands for it. The engine's matching of a regular expression is \<open>mg_regex\<close>.
\<close>

section \<open>Collections\<close>

record collections =
  c_sessions :: "session list"
  c_tools :: "tool_def list"
  c_skills :: "skill_def list"
  c_memory :: "(string \<times> string) list"
  c_mcp_servers :: "mcp_server_def list"

record bson =
  bs_any :: "json \<Rightarrow> json"
  bs_map :: "(string \<times> json) list \<Rightarrow> (string \<times> json) list"

definition read_interrupt :: "bson \<Rightarrow> interrupt \<Rightarrow> interrupt" where
  "read_interrupt b i =
     i\<lparr>intr_response_schema := bs_map b (intr_response_schema i), intr_metadata := bs_map b (intr_metadata i)\<rparr>"

definition read_session :: "bson \<Rightarrow> session \<Rightarrow> session" where
  "read_session b s =
     s\<lparr>sess_state := bs_map b (sess_state s), sess_open_interrupts := map (read_interrupt b) (sess_open_interrupts s)\<rparr>"

definition read_tool :: "bson \<Rightarrow> tool_def \<Rightarrow> tool_def" where
  "read_tool b d = d\<lparr>td_parameters := bs_any b (td_parameters d)\<rparr>"

definition read_skill :: "bson \<Rightarrow> skill_def \<Rightarrow> skill_def" where
  "read_skill b d =
     d\<lparr>sd_tools := map (bs_any b) (sd_tools d), sd_config := bs_map b (sd_config d),
       sd_resources := map (bs_any b) (sd_resources d)\<rparr>"

section \<open>The driver\<close>

text \<open>
  \<open>MLost m\<close>: the call was carried out and its answer was lost. \<open>MCut n m\<close>: a cursor ends with an
  error after \<open>n\<close> documents; any other call fails on it.
\<close>

datatype mongo_end = MOk | MFail string | MLost string | MCut nat string

record mongo =
  mg_db :: collections
  mg_script :: "((collections \<Rightarrow> collections) \<times> mongo_end) list"
  mg_bson :: bson
  mg_regex :: "string \<Rightarrow> string \<Rightarrow> bool"
  mg_clock :: "nat \<Rightarrow> int"
  mg_ticks :: nat

definition next_call :: "mongo \<Rightarrow> mongo_end \<times> mongo" where
  "next_call s =
     (case mg_script s of
        [] \<Rightarrow> (MOk, s)
      | (others, e) # rest \<Rightarrow> (e, s\<lparr>mg_db := others (mg_db s), mg_script := rest\<rparr>))"

text \<open>InsertOne, ReplaceOne and DeleteOne: the change of the collections and the answer.\<close>

definition mg_write :: "(collections \<Rightarrow> 'a \<times> collections) \<Rightarrow> (mongo, 'a) act" where
  "mg_write f s =
     (case next_call s of (e, s1) \<Rightarrow>
       (case e of
          MOk \<Rightarrow> (Inr (fst (f (mg_db s1))), s1\<lparr>mg_db := snd (f (mg_db s1))\<rparr>)
        | MLost m \<Rightarrow> (Inl (ErrMsg m), s1\<lparr>mg_db := snd (f (mg_db s1))\<rparr>)
        | MFail m \<Rightarrow> (Inl (ErrMsg m), s1)
        | MCut n m \<Rightarrow> (Inl (ErrMsg m), s1)))"

text \<open>FindOne with Decode: the first document that matches, \<open>None\<close> for ErrNoDocuments.\<close>

definition mg_find_one :: "(collections \<Rightarrow> 'd list) \<Rightarrow> (mongo, 'd option) act" where
  "mg_find_one q s =
     (case next_call s of (e, s1) \<Rightarrow>
       (case e of
          MOk \<Rightarrow> (Inr (case q (mg_db s1) of [] \<Rightarrow> None | d # _ \<Rightarrow> Some d), s1)
        | MFail m \<Rightarrow> (Inl (ErrMsg m), s1)
        | MLost m \<Rightarrow> (Inl (ErrMsg m), s1)
        | MCut n m \<Rightarrow> (Inl (ErrMsg m), s1)))"

text \<open>Connect, Ping and Disconnect look at no collection.\<close>

definition mg_call :: "(mongo, unit) act" where
  "mg_call = act_seq (mg_find_one (\<lambda>_. [])) (\<lambda>_ :: unit option. act_ret ())"

text \<open>Find: the documents the cursor gives, and the error it ended with.\<close>

definition mg_find :: "(collections \<Rightarrow> 'd list) \<Rightarrow> (mongo, 'd list \<times> error option) act" where
  "mg_find q s =
     (case next_call s of (e, s1) \<Rightarrow>
       (case e of
          MOk \<Rightarrow> (Inr (q (mg_db s1), None), s1)
        | MCut n m \<Rightarrow> (Inr (take n (q (mg_db s1)), Some (ErrMsg m)), s1)
        | MFail m \<Rightarrow> (Inl (ErrMsg m), s1)
        | MLost m \<Rightarrow> (Inl (ErrMsg m), s1)))"

text \<open>cursor.All gives nothing when the cursor ended with an error.\<close>

definition cursor_all :: "'d list \<times> error option \<Rightarrow> error + 'd list" where
  "cursor_all c = (case snd c of Some e \<Rightarrow> Inl e | None \<Rightarrow> Inr (fst c))"

text \<open>The first document that matches is replaced, or deleted.\<close>

fun replace_first :: "('d \<Rightarrow> bool) \<Rightarrow> 'd \<Rightarrow> 'd list \<Rightarrow> nat \<times> 'd list" where
  "replace_first P d [] = (0, [])"
| "replace_first P d (x # xs) =
     (if P x then (1, d # xs) else (case replace_first P d xs of (n, ys) \<Rightarrow> (n, x # ys)))"

fun delete_first :: "('d \<Rightarrow> bool) \<Rightarrow> 'd list \<Rightarrow> 'd list" where
  "delete_first P [] = []"
| "delete_first P (x # xs) = (if P x then xs else x # delete_first P xs)"

definition upsert_first :: "('d \<Rightarrow> bool) \<Rightarrow> 'd \<Rightarrow> 'd list \<Rightarrow> 'd list" where
  "upsert_first P d xs = (case replace_first P d xs of (n, ys) \<Rightarrow> if n = 0 then xs @ [d] else ys)"

definition mg_nano :: "(mongo, int) act" where
  "mg_nano s = (Inr (mg_clock s (mg_ticks s)), s\<lparr>mg_ticks := Suc (mg_ticks s)\<rparr>)"

definition mg_unix :: "(mongo, int) act" where
  "mg_unix = act_seq mg_nano (\<lambda>t. act_ret (t div 1000000000))"

definition mg_newID :: "(mongo, string) act" where
  "mg_newID = act_seq mg_nano (\<lambda>t. act_ret (int_text t))"

definition mg_decode :: "(bson \<Rightarrow> 'd \<Rightarrow> 'd) \<Rightarrow> 'd option \<Rightarrow> (mongo, 'd option) act" where
  "mg_decode dec d s = (Inr (map_option (dec (mg_bson s)) d), s)"

definition mg_decode_all :: "(bson \<Rightarrow> 'd \<Rightarrow> 'd) \<Rightarrow> 'd list \<Rightarrow> (mongo, 'd list) act" where
  "mg_decode_all dec ds s = (Inr (map (dec (mg_bson s)) ds), s)"

text \<open>NewStore: the client is made, then the server is asked; Disconnect after a failure is dropped.\<close>

definition mg_NewStore :: "(mongo, unit) act" where
  "mg_NewStore =
     act_seq (act_wrap ''mongo connect'' mg_call) (\<lambda>_.
     act_handle mg_call
       (\<lambda>e. act_handle mg_call (\<lambda>_. act_fail (wrapf ''mongo ping'' e)) (\<lambda>_. act_fail (wrapf ''mongo ping'' e)))
       act_ret)"

definition mg_Close :: "(mongo, unit) act" where
  "mg_Close = mg_call"

section \<open>Sessions\<close>

definition mg_CreateSession :: "string \<Rightarrow> string \<Rightarrow> (mongo, session) act" where
  "mg_CreateSession agentID userID =
     act_seq mg_unix (\<lambda>now.
     act_seq mg_newID (\<lambda>i.
     let sess = \<lparr>sess_id = i, sess_agent_id = agentID, sess_user_id = userID, sess_parent_session_id = [],
       sess_messages = [], sess_state = [], sess_open_interrupts = [], sess_revision = 1,
       sess_created_at = now, sess_updated_at = now\<rparr> in
     act_seq (act_wrap ''create session'' (mg_write (\<lambda>db. ((), db\<lparr>c_sessions := c_sessions db @ [sess]\<rparr>)))) (\<lambda>_.
     act_ret sess)))"

definition with_id :: "string \<Rightarrow> collections \<Rightarrow> session list" where
  "with_id i db = filter (\<lambda>x. sess_id x = i) (c_sessions db)"

definition mg_GetSession :: "string \<Rightarrow> (mongo, session option) act" where
  "mg_GetSession i =
     act_seq (act_wrap (''get session '' @ quote i) (mg_find_one (with_id i))) (mg_decode read_session)"

definition mg_max_revision :: "64 word" where
  "mg_max_revision = 2 ^ 63 - 1"

definition mg_validateSessionUpdate :: "session \<Rightarrow> error + unit" where
  "mg_validateSessionUpdate sess =
     (if sess_id sess = [] then Inl (ErrMsg ''update session: empty id'')
      else if sess_revision sess \<ge> mg_max_revision then
        Inl (ErrMsg (''update session '' @ quote (sess_id sess) @ '': revision overflow''))
      else Inr ())"

definition session_missing :: "string \<Rightarrow> error" where
  "session_missing i = ErrMsg (''update session '' @ quote i @ '': not found'')"

definition loadSessionForUpdate :: "string \<Rightarrow> (mongo, session) act" where
  "loadSessionForUpdate i =
     act_seq (act_wrap (''update session '' @ quote i @ '': inspect current session'') (mg_find_one (with_id i))) (\<lambda>d.
     case d of None \<Rightarrow> act_fail (session_missing i) | Some x \<Rightarrow> act_ret x)"

definition nextMongoUpdatedAt :: "string \<Rightarrow> int \<Rightarrow> (mongo, int) act" where
  "nextMongoUpdatedAt i current =
     act_seq mg_unix (\<lambda>now.
     if now > current then act_ret now
     else if current = 2 ^ 63 - 1 then act_fail (ErrMsg (''update session '' @ quote i @ '': updatedAt overflow''))
     else act_ret (current + 1))"

definition prepareCommittedSession :: "session \<Rightarrow> session \<Rightarrow> (mongo, session) act" where
  "prepareCommittedSession requested existing =
     act_seq (nextMongoUpdatedAt (sess_id requested) (sess_updated_at existing)) (\<lambda>updatedAt.
     act_ret (requested\<lparr>sess_created_at := sess_created_at existing, sess_updated_at := updatedAt,
       sess_revision := sess_revision requested + 1\<rparr>))"

text \<open>
  sessionRevisionFilter: a document without a revision decodes to revision 0, which is what the
  filter for revision 0 asks for.
\<close>

definition sessionRevisionFilter :: "string \<Rightarrow> 64 word \<Rightarrow> session \<Rightarrow> bool" where
  "sessionRevisionFilter i revision x \<longleftrightarrow> sess_id x = i \<and> sess_revision x = revision"

definition replace_session :: "string \<Rightarrow> 64 word \<Rightarrow> session \<Rightarrow> collections \<Rightarrow> nat \<times> collections" where
  "replace_session i revision d db =
     (case replace_first (sessionRevisionFilter i revision) d (c_sessions db) of
        (n, xs) \<Rightarrow> (n, db\<lparr>c_sessions := xs\<rparr>))"

definition mg_classifySessionUpdateMiss :: "string \<Rightarrow> 64 word \<Rightarrow> (mongo, session) act" where
  "mg_classifySessionUpdateMiss i expected =
     act_seq (act_wrap (''update session '' @ quote i @ '': inspect current revision'') (mg_find_one (with_id i))) (\<lambda>d.
     case d of
       None \<Rightarrow> act_fail (session_missing i)
     | Some x \<Rightarrow> act_fail (ErrWrap (''update session '' @ quote i @ '': '') ErrSessionConflict
         ('' (stored revision '' @ nat_text (unat (sess_revision x)) @ '', supplied '' @ nat_text (unat expected) @ '')'')))"

definition mg_applyCommittedSession :: "session \<Rightarrow> session \<Rightarrow> session" where
  "mg_applyCommittedSession target committed =
     target\<lparr>sess_revision := sess_revision committed, sess_created_at := sess_created_at committed,
       sess_updated_at := sess_updated_at committed\<rparr>"

definition mg_UpdateSession :: "session \<Rightarrow> (mongo, session) act" where
  "mg_UpdateSession sess =
     act_seq (act_lift (mg_validateSessionUpdate sess)) (\<lambda>_.
     act_seq (loadSessionForUpdate (sess_id sess)) (\<lambda>existing.
     act_seq (prepareCommittedSession sess existing) (\<lambda>committed.
     act_seq (act_wrap (''update session '' @ quote (sess_id sess))
       (mg_write (replace_session (sess_id sess) (sess_revision sess) committed))) (\<lambda>matched.
     if matched = 0 then mg_classifySessionUpdateMiss (sess_id sess) (sess_revision sess)
     else act_ret (mg_applyCommittedSession sess committed)))))"

definition mg_DeleteSession :: "string \<Rightarrow> (mongo, unit) act" where
  "mg_DeleteSession i =
     act_wrap (''delete session '' @ quote i)
       (mg_write (\<lambda>db. ((), db\<lparr>c_sessions := delete_first (\<lambda>x. sess_id x = i) (c_sessions db)\<rparr>)))"

text \<open>The loop over \<open>cursor.Next\<close> never asks why it ended.\<close>

definition findSessionSummaries :: "(session \<Rightarrow> bool) \<Rightarrow> string \<Rightarrow> (mongo, session list) act" where
  "findSessionSummaries P operation =
     act_seq (act_wrap operation (mg_find (\<lambda>db. filter P (c_sessions db)))) (\<lambda>c.
     act_seq (mg_decode_all read_session (fst c)) (\<lambda>xs.
     act_ret (sortSessions (map (\<lambda>x. x\<lparr>sess_messages := []\<rparr>) xs))))"

definition mg_ListSessions :: "string \<Rightarrow> (mongo, session list) act" where
  "mg_ListSessions agentID = findSessionSummaries (\<lambda>x. sess_agent_id x = agentID) ''list sessions''"

definition mg_ListSessionsByUser :: "string \<Rightarrow> string \<Rightarrow> (mongo, session list) act" where
  "mg_ListSessionsByUser agentID userID =
     findSessionSummaries (\<lambda>x. sess_agent_id x = agentID \<and> sess_user_id x = userID) ''list sessions by user''"

section \<open>Tools, skills and servers\<close>

definition mg_SaveTool :: "tool_def \<Rightarrow> (mongo, unit) act" where
  "mg_SaveTool d =
     act_wrap (''save tool '' @ quote (td_name d))
       (mg_write (\<lambda>db. ((), db\<lparr>c_tools := upsert_first (\<lambda>x. td_name x = td_name d) d (c_tools db)\<rparr>)))"

definition mg_GetTool :: "string \<Rightarrow> (mongo, tool_def option) act" where
  "mg_GetTool name =
     act_seq (act_wrap (''get tool '' @ quote name) (mg_find_one (\<lambda>db. filter (\<lambda>x. td_name x = name) (c_tools db))))
       (mg_decode read_tool)"

definition mg_ListTools :: "string \<Rightarrow> (mongo, tool_def list) act" where
  "mg_ListTools agentID =
     act_seq (act_wrap (''list tools for agent '' @ quote agentID)
       (mg_find (\<lambda>db. filter (\<lambda>x. td_agent_id x = agentID) (c_tools db)))) (\<lambda>c.
     act_seq (act_wrap ''decode tools'' (act_lift (cursor_all c))) (mg_decode_all read_tool))"

definition mg_DeleteTool :: "string \<Rightarrow> (mongo, unit) act" where
  "mg_DeleteTool name =
     act_wrap (''delete tool '' @ quote name)
       (mg_write (\<lambda>db. ((), db\<lparr>c_tools := delete_first (\<lambda>x. td_name x = name) (c_tools db)\<rparr>)))"

definition mg_SaveSkill :: "skill_def \<Rightarrow> (mongo, unit) act" where
  "mg_SaveSkill d =
     act_wrap (''save skill '' @ quote (sd_name d))
       (mg_write (\<lambda>db. ((), db\<lparr>c_skills := upsert_first (\<lambda>x. sd_name x = sd_name d) d (c_skills db)\<rparr>)))"

definition mg_GetSkill :: "string \<Rightarrow> (mongo, skill_def option) act" where
  "mg_GetSkill name =
     act_seq (act_wrap (''get skill '' @ quote name) (mg_find_one (\<lambda>db. filter (\<lambda>x. sd_name x = name) (c_skills db))))
       (mg_decode read_skill)"

definition mg_ListSkills :: "(mongo, skill_entry list) act" where
  "mg_ListSkills =
     act_seq (act_wrap ''list skills'' (mg_find c_skills)) (\<lambda>c.
     act_seq (act_wrap ''decode skills'' (act_lift (cursor_all c))) (\<lambda>ds.
     act_ret (map (\<lambda>d. \<lparr>se_name = sd_name d, se_description = sd_description d, se_version = sd_version d,
       se_enabled = sd_enabled d\<rparr>) ds)))"

definition mg_DeleteSkill :: "string \<Rightarrow> (mongo, unit) act" where
  "mg_DeleteSkill name =
     act_wrap (''delete skill '' @ quote name)
       (mg_write (\<lambda>db. ((), db\<lparr>c_skills := delete_first (\<lambda>x. sd_name x = name) (c_skills db)\<rparr>)))"

definition mg_SaveMCPServer :: "mcp_server_def \<Rightarrow> (mongo, unit) act" where
  "mg_SaveMCPServer d =
     act_wrap (''save mcp server '' @ quote (ms_name d))
       (mg_write (\<lambda>db. ((), db\<lparr>c_mcp_servers := upsert_first (\<lambda>x. ms_name x = ms_name d) d (c_mcp_servers db)\<rparr>)))"

definition mg_GetMCPServer :: "string \<Rightarrow> (mongo, mcp_server_def option) act" where
  "mg_GetMCPServer name =
     act_wrap (''get mcp server '' @ quote name)
       (mg_find_one (\<lambda>db. filter (\<lambda>x. ms_name x = name) (c_mcp_servers db)))"

definition mg_ListMCPServers :: "string \<Rightarrow> (mongo, mcp_server_def list) act" where
  "mg_ListMCPServers agentID =
     act_seq (act_wrap (''list mcp servers for agent '' @ quote agentID)
       (mg_find (\<lambda>db. filter (\<lambda>x. ms_agent_id x = agentID) (c_mcp_servers db)))) (\<lambda>c.
     act_wrap ''decode mcp servers'' (act_lift (cursor_all c)))"

definition mg_DeleteMCPServer :: "string \<Rightarrow> (mongo, unit) act" where
  "mg_DeleteMCPServer name =
     act_wrap (''delete mcp server '' @ quote name)
       (mg_write (\<lambda>db. ((), db\<lparr>c_mcp_servers := delete_first (\<lambda>x. ms_name x = name) (c_mcp_servers db)\<rparr>)))"

section \<open>Scoped memory\<close>

definition mg_SetMemory :: "memory_scope \<Rightarrow> string \<Rightarrow> string \<Rightarrow> string \<Rightarrow> (mongo, unit) act" where
  "mg_SetMemory scope scopeID key v =
     (let k = ScopedKey scope scopeID key in
      act_wrap (''set memory '' @ quote k)
        (mg_write (\<lambda>db. ((), db\<lparr>c_memory := upsert_first (\<lambda>x. fst x = k) (k, v) (c_memory db)\<rparr>))))"

definition mg_GetMemory :: "memory_scope \<Rightarrow> string \<Rightarrow> string \<Rightarrow> (mongo, string option) act" where
  "mg_GetMemory scope scopeID key =
     (let k = ScopedKey scope scopeID key in
      act_seq (act_wrap (''get memory '' @ quote k) (mg_find_one (\<lambda>db. filter (\<lambda>x. fst x = k) (c_memory db)))) (\<lambda>d.
      act_ret (map_option snd d)))"

definition mg_DeleteMemory :: "memory_scope \<Rightarrow> string \<Rightarrow> string \<Rightarrow> (mongo, unit) act" where
  "mg_DeleteMemory scope scopeID key =
     (let k = ScopedKey scope scopeID key in
      act_wrap (''delete memory '' @ quote k)
        (mg_write (\<lambda>db. ((), db\<lparr>c_memory := delete_first (\<lambda>x. fst x = k) (c_memory db)\<rparr>))))"

text \<open>escapeRegex: every rune is cut to its lowest byte.\<close>

definition regex_special :: "nat list" where
  "regex_special = map of_char ''.^$*+?()[]{}|'' @ [92]"

fun escape_runes :: "nat list \<Rightarrow> string" where
  "escape_runes [] = []"
| "escape_runes (c # cs) =
     (if c \<in> set regex_special then [CHR 0x5C] else []) @ char_of (c mod 256) # escape_runes cs"

definition escapeRegex :: "string \<Rightarrow> string" where
  "escapeRegex s = escape_runes (map fst (runes s))"

definition mg_ListMemory :: "memory_scope \<Rightarrow> string \<Rightarrow> string \<Rightarrow> (mongo, string list) act" where
  "mg_ListMemory scope scopeID pre s =
     (let k = ScopedKey scope scopeID pre in
      act_seq (act_wrap (''list memory prefix '' @ quote k)
        (mg_find (\<lambda>db. filter (mg_regex s (CHR ''^'' # escapeRegex k)) (map fst (c_memory db))))) (\<lambda>c.
      act_wrap ''cursor error'' (act_lift (cursor_all c))) s)"

definition mg_Set :: "string \<Rightarrow> string \<Rightarrow> (mongo, unit) act" where
  "mg_Set key v = mg_SetMemory ScopeGlobal [] key v"

definition mg_Get :: "string \<Rightarrow> (mongo, string option) act" where
  "mg_Get key = mg_GetMemory ScopeGlobal [] key"

definition mg_Delete :: "string \<Rightarrow> (mongo, unit) act" where
  "mg_Delete key = mg_DeleteMemory ScopeGlobal [] key"

definition mg_List :: "string \<Rightarrow> (mongo, string list) act" where
  "mg_List pre = mg_ListMemory ScopeGlobal [] pre"

end
