(* ===== verification/Clients.thy ===== *)
theory Clients
  imports Acts
begin

text \<open>
  A service that other clients use too: a script has, for every call, what the others did before the
  call was served, and how the call ended. What the first calls of a script do to the data, and what
  is kept when the others keep it.
\<close>

definition after_calls :: "nat \<Rightarrow> (('d \<Rightarrow> 'd) \<times> 'e) list \<Rightarrow> 'd \<Rightarrow> 'd" where
  "after_calls n script db = fold (\<lambda>c db. fst c db) (take n script) db"

lemma after_calls_0 [simp]: "after_calls 0 script db = db"
  by (simp add: after_calls_def)

lemma after_calls_add: "after_calls (n + m) script db = after_calls m (drop n script) (after_calls n script db)"
  by (simp add: after_calls_def take_add)

lemma after_calls_Cons [simp]: "after_calls (Suc n) (c # script) db = after_calls n script (fst c db)"
  by (simp add: after_calls_def)

lemma after_calls_Nil [simp]: "after_calls n [] db = db"
  by (simp add: after_calls_def)

lemma after_calls_Suc:
  "after_calls (Suc n) script db =
     (if n < length script then fst (script ! n) (after_calls n script db) else after_calls n script db)"
  by (simp add: after_calls_def take_Suc_conv_app_nth)

text \<open>Other clients make steps of \<open>R\<close> only.\<close>

definition others_step :: "('d \<Rightarrow> 'd \<Rightarrow> bool) \<Rightarrow> (('d \<Rightarrow> 'd) \<times> 'e) list \<Rightarrow> bool" where
  "others_step R script \<longleftrightarrow> (\<forall>c \<in> set script. \<forall>db. R\<^sup>*\<^sup>* db (fst c db))"

lemma others_step_drop: "others_step R script \<Longrightarrow> others_step R (drop n script)"
  using set_drop_subset [of n script] by (auto simp: others_step_def)

lemma others_keep:
  assumes "others_step R script" "\<And>db db'. R db db' \<Longrightarrow> P db \<Longrightarrow> P db'" "P (after_calls n script db)" "n \<le> m"
  shows "P (after_calls m script db)"
  using assms(4)
proof (induction rule: dec_induct)
  case (step k)
  have star: "P y" if "R\<^sup>*\<^sup>* x y" "P x" for x y
    using that by (induction rule: rtranclp_induct) (auto intro: assms(2))
  show ?case
  proof (cases "k < length script")
    case True
    then have "R\<^sup>*\<^sup>* (after_calls k script db) (after_calls (Suc k) script db)"
      using assms(1) by (simp add: after_calls_Suc others_step_def)
    then show ?thesis using star step.IH by blast
  qed (use step.IH in \<open>simp add: after_calls_Suc\<close>)
qed (rule assms(3))

lemma clients_keep:
  assumes "\<And>c db. c \<in> set script \<Longrightarrow> P db \<Longrightarrow> P (fst c db)" "P db"
  shows "P (after_calls n script db)"
proof (induction n)
  case (Suc n)
  then show ?case using assms(1) [of "script ! n"] by (simp add: after_calls_Suc)
qed (simp add: assms(2))

definition alone :: "(('d \<Rightarrow> 'd) \<times> 'e) list \<Rightarrow> bool" where
  "alone script \<longleftrightarrow> (\<forall>c \<in> set script. \<forall>db. fst c db = db)"

lemma alone_after: "alone script \<Longrightarrow> after_calls n script db = db"
proof (induction n)
  case (Suc n)
  then show ?case by (simp add: after_calls_Suc alone_def)
qed simp

lemma alone_drop: "alone script \<Longrightarrow> alone (drop n script)"
  using set_drop_subset [of n script] by (auto simp: alone_def)

lemma alone_Nil [simp]: "alone []"
  by (simp add: alone_def)

end
