(* ===== verification/Mongo_Spec.thy ===== *)
theory Mongo_Spec
  imports Mongo Clients Store_Contract
begin

text \<open>
  What the MongoDB store promises about sessions while other clients work on the same collections:
  UpdateSession takes effect in one call, ReplaceOne with the revision in its filter, or not at all,
  so no update is lost. Alone on the database it is an instance of \<open>session_store\<close>. Listing memory
  by a prefix is broken for prefixes that are not ASCII.
\<close>

section \<open>Other clients between the calls\<close>

text \<open>From \<open>s\<close> to \<open>t\<close> only what other clients did in \<open>n\<close> calls of the script has happened.\<close>

definition after_others :: "nat \<Rightarrow> mongo \<Rightarrow> collections" where
  "after_others n s = after_calls n (mg_script s) (mg_db s)"

definition others_ran :: "nat \<Rightarrow> mongo \<Rightarrow> mongo \<Rightarrow> bool" where
  "others_ran n s t \<longleftrightarrow>
     mg_bson t = mg_bson s \<and> mg_script t = drop n (mg_script s) \<and> mg_db t = after_others n s"

lemma others_refl [simp]: "others_ran 0 s s"
  by (simp add: others_ran_def after_others_def)

lemma others_trans: "others_ran n s t \<Longrightarrow> others_ran m t u \<Longrightarrow> others_ran (n + m) s u"
  unfolding others_ran_def after_others_def after_calls_add by (simp add: add.commute [of n m])

lemma next_call_others:
  assumes "next_call s = (e, t)"
  shows "others_ran 1 s t"
  using assms by (cases "mg_script s") (auto simp: next_call_def others_ran_def after_others_def split: prod.splits)

lemma find_one_others: "mg_find_one q s = (r, t) \<Longrightarrow> others_ran 1 s t"
  using next_call_others by (fastforce simp: mg_find_one_def split: prod.splits mongo_end.splits)

lemma find_one_value: "mg_find_one q s = (Inr x, t) \<Longrightarrow> x = (case q (mg_db t) of [] \<Rightarrow> None | d # _ \<Rightarrow> Some d)"
  by (auto simp: mg_find_one_def split: prod.splits mongo_end.splits)

lemma mg_unix_others: "mg_unix s = (r, t) \<Longrightarrow> others_ran 0 s t"
  by (auto simp: others_ran_def after_others_def mg_unix_def mg_nano_def act_seq_iff)

lemma write_cases:
  assumes "mg_write f s = (r, t)"
  obtains (done_) u where "others_ran 1 s u" "r = Inr (fst (f (mg_db u)))" "t = u\<lparr>mg_db := snd (f (mg_db u))\<rparr>"
  | (lost) u m where "others_ran 1 s u" "r = Inl (ErrMsg m)" "t = u\<lparr>mg_db := snd (f (mg_db u))\<rparr>"
  | (failed) m where "others_ran 1 s t" "r = Inl (ErrMsg m)"
proof -
  obtain e u where u: "next_call s = (e, u)" by force
  note o = next_call_others [OF u]
  show ?thesis
  proof (cases e)
    case MOk
    then show ?thesis using assms u o done_ [of u] by (simp add: mg_write_def)
  next
    case (MLost m)
    then show ?thesis using assms u o lost [of u m] by (simp add: mg_write_def)
  qed (use assms u o failed in \<open>auto simp: mg_write_def\<close>)
qed

section \<open>Replacing one document\<close>

lemma replace_first_none: "fst (replace_first P d xs) = 0 \<longleftrightarrow> (\<forall>x \<in> set xs. \<not> P x)"
  by (induction xs) (auto split: prod.splits)

lemma replace_first_miss: "(\<forall>x \<in> set xs. \<not> P x) \<Longrightarrow> replace_first P d xs = (0, xs)"
  by (induction xs) auto

lemma replace_first_filter:
  assumes "\<And>x. P x \<Longrightarrow> Q x" "Q d" "filter Q xs = [x]" "P x"
  shows "filter Q (snd (replace_first P d xs)) = [d]"
  using assms(3)
proof (induction xs)
  case (Cons y ys)
  then show ?case using assms(1,2,4) by (auto split: prod.splits if_splits)
qed simp

lemma replace_first_others:
  assumes "\<And>x. P x \<Longrightarrow> \<not> Q x" "\<not> Q d"
  shows "filter Q (snd (replace_first P d xs)) = filter Q xs"
  using assms by (induction xs) (auto split: prod.splits)

section \<open>UpdateSession in one call\<close>

lemma validate_Inr: "mg_validateSessionUpdate sess = Inr u \<Longrightarrow> sess_revision sess < mg_max_revision"
  by (auto simp: mg_validateSessionUpdate_def not_le split: if_splits)

lemma load_done:
  assumes "loadSessionForUpdate i s = (Inr x, t)"
  shows "others_ran 1 s t" "x \<in> set (with_id i (mg_db t))"
proof -
  obtain d where d: "mg_find_one (with_id i) s = (Inr d, t)" "d = Some x"
    using assms by (auto simp: loadSessionForUpdate_def act_seq_iff split: option.splits)
  show "others_ran 1 s t" by (rule find_one_others [OF d(1)])
  show "x \<in> set (with_id i (mg_db t))"
    using find_one_value [OF d(1)] d(2) by (cases "with_id i (mg_db t)") simp_all
qed

lemma load_failed: "loadSessionForUpdate i s = (Inl e, t) \<Longrightarrow> others_ran 1 s t"
  by (auto simp: loadSessionForUpdate_def act_seq_iff act_wrap_iff split: option.splits dest: find_one_others [unfolded One_nat_def])

lemma next_updated:
  assumes "nextMongoUpdatedAt i c s = (r, t)"
  shows "others_ran 0 s t" "r = Inr u \<Longrightarrow> c < u"
  using assms by (auto simp: nextMongoUpdatedAt_def act_seq_iff dest: mg_unix_others split: if_splits)

lemma prepare_others: "prepareCommittedSession req ex s = (r, t) \<Longrightarrow> others_ran 0 s t"
  by (auto simp: prepareCommittedSession_def act_seq_iff dest: next_updated(1))

lemma prepare_done:
  assumes "prepareCommittedSession req ex s = (Inr c, t)"
  obtains v where "sess_updated_at ex < v"
    "c = req\<lparr>sess_created_at := sess_created_at ex, sess_updated_at := v, sess_revision := sess_revision req + 1\<rparr>"
  using assms next_updated(2) by (fastforce simp: prepareCommittedSession_def act_seq_iff)

lemma miss_fails: "mg_classifySessionUpdateMiss i r s \<noteq> (Inr x, t)"
  by (auto simp: mg_classifySessionUpdateMiss_def act_seq_iff split: option.splits)

lemma miss_others: "mg_classifySessionUpdateMiss i r s = (y, t) \<Longrightarrow> others_ran 1 s t"
  by (auto simp: mg_classifySessionUpdateMiss_def act_seq_iff act_wrap_iff split: option.splits dest: find_one_others [unfolded One_nat_def])

text \<open>The document an update writes.\<close>

definition committed_doc :: "session \<Rightarrow> session \<Rightarrow> int \<Rightarrow> session" where
  "committed_doc sess ex v =
     sess\<lparr>sess_created_at := sess_created_at ex, sess_updated_at := v, sess_revision := sess_revision sess + 1\<rparr>"

definition doc_replaced :: "session \<Rightarrow> session \<Rightarrow> mongo \<Rightarrow> mongo \<Rightarrow> bool" where
  "doc_replaced sess d u t \<longleftrightarrow>
     (\<exists>x \<in> set (c_sessions (mg_db u)). sess_id x = sess_id sess \<and> sess_revision x = sess_revision sess) \<and>
     mg_db t = snd (replace_session (sess_id sess) (sess_revision sess) d (mg_db u))"

lemma apply_committed: "mg_applyCommittedSession sess (committed_doc sess ex v) = committed_doc sess ex v"
  by (simp add: mg_applyCommittedSession_def committed_doc_def)

lemma replace_session_db:
  "snd (replace_session i r d db) = db\<lparr>c_sessions := snd (replace_first (sessionRevisionFilter i r) d (c_sessions db))\<rparr>"
  "fst (replace_session i r d db) = fst (replace_first (sessionRevisionFilter i r) d (c_sessions db))"
  by (simp_all add: replace_session_def split: prod.split)

lemma replace_session_miss:
  assumes "fst (replace_session i r d db) = 0"
  shows "snd (replace_session i r d db) = db"
  using assms replace_first_none [of "sessionRevisionFilter i r" d "c_sessions db"]
    replace_first_miss [of "c_sessions db" "sessionRevisionFilter i r" d]
  by (simp add: replace_session_db)

lemma replace_session_hit:
  "fst (replace_session i r d db) \<noteq> 0 \<longleftrightarrow> (\<exists>x \<in> set (c_sessions db). sess_id x = i \<and> sess_revision x = r)"
  by (auto simp: replace_session_db replace_first_none sessionRevisionFilter_def)

text \<open>
  The three ways an update ends: done in one step of the database that had the revision of the
  caller, not done, or done with its answer lost.
\<close>

lemma update_cases:
  assumes "mg_UpdateSession sess s = (r, t)"
  obtains (committed) ex v u where "ex \<in> set (with_id (sess_id sess) (after_others 1 s))"
      "others_ran 2 s u" "sess_updated_at ex < v" "sess_revision sess < mg_max_revision"
      "doc_replaced sess (committed_doc sess ex v) u t" "mg_bson t = mg_bson s" "mg_script t = mg_script u"
      "r = Inr (committed_doc sess ex v)"
  | (lost) ex v u m where "ex \<in> set (with_id (sess_id sess) (after_others 1 s))"
      "others_ran 2 s u" "sess_updated_at ex < v" "sess_revision sess < mg_max_revision"
      "doc_replaced sess (committed_doc sess ex v) u t" "mg_bson t = mg_bson s" "mg_script t = mg_script u"
      "r = Inl (wrapf (''update session '' @ quote (sess_id sess)) (ErrMsg m))"
  | (refused) e n where "others_ran n s t" "r = Inl e"
proof (cases "mg_validateSessionUpdate sess")
  case (Inl e)
  then show ?thesis using assms refused [of 0 e] by (simp add: mg_UpdateSession_def act_seq_iff)
next
  case (Inr u0)
  note rev = validate_Inr [OF Inr]
  let ?i = "sess_id sess" and ?r = "sess_revision sess"
  let ?rest = "\<lambda>c matched. if matched = 0 then mg_classifySessionUpdateMiss ?i ?r
     else act_ret (mg_applyCommittedSession sess c)"
  have body: "act_seq (loadSessionForUpdate ?i) (\<lambda>ex. act_seq (prepareCommittedSession sess ex) (\<lambda>c.
      act_seq (act_wrap (''update session '' @ quote ?i) (mg_write (replace_session ?i ?r c))) (?rest c))) s = (r, t)"
    using assms Inr by (simp add: mg_UpdateSession_def act_seq_iff [of "act_lift _"])
  obtain a l where load: "loadSessionForUpdate ?i s = (a, l)" by force
  show ?thesis
  proof (cases a)
    case (Inl e)
    then show ?thesis using body load load_failed [of ?i s e l] refused [of 1 e] by (simp add: act_seq_def)
  next
    case (Inr ex)
    have l: "others_ran 1 s l" "ex \<in> set (with_id ?i (after_others 1 s))"
      using load_done [of ?i s ex l] load Inr by (simp_all add: others_ran_def)
    obtain b p where p: "prepareCommittedSession sess ex l = (b, p)" by force
    have sp: "others_ran 1 s p" using others_trans [OF l(1) prepare_others [OF p]] by simp
    show ?thesis
    proof (cases b)
      case (Inl e)
      then show ?thesis using body load \<open>a = Inr ex\<close> p refused [of 1 e] sp by (simp add: act_seq_def)
    next
      case (Inr c)
      obtain v where v: "sess_updated_at ex < v" "c = committed_doc sess ex v"
        using p Inr by (auto elim: prepare_done simp: committed_doc_def)
      obtain w q where q: "mg_write (replace_session ?i ?r c) p = (w, q)" by force
      have end_: "(case (case w of Inl e \<Rightarrow> Inl (if is_panic e then e else wrapf (''update session '' @ quote ?i) e)
            | Inr n \<Rightarrow> Inr n) of Inl e \<Rightarrow> (Inl e, q) | Inr n \<Rightarrow> ?rest c n q) = (r, t)"
        using body load \<open>a = Inr ex\<close> p Inr q by (cases w) (auto simp: act_seq_def act_wrap_def)
      have two: "others_ran 2 s u" if "others_ran 1 p u" for u
        using others_trans [OF sp that] by (simp add: numeral_2_eq_2)
      from q show ?thesis
      proof (cases rule: write_cases)
        case (failed m)
        then show ?thesis using end_ refused [of 2] two [OF failed(1)] by auto
      next
        case (lost u m)
        have su: "others_ran 2 s u" by (rule two [OF lost(1)])
        have t: "t = q" "r = Inl (wrapf (''update session '' @ quote ?i) (ErrMsg m))"
          using end_ lost(2) by auto
        show ?thesis
        proof (cases "fst (replace_session ?i ?r c (mg_db u)) = 0")
          case True
          then have "others_ran 2 s t" using t lost(3) su replace_session_miss [OF True] by simp
          then show ?thesis using t(2) by (rule refused)
        next
          case False
          then show ?thesis
            using that(2) [OF l(2) su v(1) rev] lost(3) t su v(2) replace_session_hit
            by (auto simp: doc_replaced_def others_ran_def)
        qed
      next
        case (done_ u)
        have su: "others_ran 2 s u" by (rule two [OF done_(1)])
        show ?thesis
        proof (cases "fst (replace_session ?i ?r c (mg_db u)) = 0")
          case True
          then have "q = u" using done_(3) replace_session_miss [OF True] by simp
          then have m: "mg_classifySessionUpdateMiss ?i ?r u = (r, t)"
            using end_ done_(2) True by simp
          then obtain e where "r = Inl e" using miss_fails by (cases r) auto
          then show ?thesis using refused others_trans [OF su miss_others [OF m]] by blast
        next
          case False
          then show ?thesis
            using committed [OF l(2) su v(1) rev] done_(2,3) end_ su v(2) replace_session_hit
            by (auto simp: doc_replaced_def others_ran_def apply_committed act_ret_def)
        qed
      qed
    qed
  qed
qed

end
