(* ===== verification/Mongo_Props.thy ===== *)
theory Mongo_Props
  imports Mongo_Spec
begin

text \<open>
  What clients of the MongoDB store may conclude: an update is one atomic step, an update from a
  revision that any client has gone past is refused, alone on the database the store is a
  \<open>session_store\<close> and its memory a \<open>kv_store\<close>, and what listing memory by a prefix gives.
\<close>

section \<open>Clients that use this store\<close>

text \<open>What one call of another client does to the collections; ids made by newID do not repeat \<open>i\<close>.\<close>

inductive store_write :: "string \<Rightarrow> collections \<Rightarrow> collections \<Rightarrow> bool" for i where
  create: "sess_id x \<noteq> i \<Longrightarrow> store_write i db (db\<lparr>c_sessions := c_sessions db @ [x]\<rparr>)"
| replace: "sess_revision x < mg_max_revision \<Longrightarrow>
    store_write i db (snd (replace_session (sess_id x) (sess_revision x) (committed_doc x ex v) db))"
| remove: "store_write i db (db\<lparr>c_sessions := delete_first (\<lambda>x. sess_id x = j) (c_sessions db)\<rparr>)"
| elsewhere: "c_sessions db' = c_sessions db \<Longrightarrow> store_write i db db'"

definition only_clients :: "string \<Rightarrow> mongo \<Rightarrow> bool" where
  "only_clients i s \<longleftrightarrow> others_step (store_write i) (mg_script s)"

definition moved_on :: "string \<Rightarrow> 64 word \<Rightarrow> collections \<Rightarrow> bool" where
  "moved_on i r db \<longleftrightarrow> (\<forall>x \<in> set (c_sessions db). sess_id x = i \<longrightarrow> r < sess_revision x)"

definition one_doc :: "string \<Rightarrow> collections \<Rightarrow> bool" where
  "one_doc i db \<longleftrightarrow> length (with_id i db) \<le> 1"

lemma replace_first_mem: "y \<in> set (snd (replace_first P d xs)) \<Longrightarrow> y \<in> set xs \<or> y = d \<and> (\<exists>x \<in> set xs. P x)"
  by (induction xs) (auto split: prod.splits if_splits)

lemma delete_first_mem: "y \<in> set (delete_first P xs) \<Longrightarrow> y \<in> set xs"
  by (induction xs) (auto split: if_splits)

lemma replace_first_length:
  "(\<And>x. P x \<Longrightarrow> Q x \<longleftrightarrow> Q d) \<Longrightarrow> length (filter Q (snd (replace_first P d xs))) = length (filter Q xs)"
  by (induction xs) (auto split: prod.splits)

lemma delete_first_length: "length (filter Q (delete_first P xs)) \<le> length (filter Q xs)"
  by (induction xs) auto

lemma next_revision: "(r :: 64 word) < mg_max_revision \<Longrightarrow> unat (r + 1) = Suc (unat r)"
  by (rule unat_next) (auto simp: mg_max_revision_def)

lemma next_revision_less: "(r :: 64 word) < mg_max_revision \<Longrightarrow> r < r + 1"
  using next_revision by (simp add: word_less_nat_alt)

lemma committed_id [simp]: "sess_id (committed_doc x ex v) = sess_id x"
  "sess_revision (committed_doc x ex v) = sess_revision x + 1"
  by (simp_all add: committed_doc_def)

lemma with_id_replaced:
  "with_id j (snd (replace_session i r d db)) =
     filter (\<lambda>x. sess_id x = j) (snd (replace_first (sessionRevisionFilter i r) d (c_sessions db)))"
  by (simp add: with_id_def replace_session_db(1))

lemma moved_on_kept: "store_write i db db' \<Longrightarrow> moved_on i r db \<Longrightarrow> moved_on i r db'"
proof (induction rule: store_write.induct)
  case (replace x db ex v)
  show ?case unfolding moved_on_def
  proof (intro ballI impI)
    fix y assume y: "y \<in> set (c_sessions (snd (replace_session (sess_id x) (sess_revision x) (committed_doc x ex v) db)))"
      "sess_id y = i"
    from y(1) have "y \<in> set (c_sessions db) \<or> y = committed_doc x ex v \<and>
        (\<exists>z \<in> set (c_sessions db). sess_id z = sess_id x \<and> sess_revision z = sess_revision x)"
      using replace_first_mem [of y "sessionRevisionFilter (sess_id x) (sess_revision x)" "committed_doc x ex v" "c_sessions db"]
      by (simp add: replace_session_db sessionRevisionFilter_def)
    then show "r < sess_revision y"
    proof
      assume "y \<in> set (c_sessions db)"
      then show ?thesis using replace(2) y(2) by (simp add: moved_on_def)
    next
      assume c: "y = committed_doc x ex v \<and> (\<exists>z \<in> set (c_sessions db). sess_id z = sess_id x \<and> sess_revision z = sess_revision x)"
      then have "r < sess_revision x" using replace(2) y(2) by (auto simp: moved_on_def)
      then show ?thesis using c next_revision_less [OF replace(1)] by simp
    qed
  qed
qed (auto simp: moved_on_def dest: delete_first_mem)

lemma one_doc_kept: "store_write i db db' \<Longrightarrow> one_doc i db \<Longrightarrow> one_doc i db'"
proof (induction rule: store_write.induct)
  case (replace x db ex v)
  have "length (with_id i (snd (replace_session (sess_id x) (sess_revision x) (committed_doc x ex v) db))) = length (with_id i db)"
    unfolding with_id_replaced unfolding with_id_def
    by (rule replace_first_length) (simp add: sessionRevisionFilter_def)
  then show ?case using replace(2) by (simp add: one_doc_def)
next
  case (remove db j)
  then show ?case using le_trans [OF delete_first_length] by (simp add: one_doc_def with_id_def)
qed (auto simp: one_doc_def with_id_def)

section \<open>Updates under interference\<close>

text \<open>
  C8: Whatever other clients do between the calls and whatever call fails, UpdateSession is one
  atomic step: when it returns the session it has replaced, in the database its second call found,
  a document that had the caller's revision, and the new document holds the caller's content with
  the next revision and a later update time; when it returns an error nothing was written, or that
  same step was made and its answer was lost.
\<close>

theorem mongo_update_atomic:
  assumes "mg_UpdateSession sess s = (r, t)"
  shows "case r of
      Inr c \<Rightarrow> (\<exists>ex v u. ex \<in> set (with_id (sess_id sess) (after_others 1 s)) \<and> sess_updated_at ex < v \<and>
        c = committed_doc sess ex v \<and> unat (sess_revision c) = Suc (unat (sess_revision sess)) \<and>
        others_ran 2 s u \<and> doc_replaced sess c u t)
    | Inl e \<Rightarrow> (\<exists>n. others_ran n s t) \<or>
        (\<exists>ex v u. ex \<in> set (with_id (sess_id sess) (after_others 1 s)) \<and> sess_updated_at ex < v \<and>
          others_ran 2 s u \<and> doc_replaced sess (committed_doc sess ex v) u t)"
  using assms
proof (cases rule: update_cases)
  case (committed ex v u)
  have "unat (sess_revision (committed_doc sess ex v)) = Suc (unat (sess_revision sess))"
    using next_revision [OF committed(4)] by simp
  then show ?thesis using committed(1,2,3,5,8) by auto
next
  case (lost ex v u m)
  then show ?thesis by auto
qed auto

lemma stale_refused:
  assumes "only_clients (sess_id b) s" "n \<le> 2" "moved_on (sess_id b) (sess_revision b) (after_others n s)"
    and "mg_UpdateSession b s = (r, t)"
  shows "isl r \<and> (\<exists>m. others_ran m s t)"
proof -
  have "moved_on (sess_id b) (sess_revision b) (after_others 2 s)"
    using others_keep [where P = "moved_on (sess_id b) (sess_revision b)", OF _ moved_on_kept _ assms(2)] assms(1,3)
    by (simp add: only_clients_def after_others_def)
  then have no: "\<not> doc_replaced b c u t" if "others_ran 2 s u" for c u
    using that by (auto simp: doc_replaced_def others_ran_def moved_on_def)
  from assms(4) show ?thesis
  proof (cases rule: update_cases)
    case (committed ex v u)
    then show ?thesis using no by blast
  next
    case (lost ex v u m)
    then show ?thesis using no by blast
  next
    case (refused e m)
    then show ?thesis by auto
  qed
qed

lemma doc_replaced_one:
  assumes "doc_replaced sess d u t" "one_doc (sess_id sess) (mg_db u)" "sess_id d = sess_id sess"
  obtains y where "with_id (sess_id sess) (mg_db u) = [y]" "sess_revision y = sess_revision sess"
    "with_id (sess_id sess) (mg_db t) = [d]" "\<And>j. j \<noteq> sess_id sess \<Longrightarrow> with_id j (mg_db t) = with_id j (mg_db u)"
proof -
  obtain y where y: "y \<in> set (c_sessions (mg_db u))" "sess_id y = sess_id sess" "sess_revision y = sess_revision sess"
    and t: "mg_db t = snd (replace_session (sess_id sess) (sess_revision sess) d (mg_db u))"
    using assms(1) by (auto simp: doc_replaced_def)
  have "y \<in> set (with_id (sess_id sess) (mg_db u))" using y(1,2) by (simp add: with_id_def)
  then have w: "with_id (sess_id sess) (mg_db u) = [y]"
    using assms(2) by (cases "with_id (sess_id sess) (mg_db u)") (auto simp: one_doc_def)
  then have y1: "filter (\<lambda>z. sess_id z = sess_id sess) (c_sessions (mg_db u)) = [y]" by (simp add: with_id_def)
  have "with_id (sess_id sess) (mg_db t) = [d]"
    unfolding t with_id_replaced
    by (rule replace_first_filter [OF _ _ y1]) (use y(2,3) assms(3) in \<open>simp_all add: sessionRevisionFilter_def\<close>)
  moreover have "with_id j (mg_db t) = with_id j (mg_db u)" if "j \<noteq> sess_id sess" for j
    unfolding t with_id_replaced unfolding with_id_def
    by (rule replace_first_others) (use that assms(3) in \<open>auto simp: sessionRevisionFilter_def\<close>)
  ultimately show ?thesis using that w y(3) by blast
qed

text \<open>After an update that returned, its document is there and the session has moved on.\<close>

lemma update_moves_on:
  assumes "only_clients (sess_id a) s" "one_doc (sess_id a) (mg_db s)" "mg_UpdateSession a s = (Inr x, t)"
  shows "with_id (sess_id a) (mg_db t) = [x]" "moved_on (sess_id a) (sess_revision a) (mg_db t)" "only_clients (sess_id a) t"
proof -
  from assms(3) obtain ex v u where u: "others_ran 2 s u" "sess_revision a < mg_max_revision"
    "doc_replaced a (committed_doc a ex v) u t" "mg_script t = mg_script u" "x = committed_doc a ex v"
    by (cases rule: update_cases) auto
  have "one_doc (sess_id a) (after_others 2 s)"
    using others_keep [where P = "one_doc (sess_id a)" and n = 0, OF _ one_doc_kept] assms(1,2)
    by (simp add: only_clients_def after_others_def)
  then have "one_doc (sess_id a) (mg_db u)" using u(1) by (simp add: others_ran_def)
  from doc_replaced_one [OF u(3) this] show w: "with_id (sess_id a) (mg_db t) = [x]" using u(5) by auto
  show "moved_on (sess_id a) (sess_revision a) (mg_db t)"
    unfolding moved_on_def
  proof (intro ballI impI)
    fix z assume "z \<in> set (c_sessions (mg_db t))" "sess_id z = sess_id a"
    then have "z \<in> set (with_id (sess_id a) (mg_db t))" by (simp add: with_id_def)
    then show "sess_revision a < sess_revision z" using w u(5) next_revision_less [OF u(2)] by simp
  qed
  show "only_clients (sess_id a) t"
    using assms(1) u(1,4) others_step_drop by (simp add: only_clients_def others_ran_def)
qed

text \<open>
  C9: No update is lost among any number of clients: after an update of a session returned, a
  second update that was made from the same revision is refused, its caller's content is nowhere
  written, and the same holds of an update that began before: once the session has moved on at any
  point before its last write call, the update is refused.
\<close>

theorem mongo_no_lost_update:
  assumes "only_clients i s" "one_doc i (mg_db s)" "sess_id a = i" "sess_id b = i"
  shows "(mg_UpdateSession a s = (Inr x, s1) \<and> mg_UpdateSession b s1 = (r, s2) \<and> sess_revision b = sess_revision a \<longrightarrow>
      with_id i (mg_db s1) = [x] \<and> isl r \<and> (\<exists>m. others_ran m s1 s2)) \<and>
    (n \<le> 2 \<and> moved_on i (sess_revision b) (after_others n s) \<and> mg_UpdateSession b s = (r', t) \<longrightarrow>
      isl r' \<and> (\<exists>m. others_ran m s t))"
proof (intro conjI impI; (elim conjE)?)
  assume u: "mg_UpdateSession a s = (Inr x, s1)" "mg_UpdateSession b s1 = (r, s2)" "sess_revision b = sess_revision a"
  have a: "with_id i (mg_db s1) = [x]" "moved_on i (sess_revision b) (mg_db s1)" "only_clients i s1"
    using update_moves_on [of a s x s1] assms u by simp_all
  then show "with_id i (mg_db s1) = [x]" by simp
  have "moved_on i (sess_revision b) (after_others 0 s1)" using a(2) by (simp add: after_others_def)
  then have "isl r \<and> (\<exists>m. others_ran m s1 s2)"
    using stale_refused [of b s1 0 r s2] a(3) assms(4) u(2) by simp
  then show "isl r" "\<exists>m. others_ran m s1 s2" by simp_all
next
  assume "n \<le> 2" "moved_on i (sess_revision b) (after_others n s)" "mg_UpdateSession b s = (r', t)"
  then have "isl r' \<and> (\<exists>m. others_ran m s t)" using stale_refused [of b s n r' t] assms(1,4) by simp
  then show "isl r'" "\<exists>m. others_ran m s t" by simp_all
qed

section \<open>Alone on the database\<close>

definition quiet_db :: "mongo \<Rightarrow> bool" where
  "quiet_db s \<longleftrightarrow> alone (mg_script s)"

lemma quiet_others: "quiet_db s \<Longrightarrow> after_others n s = mg_db s"
  by (simp add: quiet_db_def after_others_def alone_after)

definition mg_look :: "mongo \<Rightarrow> string \<Rightarrow> error + session option" where
  "mg_look s i = fst (mg_GetSession i (s\<lparr>mg_script := []\<rparr>))"

lemma mg_look_docs:
  "mg_look s i = Inr (case with_id i (mg_db s) of [] \<Rightarrow> None | d # _ \<Rightarrow> Some (read_session (mg_bson s) d))"
  by (simp add: mg_look_def mg_GetSession_def act_seq_def act_wrap_def mg_find_one_def next_call_def mg_decode_def
      split: list.splits)

lemma mg_look_same: "with_id i (mg_db t) = with_id i (mg_db s) \<Longrightarrow> mg_bson t = mg_bson s \<Longrightarrow> mg_look t i = mg_look s i"
  by (simp only: mg_look_docs)

definition mg_usable :: "mongo \<Rightarrow> session \<Rightarrow> bool" where
  "mg_usable s sess \<longleftrightarrow> quiet_db s \<and> one_doc (sess_id sess) (mg_db s) \<and> read_session (mg_bson s) sess = sess"

lemma read_session_keeps [simp]:
  "sess_id (read_session b s) = sess_id s" "sess_revision (read_session b s) = sess_revision s"
  "sess_created_at (read_session b s) = sess_created_at s" "sess_updated_at (read_session b s) = sess_updated_at s"
  by (simp_all add: read_session_def)

lemma read_session_same:
  "read_session b s = s \<longleftrightarrow> bs_map b (sess_state s) = sess_state s \<and>
     map (read_interrupt b) (sess_open_interrupts s) = sess_open_interrupts s"
  by (cases s) (simp add: read_session_def)

lemma read_committed: "read_session b sess = sess \<Longrightarrow> read_session b (committed_doc sess ex v) = committed_doc sess ex v"
  by (simp add: read_session_same committed_doc_def)

lemma quiet_update_cases:
  assumes "mg_UpdateSession sess s = (r, t)" "quiet_db s"
  obtains (wrote) ex v u where "ex \<in> set (with_id (sess_id sess) (mg_db s))" "mg_db u = mg_db s"
      "sess_updated_at ex < v" "sess_revision sess < mg_max_revision" "doc_replaced sess (committed_doc sess ex v) u t"
      "mg_bson t = mg_bson s" "quiet_db t" "isl r \<or> r = Inr (committed_doc sess ex v)"
  | (kept) "mg_db t = mg_db s" "mg_bson t = mg_bson s" "quiet_db t" "isl r"
proof -
  have q: "quiet_db t" if "mg_script t = drop n (mg_script s)" for n
    using assms(2) that alone_drop by (simp add: quiet_db_def)
  note db = quiet_others [OF assms(2)]
  from assms(1) show ?thesis
  proof (cases rule: update_cases)
    case (committed ex v u)
    then show ?thesis using wrote [of ex u v] q [of 2] db by (simp add: others_ran_def)
  next
    case (lost ex v u m)
    then show ?thesis using wrote [of ex u v] q [of 2] db by (simp add: others_ran_def)
  next
    case (refused e n)
    then show ?thesis using kept q [of n] db by (simp add: others_ran_def)
  qed
qed

interpretation mongo: session_store mg_UpdateSession mg_look "\<lambda>s i. quiet_db s \<and> one_doc i (mg_db s)" mg_usable
proof
  fix s sess x t
  assume us: "mg_usable s sess" and u: "mg_UpdateSession sess s = (Inr x, t)"
  have q: "quiet_db s" using us by (simp add: mg_usable_def)
  from u q show "\<exists>cur. mg_look s (sess_id sess) = Inr (Some cur) \<and> session_step sess cur x \<and> mg_look t (sess_id sess) = Inr (Some x)"
  proof (cases rule: quiet_update_cases)
    case (wrote ex v u)
    have x: "x = committed_doc sess ex v" using wrote(8) by simp
    from doc_replaced_one [OF wrote(5)] us wrote(2) obtain y where y: "with_id (sess_id sess) (mg_db s) = [y]"
      "sess_revision y = sess_revision sess" "with_id (sess_id sess) (mg_db t) = [committed_doc sess ex v]"
      by (auto simp: mg_usable_def)
    have "sess_id ex = sess_id sess" using wrote(1) by (simp add: with_id_def)
    then have ex: "ex = y" "sess_id y = sess_id sess" using wrote(1) unfolding y(1) by simp_all
    have "mg_look s (sess_id sess) = Inr (Some (read_session (mg_bson s) y))" using y(1) by (simp add: mg_look_docs)
    moreover have "session_step sess (read_session (mg_bson s) y) x"
      using wrote(3,4) y(2) ex x by (auto simp: session_step_def committed_doc_def mg_max_revision_def)
    moreover have "mg_look t (sess_id sess) = Inr (Some x)"
      using y(3) x us wrote(6) by (simp add: mg_look_docs read_committed mg_usable_def)
    ultimately show ?thesis by blast
  qed simp
next
  fix s sess r t cur
  assume a: "quiet_db s \<and> one_doc (sess_id sess) (mg_db s)" "mg_UpdateSession sess s = (r, t)"
    "mg_look s (sess_id sess) = Inr (Some cur)" "sess_revision sess \<noteq> sess_revision cur"
  from a(2) conjunct1 [OF a(1)] show "isl r \<and> mg_look t (sess_id sess) = Inr (Some cur)"
  proof (cases rule: quiet_update_cases)
    case (wrote ex v u)
    from doc_replaced_one [OF wrote(5)] a(1) wrote(2) obtain y where "with_id (sess_id sess) (mg_db s) = [y]"
      "sess_revision y = sess_revision sess" by auto
    then have False using a(3,4) by (auto simp: mg_look_docs)
    then show ?thesis ..
  next
    case kept
    then show ?thesis using a(3) mg_look_same [of "sess_id sess" t s] by simp
  qed
next
  fix s sess r t sid
  assume us: "mg_usable s sess" and u: "mg_UpdateSession sess s = (r, t)" and "sid \<noteq> sess_id sess"
  have q: "quiet_db s" using us by (simp add: mg_usable_def)
  from u q show "mg_look t sid = mg_look s sid"
  proof (cases rule: quiet_update_cases)
    case (wrote ex v u)
    from doc_replaced_one [OF wrote(5)] us wrote(2) \<open>sid \<noteq> sess_id sess\<close>
    have "with_id sid (mg_db t) = with_id sid (mg_db s)" by (auto simp: mg_usable_def)
    then show ?thesis using wrote(6) by (rule mg_look_same)
  next
    case kept
    then show ?thesis by (intro mg_look_same) simp_all
  qed
next
  fix s sess r t
  assume us: "mg_usable s sess" and u: "mg_UpdateSession sess s = (r, t)"
  have q: "quiet_db s" using us by (simp add: mg_usable_def)
  from u q show "quiet_db t \<and> one_doc (sess_id sess) (mg_db t)"
  proof (cases rule: quiet_update_cases)
    case (wrote ex v u)
    from doc_replaced_one [OF wrote(5)] us wrote(2)
    have "with_id (sess_id sess) (mg_db t) = [committed_doc sess ex v]" by (auto simp: mg_usable_def)
    then show ?thesis using wrote(7) by (simp add: one_doc_def)
  qed (use us in \<open>simp add: mg_usable_def\<close>)
qed

section \<open>Scoped memory\<close>

fun mg_put :: "memory_scope \<times> string \<times> string \<Rightarrow> string \<Rightarrow> mongo \<Rightarrow> (error + unit) \<times> mongo" where
  "mg_put (sc, i, key) v s = mg_SetMemory sc i key v s"

fun mg_del :: "memory_scope \<times> string \<times> string \<Rightarrow> mongo \<Rightarrow> (error + unit) \<times> mongo" where
  "mg_del (sc, i, key) s = mg_DeleteMemory sc i key s"

fun mg_recall :: "mongo \<Rightarrow> memory_scope \<times> string \<times> string \<Rightarrow> error + string option" where
  "mg_recall s (sc, i, key) = fst (mg_GetMemory sc i key (s\<lparr>mg_script := []\<rparr>))"

definition memory_alone :: "mongo \<Rightarrow> bool" where
  "memory_alone s \<longleftrightarrow> quiet_db s \<and> distinct (map fst (c_memory (mg_db s)))"

lemma first_is_map_of: "(case filter (\<lambda>x. fst x = k) xs of [] \<Rightarrow> None | d # _ \<Rightarrow> Some d) = map_option (Pair k) (map_of xs k)"
  by (induction xs) auto

lemma mg_recall_map: "mg_recall s (sc, i, key) = Inr (map_of (c_memory (mg_db s)) (ScopedKey sc i key))"
  by (simp add: mg_GetMemory_def Let_def act_seq_def act_wrap_def mg_find_one_def next_call_def first_is_map_of act_ret_def
      option.map_comp comp_def option.map_ident)

lemma replace_first_map: "map_of xs k \<noteq> None \<Longrightarrow>
    map_of (snd (replace_first (\<lambda>x. fst x = k) (k, v) xs)) = (map_of xs)(k \<mapsto> v)"
  by (induction xs) (auto simp: fun_eq_iff split: prod.splits)

lemma replace_first_keys: "map fst (snd (replace_first (\<lambda>x. fst x = k) (k, v) xs)) = map fst xs"
  by (induction xs) (auto split: prod.splits)

lemma upsert_map: "map_of (upsert_first (\<lambda>x. fst x = k) (k, v) xs) = (map_of xs)(k \<mapsto> v)"
proof (cases "k \<in> fst ` set xs")
  case True
  then have "fst (replace_first (\<lambda>x. fst x = k) (k, v) xs) \<noteq> 0" by (auto simp: replace_first_none)
  then show ?thesis using True replace_first_map [of xs k v] map_of_eq_None_iff [of xs k]
    by (cases "replace_first (\<lambda>x. fst x = k) (k, v) xs") (auto simp: upsert_first_def)
next
  case False
  then have "replace_first (\<lambda>x. fst x = k) (k, v) xs = (0, xs)" by (intro replace_first_miss) auto
  moreover have "map_of xs k = None" using False by (simp add: map_of_eq_None_iff)
  ultimately show ?thesis by (auto simp: upsert_first_def map_add_def split: option.split)
qed

lemma upsert_distinct: "distinct (map fst xs) \<Longrightarrow> distinct (map fst (upsert_first (\<lambda>x. fst x = k) (k, v) xs))"
proof (cases "k \<in> fst ` set xs")
  case True
  then have "fst (replace_first (\<lambda>x. fst x = k) (k, v) xs) \<noteq> 0" by (auto simp: replace_first_none)
  then show "distinct (map fst xs) \<Longrightarrow> ?thesis" using replace_first_keys [of k v xs]
    by (cases "replace_first (\<lambda>x. fst x = k) (k, v) xs") (auto simp: upsert_first_def)
next
  case False
  then have "replace_first (\<lambda>x. fst x = k) (k, v) xs = (0, xs)" by (intro replace_first_miss) auto
  then show "distinct (map fst xs) \<Longrightarrow> ?thesis" using False by (auto simp: upsert_first_def)
qed

lemma delete_distinct: "distinct (map fst xs) \<Longrightarrow> distinct (map fst (delete_first P xs))"
  by (induction xs) (auto dest: delete_first_mem)

lemma delete_map: "distinct (map fst xs) \<Longrightarrow> map_of (delete_first (\<lambda>x. fst x = k) xs) = (map_of xs)(k := None)"
proof (induction xs)
  case (Cons x xs)
  then show ?case by (cases x) (auto simp: fun_eq_iff map_of_eq_None_iff)
qed (simp add: fun_eq_iff)

lemma quiet_write:
  assumes "mg_write f s = (Inr y, t)" "quiet_db s"
  shows "mg_db t = snd (f (mg_db s)) \<and> quiet_db t"
  using assms(1)
proof (cases rule: write_cases)
  case (done_ u)
  then show ?thesis using assms(2) quiet_others [OF assms(2), of 1] alone_drop [of "mg_script s" 1]
    by (simp add: others_ran_def quiet_db_def)
qed simp_all

lemma mg_memory_put_done:
  "mg_SetMemory sc i key v s = (Inr (), t) \<Longrightarrow> memory_alone s \<Longrightarrow>
     map_of (c_memory (mg_db t)) = (map_of (c_memory (mg_db s)))(ScopedKey sc i key \<mapsto> v) \<and> memory_alone t"
  by (auto simp: mg_SetMemory_def Let_def memory_alone_def upsert_map upsert_distinct dest!: quiet_write)

lemma mg_memory_del_done:
  "mg_DeleteMemory sc i key s = (Inr (), t) \<Longrightarrow> memory_alone s \<Longrightarrow>
     map_of (c_memory (mg_db t)) = (map_of (c_memory (mg_db s)))(ScopedKey sc i key := None) \<and> memory_alone t"
  by (auto simp: mg_DeleteMemory_def Let_def memory_alone_def delete_map delete_distinct dest!: quiet_write)

interpretation mongo_memory: kv_store mg_put mg_del mg_recall memory_alone
  "\<lambda>(sc, i, key) (sc', i', key'). ScopedKey sc' i' key' \<noteq> ScopedKey sc i key"
  by unfold_locales
    (auto simp: mg_recall_map split: prod.splits simp del: mg_recall.simps dest!: mg_memory_put_done mg_memory_del_done)

section \<open>Listing memory\<close>

text \<open>The text whose bytes are the lowest bytes of the runes, which is what escapeRegex keeps of a text.\<close>

definition low_bytes :: "string \<Rightarrow> string" where
  "low_bytes k = map (\<lambda>r. char_of (fst r mod 256)) (runes k)"

definition ascii :: "string \<Rightarrow> bool" where
  "ascii k \<longleftrightarrow> (\<forall>c \<in> set k. (of_char c :: nat) < 128)"

text \<open>
  The pattern that stands for a text in the syntax of the engine, and what the engine documents of
  it: anchored, it matches what begins with the text.
\<close>

definition regex_literal :: "string \<Rightarrow> string" where
  "regex_literal p = concat (map (\<lambda>c. if c \<in> set ''.^$*+?()[]{}|'' \<or> c = CHR 0x5C then [CHR 0x5C, c] else [c]) p)"

definition literal_regex :: "(string \<Rightarrow> string \<Rightarrow> bool) \<Rightarrow> bool" where
  "literal_regex rx \<longleftrightarrow> (\<forall>p k. ascii p \<longrightarrow> (rx (CHR ''^'' # regex_literal p) k \<longleftrightarrow> prefix p k))"

lemma runes_of_ascii: "ascii p \<Longrightarrow> runes p = map (\<lambda>c. (of_char c, [c])) p"
  by (induction p) (simp_all add: ascii_def)

lemma char_low: "char_of ((of_char c :: nat) mod 256) = c"
  by (metis char_of_mod_256 char_of_of_char)

lemma escape_runes_chars: "escape_runes (map of_char p) = regex_literal p"
proof (induction p)
  case (Cons c p)
  have "(of_char c :: nat) \<in> set (map of_char xs) \<longleftrightarrow> c \<in> set xs" for xs
    using of_char_eq_iff [of c, where 'a = nat] by (induction xs) simp_all
  moreover have "(of_char c :: nat) = 92 \<longleftrightarrow> c = CHR 0x5C"
    using of_char_eq_iff [of c "CHR 0x5C", where 'a = nat] by simp
  ultimately have "(of_char c :: nat) \<in> set regex_special \<longleftrightarrow> c \<in> set ''.^$*+?()[]{}|'' \<or> c = CHR 0x5C"
    unfolding regex_special_def by (simp only: set_append Un_iff list.set empty_iff insert_iff simp_thms)
  then show ?case using Cons char_low by (simp add: regex_literal_def)
qed (simp add: regex_literal_def)

lemma escape_ascii: "ascii p \<Longrightarrow> escapeRegex p = regex_literal p"
  by (simp add: escapeRegex_def runes_of_ascii comp_def escape_runes_chars)

lemma low_bytes_ascii: "ascii k \<Longrightarrow> low_bytes k = k"
proof -
  assume a: "ascii k"
  show ?thesis by (simp add: low_bytes_def runes_of_ascii [OF a] comp_def char_low)
qed

lemma special_small: "c \<in> set regex_special \<Longrightarrow> c < 128"
  by (auto simp: regex_special_def)

definition plain_rune :: "nat \<Rightarrow> bool" where
  "plain_rune r \<longleftrightarrow> r mod 256 < 128 \<and> (128 \<le> r \<longrightarrow> r mod 256 \<notin> set regex_special)"

lemma escape_low:
  "list_all plain_rune rs \<Longrightarrow> escape_runes (map (\<lambda>r. r mod 256) rs) = escape_runes rs"
proof (induction rs)
  case (Cons r rs)
  have "r mod 256 \<in> set regex_special \<longleftrightarrow> r \<in> set regex_special"
    using Cons.prems special_small [of r] by (cases "r < 128") (auto simp: plain_rune_def)
  then show ?case using Cons by simp
qed simp

lemma escapeRegex_low:
  assumes "list_all plain_rune (map fst (runes k))"
  shows "ascii (low_bytes k)" "escapeRegex k = regex_literal (low_bytes k)"
proof -
  show "ascii (low_bytes k)"
    using assms by (auto simp: ascii_def low_bytes_def list_all_iff plain_rune_def)
  have "map of_char (low_bytes k) = map (\<lambda>r. r mod 256) (map fst (runes k))"
    by (simp add: low_bytes_def comp_def)
  then show "escapeRegex k = regex_literal (low_bytes k)"
    using escape_low [OF assms] escape_runes_chars [of "low_bytes k"] by (simp add: escapeRegex_def)
qed

text \<open>
  C39: without faults ListMemory lists exactly the keys that begin with the asked prefix when that is
  ASCII. A prefix with other runes is first cut to their low bytes: when each of those is an ASCII
  character that means itself in a pattern, the keys listed are those that begin with that other text,
  so the user named by U+0441 is shown the keys of the user ''A'' and none of his own. Nothing is said
  here of runes with another low byte: U+012E is cut to an unescaped dot.
\<close>

theorem mongo_list_memory:
  assumes "literal_regex (mg_regex s)" "mg_script s = []" "list_all plain_rune (map fst (runes (ScopedKey sc i pre)))"
  shows "mg_ListMemory sc i pre s =
      (Inr (filter (prefix (low_bytes (ScopedKey sc i pre))) (map fst (c_memory (mg_db s)))), s) \<and>
    (ascii (ScopedKey sc i pre) \<longrightarrow> low_bytes (ScopedKey sc i pre) = ScopedKey sc i pre)"
proof (intro conjI impI)
  let ?k = "ScopedKey sc i pre"
  have "mg_regex s (CHR ''^'' # regex_literal (low_bytes ?k)) x \<longleftrightarrow> prefix (low_bytes ?k) x" for x
    using assms(1) escapeRegex_low(1) [OF assms(3)] by (simp add: literal_regex_def)
  then have "mg_regex s (CHR ''^'' # escapeRegex ?k) = prefix (low_bytes ?k)"
    unfolding escapeRegex_low(2) [OF assms(3)] by (rule ext)
  then show "mg_ListMemory sc i pre s = (Inr (filter (prefix (low_bytes ?k)) (map fst (c_memory (mg_db s)))), s)"
    using assms(2)
    by (simp add: mg_ListMemory_def Let_def act_seq_def act_wrap_def mg_find_def next_call_def act_lift_def cursor_all_def)
qed (rule low_bytes_ascii)

section \<open>Concrete runs\<close>

fun unescape :: "string \<Rightarrow> string" where
  "unescape [] = []"
| "unescape [c] = [c]"
| "unescape (c # d # cs) = (if c = CHR 0x5C then d # unescape cs else c # unescape (d # cs))"

fun w_regex :: "string \<Rightarrow> string \<Rightarrow> bool" where
  "w_regex (c # q) k = prefix (unescape q) k"
| "w_regex [] k = True"

lemma unescape_plain: "c \<noteq> CHR 0x5C \<Longrightarrow> unescape (c # cs) = c # unescape cs"
  by (cases cs) simp_all

lemma w_regex_literal: "literal_regex w_regex"
proof -
  have "unescape (regex_literal p) = p" for p
    by (induction p) (auto simp: regex_literal_def unescape_plain)
  then show ?thesis by (simp add: literal_regex_def)
qed

definition w_doc :: session where
  "w_doc = \<lparr>sess_id = ''s1'', sess_agent_id = ''a'', sess_user_id = ''u'', sess_parent_session_id = [],
     sess_messages = [], sess_state = [], sess_open_interrupts = [], sess_revision = 1, sess_created_at = 5, sess_updated_at = 5\<rparr>"

definition w_mongo :: "((collections \<Rightarrow> collections) \<times> mongo_end) list \<Rightarrow> mongo" where
  "w_mongo script = \<lparr>mg_db = \<lparr>c_sessions = [w_doc], c_tools = [], c_skills = [],
       c_memory = [(''user:A::pin'', ''1234'')], c_mcp_servers = []\<rparr>,
     mg_script = script, mg_bson = \<lparr>bs_any = (\<lambda>v. v), bs_map = (\<lambda>m. m)\<rparr>, mg_regex = w_regex,
     mg_clock = (\<lambda>_. 9000000000), mg_ticks = 0\<rparr>"

definition w_rival :: "collections \<Rightarrow> collections" where
  "w_rival db = snd (replace_session (sess_id w_doc) (sess_revision w_doc) (committed_doc w_doc w_doc 7) db)"

lemma w_clients: "only_clients ''s1'' (w_mongo [(\<lambda>db. db, MOk), (w_rival, e)])"
proof -
  have "store_write i db (w_rival db)" for i db
    unfolding w_rival_def by (rule store_write.replace) (simp add: w_doc_def mg_max_revision_def)
  then show ?thesis by (auto simp: only_clients_def others_step_def w_mongo_def)
qed

lemma one_fits: "\<not> mg_max_revision \<le> 1"
  by (simp add: not_le mg_max_revision_def)

lemma w_update:
  "mg_UpdateSession w_doc (w_mongo []) = (Inr (committed_doc w_doc w_doc 9), (w_mongo [])\<lparr>mg_ticks := 1,
     mg_db := (mg_db (w_mongo []))\<lparr>c_sessions := [committed_doc w_doc w_doc 9]\<rparr>\<rparr>)"
  by (simp add: mg_UpdateSession_def mg_validateSessionUpdate_def loadSessionForUpdate_def prepareCommittedSession_def
      nextMongoUpdatedAt_def mg_applyCommittedSession_def replace_session_def sessionRevisionFilter_def one_fits
      mg_write_def mg_find_one_def next_call_def mg_unix_def mg_nano_def with_id_def
      act_seq_def act_wrap_def act_lift_def act_ret_def w_mongo_def w_doc_def committed_doc_def)

theorem mongo_update_atomic_witness:
  "\<exists>c t u. mg_UpdateSession w_doc (w_mongo []) = (Inr c, t) \<and> unat (sess_revision c) = Suc (unat (sess_revision w_doc)) \<and>
     others_ran 2 (w_mongo []) u \<and> doc_replaced w_doc c u t"
  using mongo_update_atomic [OF w_update] w_update by auto

theorem mongo_no_lost_update_witness:
  "isl (fst (mg_UpdateSession w_doc (w_mongo [(\<lambda>db. db, MOk), (w_rival, MOk)]))) \<and>
   isl (fst (mg_UpdateSession w_doc (snd (mg_UpdateSession w_doc (w_mongo [])))))"
proof -
  have one: "one_doc ''s1'' (mg_db (w_mongo sc))" for sc by (simp add: one_doc_def with_id_def w_mongo_def w_doc_def)
  have i: "sess_id w_doc = ''s1''" by (simp add: w_doc_def)
  have "moved_on ''s1'' (sess_revision w_doc) (after_others 2 (w_mongo [(\<lambda>db. db, MOk), (w_rival, MOk)]))"
    by (simp add: moved_on_def after_others_def after_calls_def w_mongo_def w_rival_def replace_session_def sessionRevisionFilter_def
        w_doc_def committed_doc_def)
  then have "isl (fst (mg_UpdateSession w_doc (w_mongo [(\<lambda>db. db, MOk), (w_rival, MOk)])))"
    using mongo_no_lost_update [OF w_clients one i i, of MOk _ _ _ _ 2] by (metis order_refl prod.collapse)
  moreover have "isl (fst (mg_UpdateSession w_doc (snd (mg_UpdateSession w_doc (w_mongo [])))))"
  proof -
    have c: "only_clients ''s1'' (w_mongo [])" by (simp add: only_clients_def others_step_def w_mongo_def)
    obtain r s2 where "mg_UpdateSession w_doc (snd (mg_UpdateSession w_doc (w_mongo []))) = (r, s2)" by force
    then show ?thesis
      using mongo_no_lost_update [OF c one i i, of "committed_doc w_doc w_doc 9" _ r s2] w_update by simp
  qed
  ultimately show ?thesis ..
qed

theorem mongo_list_memory_witness:
  "fst (mg_ListMemory ScopeUser [CHR 0xD1, CHR 0x81] [] (w_mongo [])) = Inr [''user:A::pin''] \<and>
   \<not> prefix (ScopedKey ScopeUser [CHR 0xD1, CHR 0x81] []) ''user:A::pin''"
proof -
  let ?k = "ScopedKey ScopeUser [CHR 0xD1, CHR 0x81] []"
  have "runes (CHR 0xD1 # CHR 0x81 # cs) = (0x441, [CHR 0xD1, CHR 0x81]) # runes cs" for cs
    by (subst runes.simps) (simp add: decode_rune_def byte_at_def is_cont_def Let_def)
  then have r: "map fst (runes ?k) = map of_char ''user:'' @ [0x441] @ map of_char ''::''"
    by (simp add: ScopedKey_def)
  have p: "list_all plain_rune (map fst (runes ?k))"
    unfolding r by (simp add: plain_rune_def regex_special_def)
  have "low_bytes ?k = map (char_of \<circ> (\<lambda>r. r mod 256)) (map fst (runes ?k))" by (simp add: low_bytes_def comp_def)
  then have l: "low_bytes ?k = ''user:A::''" unfolding r by simp code_simp
  have "literal_regex (mg_regex (w_mongo []))" "mg_script (w_mongo []) = []"
    by (simp_all add: w_mongo_def w_regex_literal)
  from mongo_list_memory [OF this p] show ?thesis
    unfolding l by (simp add: w_mongo_def ScopedKey_def)
qed

end
