(* ===== verification/Firestore.thy ===== *)
theory Firestore
  imports Skills Metadata "HOL-Library.AList"
begin

text \<open>
  storage/metadata/firestore/store.go: the metadata store on Firestore. A document is the list of its
  fields under a path. Every call of the client takes the next step of a script: what other clients
  did before the call was served, and how it ended. A struct is stored under its firestore tags, which
  are its JSON names; values of type \<open>any\<close> are kept as trees. Pointers given to the store are not nil.
\<close>

section \<open>The client\<close>

type_synonym doc_path = "string list"
type_synonym fields = "(string \<times> json) list"
type_synonym documents = "(doc_path \<times> fields) list"

text \<open>
  \<open>FrLost m\<close>: carried out, the answer was lost. \<open>FrCut n m\<close>: a query stops after \<open>n\<close> documents; any
  other call fails on it. \<open>FrAborted\<close>: the service gives up a commit for contention.
\<close>

datatype fr_end = FrOk | FrFail string | FrLost string | FrCut nat string | FrAborted

text \<open>
  \<open>fr_newid\<close> makes document ids; \<open>fr_merge old new\<close> are the fields of a document after Set with MergeAll;
  \<open>fr_refuses\<close> tells the references that are not taken, those with ids Firestore does not allow, and how.
\<close>

record firestore =
  fr_db :: documents
  fr_script :: "((documents \<Rightarrow> documents) \<times> fr_end) list"
  fr_clock :: "nat \<Rightarrow> int"
  fr_ticks :: nat
  fr_newid :: "nat \<Rightarrow> string"
  fr_merge :: "fields \<Rightarrow> fields \<Rightarrow> fields"
  fr_refuses :: "doc_path \<Rightarrow> error option"

definition fr_next :: "firestore \<Rightarrow> fr_end \<times> firestore" where
  "fr_next s =
     (case fr_script s of
        [] \<Rightarrow> (FrOk, s)
      | (others, e) # rest \<Rightarrow> (e, s\<lparr>fr_db := others (fr_db s), fr_script := rest\<rparr>))"

definition fr_error :: "fr_end \<Rightarrow> error option" where
  "fr_error e =
     (case e of FrOk \<Rightarrow> None | FrFail m \<Rightarrow> Some (ErrMsg m) | FrLost m \<Rightarrow> Some (ErrMsg m)
      | FrCut n m \<Rightarrow> Some (ErrMsg m) | FrAborted \<Rightarrow> Some (ErrMsg ''aborted''))"

text \<open>A call that reads: \<open>f\<close> says what it finds.\<close>

definition fr_look :: "(documents \<Rightarrow> 'a) \<Rightarrow> (firestore, 'a) act" where
  "fr_look f s =
     (case fr_next s of (e, s1) \<Rightarrow>
       ((case fr_error e of None \<Rightarrow> Inr (f (fr_db s1)) | Some x \<Rightarrow> Inl x), s1))"

text \<open>A call that changes documents, or finds a reason not to.\<close>

definition fr_change :: "(documents \<Rightarrow> error + documents) \<Rightarrow> (firestore, unit) act" where
  "fr_change f s =
     (case fr_next s of (e, s1) \<Rightarrow>
       (case f (fr_db s1) of
          Inl x \<Rightarrow> (Inl (case fr_error e of None \<Rightarrow> x | Some y \<Rightarrow> y), s1)
        | Inr db \<Rightarrow>
            (case e of
               FrOk \<Rightarrow> (Inr (), s1\<lparr>fr_db := db\<rparr>)
             | FrLost m \<Rightarrow> (Inl (ErrMsg m), s1\<lparr>fr_db := db\<rparr>)
             | _ \<Rightarrow> (Inl (the (fr_error e)), s1))))"

text \<open>A reference the client or the service does not take: an error, or a nil collection, of every call on it.\<close>

definition fr_ref :: "doc_path \<Rightarrow> (firestore, unit) act" where
  "fr_ref p s = ((case fr_refuses s p of None \<Rightarrow> Inr () | Some e \<Rightarrow> Inl e), s)"

text \<open>DocumentRef.Get; \<open>None\<close> is the error for which isNotFound holds.\<close>

definition fr_Get :: "doc_path \<Rightarrow> (firestore, fields option) act" where
  "fr_Get p = act_seq (fr_ref p) (\<lambda>_. fr_look (\<lambda>db. map_of db p))"

definition fr_Set :: "doc_path \<Rightarrow> fields \<Rightarrow> (firestore, unit) act" where
  "fr_Set p fs = act_seq (fr_ref p) (\<lambda>_. fr_change (\<lambda>db. Inr (AList.update p fs db)))"

definition fr_Delete :: "doc_path \<Rightarrow> (firestore, unit) act" where
  "fr_Delete p = act_seq (fr_ref p) (\<lambda>_. fr_change (\<lambda>db. Inr (AList.delete p db)))"

definition fr_Update :: "doc_path \<Rightarrow> (fields \<Rightarrow> fields) \<Rightarrow> (firestore, unit) act" where
  "fr_Update p f =
     act_seq (fr_ref p) (\<lambda>_.
     fr_change (\<lambda>db. case map_of db p of None \<Rightarrow> Inl (ErrMsg ''no entity to update'') | Some fs \<Rightarrow> Inr (AList.update p (f fs) db)))"

text \<open>The documents of a collection with their ids, in the order of the ids.\<close>

definition docs_in :: "doc_path \<Rightarrow> documents \<Rightarrow> (string \<times> fields) list" where
  "docs_in col db = sort_key fst (map (\<lambda>(p, fs). (last p, fs)) (filter (\<lambda>(p, fs). p \<noteq> [] \<and> butlast p = col) db))"

text \<open>The documents an iterator gives and the error it ends with.\<close>

definition fr_query :: "doc_path \<Rightarrow> ((string \<times> fields) list \<Rightarrow> (string \<times> fields) list) \<Rightarrow>
    (firestore, (string \<times> fields) list \<times> error option) act" where
  "fr_query col q =
     act_seq (fr_ref col) (\<lambda>_ s.
     case fr_next s of (e, s1) \<Rightarrow>
       (let ds = q (docs_in col (fr_db s1)) in
        (Inr (case e of FrOk \<Rightarrow> (ds, None) | FrCut n m \<Rightarrow> (take n ds, Some (ErrMsg m)) | _ \<Rightarrow> ([], fr_error e)), s1)))"

text \<open>The loop over an iterator: the first document that does not decode, or the error at the end, stops it.\<close>

fun drain :: "(string \<times> fields \<Rightarrow> error + 'a) \<Rightarrow> string \<Rightarrow> (string \<times> fields) list \<times> error option \<Rightarrow> error + 'a list" where
  "drain f what ([], None) = Inr []"
| "drain f what ([], Some e) = Inl (wrapf what e)"
| "drain f what (d # ds, e) =
     (case f d of Inl x \<Rightarrow> Inl x | Inr y \<Rightarrow> (case drain f what (ds, e) of Inl x \<Rightarrow> Inl x | Inr ys \<Rightarrow> Inr (y # ys)))"

definition where_eq :: "string \<Rightarrow> string \<Rightarrow> (string \<times> fields) list \<Rightarrow> (string \<times> fields) list" where
  "where_eq field v = filter (\<lambda>(i, fs). jmember field fs = Some (JStr v))"

section \<open>Transactions\<close>

text \<open>
  RunTransaction: begin, the body, commit. The body gives its result, the documents it read and the
  writes to make. A commit is refused when a document that was read has changed; the body is then run
  again, at most five times in all.
\<close>

type_synonym doc_write = "doc_path \<times> (fields option \<Rightarrow> fields option)"

definition apply_write :: "doc_write \<Rightarrow> documents \<Rightarrow> documents" where
  "apply_write w db =
     (case snd w (map_of db (fst w)) of None \<Rightarrow> AList.delete (fst w) db | Some fs \<Rightarrow> AList.update (fst w) fs db)"

definition fr_commit :: "(doc_path \<times> fields option) list \<Rightarrow> doc_write list \<Rightarrow> (firestore, bool) act" where
  "fr_commit reads ws s =
     (case fr_next s of (e, s1) \<Rightarrow>
       (let fresh = list_all (\<lambda>(p, v). map_of (fr_db s1) p = v) reads; db = fold apply_write ws (fr_db s1) in
        case e of
          FrOk \<Rightarrow> if fresh then (Inr True, s1\<lparr>fr_db := db\<rparr>) else (Inr False, s1)
        | FrLost m \<Rightarrow> (Inl (ErrMsg m), if fresh then s1\<lparr>fr_db := db\<rparr> else s1)
        | FrAborted \<Rightarrow> (Inr False, s1)
        | _ \<Rightarrow> (Inl (the (fr_error e)), s1)))"

type_synonym 'a tx_body = "(firestore, 'a \<times> (doc_path \<times> fields option) list \<times> doc_write list) act"

primrec fr_attempts :: "nat \<Rightarrow> 'a tx_body \<Rightarrow> (firestore, 'a) act" where
  "fr_attempts 0 body = act_fail (ErrMsg ''aborted'')"
| "fr_attempts (Suc n) body =
     act_seq (fr_look (\<lambda>_. ())) (\<lambda>_.
     act_handle body
       (\<lambda>e. act_handle (fr_look (\<lambda>_. ())) (\<lambda>_. act_fail e) (\<lambda>_. act_fail e))
       (\<lambda>(x, reads, ws). act_seq (fr_commit reads ws) (\<lambda>committed.
          if committed then act_ret x else fr_attempts n body)))"

definition RunTransaction :: "'a tx_body \<Rightarrow> (firestore, 'a) act" where
  "RunTransaction body = fr_attempts 5 body"

definition fr_unix :: "(firestore, int) act" where
  "fr_unix s = (Inr (fr_clock s (fr_ticks s) div 1000000000), s\<lparr>fr_ticks := Suc (fr_ticks s)\<rparr>)"

definition fr_autoid :: "(firestore, string) act" where
  "fr_autoid s = (Inr (fr_newid s (fr_ticks s)), s\<lparr>fr_ticks := Suc (fr_ticks s)\<rparr>)"

definition fr_NewStore :: "(firestore, unit) act" where
  "fr_NewStore = act_wrap ''firestore: create client'' (fr_look (\<lambda>_. ()))"

definition fr_Close :: "(firestore, unit) act" where
  "fr_Close = fr_look (\<lambda>_. ())"

section \<open>Sessions as documents\<close>

definition interrupt_fields :: "interrupt \<Rightarrow> json" where
  "interrupt_fields i = JObj
     [(''id'', JStr (intr_id i)), (''reason'', JStr (intr_reason i)), (''message'', JStr (intr_message i)),
      (''toolCallId'', JStr (intr_tool_call_id i)), (''responseSchema'', JObj (intr_response_schema i)),
      (''expiresAtMs'', enc_int (intr_expires_at_ms i)), (''metadata'', JObj (intr_metadata i))]"

definition toSessionMap :: "session \<Rightarrow> fields" where
  "toSessionMap sess =
     [(''id'', JStr (sess_id sess)), (''agentId'', JStr (sess_agent_id sess)), (''userId'', JStr (sess_user_id sess)),
      (''parentSessionId'', JStr (sess_parent_session_id sess)), (''state'', JObj (sess_state sess)),
      (''openInterrupts'', JArr (map interrupt_fields (sess_open_interrupts sess))),
      (''revision'', enc_int (sint (sess_revision sess))), (''createdAt'', enc_int (sess_created_at sess)),
      (''updatedAt'', enc_int (sess_updated_at sess))]"

definition toMessageMap :: "message \<Rightarrow> fields" where
  "toMessageMap m =
     [(''id'', JStr (msg_id m)), (''role'', JStr (msg_role m)), (''content'', JStr (msg_content m)),
      (''toolCalls'', JArr (map enc_tool_call (msg_tool_calls m))), (''createdAt'', enc_int (msg_created_at m))]"

definition stringFromMap :: "fields \<Rightarrow> string \<Rightarrow> string \<Rightarrow> string" where
  "stringFromMap data key legacyKey =
     (case jmember key data of Some (JStr v) \<Rightarrow> v
      | _ \<Rightarrow> (case jmember legacyKey data of Some (JStr v) \<Rightarrow> v | _ \<Rightarrow> []))"

text \<open>A number of Firestore is an int64 or a double.\<close>

definition stored_int :: "string \<Rightarrow> int option" where
  "stored_int d = (case num_int d of Some i \<Rightarrow> if int64_ok i then Some i else None | None \<Rightarrow> None)"

definition revisionFromMap :: "fields \<Rightarrow> error + 64 word" where
  "revisionFromMap data =
     (case jmember ''revision'' data of
        None \<Rightarrow> Inr 0
      | Some JNull \<Rightarrow> Inr 0
      | Some (JNum d) \<Rightarrow>
          (case stored_int d of
             None \<Rightarrow> Inl (ErrMsg ''firestore: invalid session revision type float64'')
           | Some i \<Rightarrow> if i < 0 then Inl (ErrMsg (''firestore: invalid negative session revision '' @ int_text i))
                     else Inr (word_of_int i))
      | Some _ \<Rightarrow> Inl (ErrMsg ''firestore: invalid session revision type''))"

definition int64FromMap :: "fields \<Rightarrow> string \<Rightarrow> error + int" where
  "int64FromMap data key =
     (case jmember key data of
        None \<Rightarrow> Inr 0
      | Some JNull \<Rightarrow> Inr 0
      | Some (JNum d) \<Rightarrow>
          (case stored_int d of None \<Rightarrow> Inl (ErrMsg (''firestore: invalid '' @ key @ '' type float64'')) | Some i \<Rightarrow> Inr i)
      | Some _ \<Rightarrow> Inl (ErrMsg (''firestore: invalid '' @ key @ '' type'')))"

text \<open>DataTo a struct whose fields DataTo can set; \<open>dec\<close> is what it makes of the fields.\<close>

definition data_to :: "(json \<Rightarrow> 'a option) \<Rightarrow> string \<Rightarrow> fields \<Rightarrow> error + 'a" where
  "data_to dec what fs =
     (case dec (JObj fs) of None \<Rightarrow> Inl (wrapf what (ErrMsg ''cannot set type'')) | Some x \<Rightarrow> Inr x)"

definition messages_of :: "string \<Rightarrow> doc_path" where
  "messages_of sid = [''sessions'', sid, ''messages'']"

text \<open>OrderBy leaves out documents without the field and orders equal ones by their ids.\<close>

definition by_created :: "(string \<times> fields) list \<Rightarrow> (string \<times> fields) list" where
  "by_created ds =
     sort_key (\<lambda>(i, fs). case jmember ''createdAt'' fs of Some (JNum d) \<Rightarrow> (case num_int d of Some i \<Rightarrow> i | None \<Rightarrow> 0) | _ \<Rightarrow> 0)
       (filter (\<lambda>(i, fs). jmember ''createdAt'' fs \<noteq> None) ds)"

definition fr_loadMessages :: "string \<Rightarrow> (firestore, message list) act" where
  "fr_loadMessages sid =
     act_seq (fr_query (messages_of sid) by_created) (\<lambda>r.
     act_lift (drain (\<lambda>(i, fs). case data_to dec_message (''firestore: decode message '' @ i) fs of
         Inl e \<Rightarrow> Inl e | Inr m \<Rightarrow> Inr (m\<lparr>msg_id := i\<rparr>))
       (''firestore: load messages for session '' @ sid) r))"

section \<open>Sessions\<close>

definition fr_CreateSession :: "string \<Rightarrow> string \<Rightarrow> (firestore, session) act" where
  "fr_CreateSession agentID userID =
     act_seq fr_unix (\<lambda>now.
     act_seq fr_autoid (\<lambda>i.
     let sess = \<lparr>sess_id = [], sess_agent_id = agentID, sess_user_id = userID, sess_parent_session_id = [],
           sess_messages = [], sess_state = [], sess_open_interrupts = [], sess_revision = 1,
           sess_created_at = now, sess_updated_at = now\<rparr>;
         p = [''sessions'', i] in
     act_seq (act_wrap ''firestore: create session''
       (fr_change (\<lambda>db. if map_of db p = None then Inr (AList.update p (toSessionMap sess) db) else Inl (ErrMsg ''already exists'')))) (\<lambda>_.
     act_seq (act_wrap ''firestore: set session id'' (fr_Update p (AList.update ''id'' (JStr i)))) (\<lambda>_.
     act_ret (sess\<lparr>sess_id := i\<rparr>)))))"

text \<open>The fields older versions wrote under other names.\<close>

definition legacy_names :: "fields \<Rightarrow> session \<Rightarrow> session" where
  "legacy_names data sess =
     sess\<lparr>sess_agent_id := (if sess_agent_id sess = [] then stringFromMap data ''agentId'' ''agentID'' else sess_agent_id sess),
       sess_user_id := (if sess_user_id sess = [] then stringFromMap data ''userId'' ''userID'' else sess_user_id sess),
       sess_parent_session_id := (if sess_parent_session_id sess = [] then stringFromMap data ''parentSessionId'' ''parentSessionID''
         else sess_parent_session_id sess)\<rparr>"

text \<open>
  DataTo a session: by its documentation DataTo sets integer fields of every type but uint, uint64 and
  uintptr, and Revision is a uint64, so only a document without a revision, or with null, decodes.
\<close>

definition dec_session_doc :: "json \<Rightarrow> session option" where
  "dec_session_doc v =
     (case v of
        JObj fs \<Rightarrow> if jmember ''revision'' fs \<in> {None, Some JNull} then dec_session v else None
      | _ \<Rightarrow> dec_session v)"

definition fr_GetSession :: "string \<Rightarrow> (firestore, session option) act" where
  "fr_GetSession i =
     act_seq (act_wrap (''firestore: get session '' @ i) (fr_Get [''sessions'', i])) (\<lambda>d.
     case d of
       None \<Rightarrow> act_ret None
     | Some data \<Rightarrow>
         act_seq (act_lift (data_to dec_session_doc (''firestore: decode session '' @ i) data)) (\<lambda>sess.
         act_seq (fr_loadMessages i) (\<lambda>msgs.
         act_ret (Some ((legacy_names data sess)\<lparr>sess_id := i, sess_messages := msgs\<rparr>)))))"

definition fr_max_revision :: "64 word" where
  "fr_max_revision = 2 ^ 63 - 1"

definition fr_validateSessionUpdate :: "session \<Rightarrow> error + unit" where
  "fr_validateSessionUpdate sess =
     (if sess_id sess = [] then Inl (ErrMsg ''firestore: update session: empty id'')
      else if sess_revision sess \<ge> fr_max_revision then
        Inl (ErrMsg (''firestore: update session '' @ sess_id sess @ '': revision overflow''))
      else Inr ())"

text \<open>A collection without documents is no error of a query.\<close>

definition loadExistingMessages :: "string \<Rightarrow> (firestore, message list) act" where
  "loadExistingMessages sid = fr_loadMessages sid"

definition nextFirestoreUpdatedAt :: "int \<Rightarrow> (firestore, int) act" where
  "nextFirestoreUpdatedAt current =
     act_seq fr_unix (\<lambda>now.
     if now > current then act_ret now
     else if current = 2 ^ 63 - 1 then act_fail (ErrMsg ''updatedAt overflow'')
     else act_ret (current + 1))"

text \<open>What the transaction finds in the stored session: its creation time and the next update time.\<close>

definition readStoredSessionMetadata :: "64 word \<Rightarrow> session \<Rightarrow> fields option \<Rightarrow> (firestore, session) act" where
  "readStoredSessionMetadata expected committed d =
     (case d of
        None \<Rightarrow> act_fail (ErrMsg ''not found'')
      | Some data \<Rightarrow>
          act_seq (act_lift (revisionFromMap data)) (\<lambda>stored.
          if stored \<noteq> expected then
            act_fail (ErrWrap [] ErrSessionConflict
              ('' (stored revision '' @ nat_text (unat stored) @ '', supplied '' @ nat_text (unat expected) @ '')''))
          else
            act_seq (act_lift (int64FromMap data ''createdAt'')) (\<lambda>created.
            act_seq (act_lift (int64FromMap data ''updatedAt'')) (\<lambda>updated.
            act_seq (nextFirestoreUpdatedAt updated) (\<lambda>u.
            act_ret (committed\<lparr>sess_created_at := created, sess_updated_at := u\<rparr>))))))"

definition set_doc :: "fields \<Rightarrow> fields option \<Rightarrow> fields option" where
  "set_doc fs old = Some fs"

definition delete_doc :: "fields option \<Rightarrow> fields option" where
  "delete_doc old = None"

fun set_messages :: "(doc_path \<Rightarrow> error option) \<Rightarrow> doc_path \<Rightarrow> message list \<Rightarrow> error + doc_write list" where
  "set_messages refuses col [] = Inr []"
| "set_messages refuses col (m # ms) =
     (if msg_id m = [] then set_messages refuses col ms
      else case refuses (col @ [msg_id m]) of
             Some e \<Rightarrow> Inl (wrapf (''set message '' @ msg_id m) e)
           | None \<Rightarrow>
               (case set_messages refuses col ms of
                  Inl e \<Rightarrow> Inl e | Inr ws \<Rightarrow> Inr ((col @ [msg_id m], set_doc (toMessageMap m)) # ws)))"

fun delete_messages :: "(doc_path \<Rightarrow> error option) \<Rightarrow> doc_path \<Rightarrow> string list \<Rightarrow> message list \<Rightarrow> error + doc_write list" where
  "delete_messages refuses col keep [] = Inr []"
| "delete_messages refuses col keep (m # ms) =
     (if msg_id m \<in> set keep \<or> msg_id m = [] then delete_messages refuses col keep ms
      else case refuses (col @ [msg_id m]) of
             Some e \<Rightarrow> Inl (wrapf (''delete message '' @ msg_id m) e)
           | None \<Rightarrow>
               (case delete_messages refuses col keep ms of
                  Inl e \<Rightarrow> Inl e | Inr ws \<Rightarrow> Inr ((col @ [msg_id m], delete_doc) # ws)))"

definition fr_reconcileSessionMessages :: "(doc_path \<Rightarrow> error option) \<Rightarrow> doc_path \<Rightarrow> message list \<Rightarrow> message list \<Rightarrow> error + doc_write list" where
  "fr_reconcileSessionMessages refuses col current existing =
     (case set_messages refuses col current of
        Inl e \<Rightarrow> Inl e
      | Inr ws \<Rightarrow>
          (case delete_messages refuses col (filter (\<lambda>i. i \<noteq> []) (map msg_id current)) existing of
             Inl e \<Rightarrow> Inl e | Inr ds \<Rightarrow> Inr (ws @ ds)))"

text \<open>The body of the transaction of an update of the session at \<open>p\<close>.\<close>

definition update_body :: "doc_path \<Rightarrow> session \<Rightarrow> message list \<Rightarrow> session tx_body" where
  "update_body p requested existing =
     act_handle (fr_Get p) (\<lambda>e. act_fail (wrapf ''get session'' e)) (\<lambda>d.
     act_seq (readStoredSessionMetadata (sess_revision requested)
       (requested\<lparr>sess_revision := sess_revision requested + 1\<rparr>) d) (\<lambda>committed.
     act_seq (\<lambda>s. act_lift (fr_reconcileSessionMessages (fr_refuses s) (p @ [''messages'']) (sess_messages requested) existing) s) (\<lambda>ws.
     act_ret (committed, [(p, d)], (p, set_doc (toSessionMap committed)) # ws))))"

definition commitSessionUpdate :: "session \<Rightarrow> message list \<Rightarrow> (firestore, session) act" where
  "commitSessionUpdate requested existing =
     RunTransaction (update_body [''sessions'', sess_id requested] requested existing)"

definition fr_applyCommittedSession :: "session \<Rightarrow> session \<Rightarrow> session" where
  "fr_applyCommittedSession target committed =
     target\<lparr>sess_revision := sess_revision committed, sess_created_at := sess_created_at committed,
       sess_updated_at := sess_updated_at committed\<rparr>"

definition fr_UpdateSession :: "session \<Rightarrow> (firestore, session) act" where
  "fr_UpdateSession sess =
     act_seq (act_lift (fr_validateSessionUpdate sess)) (\<lambda>_.
     act_seq (loadExistingMessages (sess_id sess)) (\<lambda>existing.
     act_seq (act_wrap (''firestore: update session '' @ sess_id sess) (commitSessionUpdate sess existing)) (\<lambda>committed.
     act_ret (fr_applyCommittedSession sess committed))))"

primrec delete_docs :: "doc_path \<Rightarrow> (string \<times> fields) list \<Rightarrow> (firestore, unit) act" where
  "delete_docs col [] = act_ret ()"
| "delete_docs col (d # ds) =
     act_seq (act_wrap (''delete subdocument '' @ fst d) (fr_Delete (col @ [fst d]))) (\<lambda>_. delete_docs col ds)"

definition deleteSubcollection :: "doc_path \<Rightarrow> (firestore, unit) act" where
  "deleteSubcollection col =
     act_seq (fr_query col (\<lambda>ds. ds)) (\<lambda>(ds, e).
     act_seq (delete_docs col ds) (\<lambda>_.
     case e of None \<Rightarrow> act_ret () | Some x \<Rightarrow> act_fail (wrapf ''iterate subcollection'' x)))"

definition fr_DeleteSession :: "string \<Rightarrow> (firestore, unit) act" where
  "fr_DeleteSession i =
     act_seq (act_wrap (''firestore: delete session '' @ i @ '' messages'') (deleteSubcollection (messages_of i))) (\<lambda>_.
     act_wrap (''firestore: delete session '' @ i) (fr_Delete [''sessions'', i]))"

definition sessionSummaryFromMap :: "string \<times> fields \<Rightarrow> error + session" where
  "sessionSummaryFromMap d =
     (case d of (i, data) \<Rightarrow>
       (case revisionFromMap data of Inl e \<Rightarrow> Inl e | Inr revision \<Rightarrow>
       (case int64FromMap data ''createdAt'' of Inl e \<Rightarrow> Inl e | Inr created \<Rightarrow>
       (case int64FromMap data ''updatedAt'' of Inl e \<Rightarrow> Inl e | Inr updated \<Rightarrow>
          Inr \<lparr>sess_id = i, sess_agent_id = stringFromMap data ''agentId'' ''agentID'',
            sess_user_id = stringFromMap data ''userId'' ''userID'',
            sess_parent_session_id = stringFromMap data ''parentSessionId'' ''parentSessionID'',
            sess_messages = [], sess_state = [], sess_open_interrupts = [], sess_revision = revision,
            sess_created_at = created, sess_updated_at = updated\<rparr>))))"

text \<open>The sessions of all queries by id; a later one replaces an earlier one.\<close>

fun collect_sessions :: "((string \<times> fields) list \<Rightarrow> (string \<times> fields) list) list \<Rightarrow> string \<Rightarrow>
    (string \<times> session) list \<Rightarrow> (firestore, (string \<times> session) list) act" where
  "collect_sessions [] operation acc = act_ret acc"
| "collect_sessions (q # qs) operation acc =
     act_seq (fr_query [''sessions''] q) (\<lambda>r.
     act_seq (act_lift (drain sessionSummaryFromMap (''firestore: '' @ operation) r)) (\<lambda>xs.
     collect_sessions qs operation (fold (\<lambda>x. AList.update (sess_id x) x) xs acc)))"

definition collectSessionSummaries :: "((string \<times> fields) list \<Rightarrow> (string \<times> fields) list) list \<Rightarrow> string \<Rightarrow>
    (firestore, session list) act" where
  "collectSessionSummaries qs operation =
     act_seq (collect_sessions qs operation []) (\<lambda>acc. act_ret (sortSessions (map snd acc)))"

definition fr_ListSessions :: "string \<Rightarrow> (firestore, session list) act" where
  "fr_ListSessions agentID =
     collectSessionSummaries [where_eq ''agentId'' agentID, where_eq ''agentID'' agentID] ''list sessions''"

definition fr_ListSessionsByUser :: "string \<Rightarrow> string \<Rightarrow> (firestore, session list) act" where
  "fr_ListSessionsByUser agentID userID =
     collectSessionSummaries
       [\<lambda>ds. where_eq ''userId'' userID (where_eq ''agentId'' agentID ds),
        \<lambda>ds. where_eq ''userID'' userID (where_eq ''agentID'' agentID ds)] ''list sessions by user''"

section \<open>Tools\<close>

definition toToolMap :: "tool_def \<Rightarrow> fields" where
  "toToolMap d =
     [(''id'', JStr (td_id d)), (''agentID'', JStr (td_agent_id d)), (''name'', JStr (td_name d)),
      (''description'', JStr (td_description d)), (''parameters'', td_parameters d), (''createdAt'', enc_int (td_created_at d))]"

definition string_field :: "string \<Rightarrow> fields \<Rightarrow> string" where
  "string_field k fs = (case jmember k fs of Some (JStr v) \<Rightarrow> v | _ \<Rightarrow> [])"

definition toolFromMap :: "fields \<Rightarrow> tool_def" where
  "toolFromMap fs =
     \<lparr>td_id = string_field ''id'' fs, td_agent_id = string_field ''agentID'' fs, td_name = string_field ''name'' fs,
      td_description = string_field ''description'' fs,
      td_parameters = (case jmember ''parameters'' fs of Some v \<Rightarrow> v | None \<Rightarrow> JNull), td_handler = [], td_endpoint = [],
      td_headers = [], td_input_mapping = [], td_response_field = [], td_script_path = [],
      td_created_at = (case jmember ''createdAt'' fs of
        Some (JNum n) \<Rightarrow> (case stored_int n of Some i \<Rightarrow> i | None \<Rightarrow> 0) | _ \<Rightarrow> 0)\<rparr>"

definition fr_SaveTool :: "tool_def \<Rightarrow> (firestore, unit) act" where
  "fr_SaveTool d s =
     (if td_agent_id d = [] \<or> td_name d = [] then
        (Inl (ErrMsg ''firestore: save tool: agentID and name are required''), s)
      else act_wrap (''firestore: save tool '' @ td_name d)
        (RunTransaction (let p = [''tools'', td_agent_id d] in
            act_seq (fr_ref p) (\<lambda>_. act_ret ((), [],
              [(p, \<lambda>old. Some (fr_merge s (case old of None \<Rightarrow> [] | Some fs \<Rightarrow> fs)
                 [(''agentID'', JStr (td_agent_id d)), (''tools'', JObj [(td_name d, JObj (toToolMap d))])]))])))) s)"

text \<open>The first document of a query, as the loop that asks for one gets it.\<close>

definition find_tool_doc :: "string \<Rightarrow> string \<Rightarrow> (firestore, string \<times> fields) act" where
  "find_tool_doc name what =
     act_seq (fr_query [''tools''] (\<lambda>ds. take 1 (where_eq ''name'' name ds))) (\<lambda>r.
     case r of
       (d # ds, e) \<Rightarrow> act_ret d
     | ([], Some e) \<Rightarrow> act_fail (wrapf what e)
     | ([], None) \<Rightarrow> act_fail (ErrMsg (''firestore: tool '' @ name @ '' not found'')))"

definition fr_GetTool :: "string \<Rightarrow> (firestore, tool_def) act" where
  "fr_GetTool name =
     act_seq (find_tool_doc name (''firestore: get tool '' @ name)) (\<lambda>(i, fs).
     act_lift (data_to dec_tool_def (''firestore: decode tool '' @ name) fs))"

text \<open>The member \<open>tools\<close> of an agent's document, a map of maps, in the order of the names.\<close>

fun tool_maps :: "json option \<Rightarrow> fields list option" where
  "tool_maps None = Some []"
| "tool_maps (Some JNull) = Some []"
| "tool_maps (Some (JObj kvs)) =
     those (map (\<lambda>(k, v). case v of JObj fs \<Rightarrow> Some fs | _ \<Rightarrow> None) (filter (\<lambda>(k, v). v \<noteq> JNull) (sort_key fst kvs)))"
| "tool_maps (Some _) = None"

definition fr_ListTools :: "string \<Rightarrow> (firestore, tool_def list) act" where
  "fr_ListTools agentID =
     act_seq (act_wrap (''firestore: list tools for agent '' @ agentID) (fr_Get [''tools'', agentID])) (\<lambda>d.
     case d of
       None \<Rightarrow> act_ret []
     | Some fs \<Rightarrow>
         (case tool_maps (jmember ''tools'' fs) of
            None \<Rightarrow> act_fail (wrapf (''firestore: decode tools for agent '' @ agentID) (ErrMsg ''cannot set type''))
          | Some ms \<Rightarrow> act_ret (map toolFromMap ms)))"

text \<open>The parts of a field path between dots.\<close>

fun dotted :: "string \<Rightarrow> string list" where
  "dotted [] = [[]]"
| "dotted (c # cs) =
     (if c = CHR ''.'' then [] # dotted cs else case dotted cs of [] \<Rightarrow> [[c]] | p # ps \<Rightarrow> (c # p) # ps)"

fun remove_field :: "string list \<Rightarrow> fields \<Rightarrow> fields" where
  "remove_field [] fs = fs"
| "remove_field [p] fs = AList.delete p fs"
| "remove_field (p # ps) fs =
     (case map_of fs p of Some (JObj kvs) \<Rightarrow> AList.update p (JObj (remove_field ps kvs)) fs | _ \<Rightarrow> fs)"

definition bad_field_path :: "string \<Rightarrow> bool" where
  "bad_field_path path \<longleftrightarrow> set path \<inter> set ''~*/[]'' \<noteq> {} \<or> [] \<in> set (dotted path)"

definition fr_DeleteTool :: "string \<Rightarrow> (firestore, unit) act" where
  "fr_DeleteTool name =
     act_seq (find_tool_doc name (''firestore: find tool '' @ name @ '' for delete'')) (\<lambda>(i, fs).
     act_wrap (''firestore: delete tool '' @ name)
       (if bad_field_path (''tools.'' @ name) then act_fail (ErrMsg ''firestore: bad field path'')
        else fr_Update [''tools'', i] (remove_field (dotted (''tools.'' @ name)))))"

section \<open>Skills and servers\<close>

definition fields_of :: "json \<Rightarrow> fields" where
  "fields_of v = (case v of JObj kvs \<Rightarrow> kvs | _ \<Rightarrow> [])"

definition fr_SaveSkill :: "skill_def \<Rightarrow> (firestore, unit) act" where
  "fr_SaveSkill d =
     (if sd_name d = [] then act_fail (ErrMsg ''firestore: save skill: name is required'')
      else act_wrap (''firestore: save skill '' @ sd_name d)
        (fr_Set [''skills'', (sd_name d)] (fields_of (enc_skill_def d))))"

definition not_found :: error where
  "not_found = ErrMsg ''not found''"

definition fr_GetSkill :: "string \<Rightarrow> (firestore, skill_def) act" where
  "fr_GetSkill name =
     act_seq (act_wrap (''firestore: get skill '' @ name)
       (act_seq (fr_Get [''skills'', name]) (\<lambda>d. case d of None \<Rightarrow> act_fail not_found | Some fs \<Rightarrow> act_ret fs))) (\<lambda>fs.
     act_lift (data_to dec_skill_def (''firestore: decode skill '' @ name) fs))"

definition dec_skill_entry :: "json \<Rightarrow> skill_entry option" where
  "dec_skill_entry = dec_struct (\<lambda>kvs. do {
     n \<leftarrow> dec_string (jmember ''name'' kvs);
     d \<leftarrow> dec_string (jmember ''description'' kvs);
     v \<leftarrow> dec_string (jmember ''version'' kvs);
     e \<leftarrow> dec_bool (jmember ''enabled'' kvs);
     Some \<lparr>se_name = n, se_description = d, se_version = v, se_enabled = e\<rparr> })"

definition fr_ListSkills :: "(firestore, skill_entry list) act" where
  "fr_ListSkills =
     act_seq (fr_query [''skills''] (\<lambda>ds. ds)) (\<lambda>r.
     act_lift (drain (\<lambda>(i, fs). data_to dec_skill_entry (''firestore: decode skill entry '' @ i) fs) ''firestore: list skills'' r))"

definition fr_DeleteSkill :: "string \<Rightarrow> (firestore, unit) act" where
  "fr_DeleteSkill name = act_wrap (''firestore: delete skill '' @ name) (fr_Delete [''skills'', name])"

definition fr_SaveMCPServer :: "mcp_server_def \<Rightarrow> (firestore, unit) act" where
  "fr_SaveMCPServer d =
     (if ms_name d = [] then act_fail (ErrMsg ''firestore: save mcp server: name is required'')
      else act_wrap (''firestore: save mcp server '' @ ms_name d)
        (fr_Set [''mcp_servers'', (ms_name d)] (fields_of (enc_mcp_server_def d))))"

definition fr_GetMCPServer :: "string \<Rightarrow> (firestore, mcp_server_def option) act" where
  "fr_GetMCPServer name =
     act_seq (act_wrap (''firestore: get mcp server '' @ name) (fr_Get [''mcp_servers'', name])) (\<lambda>d.
     case d of
       None \<Rightarrow> act_ret None
     | Some fs \<Rightarrow> act_seq (act_lift (data_to dec_mcp_server_def (''firestore: decode mcp server '' @ name) fs)) (\<lambda>x. act_ret (Some x)))"

definition fr_ListMCPServers :: "string \<Rightarrow> (firestore, mcp_server_def list) act" where
  "fr_ListMCPServers agentID =
     act_seq (fr_query [''mcp_servers''] (where_eq ''AgentID'' agentID)) (\<lambda>r.
     act_lift (drain (\<lambda>(i, fs). data_to dec_mcp_server_def ''firestore: decode mcp server'' fs) ''firestore: list mcp servers'' r))"

definition fr_DeleteMCPServer :: "string \<Rightarrow> (firestore, unit) act" where
  "fr_DeleteMCPServer name =
     act_wrap (''firestore: delete mcp server '' @ name) (fr_Delete [''mcp_servers'', name])"

section \<open>Scoped memory\<close>

definition fr_SetMemory :: "memory_scope \<Rightarrow> string \<Rightarrow> string \<Rightarrow> string \<Rightarrow> (firestore, unit) act" where
  "fr_SetMemory scope scopeID key v =
     (let docID = ScopedKey scope scopeID key in
      if docID = [] then act_fail (ErrMsg ''firestore: set memory: empty key'')
      else act_wrap (''firestore: set memory '' @ docID)
        (fr_Set [''memory'', docID] [(''key'', JStr docID), (''value'', JStr v)]))"

definition fr_GetMemory :: "memory_scope \<Rightarrow> string \<Rightarrow> string \<Rightarrow> (firestore, string) act" where
  "fr_GetMemory scope scopeID key =
     (let docID = ScopedKey scope scopeID key in
      act_seq (act_wrap (''firestore: get memory '' @ docID)
        (act_seq (fr_Get [''memory'', docID]) (\<lambda>d. case d of None \<Rightarrow> act_fail not_found | Some fs \<Rightarrow> act_ret fs))) (\<lambda>fs.
      case jmember ''value'' fs of
        None \<Rightarrow> act_fail (wrapf (''firestore: get memory value for '' @ docID) (ErrMsg ''no field''))
      | Some (JStr v) \<Rightarrow> act_ret v
      | Some _ \<Rightarrow> act_fail (ErrMsg (''firestore: unexpected value type for key '' @ docID))))"

definition fr_DeleteMemory :: "memory_scope \<Rightarrow> string \<Rightarrow> string \<Rightarrow> (firestore, unit) act" where
  "fr_DeleteMemory scope scopeID key =
     (let docID = ScopedKey scope scopeID key in
      act_wrap (''firestore: delete memory '' @ docID) (fr_Delete [''memory'', docID]))"

text \<open>string([]rune): a number that is no Unicode scalar value becomes U+FFFD.\<close>

definition rune_text :: "nat \<Rightarrow> string" where
  "rune_text r = utf8 (if (55296 \<le> r \<and> r < 57344) \<or> 1114112 \<le> r then 65533 else r)"

definition prefixIncrement :: "string \<Rightarrow> string" where
  "prefixIncrement pre =
     (if pre = [] then []
      else let rs = map fst (runes pre) in concat (map rune_text (butlast rs @ [last rs + 1])))"

definition fr_ListMemory :: "memory_scope \<Rightarrow> string \<Rightarrow> string \<Rightarrow> (firestore, string list) act" where
  "fr_ListMemory scope scopeID pre =
     (let k = ScopedKey scope scopeID pre in
      act_seq (fr_query [''memory'']
        (if k = [] then (\<lambda>ds. ds)
         else (\<lambda>ds. sort_key (\<lambda>(i, fs). string_field ''key'' fs)
           (filter (\<lambda>(i, fs). case jmember ''key'' fs of Some (JStr x) \<Rightarrow> k \<le> x \<and> x < prefixIncrement k | _ \<Rightarrow> False) ds)))) (\<lambda>r.
      act_lift (case drain (\<lambda>(i, fs). Inr (case jmember ''key'' fs of Some (JStr x) \<Rightarrow> [x] | _ \<Rightarrow> []))
          (''firestore: list memory prefix '' @ quote k) r of
        Inl e \<Rightarrow> Inl e | Inr xs \<Rightarrow> Inr (concat xs))))"

definition fr_SetKV :: "string \<Rightarrow> string \<Rightarrow> (firestore, unit) act" where
  "fr_SetKV key v = fr_SetMemory ScopeGlobal [] key v"

definition fr_GetKV :: "string \<Rightarrow> (firestore, string) act" where
  "fr_GetKV key = fr_GetMemory ScopeGlobal [] key"

definition fr_DeleteKV :: "string \<Rightarrow> (firestore, unit) act" where
  "fr_DeleteKV key = fr_DeleteMemory ScopeGlobal [] key"

definition fr_ListKV :: "string \<Rightarrow> (firestore, string list) act" where
  "fr_ListKV pre = fr_ListMemory ScopeGlobal [] pre"

end
