(* ===== verification/Firestore_Spec.thy ===== *)
theory Firestore_Spec
  imports Firestore Clients Store_Contract
begin

text \<open>
  How an update of the Firestore store ends, whatever other clients do between its calls: the
  transaction is retried for contention and commits in one step or not at all.
\<close>

section \<open>Calls that write nothing\<close>

definition fr_after :: "nat \<Rightarrow> firestore \<Rightarrow> documents" where
  "fr_after n s = after_calls n (fr_script s) (fr_db s)"

text \<open>From \<open>s\<close> to \<open>t\<close> only what other clients did in \<open>n\<close> calls has happened.\<close>

definition fr_ran :: "nat \<Rightarrow> firestore \<Rightarrow> firestore \<Rightarrow> bool" where
  "fr_ran n s t \<longleftrightarrow> fr_merge t = fr_merge s \<and> fr_refuses t = fr_refuses s \<and> fr_script t = drop n (fr_script s) \<and> fr_db t = fr_after n s"

lemma fr_ran_refl [simp]: "fr_ran 0 s s"
  by (simp add: fr_ran_def fr_after_def)

lemma fr_ran_trans: "fr_ran n s t \<Longrightarrow> fr_ran m t u \<Longrightarrow> fr_ran (n + m) s u"
  unfolding fr_ran_def fr_after_def after_calls_add by (simp add: add.commute [of n m])

lemma fr_next_ran: "fr_next s = (e, t) \<Longrightarrow> fr_ran 1 s t"
  by (cases "fr_script s") (auto simp: fr_next_def fr_ran_def fr_after_def split: prod.splits)

definition reads_only :: "(firestore, 'a) act \<Rightarrow> bool" where
  "reads_only m \<longleftrightarrow> (\<forall>s r t. m s = (r, t) \<longrightarrow> (\<exists>n. fr_ran n s t))"

named_theorems reads_rules \<open>operations that change no document\<close>

lemma reads_onlyD: "reads_only m \<Longrightarrow> m s = (r, t) \<Longrightarrow> \<exists>n. fr_ran n s t"
  by (auto simp: reads_only_def)

lemma reads_basic [reads_rules]:
  "reads_only (act_ret x)" "reads_only (act_fail e)" "reads_only (act_lift y)"
  by (auto simp: reads_only_def intro: exI [of _ 0])

lemma reads_seq [reads_rules]: "reads_only m \<Longrightarrow> (\<And>x. reads_only (k x)) \<Longrightarrow> reads_only (act_seq m k)"
  unfolding reads_only_def act_seq_iff by (meson fr_ran_trans)

lemma reads_wrap [reads_rules]: "reads_only m \<Longrightarrow> reads_only (act_wrap p m)"
  unfolding reads_only_def act_wrap_iff by blast

lemma reads_handle [reads_rules]: "reads_only m \<Longrightarrow> (\<And>e. reads_only (f e)) \<Longrightarrow> (\<And>x. reads_only (k x)) \<Longrightarrow> reads_only (act_handle m f k)"
  unfolding reads_only_def act_handle_def by (fastforce split: prod.splits sum.splits if_splits intro: fr_ran_trans)

lemma reads_cases [reads_rules]:
  "(b \<Longrightarrow> reads_only m) \<Longrightarrow> (\<not> b \<Longrightarrow> reads_only n) \<Longrightarrow> reads_only (if b then m else n)"
  "reads_only m \<Longrightarrow> (\<And>x. reads_only (f x)) \<Longrightarrow> reads_only (case_option m f opt)"
  by (auto split: option.split)

lemma look_ran: "fr_look f s = (r, t) \<Longrightarrow> fr_ran 1 s t"
  using fr_next_ran by (fastforce simp: fr_look_def split: prod.splits)

lemma look_value: "fr_look f s = (Inr x, t) \<Longrightarrow> x = f (fr_db t)"
  by (auto simp: fr_look_def split: prod.splits option.splits)

lemma ref_ran: "fr_ref p s = (r, t) \<Longrightarrow> t = s"
  by (simp add: fr_ref_def)

lemma ref_ok [simp]: "fr_ref p s = (Inr u, t) \<longleftrightarrow> fr_refuses s p = None \<and> t = s"
  by (auto simp: fr_ref_def split: option.splits)

lemma query_ran: "fr_query col q s = (r, t) \<Longrightarrow> \<exists>n. fr_ran n s t"
proof -
  assume q: "fr_query col q s = (r, t)"
  obtain e u where u: "fr_next s = (e, u)" by force
  have "t = s \<or> t = u" using q u by (auto simp: fr_query_def act_seq_def fr_ref_def Let_def split: option.splits)
  then show ?thesis using fr_next_ran [OF u] fr_ran_refl [of s] by blast
qed

lemma unix_ran: "fr_unix s = (r, t) \<Longrightarrow> fr_ran 0 s t"
  by (auto simp: fr_unix_def fr_ran_def fr_after_def)

lemma reads_calls [reads_rules]: "reads_only (fr_look f)" "reads_only (fr_query col q)" "reads_only fr_unix"
  unfolding reads_only_def using look_ran query_ran unix_ran by blast+

lemma reads_ref [reads_rules]: "reads_only (fr_ref p)"
  using ref_ran fr_ran_refl unfolding reads_only_def by blast

lemma reads_lifted [reads_rules]: "reads_only (\<lambda>s. act_lift (f s) s)"
  by (auto simp: reads_only_def act_lift_def intro: exI [of _ 0])

lemma reads_Get [reads_rules]: "reads_only (fr_Get r)"
  unfolding fr_Get_def by (intro reads_rules)

lemma reads_loadMessages [reads_rules]: "reads_only (fr_loadMessages i)"
  unfolding fr_loadMessages_def by (intro reads_rules)

lemma reads_next_updated [reads_rules]: "reads_only (nextFirestoreUpdatedAt c)"
  unfolding nextFirestoreUpdatedAt_def by (intro reads_rules)

lemma reads_stored [reads_rules]: "reads_only (readStoredSessionMetadata r c d)"
  unfolding readStoredSessionMetadata_def by (intro reads_rules)

lemma reads_GetSession [reads_rules]: "reads_only (fr_GetSession i)"
  unfolding fr_GetSession_def by (intro reads_rules)

section \<open>Transactions\<close>

definition unchanged :: "(doc_path \<times> fields option) list \<Rightarrow> documents \<Rightarrow> bool" where
  "unchanged reads db \<longleftrightarrow> list_all (\<lambda>(p, v). map_of db p = v) reads"

lemma commit_cases:
  assumes "fr_commit reads ws s = (r, t)"
  obtains (committed) u where "fr_ran 1 s u" "unchanged reads (fr_db u)" "r = Inr True" "t = u\<lparr>fr_db := fold apply_write ws (fr_db u)\<rparr>"
  | (lost) u e where "fr_ran 1 s u" "unchanged reads (fr_db u)" "r = Inl e" "t = u\<lparr>fr_db := fold apply_write ws (fr_db u)\<rparr>"
  | (aborted) "fr_ran 1 s t" "r = Inr False"
  | (failed) e where "fr_ran 1 s t" "r = Inl e"
proof -
  obtain e u where u: "fr_next s = (e, u)" by force
  note ran = fr_next_ran [OF u]
  show ?thesis
  proof (cases e)
    case FrOk
    show ?thesis
    proof (cases "unchanged reads (fr_db u)")
      case True
      then show ?thesis using FrOk assms u committed [OF ran True] by (simp add: fr_commit_def unchanged_def)
    next
      case False
      then show ?thesis using FrOk assms u ran aborted by (simp add: fr_commit_def unchanged_def)
    qed
  next
    case (FrLost m)
    show ?thesis
    proof (cases "unchanged reads (fr_db u)")
      case True
      then show ?thesis using FrLost assms u lost [OF ran True] by (auto simp: fr_commit_def unchanged_def)
    next
      case False
      then show ?thesis using FrLost assms u ran failed by (auto simp: fr_commit_def unchanged_def)
    qed
  qed (use assms u ran aborted failed in \<open>auto simp: fr_commit_def Let_def\<close>)
qed

text \<open>What a transaction has done: its body, from \<open>s1\<close>, then its writes in one step.\<close>

definition tx_done :: "'a tx_body \<Rightarrow> firestore \<Rightarrow> 'a \<Rightarrow> firestore \<Rightarrow> bool" where
  "tx_done body s x t \<longleftrightarrow> (\<exists>n s1 reads ws s2 u. fr_ran n s s1 \<and> body s1 = (Inr (x, reads, ws), s2) \<and>
     fr_ran 1 s2 u \<and> unchanged reads (fr_db u) \<and> t = u\<lparr>fr_db := fold apply_write ws (fr_db u)\<rparr>)"

lemma tx_done_later: "fr_ran n s s' \<Longrightarrow> tx_done body s' x t \<Longrightarrow> tx_done body s x t"
  unfolding tx_done_def using fr_ran_trans by blast

lemma attempts_cases:
  assumes "fr_attempts k body s = (r, t)" "reads_only body"
  obtains (committed) x where "r = Inr x" "tx_done body s x t"
  | (lost) x e where "r = Inl e" "tx_done body s x t"
  | (failed) n e where "r = Inl e" "fr_ran n s t"
proof -
  have "(\<exists>x. r = Inr x \<and> tx_done body s x t) \<or> (\<exists>x e. r = Inl e \<and> tx_done body s x t) \<or> (\<exists>n e. r = Inl e \<and> fr_ran n s t)"
    using assms(1)
  proof (induction k arbitrary: s)
    case 0
    then have "r = Inl (ErrMsg ''aborted'')" "t = s" by simp_all
    then show ?case using fr_ran_refl [of s] by blast
  next
    case (Suc k)
    obtain b s1 where b: "fr_look (\<lambda>_. ()) s = (b, s1)" by force
    have r1: "fr_ran 1 s s1" by (rule look_ran [OF b])
    show ?case
    proof (cases b)
      case (Inl e)
      then show ?thesis using Suc.prems b r1 by (auto simp: act_seq_def)
    next
      case (Inr u0)
      obtain y s2 where y: "body s1 = (y, s2)" by force
      obtain n where n: "fr_ran n s1 s2" using reads_onlyD [OF assms(2) y] by blast
      have r2: "fr_ran (1 + n) s s2" by (rule fr_ran_trans [OF r1 n])
      show ?thesis
      proof (cases y)
        case (Inl e)
        let ?rollback = "act_handle (fr_look (\<lambda>_. ())) (\<lambda>_. act_fail e) (\<lambda>_. act_fail e)"
        have run: "(r, t) = (if is_panic e then (Inl e, s2) else ?rollback s2)"
          using Suc.prems b \<open>b = Inr u0\<close> y Inl by (simp add: act_seq_def act_handle_def split: if_splits)
        have "isl (fst (?rollback s2))" by (auto simp: act_handle_def act_fail_def split: prod.split sum.split)
        moreover have "reads_only ?rollback" by (intro reads_rules)
        moreover have "\<exists>m. fr_ran m s2 s2" using fr_ran_refl [of s2] by blast
        ultimately have "isl r \<and> (\<exists>m. fr_ran m s2 t)"
          using run reads_onlyD [of ?rollback s2 r t] by (cases "is_panic e") (auto simp: prod_eq_iff)
        then have "\<exists>m e. r = Inl e \<and> fr_ran m s2 t" by (cases r) auto
        then show ?thesis using fr_ran_trans [OF r2] by blast
      next
        case (Inr xs)
        obtain x reads ws where xs: "xs = (x, reads, ws)" by (cases xs)
        obtain c s3 where c: "fr_commit reads ws s2 = (c, s3)" by force
        have run: "(case c of Inl e \<Rightarrow> (Inl e, s3) | Inr True \<Rightarrow> (Inr x, s3) | Inr False \<Rightarrow> fr_attempts k body s3) = (r, t)"
          using Suc.prems b \<open>b = Inr u0\<close> y Inr xs c by (auto simp: act_seq_def act_handle_def act_ret_def split: sum.splits bool.splits if_splits)
        have done_: "tx_done body s x s3" if "fr_ran 1 s2 u" "unchanged reads (fr_db u)" "s3 = u\<lparr>fr_db := fold apply_write ws (fr_db u)\<rparr>" for u
          unfolding tx_done_def using r1 y Inr xs that by blast
        from c show ?thesis
        proof (cases rule: commit_cases)
          case (committed u)
          then show ?thesis using run done_ by auto
        next
          case (lost u e)
          then show ?thesis using run done_ by auto
        next
          case aborted
          have r3: "fr_ran (1 + n + 1) s s3" by (rule fr_ran_trans [OF r2 aborted(1)])
          have "fr_attempts k body s3 = (r, t)" using run aborted(2) by simp
          from Suc.IH [OF this] show ?thesis
          proof (elim disjE exE conjE)
            fix n' e assume "r = Inl e" "fr_ran n' s3 t"
            then show ?thesis using fr_ran_trans [OF r3, of n' t] by blast
          qed (use tx_done_later [OF r3, of body] in auto)
        next
          case (failed e)
          then show ?thesis using run fr_ran_trans [OF r2 failed(1)] by auto
        qed
      qed
    qed
  qed
  then show ?thesis using that by blast
qed

section \<open>The body of an update\<close>

lemma act_lift_Inr: "act_lift y s = (Inr x, t) \<longleftrightarrow> y = Inr x \<and> t = s"
  by auto

lemma fr_validate_Inr: "fr_validateSessionUpdate sess = Inr u \<Longrightarrow> sess_revision sess < fr_max_revision \<and> sess_id sess \<noteq> []"
  by (auto simp: fr_validateSessionUpdate_def not_le split: if_splits)

lemma next_updated_at: "nextFirestoreUpdatedAt c s = (Inr u, t) \<Longrightarrow> c < u"
  by (auto simp: nextFirestoreUpdatedAt_def act_seq_iff split: if_splits)

lemma stored_metadata:
  assumes "readStoredSessionMetadata expected c d s = (Inr c', t)"
  obtains data created updated v where "d = Some data" "revisionFromMap data = Inr expected"
    "int64FromMap data ''createdAt'' = Inr created" "int64FromMap data ''updatedAt'' = Inr updated"
    "updated < v" "c' = c\<lparr>sess_created_at := created, sess_updated_at := v\<rparr>" "fr_ran 0 s t"
proof (cases d)
  case (Some data)
  with assms obtain created updated v where *: "revisionFromMap data = Inr expected"
    "int64FromMap data ''createdAt'' = Inr created" "int64FromMap data ''updatedAt'' = Inr updated"
    "nextFirestoreUpdatedAt updated s = (Inr v, t)" "c' = c\<lparr>sess_created_at := created, sess_updated_at := v\<rparr>"
    by (auto simp: readStoredSessionMetadata_def act_seq_iff act_lift_Inr simp del: act_simps(3) split: if_splits)
  have "fr_ran 0 s t" using *(4) by (auto simp: nextFirestoreUpdatedAt_def act_seq_iff dest: unix_ran split: if_splits)
  then show ?thesis using that Some * next_updated_at [OF *(4)] by blast
qed (use assms in \<open>simp add: readStoredSessionMetadata_def\<close>)

text \<open>The document an update writes.\<close>

definition fr_committed :: "session \<Rightarrow> int \<Rightarrow> int \<Rightarrow> session" where
  "fr_committed sess created v =
     sess\<lparr>sess_revision := sess_revision sess + 1, sess_created_at := created, sess_updated_at := v\<rparr>"

lemma reads_body [reads_rules]: "reads_only (update_body p sess existing)"
  unfolding update_body_def by (intro reads_rules)

lemma body_done:
  assumes "update_body p sess existing s = (Inr (c, reads, ws), t)"
  obtains data created updated v ms where "fr_ran 1 s t" "fr_refuses s p = None" "map_of (fr_after 1 s) p = Some data" "reads = [(p, Some data)]"
    "revisionFromMap data = Inr (sess_revision sess)" "int64FromMap data ''createdAt'' = Inr created"
    "int64FromMap data ''updatedAt'' = Inr updated" "updated < v" "c = fr_committed sess created v"
    "fr_reconcileSessionMessages (fr_refuses s) (p @ [''messages'']) (sess_messages sess) existing = Inr ms"
    "ws = (p, set_doc (toSessionMap c)) # ms"
proof -
  obtain d s1 where d: "fr_Get p s = (Inr d, s1)"
    using assms by (auto simp: update_body_def act_handle_def act_fail_def split: prod.splits sum.splits if_splits)
  have s1: "fr_ran 1 s s1" "d = map_of (fr_db s1) p" "fr_refuses s p = None"
    using d look_ran look_value by (auto simp: fr_Get_def act_seq_iff)
  obtain c0 s2 ms where c: "readStoredSessionMetadata (sess_revision sess) (sess\<lparr>sess_revision := sess_revision sess + 1\<rparr>) d s1 = (Inr c0, s2)"
    "fr_reconcileSessionMessages (fr_refuses s2) (p @ [''messages'']) (sess_messages sess) existing = Inr ms"
    "c = c0" "reads = [(p, d)]" "ws = (p, set_doc (toSessionMap c0)) # ms" "t = s2"
    using assms d by (auto simp: update_body_def act_handle_def act_seq_iff act_lift_Inr simp del: act_simps(3))
  from c(1) show ?thesis
  proof (cases rule: stored_metadata)
    case (1 data created updated v)
    have t: "fr_ran 1 s t" using fr_ran_trans [OF s1(1) 1(7)] c(6) by simp
    then have "fr_reconcileSessionMessages (fr_refuses s) (p @ [''messages'']) (sess_messages sess) existing = Inr ms"
      using c(2,6) by (simp add: fr_ran_def)
    moreover have "map_of (fr_after 1 s) p = Some data" using s1 1(1) by (simp add: fr_ran_def)
    ultimately show ?thesis using that [of data created updated v ms] 1 c(3-5) t s1(3) by (simp add: fr_committed_def)
  qed
qed

section \<open>The ways an update ends\<close>

text \<open>The messages a query of a session finds.\<close>

definition fr_messages :: "string \<Rightarrow> documents \<Rightarrow> error + message list" where
  "fr_messages i db =
     drain (\<lambda>(j, fs). case data_to dec_message (''firestore: decode message '' @ j) fs of
         Inl e \<Rightarrow> Inl e | Inr m \<Rightarrow> Inr (m\<lparr>msg_id := j\<rparr>)) (''firestore: load messages for session '' @ i)
       (by_created (docs_in [''sessions'', i, ''messages''] db), None)"

text \<open>The session document and the messages before and after a committed update.\<close>

definition update_done :: "session \<Rightarrow> session \<Rightarrow> firestore \<Rightarrow> firestore \<Rightarrow> bool" where
  "update_done sess c s t \<longleftrightarrow> (\<exists>m n u data created updated v existing ms.
     fr_ran n s u \<and> m \<le> n \<and> sess_id sess \<noteq> [] \<and> fr_refuses s [''sessions'', sess_id sess] = None \<and>
     fr_refuses s [''sessions'', sess_id sess, ''messages''] = None \<and>
     fr_messages (sess_id sess) (fr_after m s) = Inr existing \<and>
     map_of (fr_db u) [''sessions'', sess_id sess] = Some data \<and> revisionFromMap data = Inr (sess_revision sess) \<and>
     int64FromMap data ''createdAt'' = Inr created \<and> int64FromMap data ''updatedAt'' = Inr updated \<and> updated < v \<and>
     c = fr_committed sess created v \<and>
     fr_reconcileSessionMessages (fr_refuses s) [''sessions'', sess_id sess, ''messages''] (sess_messages sess) existing = Inr ms \<and>
     t = u\<lparr>fr_db := fold apply_write (([''sessions'', sess_id sess], set_doc (toSessionMap c)) # ms) (fr_db u)\<rparr>)"

lemma loaded:
  assumes "fr_loadMessages i s = (Inr ms, t)"
  shows "fr_ran 1 s t \<and> fr_refuses s [''sessions'', i, ''messages''] = None \<and> fr_messages i (fr_after 1 s) = Inr ms"
proof -
  have drained: "e = None" if "drain f what (ds, e) = Inr xs" for f what ds e and xs :: "message list"
    using that by (induction ds arbitrary: xs) (cases e; auto split: sum.splits)+
  obtain r where r: "fr_query (messages_of i) by_created s = (Inr r, t)"
    "drain (\<lambda>(i, fs). case data_to dec_message (''firestore: decode message '' @ i) fs of
         Inl e \<Rightarrow> Inl e | Inr m \<Rightarrow> Inr (m\<lparr>msg_id := i\<rparr>)) (''firestore: load messages for session '' @ i) r = Inr ms"
    using assms by (auto simp: fr_loadMessages_def act_seq_iff)
  then have end_: "snd r = None" using drained by (cases r) auto
  have i: "fr_refuses s [''sessions'', i, ''messages''] = None"
    using r(1) by (auto simp: fr_query_def messages_of_def act_seq_iff)
  obtain e u where u: "fr_next s = (e, u)" by force
  have "e = FrOk" "t = u" "r = (by_created (docs_in [''sessions'', i, ''messages''] (fr_db u)), None)"
    using r(1) i u end_ by (auto simp: fr_query_def act_seq_iff messages_of_def Let_def fr_error_def split: fr_end.splits)
  then show ?thesis using fr_next_ran [OF u] r(2) i by (simp add: fr_ran_def fr_messages_def)
qed

lemma fr_update_cases:
  assumes "fr_UpdateSession sess s = (r, t)"
  obtains (committed) c where "r = Inr c" "update_done sess c s t" "sess_revision sess < fr_max_revision"
  | (lost) c e where "r = Inl e" "update_done sess c s t" "sess_revision sess < fr_max_revision"
  | (refused) n e where "r = Inl e" "fr_ran n s t"
proof (cases "fr_validateSessionUpdate sess")
  case (Inl e)
  then show ?thesis using assms refused [of e 0] by (simp add: fr_UpdateSession_def act_seq_iff)
next
  case (Inr u0)
  note rev = fr_validate_Inr [OF Inr]
  let ?i = "sess_id sess"
  obtain a l where load: "fr_loadMessages ?i s = (a, l)" by force
  show ?thesis
  proof (cases a)
    case (Inl e)
    then show ?thesis using assms \<open>fr_validateSessionUpdate sess = Inr u0\<close> load reads_onlyD [OF reads_loadMessages load] refused
      by (auto simp: fr_UpdateSession_def act_seq_def act_lift_def loadExistingMessages_def)
  next
    case (Inr existing)
    note l = loaded [OF load [unfolded Inr]]
    let ?p = "[''sessions'', ?i]"
    obtain b v where b: "fr_attempts 5 (update_body ?p sess existing) l = (b, v)" by force
    have run: "(r, t) = (case b of Inl e \<Rightarrow> (Inl (if is_panic e then e else wrapf (''firestore: update session '' @ ?i) e), v)
        | Inr c \<Rightarrow> (Inr (fr_applyCommittedSession sess c), v))"
      using assms \<open>fr_validateSessionUpdate sess = Inr u0\<close> load Inr b
      by (auto simp: fr_UpdateSession_def act_seq_def act_lift_def act_wrap_def act_ret_def loadExistingMessages_def
          commitSessionUpdate_def RunTransaction_def split: sum.splits)
    have done_: "update_done sess c s v \<and> fr_applyCommittedSession sess c = c"
      if tx: "tx_done (update_body ?p sess existing) l c v" for c
    proof -
      obtain n s1 reads ws s2 u where x: "fr_ran n l s1" "update_body ?p sess existing s1 = (Inr (c, reads, ws), s2)"
        "fr_ran 1 s2 u" "unchanged reads (fr_db u)" "v = u\<lparr>fr_db := fold apply_write ws (fr_db u)\<rparr>"
        using tx unfolding tx_done_def by blast
      from x(2) obtain data created updated w ms where y: "fr_ran 1 s1 s2" "reads = [(?p, Some data)]"
        "revisionFromMap data = Inr (sess_revision sess)" "int64FromMap data ''createdAt'' = Inr created"
        "int64FromMap data ''updatedAt'' = Inr updated" "updated < w" "c = fr_committed sess created w"
        "fr_reconcileSessionMessages (fr_refuses s1) (?p @ [''messages'']) (sess_messages sess) existing = Inr ms"
        "ws = (?p, set_doc (toSessionMap c)) # ms" "fr_refuses s1 ?p = None"
        by (cases rule: body_done) blast
      have same: "fr_refuses s1 = fr_refuses s" using l x(1) by (simp add: fr_ran_def)
      have "fr_ran (1 + (n + (1 + 1))) s u"
        using l x(1,3) y(1) fr_ran_trans by blast
      moreover have "map_of (fr_db u) ?p = Some data" using x(4) y(2) by (simp add: unchanged_def)
      ultimately have "update_done sess c s v"
        unfolding update_done_def using l x(5) y rev same
        by (intro exI [of _ 1] exI [of _ "1 + (n + (1 + 1))"] exI [of _ u] exI [of _ data] exI [of _ created] exI [of _ updated]
            exI [of _ w] exI [of _ existing] exI [of _ ms]) simp
      moreover have "fr_applyCommittedSession sess c = c" unfolding y(7) by (simp add: fr_applyCommittedSession_def fr_committed_def)
      ultimately show ?thesis by blast
    qed
    from b reads_body show ?thesis
    proof (cases rule: attempts_cases)
      case (committed c)
      then show ?thesis using run done_ [of c] that(1) [of c] rev by simp
    next
      case (lost c e)
      then show ?thesis using run done_ [of c] that(2) [of _ c] rev by auto
    next
      case (failed n e)
      have "fr_ran (1 + n) s v" using l failed(2) fr_ran_trans by blast
      then show ?thesis using run failed(1) refused by auto
    qed
  qed
qed

end
