(* ===== verification/Firestore_Docs.thy ===== *)
theory Firestore_Docs
  imports Firestore_Spec
begin

text \<open>
  The documents of the Firestore store after writes: a list of writes, the writes of an update, and
  the predicates on documents that a call keeps when other clients keep them.
\<close>

section \<open>Documents after writes\<close>

lemma map_of_apply_write: "map_of (apply_write w db) q = (if q = fst w then snd w (map_of db q) else map_of db q)"
  by (auto simp: apply_write_def AList.delete_conv' AList.update_conv' split: option.splits)

lemma map_of_writes:
  "(\<And>w. w \<in> set ws \<Longrightarrow> fst w = q \<Longrightarrow> snd w = (\<lambda>_. x)) \<Longrightarrow>
     map_of (fold apply_write ws db) q = (if q \<in> fst ` set ws then x else map_of db q)"
  by (induction ws arbitrary: db) (auto simp: map_of_apply_write)

section \<open>The writes of an update\<close>

lemma set_messages_Inr:
  "set_messages refuses col ms = Inr ws \<Longrightarrow>
     ws = map (\<lambda>m. (col @ [msg_id m], set_doc (toMessageMap m))) (filter (\<lambda>m. msg_id m \<noteq> []) ms)"
  by (induction ms arbitrary: ws) (auto split: if_splits sum.splits option.splits)

lemma delete_messages_Inr:
  "delete_messages refuses col keep ms = Inr ws \<Longrightarrow>
     ws = map (\<lambda>m. (col @ [msg_id m], delete_doc)) (filter (\<lambda>m. msg_id m \<notin> set keep \<and> msg_id m \<noteq> []) ms)"
  by (induction ms arbitrary: ws) (auto split: if_splits sum.splits option.splits)

lemma reconcile_Inr:
  assumes "fr_reconcileSessionMessages refuses col ms existing = Inr ws"
  shows "ws = map (\<lambda>m. (col @ [msg_id m], set_doc (toMessageMap m))) (filter (\<lambda>m. msg_id m \<noteq> []) ms) @
    map (\<lambda>m. (col @ [msg_id m], delete_doc)) (filter (\<lambda>m. msg_id m \<notin> msg_id ` set ms \<and> msg_id m \<noteq> []) existing)"
proof -
  have keep: "filter (\<lambda>m. msg_id m \<notin> set (filter (\<lambda>i. i \<noteq> []) (map msg_id ms)) \<and> msg_id m \<noteq> []) existing =
      filter (\<lambda>m. msg_id m \<notin> msg_id ` set ms \<and> msg_id m \<noteq> []) existing"
    by (rule filter_cong) auto
  show ?thesis
    using assms set_messages_Inr [of refuses col ms] delete_messages_Inr [of refuses col "filter (\<lambda>i. i \<noteq> []) (map msg_id ms)" existing]
    unfolding fr_reconcileSessionMessages_def keep by (auto split: sum.splits)
qed

lemma constant_writes: "set_doc fs = (\<lambda>_. Some fs)" "delete_doc = (\<lambda>_. None)"
  by (auto simp: set_doc_def delete_doc_def)

text \<open>The message with an id that is stored: of several, the last.\<close>

definition stored_message :: "message list \<Rightarrow> string \<Rightarrow> message" where
  "stored_message ms i = last (filter (\<lambda>m. msg_id m = i) ms)"

lemma set_writes:
  "map_of (fold apply_write (map (\<lambda>m. (col @ [msg_id m], set_doc (toMessageMap m))) ms) db) (col @ [i]) =
     (if i \<in> msg_id ` set ms then Some (toMessageMap (stored_message ms i)) else map_of db (col @ [i]))"
  by (induction ms rule: rev_induct) (auto simp: map_of_apply_write stored_message_def constant_writes)

lemma reconciled_docs:
  assumes "fr_reconcileSessionMessages refuses col ms existing = Inr ws"
    and "db' = fold apply_write ((p, set_doc doc) # ws) db" "butlast p \<noteq> col"
  shows "map_of db' p = Some doc"
    and "i \<noteq> [] \<Longrightarrow> map_of db' (col @ [i]) =
       (if i \<in> msg_id ` set ms then Some (toMessageMap (stored_message ms i))
        else if i \<in> msg_id ` set existing then None else map_of db (col @ [i]))"
    and "q \<noteq> p \<Longrightarrow> butlast q \<noteq> col \<or> q = col @ [[]] \<Longrightarrow> map_of db' q = map_of db q"
proof -
  note ws = reconcile_Inr [OF assms(1)]
  show "map_of db' p = Some doc"
    unfolding assms(2) ws by (subst map_of_writes [where x = "Some doc"]) (use assms(3) in \<open>auto simp: constant_writes\<close>)
  show "map_of db' q = map_of db q" if q: "q \<noteq> p" "butlast q \<noteq> col \<or> q = col @ [[]]"
    unfolding assms(2) ws by (subst map_of_writes [where x = None]) (use q in \<open>auto simp: constant_writes\<close>)
  assume i: "i \<noteq> []"
  let ?sets = "map (\<lambda>m. (col @ [msg_id m], set_doc (toMessageMap m))) (filter (\<lambda>m. msg_id m \<noteq> []) ms)"
  let ?dels = "map (\<lambda>m. (col @ [msg_id m], delete_doc)) (filter (\<lambda>m. msg_id m \<notin> msg_id ` set ms \<and> msg_id m \<noteq> []) existing)"
  have p: "map_of (apply_write (p, set_doc doc) db) (col @ [i]) = map_of db (col @ [i])"
    using assms(3) by (auto simp: map_of_apply_write)
  have m: "stored_message (filter (\<lambda>m. msg_id m \<noteq> []) ms) i = stored_message ms i"
    unfolding stored_message_def filter_filter by (rule arg_cong [where f = last], rule filter_cong) (use i in auto)
  have s: "map_of (fold apply_write ?sets (apply_write (p, set_doc doc) db)) (col @ [i]) =
      (if i \<in> msg_id ` set ms then Some (toMessageMap (stored_message ms i)) else map_of db (col @ [i]))"
    unfolding set_writes m p using i by auto
  have "map_of db' (col @ [i]) = (if col @ [i] \<in> fst ` set ?dels then None
      else map_of (fold apply_write ?sets (apply_write (p, set_doc doc) db)) (col @ [i]))"
    unfolding assms(2) ws fold_simps fold_append comp_def by (rule map_of_writes) (auto simp: constant_writes)
  moreover have "col @ [i] \<in> fst ` set ?dels \<longleftrightarrow> i \<in> msg_id ` set existing \<and> i \<notin> msg_id ` set ms"
    using i by (auto simp: image_iff)
  ultimately show "map_of db' (col @ [i]) =
       (if i \<in> msg_id ` set ms then Some (toMessageMap (stored_message ms i))
        else if i \<in> msg_id ` set existing then None else map_of db (col @ [i]))"
    unfolding s by auto
qed

section \<open>Predicates that calls keep\<close>

definition others_keep :: "(documents \<Rightarrow> bool) \<Rightarrow> firestore \<Rightarrow> bool" where
  "others_keep P s \<longleftrightarrow> (\<forall>call \<in> set (fr_script s). \<forall>db. P db \<longrightarrow> P (fst call db))"

definition holds :: "(documents \<Rightarrow> bool) \<Rightarrow> firestore \<Rightarrow> bool" where
  "holds P s \<longleftrightarrow> P (fr_db s) \<and> others_keep P s"

lemma holds_ran: "fr_ran n s t \<Longrightarrow> holds P s \<Longrightarrow> holds P t"
  using clients_keep [of "fr_script s" P "fr_db s" n] set_drop_subset [of n "fr_script s"]
  by (auto simp: fr_ran_def fr_after_def holds_def others_keep_def)

lemma holds_db: "holds P s \<Longrightarrow> P db \<Longrightarrow> holds P (s\<lparr>fr_db := db\<rparr>)"
  by (simp add: holds_def others_keep_def)

definition steady :: "(documents \<Rightarrow> bool) \<Rightarrow> (firestore, 'a) act \<Rightarrow> bool" where
  "steady P m \<longleftrightarrow> (\<forall>s r t. m s = (r, t) \<longrightarrow> holds P s \<longrightarrow> holds P t)"

named_theorems steady_rules \<open>operations that keep a predicate\<close>

lemma steadyD: "steady P m \<Longrightarrow> m s = (r, t) \<Longrightarrow> holds P s \<Longrightarrow> holds P t"
  by (auto simp: steady_def)

lemma steady_reads: "reads_only m \<Longrightarrow> steady P m"
  unfolding steady_def reads_only_def using holds_ran by blast

lemma steady_seq [steady_rules]: "steady P m \<Longrightarrow> (\<And>x. steady P (k x)) \<Longrightarrow> steady P (act_seq m k)"
  unfolding steady_def act_seq_iff by blast

lemma steady_wrap [steady_rules]: "steady P m \<Longrightarrow> steady P (act_wrap p m)"
  unfolding steady_def act_wrap_iff by blast

lemma steady_cases [steady_rules]:
  "(b \<Longrightarrow> steady P m) \<Longrightarrow> (\<not> b \<Longrightarrow> steady P n) \<Longrightarrow> steady P (if b then m else n)"
  "steady P m \<Longrightarrow> (\<And>x. steady P (f x)) \<Longrightarrow> steady P (case_option m f opt)"
  by (auto split: option.split)

lemma steady_change [steady_rules]:
  assumes "\<And>db db'. P db \<Longrightarrow> f db = Inr db' \<Longrightarrow> P db'"
  shows "steady P (fr_change f)"
  unfolding steady_def
proof (intro allI impI)
  fix s r t
  assume run: "fr_change f s = (r, t)" and s: "holds P s"
  obtain e u where u: "fr_next s = (e, u)" by force
  have h: "holds P u" by (rule holds_ran [OF fr_next_ran [OF u] s])
  then have "P db' \<Longrightarrow> holds P (u\<lparr>fr_db := db'\<rparr>)" for db' by (rule holds_db)
  moreover have "f (fr_db u) = Inr db' \<Longrightarrow> P db'" for db' using h assms by (auto simp: holds_def)
  ultimately show "holds P t" using run u h
    by (auto simp: fr_change_def split: sum.splits fr_end.splits)
qed

lemma steady_calls [steady_rules]:
  "steady P (act_ret x)" "steady P (act_fail e)" "steady P (act_lift y)" "steady P (fr_look g)"
  "steady P (fr_query col q)" "steady P fr_unix" "steady P (fr_ref p)"
  by (intro steady_reads reads_rules)+

lemma reads_autoid: "reads_only fr_autoid"
  by (auto simp: reads_only_def fr_autoid_def fr_ran_def fr_after_def intro: exI [of _ 0])

lemma steady_transaction:
  assumes "reads_only body" "\<And>s x reads ws t db. body s = (Inr (x, reads, ws), t) \<Longrightarrow> P db \<Longrightarrow> P (fold apply_write ws db)"
  shows "steady P (RunTransaction body)"
  unfolding steady_def RunTransaction_def
proof (intro allI impI)
  fix s r t
  assume run: "fr_attempts 5 body s = (r, t)" and s: "holds P s"
  have written: "holds P t" if tx: "tx_done body s x t" for x
  proof -
    obtain n s1 reads ws s2 u where d: "fr_ran n s s1" "body s1 = (Inr (x, reads, ws), s2)" "fr_ran 1 s2 u"
      "t = u\<lparr>fr_db := fold apply_write ws (fr_db u)\<rparr>"
      using tx unfolding tx_done_def by blast
    have u: "holds P u" using holds_ran [OF d(3)] steadyD [OF steady_reads [OF assms(1)] d(2)] holds_ran [OF d(1) s] by blast
    then have "P (fr_db u)" by (simp add: holds_def)
    from assms(2) [OF d(2) this] show ?thesis unfolding d(4) by (rule holds_db [OF u])
  qed
  from run assms(1) show "holds P t"
    by (cases rule: attempts_cases) (auto intro: written holds_ran [OF _ s])
qed

end
