(* ===== verification/Firestore_Props.thy ===== *)
theory Firestore_Props
  imports Firestore_Docs
begin

text \<open>
  Properties of the Firestore store: updates among other clients, sessions that cannot be read back,
  lookups that never succeed.
\<close>

section \<open>One update among others\<close>

text \<open>The documents before and after one update to \<open>sess\<close> that gave \<open>c\<close> and had found the messages \<open>found\<close>.\<close>

definition document_step :: "session \<Rightarrow> session \<Rightarrow> message list \<Rightarrow> documents \<Rightarrow> documents \<Rightarrow> bool" where
  "document_step sess c found db db' \<longleftrightarrow>
     (let p = [''sessions'', sess_id sess]; col = p @ [''messages'']; ms = sess_messages sess in
      (\<exists>data updated. map_of db p = Some data \<and> revisionFromMap data = Inr (sess_revision sess) \<and>
         int64FromMap data ''createdAt'' = Inr (sess_created_at c) \<and>
         int64FromMap data ''updatedAt'' = Inr updated \<and> updated < sess_updated_at c) \<and>
      c = sess\<lparr>sess_revision := sess_revision sess + 1, sess_created_at := sess_created_at c, sess_updated_at := sess_updated_at c\<rparr> \<and>
      unat (sess_revision c) = Suc (unat (sess_revision sess)) \<and>
      map_of db' p = Some (toSessionMap c) \<and>
      (\<forall>i. i \<noteq> [] \<longrightarrow> map_of db' (col @ [i]) =
         (if i \<in> msg_id ` set ms then Some (toMessageMap (stored_message ms i))
          else if i \<in> msg_id ` set found then None else map_of db (col @ [i]))) \<and>
      (\<forall>q. q \<noteq> p \<longrightarrow> butlast q \<noteq> col \<or> q = col @ [[]] \<longrightarrow> map_of db' q = map_of db q))"

lemma fr_next_revision: "w < fr_max_revision \<Longrightarrow> unat (w + 1) = Suc (unat w)"
  by (rule unat_next) (auto simp: fr_max_revision_def)

lemma done_step:
  assumes "update_done sess c s t" "sess_revision sess < fr_max_revision"
  obtains m n u found where "fr_ran n s u" "m \<le> n" "fr_messages (sess_id sess) (fr_after m s) = Inr found"
    "document_step sess c found (fr_db u) (fr_db t)"
proof -
  let ?p = "[''sessions'', sess_id sess]"
  let ?col = "[''sessions'', sess_id sess, ''messages'']"
  obtain m n u data created updated v existing ms where d: "fr_ran n s u" "map_of (fr_db u) ?p = Some data"
    "revisionFromMap data = Inr (sess_revision sess)" "int64FromMap data ''createdAt'' = Inr created"
    "int64FromMap data ''updatedAt'' = Inr updated" "updated < v" "c = fr_committed sess created v"
    "fr_reconcileSessionMessages (fr_refuses s) ?col (sess_messages sess) existing = Inr ms"
    "fr_db t = fold apply_write ((?p, set_doc (toSessionMap c)) # ms) (fr_db u)"
    "m \<le> n" "fr_messages (sess_id sess) (fr_after m s) = Inr existing"
    using assms(1) unfolding update_done_def by auto
  have below: "butlast ?p \<noteq> ?col" by simp
  note docs = reconciled_docs [OF d(8,9) below]
  have "document_step sess c existing (fr_db u) (fr_db t)"
    using d(2-6) docs(1) docs(2) docs(3) fr_next_revision [OF assms(2)]
    by (simp add: document_step_def Let_def d(7) fr_committed_def)
  then show ?thesis using that d(1,10,11) by blast
qed

text \<open>
  C10: an update of the Firestore store is one step of the documents, whatever other clients do between
  its calls and whatever call fails: either a document that had the supplied revision became the new
  session, one revision further and later than before, its messages were stored under their ids, those
  found when the update began and not kept were deleted, and no document elsewhere was touched; or
  nothing was written, and the caller got an error. An error after the step is the lost answer of the
  commit. Of several messages with one id only the last is stored, and messages without an id are not.
\<close>

theorem firestore_update_atomic:
  assumes "fr_UpdateSession sess s = (r, t)"
  shows "\<exists>n u. fr_ran n s u \<and>
    (isl r \<and> fr_db t = fr_db u \<or>
     (\<exists>c m found. m \<le> n \<and> fr_messages (sess_id sess) (fr_after m s) = Inr found \<and>
        document_step sess c found (fr_db u) (fr_db t) \<and> (r = Inr c \<or> isl r)))"
  using assms
proof (cases rule: fr_update_cases)
  case (committed c)
  then show ?thesis using done_step [OF committed(2,3)] by metis
next
  case (lost c e)
  then show ?thesis using done_step [OF lost(2,3)] by (metis sum.disc(1))
next
  case (refused n e)
  then show ?thesis by (metis sum.disc(1))
qed

section \<open>Sessions that cannot be read back\<close>

text \<open>Every session document has a revision, as the store writes it.\<close>

definition has_revision :: "fields \<Rightarrow> bool" where
  "has_revision fs \<longleftrightarrow> jmember ''revision'' fs \<notin> {None, Some JNull}"

definition revised :: "documents \<Rightarrow> bool" where
  "revised db \<longleftrightarrow> (\<forall>i fs. map_of db [''sessions'', i] = Some fs \<longrightarrow> has_revision fs)"

text \<open>The calls of the store.\<close>

inductive fr_call :: "firestore \<Rightarrow> firestore \<Rightarrow> bool" where
  create: "fr_CreateSession agent user s = (r, t) \<Longrightarrow> fr_call s t"
| get: "fr_GetSession i s = (r, t) \<Longrightarrow> fr_call s t"
| update: "fr_UpdateSession sess s = (r, t) \<Longrightarrow> fr_call s t"
| delete: "fr_DeleteSession i s = (r, t) \<Longrightarrow> fr_call s t"
| list_agent: "fr_ListSessions agent s = (r, t) \<Longrightarrow> fr_call s t"
| list_user: "fr_ListSessionsByUser agent user s = (r, t) \<Longrightarrow> fr_call s t"
| save_tool: "fr_SaveTool d s = (r, t) \<Longrightarrow> fr_call s t"
| get_tool: "fr_GetTool name s = (r, t) \<Longrightarrow> fr_call s t"
| list_tools: "fr_ListTools agent s = (r, t) \<Longrightarrow> fr_call s t"
| delete_tool: "fr_DeleteTool name s = (r, t) \<Longrightarrow> fr_call s t"
| save_skill: "fr_SaveSkill k s = (r, t) \<Longrightarrow> fr_call s t"
| get_skill: "fr_GetSkill name s = (r, t) \<Longrightarrow> fr_call s t"
| list_skills: "fr_ListSkills s = (r, t) \<Longrightarrow> fr_call s t"
| delete_skill: "fr_DeleteSkill name s = (r, t) \<Longrightarrow> fr_call s t"
| save_server: "fr_SaveMCPServer m s = (r, t) \<Longrightarrow> fr_call s t"
| get_server: "fr_GetMCPServer name s = (r, t) \<Longrightarrow> fr_call s t"
| list_servers: "fr_ListMCPServers agent s = (r, t) \<Longrightarrow> fr_call s t"
| delete_server: "fr_DeleteMCPServer name s = (r, t) \<Longrightarrow> fr_call s t"
| set_memory: "fr_SetMemory scope sid key v s = (r, t) \<Longrightarrow> fr_call s t"
| get_memory: "fr_GetMemory scope sid key s = (r, t) \<Longrightarrow> fr_call s t"
| delete_memory: "fr_DeleteMemory scope sid key s = (r, t) \<Longrightarrow> fr_call s t"
| list_memory: "fr_ListMemory scope sid pre s = (r, t) \<Longrightarrow> fr_call s t"
| close: "fr_Close s = (r, t) \<Longrightarrow> fr_call s t"

lemma revised_session_map [simp]: "has_revision (toSessionMap x)"
  by (simp add: has_revision_def toSessionMap_def enc_int_def)

lemma revised_update:
  "revised db \<Longrightarrow> (\<And>i. p = [''sessions'', i] \<Longrightarrow> has_revision fs) \<Longrightarrow> revised (AList.update p fs db)"
  by (auto simp: revised_def AList.update_conv' split: if_splits)

lemma revised_delete: "revised db \<Longrightarrow> revised (AList.delete p db)"
  by (auto simp: revised_def AList.delete_conv' split: if_splits)

lemma jmember_update: "k \<noteq> j \<Longrightarrow> jmember k (AList.update j v fs) = jmember k fs"
proof (induction fs)
  case (Cons f fs)
  then show ?case by (cases f) (auto simp: jmember_def map_add_def split: option.splits)
qed (simp add: jmember_def)

lemma revised_id [simp]: "has_revision (AList.update ''id'' v fs) = has_revision fs"
  by (simp add: has_revision_def jmember_update)

lemma steady_set [steady_rules]: "(\<And>i. p = [''sessions'', i] \<Longrightarrow> has_revision fs) \<Longrightarrow> steady revised (fr_Set p fs)"
  unfolding fr_Set_def by (intro steady_rules) (auto intro: revised_update)

lemma steady_remove [steady_rules]: "steady revised (fr_Delete p)"
  unfolding fr_Delete_def by (intro steady_rules) (auto intro: revised_delete)

lemma steady_modify [steady_rules]:
  assumes "\<And>i fs. p = [''sessions'', i] \<Longrightarrow> has_revision fs \<Longrightarrow> has_revision (f fs)"
  shows "steady revised (fr_Update p f)"
  unfolding fr_Update_def
proof (intro steady_rules)
  fix u db db'
  assume r: "revised db" "(case map_of db p of None \<Rightarrow> Inl (ErrMsg ''no entity to update'') | Some fs \<Rightarrow> Inr (AList.update p (f fs) db)) = Inr db'"
  then obtain fs where fs: "map_of db p = Some fs" "db' = AList.update p (f fs) db" by (auto split: option.splits)
  show "revised db'" unfolding fs(2) by (rule revised_update [OF r(1)], rule assms) (use r(1) fs(1) in \<open>auto simp: revised_def\<close>)
qed

lemma reads_find_tool [reads_rules]: "reads_only (find_tool_doc name what)"
  unfolding find_tool_doc_def by (auto intro!: reads_rules split: list.split option.split)

lemma reads_summaries [reads_rules]: "reads_only (collect_sessions qs operation acc)"
  by (induction qs arbitrary: acc) (auto intro!: reads_rules)

lemmas read_calls = fr_ListTools_def fr_GetTool_def fr_GetSkill_def fr_ListSkills_def fr_GetMCPServer_def fr_ListMCPServers_def
  fr_ListMemory_def fr_GetMemory_def fr_Close_def fr_ListSessions_def fr_ListSessionsByUser_def collectSessionSummaries_def Let_def

lemma reads_stored_calls [reads_rules]:
  "reads_only (fr_ListTools agent)" "reads_only (fr_GetTool name)" "reads_only (fr_GetSkill name)" "reads_only fr_ListSkills"
  "reads_only (fr_GetMCPServer name)" "reads_only (fr_ListMCPServers agent)" "reads_only (fr_ListMemory scope sid pre)"
  "reads_only (fr_GetMemory scope sid key)" "reads_only fr_Close" "reads_only (fr_ListSessions agent)"
  "reads_only (fr_ListSessionsByUser agent user)"
  unfolding read_calls by (intro reads_rules; auto intro!: reads_rules split: option.split json.split)+

lemma steady_create: "steady revised (fr_CreateSession agent user)"
  unfolding fr_CreateSession_def Let_def
  by (intro steady_rules steady_reads [OF reads_autoid])
     (auto simp: revised_id intro!: revised_update revised_session_map split: if_splits)

lemma steady_update: "steady revised (fr_UpdateSession sess)"
  unfolding steady_def
proof (intro allI impI)
  fix s r t
  assume run: "fr_UpdateSession sess s = (r, t)" and s: "holds revised s"
  have "holds revised t" if d: "update_done sess c s t" for c
  proof -
    obtain n u existing ms where w: "fr_ran n s u"
      "fr_reconcileSessionMessages (fr_refuses s) [''sessions'', sess_id sess, ''messages''] (sess_messages sess) existing = Inr ms"
      "t = u\<lparr>fr_db := fold apply_write (([''sessions'', sess_id sess], set_doc (toSessionMap c)) # ms) (fr_db u)\<rparr>"
      using d unfolding update_done_def by blast
    have "map_of (fr_db t) [''sessions'', i] =
        (if i = sess_id sess then Some (toSessionMap c) else map_of (fr_db u) [''sessions'', i])" for i
      using reconciled_docs(1,3) [OF w(2), where p = "[''sessions'', sess_id sess]" and db = "fr_db u" and doc = "toSessionMap c"] w(3)
      by auto
    then have "revised (fr_db t)"
      using holds_ran [OF w(1) s] unfolding revised_def holds_def by auto
    then show ?thesis using holds_ran [OF w(1) s] w(3) by (simp add: holds_def others_keep_def)
  qed
  with run s show "holds revised t" by (cases rule: fr_update_cases) (auto intro: holds_ran)
qed

lemma steady_deletes: "steady revised (delete_docs col ds)"
  by (induction ds) (auto intro!: steady_rules)

lemma steady_delete: "steady revised (fr_DeleteSession i)"
  unfolding fr_DeleteSession_def deleteSubcollection_def by (auto intro!: steady_rules steady_deletes split: option.split)

lemma steady_save_tool: "steady revised (fr_SaveTool d)"
proof -
  have "steady revised (RunTransaction (act_seq (fr_ref [''tools'', td_agent_id d]) (\<lambda>_. act_ret ((), [],
      [([''tools'', td_agent_id d], \<lambda>old. Some (f old))]))))" for f
    by (rule steady_transaction) (auto intro!: reads_rules revised_update simp: act_seq_iff apply_write_def)
  then show ?thesis
    unfolding steady_def fr_SaveTool_def Let_def by (auto simp: act_wrap_iff split: if_splits)
qed

lemma steady_others:
  "steady revised (fr_DeleteTool name)" "steady revised (fr_SaveSkill k)" "steady revised (fr_DeleteSkill name)"
  "steady revised (fr_SaveMCPServer m)" "steady revised (fr_DeleteMCPServer name)"
  "steady revised (fr_SetMemory scope sid key v)" "steady revised (fr_DeleteMemory scope sid key)"
  unfolding fr_DeleteTool_def fr_SaveSkill_def fr_DeleteSkill_def fr_SaveMCPServer_def fr_DeleteMCPServer_def fr_SetMemory_def
    fr_DeleteMemory_def Let_def
  by (auto intro!: steady_rules steady_reads [OF reads_find_tool])

lemmas steady_store_calls = steady_create steady_update steady_delete steady_save_tool steady_others
  steady_reads [OF reads_GetSession] reads_stored_calls [THEN steady_reads]

lemma call_keeps: "fr_call s t \<Longrightarrow> holds revised s \<Longrightarrow> holds revised t"
  by (induction rule: fr_call.induct) (rule steadyD, rule steady_store_calls, assumption, assumption)+

lemma calls_keep: "fr_call\<^sup>*\<^sup>* s t \<Longrightarrow> holds revised s \<Longrightarrow> holds revised t"
  by (induction rule: rtranclp_induct) (auto intro: call_keeps)

lemma revised_not_decoded: "has_revision fs \<Longrightarrow> isl (data_to dec_session_doc what fs)"
  by (auto simp: data_to_def dec_session_doc_def has_revision_def)

text \<open>
  C11: Revision of a session is a uint64, a type DataTo does not set: once every session has a revision,
  as the store writes it, then after any calls of any clients of the store, whatever call fails,
  GetSession never gives a session. It answers that there is none only when there is none; for a
  session that is there, one just created included, it is an error.
\<close>

theorem firestore_sessions_unreadable:
  assumes "fr_call\<^sup>*\<^sup>* s t" "revised (fr_db s)" "others_keep revised s" "fr_GetSession i t = (r, u)"
  shows "isl r \<or> r = Inr None \<and> map_of (fr_db u) [''sessions'', i] = None"
proof -
  have t: "holds revised t" by (rule calls_keep [OF assms(1)]) (simp add: holds_def assms(2,3))
  obtain a v where a: "fr_Get [''sessions'', i] t = (a, v)" by force
  show ?thesis
  proof (cases a)
    case (Inl e)
    then show ?thesis using assms(4) a by (auto simp: fr_GetSession_def act_seq_def act_wrap_def)
  next
    case (Inr d)
    have d: "fr_ran 1 t v" "d = map_of (fr_db v) [''sessions'', i]"
      using a Inr look_ran look_value by (auto simp: fr_Get_def act_seq_iff)
    then have v: "revised (fr_db v)" using holds_ran [OF d(1) t] by (simp add: holds_def)
    show ?thesis
    proof (cases d)
      case None
      then show ?thesis using assms(4) a Inr d by (auto simp: fr_GetSession_def act_seq_def act_wrap_def act_ret_def)
    next
      case (Some fs)
      then have "has_revision fs" using v d(2) unfolding revised_def by metis
      from revised_not_decoded [OF this, of "''firestore: decode session '' @ i"] obtain e where
        "data_to dec_session_doc (''firestore: decode session '' @ i) fs = Inl e" by (auto simp: isl_def)
      then show ?thesis using assms(4) a Inr Some
        by (auto simp: fr_GetSession_def act_seq_def act_wrap_def act_lift_def simp del: append.simps)
    qed
  qed
qed

section \<open>Lookups that find nothing\<close>

definition no_field :: "doc_path \<Rightarrow> string \<Rightarrow> documents \<Rightarrow> bool" where
  "no_field col k db \<longleftrightarrow> (\<forall>(p, fs) \<in> set db. p \<noteq> [] \<longrightarrow> butlast p = col \<longrightarrow> jmember k fs = None)"

text \<open>Other clients do not write the field either.\<close>

definition others_without :: "doc_path \<Rightarrow> string \<Rightarrow> firestore \<Rightarrow> bool" where
  "others_without col k s \<longleftrightarrow> (\<forall>call \<in> set (fr_script s). \<forall>db. no_field col k db \<longrightarrow> no_field col k (fst call db))"

lemma no_field_update:
  "no_field col k db \<Longrightarrow> (butlast p = col \<Longrightarrow> jmember k fs = None) \<Longrightarrow> no_field col k (AList.update p fs db)"
  by (induction db) (auto simp: no_field_def)

lemma no_field_ran: "fr_ran n s t \<Longrightarrow> others_without col k s \<Longrightarrow> no_field col k (fr_db s) \<Longrightarrow> no_field col k (fr_db t) \<and> others_without col k t"
  using clients_keep [of "fr_script s" "no_field col k" "fr_db s" n] set_drop_subset [of n "fr_script s"]
  by (auto simp: fr_ran_def fr_after_def others_without_def)

lemma no_field_where: "no_field col k db \<Longrightarrow> where_eq k v (docs_in col db) = []"
  by (auto simp: where_eq_def docs_in_def no_field_def filter_empty_conv)

lemma query_none:
  assumes "fr_query col q s = (r, t)" "\<And>ds. where_eq k v ds = [] \<Longrightarrow> q ds = []" "others_without col k s" "no_field col k (fr_db s)"
  shows "isl r \<or> (\<exists>e. r = Inr ([], e))"
proof -
  obtain e u where u: "fr_next s = (e, u)" by force
  have "no_field col k (fr_db u)" using no_field_ran [OF fr_next_ran [OF u]] assms(3,4) by blast
  then have "q (docs_in col (fr_db u)) = []" using assms(2) no_field_where by blast
  then show ?thesis using assms(1) u by (auto simp: fr_query_def act_seq_def fr_ref_def Let_def split: fr_end.splits option.splits)
qed

lemma seq_fails: "isl (fst (m s)) \<Longrightarrow> isl (fst (act_seq m k s))"
  by (auto simp: act_seq_def split: prod.split sum.split)

lemma find_tool_none:
  assumes "others_without [''tools''] ''name'' s" "no_field [''tools''] ''name'' (fr_db s)"
  shows "isl (fst (find_tool_doc name what s))"
proof -
  obtain r t where r: "fr_query [''tools''] (\<lambda>ds. take 1 (where_eq ''name'' name ds)) s = (r, t)" by force
  have "isl r \<or> (\<exists>e. r = Inr ([], e))" using query_none [OF r _ assms] by auto
  then show ?thesis using r by (auto simp: find_tool_doc_def act_seq_def act_fail_def split: sum.splits option.splits)
qed

text \<open>
  C38: SaveTool puts a tool below the field \<open>tools\<close> of the agent's document, GetTool and DeleteTool look
  for documents whose own field \<open>name\<close> is the name: in a collection that only SaveTool writes they
  never find a tool.
\<close>

theorem firestore_tools_not_found:
  assumes "fr_SaveTool d s = (r, t)" "no_field [''tools''] ''name'' (fr_db s)" "others_without [''tools''] ''name'' s"
    and "\<forall>old new. jmember ''name'' old = None \<longrightarrow> jmember ''name'' new = None \<longrightarrow> jmember ''name'' (fr_merge s old new) = None"
  shows "no_field [''tools''] ''name'' (fr_db t) \<and> isl (fst (fr_GetTool name t)) \<and> isl (fst (fr_DeleteTool name t))"
proof -
  have kept: "no_field [''tools''] ''name'' (fr_db t) \<and> others_without [''tools''] ''name'' t"
  proof (cases "td_agent_id d = [] \<or> td_name d = []")
    case True
    then show ?thesis using assms(1-3) by (auto simp: fr_SaveTool_def)
  next
    case False
    let ?w = "\<lambda>old. Some (fr_merge s (case old of None \<Rightarrow> [] | Some fs \<Rightarrow> fs)
                 [(''agentID'', JStr (td_agent_id d)), (''tools'', JObj [(td_name d, JObj (toToolMap d))])])"
    let ?body = "act_seq (fr_ref [''tools'', td_agent_id d]) (\<lambda>_. act_ret ((), [], [([''tools'', td_agent_id d], ?w)])) :: unit tx_body"
    obtain y v where y: "fr_attempts 5 ?body s = (y, v)" by force
    have "t = v" using assms(1) False y by (auto simp: fr_SaveTool_def RunTransaction_def Let_def act_wrap_def split: sum.splits)
    have reads: "reads_only ?body" by (intro reads_rules)
    have written: ?thesis if "tx_done ?body s x v" for x
    proof -
      obtain n s1 reads ws s2 u where x: "fr_ran n s s1" "?body s1 = (Inr (x, reads, ws), s2)" "fr_ran 1 s2 u"
        "v = u\<lparr>fr_db := fold apply_write ws (fr_db u)\<rparr>"
        using \<open>tx_done ?body s x v\<close> unfolding tx_done_def by blast
      have w: "ws = [([''tools'', td_agent_id d], ?w)] \<and> s2 = s1" using x(2) by (auto simp: act_seq_iff)
      have "fr_ran (n + 1) s u" using fr_ran_trans [OF x(1), of 1 u] x(3) w by simp
      from no_field_ran [OF this assms(3,2)] have u: "no_field [''tools''] ''name'' (fr_db u)" "others_without [''tools''] ''name'' u" by auto
      have old: "jmember ''name'' fs = None" if "map_of (fr_db u) [''tools'', td_agent_id d] = Some fs" for fs
        using u(1) map_of_SomeD [OF that] by (auto simp: no_field_def)
      have "no_field [''tools''] ''name'' (fr_db v)"
        unfolding x(4) using w u(1) old assms(4)
        by (auto simp: apply_write_def intro!: no_field_update split: option.split)
      then show ?thesis using u(2) \<open>t = v\<close> x(4) by (simp add: others_without_def)
    qed
    from y reads show ?thesis
      by (cases rule: attempts_cases) (use written no_field_ran [OF _ assms(3,2)] \<open>t = v\<close> in auto)
  qed
  then have "isl (fst (find_tool_doc name what t))" for what using find_tool_none by blast
  then show ?thesis using kept by (simp add: fr_GetTool_def fr_DeleteTool_def seq_fails)
qed

text \<open>
  A document of SaveMCPServer has the field \<open>agentId\<close>, ListMCPServers asks for \<open>AgentID\<close>: the list
  is empty for every agent, the one whose server was just saved included.
\<close>

theorem firestore_no_mcp_servers:
  assumes "fr_SaveMCPServer d s = (r, t)" "no_field [''mcp_servers''] ''AgentID'' (fr_db s)" "others_without [''mcp_servers''] ''AgentID'' s"
  shows "no_field [''mcp_servers''] ''AgentID'' (fr_db t) \<and>
    (case fst (fr_ListMCPServers agent t) of Inr servers \<Rightarrow> servers = [] | Inl e \<Rightarrow> True)"
proof -
  have kept: "no_field [''mcp_servers''] ''AgentID'' (fr_db t) \<and> others_without [''mcp_servers''] ''AgentID'' t"
  proof -
    obtain e u where u: "fr_next s = (e, u)" by force
    have ran: "no_field [''mcp_servers''] ''AgentID'' (fr_db u) \<and> others_without [''mcp_servers''] ''AgentID'' u"
      using no_field_ran [OF fr_next_ran [OF u] assms(3,2)] by auto
    have "jmember ''AgentID'' (fields_of (enc_mcp_server_def d)) = None" by (simp add: fields_of_def enc_mcp_server_def_def)
    then have "no_field [''mcp_servers''] ''AgentID'' (AList.update p (fields_of (enc_mcp_server_def d)) (fr_db u))" for p
      using ran by (auto intro: no_field_update)
    then show ?thesis using assms ran u
      by (auto simp: fr_SaveMCPServer_def fr_Set_def fr_ref_def act_seq_def fr_change_def act_wrap_def act_fail_def others_without_def
          split: if_splits fr_end.splits sum.splits prod.splits option.splits)
  qed
  obtain x v where x: "fr_query [''mcp_servers''] (where_eq ''AgentID'' agent) t = (x, v)" by force
  have "isl x \<or> (\<exists>e. x = Inr ([], e))" using query_none [OF x, of "''AgentID''" agent] kept by auto
  then consider e where "x = Inl e" | "x = Inr ([], None)" | e where "x = Inr ([], Some e)"
    by (cases x) (auto, metis option.exhaust)
  then show ?thesis using kept x by cases (simp_all add: fr_ListMCPServers_def act_seq_def act_lift_def)
qed

section \<open>Witnesses\<close>

text \<open>Two messages of one moment, saved in another order than that of their ids, over a store that had a third.\<close>

definition w_fire_message :: "string \<Rightarrow> int \<Rightarrow> message" where
  "w_fire_message i k = \<lparr>msg_id = i, msg_role = ''user'', msg_content = [], msg_tool_calls = [], msg_created_at = k\<rparr>"

definition w_cur :: session where
  "w_cur = \<lparr>sess_id = ''s'', sess_agent_id = ''a'', sess_user_id = ''u'', sess_parent_session_id = [], sess_messages = [w_fire_message ''c'' 4],
     sess_state = [], sess_open_interrupts = [], sess_revision = 1, sess_created_at = 3, sess_updated_at = 7\<rparr>"

definition w_next :: session where
  "w_next = w_cur\<lparr>sess_messages := [w_fire_message ''b'' 5, w_fire_message ''a'' 5]\<rparr>"

definition w_fire :: "((documents \<Rightarrow> documents) \<times> fr_end) list \<Rightarrow> firestore" where
  "w_fire script = \<lparr>
     fr_db = [([''sessions'', ''s''], toSessionMap w_cur), ([''sessions'', ''s'', ''messages'', ''c''], toMessageMap (w_fire_message ''c'' 4))],
     fr_script = script, fr_clock = (\<lambda>k. 9000000000), fr_ticks = 0, fr_newid = (\<lambda>k. ''n''), fr_merge = (\<lambda>old new. old @ new),
     fr_refuses = (\<lambda>p. if list_ex (\<lambda>x. x = [] \<or> CHR ''/'' \<in> set x) p then Some (ErrMsg ''invalid document id'') else None)\<rparr>"

lemmas w_fire_defs = w_fire_def w_cur_def w_next_def w_fire_message_def

text \<open>The first commit is given up for contention and another client writes before the second.\<close>

definition w_contended :: firestore where
  "w_contended = w_fire [(\<lambda>db. db, FrOk), (\<lambda>db. db, FrOk), (\<lambda>db. db, FrOk), (\<lambda>db. db, FrAborted), (\<lambda>db. db, FrOk),
     (\<lambda>db. db @ [([''memory'', ''k''], [])], FrOk), (\<lambda>db. db, FrOk)]"

lemma w_contended_runs: "\<exists>c t. fr_UpdateSession w_next w_contended = (Inr c, t) \<and> sess_revision c = 2"
proof -
  have "case fr_UpdateSession w_next w_contended of (Inr c, t) \<Rightarrow> sess_revision c = 2 | _ \<Rightarrow> False" by code_simp
  then show ?thesis by (auto split: prod.splits sum.splits)
qed

lemma firestore_update_atomic_witness:
  "\<exists>n u c t found. fr_UpdateSession w_next w_contended = (Inr c, t) \<and> fr_ran n w_contended u \<and> document_step w_next c found (fr_db u) (fr_db t)"
proof -
  obtain c t where r: "fr_UpdateSession w_next w_contended = (Inr c, t)" using w_contended_runs by blast
  from firestore_update_atomic [OF r] show ?thesis using r by auto
qed

text \<open>A session is created and cannot be read.\<close>

lemma firestore_sessions_unreadable_witness:
  "\<exists>x t. fr_CreateSession ''a'' ''u'' (w_fire []) = (Inr x, t) \<and> map_of (fr_db t) [''sessions'', sess_id x] \<noteq> None \<and>
     isl (fst (fr_GetSession (sess_id x) t))"
proof -
  have "case fr_CreateSession ''a'' ''u'' (w_fire []) of
      (Inr x, t) \<Rightarrow> map_of (fr_db t) [''sessions'', sess_id x] \<noteq> None \<and> fr_script t = [] | _ \<Rightarrow> False" by code_simp
  then obtain x t where x: "fr_CreateSession ''a'' ''u'' (w_fire []) = (Inr x, t)" "map_of (fr_db t) [''sessions'', sess_id x] \<noteq> None"
    "fr_script t = []" by (auto split: prod.splits sum.splits)
  have call: "fr_call\<^sup>*\<^sup>* (w_fire []) t" using fr_call.create [OF x(1)] by blast
  have ok: "revised (fr_db (w_fire []))" "others_keep revised (w_fire [])"
    by (auto simp: revised_def w_fire_def revised_session_map others_keep_def)
  obtain r u where g: "fr_GetSession (sess_id x) t = (r, u)" by force
  have "fr_db u = fr_db t" using reads_onlyD [OF reads_GetSession g] x(3) by (auto simp: fr_ran_def fr_after_def)
  with firestore_sessions_unreadable [OF call ok g] x g show ?thesis by auto
qed

definition w_tool_def :: tool_def where
  "w_tool_def = \<lparr>td_id = ''1'', td_agent_id = ''a'', td_name = ''f'', td_description = [], td_parameters = JNull, td_handler = ''http'',
     td_endpoint = ''e'', td_headers = [], td_input_mapping = [], td_response_field = [], td_script_path = [], td_created_at = 0\<rparr>"

lemma firestore_tools_not_found_witness:
  "\<exists>t. fr_SaveTool w_tool_def (w_fire []) = (Inr (), t) \<and> isl (fst (fr_GetTool ''f'' t)) \<and> isl (fst (fr_DeleteTool ''f'' t))"
proof -
  have "case fr_SaveTool w_tool_def (w_fire []) of (Inr u, t) \<Rightarrow> True | _ \<Rightarrow> False" by code_simp
  then obtain t where r: "fr_SaveTool w_tool_def (w_fire []) = (Inr (), t)" by (auto split: prod.splits sum.splits)
  have "no_field [''tools''] ''name'' (fr_db (w_fire []))" "others_without [''tools''] ''name'' (w_fire [])"
    "\<forall>old new. jmember ''name'' old = None \<longrightarrow> jmember ''name'' new = None \<longrightarrow> jmember ''name'' (fr_merge (w_fire []) old new) = None"
    by (auto simp: no_field_def others_without_def w_fire_def jmember_append)
  from firestore_tools_not_found [OF r this] show ?thesis using r by blast
qed

definition w_server :: mcp_server_def where
  "w_server = \<lparr>ms_id = ''1'', ms_agent_id = ''a'', ms_name = ''n'', ms_url = ''u'', ms_transport = ''http'', ms_headers = [], ms_enabled = True,
     ms_created_at = 0\<rparr>"

lemma firestore_no_mcp_servers_witness:
  "\<exists>t. fr_SaveMCPServer w_server (w_fire []) = (Inr (), t) \<and> fst (fr_ListMCPServers ''a'' t) = Inr [] \<and>
     fst (fr_GetMCPServer ''n'' t) = Inr (Some w_server)"
proof -
  have "case fr_SaveMCPServer w_server (w_fire []) of (Inr u, t) \<Rightarrow> fst (fr_GetMCPServer ''n'' t) = Inr (Some w_server) \<and>
      \<not> isl (fst (fr_ListMCPServers ''a'' t)) | _ \<Rightarrow> False" by code_simp
  then obtain t where r: "fr_SaveMCPServer w_server (w_fire []) = (Inr (), t)" "fst (fr_GetMCPServer ''n'' t) = Inr (Some w_server)"
    "\<not> isl (fst (fr_ListMCPServers ''a'' t))" by (auto split: prod.splits sum.splits)
  have "no_field [''mcp_servers''] ''AgentID'' (fr_db (w_fire []))" "others_without [''mcp_servers''] ''AgentID'' (w_fire [])"
    by (auto simp: no_field_def others_without_def w_fire_def)
  from firestore_no_mcp_servers [OF r(1) this, of "''a''"] show ?thesis using r by (auto split: sum.splits)
qed

end
