(* ===== verification/Blob_Local.thy ===== *)
theory Blob_Local
  imports Skills Paths "HOL-Library.AList"
begin

text \<open>
  storage/blob/local/store.go: the blob store on a directory. The disk is a tree; each system call
  takes the next outcome of a script. Links, permissions and other processes are not modelled.
\<close>

section \<open>The disk\<close>

datatype node = File string | Folder "(string \<times> node) list"

datatype found = Absent | Blocked | Found node

text \<open>\<open>Blocked\<close>: a file stands where the path needs a directory.\<close>

fun node_at :: "node \<Rightarrow> string list \<Rightarrow> found" where
  "node_at n [] = Found n"
| "node_at (File c) (p # ps) = Blocked"
| "node_at (Folder es) (p # ps) = (case map_of es p of None \<Rightarrow> Absent | Some n \<Rightarrow> node_at n ps)"

fun put_at :: "node \<Rightarrow> string list \<Rightarrow> node \<Rightarrow> node" where
  "put_at n [] x = x"
| "put_at (File c) (p # ps) x = File c"
| "put_at (Folder es) (p # ps) x =
     Folder (case map_of es p of
        None \<Rightarrow> if ps = [] then AList.update p x es else es
      | Some n \<Rightarrow> AList.update p (put_at n ps x) es)"

fun delete_at :: "node \<Rightarrow> string list \<Rightarrow> node" where
  "delete_at (Folder es) [p] = Folder (AList.delete p es)"
| "delete_at (Folder es) (p # ps) =
     Folder (case map_of es p of None \<Rightarrow> es | Some n \<Rightarrow> AList.update p (delete_at n ps) es)"
| "delete_at n ps = n"

fun new_folders :: "string list \<Rightarrow> node" where
  "new_folders [] = Folder []"
| "new_folders (p # ps) = Folder [(p, new_folders ps)]"

text \<open>os.MkdirAll; \<open>None\<close> when a file is in the way.\<close>

fun make_folders :: "node \<Rightarrow> string list \<Rightarrow> node option" where
  "make_folders (File c) ps = None"
| "make_folders (Folder es) [] = Some (Folder es)"
| "make_folders (Folder es) (p # ps) =
     (case map_of es p of
        None \<Rightarrow> Some (Folder (AList.update p (new_folders ps) es))
      | Some n \<Rightarrow> map_option (\<lambda>m. Folder (AList.update p m es)) (make_folders n ps))"

section \<open>System calls\<close>

text \<open>
  \<open>DFail m\<close>: the call did nothing. \<open>DCut n m\<close>: it failed on the way, MkdirAll after the first \<open>n\<close>
  directories of the path, a write after \<open>n\<close> bytes, reading a directory after \<open>n\<close> entries.
\<close>

datatype disk_fault = DOk | DFail string | DCut nat string

record disk =
  dk_root :: node
  dk_cwd :: string
  dk_faults :: "disk_fault list"

definition dk_next :: "disk \<Rightarrow> disk_fault \<times> disk" where
  "dk_next s = (case dk_faults s of [] \<Rightarrow> (DOk, s) | f # fs \<Rightarrow> (f, s\<lparr>dk_faults := fs\<rparr>))"

definition parts :: "string \<Rightarrow> string list" where
  "parts q = filter (\<lambda>p. p \<noteq> []) (split_path q)"

definition path_of :: "string list \<Rightarrow> string" where
  "path_of ps = CHR ''/'' # join_parts ps"

definition path_error :: "string \<Rightarrow> string \<Rightarrow> string \<Rightarrow> error" where
  "path_error op q m = ErrMsg (op @ '' '' @ q @ '': '' @ m)"

text \<open>A call that changes nothing: \<open>f\<close> says what it finds.\<close>

definition dk_look :: "string \<Rightarrow> string \<Rightarrow> (node \<Rightarrow> error + 'a) \<Rightarrow> (disk, 'a) act" where
  "dk_look op q f s =
     (case dk_next s of (e, s1) \<Rightarrow>
       ((case e of DOk \<Rightarrow> f (dk_root s1) | DFail m \<Rightarrow> Inl (path_error op q m) | DCut n m \<Rightarrow> Inl (path_error op q m)), s1))"

text \<open>os.ReadFile; \<open>None\<close> is the error for which os.IsNotExist holds.\<close>

definition dk_ReadFile :: "string \<Rightarrow> (disk, string option) act" where
  "dk_ReadFile q =
     dk_look ''open'' q (\<lambda>tree. case node_at tree (parts q) of
         Absent \<Rightarrow> Inr None
       | Blocked \<Rightarrow> Inl (path_error ''open'' q ''not a directory'')
       | Found (Folder es) \<Rightarrow> Inl (path_error ''read'' q ''is a directory'')
       | Found (File c) \<Rightarrow> Inr (Some c))"

text \<open>os.Stat: is it a directory.\<close>

definition dk_Stat :: "string \<Rightarrow> (disk, bool) act" where
  "dk_Stat q =
     dk_look ''stat'' q (\<lambda>tree. case node_at tree (parts q) of
         Absent \<Rightarrow> Inl (path_error ''stat'' q ''no such file or directory'')
       | Blocked \<Rightarrow> Inl (path_error ''stat'' q ''not a directory'')
       | Found (Folder es) \<Rightarrow> Inr True
       | Found (File c) \<Rightarrow> Inr False)"

definition dk_MkdirAll :: "string \<Rightarrow> (disk, unit) act" where
  "dk_MkdirAll q s =
     (case dk_next s of (e, s1) \<Rightarrow>
       (case (e, make_folders (dk_root s1) (parts q)) of
          (DFail m, _) \<Rightarrow> (Inl (path_error ''mkdir'' q m), s1)
        | (_, None) \<Rightarrow> (Inl (path_error ''mkdir'' q ''not a directory''), s1)
        | (DOk, Some t) \<Rightarrow> (Inr (), s1\<lparr>dk_root := t\<rparr>)
        | (DCut n m, Some t) \<Rightarrow> (Inl (path_error ''mkdir'' q m),
             s1\<lparr>dk_root := (case make_folders (dk_root s1) (take n (parts q)) of None \<Rightarrow> dk_root s1 | Some u \<Rightarrow> u)\<rparr>)))"

text \<open>What keeps os.WriteFile from opening the file.\<close>

definition open_error :: "node \<Rightarrow> string \<Rightarrow> error option" where
  "open_error tree q =
     (case node_at tree (parts q) of
        Blocked \<Rightarrow> Some (path_error ''open'' q ''not a directory'')
      | Found (Folder es) \<Rightarrow> Some (path_error ''open'' q ''is a directory'')
      | Found (File c) \<Rightarrow> None
      | Absent \<Rightarrow> (case node_at tree (butlast (parts q)) of
            Found (Folder es) \<Rightarrow> None
          | _ \<Rightarrow> Some (path_error ''open'' q ''no such file or directory'')))"

definition dk_WriteFile :: "string \<Rightarrow> string \<Rightarrow> (disk, unit) act" where
  "dk_WriteFile q data s =
     (case dk_next s of (e, s1) \<Rightarrow>
       (case (e, open_error (dk_root s1) q) of
          (DFail m, _) \<Rightarrow> (Inl (path_error ''open'' q m), s1)
        | (_, Some x) \<Rightarrow> (Inl x, s1)
        | (DOk, None) \<Rightarrow> (Inr (), s1\<lparr>dk_root := put_at (dk_root s1) (parts q) (File data)\<rparr>)
        | (DCut n m, None) \<Rightarrow> (Inl (path_error ''write'' q m),
             s1\<lparr>dk_root := put_at (dk_root s1) (parts q) (File (take n data))\<rparr>)))"

text \<open>os.Remove; \<open>False\<close> is the error for which os.IsNotExist holds.\<close>

definition dk_Remove :: "string \<Rightarrow> (disk, bool) act" where
  "dk_Remove q s =
     (case dk_next s of (e, s1) \<Rightarrow>
       (case e of
          DOk \<Rightarrow> (case node_at (dk_root s1) (parts q) of
              Absent \<Rightarrow> (Inr False, s1)
            | Blocked \<Rightarrow> (Inl (path_error ''remove'' q ''not a directory''), s1)
            | Found n \<Rightarrow>
                if parts q = [] then (Inl (path_error ''remove'' q ''device or resource busy''), s1)
                else if (case n of File c \<Rightarrow> True | Folder es \<Rightarrow> es = [])
                then (Inr True, s1\<lparr>dk_root := delete_at (dk_root s1) (parts q)\<rparr>)
                else (Inl (path_error ''remove'' q ''directory not empty''), s1))
        | DFail m \<Rightarrow> (Inl (path_error ''remove'' q m), s1)
        | DCut n m \<Rightarrow> (Inl (path_error ''remove'' q m), s1)))"

text \<open>
  filepath.WalkDir with the callback of List, which skips every error: the files it is called for.
  A directory whose reading stops is walked as far as it was read.
\<close>

definition readable_entries :: "disk_fault \<Rightarrow> nat \<Rightarrow> nat" where
  "readable_entries e k = (case e of DOk \<Rightarrow> k | DFail m \<Rightarrow> 0 | DCut n m \<Rightarrow> n)"

fun walk :: "string list \<Rightarrow> node \<Rightarrow> disk \<Rightarrow> string list list \<times> disk"
  and walk_entries :: "nat \<Rightarrow> string list \<Rightarrow> (string \<times> node) list \<Rightarrow> disk \<Rightarrow> string list list \<times> disk" where
  "walk ps (File c) s = ([ps], s)"
| "walk ps (Folder es) s = (case dk_next s of (e, s1) \<Rightarrow> walk_entries (readable_entries e (length es)) ps es s1)"
| "walk_entries n ps [] s = ([], s)"
| "walk_entries n ps ((x, d) # es) s =
     (if n = 0 then ([], s)
      else case walk (ps @ [x]) d s of (a, s1) \<Rightarrow> (case walk_entries (n - 1) ps es s1 of (b, s2) \<Rightarrow> (a @ b, s2)))"

definition WalkDir :: "string \<Rightarrow> disk \<Rightarrow> string list \<times> disk" where
  "WalkDir q s =
     (case dk_next s of (e, s1) \<Rightarrow>
       (case (e, node_at (dk_root s1) (parts q)) of
          (DOk, Found n) \<Rightarrow> (case walk (parts q) n s1 of (qs, s2) \<Rightarrow> (map path_of qs, s2))
        | _ \<Rightarrow> ([], s1)))"

section \<open>Paths\<close>

text \<open>filepath.Abs; Getwd is a call that can fail.\<close>

definition dk_Abs :: "string \<Rightarrow> (disk, string) act" where
  "dk_Abs path =
     (if prefix ''/'' path then act_ret (Clean path)
      else (\<lambda>s. act_seq (dk_look ''getwd'' [] (\<lambda>_. Inr ())) (\<lambda>_. act_ret (Join [dk_cwd s, path])) s))"

text \<open>filepath.Rel between two absolute paths in normal form.\<close>

fun rel_parts :: "string list \<Rightarrow> string list \<Rightarrow> string list" where
  "rel_parts (b # bs) (t # ts) = (if b = t then rel_parts bs ts else map (\<lambda>_. ''..'') (b # bs) @ t # ts)"
| "rel_parts bs ts = map (\<lambda>_. ''..'') bs @ ts"

definition Rel :: "string \<Rightarrow> string \<Rightarrow> string" where
  "Rel base targ =
     (case rel_parts (parts base) (parts targ) of [] \<Rightarrow> ''.'' | ps \<Rightarrow> join_parts ps)"

section \<open>The store\<close>

record local_store =
  baseDir :: string

definition local_New :: "string \<Rightarrow> (disk, local_store) act" where
  "local_New dir =
     act_seq (act_wrap (''local: resolve path '' @ quote dir) (dk_Abs dir)) (\<lambda>abs.
     act_seq (act_wrap (''local: mkdir '' @ quote abs) (dk_MkdirAll abs)) (\<lambda>_.
     act_ret \<lparr>baseDir = abs\<rparr>))"

definition safePath :: "local_store \<Rightarrow> string \<Rightarrow> (disk, string) act" where
  "safePath st path =
     act_seq (act_wrap (''local: resolve '' @ quote path) (dk_Abs (Join [baseDir st, path]))) (\<lambda>abs.
     if prefix (baseDir st) abs then act_ret abs
     else act_fail (ErrMsg (''local: path '' @ quote path @ '' escapes base directory'')))"

definition local_Read :: "local_store \<Rightarrow> string \<Rightarrow> (disk, string option) act" where
  "local_Read st path =
     act_seq (safePath st path) (\<lambda>p.
     act_wrap (''local: read '' @ quote path) (dk_ReadFile p))"

definition Dir :: "string \<Rightarrow> string" where
  "Dir q = path_of (butlast (parts q))"

definition local_Write :: "local_store \<Rightarrow> string \<Rightarrow> string \<Rightarrow> (disk, unit) act" where
  "local_Write st path data =
     act_seq (safePath st path) (\<lambda>p.
     act_seq (act_wrap (''local: mkdir '' @ quote (Dir p)) (dk_MkdirAll (Dir p))) (\<lambda>_.
     act_wrap (''local: write '' @ quote path) (dk_WriteFile p data)))"

definition local_Delete :: "local_store \<Rightarrow> string \<Rightarrow> (disk, unit) act" where
  "local_Delete st path =
     act_seq (safePath st path) (\<lambda>p.
     act_seq (act_wrap (''local: delete '' @ quote path) (dk_Remove p)) (\<lambda>_. act_ret ()))"

text \<open>The loop of List that looks for a directory, on the names of the path from the last one on.\<close>

primrec climb :: "string \<Rightarrow> string list \<Rightarrow> (disk, string) act" where
  "climb base [] =
     act_handle (dk_Stat (path_of [])) (\<lambda>_. act_ret base) (\<lambda>_. act_ret (path_of []))"
| "climb base (p # ps) =
     act_handle (dk_Stat (path_of (rev (p # ps))))
       (\<lambda>_. if path_of (rev ps) = base then act_ret base else climb base ps)
       (\<lambda>is_dir. act_ret (if is_dir then path_of (rev (p # ps)) else path_of (rev ps)))"

definition local_List :: "local_store \<Rightarrow> string \<Rightarrow> (disk, string list) act" where
  "local_List st pre =
     act_seq (if pre = [] then act_ret (baseDir st)
              else climb (baseDir st) (rev (parts (Join [baseDir st, pre])))) (\<lambda>searchDir s.
     case WalkDir searchDir s of (qs, s1) \<Rightarrow>
       (Inr (sort (filter (\<lambda>rel. pre = [] \<or> prefix pre rel) (map (Rel (baseDir st)) qs))), s1))"

definition local_blob_store :: "local_store \<Rightarrow> disk blob_store" where
  "local_blob_store st =
     \<lparr>bs_Read = (\<lambda>path. act_seq (local_Read st path) (\<lambda>d. act_ret (case d of None \<Rightarrow> [] | Some c \<Rightarrow> c))),
      bs_Write = local_Write st, bs_Delete = local_Delete st, bs_List = local_List st\<rparr>"

end
