(* ===== verification/Blob_Local_Spec.thy ===== *)
theory Blob_Local_Spec
  imports Blob_Local Acts Store_Contract
begin

text \<open>
  What the blob store on a directory promises: which files an operation can touch, that a written
  blob is what is read, and exactly what List gives.
\<close>

section \<open>Trees\<close>

definition content :: "node \<Rightarrow> string list \<Rightarrow> string option" where
  "content n ps = (case node_at n ps of Found (File c) \<Rightarrow> Some c | _ \<Rightarrow> None)"

lemma node_at_file [simp]: "node_at (File c) ps = Found x \<longleftrightarrow> ps = [] \<and> x = File c"
  by (cases ps) auto

lemma content_simps [simp]:
  "content (File c) ps = (if ps = [] then Some c else None)" "content (Folder es) [] = None"
  "content (Folder es) (p # ps) = (case map_of es p of None \<Rightarrow> None | Some n \<Rightarrow> content n ps)"
  by (cases ps) (simp_all add: content_def split: option.split)

lemmas alist_simps = update_conv' delete_conv'

text \<open>Two paths neither of which leads through the other.\<close>

definition paths_apart :: "string list \<Rightarrow> string list \<Rightarrow> bool" where
  "paths_apart ps qs \<longleftrightarrow> \<not> prefix ps qs \<and> \<not> prefix qs ps"

lemma paths_apart_Cons [simp]: "paths_apart (p # ps) (q # qs) \<longleftrightarrow> (p = q \<longrightarrow> paths_apart ps qs)"
  "\<not> paths_apart [] qs" "\<not> paths_apart ps []"
  by (auto simp: paths_apart_def)

lemma node_at_append: "node_at n (ps @ qs) = (case node_at n ps of Found m \<Rightarrow> node_at m qs | Blocked \<Rightarrow> Blocked | Absent \<Rightarrow> Absent)"
proof (induction n ps rule: node_at.induct)
  case (3 es p ps)
  then show ?case by (cases "map_of es p") simp_all
qed simp_all

lemma parent_folder: "node_at n (ps @ [p]) = Found x \<Longrightarrow> \<exists>es. node_at n ps = Found (Folder es)"
proof -
  assume a: "node_at n (ps @ [p]) = Found x"
  then obtain m where m: "node_at n ps = Found m" by (auto simp: node_at_append split: found.splits)
  then show ?thesis using a by (cases m) (simp_all add: node_at_append)
qed

lemma content_put:
  assumes "ps \<noteq> []" "node_at n (butlast ps) = Found (Folder es)" "\<And>fs. node_at n ps \<noteq> Found (Folder fs)"
  shows "content (put_at n ps (File c)) qs = (if qs = ps then Some c else content n qs)"
  using assms
proof (induction n ps "File c" arbitrary: qs es rule: put_at.induct)
  case (3 fs p ps)
  show ?case
  proof (cases "ps = []")
    case True
    have "\<exists>d. x = File d" if "map_of fs p = Some x" for x
    proof (cases x)
      case (Folder gs)
      then show ?thesis using 3(4) [of gs] True that by simp
    qed simp
    then show ?thesis using True by (cases qs) (auto simp: alist_simps split: option.split)
  next
    case False
    then obtain m where m: "map_of fs p = Some m" using 3(3) by (cases "map_of fs p") simp_all
    have "content (put_at m ps (File c)) rs = (if rs = ps then Some c else content m rs)" for rs
      using 3(1) [OF m False] 3(3,4) m False by simp
    then show ?thesis using m False by (cases qs) (auto simp: alist_simps)
  qed
qed simp_all

lemma node_at_put_apart: "paths_apart ps qs \<Longrightarrow> node_at (put_at n ps x) qs = node_at n qs"
proof (induction n ps x arbitrary: qs rule: put_at.induct)
  case (3 es p ps x)
  then obtain q rs where "qs = q # rs" by (cases qs) simp_all
  then show ?case using 3 by (cases "map_of es p") (auto simp: alist_simps)
qed simp_all

lemma node_at_put: "ps \<noteq> [] \<Longrightarrow> node_at n (butlast ps) = Found (Folder es) \<Longrightarrow> node_at (put_at n ps x) ps = Found x"
proof (induction n ps x arbitrary: es rule: put_at.induct)
  case (3 fs p ps x)
  show ?case
  proof (cases "ps = []")
    case True
    then show ?thesis by (cases "map_of fs p") (simp_all add: alist_simps)
  next
    case False
    then obtain m where "map_of fs p = Some m" using 3(3) by (cases "map_of fs p") simp_all
    then show ?thesis using 3 False by (simp add: alist_simps)
  qed
qed simp_all

lemma content_new_folders [simp]: "content (new_folders ps) qs = None"
proof (induction ps arbitrary: qs)
  case Nil
  then show ?case by (cases qs) simp_all
next
  case (Cons p ps)
  then show ?case by (cases qs) simp_all
qed

lemma content_make_folders: "make_folders n ps = Some m \<Longrightarrow> content m qs = content n qs"
proof (induction n ps arbitrary: m qs rule: make_folders.induct)
  case (3 es p ps)
  show ?case
  proof (cases "map_of es p")
    case None
    then show ?thesis using 3(2) by (cases qs) (auto simp: alist_simps)
  next
    case (Some n)
    then obtain k where "make_folders n ps = Some k" "m = Folder (AList.update p k es)" using 3(2) by auto
    then show ?thesis using 3(1) [OF Some] Some by (cases qs) (auto simp: alist_simps)
  qed
qed simp_all

lemma node_at_new_folders: "node_at (new_folders ps) ps = Found (Folder [])"
  "\<not> prefix qs ps \<Longrightarrow> node_at (new_folders ps) qs = Absent"
proof -
  show "node_at (new_folders ps) ps = Found (Folder [])" by (induction ps) simp_all
  show "\<not> prefix qs ps \<Longrightarrow> node_at (new_folders ps) qs = Absent"
  proof (induction ps arbitrary: qs)
    case Nil
    then show ?case by (cases qs) simp_all
  next
    case (Cons p ps)
    then show ?case by (cases qs) auto
  qed
qed

lemma node_at_make_folders:
  "make_folders n ps = Some m \<Longrightarrow> \<exists>es. node_at m ps = Found (Folder es)"
  "make_folders n ps = Some m \<Longrightarrow> \<not> prefix qs ps \<Longrightarrow> node_at m qs = node_at n qs"
proof -
  show "make_folders n ps = Some m \<Longrightarrow> \<exists>es. node_at m ps = Found (Folder es)"
  proof (induction n ps arbitrary: m rule: make_folders.induct)
    case (3 es p ps)
    then show ?case by (cases "map_of es p") (auto simp: alist_simps node_at_new_folders)
  qed auto
  show "make_folders n ps = Some m \<Longrightarrow> \<not> prefix qs ps \<Longrightarrow> node_at m qs = node_at n qs"
  proof (induction n ps arbitrary: m qs rule: make_folders.induct)
    case (3 es p ps)
    obtain q rs where q: "qs = q # rs" using 3(3) by (cases qs) simp_all
    show ?case
    proof (cases "map_of es p")
      case None
      then show ?thesis using 3(2,3) q by (auto simp: alist_simps node_at_new_folders)
    next
      case (Some n)
      then show ?thesis using 3 q by (auto simp: alist_simps)
    qed
  qed simp_all
qed

lemma content_delete:
  assumes "ps \<noteq> []" "node_at n ps = Found x" "x = Folder [] \<or> (\<exists>c. x = File c)"
  shows "content (delete_at n ps) qs = (if qs = ps then None else content n qs)"
  using assms(1,2)
proof (induction n ps arbitrary: qs rule: delete_at.induct)
  case (1 es p)
  have "content x rs = None" if "rs \<noteq> []" for rs using assms(3) that by (cases rs) auto
  then show ?case using 1 by (cases qs) (auto simp: alist_simps split: option.splits)
next
  case (2 es p q ps)
  then obtain m where m: "map_of es p = Some m" by (cases "map_of es p") simp_all
  then have "content (delete_at m (q # ps)) rs = (if rs = q # ps then None else content m rs)" for rs
    using 2(1) [OF m] 2(3) by simp
  then show ?case using m by (cases qs) (auto simp: alist_simps)
qed simp_all

lemma node_at_delete_apart: "paths_apart ps qs \<Longrightarrow> node_at (delete_at n ps) qs = node_at n qs"
proof (induction n ps arbitrary: qs rule: delete_at.induct)
  case (1 es p)
  then show ?case by (cases qs) (auto simp: alist_simps)
next
  case (2 es p q ps)
  obtain r rs where "qs = r # rs" using 2(2) by (cases qs) simp_all
  then show ?case using 2 by (cases "map_of es p") (auto simp: alist_simps)
qed simp_all

lemma node_at_deleted: "ps \<noteq> [] \<Longrightarrow> node_at n ps = Found x \<Longrightarrow> node_at (delete_at n ps) ps = Absent"
proof (induction n ps rule: delete_at.induct)
  case (1 es p)
  then show ?case by (simp add: alist_simps)
next
  case (2 es p q ps)
  then show ?case by (cases "map_of es p") (auto simp: alist_simps)
qed simp_all

section \<open>Paths of the store\<close>

lemma parts_path_of: "list_all plain_name ps \<Longrightarrow> parts (path_of ps) = ps"
proof (cases "ps = []")
  case False
  assume p: "list_all plain_name ps"
  then have "filter (\<lambda>p. p \<noteq> []) ps = ps" by (auto simp: filter_id_conv list_all_iff plain_name_def)
  then show ?thesis using split_join [OF plain_no_slash [OF p] False] by (simp add: parts_def path_of_def)
qed (simp add: parts_def path_of_def)

lemma abs_path_parts: "abs_path q \<Longrightarrow> list_all plain_name (parts q) \<and> path_of (parts q) = q"
  using parts_path_of by (auto simp: abs_path_def path_of_def)

lemma abs_path_of: "list_all plain_name ps \<Longrightarrow> abs_path (path_of ps)"
  by (auto simp: abs_path_def path_of_def)

lemma split_append: "list_all no_slash ps \<Longrightarrow> ps \<noteq> [] \<Longrightarrow> split_path (join_parts ps @ CHR ''/'' # r) = ps @ split_path r"
  by (induction ps rule: join_parts.induct) (auto simp: split_slash)

lemma clean_parts_append: "list_all plain_name ps \<Longrightarrow> clean_parts b (ps @ xs) acc = clean_parts b xs (rev ps @ acc)"
  by (induction ps arbitrary: acc) (auto simp: plain_name_def)

lemma Join_path_of:
  assumes "list_all plain_name bs" "p \<noteq> []"
  shows "Join [path_of bs, p] = path_of (rev (clean_parts True (split_path p) (rev bs)))"
proof -
  have "clean_parts True (split_path (join_parts bs @ CHR ''/'' # p)) [] = clean_parts True (split_path p) (rev bs)"
  proof (cases "bs = []")
    case False
    then show ?thesis using assms(1) by (simp add: split_append plain_no_slash clean_parts_append)
  qed simp
  then show ?thesis using assms(2) by (simp add: Join_def path_of_def Clean_rooted)
qed

text \<open>Where the store looks for a key.\<close>

definition target :: "local_store \<Rightarrow> string \<Rightarrow> string" where
  "target st path = Join [baseDir st, path]"

lemma target_abs: "abs_path (baseDir st) \<Longrightarrow> abs_path (target st path)"
  using Clean_abs [of "join_parts (filter (\<lambda>p. p \<noteq> []) [baseDir st, path])"] abs_path_prefix [of "baseDir st"]
  by (cases "path = []") (auto simp: target_def Join_def prefix_def)

lemma safePath_eq:
  assumes "abs_path (baseDir st)"
  shows "safePath st path s =
    (if prefix (baseDir st) (target st path) then Inr (target st path)
     else Inl (ErrMsg (''local: path '' @ quote path @ '' escapes base directory'')), s)"
  using Clean_id [OF target_abs [OF assms, of path]] abs_path_prefix [OF target_abs [OF assms, of path]]
  by (simp add: safePath_def dk_Abs_def target_def act_seq_def act_wrap_def act_ret_def act_fail_def)

lemma dk_next_tree [simp]: "dk_next s = (e, t) \<Longrightarrow> dk_root t = dk_root s"
  by (auto simp: dk_next_def split: list.splits)

section \<open>What one call does\<close>

lemma look_same: "dk_look op q f s = (r, t) \<Longrightarrow> dk_root t = dk_root s"
  by (auto simp: dk_look_def split: prod.splits)

lemma ReadFile_found:
  "dk_ReadFile q s = (Inr x, t) \<Longrightarrow> (case x of None \<Rightarrow> node_at (dk_root s) (parts q) = Absent | Some c \<Rightarrow> content (dk_root s) (parts q) = Some c)"
  by (auto simp: dk_ReadFile_def dk_look_def content_def split: prod.splits disk_fault.splits found.splits node.splits dest!: dk_next_tree)

lemma MkdirAll_cases:
  assumes "dk_MkdirAll q s = (r, t)"
  obtains (made) "r = Inr ()" "make_folders (dk_root s) (parts q) = Some (dk_root t)"
  | (part_) e n where "r = Inl e" "make_folders (dk_root s) (take n (parts q)) = Some (dk_root t)"
  | (same) e where "r = Inl e" "dk_root t = dk_root s"
  using assms
  by (auto simp: dk_MkdirAll_def split: prod.splits disk_fault.splits option.splits dest!: dk_next_tree)

lemma open_error_None:
  assumes "open_error tree q = None" "parts q \<noteq> []"
  shows "\<exists>es. node_at tree (butlast (parts q)) = Found (Folder es)" "node_at tree (parts q) \<noteq> Found (Folder fs)"
proof -
  obtain ps p where ps: "parts q = ps @ [p]" using assms(2) by (cases "parts q" rule: rev_cases) auto
  show "node_at tree (parts q) \<noteq> Found (Folder fs)"
    using assms(1) by (auto simp: open_error_def)
  show "\<exists>es. node_at tree (butlast (parts q)) = Found (Folder es)"
    using assms(1) parent_folder [of tree ps p] ps
    by (auto simp: open_error_def split: found.splits node.splits)
qed

lemma WriteFile_cases:
  assumes "dk_WriteFile q data s = (r, t)"
  obtains (done_) "r = Inr ()" "open_error (dk_root s) q = None" "dk_root t = put_at (dk_root s) (parts q) (File data)"
  | (torn) e n where "r = Inl e" "open_error (dk_root s) q = None" "dk_root t = put_at (dk_root s) (parts q) (File (take n data))"
  | (same) e where "r = Inl e" "dk_root t = dk_root s"
  using assms
  by (auto simp: dk_WriteFile_def split: prod.splits disk_fault.splits option.splits dest!: dk_next_tree)

lemma Remove_cases:
  assumes "dk_Remove q s = (r, t)"
  obtains (absent) "r = Inr False" "dk_root t = dk_root s" "node_at (dk_root s) (parts q) = Absent"
  | (gone) x where "r = Inr True" "parts q \<noteq> []" "node_at (dk_root s) (parts q) = Found x" "x = Folder [] \<or> (\<exists>c. x = File c)"
      "dk_root t = delete_at (dk_root s) (parts q)"
  | (same) e where "r = Inl e" "dk_root t = dk_root s"
  using assms
  by (auto simp: dk_Remove_def split: prod.splits disk_fault.splits found.splits if_splits node.splits dest!: dk_next_tree)

section \<open>What an operation of the store does\<close>

lemma parts_Dir: "abs_path q \<Longrightarrow> parts (Dir q) = butlast (parts q)"
  unfolding Dir_def using abs_path_parts [of q] in_set_butlastD [of _ "parts q"]
  by (intro parts_path_of) (auto simp: list_all_iff)

lemma local_Write_cases:
  assumes "local_Write st path data s = (r, t)" "abs_path (baseDir st)"
  obtains (kept) e where "r = Inl e" "\<And>qs. content (dk_root t) qs = content (dk_root s) qs"
  | (torn) e n where "r = Inl e" "prefix (baseDir st) (target st path)" 
      "\<And>qs. content (dk_root t) qs = (if qs = parts (target st path) then Some (take n data) else content (dk_root s) qs)"
  | (written) "r = Inr ()" "prefix (baseDir st) (target st path)"
      "\<And>qs. content (dk_root t) qs = (if qs = parts (target st path) then Some data else content (dk_root s) qs)"
      "\<And>qs. paths_apart (parts (target st path)) qs \<Longrightarrow> node_at (dk_root t) qs = node_at (dk_root s) qs"
      "node_at (dk_root t) (parts (target st path)) = Found (File data)"
proof -
  let ?q = "target st path"
  have abs: "abs_path ?q" by (rule target_abs [OF assms(2)])
  show ?thesis
  proof (cases "prefix (baseDir st) ?q")
    case False
    then show ?thesis using assms(1) kept by (auto simp: local_Write_def act_seq_def safePath_eq [OF assms(2)])
  next
    case True
    obtain a u where a: "dk_MkdirAll (Dir ?q) s = (a, u)" by force
    obtain b v where b: "dk_WriteFile ?q data u = (b, v)" by force
    have run: "local_Write st path data s = (case a of Inl e \<Rightarrow> (Inl (if is_panic e then e else wrapf (''local: mkdir '' @ quote (Dir ?q)) e), u)
        | Inr _ \<Rightarrow> (case b of Inl e \<Rightarrow> (Inl (if is_panic e then e else wrapf (''local: write '' @ quote path) e), v) | Inr _ \<Rightarrow> (Inr (), v)))"
      using True a b by (simp add: local_Write_def act_seq_def act_wrap_def safePath_eq [OF assms(2)] split: sum.split)
    from a have c: "content (dk_root u) qs = content (dk_root s) qs" for qs
      by (cases rule: MkdirAll_cases) (simp_all add: content_make_folders)
    show ?thesis
    proof (cases a)
      case (Inl e)
      then show ?thesis using assms(1) run kept c by auto
    next
      case (Inr x)
      have m: "make_folders (dk_root s) (butlast (parts ?q)) = Some (dk_root u)"
        using a by (cases rule: MkdirAll_cases) (use Inr parts_Dir [OF abs] in auto)
      have open_ok: "parts ?q \<noteq> []" if "open_error (dk_root u) ?q = None"
        using that node_at_make_folders(1) [OF m] by (auto simp: open_error_def)
      have put: "content (put_at (dk_root u) (parts ?q) (File d)) qs = (if qs = parts ?q then Some d else content (dk_root s) qs)"
        if o: "open_error (dk_root u) ?q = None" for d qs
      proof -
        obtain es where es: "node_at (dk_root u) (butlast (parts ?q)) = Found (Folder es)"
          using open_error_None(1) [OF o open_ok [OF o]] by blast
        show ?thesis unfolding content_put [OF open_ok [OF o] es open_error_None(2) [OF o open_ok [OF o]]] c ..
      qed
      from b show ?thesis
      proof (cases rule: WriteFile_cases)
        case done_
        have "node_at (dk_root u) qs = node_at (dk_root s) qs" if "paths_apart (parts ?q) qs" for qs
          using node_at_make_folders(2) [OF m] that prefix_order.trans [of qs "butlast (parts ?q)" "parts ?q"]
          by (auto simp: paths_apart_def prefixeq_butlast)
        obtain es where "node_at (dk_root u) (butlast (parts ?q)) = Found (Folder es)"
          using open_error_None(1) [OF done_(2) open_ok [OF done_(2)]] by blast
        note parent = this
        from \<open>\<And>qs. paths_apart (parts ?q) qs \<Longrightarrow> node_at (dk_root u) qs = node_at (dk_root s) qs\<close> show ?thesis
          using written assms(1) run Inr done_ True put [OF done_(2)] node_at_put_apart node_at_put [OF open_ok [OF done_(2)] parent]
          by simp
      next
        case (torn e n)
        then show ?thesis using that(2) [OF _ True] assms(1) run Inr put [OF torn(2)] by auto
      next
        case (same e)
        then show ?thesis using kept assms(1) run Inr c by auto
      qed
    qed
  qed
qed

lemma local_Delete_cases:
  assumes "local_Delete st path s = (r, t)" "abs_path (baseDir st)"
  obtains (kept) e where "r = Inl e" "dk_root t = dk_root s"
  | (absent) "r = Inr ()" "dk_root t = dk_root s" "node_at (dk_root s) (parts (target st path)) = Absent"
  | (gone) "r = Inr ()" "prefix (baseDir st) (target st path)"
      "\<And>qs. content (dk_root t) qs = (if qs = parts (target st path) then None else content (dk_root s) qs)"
      "\<And>qs. paths_apart (parts (target st path)) qs \<Longrightarrow> node_at (dk_root t) qs = node_at (dk_root s) qs"
      "node_at (dk_root t) (parts (target st path)) = Absent"
proof -
  let ?q = "target st path"
  show ?thesis
  proof (cases "prefix (baseDir st) ?q")
    case False
    then show ?thesis using assms(1) kept by (auto simp: local_Delete_def act_seq_def safePath_eq [OF assms(2)])
  next
    case True
    obtain a u where a: "dk_Remove ?q s = (a, u)" by force
    have run: "local_Delete st path s =
        (case a of Inl e \<Rightarrow> (Inl (if is_panic e then e else wrapf (''local: delete '' @ quote path) e), u) | Inr _ \<Rightarrow> (Inr (), u))"
      using True a by (simp add: local_Delete_def act_seq_def act_wrap_def act_ret_def safePath_eq [OF assms(2)] split: sum.split)
    from a show ?thesis
    proof (cases rule: Remove_cases)
      case absent
      then show ?thesis using that(2) assms(1) run by simp
    next
      case (gone x)
      then show ?thesis
        using that(3) assms(1) run True content_delete [OF gone(2,3,4)] node_at_delete_apart node_at_deleted [OF gone(2,3)] by simp
    next
      case (same e)
      then show ?thesis using kept assms(1) run by auto
    qed
  qed
qed

lemma local_Read_cases:
  assumes "local_Read st path s = (Inr x, t)" "abs_path (baseDir st)"
  shows "dk_root t = dk_root s \<and> prefix (baseDir st) (target st path) \<and>
    (case x of None \<Rightarrow> node_at (dk_root s) (parts (target st path)) = Absent | Some c \<Rightarrow> content (dk_root s) (parts (target st path)) = Some c)"
proof (cases "prefix (baseDir st) (target st path)")
  case True
  then have "dk_ReadFile (target st path) s = (Inr x, t)"
    using assms by (simp add: local_Read_def act_seq_iff safePath_eq)
  then show ?thesis using True ReadFile_found [of "target st path" s x t] look_same by (auto simp: dk_ReadFile_def)
qed (use assms in \<open>simp add: local_Read_def act_seq_iff safePath_eq\<close>)

section \<open>A map from keys to blobs\<close>

definition local_stored :: "local_store \<Rightarrow> disk \<Rightarrow> string \<Rightarrow> error + string option" where
  "local_stored st s path = fst (local_Read st path (s\<lparr>dk_faults := []\<rparr>))"

lemma local_stored_node:
  assumes "abs_path (baseDir st)" "prefix (baseDir st) (target st path)"
  shows "node_at (dk_root s) (parts (target st path)) = Absent \<Longrightarrow> local_stored st s path = Inr None"
    "node_at (dk_root s) (parts (target st path)) = Found (File c) \<Longrightarrow> local_stored st s path = Inr (Some c)"
  using assms
  by (simp_all add: local_stored_def local_Read_def safePath_eq act_seq_def act_wrap_def dk_ReadFile_def dk_look_def dk_next_def)

lemma local_stored_same:
  assumes "abs_path (baseDir st)" "node_at (dk_root t) (parts (target st path)) = node_at (dk_root s) (parts (target st path))"
  shows "local_stored st t path = local_stored st s path"
  using assms
  by (simp add: local_stored_def local_Read_def safePath_eq act_seq_def act_wrap_def dk_ReadFile_def dk_look_def dk_next_def
      split: sum.split)

lemma local_Write_done:
  assumes "local_Write st k v s = (Inr (), t)" "abs_path (baseDir st)"
  shows "local_stored st t k = Inr (Some v)"
    "paths_apart (parts (target st k)) (parts (target st k')) \<Longrightarrow> local_stored st t k' = local_stored st s k'"
proof -
  from assms have w: "prefix (baseDir st) (target st k)" "node_at (dk_root t) (parts (target st k)) = Found (File v)"
    "\<And>qs. paths_apart (parts (target st k)) qs \<Longrightarrow> node_at (dk_root t) qs = node_at (dk_root s) qs"
    by (cases rule: local_Write_cases; simp)+
  show "local_stored st t k = Inr (Some v)" by (rule local_stored_node(2) [OF assms(2) w(1,2)])
  show "local_stored st t k' = local_stored st s k'" if "paths_apart (parts (target st k)) (parts (target st k'))"
    by (rule local_stored_same [OF assms(2) w(3) [OF that]])
qed

lemma local_Delete_done:
  assumes "local_Delete st k s = (Inr (), t)" "abs_path (baseDir st)"
  shows "local_stored st t k = Inr None"
    "paths_apart (parts (target st k)) (parts (target st k')) \<Longrightarrow> local_stored st t k' = local_stored st s k'"
proof -
  have p: "prefix (baseDir st) (target st k)"
    using assms by (auto simp: local_Delete_def act_seq_iff safePath_eq split: if_splits)
  from assms have w: "node_at (dk_root t) (parts (target st k)) = Absent"
    "\<And>qs. paths_apart (parts (target st k)) qs \<Longrightarrow> node_at (dk_root t) qs = node_at (dk_root s) qs"
    by (cases rule: local_Delete_cases; simp)+
  show "local_stored st t k = Inr None" by (rule local_stored_node(1) [OF assms(2) p w(1)])
  show "local_stored st t k' = local_stored st s k'" if "paths_apart (parts (target st k)) (parts (target st k'))"
    by (rule local_stored_same [OF assms(2) w(2) [OF that]])
qed

interpretation blobs: kv_store "local_Write st" "local_Delete st" "local_stored st" "\<lambda>_. abs_path (baseDir st)"
  "\<lambda>k k'. paths_apart (parts (target st k)) (parts (target st k'))" for st
  by unfold_locales (blast intro: local_Write_done local_Delete_done)+

section \<open>The files of a tree\<close>

fun files_of :: "node \<Rightarrow> string list list"
  and files_of_entries :: "(string \<times> node) list \<Rightarrow> string list list" where
  "files_of (File c) = [[]]"
| "files_of (Folder es) = files_of_entries es"
| "files_of_entries [] = []"
| "files_of_entries ((x, d) # es) = map ((#) x) (files_of d) @ files_of_entries es"

text \<open>No directory has a name twice, and names are names.\<close>

fun node_ok :: "node \<Rightarrow> bool"
  and entries_ok :: "(string \<times> node) list \<Rightarrow> bool" where
  "node_ok (File c) = True"
| "node_ok (Folder es) = (distinct (map fst es) \<and> entries_ok es)"
| "entries_ok [] = True"
| "entries_ok ((x, d) # es) = (plain_name x \<and> node_ok d \<and> entries_ok es)"

lemma files_of_mem:
  "node_ok n \<Longrightarrow> ps \<in> set (files_of n) \<longleftrightarrow> content n ps \<noteq> None"
  "entries_ok es \<Longrightarrow> distinct (map fst es) \<Longrightarrow> ps \<in> set (files_of_entries es) \<longleftrightarrow> content (Folder es) ps \<noteq> None"
proof (induction n and es arbitrary: ps and ps rule: files_of_files_of_entries.induct)
  case (3)
  then show ?case by (cases ps) simp_all
next
  case (4 x d es)
  show ?case
  proof (cases ps)
    case (Cons q qs)
    have "qs \<in> set (files_of d) \<longleftrightarrow> content d qs \<noteq> None" "q # qs \<in> set (files_of_entries es) \<longleftrightarrow> content (Folder es) (q # qs) \<noteq> None"
      using 4 by simp_all
    moreover have "map_of es x = None" using 4(4) by (simp add: map_of_eq_None_iff)
    ultimately show ?thesis using Cons by auto
  qed (use 4 in auto)
qed auto

lemma files_of_entries_hd: "ps \<in> set (files_of_entries es) \<Longrightarrow> ps \<noteq> [] \<and> hd ps \<in> set (map fst es)"
  by (induction es) auto

lemma files_of_ok:
  "node_ok n \<Longrightarrow> distinct (files_of n) \<and> (\<forall>ps \<in> set (files_of n). list_all plain_name ps)"
  "entries_ok es \<Longrightarrow> distinct (map fst es) \<Longrightarrow>
     distinct (files_of_entries es) \<and> (\<forall>ps \<in> set (files_of_entries es). list_all plain_name ps)"
proof (induction n and es rule: files_of_files_of_entries.induct)
  case (4 x d es)
  have "distinct (files_of d) \<and> (\<forall>ps \<in> set (files_of d). list_all plain_name ps)"
    "distinct (files_of_entries es) \<and> (\<forall>ps \<in> set (files_of_entries es). list_all plain_name ps)"
    using 4 by simp_all
  moreover have "x # ps \<notin> set (files_of_entries es)" for ps
    using 4(4) files_of_entries_hd [of "x # ps" es] by auto
  ultimately show ?case using 4(3) by (auto simp: distinct_map inj_on_def)
qed auto

lemma walk_quiet:
  "dk_faults s = [] \<Longrightarrow> walk ps n s = (map ((@) ps) (files_of n), s)"
  "dk_faults s = [] \<Longrightarrow> length es \<le> k \<Longrightarrow> walk_entries k ps es s = (map ((@) ps) (files_of_entries es), s)"
proof (induction ps n s and k ps es s rule: walk_walk_entries.induct)
  case (4 k ps x d es s)
  then show ?case by (auto simp: comp_def)
qed (auto simp: dk_next_def readable_entries_def)

section \<open>Where List looks\<close>

definition folder_at :: "node \<Rightarrow> string list \<Rightarrow> bool" where
  "folder_at n ps \<longleftrightarrow> (\<exists>es. node_at n ps = Found (Folder es))"

lemma Stat_quiet:
  "dk_faults s = [] \<Longrightarrow> list_all plain_name ps \<Longrightarrow>
     (case node_at (dk_root s) ps of
        Found (Folder es) \<Rightarrow> dk_Stat (path_of ps) s = (Inr True, s)
      | Found (File c) \<Rightarrow> dk_Stat (path_of ps) s = (Inr False, s)
      | _ \<Rightarrow> \<exists>m. dk_Stat (path_of ps) s = (Inl (ErrMsg m), s))"
  by (auto simp: dk_Stat_def dk_look_def dk_next_def parts_path_of path_error_def split: found.split node.split)

lemma climb_Cons:
  assumes "dk_faults s = []" "list_all plain_name (ps @ [p])"
  shows "climb base (p # rev ps) s =
    (case node_at (dk_root s) (ps @ [p]) of
       Found (Folder es) \<Rightarrow> (Inr (path_of (ps @ [p])), s)
     | Found (File c) \<Rightarrow> (Inr (path_of ps), s)
     | _ \<Rightarrow> if path_of ps = base then (Inr base, s) else climb base (rev ps) s)"
  using Stat_quiet [OF assms] by (auto simp: act_handle_def act_ret_def split: found.splits node.splits)

lemma path_of_inj: "list_all plain_name ps \<Longrightarrow> list_all plain_name qs \<Longrightarrow> path_of ps = path_of qs \<longleftrightarrow> ps = qs"
  using parts_path_of by metis

lemma climb_quiet:
  assumes "dk_faults s = []" "list_all plain_name bs" "folder_at (dk_root s) bs" "list_all plain_name ns"
  shows "\<exists>j. climb (path_of bs) (rev (bs @ ns)) s = (Inr (path_of (bs @ take j ns)), s) \<and>
    folder_at (dk_root s) (bs @ take j ns) \<and>
    (if folder_at (dk_root s) (bs @ ns) then j = length ns else j < length ns)"
  using assms(4)
proof (induction ns rule: rev_induct)
  case Nil
  have "climb (path_of bs) (rev bs) s = (Inr (path_of bs), s)"
  proof (cases bs rule: rev_cases)
    case Nil
    then show ?thesis using Stat_quiet [OF assms(1), of "[]"] assms(3)
      by (auto simp: folder_at_def act_handle_def act_ret_def)
  next
    case (snoc ps p)
    then show ?thesis using climb_Cons [OF assms(1), of ps p] assms(2,3) by (auto simp: folder_at_def)
  qed
  then show ?case using assms(3) by simp
next
  case (snoc n ns)
  let ?all = "bs @ ns @ [n]"
  have plain: "list_all plain_name ((bs @ ns) @ [n])" "list_all plain_name ns" using assms(2) snoc.prems by simp_all
  note c = climb_Cons [OF assms(1) plain(1), of "path_of bs"]
  obtain j where j: "climb (path_of bs) (rev (bs @ ns)) s = (Inr (path_of (bs @ take j ns)), s)"
    "folder_at (dk_root s) (bs @ take j ns)" "j \<le> length ns"
    using snoc.IH [OF plain(2)] by (auto split: if_splits intro: less_imp_le)
  have up: "\<exists>j. (if path_of (bs @ ns) = path_of bs then (Inr (path_of bs), s) else climb (path_of bs) (rev (bs @ ns)) s) =
      (Inr (path_of (bs @ take j (ns @ [n]))), s) \<and> folder_at (dk_root s) (bs @ take j (ns @ [n])) \<and> j < length (ns @ [n])"
  proof (cases "ns = []")
    case True
    then show ?thesis using assms(3) by (intro exI [of _ 0]) simp
  next
    case False
    then show ?thesis using j path_of_inj [of "bs @ ns" bs] plain assms(2) by (intro exI [of _ j]) simp
  qed
  show ?case
  proof (cases "node_at (dk_root s) ((bs @ ns) @ [n])")
    case (Found x)
    show ?thesis
    proof (cases x)
      case (Folder es)
      then show ?thesis using c Found by (intro exI [of _ "Suc (length ns)"]) (simp add: folder_at_def)
    next
      case (File d)
      then show ?thesis using c Found parent_folder [OF Found] by (intro exI [of _ "length ns"]) (simp add: folder_at_def)
    qed
  qed (use c up in \<open>simp_all add: folder_at_def\<close>)
qed

text \<open>A text that begins with a path goes through all of its names but the last.\<close>

lemma prefix_join:
  "ns \<noteq> [] \<Longrightarrow> list_all plain_name ns \<Longrightarrow> list_all plain_name ps \<Longrightarrow> prefix (join_parts ns) (join_parts ps) \<Longrightarrow> prefix (butlast ns) ps"
proof (induction ns arbitrary: ps rule: join_parts.induct)
  case (3 a b ns)
  note IH = 3(1) and plain = 3(3)
  from 3 obtain r where r: "join_parts ps = a @ CHR ''/'' # join_parts (b # ns) @ r" by (auto simp: prefix_def)
  have a: "no_slash a" using 3(3) by (simp add: plain_name_def)
  show ?case
  proof (cases ps rule: join_parts.cases)
    case (2 p)
    then show ?thesis using r 3(4) by (auto simp: plain_name_def no_slash_def)
  next
    case (3 p q qs)
    then have p: "no_slash p" "list_all plain_name (q # qs)" using \<open>list_all plain_name ps\<close> by (simp_all add: plain_name_def)
    have "p # split_path (join_parts (q # qs)) = a # split_path (join_parts (b # ns) @ r)"
      using arg_cong [OF r, of split_path] 3 split_slash [OF p(1), of "join_parts (q # qs)"]
        split_slash [OF a, of "join_parts (b # ns) @ r"] by simp
    then have "p = a" by simp
    then have "prefix (join_parts (b # ns)) (join_parts (q # qs))" using r 3 by simp
    then have "prefix (butlast (b # ns)) (q # qs)" using IH p(2) plain by simp
    then show ?thesis using \<open>p = a\<close> 3 by simp
  qed (use r in simp)
qed simp_all

section \<open>What List gives\<close>

lemma entries_ok_mem: "entries_ok es \<Longrightarrow> (x, d) \<in> set es \<Longrightarrow> node_ok d \<and> plain_name x"
  by (induction es) auto

lemma node_ok_at: "node_at n ps = Found m \<Longrightarrow> node_ok n \<Longrightarrow> node_ok m \<and> list_all plain_name ps"
proof (induction n ps rule: node_at.induct)
  case (3 es p ps)
  obtain d where d: "map_of es p = Some d" using 3(2) by (cases "map_of es p") simp_all
  have "node_ok d \<and> plain_name p" using entries_ok_mem [of es p d] 3(3) map_of_SomeD [OF d] by simp
  then show ?case using 3(1) [OF d] 3(2) d by simp
qed simp_all

lemma content_below: "node_at n ds = Found m \<Longrightarrow> content n (ds @ r) = content m r"
  by (simp add: content_def node_at_append)

lemma rel_parts_below: "rel_parts bs (bs @ r) = r"
  by (induction bs) (cases r; simp)+

lemma join_parts_eq:
  assumes "list_all plain_name ps" "list_all plain_name qs"
  shows "join_parts ps = join_parts qs \<longleftrightarrow> ps = qs"
  using path_of_inj [OF assms] by (simp add: path_of_def)

lemma join_parts_empty: "list_all plain_name ps \<Longrightarrow> join_parts ps = [] \<longleftrightarrow> ps = []"
  using join_parts_eq [of ps "[]"] by simp

lemma Rel_below: "list_all plain_name (bs @ r) \<Longrightarrow> r \<noteq> [] \<Longrightarrow> Rel (path_of bs) (path_of (bs @ r)) = join_parts r"
  by (cases r) (simp_all add: Rel_def parts_path_of rel_parts_below)

lemma WalkDir_quiet:
  assumes "dk_faults s = []" "list_all plain_name q" "node_at (dk_root s) q = Found n"
  shows "WalkDir (path_of q) s = (map (\<lambda>r. path_of (q @ r)) (files_of n), s)"
  using assms by (simp add: WalkDir_def dk_next_def parts_path_of walk_quiet comp_def)

lemma local_List_quiet:
  assumes "abs_path (baseDir st)" "dk_faults s = []" "node_ok (dk_root s)"
    "folder_at (dk_root s) (parts (baseDir st))" "list_all plain_name ns"
  obtains ds es where "node_at (dk_root s) (parts (baseDir st) @ ds) = Found (Folder es)"
    "list_all plain_name ds" "prefix ds ns" "if folder_at (dk_root s) (parts (baseDir st) @ ns) then ds = ns else prefix ds (butlast ns)"
    "local_List st (join_parts ns) s =
       (Inr (sort (filter (prefix (join_parts ns)) (map (\<lambda>r. join_parts (ds @ r)) (files_of (Folder es))))), s)"
proof -
  let ?bs = "parts (baseDir st)"
  have base: "list_all plain_name ?bs" "path_of ?bs = baseDir st" using abs_path_parts [OF assms(1)] by simp_all
  have "\<exists>j. (if join_parts ns = [] then act_ret (baseDir st)
              else climb (baseDir st) (rev (parts (Join [baseDir st, join_parts ns])))) s = (Inr (path_of (?bs @ take j ns)), s) \<and>
      folder_at (dk_root s) (?bs @ take j ns) \<and> (if folder_at (dk_root s) (?bs @ ns) then j = length ns else j < length ns)"
  proof (cases "ns = []")
    case True
    then show ?thesis using assms(4) base by (simp add: act_ret_def)
  next
    case False
    have ns: "join_parts ns \<noteq> []" using join_parts_empty [OF assms(5)] False by simp
    have "split_path (join_parts ns) = ns" using split_join plain_no_slash [OF assms(5)] False by blast
    then have "Join [path_of ?bs, join_parts ns] = path_of (?bs @ ns)"
      using Join_path_of [OF base(1) ns] clean_parts_id [OF assms(5)] by simp
    then have "parts (Join [baseDir st, join_parts ns]) = ?bs @ ns"
      using base assms(5) parts_path_of [of "?bs @ ns"] by simp
    then show ?thesis using climb_quiet [OF assms(2) base(1) assms(4,5)] ns base(2) by simp
  qed
  then obtain j where j: "(if join_parts ns = [] then act_ret (baseDir st)
              else climb (baseDir st) (rev (parts (Join [baseDir st, join_parts ns])))) s = (Inr (path_of (?bs @ take j ns)), s)"
    "folder_at (dk_root s) (?bs @ take j ns)" "if folder_at (dk_root s) (?bs @ ns) then j = length ns else j < length ns" by blast
  let ?ds = "take j ns"
  obtain es where es: "node_at (dk_root s) (?bs @ ?ds) = Found (Folder es)" using j(2) by (auto simp: folder_at_def)
  have ds: "list_all plain_name ?ds" using assms(5) by (auto simp: list_all_iff dest: in_set_takeD)
  have "Rel (baseDir st) (path_of ((?bs @ ?ds) @ r)) = join_parts (?ds @ r)" if r: "r \<in> set (files_of (Folder es))" for r
  proof -
    have "r \<noteq> []" using r files_of_entries_hd by auto
    moreover have "list_all plain_name r" using r files_of_ok(1) [of "Folder es"] node_ok_at [OF es assms(3)] by blast
    ultimately show ?thesis using Rel_below [of ?bs "?ds @ r"] base ds by simp
  qed
  then have rel: "map (Rel (baseDir st)) (map (\<lambda>r. path_of ((?bs @ ?ds) @ r)) (files_of (Folder es))) =
      map (\<lambda>r. join_parts (?ds @ r)) (files_of (Folder es))"
    unfolding map_map by (intro map_cong) (simp_all only: comp_apply)
  have walk: "WalkDir (path_of (?bs @ ?ds)) s = (map (\<lambda>r. path_of ((?bs @ ?ds) @ r)) (files_of (Folder es)), s)"
    by (rule WalkDir_quiet [OF assms(2) _ es]) (use base(1) ds in simp)
  have any: "(\<lambda>rel. join_parts ns = [] \<or> prefix (join_parts ns) rel) = prefix (join_parts ns)"
    by (auto simp: fun_eq_iff)
  have "local_List st (join_parts ns) s =
      (Inr (sort (filter (prefix (join_parts ns)) (map (\<lambda>r. join_parts (?ds @ r)) (files_of (Folder es))))), s)"
    unfolding local_List_def act_seq_def j(1) by (simp only: prod.case sum.case walk rel any)
  moreover have "if folder_at (dk_root s) (?bs @ ns) then ?ds = ns else prefix ?ds (butlast ns)"
    using j(3) take_butlast [of j ns] take_is_prefix [of j "butlast ns"] by (auto split: if_splits)
  ultimately show ?thesis using that [OF es ds take_is_prefix] by blast
qed

section \<open>The properties\<close>

text \<open>
  C34: Whatever fails, Write and Delete change no file outside the base directory, except below a
  sibling of it whose name begins with the name of the base directory, and Read shows no other file;
  such siblings are within reach, since the check compares texts: with \<open>../\<close>, the sibling's name and
  the path in it, Read finds the sibling's file.
\<close>

theorem local_confined:
  assumes "abs_path (baseDir st)"
  shows "(\<forall>path data r t qs. local_Write st path data s = (r, t) \<and> content (dk_root t) qs \<noteq> content (dk_root s) qs \<longrightarrow>
      prefix (baseDir st) (path_of qs)) \<and>
    (\<forall>path r t qs. local_Delete st path s = (r, t) \<and> content (dk_root t) qs \<noteq> content (dk_root s) qs \<longrightarrow>
      prefix (baseDir st) (path_of qs)) \<and>
    (\<forall>path c t. local_Read st path s = (Inr (Some c), t) \<longrightarrow>
      (\<exists>qs. prefix (baseDir st) (path_of qs) \<and> content (dk_root s) qs = Some c)) \<and>
    (\<forall>ps b x f c. baseDir st = path_of (ps @ [b]) \<and> list_all plain_name (ps @ [b, b @ x, f]) \<and>
      content (dk_root s) (ps @ [b @ x, f]) = Some c \<and> dk_faults s = [] \<longrightarrow>
      fst (local_Read st (''../'' @ b @ x @ ''/'' @ f) s) = Inr (Some c))"
proof (intro conjI allI impI; (elim conjE)?)
  have q: "path_of (parts (target st path)) = target st path" for path
    using abs_path_parts [OF target_abs [OF assms]] by blast
  fix path
  show "prefix (baseDir st) (path_of qs)"
    if "local_Write st path data s = (r, t)" "content (dk_root t) qs \<noteq> content (dk_root s) qs" for data r t qs
    using that(1) assms by (cases rule: local_Write_cases) (use that(2) q [of path] in \<open>auto split: if_splits\<close>)
  show "prefix (baseDir st) (path_of qs)"
    if "local_Delete st path s = (r, t)" "content (dk_root t) qs \<noteq> content (dk_root s) qs" for r t qs
    using that(1) assms by (cases rule: local_Delete_cases) (use that(2) q [of path] in \<open>auto split: if_splits\<close>)
  show "\<exists>qs. prefix (baseDir st) (path_of qs) \<and> content (dk_root s) qs = Some c"
    if "local_Read st path s = (Inr (Some c), t)" for c t
    using local_Read_cases [OF that assms] q [of path] by (intro exI [of _ "parts (target st path)"]) simp
next
  fix ps b x f c
  assume a: "baseDir st = path_of (ps @ [b])" "list_all plain_name (ps @ [b, b @ x, f])"
    "content (dk_root s) (ps @ [b @ x, f]) = Some c" "dk_faults s = []"
  let ?path = "''../'' @ b @ x @ ''/'' @ f"
  have plain: "list_all plain_name (ps @ [b])" "list_all plain_name (ps @ [b @ x, f])" using a(2) by simp_all
  have ns: "no_slash ''..''" "no_slash (b @ x)" "no_slash f" using a(2) by (auto simp: plain_name_def no_slash_def)
  have "split_path ?path = [''..'', b @ x, f]"
    using split_slash [OF ns(1)] split_slash [OF ns(2)] split_plain [OF ns(3)] by simp
  then have t: "target st ?path = path_of (ps @ [b @ x, f])"
    using a(2) Join_path_of [OF plain(1), of ?path] by (auto simp: target_def a(1) plain_name_def)
  have "join_parts (ps @ [b @ x, f]) = join_parts (ps @ [b]) @ x @ ''/'' @ f"
    using join_parts_append [of "ps @ [b @ x]" f] join_parts_append [of ps "b @ x"] join_parts_append [of ps b]
    by (cases "ps = []") simp_all
  then have "prefix (baseDir st) (target st ?path)" unfolding a(1) t by (simp add: path_of_def)
  moreover have "node_at (dk_root s) (parts (target st ?path)) = Found (File c)"
    unfolding t parts_path_of [OF plain(2)] using a(3) by (simp add: content_def split: found.splits node.splits)
  ultimately show "fst (local_Read st ?path s) = Inr (Some c)"
    using a(4) by (simp add: local_Read_def safePath_eq [OF assms] act_seq_def act_wrap_def dk_ReadFile_def dk_look_def dk_next_def)
qed

text \<open>
  C35: whatever fails in between, a Write that returned without error is what the next Read of the key
  gives, and every key reads as before whose file is neither that of the key, under another spelling
  as with \<open>a//b\<close> and \<open>a/b\<close>, nor below or above it: after a Write of \<open>a/b\<close> a Read of \<open>a\<close> finds a directory,
  after one of \<open>a\<close> a Read of \<open>a/b\<close> fails. A Write that fails changed no file or cut the one of the key to
  a beginning of the new data: the old blob is lost then.
\<close>

theorem local_blob_map:
  assumes "abs_path (baseDir st)" "local_Write st k v s = (r, t)"
  shows "(r = Inr () \<longrightarrow> local_stored st t k = Inr (Some v) \<and>
      (\<forall>k'. paths_apart (parts (target st k)) (parts (target st k')) \<longrightarrow> local_stored st t k' = local_stored st s k')) \<and>
    (isl r \<longrightarrow> (\<forall>qs. content (dk_root t) qs = content (dk_root s) qs) \<or>
      (\<exists>n. \<forall>qs. content (dk_root t) qs = (if qs = parts (target st k) then Some (take n v) else content (dk_root s) qs)))"
proof (intro conjI impI allI)
  assume "r = Inr ()"
  then have w: "local_Write st k v s = (Inr (), t)" using assms(2) by simp
  show "local_stored st t k = Inr (Some v)" using blobs.put_ok [OF assms(1) w] by blast
  show "local_stored st t k' = local_stored st s k'" if "paths_apart (parts (target st k)) (parts (target st k'))" for k'
    by (rule blobs.put_other [OF assms(1) w that])
next
  assume "isl r"
  with assms(2,1) show "(\<forall>qs. content (dk_root t) qs = content (dk_root s) qs) \<or>
      (\<exists>n. \<forall>qs. content (dk_root t) qs = (if qs = parts (target st k) then Some (take n v) else content (dk_root s) qs))"
    by (cases rule: local_Write_cases) auto
qed

text \<open>
  C36: With no call failing, List of a path gives, each once and in order, the keys of files that
  begin with the path as text; but when the path is a directory, only those below it: the keys of
  \<open>a/bc\<close> begin with \<open>a/b\<close> and are listed for it as long as there is no directory \<open>a/b\<close>.
\<close>

theorem local_list_exact:
  assumes "abs_path (baseDir st)" "dk_faults s = []" "node_ok (dk_root s)"
    "folder_at (dk_root s) (parts (baseDir st))" "list_all plain_name ns"
  shows "\<exists>ks. local_List st (join_parts ns) s = (Inr ks, s) \<and> sorted ks \<and> distinct ks \<and>
    set ks = {join_parts ps | ps. content (dk_root s) (parts (baseDir st) @ ps) \<noteq> None \<and>
      prefix (join_parts ns) (join_parts ps) \<and>
      (folder_at (dk_root s) (parts (baseDir st) @ ns) \<longrightarrow> prefix ns ps)}"
proof -
  let ?bs = "parts (baseDir st)"
  obtain ds es where es: "node_at (dk_root s) (?bs @ ds) = Found (Folder es)" and ds: "list_all plain_name ds" "prefix ds ns"
      "if folder_at (dk_root s) (?bs @ ns) then ds = ns else prefix ds (butlast ns)"
    and l: "local_List st (join_parts ns) s =
       (Inr (sort (filter (prefix (join_parts ns)) (map (\<lambda>r. join_parts (ds @ r)) (files_of (Folder es))))), s)"
    using local_List_quiet [OF assms] by metis
  let ?ks = "filter (prefix (join_parts ns)) (map (\<lambda>r. join_parts (ds @ r)) (files_of (Folder es)))"
  have ok: "node_ok (Folder es)" using node_ok_at [OF es assms(3)] by simp
  have files: "distinct (files_of (Folder es))" "\<And>r. r \<in> set (files_of (Folder es)) \<Longrightarrow> list_all plain_name r"
    using files_of_ok(1) [OF ok] by blast+
  have "inj_on (\<lambda>r. join_parts (ds @ r)) (set (files_of (Folder es)))"
    using join_parts_eq files(2) ds(1) by (auto simp: inj_on_def)
  then have "distinct ?ks" using files(1) by (simp add: distinct_map)
  moreover have "set ?ks = {join_parts ps | ps. content (dk_root s) (?bs @ ps) \<noteq> None \<and>
      prefix (join_parts ns) (join_parts ps) \<and> (folder_at (dk_root s) (?bs @ ns) \<longrightarrow> prefix ns ps)}" (is "_ = ?A")
  proof (intro set_eqI iffI)
    fix k assume "k \<in> set ?ks"
    then obtain r where "r \<in> set (files_of (Folder es))" "k = join_parts (ds @ r)" "prefix (join_parts ns) k" by auto
    then show "k \<in> ?A"
      using files_of_mem(1) [OF ok] content_below [OF es] ds(3) by (auto intro!: exI [of _ "ds @ r"])
  next
    fix k assume "k \<in> ?A"
    then obtain ps where ps: "k = join_parts ps" "content (dk_root s) (?bs @ ps) \<noteq> None" "prefix (join_parts ns) k"
      "folder_at (dk_root s) (?bs @ ns) \<Longrightarrow> prefix ns ps" by blast
    obtain c where "node_at (dk_root s) (?bs @ ps) = Found (File c)"
      using ps(2) by (auto simp: content_def split: found.splits node.splits)
    then have plain: "list_all plain_name ps" using node_ok_at [OF _ assms(3)] by fastforce
    have "prefix ds ps"
    proof (cases "folder_at (dk_root s) (?bs @ ns)")
      case False
      then show ?thesis
        using ds(3) prefix_join [OF _ assms(5) plain] ps(1,3) prefix_order.trans by (cases "ns = []") auto
    qed (use ds(3) ps(4) in simp)
    then obtain r where r: "ps = ds @ r" by (auto simp: prefix_def)
    then have "r \<in> set (files_of (Folder es))"
      using ps(2) files_of_mem(1) [OF ok] content_below [OF es] by simp
    then show "k \<in> set ?ks" using ps(1,3) r by auto
  qed
  ultimately show ?thesis using l by (intro exI [of _ "sort ?ks"]) simp
qed

section \<open>Concrete runs\<close>

definition w_blobs :: local_store where
  "w_blobs = \<lparr>baseDir = ''/d''\<rparr>"

definition w_disk :: "disk_fault list \<Rightarrow> disk" where
  "w_disk fs = \<lparr>dk_root = Folder [(''d'', Folder [(''a'', Folder [(''b'', Folder [(''x'', File ''1'')]), (''bc'', File ''2'')])]),
     (''d-secret'', Folder [(''key'', File ''3'')])], dk_cwd = ''/'', dk_faults = fs\<rparr>"

lemma w_base: "abs_path (baseDir w_blobs)" "baseDir w_blobs = path_of [''d'']" "parts (baseDir w_blobs) = [''d'']"
proof -
  show b: "baseDir w_blobs = path_of [''d'']" by (simp add: w_blobs_def path_of_def)
  have "list_all plain_name [''d'']" by (simp add: plain_name_def no_slash_def)
  then show "abs_path (baseDir w_blobs)" "parts (baseDir w_blobs) = [''d'']"
    unfolding b using abs_path_of parts_path_of by blast+
qed

theorem local_confined_witness:
  "fst (local_Read w_blobs ''../d-secret/key'' (w_disk [])) = Inr (Some ''3'')"
proof -
  have "\<forall>ps b x f c. baseDir w_blobs = path_of (ps @ [b]) \<and> list_all plain_name (ps @ [b, b @ x, f]) \<and>
      content (dk_root (w_disk [])) (ps @ [b @ x, f]) = Some c \<and> dk_faults (w_disk []) = [] \<longrightarrow>
      fst (local_Read w_blobs (''../'' @ b @ x @ ''/'' @ f) (w_disk [])) = Inr (Some c)"
    using local_confined [OF w_base(1), of "w_disk []"] by (elim conjE)
  from this [rule_format, of "[]" "''d''" "''-secret''" "''key''" "''3''"] show ?thesis
    using w_base(2) by (simp add: w_disk_def plain_name_def no_slash_def)
qed

definition w_disk_written :: disk where
  "w_disk_written = (w_disk [])\<lparr>dk_root := Folder [(''d'', Folder [(''a'', Folder [(''b'', Folder [(''x'', File ''1'')]),
     (''bc'', File ''2''), (''n'', File ''new'')])]), (''d-secret'', Folder [(''key'', File ''3'')])]\<rparr>"

lemma w_written: "local_Write w_blobs ''a/n'' ''new'' (w_disk []) = (Inr (), w_disk_written)"
  by code_simp

theorem local_blob_map_witness:
  "\<exists>t. local_Write w_blobs ''a/n'' ''new'' (w_disk []) = (Inr (), t) \<and> local_stored w_blobs t ''a/n'' = Inr (Some ''new'')"
  using local_blob_map [OF w_base(1) w_written] w_written by blast

theorem local_list_exact_witness:
  "\<exists>ks. local_List w_blobs ''a/b'' (w_disk []) = (Inr ks, w_disk []) \<and> ''a/b/x'' \<in> set ks \<and> ''a/bc'' \<notin> set ks"
proof -
  let ?s = "w_disk []"
  have ok: "dk_faults ?s = []" "node_ok (dk_root ?s)" "folder_at (dk_root ?s) (parts (baseDir w_blobs))"
    "list_all plain_name [''a'', ''b'']"
    unfolding w_base(3) by (simp_all add: w_disk_def folder_at_def plain_name_def no_slash_def)
  have f: "folder_at (dk_root ?s) [''d'', ''a'', ''b'']" by (simp add: w_disk_def folder_at_def)
  obtain ks where ks: "local_List w_blobs (join_parts [''a'', ''b'']) ?s = (Inr ks, ?s)"
    "set ks = {join_parts ps | ps. content (dk_root ?s) (parts (baseDir w_blobs) @ ps) \<noteq> None \<and>
      prefix (join_parts [''a'', ''b'']) (join_parts ps) \<and>
      (folder_at (dk_root ?s) (parts (baseDir w_blobs) @ [''a'', ''b'']) \<longrightarrow> prefix [''a'', ''b''] ps)}"
    using local_list_exact [OF w_base(1) ok] by blast
  have "''a/b/x'' \<in> set ks"
    unfolding ks(2) w_base(3) by (rule CollectI, rule exI [of _ "[''a'', ''b'', ''x'']"]) (simp add: w_disk_def)
  moreover have "''a/bc'' \<notin> set ks"
  proof
    assume "''a/bc'' \<in> set ks"
    then obtain ps where ps: "join_parts ps = ''a/bc''" "prefix [''a'', ''b''] ps"
      unfolding ks(2) w_base(3) using f by auto
    then obtain r where "ps = ''a'' # ''b'' # r" by (auto simp: prefix_def)
    then show False using ps(1) by (cases r) auto
  qed
  ultimately show ?thesis using ks(1) by auto
qed

end
