(* ===== verification/Spec2Isabelle.thy ===== *)
theory Spec2Isabelle
  imports Metadata_Spec Jsonl_Agent Jsonl_Cut Protocol_Spec Sqlite_Props Provider_Spec Jsonl_Open_Spec Mcp_Sse_Spec Mongo_Props Firestore_Props Blob_Local_Spec
begin

text \<open>
  A model of rakit, the Go library for agents: a loop between a language model and tools, over
  stores that keep sessions, tools, skills and memory.

  The program. An agent (agent/agent.go) owns a provider, a tool registry, a skill registry, an
  MCP registry, a metadata store and a blob store. RunWithSession (agent/runner.go) appends the
  user's message to a session, compacts a long history, and loops: it asks the provider for a
  stream, sends the text as events, saves the answer, runs the tools it asks for, saves their
  results and asks again, at most maxIterations times. When the approval policy gates a call, or
  a call belongs to the client, the run saves an interrupt for it and ends; Resume
  (agent/resume.go) takes the answers to the open interrupts, finishes the batch and goes on with
  the loop. The default store (storage/metadata/jsonl) keeps one append-only transcript for each
  session and one log for each domain, and compacts a log by replacing its file.

  Conventions. A Go string is a list of bytes. Nil and empty slices, and nil and empty maps, are
  one value. A Go map is an association list; where the code ranges over one, the model goes
  through it in the order of its keys, an order the code does not promise. An operation that
  returns an error returns a sum with the error on the left, and an error is its text with the
  error it wraps. A panic is the error \<open>ErrPanic\<close>, which passes every handler of the caller.
  The type variable \<open>'w\<close> is the world outside the process: clock, random source, network, tools'
  effects, database. Revisions are \<open>64 word\<close>; timestamps are integers, and so are the counters of
  request ids, which an int of Go wraps after 2^64 requests. JSON: strings are valid UTF-8 (Go writes
  U+FFFD for other bytes), and a number in a value of type \<open>any\<close> keeps its literal (Go reads it as a
  float64).

  The theories, from the bottom up:

  \<^item> \<^theory_text>\<open>Prelude\<close>: errors, decimal and quoted text, lemmas on lists and association lists.
  \<^item> \<^theory_text>\<open>Json\<close>: encoding/json on value trees, and the round trip of rendering and parsing.
  \<^item> \<^theory_text>\<open>Metadata\<close>, \<^theory_text>\<open>Metadata_Spec\<close>: the structs of storage/metadata/metadata.go, their JSON
    codecs, ScopedKey.
  \<^item> \<^theory_text>\<open>Jsonl_Fs\<close>: the machine under the JSONL store; each system call takes the next element of
    a fault script. \<^theory_text>\<open>Jsonl_Log\<close>: paths, envelopes, append, read, repair, lock (store.go,
    lock.go, lock_unix.go, replace_unix.go). \<^theory_text>\<open>Jsonl_Scan\<close>, \<^theory_text>\<open>Jsonl_Rewrite\<close>: what reading finds
    after an append or a replacement that stopped anywhere.
  \<^item> \<^theory_text>\<open>Jsonl_Sessions\<close>: sessions.go. \<^theory_text>\<open>Jsonl_Replay\<close>, \<^theory_text>\<open>Jsonl_Update\<close>, \<^theory_text>\<open>Jsonl_Contract\<close>,
    \<^theory_text>\<open>Jsonl_Lifecycle\<close>: replaying a transcript, and what update, create, delete and list do to
    it. \<^theory_text>\<open>Store_Contract\<close> is the contract of a session store as a locale, which the JSONL store
    interprets. \<^theory_text>\<open>Jsonl_Session_Spec\<close> has the properties, \<^theory_text>\<open>Jsonl_Cut\<close> what becomes of a session
    when a read of its transcript breaks off partway, the one fault the others leave out.
  \<^item> \<^theory_text>\<open>Paths\<close>: path/filepath. \<^theory_text>\<open>Jsonl_Open\<close>, \<^theory_text>\<open>Jsonl_Open_Spec\<close>: NewStore (store.go) and SHA-256, and
    that the store it returns has the layout the other theories on the JSONL store assume.
  \<^item> \<^theory_text>\<open>Jsonl_Domains\<close>: domains.go. \<^theory_text>\<open>Jsonl_Domain_Spec\<close>, \<^theory_text>\<open>Jsonl_Domain_Props\<close>: a domain as a
    map, an instance of a key-value contract, and the properties of memory and tools.
  \<^item> \<^theory_text>\<open>Tools\<close>: tool/tool.go, tool/registry.go, provider/provider.go. \<^theory_text>\<open>Acts\<close>: rules for
    operations on the world. \<^theory_text>\<open>Skills\<close>: the package skill,
    with metadata.Store and blob.BlobStore as records of operations. \<^theory_text>\<open>Mcp\<close>: the package mcp.
    \<^theory_text>\<open>Mcp_Sse\<close>: its transport over server-sent events as a machine whose steps are those of
    concurrent calls, of the goroutines that read streams, and of the network and timers;
    \<^theory_text>\<open>Mcp_Sse_Spec\<close>: what holds in every interleaving, and what a call can wait for.
  \<^item> \<^theory_text>\<open>Agent_Core\<close>: events, the agent, and a run as a function on the world and the log of its
    actions (events sent, provider asked for a stream or for a summary, tools started, sessions saved). \<^theory_text>\<open>Hil\<close>: policies and
    interrupts (hil.go). \<^theory_text>\<open>Compaction\<close>: compaction.go. \<^theory_text>\<open>Runner\<close>: runner.go and persistence.go.
    \<^theory_text>\<open>Resume\<close>: resume.go. \<^theory_text>\<open>Agent_Api\<close>: options, sessions of an agent, Spawn.
  \<^item> \<^theory_text>\<open>Run_Log\<close>, \<^theory_text>\<open>Run_Loop\<close>: locales for a property of the log of a run, with the lemma, once
    for all properties, that every piece of the loop and every entry point has it when the single
    steps do. \<^theory_text>\<open>Run_Props\<close>, \<^theory_text>\<open>Run_Text\<close> interpret them. \<^theory_text>\<open>Agent_Spec\<close>, \<^theory_text>\<open>Resume_Spec\<close>,
    \<^theory_text>\<open>Library_Spec\<close> have the properties of the agent, of resuming and of the libraries.
  \<^item> \<^theory_text>\<open>Jsonl_Agent\<close>: the agent over the JSONL store.
  \<^item> \<^theory_text>\<open>Sqlite\<close>: the store on SQLite (storage/metadata/sqlite/store.go). The tables are lists of
    rows, an SQL statement is a function on them, and each call of database/sql takes the next
    element of a script of outcomes. \<^theory_text>\<open>Sqlite_Contract\<close>: the store interprets the contract that
    the JSONL store interprets. \<^theory_text>\<open>Sqlite_Spec\<close>: updates, the comparison of the two stores and the
    agent over this one. \<^theory_text>\<open>Sqlite_Props\<close>: the keys of the tables under every operation, scoped
    memory, opening.
  \<^item> \<^theory_text>\<open>Mongo\<close>: the store on MongoDB (storage/metadata/mongo/store.go) over collections of
    documents; each call of the driver takes from a script what other clients did before it and how
    it ended (\<^theory_text>\<open>Clients\<close> has the lemmas on scripts). \<^theory_text>\<open>Mongo_Spec\<close>: the ways an update ends. \<^theory_text>\<open>Mongo_Props\<close>: updates among other
    clients, the two contracts when there are none, and listing memory.
  \<^item> \<^theory_text>\<open>Firestore\<close>: the store on Firestore (storage/metadata/firestore/store.go) over documents under
    paths, with such a script and with transactions that are retried. \<^theory_text>\<open>Firestore_Spec\<close>: the ways
    an update ends. \<^theory_text>\<open>Firestore_Docs\<close>: documents after writes, predicates that calls keep.
    \<^theory_text>\<open>Firestore_Props\<close>: updates among other clients, sessions that cannot be read back, lookups that
    find nothing. DataTo follows its documentation, by which the uint64 Revision of a session does not
    decode; so this store keeps no contract of a session store.
  \<^item> \<^theory_text>\<open>Blob_Local\<close>: the blob store on a directory (storage/blob/local/store.go) over a tree of files,
    with system calls that follow a script of faults. \<^theory_text>\<open>Blob_Local_Spec\<close>: which files it can
    touch, reading what was written, listing.
  \<^item> \<^theory_text>\<open>Protocols\<close>: the encoders for AG-UI and the AI SDK and the registry that picks one (the package
    protocol). \<^theory_text>\<open>Protocol_Spec\<close>: what a client reads from their byte streams, and from those of runs.
  \<^item> \<^theory_text>\<open>Providers\<close>: the providers for OpenAI and Gemini (provider/openai, provider/gemini); the
    calls of their SDKs are arguments. \<^theory_text>\<open>Provider_Requests\<close>: what a run asks, message by message.
    \<^theory_text>\<open>Provider_Spec\<close>: the shape of requests, the end of streams, streaming against generating, and
    what comes of names used as ids.

  What is shown. Storage: whatever calls fail, but for a read of the JSONL store that breaks off
  partway, and for the sessions a store can keep (\<open>usable\<close>, \<open>sq_usable\<close>: message ids of their own,
  for SQLite also in strictly increasing order of time), an update is atomic, stale revisions are
  refused without a write, no update is lost, other sessions are untouched; sessions are created,
  listed and deleted as promised, messages of an open transaction do not show, compaction keeps
  the live records, scoped memory behaves as a map. The JSONL, SQLite and MongoDB stores meet one
  contract; JSONL and SQLite accept and refuse the same updates, and updates of the MongoDB and
  Firestore stores are atomic among other clients. Agent: a run ends once, never starts a gated
  call, reports a result or an interrupt only after the save that holds it, asks the provider at
  most maxIterations times, frames its text and sends OpenAI requests of
  the shape its API takes when the history is text; Resume takes exactly the answers that name every open
  interrupt once, starts only approved calls and records the batch. The negative theorems pin down
  where the code does not do what it means to; each is listed with its source line in the findings
  of the manifest.

  Bounds and fuel. The JSON parser takes fuel, twice the length of the text and one more, and
  \<open>parse_value_enough\<close> shows that this suffices. CreateSession makes at most ten attempts, the
  agent at most maxIterations requests, a transaction of Firestore at most five attempts, as in the
  code and the documentation of its client. All other loops recurse on their data.
  A provider's stream is a finite list of events, and the reader of the events channel drains it.

  Not modelled. Of Firestore the references its client refuses, the ids it makes and the merge of
  nested fields, which are parameters, and indexes; of MongoDB the encoding of
  values of type \<open>any\<close> and the matching of regular expressions, which are parameters; of SQLite the
  order of rows without ORDER BY, the number of parameters a statement may have, concurrent
  connections, and a table left by an older version that lacks a column; the blob stores on S3 and
  Firebase; the SDK calls of the providers; the platform files for Windows; the examples, which
  wire HTTP handlers. A process that crashes is a system call that fails and whose caller's later
  calls are ignored. Cancellation of a context is a failing call.
\<close>

end
